(* ===== verification/Prelude.thy ===== *)
theory Prelude
  imports Main "HOL-Library.Word" "HOL-Library.Monad_Syntax"
begin

text \<open>
  Shared vocabulary of the development: the C integer types of
  \<^verbatim>\<open>include/naf/naftypes.h\<close>, memory blocks with checked accesses, the memory
  allocator parameter, C strings, and the generic lemmas the component theories use.

  Conventions used everywhere:
  \<^item> a result of type \<open>'a option\<close> of a whole operation is \<open>None\<close> exactly when the C
    function would perform an access outside an allocated object or through a null
    pointer (undefined behaviour); \<open>Some\<close> is a normal return. Chains of accesses are written
    in the option monad;
  \<^item> a pointer that the code compares with \<open>NULL\<close> is an \<open>option\<close> argument or field;
  \<^item> \<open>naf_u32_t\<close> is \<open>unsigned long\<close>, 64 bits wide on the LP64 systems the code is built
    on; a C \<open>int\<close> is an \<open>int\<close>;
  \<^item> the allocator is a parameter: \<open>mal n\<close> is \<open>None\<close> when a request of \<open>n\<close> bytes is
    refused and \<open>Some bs\<close> with the (unspecified) initial contents \<open>bs\<close> otherwise.
\<close>

unbundle bit_operations_syntax

named_theorems mem_simps \<open>characterisations of checked memory accesses\<close>
named_theorems byte_simps \<open>byte order conversions\<close>

section \<open>C integer types\<close>

type_synonym naf_u8_t = "8 word"
type_synonym naf_u16_t = "16 word"
type_synonym naf_u32_t = "64 word"
type_synonym bytes = "naf_u8_t list"

lemma unat_u8_lt: "unat (x :: naf_u8_t) < 256"
proof -
  have "unat x < 2 ^ LENGTH(8)" by (rule unsigned_less)
  then show ?thesis by simp
qed

lemma unat_u16_lt: "unat (x :: naf_u16_t) < 65536"
proof -
  have "unat x < 2 ^ LENGTH(16)" by (rule unsigned_less)
  then show ?thesis by simp
qed

lemma int_less_uint: "int n < uint w \<longleftrightarrow> n < unat w"
  unfolding uint_nat by (rule of_nat_less_iff)

lemmas zero_less_uint = int_less_uint [of 0, simplified]

lemma unat_add_u16:
  "unat a + unat b < 65536 \<Longrightarrow> unat ((a :: naf_u16_t) + b) = unat a + unat b"
  by (simp add: unat_word_ariths)

lemma unat_of_nat_u16: "n < 65536 \<Longrightarrow> unat (of_nat n :: naf_u16_t) = n"
  by (simp add: unat_of_nat)

lemma unat_ucast_u8_u16: "unat (ucast (w :: naf_u8_t) :: naf_u16_t) = unat w"
proof -
  have "unat w < 65536" using unat_u8_lt [of w] by simp
  then show ?thesis by (simp add: unsigned_ucast_eq take_bit_nat_eq_self)
qed

text \<open>A module is identified by the address of its \<^verbatim>\<open>struct nafmodule\<close>.\<close>

type_synonym nafmod = nat

section \<open>The allocator\<close>

type_synonym allocator = "nat \<Rightarrow> bytes option"

text \<open>What \<open>malloc\<close> guarantees: a block has the requested size.\<close>

definition good_alloc :: "allocator \<Rightarrow> bool" where
  "good_alloc mal \<longleftrightarrow> (\<forall>n bs. mal n = Some bs \<longrightarrow> length bs = n)"

lemma good_allocD: "good_alloc mal \<Longrightarrow> mal n = Some bs \<Longrightarrow> length bs = n"
  by (simp add: good_alloc_def)

text \<open>A system with memory to spare: no request is refused.\<close>

definition total_alloc :: "allocator \<Rightarrow> bool" where
  "total_alloc mal \<longleftrightarrow> good_alloc mal \<and> (\<forall>n. mal n \<noteq> None)"

lemma total_allocD:
  assumes "total_alloc mal"
  shows "good_alloc mal" "\<exists>bs. mal n = Some bs \<and> length bs = n" "mal n \<noteq> None"
  using assms by (auto simp: total_alloc_def good_alloc_def) metis

lemma total_alloc_fun:
  assumes "total_alloc mal" obtains f where "\<And>n. mal n = Some (f n)"
proof (rule that [of "\<lambda>n. the (mal n)"])
  show "mal n = Some (the (mal n))" for n using total_allocD(3) [OF assms, of n] by simp
qed

text \<open>An allocator that always succeeds and one that always refuses, for witnesses.\<close>

definition zero_alloc :: allocator where
  "zero_alloc n = Some (replicate n 0)"

definition no_alloc :: allocator where
  "no_alloc n = None"

lemma good_zero_alloc [simp]: "good_alloc zero_alloc"
  by (simp add: good_alloc_def zero_alloc_def)

lemma total_zero_alloc [simp]: "total_alloc zero_alloc"
  by (simp add: total_alloc_def zero_alloc_def good_alloc_def)

lemma good_no_alloc [simp]: "good_alloc no_alloc"
  by (simp add: good_alloc_def no_alloc_def)

section \<open>Checked memory accesses\<close>

definition mem_read :: "bytes \<Rightarrow> int \<Rightarrow> nat \<Rightarrow> bytes option" where
  "mem_read buf off n =
     (if 0 \<le> off \<and> nat off + n \<le> length buf then Some (take n (drop (nat off) buf)) else None)"

definition mem_write :: "bytes \<Rightarrow> int \<Rightarrow> bytes \<Rightarrow> bytes option" where
  "mem_write buf off bs =
     (if 0 \<le> off \<and> nat off + length bs \<le> length buf
      then Some (take (nat off) buf @ bs @ drop (nat off + length bs) buf) else None)"

lemma mem_read_Some [mem_simps]:
  "mem_read buf off n = Some bs \<longleftrightarrow>
     0 \<le> off \<and> nat off + n \<le> length buf \<and> bs = take n (drop (nat off) buf)"
  by (auto simp: mem_read_def)

lemma mem_write_Some [mem_simps]:
  "mem_write buf off bs = Some buf' \<longleftrightarrow>
     0 \<le> off \<and> nat off + length bs \<le> length buf \<and>
     buf' = take (nat off) buf @ bs @ drop (nat off + length bs) buf"
  by (auto simp: mem_write_def)

lemma mem_read_length: "mem_read buf off n = Some bs \<Longrightarrow> length bs = n"
  by (auto simp: mem_simps)

lemma mem_write_length: "mem_write buf off bs = Some buf' \<Longrightarrow> length buf' = length buf"
  by (auto simp: mem_simps)

lemma mem_write_nat [simp]:
  "n + length bs \<le> length buf \<Longrightarrow>
     mem_write buf (int n) bs = Some (take n buf @ bs @ drop (n + length bs) buf)"
  by (simp add: mem_write_def)

lemma mem_read_nat [simp]:
  "n + k \<le> length buf \<Longrightarrow> mem_read buf (int n) k = Some (take k (drop n buf))"
  by (simp add: mem_read_def)

section \<open>Network byte order\<close>

text \<open>The macros \<^verbatim>\<open>naf_byte_put8/16/32\<close> and \<^verbatim>\<open>naf_byte_get8/16/32\<close>: the bytes they
  store and the value they load. \<^verbatim>\<open>naf_byte_get32\<close> is an \<open>int\<close> expression, which is
  sign-extended when it is stored in a \<open>naf_u32_t\<close>.\<close>

definition naf_byte_put8 :: "naf_u8_t \<Rightarrow> bytes" where
  "naf_byte_put8 v = [v AND 0xff]"

definition naf_byte_put16 :: "naf_u16_t \<Rightarrow> bytes" where
  "naf_byte_put16 v = [ucast (drop_bit 8 v) AND 0xff, ucast v AND 0xff]"

definition naf_byte_put32 :: "naf_u32_t \<Rightarrow> bytes" where
  "naf_byte_put32 v =
     [ucast (drop_bit 24 v) AND 0xff, ucast (drop_bit 16 v) AND 0xff,
      ucast (drop_bit 8 v) AND 0xff, ucast v AND 0xff]"

fun naf_byte_get8 :: "bytes \<Rightarrow> naf_u8_t" where
  "naf_byte_get8 (b0 # _) = b0 AND 0xff"
| "naf_byte_get8 [] = 0"

fun naf_byte_get16 :: "bytes \<Rightarrow> naf_u16_t" where
  "naf_byte_get16 (b0 # b1 # _) = push_bit 8 (ucast b0 AND 0xff) OR (ucast b1 AND 0xff)"
| "naf_byte_get16 _ = 0"

fun naf_byte_get32 :: "bytes \<Rightarrow> naf_u32_t" where
  "naf_byte_get32 (b0 # b1 # b2 # b3 # _) =
     scast (push_bit 24 (ucast b0 AND 0xff) OR push_bit 16 (ucast b1 AND 0xff) OR
            push_bit 8 (ucast b2 AND 0xff) OR (ucast b3 AND 0xff) :: 32 word)"
| "naf_byte_get32 _ = 0"

lemma length_naf_byte_put [simp]:
  "length (naf_byte_put8 v8) = 1" "length (naf_byte_put16 v16) = 2"
  "length (naf_byte_put32 v32) = 4"
  by (simp_all add: naf_byte_put8_def naf_byte_put16_def naf_byte_put32_def)

lemma byte_mask [simp, byte_simps]: "(v :: naf_u8_t) AND 0xff = v"
proof -
  have "(0xff :: naf_u8_t) = - 1" by simp
  then show ?thesis by (metis and.right_neutral)
qed

lemma ucast_byte_mask [byte_simps]:
  "ucast (b :: naf_u8_t) AND (0xff :: naf_u16_t) = ucast b"
  "ucast (b :: naf_u8_t) AND (0xff :: 32 word) = ucast b"
proof -
  have m16: "(0xff :: naf_u16_t) = mask 8" and m32: "(0xff :: 32 word) = mask 8"
    by (simp_all add: mask_eq_exp_minus_1)
  show "ucast (b :: naf_u8_t) AND (0xff :: naf_u16_t) = ucast b"
    unfolding m16 by (rule bit_word_eqI) (auto simp: bit_simps dest: bit_imp_le_length)
  show "ucast (b :: naf_u8_t) AND (0xff :: 32 word) = ucast b"
    unfolding m32 by (rule bit_word_eqI) (auto simp: bit_simps dest: bit_imp_le_length)
qed

lemma naf_byte_get8_put8 [simp, byte_simps]: "naf_byte_get8 (naf_byte_put8 v @ bs) = v"
  by (simp add: naf_byte_put8_def)

lemma naf_byte_get16_put16 [simp, byte_simps]: "naf_byte_get16 (naf_byte_put16 v @ bs) = v"
proof -
  have "push_bit 8 (ucast (ucast (drop_bit 8 v) :: naf_u8_t)) OR ucast (ucast v :: naf_u8_t) = v"
    by (rule bit_word_eqI) (auto simp: bit_simps)
  then show ?thesis by (simp add: naf_byte_put16_def byte_simps)
qed

text \<open>The 32-bit round trip on an LP64 system keeps the low 32 bits and sign-extends them.\<close>

lemma naf_byte_get32_put32 [byte_simps]:
  "naf_byte_get32 (naf_byte_put32 v @ bs) = scast (ucast v :: 32 word)"
proof -
  have "push_bit 24 (ucast (ucast (drop_bit 24 v) :: naf_u8_t)) OR
      push_bit 16 (ucast (ucast (drop_bit 16 v) :: naf_u8_t)) OR
      push_bit 8 (ucast (ucast (drop_bit 8 v) :: naf_u8_t)) OR
      ucast (ucast v :: naf_u8_t) = (ucast v :: 32 word)" (is "?l = ?r")
  proof (rule bit_word_eqI)
    fix n assume "n < LENGTH(32)"
    then consider "n < 8" | "8 \<le> n" "n < 16" | "16 \<le> n" "n < 24" | "24 \<le> n" "n < 32"
      by fastforce
    then show "bit ?l n = bit ?r n"
      by cases (auto simp: bit_simps)
  qed
  then show ?thesis by (simp add: naf_byte_put32_def byte_simps)
qed

lemma naf_byte_get_take:
  "naf_byte_get8 (take (Suc 0) bs) = naf_byte_get8 bs" "naf_byte_get16 (take 2 bs) = naf_byte_get16 bs"
  "naf_byte_get32 (take 4 bs) = naf_byte_get32 bs"
proof -
  show "naf_byte_get8 (take (Suc 0) bs) = naf_byte_get8 bs" by (cases bs) auto
  show "naf_byte_get16 (take 2 bs) = naf_byte_get16 bs"
    by (cases bs rule: naf_byte_get16.cases) (auto simp: numeral_2_eq_2)
  show "naf_byte_get32 (take 4 bs) = naf_byte_get32 bs"
    by (cases bs rule: naf_byte_get32.cases) (auto simp: eval_nat_numeral)
qed

section \<open>Lists\<close>

text \<open>The linked lists of the code are traversed by find-first and unlink-first loops.\<close>

fun unlink_first :: "('a \<Rightarrow> bool) \<Rightarrow> 'a list \<Rightarrow> 'a option \<times> 'a list" where
  "unlink_first P [] = (None, [])"
| "unlink_first P (x # xs) =
     (if P x then (Some x, xs) else (let (r, ys) = unlink_first P xs in (r, x # ys)))"

lemma fst_unlink_first [simp]: "fst (unlink_first P xs) = List.find P xs"
  by (induction xs) (auto simp: case_prod_beta)

lemma unlink_first_None:
  "List.find P xs = None \<Longrightarrow> unlink_first P xs = (None, xs)"
  by (induction xs) (auto split: if_splits)

lemma set_unlink_first: "set (snd (unlink_first P xs)) \<subseteq> set xs"
  by (induction xs) (auto simp: case_prod_beta)

lemma distinct_unlink_first:
  "distinct (map f xs) \<Longrightarrow> distinct (map f (snd (unlink_first P xs)))"
  by (induction xs) (use set_unlink_first in \<open>fastforce simp: case_prod_beta\<close>)+

lemma find_unlink_first_other:
  "(\<And>x. P x \<Longrightarrow> \<not> Q x) \<Longrightarrow> List.find Q (snd (unlink_first P xs)) = List.find Q xs"
  by (induction xs) (auto simp: case_prod_beta)

lemma unlink_first_split:
  "List.find P xs = Some x \<Longrightarrow>
     \<exists>ys zs. xs = ys @ x # zs \<and> snd (unlink_first P xs) = ys @ zs \<and> (\<forall>y \<in> set ys. \<not> P y)"
proof (induction xs)
  case (Cons a xs)
  show ?case
  proof (cases "P a")
    case True
    with Cons.prems have "a # xs = [] @ x # xs \<and> snd (unlink_first P (a # xs)) = [] @ xs \<and>
        (\<forall>y \<in> set []. \<not> P y)" by simp
    then show ?thesis by blast
  next
    case False
    with Cons obtain ys zs where "xs = ys @ x # zs" "snd (unlink_first P xs) = ys @ zs"
      "\<forall>y \<in> set ys. \<not> P y" by auto
    with False have "a # xs = (a # ys) @ x # zs \<and> snd (unlink_first P (a # xs)) = (a # ys) @ zs \<and>
        (\<forall>y \<in> set (a # ys). \<not> P y)" by (simp add: case_prod_beta)
    then show ?thesis by blast
  qed
qed simp

lemma length_unlink_first:
  "length (snd (unlink_first P xs)) =
     (case List.find P xs of None \<Rightarrow> length xs | Some _ \<Rightarrow> length xs - 1)"
  by (auto simp: unlink_first_None dest!: unlink_first_split split: option.split)

end
