(* ===== verification/Interfaces.thy ===== *)
theory Interfaces
  imports Prelude
begin

text \<open>
  The contracts between the components, as locales: \<open>byte_sink\<close> and \<open>byte_source\<close> for what
  the encoders and decoders rely on in a cursor buffer, and \<open>keyed_list\<close> for the linked lists
  that are searched, pushed to and unlinked from by key (tags, cookies, configuration
  parameters, RPC methods, TLVs). Each is interpreted by the theories of the components that
  provide it.
\<close>

section \<open>Sinks\<close>

fun put_all :: "('s \<Rightarrow> bytes \<Rightarrow> (int \<times> 's) option) \<Rightarrow> 's \<Rightarrow> bytes list \<Rightarrow> (int \<times> 's) option" where
  "put_all put s [] = Some (0, s)"
| "put_all put s (bs # bss) = do {
     (n, s) \<leftarrow> put s bs;
     (m, s) \<leftarrow> put_all put s bss;
     Some (n + m, s)
   }"

locale byte_sink =
  fixes inv :: "'s \<Rightarrow> bool" and written :: "'s \<Rightarrow> bytes" and room :: "'s \<Rightarrow> nat"
    and put :: "'s \<Rightarrow> bytes \<Rightarrow> (int \<times> 's) option"
  assumes put_fits: "inv s \<Longrightarrow> length bs \<le> room s \<Longrightarrow>
    \<exists>s'. put s bs = Some (int (length bs), s') \<and> inv s' \<and> written s' = written s @ bs \<and>
         room s' = room s - length bs"
begin

text \<open>A sequence of puts that fits writes the concatenation.\<close>

lemma put_all_fits:
  "inv s \<Longrightarrow> length (concat bss) \<le> room s \<Longrightarrow>
     \<exists>s'. put_all put s bss = Some (int (length (concat bss)), s') \<and> inv s' \<and>
          written s' = written s @ concat bss \<and> room s' = room s - length (concat bss)"
proof (induction bss arbitrary: s)
  case (Cons bs bss)
  from Cons.prems obtain s1 where s1: "put s bs = Some (int (length bs), s1)" "inv s1"
    "written s1 = written s @ bs" "room s1 = room s - length bs"
    using put_fits [of s bs] by auto
  with Cons.prems have "length (concat bss) \<le> room s1" by simp
  with Cons.IH [OF s1(2)] obtain s2 where
    "put_all put s1 bss = Some (int (length (concat bss)), s2)" "inv s2"
    "written s2 = written s1 @ concat bss" "room s2 = room s1 - length (concat bss)" by auto
  with s1 show ?case by simp
qed simp

end

section \<open>Sources\<close>

locale byte_source =
  fixes inv :: "'s \<Rightarrow> bool" and rest :: "'s \<Rightarrow> bytes"
    and get8 :: "'s \<Rightarrow> (naf_u8_t \<times> 's) option" and get16 :: "'s \<Rightarrow> (naf_u16_t \<times> 's) option"
  assumes get8_ok: "inv s \<Longrightarrow> rest s = naf_byte_put8 v8 @ bs \<Longrightarrow>
      \<exists>s'. get8 s = Some (v8, s') \<and> inv s' \<and> rest s' = bs"
    and get16_ok: "inv s \<Longrightarrow> rest s = naf_byte_put16 v16 @ bs \<Longrightarrow>
      \<exists>s'. get16 s = Some (v16, s') \<and> inv s' \<and> rest s' = bs"
begin

text \<open>Two consecutive fields, as in the header of a TLV or of a FLAP frame.\<close>

lemma get16_get16:
  "inv s \<Longrightarrow> rest s = naf_byte_put16 a @ naf_byte_put16 b @ bs \<Longrightarrow>
     \<exists>s1 s2. get16 s = Some (a, s1) \<and> get16 s1 = Some (b, s2) \<and> inv s2 \<and> rest s2 = bs"
  using get16_ok by metis

lemma get8_get8:
  "inv s \<Longrightarrow> rest s = naf_byte_put8 a @ naf_byte_put8 b @ bs \<Longrightarrow>
     \<exists>s1 s2. get8 s = Some (a, s1) \<and> get8 s1 = Some (b, s2) \<and> inv s2 \<and> rest s2 = bs"
  using get8_ok by metis

end

section \<open>Keyed lists\<close>

text \<open>No two elements of the list answer to the same key.\<close>

definition unique_by :: "('k \<Rightarrow> 'a \<Rightarrow> bool) \<Rightarrow> 'a list \<Rightarrow> bool" where
  "unique_by matches = sorted_wrt (\<lambda>a b. \<forall>k. \<not> (matches k a \<and> matches k b))"

lemma unique_by_Nil [simp]: "unique_by matches []"
  by (simp add: unique_by_def)

lemma unique_by_Cons:
  "unique_by matches (a # xs) \<longleftrightarrow>
     (\<forall>b \<in> set xs. \<forall>k. \<not> (matches k a \<and> matches k b)) \<and> unique_by matches xs"
  by (simp add: unique_by_def)

lemma unique_by_unlink:
  "unique_by matches xs \<Longrightarrow> unique_by matches (snd (unlink_first P xs))"
  by (induction xs) (use set_unlink_first in \<open>fastforce simp: case_prod_beta unique_by_Cons\<close>)+

lemma unique_by_filter: "unique_by matches xs \<Longrightarrow> unique_by matches (filter P xs)"
  by (simp add: unique_by_def sorted_wrt_filter)

lemma find_unlink_same:
  "unique_by matches xs \<Longrightarrow> List.find (matches k) (snd (unlink_first (matches k) xs)) = None"
  by (induction xs) (auto simp: case_prod_beta unique_by_Cons find_None_iff)

locale keyed_list =
  fixes matches :: "'k \<Rightarrow> 'a \<Rightarrow> bool" and items :: "'l \<Rightarrow> 'a list"
    and lookup :: "'k \<Rightarrow> 'l \<Rightarrow> 'a option" and unlink :: "'k \<Rightarrow> 'l \<Rightarrow> 'a option \<times> 'l"
    and push :: "'a \<Rightarrow> 'l \<Rightarrow> 'l"
  assumes lookup_items: "lookup k l = List.find (matches k) (items l)"
    and fst_unlink: "fst (unlink k l) = List.find (matches k) (items l)"
    and items_unlink: "items (snd (unlink k l)) = snd (unlink_first (matches k) (items l))"
    and items_push: "items (push a l) = a # items l"
    and matches_excl: "matches k a \<Longrightarrow> matches k' a \<Longrightarrow> matches k = matches k'"
begin

lemma lookup_push_same: "matches k a \<Longrightarrow> lookup k (push a l) = Some a"
  by (simp add: lookup_items items_push)

lemma lookup_push_other: "\<not> matches k a \<Longrightarrow> lookup k (push a l) = lookup k l"
  by (simp add: lookup_items items_push)

lemma unlink_lookup: "fst (unlink k l) = lookup k l"
  by (simp add: lookup_items fst_unlink)

lemma unlink_missing: "lookup k l = None \<Longrightarrow> items (snd (unlink k l)) = items l"
  by (simp add: lookup_items items_unlink unlink_first_None)

lemma lookup_unlink_other:
  "matches k \<noteq> matches k' \<Longrightarrow> lookup k' (snd (unlink k l)) = lookup k' l"
  unfolding lookup_items items_unlink using matches_excl by (intro find_unlink_first_other) metis

lemma lookup_unlink_same:
  "unique_by matches (items l) \<Longrightarrow> lookup k (snd (unlink k l)) = None"
  by (simp add: lookup_items items_unlink find_unlink_same)

lemma unique_unlink:
  "unique_by matches (items l) \<Longrightarrow> unique_by matches (items (snd (unlink k l)))"
  by (simp add: items_unlink unique_by_unlink)

lemma unique_push:
  assumes "unique_by matches (items l)" and k: "matches k a" "lookup k l = None"
  shows "unique_by matches (items (push a l))"
proof -
  have "\<not> (matches k' a \<and> matches k' b)" if "b \<in> set (items l)" for b k'
    using that k matches_excl [of k a k'] by (auto simp: lookup_items find_None_iff)
  with assms(1) show ?thesis by (simp add: items_push unique_by_Cons)
qed

text \<open>Replacing: unlink the old element of the key, push the new one.\<close>

lemma lookup_replace:
  assumes "matches k a"
  shows "lookup k' (push a (snd (unlink k l))) = (if matches k = matches k' then Some a else lookup k' l)"
proof (cases "matches k = matches k'")
  case True
  with assms show ?thesis by (simp add: lookup_push_same)
next
  case False
  with assms have "\<not> matches k' a" using matches_excl by blast
  with False show ?thesis by (simp add: lookup_push_other lookup_unlink_other)
qed

lemma unique_replace:
  "unique_by matches (items l) \<Longrightarrow> matches k a \<Longrightarrow>
     unique_by matches (items (push a (snd (unlink k l))))"
  by (blast intro: unique_push unique_unlink lookup_unlink_same)

end

end
