(* ===== verification/Sbuf.thy ===== *)
theory Sbuf
  imports Interfaces
begin

text \<open>
  The cursor buffers of \<^verbatim>\<open>naf/sbuf.c\<close> and \<^verbatim>\<open>include/naf/nafbufutils.h\<close>: the record
  \<open>naf_sbuf_t\<close>, one definition per function of the file, the invariant of a buffer, and what
  each operation does on every branch. \<open>sbuf_buf\<close> holds the whole memory block the buffer
  points into (\<open>None\<close> for a null pointer), which may be longer than \<open>sbuf_buflen\<close>.
\<close>

section \<open>Data\<close>

record naf_sbuf_t =
  sbuf_owner :: "nafmod option"
  sbuf_flags :: naf_u16_t
  sbuf_buf :: "bytes option"
  sbuf_buflen :: naf_u16_t
  sbuf_pos :: naf_u16_t

abbreviation (input) NAF_SBUF_FLAG_NONE :: naf_u16_t where "NAF_SBUF_FLAG_NONE \<equiv> 0x0000"
abbreviation (input) NAF_SBUF_FLAG_FREEBUF :: naf_u16_t where "NAF_SBUF_FLAG_FREEBUF \<equiv> 0x0001"
abbreviation (input) NAF_SBUF_FLAG_AUTORESIZE :: naf_u16_t where "NAF_SBUF_FLAG_AUTORESIZE \<equiv> 0x0002"

abbreviation (input) NAF_SBUF_DEFAULT_BUFLEN :: naf_u16_t where "NAF_SBUF_DEFAULT_BUFLEN \<equiv> 512"
abbreviation (input) NAF_SBUF_DEFAULT_BLOCKSIZE :: naf_u16_t where "NAF_SBUF_DEFAULT_BLOCKSIZE \<equiv> 256"
abbreviation (input) NAF_SBUF_DEFAULT_MAXBUFLEN :: naf_u16_t where "NAF_SBUF_DEFAULT_MAXBUFLEN \<equiv> 32768"

section \<open>Operations\<close>

definition naf_sbuf_init :: "allocator \<Rightarrow> nafmod option \<Rightarrow> bytes option \<Rightarrow> naf_u16_t \<Rightarrow> int \<times> naf_sbuf_t" where
  "naf_sbuf_init mal md buf buflen =
     (let sb = \<lparr>sbuf_owner = md, sbuf_flags = NAF_SBUF_FLAG_NONE, sbuf_buf = None,
                sbuf_buflen = 0, sbuf_pos = 0\<rparr>
      in case buf of
           Some b \<Rightarrow> (0, sb\<lparr>sbuf_buf := Some b, sbuf_buflen := buflen\<rparr>)
         | None \<Rightarrow>
             (let buflen' = (if buflen = 0 then NAF_SBUF_DEFAULT_BUFLEN else buflen)
              in case mal (unat buflen') of
                   None \<Rightarrow> (-1, sb)
                 | Some b \<Rightarrow>
                     (0, sb\<lparr>sbuf_buf := Some b, sbuf_buflen := buflen',
                            sbuf_flags := sbuf_flags sb OR
                              (NAF_SBUF_FLAG_FREEBUF OR NAF_SBUF_FLAG_AUTORESIZE)\<rparr>)))"

definition naf_sbuf_free :: "naf_sbuf_t \<Rightarrow> naf_sbuf_t" where
  "naf_sbuf_free sb =
     (if sbuf_flags sb AND NAF_SBUF_FLAG_FREEBUF \<noteq> 0 then sb\<lparr>sbuf_buf := None\<rparr> else sb)"

text \<open>The loop of \<^verbatim>\<open>naf_sbuf__extendbuf\<close>: the grown length and what is still needed.\<close>

function extendbuf_loop :: "naf_u16_t \<Rightarrow> naf_u16_t \<Rightarrow> naf_u16_t \<times> naf_u16_t" where
  "extendbuf_loop nbuflen bytesneeded =
     (if bytesneeded > NAF_SBUF_DEFAULT_BLOCKSIZE
      then extendbuf_loop (nbuflen + NAF_SBUF_DEFAULT_BLOCKSIZE)
             (bytesneeded - NAF_SBUF_DEFAULT_BLOCKSIZE)
      else (nbuflen, bytesneeded))"
  by pat_completeness auto
termination
  by (relation "measure (\<lambda>(n, b). unat b)") (auto simp: word_less_nat_alt unat_sub_if')

declare extendbuf_loop.simps [simp del]

definition extendbuf_newlen :: "naf_u16_t \<Rightarrow> naf_u16_t \<Rightarrow> naf_u16_t" where
  "extendbuf_newlen buflen bytesneeded =
     (let (nbuflen, rest) = extendbuf_loop buflen bytesneeded
      in if rest > 0 then nbuflen + NAF_SBUF_DEFAULT_BLOCKSIZE else nbuflen)"

definition naf_sbuf__extendbuf :: "allocator \<Rightarrow> naf_sbuf_t \<Rightarrow> naf_u16_t \<Rightarrow> (int \<times> naf_sbuf_t) option" where
  "naf_sbuf__extendbuf mal sb bytesneeded =
     (if sbuf_flags sb AND NAF_SBUF_FLAG_AUTORESIZE = 0 then Some (-1, sb)
      else
        let nbuflen = extendbuf_newlen (sbuf_buflen sb) bytesneeded
        in if nbuflen > NAF_SBUF_DEFAULT_MAXBUFLEN then Some (-1, sb)
           else case mal (unat nbuflen) of
                  None \<Rightarrow> Some (-1, sb)
                | Some nbuf \<Rightarrow> do {
                    buf \<leftarrow> sbuf_buf sb;
                    old \<leftarrow> mem_read buf 0 (unat (sbuf_buflen sb));
                    nbuf' \<leftarrow> mem_write nbuf 0 old;
                    Some (0, sb\<lparr>sbuf_buf := Some nbuf', sbuf_buflen := nbuflen\<rparr>)
                  })"

definition naf_sbuf_prepend :: "allocator \<Rightarrow> naf_sbuf_t \<Rightarrow> naf_u16_t \<Rightarrow> (int \<times> naf_sbuf_t) option" where
  "naf_sbuf_prepend mal sb bytesneeded = do {
     (r, sb) \<leftarrow> naf_sbuf__extendbuf mal sb bytesneeded;
     if r = -1 then Some (-1, sb)
     else do {
       buf \<leftarrow> sbuf_buf sb;
       src \<leftarrow> mem_read buf 0 (unat (sbuf_buflen sb));
       buf' \<leftarrow> mem_write buf (uint bytesneeded) src;
       Some (0, sb\<lparr>sbuf_buf := Some buf'\<rparr>)
     }
   }"

definition naf_sbuf_getpos :: "naf_sbuf_t \<Rightarrow> int" where
  "naf_sbuf_getpos sb = uint (sbuf_pos sb)"

text \<open>\<^verbatim>\<open>naf_sbuf_getposptr\<close>: the memory from the cursor on.\<close>

definition naf_sbuf_getposptr :: "naf_sbuf_t \<Rightarrow> bytes option" where
  "naf_sbuf_getposptr sb = map_option (drop (unat (sbuf_pos sb))) (sbuf_buf sb)"

definition naf_sbuf_bytesremaining :: "naf_sbuf_t \<Rightarrow> int" where
  "naf_sbuf_bytesremaining sb = uint (sbuf_buflen sb) - uint (sbuf_pos sb)"

definition naf_sbuf_setpos :: "allocator \<Rightarrow> naf_sbuf_t \<Rightarrow> naf_u16_t \<Rightarrow> (int \<times> naf_sbuf_t) option" where
  "naf_sbuf_setpos mal sb npos = do {
     (r, sb) \<leftarrow> (if npos > sbuf_buflen sb
                 then naf_sbuf__extendbuf mal sb (npos - sbuf_buflen sb) else Some (0, sb));
     if r = -1 then Some (-1, sb) else Some (0, sb\<lparr>sbuf_pos := npos\<rparr>)
   }"

definition naf_sbuf_rewind :: "allocator \<Rightarrow> naf_sbuf_t \<Rightarrow> (int \<times> naf_sbuf_t) option" where
  "naf_sbuf_rewind mal sb = naf_sbuf_setpos mal sb 0"

text \<open>The guard shared by \<^verbatim>\<open>naf_sbuf_advance\<close> and the put functions:
  \<^verbatim>\<open>(naf_sbuf_bytesremaining(sbuf) < n) && (naf_sbuf__extendbuf(sbuf, (naf_u16_t)n) == -1)\<close>.\<close>

definition sbuf_reserve :: "allocator \<Rightarrow> naf_sbuf_t \<Rightarrow> int \<Rightarrow> (int \<times> naf_sbuf_t) option" where
  "sbuf_reserve mal sb n =
     (if naf_sbuf_bytesremaining sb < n
      then naf_sbuf__extendbuf mal sb (word_of_int n) else Some (0, sb))"

definition naf_sbuf_advance :: "allocator \<Rightarrow> naf_sbuf_t \<Rightarrow> naf_u16_t \<Rightarrow> (int \<times> naf_sbuf_t) option" where
  "naf_sbuf_advance mal sb n = do {
     (r, sb) \<leftarrow> sbuf_reserve mal sb (uint n);
     if r = -1 then Some (-1, sb) else Some (0, sb\<lparr>sbuf_pos := sbuf_pos sb + n\<rparr>)
   }"

text \<open>The three get functions move the cursor first and then load from before it.\<close>

definition sbuf_load :: "naf_sbuf_t \<Rightarrow> naf_u16_t \<Rightarrow> (bytes \<times> naf_sbuf_t) option" where
  "sbuf_load sb n = do {
     let sb = sb\<lparr>sbuf_pos := sbuf_pos sb + n\<rparr>;
     buf \<leftarrow> sbuf_buf sb;
     bs \<leftarrow> mem_read buf (uint (sbuf_pos sb) - uint n) (unat n);
     Some (bs, sb)
   }"

definition naf_sbuf_get8 :: "naf_sbuf_t \<Rightarrow> (naf_u8_t \<times> naf_sbuf_t) option" where
  "naf_sbuf_get8 sb =
     (if naf_sbuf_bytesremaining sb < 1 then Some (0, sb)
      else do { (bs, sb) \<leftarrow> sbuf_load sb 1; Some (naf_byte_get8 bs, sb) })"

definition naf_sbuf_get16 :: "naf_sbuf_t \<Rightarrow> (naf_u16_t \<times> naf_sbuf_t) option" where
  "naf_sbuf_get16 sb =
     (if naf_sbuf_bytesremaining sb < 2 then Some (0, sb)
      else do { (bs, sb) \<leftarrow> sbuf_load sb 2; Some (naf_byte_get16 bs, sb) })"

definition naf_sbuf_get32 :: "naf_sbuf_t \<Rightarrow> (naf_u32_t \<times> naf_sbuf_t) option" where
  "naf_sbuf_get32 sb =
     (if naf_sbuf_bytesremaining sb < 4 then Some (0, sb)
      else do { (bs, sb) \<leftarrow> sbuf_load sb 4; Some (naf_byte_get32 bs, sb) })"

text \<open>The common body of the put functions: reserve room, store at the cursor, move it by the
  number of bytes stored. The result is that number, or 0 when there was no room.\<close>

definition sbuf_store :: "allocator \<Rightarrow> naf_sbuf_t \<Rightarrow> bytes \<Rightarrow> (int \<times> naf_sbuf_t) option" where
  "sbuf_store mal sb bs = do {
     (r, sb) \<leftarrow> sbuf_reserve mal sb (int (length bs));
     if r = -1 then Some (0, sb)
     else do {
       buf \<leftarrow> sbuf_buf sb;
       buf' \<leftarrow> mem_write buf (uint (sbuf_pos sb)) bs;
       Some (int (length bs), sb\<lparr>sbuf_buf := Some buf',
              sbuf_pos := sbuf_pos sb + of_nat (length bs)\<rparr>)
     }
   }"

definition naf_sbuf_put8 :: "allocator \<Rightarrow> naf_sbuf_t \<Rightarrow> naf_u8_t \<Rightarrow> (int \<times> naf_sbuf_t) option" where
  "naf_sbuf_put8 mal sb v = sbuf_store mal sb (naf_byte_put8 v)"

definition naf_sbuf_put16 :: "allocator \<Rightarrow> naf_sbuf_t \<Rightarrow> naf_u16_t \<Rightarrow> (int \<times> naf_sbuf_t) option" where
  "naf_sbuf_put16 mal sb v = sbuf_store mal sb (naf_byte_put16 v)"

definition naf_sbuf_put32 :: "allocator \<Rightarrow> naf_sbuf_t \<Rightarrow> naf_u32_t \<Rightarrow> (int \<times> naf_sbuf_t) option" where
  "naf_sbuf_put32 mal sb v = sbuf_store mal sb (naf_byte_put32 v)"

text \<open>\<^verbatim>\<open>naf_sbuf_getrawbuf\<close> copies into memory of the caller; \<open>outbuf\<close> is that memory.\<close>

definition naf_sbuf_getrawbuf :: "naf_sbuf_t \<Rightarrow> bytes \<Rightarrow> naf_u16_t \<Rightarrow> (int \<times> bytes \<times> naf_sbuf_t) option" where
  "naf_sbuf_getrawbuf sb outbuf len =
     (if naf_sbuf_bytesremaining sb < uint len then Some (0, outbuf, sb)
      else do {
        buf \<leftarrow> sbuf_buf sb;
        bs \<leftarrow> mem_read buf (uint (sbuf_pos sb)) (unat len);
        outbuf' \<leftarrow> mem_write outbuf 0 bs;
        Some (uint len, outbuf', sb\<lparr>sbuf_pos := sbuf_pos sb + len\<rparr>)
      })"

definition naf_sbuf_getraw :: "allocator \<Rightarrow> naf_sbuf_t \<Rightarrow> naf_u16_t \<Rightarrow> (bytes option \<times> naf_sbuf_t) option" where
  "naf_sbuf_getraw mal sb len =
     (case mal (unat len) of
        None \<Rightarrow> Some (None, sb)
      | Some outbuf \<Rightarrow> do {
          (r, outbuf, sb) \<leftarrow> naf_sbuf_getrawbuf sb outbuf len;
          if r < uint len then Some (None, sb) else Some (Some outbuf, sb)
        })"

text \<open>The strings returned by \<^verbatim>\<open>naf_sbuf_getstr\<close> are the whole block, terminator included.\<close>

definition naf_sbuf_getstr :: "allocator \<Rightarrow> naf_sbuf_t \<Rightarrow> naf_u16_t \<Rightarrow> (bytes option \<times> naf_sbuf_t) option" where
  "naf_sbuf_getstr mal sb len =
     (case mal (unat len + 1) of
        None \<Rightarrow> Some (None, sb)
      | Some outbuf \<Rightarrow> do {
          (r, outbuf, sb) \<leftarrow> naf_sbuf_getrawbuf sb outbuf len;
          if r < uint len then Some (None, sb)
          else do { outbuf \<leftarrow> mem_write outbuf (uint len) [0]; Some (Some outbuf, sb) }
        })"

text \<open>The scan of \<^verbatim>\<open>naf_sbuf_getcstr\<close> for the terminator, bounded by the length of the buffer
  and, when it is not 0, by \<open>maxlen\<close>.\<close>

function getcstr_scan :: "bytes \<Rightarrow> nat \<Rightarrow> nat \<Rightarrow> naf_u16_t \<Rightarrow> nat \<Rightarrow> nat option" where
  "getcstr_scan buf buflen p0 maxlen n =
     (if p0 + n < buflen
      then do {
        b \<leftarrow> mem_read buf (int (p0 + n)) 1;
        if b \<noteq> [0] \<and> (maxlen = 0 \<or> n < unat maxlen)
        then getcstr_scan buf buflen p0 maxlen (Suc n) else Some n
      }
      else Some n)"
  by pat_completeness auto
termination
  by (relation "measure (\<lambda>(buf, buflen, p0, maxlen, n). buflen - (p0 + n))") auto

declare getcstr_scan.simps [simp del]

definition naf_sbuf_getcstr :: "allocator \<Rightarrow> naf_sbuf_t \<Rightarrow> naf_u16_t \<Rightarrow> (bytes option \<times> naf_sbuf_t) option" where
  "naf_sbuf_getcstr mal sb maxlen = do {
     buf \<leftarrow> (case sbuf_buf sb of
               Some b \<Rightarrow> Some b
             | None \<Rightarrow> if sbuf_pos sb < sbuf_buflen sb then None else Some []);
     n \<leftarrow> getcstr_scan buf (unat (sbuf_buflen sb)) (unat (sbuf_pos sb)) maxlen 0;
     (str, sb) \<leftarrow> naf_sbuf_getstr mal sb (of_nat n);
     case str of
       None \<Rightarrow> Some (None, sb)
     | Some s \<Rightarrow> do { (_, sb) \<leftarrow> naf_sbuf_advance mal sb 1; Some (Some s, sb) }
   }"

text \<open>\<open>inbuf\<close> is the caller's memory, of which \<open>inbuflen\<close> bytes are copied.\<close>

definition naf_sbuf_putraw :: "allocator \<Rightarrow> naf_sbuf_t \<Rightarrow> bytes \<Rightarrow> nat \<Rightarrow> (int \<times> naf_sbuf_t) option" where
  "naf_sbuf_putraw mal sb inbuf inbuflen = do {
     (r, sb) \<leftarrow> sbuf_reserve mal sb (int inbuflen);
     if r = -1 then Some (0, sb)
     else do {
       bs \<leftarrow> mem_read inbuf 0 inbuflen;
       buf \<leftarrow> sbuf_buf sb;
       buf' \<leftarrow> mem_write buf (uint (sbuf_pos sb)) bs;
       Some (int inbuflen, sb\<lparr>sbuf_buf := Some buf', sbuf_pos := sbuf_pos sb + of_nat inbuflen\<rparr>)
     }
   }"

text \<open>A C string argument is its characters, without the terminator.\<close>

definition naf_sbuf_putstr :: "allocator \<Rightarrow> naf_sbuf_t option \<Rightarrow> bytes option \<Rightarrow> (int \<times> naf_sbuf_t option) option" where
  "naf_sbuf_putstr mal sbuf instr =
     (case (sbuf, instr) of
        (Some sb, Some s) \<Rightarrow>
          map_option (\<lambda>(r, sb). (r, Some sb)) (naf_sbuf_putraw mal sb (s @ [0]) (length s))
      | _ \<Rightarrow> Some (0, sbuf))"

definition naf_sbuf_putcstr :: "allocator \<Rightarrow> naf_sbuf_t option \<Rightarrow> bytes option \<Rightarrow> (int \<times> naf_sbuf_t option) option" where
  "naf_sbuf_putcstr mal sbuf instr =
     (case (sbuf, instr) of
        (Some sb, Some s) \<Rightarrow>
          map_option (\<lambda>(r, sb). (r, Some sb)) (naf_sbuf_putraw mal sb (s @ [0]) (length s + 1))
      | _ \<Rightarrow> Some (0, sbuf))"

definition naf_sbuf_cmp :: "naf_sbuf_t \<Rightarrow> bytes \<Rightarrow> nat \<Rightarrow> int option" where
  "naf_sbuf_cmp sb cmpbuf cmpbuflen =
     (if naf_sbuf_bytesremaining sb < int cmpbuflen then Some (-1)
      else do {
        buf \<leftarrow> sbuf_buf sb;
        a \<leftarrow> mem_read buf (uint (sbuf_pos sb)) cmpbuflen;
        b \<leftarrow> mem_read cmpbuf 0 cmpbuflen;
        Some (if a = b then 0 else 1)
      })"

section \<open>Invariant and abstraction\<close>

text \<open>The buffer lies inside its block, the cursor inside the buffer, and a buffer that grows
  by itself never exceeds the maximum.\<close>

definition sbuf_inv :: "naf_sbuf_t \<Rightarrow> bool" where
  "sbuf_inv sb \<longleftrightarrow>
     (\<exists>b. sbuf_buf sb = Some b \<and> unat (sbuf_buflen sb) \<le> length b) \<and>
     sbuf_pos sb \<le> sbuf_buflen sb \<and>
     (sbuf_flags sb AND NAF_SBUF_FLAG_AUTORESIZE \<noteq> 0 \<longrightarrow>
        sbuf_buflen sb \<le> NAF_SBUF_DEFAULT_MAXBUFLEN)"

definition sbuf_mem :: "naf_sbuf_t \<Rightarrow> bytes" where
  "sbuf_mem sb = (case sbuf_buf sb of Some b \<Rightarrow> b | None \<Rightarrow> [])"

text \<open>What has been written before the cursor, and what can be read after it.\<close>

definition sbuf_done :: "naf_sbuf_t \<Rightarrow> bytes" where
  "sbuf_done sb = take (unat (sbuf_pos sb)) (sbuf_mem sb)"

definition sbuf_rest :: "naf_sbuf_t \<Rightarrow> bytes" where
  "sbuf_rest sb =
     take (unat (sbuf_buflen sb) - unat (sbuf_pos sb)) (drop (unat (sbuf_pos sb)) (sbuf_mem sb))"

definition sbuf_room :: "naf_sbuf_t \<Rightarrow> nat" where
  "sbuf_room sb = unat (sbuf_buflen sb) - unat (sbuf_pos sb)"

lemma sbuf_invD:
  assumes "sbuf_inv sb"
  shows "sbuf_buf sb = Some (sbuf_mem sb)" "unat (sbuf_buflen sb) \<le> length (sbuf_mem sb)"
    "unat (sbuf_pos sb) \<le> unat (sbuf_buflen sb)"
    "sbuf_flags sb AND NAF_SBUF_FLAG_AUTORESIZE \<noteq> 0 \<Longrightarrow> unat (sbuf_buflen sb) \<le> 32768"
  using assms by (auto simp: sbuf_inv_def sbuf_mem_def word_le_nat_alt split: option.splits)

lemma sbuf_mem_upd [simp]:
  "sbuf_mem (sb\<lparr>sbuf_buf := Some b\<rparr>) = b" "sbuf_mem (sb\<lparr>sbuf_pos := p\<rparr>) = sbuf_mem sb"
  "sbuf_mem (sb\<lparr>sbuf_buflen := l\<rparr>) = sbuf_mem sb"
  by (simp_all add: sbuf_mem_def)

lemma length_sbuf_rest: "sbuf_inv sb \<Longrightarrow> length (sbuf_rest sb) = sbuf_room sb"
  using sbuf_invD [of sb] by (simp add: sbuf_rest_def sbuf_room_def)

lemma length_sbuf_done: "sbuf_inv sb \<Longrightarrow> length (sbuf_done sb) = unat (sbuf_pos sb)"
  using sbuf_invD [of sb] by (simp add: sbuf_done_def)

lemma sbuf_bytesremaining: "sbuf_inv sb \<Longrightarrow> naf_sbuf_bytesremaining sb = int (sbuf_room sb)"
  using sbuf_invD(3) [of sb] by (simp add: naf_sbuf_bytesremaining_def sbuf_room_def)

section \<open>Growing\<close>

lemma extendbuf_loop_eq:
  "extendbuf_loop nb n =
     (let k = (unat n - 1) div 256 in (nb + of_nat (256 * k), n - of_nat (256 * k)))"
proof (induction nb n rule: extendbuf_loop.induct)
  case (1 nb n)
  show ?case
  proof (cases "n > 256")
    case True
    then have n: "256 < unat n" by (simp add: word_less_nat_alt)
    then have m: "unat (n - 256) = unat n - 256" by (simp add: unat_sub_if')
    have k: "(unat n - 1) div 256 = Suc ((unat (n - 256) - 1) div 256)"
    proof -
      have "unat n - 1 = (unat (n - 256) - 1) + 256" using n m by linarith
      then show ?thesis by simp
    qed
    have "extendbuf_loop nb n = extendbuf_loop (nb + 256) (n - 256)"
      using True by (subst extendbuf_loop.simps) simp
    then show ?thesis
      unfolding "1.IH" [OF True] Let_def k by (simp add: algebra_simps)
  next
    case False
    then have "unat n \<le> 256" by (simp add: word_less_nat_alt not_less)
    then have "(unat n - 1) div 256 = 0" by (cases "unat n") auto
    with False show ?thesis by (subst extendbuf_loop.simps) simp
  qed
qed

lemma extendbuf_newlen_eq:
  "extendbuf_newlen b n = b + of_nat (256 * ((unat n + 255) div 256))"
proof (cases "n = 0")
  case True
  then show ?thesis
    by (simp add: extendbuf_newlen_def extendbuf_loop_eq Let_def)
next
  case False
  then have n: "0 < unat n" by (simp add: unat_gt_0)
  let ?k = "(unat n - 1) div 256"
  have "256 * ?k \<le> unat n - 1" by (rule times_div_less_eq_dividend)
  with n have k: "256 * ?k < unat n" by linarith
  have "unat n < 65536" by (rule unat_u16_lt)
  then have "unat (of_nat (256 * ?k) :: naf_u16_t) = 256 * ?k"
    using k by (intro unat_of_nat_u16) simp
  then have "unat (n - of_nat (256 * ?k)) = unat n - 256 * ?k"
    using k by (simp add: unat_sub_if')
  with k have "n - of_nat (256 * ?k) > 0" by (simp add: word_less_nat_alt)
  moreover have "(unat n + 255) div 256 = Suc ?k"
  proof -
    have "unat n + 255 = (unat n - 1) + 256" using n by linarith
    then show ?thesis by simp
  qed
  ultimately show ?thesis
    by (simp add: extendbuf_newlen_def extendbuf_loop_eq Let_def algebra_simps)
qed

lemma unat_extendbuf_newlen:
  "unat (extendbuf_newlen b n) = (unat b + 256 * ((unat n + 255) div 256)) mod 65536"
  by (simp add: extendbuf_newlen_eq unat_word_ariths unat_of_nat mod_simps)

lemma extendbuf_cases:
  assumes inv: "sbuf_inv sb" and mal: "good_alloc mal" and n: "unat n \<le> 32512"
  obtains (refused) "naf_sbuf__extendbuf mal sb n = Some (-1, sb)"
  | (grown) sb' where "naf_sbuf__extendbuf mal sb n = Some (0, sb')" "sbuf_inv sb'"
      "sbuf_pos sb' = sbuf_pos sb" "sbuf_flags sb' = sbuf_flags sb"
      "unat (sbuf_buflen sb) + unat n \<le> unat (sbuf_buflen sb')"
      "take (unat (sbuf_buflen sb)) (sbuf_mem sb') = take (unat (sbuf_buflen sb)) (sbuf_mem sb)"
proof (cases "sbuf_flags sb AND NAF_SBUF_FLAG_AUTORESIZE = 0 \<or>
    extendbuf_newlen (sbuf_buflen sb) n > NAF_SBUF_DEFAULT_MAXBUFLEN \<or>
    mal (unat (extendbuf_newlen (sbuf_buflen sb) n)) = None")
  case True
  then have "naf_sbuf__extendbuf mal sb n = Some (-1, sb)"
    by (auto simp: naf_sbuf__extendbuf_def Let_def)
  then show ?thesis by (rule refused)
next
  case False
  let ?l = "extendbuf_newlen (sbuf_buflen sb) n"
  from False obtain nbuf where nbuf: "mal (unat ?l) = Some nbuf" by auto
  from False have auto: "sbuf_flags sb AND NAF_SBUF_FLAG_AUTORESIZE \<noteq> 0" by simp
  note invs = sbuf_invD [OF inv] and b = sbuf_invD(4) [OF inv auto]
  have "(unat n + 255) div 256 \<le> 127" using n by linarith
  with b have l: "unat ?l = unat (sbuf_buflen sb) + 256 * ((unat n + 255) div 256)"
    by (simp add: unat_extendbuf_newlen)
  have len: "length nbuf = unat ?l" using mal nbuf by (rule good_allocD)
  let ?old = "take (unat (sbuf_buflen sb)) (sbuf_mem sb)"
  let ?sb = "sb\<lparr>sbuf_buf := Some (?old @ drop (unat (sbuf_buflen sb)) nbuf), sbuf_buflen := ?l\<rparr>"
  have ext: "naf_sbuf__extendbuf mal sb n = Some (0, ?sb)"
    using False nbuf invs(1,2) len l
    by (auto simp: naf_sbuf__extendbuf_def Let_def mem_read_def mem_write_def)
  have "sbuf_inv ?sb"
    using False invs l len by (auto simp: sbuf_inv_def word_le_nat_alt word_less_nat_alt not_less)
  moreover have "unat (sbuf_buflen sb) + unat n \<le> unat (sbuf_buflen ?sb)"
    using l by simp
  moreover have "take (unat (sbuf_buflen sb)) (sbuf_mem ?sb) = ?old"
    using invs(2) by (simp add: sbuf_mem_def)
  ultimately show ?thesis using ext by (intro grown [of ?sb]) simp_all
qed

section \<open>Writing\<close>

text \<open>\<^verbatim>\<open>naf_sbuf_putraw\<close> on memory that holds the bytes is the common put body.\<close>

lemma naf_sbuf_putraw_eq:
  "n \<le> length inbuf \<Longrightarrow> naf_sbuf_putraw mal sb inbuf n = sbuf_store mal sb (take n inbuf)"
  by (simp add: naf_sbuf_putraw_def sbuf_store_def mem_read_def cong: if_cong)

lemmas naf_sbuf_put_defs = naf_sbuf_put8_def naf_sbuf_put16_def naf_sbuf_put32_def

text \<open>A put that fits into the room left.\<close>

lemma sbuf_store_fits:
  assumes inv: "sbuf_inv sb" and fits: "length bs \<le> sbuf_room sb"
  obtains sb' where "sbuf_store mal sb bs = Some (int (length bs), sb')" "sbuf_inv sb'"
    "sbuf_done sb' = sbuf_done sb @ bs" "sbuf_room sb' = sbuf_room sb - length bs"
    "sbuf_buflen sb' = sbuf_buflen sb" "sbuf_flags sb' = sbuf_flags sb"
    "length (sbuf_mem sb') = length (sbuf_mem sb)"
proof -
  note invs = sbuf_invD [OF inv]
  let ?p = "unat (sbuf_pos sb)"
  let ?b = "take ?p (sbuf_mem sb) @ bs @ drop (?p + length bs) (sbuf_mem sb)"
  let ?sb = "sb\<lparr>sbuf_buf := Some ?b, sbuf_pos := sbuf_pos sb + of_nat (length bs)\<rparr>"
  have room: "?p + length bs \<le> unat (sbuf_buflen sb)"
    using fits invs(3) by (simp add: sbuf_room_def)
  have lt: "?p + length bs < 65536" using room unat_u16_lt [of "sbuf_buflen sb"] by linarith
  then have pos: "unat (sbuf_pos sb + of_nat (length bs)) = ?p + length bs"
    by (simp add: unat_add_u16 unat_of_nat_u16)
  have "sbuf_reserve mal sb (int (length bs)) = Some (0, sb)"
    using fits inv by (simp add: sbuf_reserve_def sbuf_bytesremaining)
  moreover have "mem_write (sbuf_mem sb) (uint (sbuf_pos sb)) bs = Some ?b"
    using room invs(2) by (simp add: mem_write_def)
  ultimately have "sbuf_store mal sb bs = Some (int (length bs), ?sb)"
    using invs(1) by (simp add: sbuf_store_def)
  moreover have "sbuf_inv ?sb"
    using inv room invs pos by (auto simp: sbuf_inv_def word_le_nat_alt)
  moreover have "sbuf_done ?sb = sbuf_done sb @ bs"
    using room invs(2) pos by (simp add: sbuf_done_def sbuf_mem_def)
  moreover have "sbuf_room ?sb = sbuf_room sb - length bs"
    using pos by (simp add: sbuf_room_def)
  moreover have "length (sbuf_mem ?sb) = length (sbuf_mem sb)"
    using room invs(2) by (simp add: sbuf_mem_def)
  ultimately show ?thesis by (intro that [of ?sb]) simp_all
qed

text \<open>Any put of up to 32512 bytes on a sound buffer returns, keeps the buffer sound and writes
  everything or nothing.\<close>

lemma sbuf_store_cases:
  assumes inv: "sbuf_inv sb" and mal: "good_alloc mal" and len: "length bs \<le> 32512"
  obtains (full) "sbuf_store mal sb bs = Some (0, sb)" "sbuf_room sb < length bs"
  | (stored) sb' where "sbuf_store mal sb bs = Some (int (length bs), sb')" "sbuf_inv sb'"
      "sbuf_done sb' = sbuf_done sb @ bs" "sbuf_flags sb' = sbuf_flags sb"
proof (cases "length bs \<le> sbuf_room sb")
  case True
  from inv this show ?thesis by (rule sbuf_store_fits [where mal = mal]) (blast intro: stored)
next
  case False
  have n: "unat (word_of_int (int (length bs)) :: naf_u16_t) = length bs"
    using len by (simp add: unat_of_nat_u16)
  then have "unat (word_of_int (int (length bs)) :: naf_u16_t) \<le> 32512" using len by simp
  with inv mal show ?thesis
  proof (cases rule: extendbuf_cases)
    case refused
    with False inv have "sbuf_store mal sb bs = Some (0, sb)"
      by (simp add: sbuf_store_def sbuf_reserve_def sbuf_bytesremaining)
    with False show ?thesis by (intro full) simp_all
  next
    case (grown sb1)
    have room1: "length bs \<le> sbuf_room sb1"
      using grown(3,5) n sbuf_invD(3) [OF inv] by (simp add: sbuf_room_def)
    have eq: "sbuf_store mal sb bs = sbuf_store mal sb1 bs"
      using False inv grown room1 by (simp add: sbuf_store_def sbuf_reserve_def sbuf_bytesremaining)
    have "sbuf_done sb1 = sbuf_done sb"
      using arg_cong [OF grown(6), of "take (unat (sbuf_pos sb))"] grown(3) sbuf_invD(3) [OF inv]
      by (simp add: sbuf_done_def min_def)
    with grown(2) room1 show ?thesis
      by (rule_tac sbuf_store_fits [where mal = mal and sb = sb1 and bs = bs])
         (auto simp: eq grown(4) intro: stored)
  qed
qed

section \<open>Reading\<close>

lemma sbuf_load_ok:
  assumes inv: "sbuf_inv sb" and n: "unat n \<le> length (sbuf_rest sb)"
  shows "sbuf_load sb n = Some (take (unat n) (sbuf_rest sb), sb\<lparr>sbuf_pos := sbuf_pos sb + n\<rparr>)"
    "sbuf_inv (sb\<lparr>sbuf_pos := sbuf_pos sb + n\<rparr>)"
    "sbuf_rest (sb\<lparr>sbuf_pos := sbuf_pos sb + n\<rparr>) = drop (unat n) (sbuf_rest sb)"
proof -
  note invs = sbuf_invD [OF inv]
  have n': "unat (sbuf_pos sb) + unat n \<le> unat (sbuf_buflen sb)"
    using n invs(3) by (simp add: length_sbuf_rest [OF inv] sbuf_room_def)
  then have pos: "unat (sbuf_pos sb + n) = unat (sbuf_pos sb) + unat n"
    using unat_u16_lt [of "sbuf_buflen sb"] by (intro unat_add_u16) linarith
  then have "uint (sbuf_pos sb + n) = uint (sbuf_pos sb) + uint n"
    by (metis of_nat_add uint_nat)
  then show "sbuf_load sb n = Some (take (unat n) (sbuf_rest sb), sb\<lparr>sbuf_pos := sbuf_pos sb + n\<rparr>)"
    using invs(1,2) n' by (simp add: sbuf_load_def mem_read_def sbuf_rest_def Let_def min_def)
  show "sbuf_inv (sb\<lparr>sbuf_pos := sbuf_pos sb + n\<rparr>)"
    using inv n' pos by (simp add: sbuf_inv_def word_le_nat_alt)
  show "sbuf_rest (sb\<lparr>sbuf_pos := sbuf_pos sb + n\<rparr>) = drop (unat n) (sbuf_rest sb)"
    using n' pos by (simp add: sbuf_rest_def drop_take ac_simps)
qed

text \<open>Each get function returns 0 and leaves the buffer alone when too little is left, and
  otherwise decodes the next bytes and moves past them.\<close>

lemma sbuf_get_eqs:
  assumes inv: "sbuf_inv sb"
  shows "naf_sbuf_get8 sb =
      (if length (sbuf_rest sb) < 1 then Some (0, sb)
       else Some (naf_byte_get8 (sbuf_rest sb), sb\<lparr>sbuf_pos := sbuf_pos sb + 1\<rparr>))"
    "naf_sbuf_get16 sb =
      (if length (sbuf_rest sb) < 2 then Some (0, sb)
       else Some (naf_byte_get16 (sbuf_rest sb), sb\<lparr>sbuf_pos := sbuf_pos sb + 2\<rparr>))"
    "naf_sbuf_get32 sb =
      (if length (sbuf_rest sb) < 4 then Some (0, sb)
       else Some (naf_byte_get32 (sbuf_rest sb), sb\<lparr>sbuf_pos := sbuf_pos sb + 4\<rparr>))"
  using sbuf_load_ok [OF inv, of 1] sbuf_load_ok [OF inv, of 2] sbuf_load_ok [OF inv, of 4]
  by (simp_all add: naf_sbuf_get8_def naf_sbuf_get16_def naf_sbuf_get32_def
      sbuf_bytesremaining [OF inv] length_sbuf_rest [OF inv] naf_byte_get_take)

lemma naf_sbuf_getrawbuf_eq:
  assumes inv: "sbuf_inv sb" and out: "unat len \<le> length outbuf"
  shows "naf_sbuf_getrawbuf sb outbuf len =
    (if length (sbuf_rest sb) < unat len then Some (0, outbuf, sb)
     else Some (uint len, take (unat len) (sbuf_rest sb) @ drop (unat len) outbuf,
                sb\<lparr>sbuf_pos := sbuf_pos sb + len\<rparr>))"
proof (cases "length (sbuf_rest sb) < unat len")
  case True
  then show ?thesis
    using inv by (simp add: naf_sbuf_getrawbuf_def sbuf_bytesremaining length_sbuf_rest int_less_uint)
next
  case False
  then have room: "unat len \<le> sbuf_room sb" using inv by (simp add: length_sbuf_rest)
  with sbuf_invD [OF inv] have "unat (sbuf_pos sb) + unat len \<le> length (sbuf_mem sb)"
    by (simp add: sbuf_room_def)
  moreover have "take (unat len) (sbuf_rest sb) = take (unat len) (drop (unat (sbuf_pos sb)) (sbuf_mem sb))"
    using room by (simp add: sbuf_rest_def sbuf_room_def min_def)
  moreover have "\<not> naf_sbuf_bytesremaining sb < uint len"
    using room inv by (simp add: sbuf_bytesremaining int_less_uint)
  ultimately show ?thesis
    using False out sbuf_invD(1) [OF inv]
    by (simp add: naf_sbuf_getrawbuf_def mem_read_def mem_write_def)
qed

lemma naf_sbuf_getraw_eq:
  assumes "sbuf_inv sb" "good_alloc mal"
  shows "naf_sbuf_getraw mal sb len =
    (if mal (unat len) = None \<or> length (sbuf_rest sb) < unat len then Some (None, sb)
     else Some (Some (take (unat len) (sbuf_rest sb)), sb\<lparr>sbuf_pos := sbuf_pos sb + len\<rparr>))"
  using assms good_allocD [OF assms(2)]
  by (auto simp: naf_sbuf_getraw_def naf_sbuf_getrawbuf_eq zero_less_uint
      split: option.splits)

lemma naf_sbuf_getstr_eq:
  assumes "sbuf_inv sb" "good_alloc mal"
  shows "naf_sbuf_getstr mal sb len =
    (if mal (unat len + 1) = None \<or> length (sbuf_rest sb) < unat len then Some (None, sb)
     else Some (Some (take (unat len) (sbuf_rest sb) @ [0]), sb\<lparr>sbuf_pos := sbuf_pos sb + len\<rparr>))"
  using assms good_allocD [OF assms(2)]
  by (auto simp: naf_sbuf_getstr_def naf_sbuf_getrawbuf_eq zero_less_uint mem_write_def min_def
      split: option.splits)

lemmas sbuf_read_eqs = sbuf_get_eqs naf_sbuf_getraw_eq naf_sbuf_getstr_eq

section \<open>Construction and cursor movement\<close>

lemma sbuf_inv_init_given:
  "unat buflen \<le> length b \<Longrightarrow>
     \<exists>sb. naf_sbuf_init mal md (Some b) buflen = (0, sb) \<and> sbuf_inv sb \<and> sbuf_done sb = [] \<and>
          sbuf_rest sb = take (unat buflen) b \<and> sbuf_room sb = unat buflen \<and> sbuf_flags sb = 0"
  by (simp add: naf_sbuf_init_def Let_def sbuf_inv_def sbuf_done_def sbuf_rest_def sbuf_mem_def
      sbuf_room_def)

lemma sbuf_inv_init_alloc:
  assumes "good_alloc mal" "unat buflen \<le> 32768"
    and "mal (if buflen = 0 then 512 else unat buflen) = Some b"
  shows "\<exists>sb. naf_sbuf_init mal md None buflen = (0, sb) \<and> sbuf_inv sb \<and> sbuf_done sb = [] \<and>
          sbuf_room sb = (if buflen = 0 then 512 else unat buflen) \<and>
          sbuf_flags sb AND NAF_SBUF_FLAG_AUTORESIZE \<noteq> 0"
  using assms good_allocD [OF assms(1,3)]
  by (auto simp: naf_sbuf_init_def Let_def sbuf_inv_def sbuf_done_def sbuf_mem_def sbuf_room_def
      word_le_nat_alt)

lemma naf_sbuf_init_refused:
  "mal (if buflen = 0 then 512 else unat buflen) = None \<Longrightarrow>
     fst (naf_sbuf_init mal md None buflen) = -1"
  by (auto simp: naf_sbuf_init_def Let_def)

lemma naf_sbuf_advance_fits:
  assumes "sbuf_inv sb" "unat n \<le> length (sbuf_rest sb)"
  shows "naf_sbuf_advance mal sb n = Some (0, sb\<lparr>sbuf_pos := sbuf_pos sb + n\<rparr>)"
  using assms by (simp add: naf_sbuf_advance_def sbuf_reserve_def sbuf_bytesremaining
      length_sbuf_rest int_less_uint)

lemma naf_sbuf_advance_static:
  assumes "sbuf_inv sb" "length (sbuf_rest sb) < unat n"
    "sbuf_flags sb AND NAF_SBUF_FLAG_AUTORESIZE = 0"
  shows "naf_sbuf_advance mal sb n = Some (-1, sb)"
  using assms by (simp add: naf_sbuf_advance_def sbuf_reserve_def sbuf_bytesremaining
      length_sbuf_rest int_less_uint naf_sbuf__extendbuf_def)

section \<open>The buffer as a sink and as a source\<close>

interpretation sbw: byte_sink sbuf_inv sbuf_done sbuf_room "sbuf_store mal" for mal
proof unfold_locales
  fix s :: naf_sbuf_t and bs :: bytes
  assume "sbuf_inv s" "length bs \<le> sbuf_room s"
  then show "\<exists>s'. sbuf_store mal s bs = Some (int (length bs), s') \<and> sbuf_inv s' \<and>
      sbuf_done s' = sbuf_done s @ bs \<and> sbuf_room s' = sbuf_room s - length bs"
    by (rule sbuf_store_fits [where mal = mal]) auto
qed

interpretation sbr: byte_source sbuf_inv sbuf_rest naf_sbuf_get8 naf_sbuf_get16
proof unfold_locales
  fix s :: naf_sbuf_t and bs :: bytes and v
  assume "sbuf_inv s" "sbuf_rest s = naf_byte_put8 v @ bs"
  then show "\<exists>s'. naf_sbuf_get8 s = Some (v, s') \<and> sbuf_inv s' \<and> sbuf_rest s' = bs"
    using sbuf_load_ok(2,3) [of s 1] by (simp add: sbuf_get_eqs)
next
  fix s :: naf_sbuf_t and bs :: bytes and v
  assume "sbuf_inv s" "sbuf_rest s = naf_byte_put16 v @ bs"
  then show "\<exists>s'. naf_sbuf_get16 s = Some (v, s') \<and> sbuf_inv s' \<and> sbuf_rest s' = bs"
    using sbuf_load_ok(2,3) [of s 2] by (simp add: sbuf_get_eqs)
qed

section \<open>Properties\<close>

text \<open>C36. A put of up to 32512 bytes on a sound buffer never faults: it writes all bytes at the
  cursor and keeps the buffer sound, or it writes nothing and returns 0, which happens only when
  the room left was too small.\<close>

theorem sbuf_put_all_or_nothing:
  assumes "sbuf_inv sb" "good_alloc mal" "length bs \<le> 32512"
  shows "(sbuf_store mal sb bs = Some (0, sb) \<and> sbuf_room sb < length bs) \<or>
    (\<exists>sb'. sbuf_store mal sb bs = Some (int (length bs), sb') \<and> sbuf_inv sb' \<and>
       sbuf_done sb' = sbuf_done sb @ bs)"
  by (rule sbuf_store_cases [OF assms]) auto

theorem sbuf_put_all_or_nothing_witness:
  "let sb = snd (naf_sbuf_init zero_alloc (Some 1) None 2) in
   sbuf_inv sb \<and> length [1, 2, 3 :: naf_u8_t] \<le> 32512 \<and>
   ((sbuf_store zero_alloc sb [1, 2, 3] = Some (0, sb) \<and> sbuf_room sb < length [1, 2, 3 :: naf_u8_t]) \<or>
    (\<exists>sb'. sbuf_store zero_alloc sb [1, 2, 3] = Some (int (length [1, 2, 3 :: naf_u8_t]), sb') \<and> sbuf_inv sb' \<and>
       sbuf_done sb' = sbuf_done sb @ [1, 2, 3]))"
proof -
  have inv: "sbuf_inv (snd (naf_sbuf_init zero_alloc (Some 1) None 2))"
    by (simp add: naf_sbuf_init_def zero_alloc_def sbuf_inv_def)
  show ?thesis
    unfolding Let_def using inv sbuf_put_all_or_nothing [OF inv good_zero_alloc, of "[1, 2, 3]"] by simp
qed

text \<open>What is written into a buffer is read back: bytes stored in a fresh buffer that is large
  enough come out of \<^verbatim>\<open>naf_sbuf_getraw\<close> on a buffer over the written part.\<close>

theorem sbuf_put_get_roundtrip:
  assumes mal: "total_alloc mal" and len: "unat len \<le> 32768" "len \<noteq> 0" and fits: "length bs \<le> unat len"
  shows "\<exists>sb sb' out. naf_sbuf_init mal md None len = (0, sb) \<and>
    sbuf_store mal sb bs = Some (int (length bs), sb') \<and>
    naf_sbuf_getraw mal (snd (naf_sbuf_init mal md (sbuf_buf sb') (sbuf_pos sb'))) (sbuf_pos sb') =
      Some (Some bs, out)"
proof -
  obtain b where b: "mal (unat len) = Some b" using total_allocD(2) [OF mal] by blast
  obtain sb where sb: "naf_sbuf_init mal md None len = (0, sb)" "sbuf_inv sb" "sbuf_done sb = []"
    "sbuf_room sb = unat len"
    using sbuf_inv_init_alloc [OF total_allocD(1) [OF mal] len(1), of b md] len(2) b by auto
  obtain sb' where sb': "sbuf_store mal sb bs = Some (int (length bs), sb')" "sbuf_inv sb'" "sbuf_done sb' = bs"
    using sbuf_store_fits [OF sb(2), of bs mal] sb(3,4) fits by auto
  let ?p = "sbuf_pos sb'"
  have p: "unat ?p = length bs" using length_sbuf_done [OF sb'(2)] sb'(3) by simp
  have le: "unat ?p \<le> length (sbuf_mem sb')" using sbuf_invD(2,3) [OF sb'(2)] by simp
  obtain rb where rb: "naf_sbuf_init mal md (Some (sbuf_mem sb')) ?p = (0, rb)" "sbuf_inv rb"
    "sbuf_rest rb = take (unat ?p) (sbuf_mem sb')"
    using sbuf_inv_init_given [OF le] by blast
  have "take (unat ?p) (sbuf_mem sb') = bs" using sb'(3) by (simp add: sbuf_done_def)
  then have "\<exists>out. naf_sbuf_getraw mal rb ?p = Some (Some bs, out)"
    using naf_sbuf_getraw_eq [OF rb(2) total_allocD(1) [OF mal], of ?p] rb(3) p total_allocD(3) [OF mal]
    by simp
  then show ?thesis using sb(1) sb'(1) rb(1) sbuf_invD(1) [OF sb'(2)] by auto
qed

theorem sbuf_put_get_roundtrip_witness:
  "\<exists>sb sb' out. naf_sbuf_init zero_alloc None None 4 = (0, sb) \<and>
    sbuf_store zero_alloc sb [7, 8, 9] = Some (int (length [7, 8, 9 :: naf_u8_t]), sb') \<and>
    naf_sbuf_getraw zero_alloc (snd (naf_sbuf_init zero_alloc None (sbuf_buf sb') (sbuf_pos sb'))) (sbuf_pos sb') =
      Some (Some [7, 8, 9], out)"
  by (rule sbuf_put_get_roundtrip) simp_all

text \<open>The bound 32512 is tight. The length computation wraps around at 65536: on a full buffer
  of the maximum size, a request of more than 32512 bytes passes the check against the maximum with a
  smaller block, and copying the old contents there writes out of bounds.\<close>

theorem extendbuf_wraps:
  assumes mal: "total_alloc mal" and inv: "sbuf_inv sb"
    and auto: "sbuf_flags sb AND NAF_SBUF_FLAG_AUTORESIZE \<noteq> 0"
    and len: "sbuf_buflen sb = NAF_SBUF_DEFAULT_MAXBUFLEN" and n: "32512 < unat n" "unat n \<le> 65280"
  shows "naf_sbuf__extendbuf mal sb n = None"
proof -
  let ?l = "extendbuf_newlen (sbuf_buflen sb) n"
  let ?k = "(unat n + 255) div 256"
  have k: "128 \<le> ?k" "?k \<le> 255" using n by linarith+
  have "unat ?l = (32768 + 256 * ?k) mod 65536" using len by (simp add: unat_extendbuf_newlen)
  also have "\<dots> = 256 * ?k - 32768"
  proof -
    have "32768 + 256 * ?k = (256 * ?k - 32768) + 65536" "256 * ?k - 32768 < 65536" using k by linarith+
    then show ?thesis by (metis mod_add_self2 mod_less)
  qed
  finally have l: "unat ?l = 256 * ?k - 32768" .
  then have small: "unat ?l < 32768" using k by linarith
  obtain nbuf where nbuf: "mal (unat ?l) = Some nbuf" "length nbuf = unat ?l"
    using total_allocD(2) [OF mal] by blast
  have "\<not> ?l > NAF_SBUF_DEFAULT_MAXBUFLEN" using small by (simp add: word_less_nat_alt)
  moreover have "mem_read (sbuf_mem sb) 0 32768 = Some (take 32768 (sbuf_mem sb))"
    using sbuf_invD(2) [OF inv] len by (simp add: mem_read_def)
  moreover have "mem_write nbuf 0 (take 32768 (sbuf_mem sb)) = None"
    using sbuf_invD(2) [OF inv] len small nbuf(2) by (simp add: mem_write_def)
  ultimately show ?thesis
    using auto nbuf(1) sbuf_invD(1) [OF inv] len by (simp add: naf_sbuf__extendbuf_def Let_def)
qed

theorem extendbuf_wraps_witness:
  "naf_sbuf__extendbuf zero_alloc
     \<lparr>sbuf_owner = None, sbuf_flags = 3, sbuf_buf = Some (replicate 32768 0), sbuf_buflen = 32768, sbuf_pos = 0\<rparr>
     32513 = None"
  by (rule extendbuf_wraps) (simp_all add: sbuf_inv_def)

text \<open>\<^verbatim>\<open>naf_sbuf_prepend\<close> never succeeds in making room in front: whenever the buffer could be grown,
  it then moves as many bytes as the grown buffer has, past the end of the block.\<close>

theorem prepend_out_of_bounds:
  assumes mal: "good_alloc mal" and ext: "naf_sbuf__extendbuf mal sb n = Some (0, sb')" and n: "n \<noteq> 0"
  shows "naf_sbuf_prepend mal sb n = None"
proof -
  obtain nbuf nbuf' buf old where e: "mal (unat (sbuf_buflen sb')) = Some nbuf"
    "mem_write nbuf 0 old = Some nbuf'" "sbuf_buf sb' = Some nbuf'"
    using ext by (auto simp: naf_sbuf__extendbuf_def Let_def bind_eq_Some_conv split: if_splits option.splits)
  have len: "length nbuf' = unat (sbuf_buflen sb')"
    using mem_write_length [OF e(2)] good_allocD [OF mal e(1)] by simp
  have "0 < unat n" using n by (simp add: unat_gt_0)
  then have "mem_write nbuf' (uint n) (take (unat (sbuf_buflen sb')) nbuf') = None"
    using len by (simp add: mem_write_def)
  then show ?thesis
    using ext e(3) len by (simp add: naf_sbuf_prepend_def mem_read_def)
qed

theorem prepend_out_of_bounds_witness:
  "naf_sbuf_prepend zero_alloc (snd (naf_sbuf_init zero_alloc None None 4)) 2 = None"
proof -
  obtain sb' where "naf_sbuf__extendbuf zero_alloc (snd (naf_sbuf_init zero_alloc None None 4)) 2 = Some (0, sb')"
    by (simp add: naf_sbuf__extendbuf_def naf_sbuf_init_def zero_alloc_def extendbuf_newlen_eq mem_read_def mem_write_def)
  then show ?thesis by (rule prepend_out_of_bounds [OF good_zero_alloc]) simp
qed

end
