(* ===== verification/Tlv.thy ===== *)
theory Tlv
  imports Sbuf
begin

text \<open>
  Type-length-value lists, \<^verbatim>\<open>naf/tlv.c\<close> and \<^verbatim>\<open>include/naf/naftlv.h\<close>. A
  \<open>naf_tlv_t *\<close> is the list of the elements reached through \<^verbatim>\<open>tlv_next\<close>, the null pointer
  being the empty list; \<open>tlv_value\<close> is the block the value pointer designates. Releasing memory
  (\<^verbatim>\<open>naf_tlv_free\<close>) has no counterpart in the model.
\<close>

section \<open>Data\<close>

record naf_tlv_t =
  tlv_type :: naf_u16_t
  tlv_length :: naf_u16_t
  tlv_value :: "bytes option"

text \<open>\<^verbatim>\<open>sizeof(naf_tlv_t)\<close> on an LP64 system.\<close>

abbreviation (input) sizeof_naf_tlv_t :: nat where "sizeof_naf_tlv_t \<equiv> 24"

section \<open>Operations\<close>

definition naf_tlv_new :: "allocator \<Rightarrow> naf_u16_t \<Rightarrow> naf_u16_t \<Rightarrow> bytes option \<Rightarrow> naf_tlv_t option" where
  "naf_tlv_new mal type len value =
     (case mal sizeof_naf_tlv_t of
        None \<Rightarrow> None
      | Some _ \<Rightarrow> Some \<lparr>tlv_type = type, tlv_length = len, tlv_value = value\<rparr>)"

text \<open>The loop of \<^verbatim>\<open>naf_tlv_parse_limit\<close>. \<open>tlvs\<close> is the list from \<open>tlvhead\<close> to \<open>tlvtail\<close>.
  Nothing in the code bounds the loop, so it is a partial function: \<open>None\<close> is a faulting
  access or a loop that never ends.\<close>

partial_function (option) parse_limit_loop ::
    "allocator \<Rightarrow> naf_sbuf_t \<Rightarrow> int \<Rightarrow> naf_tlv_t list \<Rightarrow> (naf_tlv_t list \<times> naf_sbuf_t) option" where
  "parse_limit_loop mal sb limit tlvs =
     (if naf_sbuf_bytesremaining sb > 0
      then
        Option.bind (naf_sbuf_get16 sb) (\<lambda>(t, sb).
        Option.bind (naf_sbuf_get16 sb) (\<lambda>(l, sb).
        Option.bind (if l \<noteq> 0 then naf_sbuf_getraw mal sb l else Some (None, sb)) (\<lambda>(v, sb).
          if l \<noteq> 0 \<and> v = None then Some (tlvs, sb)
          else case naf_tlv_new mal t l v of
                 None \<Rightarrow> Some (tlvs, sb)
               | Some tlv \<Rightarrow>
                   let tlvs = tlvs @ [tlv] in
                   if limit \<noteq> -1
                   then (let limit = limit - 1 in
                         if limit \<le> 0 then Some (tlvs, sb) else parse_limit_loop mal sb limit tlvs)
                   else parse_limit_loop mal sb limit tlvs)))
      else Some (tlvs, sb))"

definition naf_tlv_parse_limit :: "allocator \<Rightarrow> naf_sbuf_t \<Rightarrow> int \<Rightarrow> (naf_tlv_t list \<times> naf_sbuf_t) option" where
  "naf_tlv_parse_limit mal sb limit =
     (if limit = 0 then Some ([], sb) else parse_limit_loop mal sb limit [])"

definition naf_tlv_parse :: "allocator \<Rightarrow> naf_sbuf_t \<Rightarrow> (naf_tlv_t list \<times> naf_sbuf_t) option" where
  "naf_tlv_parse mal sb = naf_tlv_parse_limit mal sb (-1)"

fun naf_tlv_render :: "allocator \<Rightarrow> naf_tlv_t list \<Rightarrow> naf_sbuf_t \<Rightarrow> (int \<times> naf_sbuf_t) option" where
  "naf_tlv_render mal [] destsbuf = Some (0, destsbuf)"
| "naf_tlv_render mal (tlv # tlvs) destsbuf =
     (if naf_sbuf_bytesremaining destsbuf > 0
      then do {
        (n1, destsbuf) \<leftarrow> naf_sbuf_put16 mal destsbuf (tlv_type tlv);
        (n2, destsbuf) \<leftarrow> naf_sbuf_put16 mal destsbuf (tlv_length tlv);
        (n3, destsbuf) \<leftarrow> (case tlv_value tlv of
             Some v \<Rightarrow> naf_sbuf_putraw mal destsbuf v (unat (tlv_length tlv))
           | None \<Rightarrow> Some (0, destsbuf));
        (n, destsbuf) \<leftarrow> naf_tlv_render mal tlvs destsbuf;
        Some (n1 + n2 + n3 + n, destsbuf)
      }
      else Some (0, destsbuf))"

fun naf_tlv_getrenderedsize :: "naf_tlv_t list \<Rightarrow> int" where
  "naf_tlv_getrenderedsize [] = 0"
| "naf_tlv_getrenderedsize (tlv # tlvs) =
     2 + 2 + uint (tlv_length tlv) + naf_tlv_getrenderedsize tlvs"

fun naf_tlv_gettotallength :: "naf_tlv_t list \<Rightarrow> int" where
  "naf_tlv_gettotallength [] = 0"
| "naf_tlv_gettotallength (tlv # tlvs) = 1 + naf_tlv_gettotallength tlvs"

definition naf_tlv_remove :: "naf_tlv_t list \<Rightarrow> naf_u16_t \<Rightarrow> naf_tlv_t option \<times> naf_tlv_t list" where
  "naf_tlv_remove head type = unlink_first (\<lambda>cur. tlv_type cur = type) head"

text \<open>\<open>head = None\<close> is a null \<^verbatim>\<open>naf_tlv_t **\<close>.\<close>

definition naf_tlv_append :: "nafmod option \<Rightarrow> naf_tlv_t list option \<Rightarrow> naf_tlv_t list \<Rightarrow> int \<times> naf_tlv_t list option" where
  "naf_tlv_append md head tlv =
     (if md = None \<or> head = None \<or> tlv = [] then (-1, head)
      else (0, map_option (\<lambda>tlvs. tlvs @ tlv) head))"

text \<open>\<open>value\<close> is the caller's memory, \<open>None\<close> for a null pointer.\<close>

definition naf_tlv_addraw ::
    "allocator \<Rightarrow> nafmod option \<Rightarrow> naf_tlv_t list option \<Rightarrow> naf_u16_t \<Rightarrow> naf_u16_t \<Rightarrow> bytes option
       \<Rightarrow> (int \<times> naf_tlv_t list option) option" where
  "naf_tlv_addraw mal md head type len value =
     (if len \<noteq> 0 \<and> mal (unat len) = None then Some (-1, head)
      else do {
        vcopy \<leftarrow> (if len \<noteq> 0
                  then do { v \<leftarrow> value; bs \<leftarrow> mem_read v 0 (unat len); Some (Some bs) }
                  else Some None);
        case naf_tlv_new mal type len vcopy of
          None \<Rightarrow> Some (-1, head)
        | Some tlv \<Rightarrow> Some (naf_tlv_append md head [tlv])
      })"

definition naf_tlv_addtlvraw ::
    "allocator \<Rightarrow> nafmod option \<Rightarrow> naf_tlv_t list option \<Rightarrow> naf_tlv_t list
       \<Rightarrow> (int \<times> naf_tlv_t list option) option" where
  "naf_tlv_addtlvraw mal md desthead srctlv =
     (case srctlv of
        [] \<Rightarrow> Some (-1, desthead)
      | src # _ \<Rightarrow> naf_tlv_addraw mal md desthead (tlv_type src) (tlv_length src) (tlv_value src))"

definition naf_tlv_addstring ::
    "allocator \<Rightarrow> nafmod option \<Rightarrow> naf_tlv_t list option \<Rightarrow> naf_u16_t \<Rightarrow> bytes
       \<Rightarrow> (int \<times> naf_tlv_t list option) option" where
  "naf_tlv_addstring mal md head type str =
     naf_tlv_addraw mal md head type (of_nat (length str + 1)) (Some (str @ [0]))"

definition naf_tlv_addu8 ::
    "allocator \<Rightarrow> nafmod option \<Rightarrow> naf_tlv_t list option \<Rightarrow> naf_u16_t \<Rightarrow> naf_u8_t
       \<Rightarrow> (int \<times> naf_tlv_t list option) option" where
  "naf_tlv_addu8 mal md head type value =
     naf_tlv_addraw mal md head type 1 (Some (naf_byte_put8 value))"

definition naf_tlv_addu16 ::
    "allocator \<Rightarrow> nafmod option \<Rightarrow> naf_tlv_t list option \<Rightarrow> naf_u16_t \<Rightarrow> naf_u16_t
       \<Rightarrow> (int \<times> naf_tlv_t list option) option" where
  "naf_tlv_addu16 mal md head type value =
     naf_tlv_addraw mal md head type 2 (Some (naf_byte_put16 value))"

definition naf_tlv_addu32 ::
    "allocator \<Rightarrow> nafmod option \<Rightarrow> naf_tlv_t list option \<Rightarrow> naf_u16_t \<Rightarrow> naf_u32_t
       \<Rightarrow> (int \<times> naf_tlv_t list option) option" where
  "naf_tlv_addu32 mal md head type value =
     naf_tlv_addraw mal md head type 4 (Some (naf_byte_put32 value))"

definition naf_tlv_addnoval ::
    "allocator \<Rightarrow> nafmod option \<Rightarrow> naf_tlv_t list option \<Rightarrow> naf_u16_t
       \<Rightarrow> (int \<times> naf_tlv_t list option) option" where
  "naf_tlv_addnoval mal md head type = naf_tlv_addraw mal md head type 0 None"

text \<open>The block is owned by the caller of \<^verbatim>\<open>naf_sbuf_init\<close>, so the buffer does not grow; the
  results of \<^verbatim>\<open>naf_tlv_render\<close> and \<^verbatim>\<open>naf_tlv_addraw\<close> are ignored.\<close>

definition naf_tlv_addtlv ::
    "allocator \<Rightarrow> nafmod option \<Rightarrow> naf_tlv_t list option \<Rightarrow> naf_u16_t \<Rightarrow> naf_tlv_t list
       \<Rightarrow> (int \<times> naf_tlv_t list option) option" where
  "naf_tlv_addtlv mal md head type tlv =
     (let buflen = naf_tlv_getrenderedsize tlv
      in case mal (nat buflen) of
           None \<Rightarrow> Some (-1, head)
         | Some buf \<Rightarrow> do {
             let (_, sb) = naf_sbuf_init mal md (Some buf) (word_of_int buflen);
             (_, sb) \<leftarrow> naf_tlv_render mal tlv sb;
             (_, head) \<leftarrow> naf_tlv_addraw mal md head type (word_of_int buflen) (sbuf_buf sb);
             Some (0, head)
           })"

definition naf_tlv_get :: "naf_tlv_t list \<Rightarrow> naf_u16_t \<Rightarrow> naf_tlv_t option" where
  "naf_tlv_get head type = List.find (\<lambda>tlv. tlv_type tlv = type) head"

text \<open>The first \<open>n\<close> bytes of a value; a null value is only dereferenced for \<open>n > 0\<close>.\<close>

definition tlv_value_read :: "naf_tlv_t \<Rightarrow> nat \<Rightarrow> bytes option" where
  "tlv_value_read tlv n =
     (if n = 0 then Some [] else do { v \<leftarrow> tlv_value tlv; mem_read v 0 n })"

definition naf_tlv_getasstring :: "allocator \<Rightarrow> naf_tlv_t list \<Rightarrow> naf_u16_t \<Rightarrow> bytes option option" where
  "naf_tlv_getasstring mal head type =
     (case naf_tlv_get head type of
        None \<Rightarrow> Some None
      | Some tlv \<Rightarrow>
          (case mal (unat (tlv_length tlv) + 1) of
             None \<Rightarrow> Some None
           | Some _ \<Rightarrow> do { bs \<leftarrow> tlv_value_read tlv (unat (tlv_length tlv)); Some (Some (bs @ [0])) }))"

definition naf_tlv_getasu8 :: "naf_tlv_t list \<Rightarrow> naf_u16_t \<Rightarrow> naf_u8_t option" where
  "naf_tlv_getasu8 head type =
     (case naf_tlv_get head type of
        None \<Rightarrow> Some 0
      | Some tlv \<Rightarrow> if tlv_length tlv < 1 then Some 0
                    else map_option naf_byte_get8 (tlv_value_read tlv 1))"

definition naf_tlv_getasu16 :: "naf_tlv_t list \<Rightarrow> naf_u16_t \<Rightarrow> naf_u16_t option" where
  "naf_tlv_getasu16 head type =
     (case naf_tlv_get head type of
        None \<Rightarrow> Some 0
      | Some tlv \<Rightarrow> if tlv_length tlv < 2 then Some 0
                    else map_option naf_byte_get16 (tlv_value_read tlv 2))"

definition naf_tlv_getasu32 :: "naf_tlv_t list \<Rightarrow> naf_u16_t \<Rightarrow> naf_u32_t option" where
  "naf_tlv_getasu32 head type =
     (case naf_tlv_get head type of
        None \<Rightarrow> Some 0
      | Some tlv \<Rightarrow> if tlv_length tlv < 4 then Some 0
                    else map_option naf_byte_get32 (tlv_value_read tlv 4))"

section \<open>Well-formed lists and their encoding\<close>

text \<open>The shape in which the code creates TLVs: a value exactly when the length is not 0, and
  then of that length.\<close>

definition tlv_ok :: "naf_tlv_t \<Rightarrow> bool" where
  "tlv_ok tlv \<longleftrightarrow>
     (case tlv_value tlv of
        None \<Rightarrow> tlv_length tlv = 0
      | Some v \<Rightarrow> tlv_length tlv \<noteq> 0 \<and> length v = unat (tlv_length tlv))"

definition tlv_bytes :: "naf_tlv_t \<Rightarrow> bytes" where
  "tlv_bytes tlv = (case tlv_value tlv of None \<Rightarrow> [] | Some v \<Rightarrow> v)"

definition tlv_encode :: "naf_tlv_t \<Rightarrow> bytes" where
  "tlv_encode tlv = naf_byte_put16 (tlv_type tlv) @ naf_byte_put16 (tlv_length tlv) @ tlv_bytes tlv"

definition tlvs_encode :: "naf_tlv_t list \<Rightarrow> bytes" where
  "tlvs_encode tlvs = concat (map tlv_encode tlvs)"

lemma tlvs_encode_simps [simp]:
  "tlvs_encode [] = []" "tlvs_encode (t # ts) = tlv_encode t @ tlvs_encode ts"
  by (simp_all add: tlvs_encode_def)

lemma length_tlv_bytes: "tlv_ok tlv \<Longrightarrow> length (tlv_bytes tlv) = unat (tlv_length tlv)"
  by (auto simp: tlv_ok_def tlv_bytes_def split: option.splits)

lemma length_tlv_encode: "tlv_ok tlv \<Longrightarrow> length (tlv_encode tlv) = 4 + unat (tlv_length tlv)"
  by (simp add: tlv_encode_def length_tlv_bytes)

lemma naf_tlv_getrenderedsize_eq:
  "\<forall>t \<in> set ts. tlv_ok t \<Longrightarrow> naf_tlv_getrenderedsize ts = int (length (tlvs_encode ts))"
  by (induction ts) (simp_all add: length_tlv_encode)

lemma naf_tlv_gettotallength_eq: "naf_tlv_gettotallength ts = int (length ts)"
  by (induction ts) simp_all

section \<open>Rendering\<close>

lemma naf_tlv_render_fits:
  "\<forall>t \<in> set ts. tlv_ok t \<Longrightarrow> sbuf_inv sb \<Longrightarrow> length (tlvs_encode ts) \<le> sbuf_room sb \<Longrightarrow>
   \<exists>sb'. naf_tlv_render mal ts sb = Some (int (length (tlvs_encode ts)), sb') \<and> sbuf_inv sb' \<and>
         sbuf_done sb' = sbuf_done sb @ tlvs_encode ts \<and>
         sbuf_room sb' = sbuf_room sb - length (tlvs_encode ts)"
proof (induction ts arbitrary: sb)
  case (Cons t ts)
  then have t: "tlv_ok t" and room: "length (tlv_encode t) + length (tlvs_encode ts) \<le> sbuf_room sb"
    by simp_all
  then have room': "4 + unat (tlv_length t) + length (tlvs_encode ts) \<le> sbuf_room sb"
    by (simp add: length_tlv_encode)
  then have pos: "naf_sbuf_bytesremaining sb > 0"
    using Cons.prems(2) by (simp add: sbuf_bytesremaining)
  obtain s1 where s1: "naf_sbuf_put16 mal sb (tlv_type t) = Some (2, s1)" "sbuf_inv s1"
    "sbuf_done s1 = sbuf_done sb @ naf_byte_put16 (tlv_type t)" "sbuf_room s1 = sbuf_room sb - 2"
    using sbw.put_fits [OF Cons.prems(2), of "naf_byte_put16 (tlv_type t)" mal] room'
    by (auto simp: naf_sbuf_put16_def)
  have r1: "2 \<le> sbuf_room s1" using room' s1(4) by linarith
  obtain s2 where s2: "naf_sbuf_put16 mal s1 (tlv_length t) = Some (2, s2)" "sbuf_inv s2"
    "sbuf_done s2 = sbuf_done s1 @ naf_byte_put16 (tlv_length t)" "sbuf_room s2 = sbuf_room s1 - 2"
    using sbw.put_fits [OF s1(2), of "naf_byte_put16 (tlv_length t)" mal] r1
    by (auto simp: naf_sbuf_put16_def)
  have r2: "unat (tlv_length t) \<le> sbuf_room s2" using room' s1(4) s2(4) by linarith
  obtain s3 where s3: "(case tlv_value t of
       Some v \<Rightarrow> naf_sbuf_putraw mal s2 v (unat (tlv_length t)) | None \<Rightarrow> Some (0, s2))
       = Some (int (unat (tlv_length t)), s3)" "sbuf_inv s3"
    "sbuf_done s3 = sbuf_done s2 @ tlv_bytes t" "sbuf_room s3 = sbuf_room s2 - unat (tlv_length t)"
  proof (cases "tlv_value t")
    case None
    with t s2(2) show ?thesis by (intro that [of s2]) (simp_all add: tlv_ok_def tlv_bytes_def)
  next
    case (Some v)
    with t have "length v = unat (tlv_length t)" by (simp add: tlv_ok_def)
    with Some show ?thesis
      using sbw.put_fits [OF s2(2), of v mal] r2
      by (auto simp: naf_sbuf_putraw_eq tlv_bytes_def intro: that)
  qed
  have "length (tlvs_encode ts) \<le> sbuf_room s3" using room' s1(4) s2(4) s3(4) by simp
  with Cons.IH [OF _ s3(2)] Cons.prems(1) obtain s4 where
    s4: "naf_tlv_render mal ts s3 = Some (int (length (tlvs_encode ts)), s4)" "sbuf_inv s4"
    "sbuf_done s4 = sbuf_done s3 @ tlvs_encode ts" "sbuf_room s4 = sbuf_room s3 - length (tlvs_encode ts)"
    by auto
  have "naf_tlv_render mal (t # ts) sb = Some (int (length (tlvs_encode (t # ts))), s4)"
    using pos s1(1) s2(1) s3(1) s4(1) t by (simp add: length_tlv_encode)
  with s1 s2 s3 s4 t show ?case
    by (simp add: tlv_encode_def length_tlv_bytes)
qed simp

section \<open>Parsing\<close>

text \<open>The values read by one round of the loop, and the round itself.\<close>

lemma parse_round:
  assumes inv: "sbuf_inv sb" and mal: "good_alloc mal" and some: "sbuf_rest sb \<noteq> []"
  obtains (stop) sb' where "sbuf_inv sb'"
      "\<And>limit acc. parse_limit_loop mal sb limit acc = Some (acc, sb')"
  | (round) t sb' where "tlv_ok t" "sbuf_inv sb'"
      "\<And>limit acc. parse_limit_loop mal sb limit acc =
        (if limit \<noteq> -1 \<and> limit - 1 \<le> 0 then Some (acc @ [t], sb')
         else parse_limit_loop mal sb' (if limit \<noteq> -1 then limit - 1 else -1) (acc @ [t]))"
proof -
  have g: "\<exists>v s'. naf_sbuf_get16 s = Some (v, s') \<and> sbuf_inv s'" if "sbuf_inv s" for s
    using that sbuf_load_ok(2) [OF that, of 2] by (simp add: sbuf_get_eqs)
  obtain t s1 where s1: "naf_sbuf_get16 sb = Some (t, s1)" "sbuf_inv s1" using g [OF inv] by auto
  obtain l s2 where s2: "naf_sbuf_get16 s1 = Some (l, s2)" "sbuf_inv s2" using g [OF s1(2)] by auto
  obtain v s3 where s3: "(if l \<noteq> 0 then naf_sbuf_getraw mal s2 l else Some (None, s2)) = Some (v, s3)"
    "sbuf_inv s3" "v = None \<or> (l \<noteq> 0 \<and> length (the v) = unat l)"
    using s2(2) mal sbuf_load_ok(2) [OF s2(2), of l]
    by (cases "l = 0"; cases "mal (unat l) = None \<or> length (sbuf_rest s2) < unat l")
       (auto simp: naf_sbuf_getraw_eq)
  have rem: "naf_sbuf_bytesremaining sb > 0"
    using some inv by (simp add: sbuf_bytesremaining length_sbuf_rest [symmetric])
  note unf = parse_limit_loop.simps [of mal sb] rem s1(1) s2(1) s3(1)
  show ?thesis
  proof (cases "(l \<noteq> 0 \<and> v = None) \<or> mal sizeof_naf_tlv_t = None")
    case True
    then have "parse_limit_loop mal sb limit acc = Some (acc, s3)" for limit acc
      by (auto simp: unf naf_tlv_new_def)
    with s3(2) show ?thesis by (rule stop)
  next
    case False
    let ?t = "\<lparr>tlv_type = t, tlv_length = l, tlv_value = v\<rparr>"
    have "parse_limit_loop mal sb limit acc =
        (if limit \<noteq> -1 \<and> limit - 1 \<le> 0 then Some (acc @ [?t], s3)
         else parse_limit_loop mal s3 (if limit \<noteq> -1 then limit - 1 else -1) (acc @ [?t]))"
      for limit acc
      using False by (auto simp: unf naf_tlv_new_def Let_def)
    moreover have "tlv_ok ?t" using s3(3) False by (auto simp: tlv_ok_def)
    ultimately show ?thesis using s3(2) by (intro round) auto
  qed
qed

lemma parse_limit_done:
  "sbuf_inv sb \<Longrightarrow> sbuf_rest sb = [] \<Longrightarrow> parse_limit_loop mal sb limit acc = Some (acc, sb)"
  using length_sbuf_rest [of sb] by (simp add: parse_limit_loop.simps sbuf_bytesremaining)

text \<open>With a positive limit the loop always returns, whatever the bytes.\<close>

lemma parse_limit_total:
  assumes "sbuf_inv sb" "good_alloc mal"
  shows "\<exists>ts sb'. parse_limit_loop mal sb (int (Suc n)) acc = Some (acc @ ts, sb') \<and>
    length ts \<le> Suc n \<and> (\<forall>t \<in> set ts. tlv_ok t) \<and> sbuf_inv sb'"
  using assms
proof (induction n arbitrary: sb acc)
  case 0
  show ?case
  proof (cases "sbuf_rest sb = []")
    case True
    with 0 show ?thesis by (simp add: parse_limit_done)
  next
    case False
    from 0 False show ?thesis
      by (cases rule: parse_round) (auto simp: exI [of _ "[]"] intro: exI [of _ "[_]"])
  qed
next
  case (Suc n)
  show ?case
  proof (cases "sbuf_rest sb = []")
    case True
    with Suc.prems show ?thesis by (auto simp: parse_limit_done)
  next
    case False
    from Suc.prems False show ?thesis
    proof (cases rule: parse_round)
      case (stop sb')
      then show ?thesis by (auto intro: exI [of _ "[]"])
    next
      case (round t sb1)
      obtain ts sb' where "parse_limit_loop mal sb1 (int (Suc n)) (acc @ [t]) =
          Some ((acc @ [t]) @ ts, sb')" "length ts \<le> Suc n" "\<forall>t \<in> set ts. tlv_ok t" "sbuf_inv sb'"
        using Suc.IH [OF round(2) Suc.prems(2)] by blast
      with round have "parse_limit_loop mal sb (int (Suc (Suc n))) acc = Some (acc @ (t # ts), sb')"
        by simp
      with \<open>length ts \<le> Suc n\<close> \<open>\<forall>t \<in> set ts. tlv_ok t\<close> \<open>sbuf_inv sb'\<close> \<open>tlv_ok t\<close> show ?thesis
        by (intro exI [of _ "t # ts"] exI [of _ sb']) simp
    qed
  qed
qed

text \<open>One round on an encoded TLV.\<close>

lemma parse_round_encoded:
  assumes inv: "sbuf_inv sb" and mal: "total_alloc mal" and t: "tlv_ok t"
    and rest: "sbuf_rest sb = tlv_encode t @ bs"
  obtains sb' where "sbuf_inv sb'" "sbuf_rest sb' = bs"
    "\<And>limit acc. parse_limit_loop mal sb limit acc =
        (if limit \<noteq> -1 \<and> limit - 1 \<le> 0 then Some (acc @ [t], sb')
         else parse_limit_loop mal sb' (if limit \<noteq> -1 then limit - 1 else -1) (acc @ [t]))"
proof -
  have rem: "naf_sbuf_bytesremaining sb > 0"
  proof -
    have "sbuf_rest sb \<noteq> []" using rest length_tlv_encode [OF t] by auto
    then show ?thesis using inv by (simp add: sbuf_bytesremaining length_sbuf_rest [symmetric])
  qed
  obtain s1 s2 where s: "naf_sbuf_get16 sb = Some (tlv_type t, s1)"
    "naf_sbuf_get16 s1 = Some (tlv_length t, s2)" "sbuf_inv s2" "sbuf_rest s2 = tlv_bytes t @ bs"
    using sbr.get16_get16 [OF inv, of "tlv_type t" "tlv_length t" "tlv_bytes t @ bs"] rest
    by (auto simp: tlv_encode_def)
  obtain s3 where s3: "(if tlv_length t \<noteq> 0 then naf_sbuf_getraw mal s2 (tlv_length t)
      else Some (None, s2)) = Some (tlv_value t, s3)" "sbuf_inv s3" "sbuf_rest s3 = bs"
    "tlv_length t \<noteq> 0 \<longrightarrow> tlv_value t \<noteq> None"
  proof (cases "tlv_value t")
    case None
    with t s(3,4) show ?thesis by (intro that [of s2]) (simp_all add: tlv_ok_def tlv_bytes_def)
  next
    case (Some v)
    with t have v: "tlv_length t \<noteq> 0" "length v = unat (tlv_length t)" by (simp_all add: tlv_ok_def)
    moreover from Some s(4) have "sbuf_rest s2 = v @ bs" by (simp add: tlv_bytes_def)
    ultimately show ?thesis
      using sbuf_load_ok(2,3) [OF s(3), of "tlv_length t"] Some total_allocD [OF mal] s(3)
      by (intro that [of "s2\<lparr>sbuf_pos := sbuf_pos s2 + tlv_length t\<rparr>"])
         (simp_all add: naf_sbuf_getraw_eq)
  qed
  obtain blk where blk: "mal sizeof_naf_tlv_t = Some blk" using total_allocD(2) [OF mal] by blast
  have "parse_limit_loop mal sb limit acc =
        (if limit \<noteq> -1 \<and> limit - 1 \<le> 0 then Some (acc @ [t], s3)
         else parse_limit_loop mal s3 (if limit \<noteq> -1 then limit - 1 else -1) (acc @ [t]))"
    for limit acc
  proof -
    have new: "naf_tlv_new mal (tlv_type t) (tlv_length t) (tlv_value t) = Some t"
      by (simp add: naf_tlv_new_def blk)
    show ?thesis
      using s3(4) by (auto simp: parse_limit_loop.simps [of mal sb] rem s(1,2) s3(1) new Let_def)
  qed
  with s3 show ?thesis by (intro that [of s3])
qed

text \<open>Without a limit the whole encoded list is read back; a list followed by other bytes is
  read back exactly when its length is the limit.\<close>

lemma parse_encoded:
  "total_alloc mal \<Longrightarrow> \<forall>t \<in> set ts. tlv_ok t \<Longrightarrow> sbuf_inv sb \<Longrightarrow> sbuf_rest sb = tlvs_encode ts \<Longrightarrow>
     \<exists>sb'. parse_limit_loop mal sb (-1) acc = Some (acc @ ts, sb') \<and> sbuf_inv sb' \<and> sbuf_rest sb' = []"
proof (induction ts arbitrary: sb acc)
  case Nil
  then show ?case by (simp add: parse_limit_done)
next
  case (Cons t ts)
  then have "tlv_ok t" "sbuf_rest sb = tlv_encode t @ tlvs_encode ts" by simp_all
  then show ?case
  proof (rule parse_round_encoded [OF Cons.prems(3,1)])
    fix s1 assume "sbuf_inv s1" "sbuf_rest s1 = tlvs_encode ts"
      "\<And>limit acc. parse_limit_loop mal sb limit acc =
        (if limit \<noteq> -1 \<and> limit - 1 \<le> 0 then Some (acc @ [t], s1)
         else parse_limit_loop mal s1 (if limit \<noteq> -1 then limit - 1 else -1) (acc @ [t]))"
    with Cons.IH [of s1 "acc @ [t]"] Cons.prems show ?case by simp
  qed
qed

lemma parse_encoded_limit:
  "total_alloc mal \<Longrightarrow> \<forall>t \<in> set (t # ts). tlv_ok t \<Longrightarrow> sbuf_inv sb \<Longrightarrow>
     sbuf_rest sb = tlvs_encode (t # ts) @ bs \<Longrightarrow>
     \<exists>sb'. parse_limit_loop mal sb (int (length (t # ts))) acc = Some (acc @ t # ts, sb') \<and>
           sbuf_inv sb' \<and> sbuf_rest sb' = bs"
proof (induction ts arbitrary: t sb acc)
  case Nil
  then have "tlv_ok t" "sbuf_rest sb = tlv_encode t @ bs" by simp_all
  then show ?case by (rule parse_round_encoded [OF Nil.prems(3,1)]) auto
next
  case (Cons u ts)
  then have "tlv_ok t" "sbuf_rest sb = tlv_encode t @ tlvs_encode (u # ts) @ bs" by simp_all
  then show ?case
  proof (rule parse_round_encoded [OF Cons.prems(3,1)])
    fix s1 assume "sbuf_inv s1" "sbuf_rest s1 = tlvs_encode (u # ts) @ bs"
      "\<And>limit acc. parse_limit_loop mal sb limit acc =
        (if limit \<noteq> -1 \<and> limit - 1 \<le> 0 then Some (acc @ [t], s1)
         else parse_limit_loop mal s1 (if limit \<noteq> -1 then limit - 1 else -1) (acc @ [t]))"
    with Cons.IH [of u s1 "acc @ [t]"] Cons.prems show ?case by (simp add: algebra_simps)
  qed
qed

text \<open>A single byte that is left over makes the loop without a limit spin: both loads return 0
  without moving the cursor.\<close>

lemma stray_remaining:
  "sbuf_inv sb \<Longrightarrow> length (sbuf_rest sb) = Suc 0 \<Longrightarrow> naf_sbuf_bytesremaining sb = 1"
  by (simp add: sbuf_bytesremaining length_sbuf_rest)

lemma parse_stray_byte_rounds:
  assumes "sbuf_inv sb" "length (sbuf_rest sb) = 1" "mal sizeof_naf_tlv_t \<noteq> None"
  shows "parse_limit_loop mal sb (-1) acc = None"
proof (rule ccontr)
  assume "parse_limit_loop mal sb (-1) acc \<noteq> None"
  then obtain r where ret: "parse_limit_loop mal sb (-1) acc = Some r" by auto
  have "\<not> (sbuf_inv sb \<and> length (sbuf_rest sb) = 1 \<and> mal sizeof_naf_tlv_t \<noteq> None \<and> (-1::int) = -1)"
  proof (rule parse_limit_loop.raw_induct [where P = "\<lambda>mal sb limit acc r.
      \<not> (sbuf_inv sb \<and> length (sbuf_rest sb) = 1 \<and> mal sizeof_naf_tlv_t \<noteq> None \<and> limit = -1)",
      OF _ ret], goal_cases)
    case (1 f mal sb limit tlvs r)
    have ih: "\<And>tlvs. f mal sb (-1) tlvs = Some r \<Longrightarrow>
        \<not> (sbuf_inv sb \<and> length (sbuf_rest sb) = 1 \<and> mal sizeof_naf_tlv_t \<noteq> None)"
      using 1(1) by blast
    from 1(2) show ?case
      using ih by (auto simp: sbuf_get_eqs naf_tlv_new_def Let_def dest: stray_remaining
          split: option.splits if_splits)
  qed
  with assms show False by simp
qed

lemma parse_stray_byte:
  "total_alloc mal \<Longrightarrow> \<forall>t \<in> set ts. tlv_ok t \<Longrightarrow> sbuf_inv sb \<Longrightarrow> sbuf_rest sb = tlvs_encode ts @ [b] \<Longrightarrow>
     parse_limit_loop mal sb (-1) acc = None"
proof (induction ts arbitrary: sb acc)
  case Nil
  then show ?case by (intro parse_stray_byte_rounds) (auto dest: total_allocD(3))
next
  case (Cons t ts)
  then have "tlv_ok t" "sbuf_rest sb = tlv_encode t @ tlvs_encode ts @ [b]" by simp_all
  then show ?case
  proof (rule parse_round_encoded [OF Cons.prems(3,1)])
    fix s1 assume "sbuf_inv s1" "sbuf_rest s1 = tlvs_encode ts @ [b]"
      "\<And>limit acc. parse_limit_loop mal sb limit acc =
        (if limit \<noteq> -1 \<and> limit - 1 \<le> 0 then Some (acc @ [t], s1)
         else parse_limit_loop mal s1 (if limit \<noteq> -1 then limit - 1 else -1) (acc @ [t]))"
    with Cons.IH [of s1 "acc @ [t]"] Cons.prems show ?case by simp
  qed
qed

section \<open>Adding and looking up\<close>

lemma naf_tlv_addraw_ok:
  assumes "total_alloc mal" "len \<noteq> 0 \<Longrightarrow> value = Some v \<and> unat len \<le> length v"
  shows "naf_tlv_addraw mal (Some md) (Some ts) type len value =
    Some (0, Some (ts @ [\<lparr>tlv_type = type, tlv_length = len,
      tlv_value = if len = 0 then None else Some (take (unat len) v)\<rparr>]))"
  using assms total_allocD(3) [OF assms(1)]
  by (cases "len = 0")
     (auto simp: naf_tlv_addraw_def naf_tlv_new_def naf_tlv_append_def mem_read_def split: option.splits)

text \<open>A failing allocation leaves the list as it was.\<close>

lemma naf_tlv_addraw_refused:
  assumes "mal sizeof_naf_tlv_t = None" "len \<noteq> 0 \<Longrightarrow> value = Some v \<and> unat len \<le> length v"
  shows "naf_tlv_addraw mal md head type len value = Some (-1, head)"
  using assms
  by (cases "len = 0") (auto simp: naf_tlv_addraw_def naf_tlv_new_def mem_read_def)

lemma naf_tlv_get_append_new:
  "naf_tlv_get ts (tlv_type t) = None \<Longrightarrow> naf_tlv_get (ts @ [t]) (tlv_type t) = Some t"
  by (induction ts) (auto simp: naf_tlv_get_def)

lemma naf_tlv_get_append_other:
  "tlv_type t \<noteq> type \<Longrightarrow> naf_tlv_get (ts @ [t]) type = naf_tlv_get ts type"
  by (induction ts) (auto simp: naf_tlv_get_def)

lemma naf_tlv_addtlv_ok:
  assumes mal: "total_alloc mal" and ok: "\<forall>t \<in> set inner. tlv_ok t"
    and size: "length (tlvs_encode inner) < 65536" and ne: "inner \<noteq> []"
  shows "naf_tlv_addtlv mal (Some md) (Some ts) type inner =
    Some (0, Some (ts @ [\<lparr>tlv_type = type, tlv_length = of_nat (length (tlvs_encode inner)),
                          tlv_value = Some (tlvs_encode inner)\<rparr>]))"
proof -
  let ?n = "length (tlvs_encode inner)"
  obtain buf where buf: "mal ?n = Some buf" "length buf = ?n" using total_allocD(2) [OF mal] by blast
  have n: "unat (of_nat ?n :: naf_u16_t) = ?n" using size by (rule unat_of_nat_u16)
  have pos: "?n > 0" using ne ok by (cases inner) (simp_all add: length_tlv_encode)
  obtain sb where sb: "naf_sbuf_init mal (Some md) (Some buf) (of_nat ?n) = (0, sb)" "sbuf_inv sb"
    "sbuf_done sb = []" "sbuf_room sb = ?n"
    using sbuf_inv_init_given [of "of_nat ?n" buf mal "Some md"] buf n by auto
  obtain sb' where sb': "naf_tlv_render mal inner sb = Some (int ?n, sb')" "sbuf_inv sb'"
    "sbuf_done sb' = tlvs_encode inner"
    using naf_tlv_render_fits [OF ok sb(2), of mal] sb(3,4) by auto
  have len: "?n \<le> length (sbuf_mem sb')"
    using arg_cong [OF sb'(3), of length] by (simp add: sbuf_done_def)
  have "length (sbuf_done sb') = unat (sbuf_pos sb')" using sb'(2) by (rule length_sbuf_done)
  with sb'(3) have tk: "take ?n (sbuf_mem sb') = tlvs_encode inner" by (simp add: sbuf_done_def)
  have nz: "(of_nat ?n :: naf_u16_t) \<noteq> 0" using n pos by (metis less_not_refl unat_0)
  have "naf_tlv_addraw mal (Some md) (Some ts) type (of_nat ?n) (sbuf_buf sb') =
      Some (0, Some (ts @ [\<lparr>tlv_type = type, tlv_length = of_nat ?n,
                            tlv_value = Some (tlvs_encode inner)\<rparr>]))"
    using naf_tlv_addraw_ok [OF mal, of "of_nat ?n" "sbuf_buf sb'" "sbuf_mem sb'"]
      sbuf_invD(1) [OF sb'(2)] len n nz tk by simp
  with buf sb(1) sb'(1) show ?thesis
    by (simp add: naf_tlv_addtlv_def naf_tlv_getrenderedsize_eq [OF ok])
qed

section \<open>Properties\<close>

text \<open>C31. Rendering and parsing are inverse: a list of well-formed TLVs rendered into a fresh buffer
  that holds it is read back by \<^verbatim>\<open>naf_tlv_parse\<close> from the bytes written, completely and in order.\<close>

theorem tlv_render_parse:
  assumes mal: "total_alloc mal" and ok: "\<forall>t \<in> set ts. tlv_ok t"
    and len: "unat len \<le> 32768" "len \<noteq> 0" and fits: "length (tlvs_encode ts) \<le> unat len"
  shows "\<exists>sb sb' out. naf_sbuf_init mal md None len = (0, sb) \<and>
    naf_tlv_render mal ts sb = Some (int (length (tlvs_encode ts)), sb') \<and>
    naf_tlv_parse mal (snd (naf_sbuf_init mal md (sbuf_buf sb') (sbuf_pos sb'))) = Some (ts, out)"
proof -
  obtain b where b: "mal (unat len) = Some b" using total_allocD(2) [OF mal] by blast
  obtain sb where sb: "naf_sbuf_init mal md None len = (0, sb)" "sbuf_inv sb" "sbuf_done sb = []"
    "sbuf_room sb = unat len"
    using sbuf_inv_init_alloc [OF total_allocD(1) [OF mal] len(1), of b md] len(2) b by auto
  obtain sb' where sb': "naf_tlv_render mal ts sb = Some (int (length (tlvs_encode ts)), sb')" "sbuf_inv sb'"
    "sbuf_done sb' = tlvs_encode ts"
    using naf_tlv_render_fits [OF ok sb(2), of mal] sb(3,4) fits by auto
  let ?p = "sbuf_pos sb'"
  have le: "unat ?p \<le> length (sbuf_mem sb')" using sbuf_invD(2,3) [OF sb'(2)] by simp
  obtain rb where rb: "naf_sbuf_init mal md (Some (sbuf_mem sb')) ?p = (0, rb)" "sbuf_inv rb"
    "sbuf_rest rb = tlvs_encode ts"
    using sbuf_inv_init_given [OF le, of mal md] sb'(3) by (auto simp: sbuf_done_def)
  obtain out where "naf_tlv_parse mal rb = Some (ts, out)"
    using parse_encoded [OF mal ok rb(2,3), of "[]"] by (auto simp: naf_tlv_parse_def naf_tlv_parse_limit_def)
  then show ?thesis using sb(1) sb'(1) rb(1) sbuf_invD(1) [OF sb'(2)] by auto
qed

theorem tlv_render_parse_witness:
  "let ts = [\<lparr>tlv_type = 1, tlv_length = 2, tlv_value = Some [65, 66]\<rparr>,
             \<lparr>tlv_type = 3, tlv_length = 0, tlv_value = None\<rparr>] in
   \<exists>sb sb' out. naf_sbuf_init zero_alloc None None 64 = (0, sb) \<and>
    naf_tlv_render zero_alloc ts sb = Some (int (length (tlvs_encode ts)), sb') \<and>
    naf_tlv_parse zero_alloc (snd (naf_sbuf_init zero_alloc None (sbuf_buf sb') (sbuf_pos sb'))) = Some (ts, out)"
  unfolding Let_def by (rule tlv_render_parse) (simp_all add: tlv_ok_def tlv_encode_def tlv_bytes_def)

text \<open>C37. Parsing a bounded number of TLVs is total: on any sound buffer and any bytes,
  \<^verbatim>\<open>naf_tlv_parse_limit\<close> with a non-negative limit returns without a fault, with at most that many TLVs,
  all of them well-formed.\<close>

theorem tlv_parse_limit_total:
  assumes "sbuf_inv sb" "good_alloc mal" "0 \<le> limit"
  shows "\<exists>ts sb'. naf_tlv_parse_limit mal sb limit = Some (ts, sb') \<and> int (length ts) \<le> limit \<and>
    (\<forall>t \<in> set ts. tlv_ok t) \<and> sbuf_inv sb'"
proof (cases "limit = 0")
  case True
  with assms show ?thesis by (simp add: naf_tlv_parse_limit_def)
next
  case False
  define n where "n = nat limit - 1"
  have n: "limit = int (Suc n)" using False assms(3) by (simp add: n_def)
  show ?thesis
    using parse_limit_total [OF assms(1,2), of n "[]"] False unfolding n naf_tlv_parse_limit_def by fastforce
qed

theorem tlv_parse_limit_total_witness:
  "\<exists>ts sb'. naf_tlv_parse_limit zero_alloc (snd (naf_sbuf_init zero_alloc None (Some [0, 1, 0]) 3)) 5 = Some (ts, sb') \<and>
     int (length ts) \<le> 5 \<and> (\<forall>t \<in> set ts. tlv_ok t) \<and> sbuf_inv sb'"
  by (rule tlv_parse_limit_total) (simp_all add: naf_sbuf_init_def sbuf_inv_def)

text \<open>Parsing without a limit does not return when one byte follows the last TLV: the two length
  reads return 0 without moving the cursor, and an empty TLV is appended for ever.\<close>

theorem tlv_parse_stray_byte_diverges:
  assumes "total_alloc mal" "\<forall>t \<in> set ts. tlv_ok t" "sbuf_inv sb" "sbuf_rest sb = tlvs_encode ts @ [b]"
  shows "naf_tlv_parse mal sb = None"
  using parse_stray_byte [OF assms] by (simp add: naf_tlv_parse_def naf_tlv_parse_limit_def)

theorem tlv_parse_stray_byte_diverges_witness:
  "naf_tlv_parse zero_alloc (snd (naf_sbuf_init zero_alloc None (Some [0, 4, 0, 0, 7]) 5)) = None"
  by (rule tlv_parse_stray_byte_diverges [where ts = "[\<lparr>tlv_type = 4, tlv_length = 0, tlv_value = None\<rparr>]" and b = 7])
     (simp_all add: naf_sbuf_init_def sbuf_inv_def sbuf_rest_def sbuf_mem_def tlv_ok_def tlv_encode_def
        tlv_bytes_def naf_byte_put16_def)

text \<open>Nesting: \<^verbatim>\<open>naf_tlv_addtlv\<close> appends one TLV whose value is the encoding of the inner list, and
  parsing that value gives the inner list back.\<close>

theorem tlv_addtlv_nests:
  assumes mal: "total_alloc mal" and ok: "\<forall>t \<in> set inner. tlv_ok t"
    and size: "length (tlvs_encode inner) < 65536" and ne: "inner \<noteq> []"
  shows "\<exists>t out. naf_tlv_addtlv mal (Some md) (Some ts) type inner = Some (0, Some (ts @ [t])) \<and>
    tlv_type t = type \<and> tlv_ok t \<and>
    naf_tlv_parse mal (snd (naf_sbuf_init mal md' (tlv_value t) (tlv_length t))) = Some (inner, out)"
proof -
  let ?n = "length (tlvs_encode inner)"
  let ?t = "\<lparr>tlv_type = type, tlv_length = of_nat ?n, tlv_value = Some (tlvs_encode inner)\<rparr>"
  have n: "unat (of_nat ?n :: naf_u16_t) = ?n" using size by (rule unat_of_nat_u16)
  have "?n > 0" using ne ok by (cases inner) (simp_all add: length_tlv_encode)
  then have "tlv_ok ?t" using n by (auto simp: tlv_ok_def)
  moreover obtain rb where rb: "naf_sbuf_init mal md' (Some (tlvs_encode inner)) (of_nat ?n) = (0, rb)"
    "sbuf_inv rb" "sbuf_rest rb = tlvs_encode inner"
    using sbuf_inv_init_given [of "of_nat ?n" "tlvs_encode inner" mal md'] n by auto
  moreover obtain out where "naf_tlv_parse mal rb = Some (inner, out)"
    using parse_encoded [OF mal ok rb(2,3), of "[]"] by (auto simp: naf_tlv_parse_def naf_tlv_parse_limit_def)
  ultimately show ?thesis using naf_tlv_addtlv_ok [OF mal ok size ne] by auto
qed

theorem tlv_addtlv_nests_witness:
  "\<exists>t out. naf_tlv_addtlv zero_alloc (Some 1) (Some []) 5
      [\<lparr>tlv_type = 2, tlv_length = 1, tlv_value = Some [9]\<rparr>] = Some (0, Some ([] @ [t])) \<and>
    tlv_type t = 5 \<and> tlv_ok t \<and>
    naf_tlv_parse zero_alloc (snd (naf_sbuf_init zero_alloc None (tlv_value t) (tlv_length t))) =
      Some ([\<lparr>tlv_type = 2, tlv_length = 1, tlv_value = Some [9]\<rparr>], out)"
  by (rule tlv_addtlv_nests) (simp_all add: tlv_ok_def tlv_encode_def tlv_bytes_def)

end
