(* ===== verification/Tags.thy ===== *)
theory Tags
  imports Tlv
begin

text \<open>
  Tag lists, \<^verbatim>\<open>naf/tags.c\<close>: named, typed data that modules attach to connections,
  messages and nodes. A \<^verbatim>\<open>void **taglistv\<close> is an option (\<open>None\<close> for a null pointer) of
  the list of the tags reached from its head. Names are C strings: the bytes before the
  terminator.
\<close>

section \<open>Data\<close>

text \<open>The user information block of \<^verbatim>\<open>timps/oscar/snac.h\<close>, which can be attached as a tag.\<close>

record touserinfo =
  toui_sn :: bytes
  toui_evillevel :: naf_u16_t
  toui_tlvh :: "naf_tlv_t list"

text \<open>What the \<^verbatim>\<open>void *data\<close> of a tag can designate: nothing, a C string, an integer stored in the
  pointer, another object by its address (functions among them), a memory block, a TLV list (the
  empty list being the null pointer) or a user information block.\<close>

datatype tagdata =
    DNull
  | DStr bytes
  | DInt naf_u32_t
  | DPtr nat
  | DBuf bytes
  | DTlvs "naf_tlv_t list"
  | DUserinfo touserinfo

record naf_tag_t =
  tag_owner :: nafmod
  tag_name :: bytes
  tag_type :: char
  tag_data :: tagdata

abbreviation (input) MAXTAGNAMELEN :: nat where "MAXTAGNAMELEN \<equiv> 64"

text \<open>\<^verbatim>\<open>sizeof(naf_tag_t)\<close> on an LP64 system.\<close>

abbreviation (input) sizeof_naf_tag_t :: nat where "sizeof_naf_tag_t \<equiv> 96"

type_synonym taglist = "naf_tag_t list"

section \<open>Operations\<close>

text \<open>The guard \<^verbatim>\<open>!name || !strlen(name)\<close>.\<close>

definition badname :: "bytes option \<Rightarrow> bool" where
  "badname name \<longleftrightarrow> name = None \<or> name = Some []"

definition tag_matches :: "nafmod \<times> bytes \<Rightarrow> naf_tag_t \<Rightarrow> bool" where
  "tag_matches k tag \<longleftrightarrow> tag_owner tag = fst k \<and> tag_name tag = snd k"

text \<open>The searching loop of \<^verbatim>\<open>naf_tag_ispresent\<close> and the unlinking loop of \<^verbatim>\<open>naf_tag_remove\<close>.\<close>

fun tag_search :: "nafmod \<times> bytes \<Rightarrow> taglist \<Rightarrow> naf_tag_t option" where
  "tag_search k [] = None"
| "tag_search k (tag # tags) = (if tag_matches k tag then Some tag else tag_search k tags)"

fun tag_unlink :: "nafmod \<times> bytes \<Rightarrow> taglist \<Rightarrow> naf_tag_t option \<times> taglist" where
  "tag_unlink k [] = (None, [])"
| "tag_unlink k (tag # tags) =
     (if tag_matches k tag then (Some tag, tags)
      else (let (r, tags) = tag_unlink k tags in (r, tag # tags)))"

definition naf_tag_ispresent :: "taglist option \<Rightarrow> nafmod option \<Rightarrow> bytes option \<Rightarrow> int" where
  "naf_tag_ispresent taglistv md name =
     (case (md, taglistv) of
        (Some m, Some tags) \<Rightarrow>
          if badname name then -1
          else if tag_search (m, the name) tags \<noteq> None then 1 else 0
      | _ \<Rightarrow> -1)"

definition naf_tag_add ::
    "allocator \<Rightarrow> taglist option \<Rightarrow> nafmod option \<Rightarrow> bytes option \<Rightarrow> char \<Rightarrow> tagdata
       \<Rightarrow> int \<times> taglist option" where
  "naf_tag_add mal taglistv md name type data =
     (if md = None \<or> taglistv = None \<or> badname name then (-1, taglistv)
      else if naf_tag_ispresent taglistv md name = 1 then (-1, taglistv)
      else case mal sizeof_naf_tag_t of
             None \<Rightarrow> (-1, taglistv)
           | Some _ \<Rightarrow>
               (let tag = \<lparr>tag_owner = the md, tag_name = take MAXTAGNAMELEN (the name),
                           tag_type = type, tag_data = data\<rparr>
                in (0, Some (tag # the taglistv))))"

text \<open>\<open>None\<close>: \<^verbatim>\<open>strdup\<close> on a tag of type S whose data is not a string.\<close>

fun cloneall_loop :: "allocator \<Rightarrow> taglist option \<Rightarrow> taglist \<Rightarrow> taglist option option" where
  "cloneall_loop mal dest [] = Some dest"
| "cloneall_loop mal dest (cur # rest) =
     (if tag_type cur = CHR ''S''
      then (case tag_data cur of
              DStr s \<Rightarrow>
                (case mal (length s + 1) of
                   None \<Rightarrow> cloneall_loop mal dest rest
                 | Some _ \<Rightarrow>
                     cloneall_loop mal (snd (naf_tag_add mal dest (Some (tag_owner cur))
                       (Some (tag_name cur)) (tag_type cur) (DStr s))) rest)
            | _ \<Rightarrow> None)
      else if tag_type cur = CHR ''I''
      then cloneall_loop mal (snd (naf_tag_add mal dest (Some (tag_owner cur))
             (Some (tag_name cur)) (tag_type cur) (tag_data cur))) rest
      else cloneall_loop mal dest rest)"

definition naf_tag_cloneall ::
    "allocator \<Rightarrow> taglist option \<Rightarrow> taglist option \<Rightarrow> (int \<times> taglist option) option" where
  "naf_tag_cloneall mal desttaglistv srctaglistv =
     (case (desttaglistv, srctaglistv) of
        (Some _, Some src) \<Rightarrow> map_option (\<lambda>d. (0, d)) (cloneall_loop mal desttaglistv src)
      | _ \<Rightarrow> Some (-1, desttaglistv))"

text \<open>The result carries what \<^verbatim>\<open>*typeret\<close> and \<^verbatim>\<open>*dataret\<close> are set to, when they are.\<close>

definition naf_tag_remove ::
    "taglist option \<Rightarrow> nafmod option \<Rightarrow> bytes option \<Rightarrow> int \<times> (char \<times> tagdata) option \<times> taglist option" where
  "naf_tag_remove taglistv md name =
     (case (md, taglistv) of
        (Some m, Some tags) \<Rightarrow>
          if badname name then (-1, None, taglistv)
          else (case tag_unlink (m, the name) tags of
                  (Some tag, tags') \<Rightarrow> (0, Some (tag_type tag, tag_data tag), Some tags')
                | (None, tags') \<Rightarrow> (-1, None, Some tags'))
      | _ \<Rightarrow> (-1, None, taglistv))"

text \<open>A null module matches any owner.\<close>

fun fetch_loop :: "nafmod option \<Rightarrow> bytes \<Rightarrow> taglist \<Rightarrow> naf_tag_t option" where
  "fetch_loop md name [] = None"
| "fetch_loop md name (tag # tags) =
     (if md \<noteq> None \<and> Some (tag_owner tag) \<noteq> md then fetch_loop md name tags
      else if tag_name tag = name then Some tag
      else fetch_loop md name tags)"

definition naf_tag_fetch :: "taglist option \<Rightarrow> nafmod option \<Rightarrow> bytes option \<Rightarrow> int \<times> (char \<times> tagdata) option" where
  "naf_tag_fetch taglistv md name =
     (case taglistv of
        None \<Rightarrow> (-1, None)
      | Some tags \<Rightarrow>
          if badname name then (-1, None)
          else (case fetch_loop md (the name) tags of
                  Some tag \<Rightarrow> (0, Some (tag_type tag, tag_data tag))
                | None \<Rightarrow> (-1, None)))"

text \<open>The callback works on a user state and stops the iteration with a non-zero result.\<close>

fun iter_loop :: "('u \<Rightarrow> bytes \<Rightarrow> char \<Rightarrow> tagdata \<Rightarrow> int \<times> 'u) \<Rightarrow> 'u \<Rightarrow> taglist \<Rightarrow> 'u" where
  "iter_loop uf ud [] = ud"
| "iter_loop uf ud (tag # tags) =
     (let (r, ud) = uf ud (tag_name tag) (tag_type tag) (tag_data tag)
      in if r \<noteq> 0 then ud else iter_loop uf ud tags)"

definition naf_tag_iter :: "taglist option \<Rightarrow> ('u \<Rightarrow> bytes \<Rightarrow> char \<Rightarrow> tagdata \<Rightarrow> int \<times> 'u) \<Rightarrow> 'u \<Rightarrow> 'u" where
  "naf_tag_iter taglistv uf ud = (case taglistv of None \<Rightarrow> ud | Some tags \<Rightarrow> iter_loop uf ud tags)"

text \<open>\<open>freetag m\<close> is the handler of module \<open>m\<close>, if it has one, as a function on the state it
  works on.\<close>

fun naf_tag_freelist ::
    "(nafmod \<Rightarrow> ('u \<Rightarrow> bytes \<Rightarrow> char \<Rightarrow> tagdata \<Rightarrow> 'u) option) \<Rightarrow> taglist \<Rightarrow> 'u \<Rightarrow> 'u" where
  "naf_tag_freelist freetag [] user = user"
| "naf_tag_freelist freetag (tag # tags) user =
     naf_tag_freelist freetag tags
       (case freetag (tag_owner tag) of
          Some h \<Rightarrow> h user (tag_name tag) (tag_type tag) (tag_data tag)
        | None \<Rightarrow> user)"

section \<open>The list of tags as a keyed list\<close>

lemma tag_search_find: "tag_search k tags = List.find (tag_matches k) tags"
  by (induction tags) auto

lemma tag_unlink_first: "tag_unlink k tags = unlink_first (tag_matches k) tags"
  by (induction tags) auto

lemma tag_matches_key: "tag_matches k a \<Longrightarrow> tag_matches k' a \<Longrightarrow> k = k'"
  by (simp add: tag_matches_def prod_eq_iff)

interpretation tagl: keyed_list tag_matches "\<lambda>l. l" tag_search tag_unlink Cons
  by unfold_locales (auto simp: tag_search_find tag_unlink_first dest: tag_matches_key)

lemma tag_matches_inj:
  assumes "tag_matches k = tag_matches k'" shows "k = k'"
proof -
  have "tag_matches k \<lparr>tag_owner = fst k, tag_name = snd k, tag_type = CHR ''V'', tag_data = DNull\<rparr>"
    by (simp add: tag_matches_def)
  with assms show ?thesis using tag_matches_key by metis
qed

lemma fetch_loop_owner: "fetch_loop (Some m) name tags = tag_search (m, name) tags"
  by (induction tags) (auto simp: tag_matches_def)

lemma fetch_loop_any: "fetch_loop None name tags = List.find (\<lambda>tag. tag_name tag = name) tags"
  by (induction tags) auto

section \<open>Invariant\<close>

text \<open>Names are not empty and fit the array, and no module has two tags of the same name.\<close>

definition tags_inv :: "taglist \<Rightarrow> bool" where
  "tags_inv tags \<longleftrightarrow>
     unique_by tag_matches tags \<and>
     (\<forall>tag \<in> set tags. tag_name tag \<noteq> [] \<and> length (tag_name tag) \<le> MAXTAGNAMELEN)"

text \<open>One addition, on every branch.\<close>

lemma naf_tag_add_cases:
  assumes "mal sizeof_naf_tag_t \<noteq> None" "name \<noteq> []"
  shows "naf_tag_add mal (Some tags) (Some m) (Some name) type data =
    (if tag_search (m, name) tags \<noteq> None then (-1, Some tags)
     else (0, Some (\<lparr>tag_owner = m, tag_name = take MAXTAGNAMELEN name, tag_type = type,
                     tag_data = data\<rparr> # tags)))"
  using assms by (auto simp: naf_tag_add_def naf_tag_ispresent_def badname_def split: option.splits)

lemma naf_tag_add_error:
  "fst (naf_tag_add mal lst md name type data) \<noteq> 0 \<Longrightarrow> snd (naf_tag_add mal lst md name type data) = lst"
  by (auto simp: naf_tag_add_def Let_def split: option.splits)

lemma tags_inv_add:
  assumes inv: "tags_inv tags" and len: "length name \<le> MAXTAGNAMELEN"
  shows "\<exists>tags'. snd (naf_tag_add mal (Some tags) (Some m) (Some name) type data) = Some tags' \<and>
     tags_inv tags' \<and> (\<exists>new. tags' = new @ tags)"
proof (cases "name = [] \<or> mal sizeof_naf_tag_t = None \<or> tag_search (m, name) tags \<noteq> None")
  case True
  with inv show ?thesis
    by (auto simp: naf_tag_add_def naf_tag_ispresent_def badname_def split: option.splits)
next
  case False
  let ?tag = "\<lparr>tag_owner = m, tag_name = take MAXTAGNAMELEN name, tag_type = type, tag_data = data\<rparr>"
  have "tag_matches (m, name) ?tag" using len by (simp add: tag_matches_def)
  then have "unique_by tag_matches (?tag # tags)"
    using tagl.unique_push [of tags "(m, name)" ?tag] inv False by (simp add: tags_inv_def)
  with False inv len have "tags_inv (?tag # tags)" by (simp add: tags_inv_def)
  with False show ?thesis by (auto simp: naf_tag_add_cases)
qed

lemma tags_inv_remove:
  assumes "tags_inv tags"
  shows "\<exists>r out tags'. naf_tag_remove (Some tags) md name = (r, out, Some tags') \<and> tags_inv tags'"
proof -
  have "tags_inv (snd (tag_unlink k tags))" for k
    using assms tagl.unique_unlink [of tags k] set_unlink_first [of "tag_matches k" tags]
    by (auto simp: tags_inv_def tag_unlink_first)
  then show ?thesis
    using assms
    by (auto simp: naf_tag_remove_def split: option.splits prod.splits) (metis snd_conv)+
qed

lemma tags_inv_cloneall:
  assumes "tags_inv dest" "tags_inv src"
    and "\<forall>tag \<in> set src. tag_type tag = CHR ''S'' \<longrightarrow> (\<exists>s. tag_data tag = DStr s)"
  shows "\<exists>dest'. cloneall_loop mal (Some dest) src = Some (Some dest') \<and> tags_inv dest' \<and>
     (\<exists>new. dest' = new @ dest)"
proof -
  have "\<forall>tag \<in> set src. length (tag_name tag) \<le> MAXTAGNAMELEN" using assms(2) by (simp add: tags_inv_def)
  with assms(1,3) show ?thesis
  proof (induction src arbitrary: dest)
    case (Cons tag src)
    have skip: "\<exists>dest'. cloneall_loop mal (Some dest) src = Some (Some dest') \<and> tags_inv dest' \<and>
        (\<exists>new. dest' = new @ dest)"
      using Cons by simp
    have add: "\<exists>dest'. cloneall_loop mal (snd (naf_tag_add mal (Some dest) (Some (tag_owner tag))
        (Some (tag_name tag)) (tag_type tag) d)) src = Some (Some dest') \<and> tags_inv dest' \<and>
        (\<exists>new. dest' = new @ dest)" for d
    proof -
      obtain d1 where d1: "snd (naf_tag_add mal (Some dest) (Some (tag_owner tag))
        (Some (tag_name tag)) (tag_type tag) d) = Some d1" "tags_inv d1" "\<exists>new. d1 = new @ dest"
        using tags_inv_add [of dest "tag_name tag" mal "tag_owner tag" "tag_type tag" d] Cons.prems
        by auto
      with Cons.IH [OF d1(2)] Cons.prems show ?thesis by fastforce
    qed
    show ?case using Cons.prems(2) skip add [of "tag_data tag"] by (auto split: option.splits)
  qed simp
qed

section \<open>What the operations promise\<close>

lemma naf_tag_fetch_add:
  assumes "name \<noteq> []" "length name \<le> MAXTAGNAMELEN" "tag_search (m, name) tags = None"
    "mal sizeof_naf_tag_t \<noteq> None" "name' \<noteq> []"
  shows "naf_tag_fetch (snd (naf_tag_add mal (Some tags) (Some m) (Some name) type data))
      (Some m') (Some name') =
    (if (m', name') = (m, name) then (0, Some (type, data)) else naf_tag_fetch (Some tags) (Some m') (Some name'))"
  using assms
  by (auto simp: naf_tag_add_cases naf_tag_fetch_def badname_def fetch_loop_owner tag_matches_def)

lemma naf_tag_remove_fetch:
  assumes inv: "tags_inv tags" and names: "name \<noteq> []" "name' \<noteq> []"
    and rem: "naf_tag_remove (Some tags) (Some m) (Some name) = (r, out, Some tags')"
  shows "(r, out) = naf_tag_fetch (Some tags) (Some m) (Some name)"
    "naf_tag_fetch (Some tags') (Some m') (Some name') =
       (if (m', name') = (m, name) then (-1, None) else naf_tag_fetch (Some tags) (Some m') (Some name'))"
proof -
  have "tag_unlink (m, name) tags = (tag_search (m, name) tags, tags')"
    using rem names tagl.unlink_lookup [of "(m, name)" tags]
    by (auto simp: naf_tag_remove_def badname_def split: prod.splits option.splits)
  then have tags': "tags' = snd (tag_unlink (m, name) tags)"
    and r: "tag_unlink (m, name) tags = (tag_search (m, name) tags, tags')" by simp_all
  show "(r, out) = naf_tag_fetch (Some tags) (Some m) (Some name)"
    using rem names r
    by (auto simp: naf_tag_remove_def naf_tag_fetch_def badname_def fetch_loop_owner split: option.splits)
  have "tag_search (m', name') tags' =
      (if (m', name') = (m, name) then None else tag_search (m', name') tags)"
    using inv tagl.lookup_unlink_same [of tags "(m, name)"]
      tagl.lookup_unlink_other [of "(m, name)" "(m', name')" tags] tag_matches_inj [of "(m, name)" "(m', name')"]
    unfolding tags' by (auto simp: tags_inv_def)
  with names show "naf_tag_fetch (Some tags') (Some m') (Some name') =
      (if (m', name') = (m, name) then (-1, None) else naf_tag_fetch (Some tags) (Some m') (Some name'))"
    by (auto simp: naf_tag_fetch_def badname_def fetch_loop_owner)
qed

text \<open>Releasing a list calls the owner's handler once per tag, in list order.\<close>

lemma naf_tag_freelist_calls:
  "naf_tag_freelist (\<lambda>m. if has m then Some (\<lambda>log name type data. log @ [(m, name, type, data)]) else None)
     tags log =
   log @ map (\<lambda>t. (tag_owner t, tag_name t, tag_type t, tag_data t)) (filter (has \<circ> tag_owner) tags)"
  by (induction tags arbitrary: log) simp_all

section \<open>Properties\<close>

text \<open>The invariant of tag lists (names not empty and at most 64 characters long, no two tags of a
  module with the same name) is kept by adding, removing and cloning, successful or not; cloning
  never fails on tags of type S that are strings.\<close>

theorem tags_inv_preserved:
  assumes "tags_inv tags" "tags_inv src" "length name \<le> MAXTAGNAMELEN"
    and "\<forall>tag \<in> set src. tag_type tag = CHR ''S'' \<longrightarrow> (\<exists>s. tag_data tag = DStr s)"
  shows "(\<exists>tags'. snd (naf_tag_add mal (Some tags) (Some m) (Some name) type data) = Some tags' \<and> tags_inv tags') \<and>
    (\<exists>r out tags'. naf_tag_remove (Some tags) (Some m) (Some name) = (r, out, Some tags') \<and> tags_inv tags') \<and>
    (\<exists>tags'. naf_tag_cloneall mal (Some tags) (Some src) = Some (0, Some tags') \<and> tags_inv tags')"
  using tags_inv_add [OF assms(1,3), of mal m type data] tags_inv_remove [OF assms(1)]
    tags_inv_cloneall [OF assms(1,2,4), of mal]
  by (auto simp: naf_tag_cloneall_def)

theorem tags_inv_preserved_witness:
  "let tags = [\<lparr>tag_owner = 1, tag_name = [97], tag_type = CHR ''S'', tag_data = DStr [98]\<rparr>] in
   (\<exists>tags'. snd (naf_tag_add zero_alloc (Some tags) (Some 2) (Some [97]) (CHR ''I'') (DInt 3)) = Some tags' \<and> tags_inv tags') \<and>
   (\<exists>r out tags'. naf_tag_remove (Some tags) (Some 2) (Some [97]) = (r, out, Some tags') \<and> tags_inv tags') \<and>
   (\<exists>tags'. naf_tag_cloneall zero_alloc (Some tags) (Some tags) = Some (0, Some tags') \<and> tags_inv tags')"
  unfolding Let_def by (rule tags_inv_preserved) (simp_all add: tags_inv_def unique_by_Cons)

lemma ispresent_fetch:
  "name \<noteq> [] \<Longrightarrow> naf_tag_ispresent (Some tags) (Some m) (Some name) =
     (if naf_tag_fetch (Some tags) (Some m) (Some name) = (-1, None) then 0 else 1)"
  by (simp add: naf_tag_ispresent_def naf_tag_fetch_def badname_def fetch_loop_owner split: option.split)

text \<open>C38. A tag list behaves as a map from module and name to type and data, for names of at most 64 characters that are not empty:
  a name is present exactly when a fetch finds it; adding one that is present is refused and changes nothing; a successful addition is
  what a fetch of that key returns from then on and changes no other key; removing returns what
  a fetch would have returned and leaves that key, and only that key, without a tag.\<close>

theorem tags_are_a_map:
  assumes inv: "tags_inv tags" and names: "name \<noteq> []" "length name \<le> MAXTAGNAMELEN" "name' \<noteq> []"
    and mal: "mal sizeof_naf_tag_t \<noteq> None"
  shows "naf_tag_ispresent (Some tags) (Some m) (Some name) =
      (if naf_tag_fetch (Some tags) (Some m) (Some name) = (-1, None) then 0 else 1) \<and>
    (case naf_tag_add mal (Some tags) (Some m) (Some name) type data of (r, tags') \<Rightarrow>
       if naf_tag_fetch (Some tags) (Some m) (Some name) = (-1, None)
       then r = 0 \<and>
         naf_tag_fetch tags' (Some m') (Some name') =
           (if (m', name') = (m, name) then (0, Some (type, data)) else naf_tag_fetch (Some tags) (Some m') (Some name')) \<and>
         naf_tag_ispresent tags' (Some m') (Some name') =
           (if (m', name') = (m, name) then 1 else naf_tag_ispresent (Some tags) (Some m') (Some name'))
       else r = -1 \<and> tags' = Some tags) \<and>
    (case naf_tag_remove (Some tags) (Some m) (Some name) of (r, out, tags') \<Rightarrow>
       (r, out) = naf_tag_fetch (Some tags) (Some m) (Some name) \<and>
       naf_tag_fetch tags' (Some m') (Some name') =
         (if (m', name') = (m, name) then (-1, None)
          else naf_tag_fetch (Some tags) (Some m') (Some name')) \<and>
       naf_tag_ispresent tags' (Some m') (Some name') =
         (if (m', name') = (m, name) then 0 else naf_tag_ispresent (Some tags) (Some m') (Some name')))"
proof (intro conjI)
  show present: "naf_tag_ispresent (Some tags) (Some m) (Some name) =
      (if naf_tag_fetch (Some tags) (Some m) (Some name) = (-1, None) then 0 else 1)"
    by (rule ispresent_fetch [OF names(1)])
  show "case naf_tag_add mal (Some tags) (Some m) (Some name) type data of (r, tags') \<Rightarrow>
       if naf_tag_fetch (Some tags) (Some m) (Some name) = (-1, None)
       then r = 0 \<and>
         naf_tag_fetch tags' (Some m') (Some name') =
           (if (m', name') = (m, name) then (0, Some (type, data)) else naf_tag_fetch (Some tags) (Some m') (Some name')) \<and>
         naf_tag_ispresent tags' (Some m') (Some name') =
           (if (m', name') = (m, name) then 1 else naf_tag_ispresent (Some tags) (Some m') (Some name'))
       else r = -1 \<and> tags' = Some tags"
  proof (cases "naf_tag_fetch (Some tags) (Some m) (Some name) = (-1, None)")
    case True
    with present have none: "tag_search (m, name) tags = None"
      using names by (simp add: naf_tag_ispresent_def badname_def split: if_splits)
    obtain tags1 where add: "naf_tag_add mal (Some tags) (Some m) (Some name) type data = (0, Some tags1)"
      using names mal none by (simp add: naf_tag_add_cases)
    from naf_tag_fetch_add [of name m tags mal name' type data m'] names none mal add
    have "naf_tag_fetch (Some tags1) (Some m') (Some name') =
        (if (m', name') = (m, name) then (0, Some (type, data)) else naf_tag_fetch (Some tags) (Some m') (Some name'))" by simp
    with True add ispresent_fetch [OF names(3)] show ?thesis by auto
  next
    case False
    with present have "naf_tag_ispresent (Some tags) (Some m) (Some name) = 1" by simp
    with False names show ?thesis by (simp add: naf_tag_add_def badname_def)
  qed
  obtain r out tags' where rem: "naf_tag_remove (Some tags) (Some m) (Some name) = (r, out, Some tags')"
    using tags_inv_remove [OF inv] by blast
  show "case naf_tag_remove (Some tags) (Some m) (Some name) of (r, out, tags') \<Rightarrow>
       (r, out) = naf_tag_fetch (Some tags) (Some m) (Some name) \<and>
       naf_tag_fetch tags' (Some m') (Some name') =
         (if (m', name') = (m, name) then (-1, None) else naf_tag_fetch (Some tags) (Some m') (Some name')) \<and>
       naf_tag_ispresent tags' (Some m') (Some name') =
         (if (m', name') = (m, name) then 0 else naf_tag_ispresent (Some tags) (Some m') (Some name'))"
    using naf_tag_remove_fetch [OF inv names(1,3) rem] unfolding rem by (auto simp: ispresent_fetch [OF names(3)])
qed

theorem tags_are_a_map_witness:
  "fst (naf_tag_add zero_alloc (Some []) (Some 2) (Some [97]) (CHR ''I'') (DInt 3)) = 0 \<and>
   naf_tag_fetch (snd (naf_tag_add zero_alloc (Some []) (Some 2) (Some [97]) (CHR ''I'') (DInt 3))) (Some 2) (Some [97])
     = (0, Some (CHR ''I'', DInt 3))"
proof -
  have "tags_inv []" by (simp add: tags_inv_def)
  moreover have "zero_alloc sizeof_naf_tag_t \<noteq> None" by (simp add: zero_alloc_def)
  moreover have "naf_tag_fetch (Some []) (Some 2) (Some [97]) = (-1, None)"
    by (simp add: naf_tag_fetch_def badname_def)
  ultimately show ?thesis
    using tags_are_a_map [of "[]" "[97]" "[97]" zero_alloc 2 2 "CHR ''I''" "DInt 3"]
    by (cases "naf_tag_add zero_alloc (Some []) (Some 2) (Some [97]) (CHR ''I'') (DInt 3)") simp
qed

text \<open>Names of more than 64 characters break this: they are cut when the tag is added but not when
  tags are searched, so such a tag is never found again and the same name can be added any number
  of times.\<close>

theorem tag_overlong_name:
  assumes inv: "tags_inv tags" and long: "MAXTAGNAMELEN < length name" and mal: "mal sizeof_naf_tag_t \<noteq> None"
  shows "\<exists>tags1 tags2. naf_tag_add mal (Some tags) (Some m) (Some name) type data = (0, Some tags1) \<and>
    naf_tag_add mal (Some tags1) (Some m) (Some name) type data = (0, Some tags2) \<and>
    naf_tag_ispresent (Some tags2) (Some m) (Some name) = 0 \<and>
    naf_tag_fetch (Some tags2) (Some m) (Some name) = (-1, None) \<and> \<not> tags_inv tags2"
proof -
  let ?tag = "\<lparr>tag_owner = m, tag_name = take MAXTAGNAMELEN name, tag_type = type, tag_data = data\<rparr>"
  have ne: "name \<noteq> []" using long by auto
  have no: "\<not> tag_matches (m, name) ?tag"
    using long by (auto simp: tag_matches_def dest: arg_cong [of _ _ length])
  have none: "tag_search (m, name) tags = None"
    using inv long by (auto simp: tag_search_find find_None_iff tag_matches_def tags_inv_def)
  have "tag_matches (m, take MAXTAGNAMELEN name) ?tag" by (simp add: tag_matches_def)
  then have "\<not> unique_by tag_matches (?tag # ?tag # tags)" unfolding unique_by_Cons by auto
  then have "\<not> tags_inv (?tag # ?tag # tags)" by (simp add: tags_inv_def)
  with no none ne mal show ?thesis
    by (simp add: naf_tag_add_cases naf_tag_ispresent_def naf_tag_fetch_def badname_def fetch_loop_owner)
qed

theorem tag_overlong_name_witness:
  "\<exists>tags1 tags2. naf_tag_add zero_alloc (Some []) (Some 1) (Some (replicate 65 97)) (CHR ''V'') DNull = (0, Some tags1) \<and>
    naf_tag_add zero_alloc (Some tags1) (Some 1) (Some (replicate 65 97)) (CHR ''V'') DNull = (0, Some tags2) \<and>
    naf_tag_ispresent (Some tags2) (Some 1) (Some (replicate 65 97)) = 0 \<and>
    naf_tag_fetch (Some tags2) (Some 1) (Some (replicate 65 97)) = (-1, None) \<and> \<not> tags_inv tags2"
  by (rule tag_overlong_name) (simp_all add: tags_inv_def zero_alloc_def)

end
