(* ===== verification/Names.thy ===== *)
theory Names
  imports Prelude
begin

text \<open>
  Comparing and hashing names: \<^verbatim>\<open>gnr_node_namecmp\<close> and \<^verbatim>\<open>gnr_node__hash_getkey\<close> of
  \<^verbatim>\<open>gnr/node.c\<close> and \<^verbatim>\<open>toscar_sncmp\<close> of \<^verbatim>\<open>timps/oscar/oscar.c\<close>, over the C library's \<^verbatim>\<open>tolower\<close>, \<^verbatim>\<open>toupper\<close> and \<^verbatim>\<open>strcasecmp\<close> in the C locale. A string is the list of its
  bytes before the terminator.
\<close>

section \<open>Characters\<close>

abbreviation (input) sp :: naf_u8_t where "sp \<equiv> 0x20"

text \<open>A C string constant.\<close>

definition cstr :: "string \<Rightarrow> bytes" where
  "cstr s = map of_char s"

definition toupper :: "naf_u8_t \<Rightarrow> naf_u8_t" where
  "toupper c = (if 0x61 \<le> c \<and> c \<le> 0x7a then c - 0x20 else c)"

definition tolower :: "naf_u8_t \<Rightarrow> naf_u8_t" where
  "tolower c = (if 0x41 \<le> c \<and> c \<le> 0x5a then c + 0x20 else c)"

definition strcasecmp_eq :: "bytes \<Rightarrow> bytes \<Rightarrow> bool" where
  "strcasecmp_eq a b \<longleftrightarrow> map tolower a = map tolower b"

lemma tolower_toupper: "tolower (toupper c) = tolower c"
  by (auto simp: tolower_def toupper_def word_le_nat_alt word_less_nat_alt unat_sub_if' unat_word_ariths)

lemma toupper_sp: "toupper c = sp \<longleftrightarrow> c = sp"
  by (auto simp: toupper_def word_le_nat_alt word_less_nat_alt unat_sub_if' word_unat_eq_iff)

section \<open>Comparing node names\<close>

function gnr_node_namecmp :: "bytes \<Rightarrow> bytes \<Rightarrow> int" where
  "gnr_node_namecmp [] [] = 0"
| "gnr_node_namecmp [] (b # bs) = 1"
| "gnr_node_namecmp (a # as) [] = 1"
| "gnr_node_namecmp (a # as) (b # bs) =
     (if a = sp \<or> b = sp
      then gnr_node_namecmp (if a = sp then as else a # as) (if b = sp then bs else b # bs)
      else if toupper a \<noteq> toupper b then 1
      else gnr_node_namecmp as bs)"
  by pat_completeness auto
termination
  by (relation "measure (\<lambda>(a, b). length a + length b)") auto

text \<open>The reference reading: the letters without case and spaces, and the number of spaces at the
  end.\<close>

definition name_norm :: "bytes \<Rightarrow> bytes" where
  "name_norm s = map toupper (filter (\<lambda>c. c \<noteq> sp) s)"

definition name_trail :: "bytes \<Rightarrow> nat" where
  "name_trail s = length (takeWhile (\<lambda>c. c = sp) (rev s))"

lemma name_norm_simps [simp]:
  "name_norm [] = []"
  "name_norm (c # s) = (if c = sp then name_norm s else toupper c # name_norm s)"
  by (simp_all add: name_norm_def)

lemma name_trail_Nil [simp]: "name_trail [] = 0"
  by (simp add: name_trail_def)

lemma name_trail_Cons:
  "name_trail (c # s) = (if c = sp \<and> name_norm s = [] then Suc (length s) else name_trail s)"
proof (cases "name_norm s = []")
  case True
  then have all: "\<forall>x \<in> set s. x = sp" by (auto simp: name_norm_def filter_empty_conv)
  then have tw: "takeWhile (\<lambda>c. c = sp) (rev s) = rev s" by (simp add: takeWhile_eq_all_conv)
  show ?thesis using True all by (auto simp: name_trail_def takeWhile_append tw)
next
  case False
  then obtain x where "x \<in> set (rev s)" "x \<noteq> sp" by (auto simp: name_norm_def filter_empty_conv)
  then have "takeWhile (\<lambda>c. c = sp) (rev s @ [c]) = takeWhile (\<lambda>c. c = sp) (rev s)"
    by (rule takeWhile_append1)
  with False show ?thesis by (simp add: name_trail_def)
qed

lemma name_trail_spaces: "name_norm s = [] \<Longrightarrow> name_trail s = length s"
  by (induction s) (auto simp: name_trail_Cons split: if_splits)

lemma namecmp_iff:
  "gnr_node_namecmp a b = 0 \<longleftrightarrow> name_norm a = name_norm b \<and> name_trail a = name_trail b"
proof (induction a b rule: gnr_node_namecmp.induct)
  case (2 b bs)
  then show ?case by (auto simp: name_trail_spaces)
next
  case (3 a as)
  then show ?case by (auto simp: name_trail_spaces)
next
  case (4 a as b bs)
  consider "a = sp" "b = sp" | "a = sp" "b \<noteq> sp" | "a \<noteq> sp" "b = sp" | "a \<noteq> sp" "b \<noteq> sp" by blast
  then show ?case
  proof cases
    case 1
    with 4 show ?thesis by (auto simp: name_trail_Cons name_trail_spaces)
  next
    case 2
    with 4 show ?thesis by (auto simp: name_trail_Cons)
  next
    case 3
    with 4 show ?thesis by (auto simp: name_trail_Cons)
  next
    case 4
    with "4.IH"(2) show ?thesis by (auto simp: name_trail_Cons)
  qed
qed auto

lemma namecmp_refl [simp]: "gnr_node_namecmp a a = 0"
  by (simp add: namecmp_iff)

lemma namecmp_sym: "gnr_node_namecmp a b = 0 \<longleftrightarrow> gnr_node_namecmp b a = 0"
  by (auto simp: namecmp_iff)

lemma namecmp_trans:
  "gnr_node_namecmp a b = 0 \<Longrightarrow> gnr_node_namecmp b c = 0 \<Longrightarrow> gnr_node_namecmp a c = 0"
  by (auto simp: namecmp_iff)

lemma namecmp_result: "gnr_node_namecmp a b = 0 \<or> gnr_node_namecmp a b = 1"
  by (induction a b rule: gnr_node_namecmp.induct) auto

section \<open>Hashing\<close>

text \<open>\<^verbatim>\<open>char\<close> is signed, so a byte above 127 is sign-extended when it is mixed in.\<close>

fun hash_getkey_loop :: "naf_u16_t \<Rightarrow> bytes \<Rightarrow> naf_u16_t" where
  "hash_getkey_loop key [] = key"
| "hash_getkey_loop key (c # name) =
     hash_getkey_loop (if c \<noteq> sp then push_bit 1 (key XOR scast (tolower c)) else key) name"

definition gnr_node__hash_getkey :: "bytes \<Rightarrow> naf_u16_t" where
  "gnr_node__hash_getkey name = hash_getkey_loop 0 name"

abbreviation (input) GNR_NODE_HASH_SIZE :: nat where "GNR_NODE_HASH_SIZE \<equiv> 64"

definition gnr_node__hash_getidx :: "bytes \<Rightarrow> nat" where
  "gnr_node__hash_getidx name = unat (gnr_node__hash_getkey name) mod GNR_NODE_HASH_SIZE"

lemma getidx_less [simp]: "gnr_node__hash_getidx name < GNR_NODE_HASH_SIZE"
  by (simp add: gnr_node__hash_getidx_def)

text \<open>The key depends on the letters only.\<close>

lemma hash_getkey_norm:
  "hash_getkey_loop key name =
     fold (\<lambda>c key. push_bit 1 (key XOR scast (tolower c))) (name_norm name) key"
  by (induction name arbitrary: key) (simp_all add: tolower_toupper)

lemma hash_namecmp:
  "gnr_node_namecmp a b = 0 \<Longrightarrow> gnr_node__hash_getidx a = gnr_node__hash_getidx b"
  by (simp add: namecmp_iff gnr_node__hash_getidx_def gnr_node__hash_getkey_def hash_getkey_norm)

text \<open>The last step shifts a zero in, so only the even buckets are ever used.\<close>

lemma even_push_bit1: "even (unat (push_bit 1 (w :: naf_u16_t)))"
  by (simp add: unat_word_ariths dvd_mod)

lemma hash_even: "even (gnr_node__hash_getidx name)"
proof -
  have ev: "even (unat (fold (\<lambda>c key. push_bit 1 (key XOR scast (tolower c))) cs key))"
    if "even (unat key)" for cs and key :: naf_u16_t
    using that
  proof (induction cs arbitrary: key)
    case (Cons c cs)
    show ?case unfolding fold_simps by (rule Cons.IH [OF even_push_bit1])
  qed simp
  have "even (unat (gnr_node__hash_getkey name))"
    unfolding gnr_node__hash_getkey_def hash_getkey_norm by (rule ev) simp
  then show ?thesis by (simp add: gnr_node__hash_getidx_def dvd_mod)
qed

section \<open>Comparing screen names\<close>

text \<open>\<^verbatim>\<open>toscar_sncmp\<close> moves two pointers; a pointer is the memory from it to the end of the block,
  and reading at the end of the block is a fault.\<close>

definition skip_spaces :: "bytes \<Rightarrow> bytes" where
  "skip_spaces p = dropWhile (\<lambda>c. c = sp) p"

function sncmp_loop :: "bytes \<Rightarrow> bytes \<Rightarrow> int option" where
  "sncmp_loop p1 p2 =
     (if p1 = [] \<or> p2 = [] then None
      else if hd p1 \<noteq> 0 \<and> hd p2 \<noteq> 0
      then (let p1' = skip_spaces p1; p2' = skip_spaces p2
            in if p1' = [] \<or> p2' = [] then None
               else if toupper (hd p1') \<noteq> toupper (hd p2') then Some 1
               else sncmp_loop (tl p1') (tl p2'))
      else if hd p1 \<noteq> hd p2 then Some 1 else Some 0)"
  by pat_completeness auto
termination
proof (relation "measure (\<lambda>(p1, p2). length p1)", goal_cases)
  case (2 p1 p2)
  then show ?case
    using length_dropWhile_le [of "\<lambda>c. c = sp" p1] by (cases p1) (auto simp: skip_spaces_def)
qed simp

declare sncmp_loop.simps [simp del]

definition toscar_sncmp :: "bytes \<Rightarrow> bytes \<Rightarrow> int option" where
  "toscar_sncmp sn1 sn2 = sncmp_loop (sn1 @ [0]) (sn2 @ [0])"

lemma toupper_0: "toupper c = 0 \<longleftrightarrow> c = 0"
  by (auto simp: toupper_def word_le_nat_alt word_less_nat_alt unat_sub_if' word_unat_eq_iff)

text \<open>A string from its first letter on.\<close>

lemma skip_spaces_split:
  obtains "name_norm s = []" "skip_spaces (s @ [0]) = [0]"
  | c s' where "skip_spaces (s @ [0]) = c # s' @ [0]" "c \<noteq> sp" "c \<in> set s" "set s' \<subseteq> set s"
      "name_norm s = toupper c # name_norm s'" "name_trail s = name_trail s'" "length s' < length s"
proof -
  have "(name_norm s = [] \<and> skip_spaces (s @ [0]) = [0]) \<or>
    (\<exists>c s'. skip_spaces (s @ [0]) = c # s' @ [0] \<and> c \<noteq> sp \<and> c \<in> set s \<and> set s' \<subseteq> set s \<and>
       name_norm s = toupper c # name_norm s' \<and> name_trail s = name_trail s' \<and> length s' < length s)"
  proof (induction s)
    case (Cons a s)
    then show ?case by (cases "a = sp") (auto simp: skip_spaces_def name_trail_Cons)
  qed (simp add: skip_spaces_def)
  then show ?thesis using that by blast
qed

lemma name_trail_pos: "s \<noteq> [] \<Longrightarrow> name_norm s = [] \<Longrightarrow> 0 < name_trail s"
  by (simp add: name_trail_spaces)

lemma sncmp_loop_eq:
  "0 \<notin> set a \<Longrightarrow> 0 \<notin> set b \<Longrightarrow>
   sncmp_loop (a @ [0]) (b @ [0]) =
     (if name_norm a \<noteq> name_norm b then Some 1
      else if name_trail a > 0 \<and> name_trail b > 0 then None
      else if name_trail a > 0 \<or> name_trail b > 0 then Some 1 else Some 0)"
proof (induction "length a" arbitrary: a b rule: less_induct)
  case less
  consider "a = []" | "b = []" | "a \<noteq> []" "b \<noteq> []" by blast
  then show ?case
  proof cases
    case 1
    then show ?thesis using less.prems
      by (cases b) (auto simp: sncmp_loop.simps name_trail_pos split: if_splits)
  next
    case 2
    then show ?thesis using less.prems
      by (cases a) (auto simp: sncmp_loop.simps name_trail_pos split: if_splits)
  next
    case 3
    then have nz: "hd (a @ [0]) \<noteq> 0" "hd (b @ [0]) \<noteq> 0" using less.prems by (cases a; cases b; auto)+
    have end_loop: "sncmp_loop [] [] = None" by (simp add: sncmp_loop.simps)
    show ?thesis
    proof (cases rule: skip_spaces_split [of a]; cases rule: skip_spaces_split [of b])
      assume "name_norm a = []" "skip_spaces (a @ [0]) = [0]" "name_norm b = []" "skip_spaces (b @ [0]) = [0]"
      with 3 nz show ?thesis
        by (simp add: sncmp_loop.simps [of "a @ [0]"] end_loop name_trail_pos)
    next
      fix c s' assume "name_norm a = []" "skip_spaces (a @ [0]) = [0]"
        "skip_spaces (b @ [0]) = c # s' @ [0]" "c \<in> set b" "name_norm b = toupper c # name_norm s'"
      with nz less.prems show ?thesis
        by (auto simp: sncmp_loop.simps [of "a @ [0]"] toupper_0 toupper_def [of 0] Let_def)
    next
      fix c s' assume "skip_spaces (a @ [0]) = c # s' @ [0]" "c \<in> set a"
        "name_norm a = toupper c # name_norm s'" "name_norm b = []" "skip_spaces (b @ [0]) = [0]"
      with nz less.prems show ?thesis
        by (auto simp: sncmp_loop.simps [of "a @ [0]"] toupper_0 toupper_def [of 0] Let_def)
    next
      fix c s' d t'
      assume a: "skip_spaces (a @ [0]) = c # s' @ [0]" "set s' \<subseteq> set a" "length s' < length a"
        "name_norm a = toupper c # name_norm s'" "name_trail a = name_trail s'"
        and b: "skip_spaces (b @ [0]) = d # t' @ [0]" "set t' \<subseteq> set b"
        "name_norm b = toupper d # name_norm t'" "name_trail b = name_trail t'"
      have "0 \<notin> set s'" "0 \<notin> set t'" using a(2) b(2) less.prems by auto
      with less.hyps [OF a(3), of t'] nz a b show ?thesis
        by (simp add: sncmp_loop.simps [of "a @ [0]"])
    qed
  qed
qed

section \<open>Properties\<close>

text \<open>\<^verbatim>\<open>gnr_node_namecmp\<close> decides exactly this: the names have the same letters up to case and
  spaces, and they end in the same number of spaces. Two names it identifies fall into the same hash
  chain.\<close>

theorem namecmp_characterised:
  "(gnr_node_namecmp a b = 0 \<longleftrightarrow> name_norm a = name_norm b \<and> name_trail a = name_trail b) \<and>
   (gnr_node_namecmp a b = 0 \<longrightarrow> gnr_node__hash_getidx a = gnr_node__hash_getidx b)"
  using namecmp_iff hash_namecmp by blast

theorem namecmp_characterised_witness:
  "gnr_node__hash_getidx (cstr ''Foo Bar'') = gnr_node__hash_getidx (cstr ''foobar'')"
proof -
  have "gnr_node_namecmp (cstr ''Foo Bar'') (cstr ''foobar'') = 0" by (simp add: cstr_def toupper_def)
  then show ?thesis using namecmp_characterised by blast
qed

text \<open>\<^verbatim>\<open>toscar_sncmp\<close> on two terminated strings returns 0 exactly for names with the same letters
  and no space at the end, and 1 otherwise, except for two names with the same letters that both end
  in spaces: there it reads past the terminators.\<close>

theorem sncmp_characterised:
  assumes "0 \<notin> set a" "0 \<notin> set b"
  shows "toscar_sncmp a b =
    (if name_norm a \<noteq> name_norm b then Some 1
     else if name_trail a > 0 \<and> name_trail b > 0 then None
     else if name_trail a > 0 \<or> name_trail b > 0 then Some 1 else Some 0)"
  unfolding toscar_sncmp_def using assms by (rule sncmp_loop_eq)

theorem sncmp_characterised_witness:
  "toscar_sncmp [97, 32] [65, 32] = None \<and> toscar_sncmp [97, 32, 98] [65, 66] = Some 0"
  using sncmp_characterised [of "[97, 32]" "[65, 32]"] sncmp_characterised [of "[97, 32, 98]" "[65, 66]"]
  by (simp add: name_trail_def toupper_def)

end
