(* ===== verification/Conn.thy ===== *)
theory Conn
  imports Tags Names
begin

text \<open>
  Connections, \<^verbatim>\<open>naf/conn.c\<close> and \<^verbatim>\<open>include/naf/nafconn.h\<close>: the record of a connection, its
  tags, queueing reads and writes, searching, opening the connection to the other side.
  Connections are identified by their addresses. The event library libnbio and the socket
  calls are outside the repository: they are the fields of a record of operations on an
  opaque state, a parameter of every definition that uses them.
\<close>

section \<open>Data\<close>

record nafconn =
  c_fdt :: "nat option"
  c_type :: naf_u32_t
  c_flags :: naf_u32_t
  c_lastrx :: int
  c_lasttx_soft :: int
  c_lasttx_hard :: int
  c_endpoint :: "nat option"
  c_parent :: "nat option"
  c_localip :: bytes
  c_localport :: naf_u16_t
  c_servtype :: int
  c_taglist :: taglist
  c_nextseqnum :: naf_u16_t
  c_owner :: "nafmod option"
  c_cid :: naf_u32_t

abbreviation (input) NAF_CONN_TYPE_DETECTING :: naf_u32_t where "NAF_CONN_TYPE_DETECTING \<equiv> 0x00000001"
abbreviation (input) NAF_CONN_TYPE_FLAP :: naf_u32_t where "NAF_CONN_TYPE_FLAP \<equiv> 0x00000002"
abbreviation (input) NAF_CONN_TYPE_CLIENT :: naf_u32_t where "NAF_CONN_TYPE_CLIENT \<equiv> 0x00100000"
abbreviation (input) NAF_CONN_TYPE_SERVER :: naf_u32_t where "NAF_CONN_TYPE_SERVER \<equiv> 0x00200000"
abbreviation (input) NAF_CONN_TYPE_LISTENER :: naf_u32_t where "NAF_CONN_TYPE_LISTENER \<equiv> 0x00400000"
abbreviation (input) NAF_CONN_TYPE_DATAGRAM :: naf_u32_t where "NAF_CONN_TYPE_DATAGRAM \<equiv> 0x00800000"
abbreviation (input) NAF_CONN_TYPE_CONNECTING :: naf_u32_t where "NAF_CONN_TYPE_CONNECTING \<equiv> 0x01000000"
abbreviation (input) NAF_CONN_TYPE_RAWWAITING :: naf_u32_t where "NAF_CONN_TYPE_RAWWAITING \<equiv> 0x02000000"
abbreviation (input) NAF_CONN_TYPE_READRAW :: naf_u32_t where "NAF_CONN_TYPE_READRAW \<equiv> 0x04000000"
abbreviation (input) NAF_CONN_TYPE_PROROGUEDEATH :: naf_u32_t where "NAF_CONN_TYPE_PROROGUEDEATH \<equiv> 0x08000000"

datatype nbio_fdtype = NBIO_FDTYPE_LISTENER | NBIO_FDTYPE_DGRAM | NBIO_FDTYPE_STREAM

text \<open>The operations of the outside world. A buffer handed over is its block and the length to
  use; the removal operations return the block, its length and the fill offset. \<open>nb_fdlist\<close> gives
  the connections of the open descriptors in list order; \<open>nb_dial\<close> stands for
  \<^verbatim>\<open>gethostbyname\<close>, \<^verbatim>\<open>nbio_sfd_new_stream\<close>, \<^verbatim>\<open>nbio_sfd_setnonblocking\<close> and \<^verbatim>\<open>nbio_sfd_connect\<close> in a
  row: \<open>None\<close> when one of them fails, otherwise the socket and whether the connect is still in
  progress. \<open>nb_sfd_read0\<close> is the read of no bytes that tells whether a connect has gone through;
  \<open>nb_setdelim\<close> is \<^verbatim>\<open>nbio_cleardelim\<close> on \<open>None\<close> and \<^verbatim>\<open>nbio_adddelim\<close> otherwise.\<close>

record 'nb nbio_ops =
  nb_addrxvector :: "nat \<Rightarrow> bytes \<Rightarrow> int \<Rightarrow> int \<Rightarrow> 'nb \<Rightarrow> int \<times> 'nb"
  nb_addtxvector :: "nat \<Rightarrow> bytes \<Rightarrow> int \<Rightarrow> 'nb \<Rightarrow> int \<times> 'nb"
  nb_remtoprxvector :: "nat \<Rightarrow> 'nb \<Rightarrow> (bytes \<times> int \<times> int) option \<times> 'nb"
  nb_remtoptxvector :: "nat \<Rightarrow> 'nb \<Rightarrow> (bytes \<times> int \<times> int) option \<times> 'nb"
  nb_setcloseonflush :: "nat \<Rightarrow> 'nb \<Rightarrow> int \<times> 'nb"
  nb_setraw :: "nat \<Rightarrow> int \<Rightarrow> 'nb \<Rightarrow> 'nb"
  nb_addfd :: "nbio_fdtype \<Rightarrow> nat \<Rightarrow> nat \<Rightarrow> 'nb \<Rightarrow> nat option \<times> 'nb"
  nb_fdlist :: "'nb \<Rightarrow> nat list"
  nb_dial :: "bytes \<Rightarrow> naf_u16_t \<Rightarrow> 'nb \<Rightarrow> (nat \<times> bool) option \<times> 'nb"
  nb_sfd_close :: "nat \<Rightarrow> 'nb \<Rightarrow> 'nb"
  nb_getsockname :: "nat \<Rightarrow> bytes \<times> naf_u16_t"
  nb_closefdt :: "nat \<Rightarrow> 'nb \<Rightarrow> 'nb"
  nb_getincomingconn :: "nat \<Rightarrow> 'nb \<Rightarrow> nat option \<times> 'nb"
  nb_sfd_read0 :: "nat \<Rightarrow> 'nb \<Rightarrow> int \<times> 'nb"
  nb_sfd_newlistener :: "bytes option \<Rightarrow> naf_u16_t \<Rightarrow> 'nb \<Rightarrow> nat option \<times> 'nb"
  nb_cleanuponly :: "'nb \<Rightarrow> 'nb"
  nb_setdelim :: "nat \<Rightarrow> bytes option \<Rightarrow> 'nb \<Rightarrow> int \<times> 'nb"
  nb_socketpair :: "'nb \<Rightarrow> (nat \<times> nat) option \<times> 'nb"

text \<open>A child process, \<^verbatim>\<open>naf_childproc_t\<close> of \<^verbatim>\<open>include/naf/nafmodule.h\<close>. Its streams are connections.\<close>

record childproc =
  cp_owner :: "nafmod option"
  cp_status :: int
  cp_pid :: int
  cp_streamflags :: naf_u16_t
  cp_in :: "nat option"
  cp_inendpointfd :: int
  cp_out :: "nat option"
  cp_outendpointfd :: int
  cp_err :: "nat option"
  cp_errendpointfd :: int
  cp_cmdline :: "bytes option"
  cp_exitinfo_status :: int
  cp_exitinfo_value :: naf_u8_t
  cp_forktime :: int
  cp_exittime :: int
  cp_taglist :: taglist

text \<open>The state: the connections by address, libnbio's state \<^verbatim>\<open>gnb\<close>, the two counters of
  \<^verbatim>\<open>conn.c\<close>, the next free address, and \<^verbatim>\<open>naf__childrenlist\<close> of \<^verbatim>\<open>processes.c\<close>. Other components extend the record.\<close>

record 'nb cstate =
  cs_conns :: "nat \<Rightarrow> nafconn option"
  cs_nb :: 'nb
  cs_nextcid :: naf_u32_t
  cs_openconns :: naf_u32_t
  cs_next :: nat
  cs_children :: "childproc list"

text \<open>\<^verbatim>\<open>sizeof(struct nafconn)\<close> on an LP64 system.\<close>

abbreviation (input) sizeof_nafconn :: nat where "sizeof_nafconn \<equiv> 200"

definition conn_update :: "nat \<Rightarrow> (nafconn \<Rightarrow> nafconn) \<Rightarrow> ('nb, 'z) cstate_scheme \<Rightarrow> ('nb, 'z) cstate_scheme" where
  "conn_update a f st = st\<lparr>cs_conns := (cs_conns st)(a := map_option f (cs_conns st a))\<rparr>"

section \<open>Tags\<close>

definition naf_conn_tag_add ::
    "allocator \<Rightarrow> nafmod option \<Rightarrow> nat option \<Rightarrow> bytes option \<Rightarrow> char \<Rightarrow> tagdata \<Rightarrow> ('nb, 'z) cstate_scheme
       \<Rightarrow> (int \<times> ('nb, 'z) cstate_scheme) option" where
  "naf_conn_tag_add mal md conn name type data st =
     (case conn of
        None \<Rightarrow> Some (-1, st)
      | Some a \<Rightarrow> do {
          c \<leftarrow> cs_conns st a;
          let (r, tags) = naf_tag_add mal (Some (c_taglist c)) md name type data;
          tags \<leftarrow> tags;
          Some (r, conn_update a (\<lambda>c. c\<lparr>c_taglist := tags\<rparr>) st)
        })"

definition naf_conn_tag_remove ::
    "nafmod option \<Rightarrow> nat option \<Rightarrow> bytes option \<Rightarrow> ('nb, 'z) cstate_scheme
       \<Rightarrow> (int \<times> (char \<times> tagdata) option \<times> ('nb, 'z) cstate_scheme) option" where
  "naf_conn_tag_remove md conn name st =
     (case conn of
        None \<Rightarrow> Some (-1, None, st)
      | Some a \<Rightarrow> do {
          c \<leftarrow> cs_conns st a;
          let (r, out, tags) = naf_tag_remove (Some (c_taglist c)) md name;
          tags \<leftarrow> tags;
          Some (r, out, conn_update a (\<lambda>c. c\<lparr>c_taglist := tags\<rparr>) st)
        })"

definition naf_conn_tag_ispresent ::
    "nafmod option \<Rightarrow> nat option \<Rightarrow> bytes option \<Rightarrow> ('nb, 'z) cstate_scheme \<Rightarrow> int option" where
  "naf_conn_tag_ispresent md conn name st =
     (case conn of
        None \<Rightarrow> Some (-1)
      | Some a \<Rightarrow> do { c \<leftarrow> cs_conns st a; Some (naf_tag_ispresent (Some (c_taglist c)) md name) })"

definition naf_conn_tag_fetch ::
    "nafmod option \<Rightarrow> nat option \<Rightarrow> bytes option \<Rightarrow> ('nb, 'z) cstate_scheme
       \<Rightarrow> (int \<times> (char \<times> tagdata) option) option" where
  "naf_conn_tag_fetch md conn name st =
     (case conn of
        None \<Rightarrow> Some (-1, None)
      | Some a \<Rightarrow> do { c \<leftarrow> cs_conns st a; Some (naf_tag_fetch (Some (c_taglist c)) md name) })"

section \<open>Queueing reads and writes\<close>

text \<open>\<open>buf\<close> is \<open>None\<close> for a null pointer. The descriptor must be there.\<close>

definition naf_conn_reqread ::
    "('nb, 'r) nbio_ops_scheme \<Rightarrow> nat option \<Rightarrow> bytes option \<Rightarrow> int \<Rightarrow> int \<Rightarrow> ('nb, 'z) cstate_scheme
       \<Rightarrow> (int \<times> ('nb, 'z) cstate_scheme) option" where
  "naf_conn_reqread nb conn buf buflen offset st =
     (case conn of
        None \<Rightarrow> Some (-1, st)
      | Some a \<Rightarrow> do {
          c \<leftarrow> cs_conns st a;
          (case (c_fdt c, buf) of
             (Some fdt, Some b) \<Rightarrow>
               if buflen \<le> 0 then Some (-1, st)
               else (let (r, n) = nb_addrxvector nb fdt b buflen offset (cs_nb st)
                     in Some (r, st\<lparr>cs_nb := n\<rparr>))
           | _ \<Rightarrow> Some (-1, st))
        })"

definition naf_conn_reqwrite ::
    "('nb, 'r) nbio_ops_scheme \<Rightarrow> int \<Rightarrow> nat option \<Rightarrow> bytes option \<Rightarrow> int \<Rightarrow> ('nb, 'z) cstate_scheme
       \<Rightarrow> (int \<times> ('nb, 'z) cstate_scheme) option" where
  "naf_conn_reqwrite nb now conn buf buflen st =
     (case conn of
        None \<Rightarrow> Some (-1, st)
      | Some a \<Rightarrow> do {
          c \<leftarrow> cs_conns st a;
          (case (c_fdt c, buf) of
             (Some fdt, Some b) \<Rightarrow>
               if buflen \<le> 0 then Some (-1, st)
               else
                 (let st = conn_update a (\<lambda>c. c\<lparr>c_lasttx_soft := now\<rparr>) st;
                      (r, n) = nb_addtxvector nb fdt b buflen (cs_nb st)
                  in Some (r, st\<lparr>cs_nb := n\<rparr>))
           | _ \<Rightarrow> Some (-1, st))
        })"

text \<open>The result carries the block and its length; \<open>-1\<close> when nothing was queued.\<close>

definition naf_conn_takeread ::
    "('nb, 'r) nbio_ops_scheme \<Rightarrow> nat option \<Rightarrow> ('nb, 'z) cstate_scheme
       \<Rightarrow> (int \<times> (bytes \<times> int) option \<times> ('nb, 'z) cstate_scheme) option" where
  "naf_conn_takeread nb conn st =
     (case conn of
        None \<Rightarrow> Some (-1, None, st)
      | Some a \<Rightarrow> do {
          c \<leftarrow> cs_conns st a;
          (case c_fdt c of
             None \<Rightarrow> Some (-1, None, st)
           | Some fdt \<Rightarrow>
               (case nb_remtoprxvector nb fdt (cs_nb st) of
                  (None, n) \<Rightarrow> Some (-1, None, st\<lparr>cs_nb := n\<rparr>)
                | (Some (b, len, off), n) \<Rightarrow> Some (len, Some (b, len), st\<lparr>cs_nb := n\<rparr>)))
        })"

definition naf_conn_takewrite ::
    "('nb, 'r) nbio_ops_scheme \<Rightarrow> int \<Rightarrow> nat option \<Rightarrow> ('nb, 'z) cstate_scheme
       \<Rightarrow> (int \<times> (bytes \<times> int) option \<times> ('nb, 'z) cstate_scheme) option" where
  "naf_conn_takewrite nb now conn st =
     (case conn of
        None \<Rightarrow> Some (-1, None, st)
      | Some a \<Rightarrow> do {
          c \<leftarrow> cs_conns st a;
          (case c_fdt c of
             None \<Rightarrow> Some (-1, None, st)
           | Some fdt \<Rightarrow>
               (case nb_remtoptxvector nb fdt (cs_nb st) of
                  (None, n) \<Rightarrow> Some (-1, None, st\<lparr>cs_nb := n\<rparr>)
                | (Some (b, len, off), n) \<Rightarrow>
                    Some (len, Some (b, len), conn_update a (\<lambda>c. c\<lparr>c_lasttx_hard := now\<rparr>) (st\<lparr>cs_nb := n\<rparr>))))
        })"

definition naf_conn_schedulekill ::
    "('nb, 'r) nbio_ops_scheme \<Rightarrow> nat option \<Rightarrow> ('nb, 'z) cstate_scheme \<Rightarrow> (int \<times> ('nb, 'z) cstate_scheme) option" where
  "naf_conn_schedulekill nb conn st =
     (case conn of
        None \<Rightarrow> Some (-1, st)
      | Some a \<Rightarrow> do {
          c \<leftarrow> cs_conns st a;
          (case c_fdt c of
             None \<Rightarrow> Some (-1, st)
           | Some fdt \<Rightarrow> (let (r, n) = nb_setcloseonflush nb fdt (cs_nb st) in Some (r, st\<lparr>cs_nb := n\<rparr>)))
        })"

definition naf_conn_setraw ::
    "('nb, 'r) nbio_ops_scheme \<Rightarrow> nat \<Rightarrow> int \<Rightarrow> ('nb, 'z) cstate_scheme \<Rightarrow> ('nb, 'z) cstate_scheme option" where
  "naf_conn_setraw nb a val st = do {
     c \<leftarrow> cs_conns st a;
     fdt \<leftarrow> c_fdt c;
     Some (st\<lparr>cs_nb := nb_setraw nb fdt val (cs_nb st)\<rparr>)
   }"

definition updaterawmode ::
    "('nb, 'r) nbio_ops_scheme \<Rightarrow> nat \<Rightarrow> ('nb, 'z) cstate_scheme \<Rightarrow> ('nb, 'z) cstate_scheme option" where
  "updaterawmode nb a st = do {
     c \<leftarrow> cs_conns st a;
     if c_type c AND NAF_CONN_TYPE_DETECTING \<noteq> 0 then Some st
     else naf_conn_setraw nb a (if c_type c AND NAF_CONN_TYPE_READRAW \<noteq> 0 then 2 else 0) st
   }"

section \<open>Searching\<close>

text \<open>The matcher may change the state; \<open>None\<close> is a fault in it. The list of descriptors is the one
  at the start: none of the matchers opens a connection, and a closed one keeps its place.\<close>

fun conn_find_loop ::
    "(nat \<Rightarrow> 's \<Rightarrow> (bool \<times> 's) option) \<Rightarrow> nat list \<Rightarrow> 's \<Rightarrow> (nat option \<times> 's) option" where
  "conn_find_loop matcher [] st = Some (None, st)"
| "conn_find_loop matcher (a # as) st = do {
     (found, st) \<leftarrow> matcher a st;
     if found then Some (Some a, st) else conn_find_loop matcher as st
   }"

definition naf_conn_find ::
    "('nb, 'r) nbio_ops_scheme \<Rightarrow> (nat \<Rightarrow> ('nb, 'z) cstate_scheme \<Rightarrow> (bool \<times> ('nb, 'z) cstate_scheme) option)
       \<Rightarrow> ('nb, 'z) cstate_scheme \<Rightarrow> (nat option \<times> ('nb, 'z) cstate_scheme) option" where
  "naf_conn_find nb matcher st = conn_find_loop matcher (nb_fdlist nb (cs_nb st)) st"

definition findconnbycid_matcher ::
    "naf_u32_t \<Rightarrow> nat \<Rightarrow> ('nb, 'z) cstate_scheme \<Rightarrow> (bool \<times> ('nb, 'z) cstate_scheme) option" where
  "findconnbycid_matcher cid a st = do { c \<leftarrow> cs_conns st a; Some (c_cid c = cid, st) }"

definition naf_conn_findbycid ::
    "('nb, 'r) nbio_ops_scheme \<Rightarrow> naf_u32_t \<Rightarrow> ('nb, 'z) cstate_scheme
       \<Rightarrow> (nat option \<times> ('nb, 'z) cstate_scheme) option" where
  "naf_conn_findbycid nb cid st = naf_conn_find nb (findconnbycid_matcher cid) st"

definition naf_conn_getparent :: "nat option \<Rightarrow> ('nb, 'z) cstate_scheme \<Rightarrow> nat option option" where
  "naf_conn_getparent conn st =
     (case conn of
        None \<Rightarrow> Some None
      | Some a \<Rightarrow> do {
          c \<leftarrow> cs_conns st a;
          if c_parent c \<noteq> None then Some (c_parent c)
          else (case c_endpoint c of
                  None \<Rightarrow> Some None
                | Some e \<Rightarrow> do { ec \<leftarrow> cs_conns st e; Some (c_parent ec) })
        })"

section \<open>Opening\<close>

text \<open>\<^verbatim>\<open>naf_conn_alloc\<close> and the part of \<^verbatim>\<open>fillendpoints\<close> that later code reads.\<close>

definition naf_conn_alloc :: "allocator \<Rightarrow> ('nb, 'z) cstate_scheme \<Rightarrow> nat option \<times> ('nb, 'z) cstate_scheme" where
  "naf_conn_alloc mal st =
     (case mal sizeof_nafconn of
        None \<Rightarrow> (None, st)
      | Some _ \<Rightarrow>
          (let c = \<lparr>c_fdt = None, c_type = 0, c_flags = 0, c_lastrx = 0, c_lasttx_soft = 0,
                    c_lasttx_hard = 0, c_endpoint = None, c_parent = None, c_localip = cstr ''0.0.0.0'',
                    c_localport = 0, c_servtype = 0, c_taglist = [], c_nextseqnum = 0, c_owner = None,
                    c_cid = cs_nextcid st\<rparr>;
               a = cs_next st
           in (Some a, st\<lparr>cs_conns := (cs_conns st)(a \<mapsto> c), cs_nextcid := cs_nextcid st + 1,
                          cs_openconns := cs_openconns st + 1, cs_next := Suc a\<rparr>)))"

definition fillendpoints :: "('nb, 'r) nbio_ops_scheme \<Rightarrow> nat \<Rightarrow> ('nb, 'z) cstate_scheme \<Rightarrow> ('nb, 'z) cstate_scheme option" where
  "fillendpoints nb a st = do {
     c \<leftarrow> cs_conns st a;
     case c_fdt c of
       None \<Rightarrow> Some (conn_update a (\<lambda>c. c\<lparr>c_localip := cstr ''0.0.0.0'', c_localport := 0\<rparr>) st)
     | Some fdt \<Rightarrow>
         (let (ip, port) = nb_getsockname nb fdt
          in Some (conn_update a (\<lambda>c. c\<lparr>c_localip := ip, c_localport := port\<rparr>) st))
   }"

text \<open>A connection whose descriptor could not be added is released at once: nothing refers to it
  yet, so only the counter moves.\<close>

definition naf_conn_addconn ::
    "allocator \<Rightarrow> ('nb, 'r) nbio_ops_scheme \<Rightarrow> int \<Rightarrow> nafmod option \<Rightarrow> nat \<Rightarrow> naf_u32_t \<Rightarrow> ('nb, 'z) cstate_scheme
       \<Rightarrow> (nat option \<times> ('nb, 'z) cstate_scheme) option" where
  "naf_conn_addconn mal nb now md fd type st =
     (let nbtype = (if type AND NAF_CONN_TYPE_LISTENER \<noteq> 0 then NBIO_FDTYPE_LISTENER
                    else if type AND NAF_CONN_TYPE_DATAGRAM \<noteq> 0 then NBIO_FDTYPE_DGRAM
                    else NBIO_FDTYPE_STREAM);
          (new, st) = naf_conn_alloc mal st
      in case new of
           None \<Rightarrow> Some (None, st)
         | Some a \<Rightarrow>
             (case nb_addfd nb nbtype fd a (cs_nb st) of
                (None, n) \<Rightarrow>
                  Some (None, st\<lparr>cs_nb := n, cs_openconns := cs_openconns st - 1,
                                 cs_conns := (cs_conns st)(a := None)\<rparr>)
              | (Some fdt, n) \<Rightarrow> do {
                  let st = conn_update a (\<lambda>c. c\<lparr>c_fdt := Some fdt, c_type := type, c_owner := md,
                             c_lastrx := now\<rparr>) (st\<lparr>cs_nb := n\<rparr>);
                  st \<leftarrow> (if type AND NAF_CONN_TYPE_CONNECTING \<noteq> 0 then naf_conn_setraw nb a 1 st
                         else if type AND NAF_CONN_TYPE_READRAW \<noteq> 0 then naf_conn_setraw nb a 2 st
                         else fillendpoints nb a st);
                  Some (Some a, st)
                }))"

text \<open>\<^verbatim>\<open>atoi\<close> on the digits at the start of a string.\<close>

fun atoi_digits :: "int \<Rightarrow> bytes \<Rightarrow> int" where
  "atoi_digits n [] = n"
| "atoi_digits n (c # cs) = (if 0x30 \<le> c \<and> c \<le> 0x39 then atoi_digits (10 * n + uint (c - 0x30)) cs else n)"

definition atoi :: "bytes \<Rightarrow> int" where
  "atoi s = (let s = dropWhile (\<lambda>c. c = sp \<or> (0x09 \<le> c \<and> c \<le> 0x0d)) s
     in case s of
          [] \<Rightarrow> 0
        | c # cs \<Rightarrow> if c = 0x2d then - atoi_digits 0 cs else if c = 0x2b then atoi_digits 0 cs
                    else atoi_digits 0 s)"

abbreviation (input) colon :: naf_u8_t where "colon \<equiv> 0x3a"

text \<open>The host and port of a \<^verbatim>\<open>host:port\<close> string. A host that fills the local array of 256 bytes has
  no terminator in it, and the search for the colon runs past the end.\<close>

definition split_host :: "bytes \<Rightarrow> int \<Rightarrow> (bytes \<times> int) option" where
  "split_host host port =
     (if length host < 256 then
        Some (if colon \<in> set host
              then (takeWhile (\<lambda>c. c \<noteq> colon) host, atoi (tl (dropWhile (\<lambda>c. c \<noteq> colon) host)))
              else (host, port))
      else None)"

text \<open>\<open>takeconn m\<close> is the \<^verbatim>\<open>takeconn\<close> function of module \<open>m\<close>, if it has one.\<close>

definition naf_conn_startconnect ::
    "allocator \<Rightarrow> ('nb, 'r) nbio_ops_scheme \<Rightarrow> int
       \<Rightarrow> (nafmod \<Rightarrow> (nat \<Rightarrow> ('nb, 'z) cstate_scheme \<Rightarrow> (int \<times> ('nb, 'z) cstate_scheme) option) option)
       \<Rightarrow> nat option \<Rightarrow> bytes option \<Rightarrow> int \<Rightarrow> ('nb, 'z) cstate_scheme \<Rightarrow> (int \<times> ('nb, 'z) cstate_scheme) option" where
  "naf_conn_startconnect mal nb now takeconn localconn host port st =
     (case (localconn, host) of
        (Some l, Some h) \<Rightarrow> do {
          (newhost, port) \<leftarrow> split_host h port;
          (case nb_dial nb newhost (word_of_int port) (cs_nb st) of
             (None, n) \<Rightarrow> Some (-1, st\<lparr>cs_nb := n\<rparr>)
           | (Some (sfd, inprogress), n) \<Rightarrow> do {
               let st = st\<lparr>cs_nb := n\<rparr>;
               lc \<leftarrow> cs_conns st l;
               (ep, st) \<leftarrow> naf_conn_addconn mal nb now None sfd
                 ((c_type lc XOR NAF_CONN_TYPE_CLIENT) OR NAF_CONN_TYPE_SERVER OR
                  (if inprogress then NAF_CONN_TYPE_CONNECTING else 0)) st;
               let st = conn_update l (\<lambda>c. c\<lparr>c_endpoint := ep\<rparr>) st;
               (case ep of
                  None \<Rightarrow> Some (-1, st\<lparr>cs_nb := nb_sfd_close nb sfd (cs_nb st)\<rparr>)
                | Some e \<Rightarrow> do {
                    lc \<leftarrow> cs_conns st l;
                    st \<leftarrow> (case c_owner lc of
                             None \<Rightarrow> Some st
                           | Some own \<Rightarrow>
                               (case takeconn own of
                                  None \<Rightarrow> Some st
                                | Some tk \<Rightarrow> do { (_, st) \<leftarrow> tk e st; Some st }));
                    lc \<leftarrow> cs_conns st l;
                    e \<leftarrow> c_endpoint lc;
                    let st = (if c_type lc AND NAF_CONN_TYPE_RAWWAITING \<noteq> 0
                              then conn_update e (\<lambda>c. c\<lparr>c_type := c_type c AND NOT NAF_CONN_TYPE_RAWWAITING\<rparr>)
                                    (conn_update l (\<lambda>c. c\<lparr>c_type := c_type c AND NOT NAF_CONN_TYPE_RAWWAITING\<rparr>) st)
                              else st);
                    let st = conn_update e (\<lambda>c. c\<lparr>c_owner := c_owner lc, c_endpoint := Some l\<rparr>) st;
                    Some (0, st)
                  })
             })
        }
      | _ \<Rightarrow> Some (-1, st))"

text \<open>\<^verbatim>\<open>snprintf("%s:%u")\<close> of a port, and the local address; \<open>extip\<close> is the configured external
  address.\<close>

fun utoa_rev :: "nat \<Rightarrow> nat \<Rightarrow> bytes" where
  "utoa_rev 0 n = []"
| "utoa_rev (Suc k) n = of_nat (48 + n mod 10) # (if n < 10 then [] else utoa_rev k (n div 10))"

definition utoa :: "nat \<Rightarrow> bytes" where
  "utoa n = rev (utoa_rev (Suc n) n)"

definition naf_conn_getlocaladdrstr ::
    "allocator \<Rightarrow> bytes option \<Rightarrow> nat option \<Rightarrow> ('nb, 'z) cstate_scheme \<Rightarrow> bytes option option" where
  "naf_conn_getlocaladdrstr mal extip conn st = do {
     ret \<leftarrow> (if extip \<noteq> None \<and> extip \<noteq> Some [] then Some (the extip)
            else do { a \<leftarrow> conn; c \<leftarrow> cs_conns st a; Some (c_localip c) });
     if mal (length ret + 1) = None then Some None
     else if colon \<in> set ret then Some (Some ret)
     else do {
       a \<leftarrow> conn;
       c \<leftarrow> cs_conns st a;
       if mal (length ret + 7) = None then Some (Some ret)
       else Some (Some (ret @ [colon] @ utoa (unat (c_localport c))))
     }
   }"

section \<open>Lemmas\<close>

lemma conn_update_simps [simp]:
  "cs_conns (conn_update a f st) b = (if b = a then map_option f (cs_conns st a) else cs_conns st b)"
  "cs_nb (conn_update a f st) = cs_nb st"
  "cs_next (conn_update a f st) = cs_next st"
  "cs_nextcid (conn_update a f st) = cs_nextcid st"
  "cs_openconns (conn_update a f st) = cs_openconns st"
  "cstate.more (conn_update a f st) = cstate.more st"
  by (simp_all add: conn_update_def)

text \<open>A search with a matcher that only looks.\<close>

lemma conn_find_loop_pure:
  assumes "\<And>a. a \<in> set as \<Longrightarrow> matcher a st = Some (P a, st)"
  shows "conn_find_loop matcher as st = Some (List.find P as, st)"
  using assms by (induction as) auto

lemma naf_conn_findbycid_eq:
  assumes "\<forall>a \<in> set (nb_fdlist nb (cs_nb st)). cs_conns st a \<noteq> None"
  shows "naf_conn_findbycid nb cid st =
    Some (List.find (\<lambda>a. map_option c_cid (cs_conns st a) = Some cid) (nb_fdlist nb (cs_nb st)), st)"
  unfolding naf_conn_findbycid_def naf_conn_find_def
  by (rule conn_find_loop_pure) (use assms in \<open>auto simp: findconnbycid_matcher_def\<close>)

lemma getlocaladdrstr_cong:
  "cs_conns st' = cs_conns st \<Longrightarrow> naf_conn_getlocaladdrstr mal extip a st' = naf_conn_getlocaladdrstr mal extip a st"
  by (simp only: naf_conn_getlocaladdrstr_def)

text \<open>A flag of the type word is one bit.\<close>

lemma type_flag_bit:
  "(t :: naf_u32_t) AND NAF_CONN_TYPE_CLIENT = 0 \<longleftrightarrow> \<not> bit t 20"
  "t AND NAF_CONN_TYPE_SERVER = 0 \<longleftrightarrow> \<not> bit t 21"
  "t AND NAF_CONN_TYPE_LISTENER = 0 \<longleftrightarrow> \<not> bit t 22"
  "t AND NAF_CONN_TYPE_DATAGRAM = 0 \<longleftrightarrow> \<not> bit t 23"
  "t AND NAF_CONN_TYPE_RAWWAITING = 0 \<longleftrightarrow> \<not> bit t 25"
  using and_exp_eq_0_iff_not_bit [of t 20] and_exp_eq_0_iff_not_bit [of t 21] and_exp_eq_0_iff_not_bit [of t 22]
    and_exp_eq_0_iff_not_bit [of t 23] and_exp_eq_0_iff_not_bit [of t 25] by simp_all

text \<open>A new connection over a descriptor that libnbio takes.\<close>

lemma addconn_ok:
  assumes mal: "mal sizeof_nafconn \<noteq> None" and type: "\<not> bit type 22" "\<not> bit type 23"
    and fd: "nb_addfd nb NBIO_FDTYPE_STREAM fd (cs_next st) (cs_nb st) = (Some fdt, n)"
  obtains ec n' where "naf_conn_addconn mal nb now md fd type st = Some (Some (cs_next st),
      st\<lparr>cs_conns := (cs_conns st)(cs_next st \<mapsto> ec), cs_nb := n', cs_nextcid := cs_nextcid st + 1,
         cs_openconns := cs_openconns st + 1, cs_next := Suc (cs_next st)\<rparr>)"
    "c_fdt ec = Some fdt" "c_type ec = type" "c_taglist ec = []" "c_owner ec = md" "c_endpoint ec = None"
proof -
  obtain m where m: "mal sizeof_nafconn = Some m" using mal by blast
  define a where "a = cs_next st"
  let ?c = "\<lparr>c_fdt = Some fdt, c_type = type, c_flags = 0, c_lastrx = now, c_lasttx_soft = 0,
    c_lasttx_hard = 0, c_endpoint = None, c_parent = None, c_localip = cstr ''0.0.0.0'',
    c_localport = 0, c_servtype = 0, c_taglist = [], c_nextseqnum = 0, c_owner = md, c_cid = cs_nextcid st\<rparr>"
  let ?st = "\<lambda>ec n'. st\<lparr>cs_conns := (cs_conns st)(a \<mapsto> ec), cs_nb := n', cs_nextcid := cs_nextcid st + 1,
         cs_openconns := cs_openconns st + 1, cs_next := Suc a\<rparr>"
  consider (conn) "type AND NAF_CONN_TYPE_CONNECTING \<noteq> 0"
    | (raw) "type AND NAF_CONN_TYPE_CONNECTING = 0" "type AND NAF_CONN_TYPE_READRAW \<noteq> 0"
    | (plain) "type AND NAF_CONN_TYPE_CONNECTING = 0" "type AND NAF_CONN_TYPE_READRAW = 0" by blast
  then show thesis
  proof cases
    case conn
    then have "naf_conn_addconn mal nb now md fd type st = Some (Some a, ?st ?c (nb_setraw nb fdt 1 n))"
      using m type fd by (simp add: naf_conn_addconn_def naf_conn_alloc_def type_flag_bit a_def conn_update_def naf_conn_setraw_def Let_def)
    then show thesis unfolding a_def by (rule that) simp_all
  next
    case raw
    then have "naf_conn_addconn mal nb now md fd type st = Some (Some a, ?st ?c (nb_setraw nb fdt 2 n))"
      using m type fd by (simp add: naf_conn_addconn_def naf_conn_alloc_def type_flag_bit a_def conn_update_def naf_conn_setraw_def Let_def)
    then show thesis unfolding a_def by (rule that) simp_all
  next
    case plain
    then have "naf_conn_addconn mal nb now md fd type st = Some (Some a,
        ?st (?c\<lparr>c_localip := fst (nb_getsockname nb fdt), c_localport := snd (nb_getsockname nb fdt)\<rparr>) n)"
      using m type fd
      by (simp add: naf_conn_addconn_def naf_conn_alloc_def type_flag_bit a_def conn_update_def fillendpoints_def case_prod_beta Let_def)
    then show thesis unfolding a_def by (rule that) simp_all
  qed
qed

text \<open>Connecting the other side: both connections refer to each other, the new one is a server
  connection with the owner of the old one, prepared by that owner's \<open>takeconn\<close> before.\<close>

lemma startconnect_ok:
  assumes mal: "mal sizeof_nafconn \<noteq> None" and host: "split_host h port = Some (host, port')"
    and dial: "nb_dial nb host (word_of_int port') (cs_nb st) = (Some (sfd, inprogress), n)"
    and l: "cs_conns st l = Some lc" "\<not> bit (c_type lc) 22" "\<not> bit (c_type lc) 23" "\<not> bit (c_type lc) 25" "l \<noteq> cs_next st"
    and fd: "nb_addfd nb NBIO_FDTYPE_STREAM sfd (cs_next st) n = (Some fdt, n2)"
    and tk: "c_owner lc = Some own" "takeconn own = Some tkf"
      "\<And>ec st1. cs_conns st1 (cs_next st) = Some ec \<Longrightarrow> c_fdt ec = Some fdt \<Longrightarrow>
         c_type ec = (c_type lc XOR NAF_CONN_TYPE_CLIENT) OR NAF_CONN_TYPE_SERVER OR
           (if inprogress then NAF_CONN_TYPE_CONNECTING else 0) \<Longrightarrow> c_taglist ec = [] \<Longrightarrow>
         cs_conns st1 l = Some (lc\<lparr>c_endpoint := Some (cs_next st)\<rparr>) \<Longrightarrow> cstate.more st1 = cstate.more st \<Longrightarrow>
         \<exists>r st2. tkf (cs_next st) st1 = Some (r, st2) \<and> P ec st1 st2 \<and>
           cs_conns st2 l = cs_conns st1 l \<and> cs_conns st2 (cs_next st) \<noteq> None"
  obtains ec st1 st2 where "P ec st1 st2" "cstate.more st1 = cstate.more st"
    "cs_conns st2 l = Some (lc\<lparr>c_endpoint := Some (cs_next st)\<rparr>)"
    "naf_conn_startconnect mal nb now takeconn (Some l) (Some h) port st =
       Some (0, conn_update (cs_next st) (\<lambda>c. c\<lparr>c_owner := Some own, c_endpoint := Some l\<rparr>) st2)"
proof -
  define a where "a = cs_next st"
  define type where "type = (c_type lc XOR NAF_CONN_TYPE_CLIENT) OR NAF_CONN_TYPE_SERVER OR
    (if inprogress then NAF_CONN_TYPE_CONNECTING else 0)"
  have bits: "\<not> bit type 22" "\<not> bit type 23" using l(2,3) by (simp_all add: type_def bit_simps)
  have fd': "nb_addfd nb NBIO_FDTYPE_STREAM sfd (cs_next (st\<lparr>cs_nb := n\<rparr>)) (cs_nb (st\<lparr>cs_nb := n\<rparr>)) = (Some fdt, n2)"
    using fd by simp
  obtain ec n' where add: "naf_conn_addconn mal nb now None sfd type (st\<lparr>cs_nb := n\<rparr>) = Some (Some a,
      st\<lparr>cs_conns := (cs_conns st)(a \<mapsto> ec), cs_nb := n', cs_nextcid := cs_nextcid st + 1,
         cs_openconns := cs_openconns st + 1, cs_next := Suc a\<rparr>)" (is "_ = Some (_, ?sa)")
    "c_fdt ec = Some fdt" "c_type ec = type" "c_taglist ec = []"
    by (rule addconn_ok [where mal = mal and nb = nb and now = now and md = None and fd = sfd and type = type
        and st = "st\<lparr>cs_nb := n\<rparr>" and fdt = fdt and n = n2, OF mal bits fd']) (auto simp: a_def)
  let ?s1 = "conn_update l (\<lambda>c. c\<lparr>c_endpoint := Some a\<rparr>) ?sa"
  have la: "l \<noteq> a" using l(5) by (simp add: a_def)
  have s1: "cs_conns ?s1 a = Some ec" "cs_conns ?s1 l = Some (lc\<lparr>c_endpoint := Some a\<rparr>)" "cstate.more ?s1 = cstate.more st"
    using la l(1) by simp_all
  obtain r st2 where 2: "tkf a ?s1 = Some (r, st2)" "P ec ?s1 st2" "cs_conns st2 l = cs_conns ?s1 l" "cs_conns st2 a \<noteq> None"
    using tk(3) [folded a_def, OF s1(1) add(2) _ add(4) s1(2,3)] add(3) by (auto simp: type_def)
  then obtain ec2 where ec2: "cs_conns st2 a = Some ec2" by blast
  have rw: "c_type (lc\<lparr>c_endpoint := Some a\<rparr>) AND NAF_CONN_TYPE_RAWWAITING = 0"
    using l(4) by (simp add: type_flag_bit)
  have "naf_conn_startconnect mal nb now takeconn (Some l) (Some h) port st =
       Some (0, conn_update a (\<lambda>c. c\<lparr>c_owner := Some own, c_endpoint := Some l\<rparr>) st2)"
    unfolding naf_conn_startconnect_def
    using host dial l(1) add(1) s1(2) tk(1,2) 2(1,3) ec2 rw la by (simp add: type_def [symmetric])
  with 2 s1 that show thesis unfolding a_def by metis
qed

end
