(* ===== verification/Ckcache.thy ===== *)
theory Ckcache
  imports Interfaces
begin

text \<open>
  The cookie cache of \<^verbatim>\<open>timps/oscar/ckcache.c\<close>: when a server redirects a client to another
  service it hands out a cookie; the proxy remembers under that cookie which host and user the
  coming connection belongs to. The global \<^verbatim>\<open>timps_oscar__ckcache\<close> is the list of the entries,
  passed explicitly. A cookie argument is a memory block and the length to use of it.
\<close>

section \<open>Data\<close>

record ckcache =
  ck_ck :: bytes
  ck_cklen :: naf_u16_t
  ck_ip :: bytes
  ck_sn :: bytes
  ck_servtype :: naf_u16_t
  ck_addtime :: int

abbreviation (input) CKCACHE_TIMEOUT :: int where "CKCACHE_TIMEOUT \<equiv> 60"

text \<open>\<^verbatim>\<open>sizeof(struct ckcache)\<close> on an LP64 system.\<close>

abbreviation (input) sizeof_ckcache :: nat where "sizeof_ckcache \<equiv> 56"

section \<open>Operations\<close>

text \<open>The outer option is a fault (a null string handed to \<^verbatim>\<open>naf_strdup\<close>, a cookie block shorter
  than its length), the inner one the null result of a refused allocation. The field
  \<open>ck_servtype\<close> keeps the 0 that \<^verbatim>\<open>memset\<close> wrote: nothing stores the argument. \<open>ck_addtime\<close> is set
  by the caller.\<close>

definition ckc__alloc ::
    "allocator \<Rightarrow> bytes \<Rightarrow> naf_u16_t \<Rightarrow> bytes option \<Rightarrow> bytes option \<Rightarrow> naf_u16_t \<Rightarrow> ckcache option option" where
  "ckc__alloc mal ck cklen ip sn servtype =
     (if mal sizeof_ckcache = None then Some None
      else if mal (unat cklen) = None then Some None
      else do {
        ip \<leftarrow> ip;
        if mal (length ip + 1) = None then Some None
        else do {
          sn \<leftarrow> sn;
          if mal (length sn + 1) = None then Some None
          else do {
            ck \<leftarrow> mem_read ck 0 (unat cklen);
            Some (Some \<lparr>ck_ck = ck, ck_cklen = cklen, ck_ip = ip, ck_sn = sn,
                        ck_servtype = 0, ck_addtime = 0\<rparr>)
          }
        }
      })"

text \<open>The test \<^verbatim>\<open>(ckc->cklen == cklen) && (memcmp(ckc->ck, ck, cklen) == 0)\<close> on a cookie argument
  of at least \<open>cklen\<close> bytes.\<close>

definition ck_matches :: "bytes \<times> naf_u16_t \<Rightarrow> ckcache \<Rightarrow> bool" where
  "ck_matches k ckc \<longleftrightarrow>
     ck_cklen ckc = snd k \<and> take (unat (snd k)) (ck_ck ckc) = take (unat (snd k)) (fst k)"

fun toscar_ckcache__find :: "bytes \<times> naf_u16_t \<Rightarrow> ckcache list \<Rightarrow> ckcache option" where
  "toscar_ckcache__find k [] = None"
| "toscar_ckcache__find k (ckc # rest) =
     (if ck_matches k ckc then Some ckc else toscar_ckcache__find k rest)"

text \<open>\<open>now\<close> is the value of \<^verbatim>\<open>time(NULL)\<close>.\<close>

definition toscar_ckcache_add ::
    "allocator \<Rightarrow> int \<Rightarrow> nafmod option \<Rightarrow> bytes option \<Rightarrow> naf_u16_t \<Rightarrow> bytes option \<Rightarrow> bytes option
       \<Rightarrow> naf_u16_t \<Rightarrow> ckcache list \<Rightarrow> (int \<times> ckcache list) option" where
  "toscar_ckcache_add mal now md ck cklen ip sn servtype cache =
     (if md = None \<or> ck = None \<or> cklen = 0 \<or> ip = None then Some (-1, cache)
      else if toscar_ckcache__find (the ck, cklen) cache \<noteq> None then Some (-1, cache)
      else do {
        ckc \<leftarrow> ckc__alloc mal (the ck) cklen ip sn servtype;
        case ckc of
          None \<Rightarrow> Some (-1, cache)
        | Some ckc \<Rightarrow> Some (0, ckc\<lparr>ck_addtime := now\<rparr> # cache)
      })"

fun toscar_ckcache__remove :: "bytes \<times> naf_u16_t \<Rightarrow> ckcache list \<Rightarrow> ckcache option \<times> ckcache list" where
  "toscar_ckcache__remove k [] = (None, [])"
| "toscar_ckcache__remove k (cur # rest) =
     (if ck_matches k cur then (Some cur, rest)
      else (let (r, rest) = toscar_ckcache__remove k rest in (r, cur # rest)))"

text \<open>The result carries the values of \<^verbatim>\<open>*ipret\<close>, \<^verbatim>\<open>*snret\<close> and \<^verbatim>\<open>*servtyperet\<close>.\<close>

definition toscar_ckcache_rem ::
    "bytes \<Rightarrow> naf_u16_t \<Rightarrow> ckcache list \<Rightarrow> int \<times> (bytes \<times> bytes \<times> naf_u16_t) option \<times> ckcache list" where
  "toscar_ckcache_rem ck cklen cache =
     (case toscar_ckcache__remove (ck, cklen) cache of
        (None, cache) \<Rightarrow> (-1, None, cache)
      | (Some ckc, cache) \<Rightarrow> (0, Some (ck_ip ckc, ck_sn ckc, ck_servtype ckc), cache))"

fun toscar_ckcache_timer :: "int \<Rightarrow> ckcache list \<Rightarrow> ckcache list" where
  "toscar_ckcache_timer now [] = []"
| "toscar_ckcache_timer now (cur # rest) =
     (if now - ck_addtime cur > CKCACHE_TIMEOUT then toscar_ckcache_timer now rest
      else cur # toscar_ckcache_timer now rest)"

section \<open>The cache as a keyed list\<close>

lemma toscar_ckcache__find_eq: "toscar_ckcache__find k cache = List.find (ck_matches k) cache"
  by (induction cache) auto

lemma toscar_ckcache__remove_eq: "toscar_ckcache__remove k cache = unlink_first (ck_matches k) cache"
  by (induction cache) auto

interpretation ckl: keyed_list ck_matches "\<lambda>l. l" toscar_ckcache__find toscar_ckcache__remove Cons
  by unfold_locales
     (auto simp: toscar_ckcache__find_eq toscar_ckcache__remove_eq ck_matches_def fun_eq_iff)

lemma toscar_ckcache_timer_eq:
  "toscar_ckcache_timer now cache = filter (\<lambda>c. now - ck_addtime c \<le> CKCACHE_TIMEOUT) cache"
  by (induction cache) auto

section \<open>Invariant\<close>

definition ckcache_inv :: "ckcache list \<Rightarrow> bool" where
  "ckcache_inv cache \<longleftrightarrow>
     unique_by ck_matches cache \<and>
     (\<forall>c \<in> set cache. length (ck_ck c) = unat (ck_cklen c) \<and> ck_cklen c \<noteq> 0)"

text \<open>A well-formed entry for the key, as the code creates it.\<close>

definition ck_entry :: "int \<Rightarrow> bytes \<Rightarrow> naf_u16_t \<Rightarrow> bytes \<Rightarrow> bytes \<Rightarrow> ckcache" where
  "ck_entry now ck cklen ip sn =
     \<lparr>ck_ck = take (unat cklen) ck, ck_cklen = cklen, ck_ip = ip, ck_sn = sn,
      ck_servtype = 0, ck_addtime = now\<rparr>"

lemma ck_matches_entry [simp]: "ck_matches (ck, cklen) (ck_entry now ck cklen ip sn)"
  by (simp add: ck_matches_def ck_entry_def)

lemma toscar_ckcache_add_eq:
  assumes "unat cklen \<le> length ck" "cklen \<noteq> 0"
  shows "toscar_ckcache_add mal now (Some m) (Some ck) cklen (Some ip) (Some sn) servtype cache =
    (if toscar_ckcache__find (ck, cklen) cache \<noteq> None \<or> mal sizeof_ckcache = None \<or>
        mal (unat cklen) = None \<or> mal (length ip + 1) = None \<or> mal (length sn + 1) = None
     then Some (-1, cache)
     else Some (0, ck_entry now ck cklen ip sn # cache))"
  using assms by (auto simp: toscar_ckcache_add_def ckc__alloc_def ck_entry_def mem_read_def)

lemma ckcache_inv_add:
  assumes "ckcache_inv cache" "unat cklen \<le> length ck" "cklen \<noteq> 0"
  shows "\<exists>r cache'. toscar_ckcache_add mal now (Some m) (Some ck) cklen (Some ip) (Some sn) servtype cache =
      Some (r, cache') \<and> ckcache_inv cache'"
proof -
  have "ckcache_inv (ck_entry now ck cklen ip sn # cache)"
    if "toscar_ckcache__find (ck, cklen) cache = None"
    using assms ckl.unique_push [OF _ ck_matches_entry that, of now ip sn]
    by (auto simp: ckcache_inv_def ck_entry_def)
  with assms show ?thesis by (simp add: toscar_ckcache_add_eq)
qed

lemma ckcache_inv_rem:
  assumes "ckcache_inv cache"
  shows "ckcache_inv (snd (snd (toscar_ckcache_rem ck cklen cache)))"
proof -
  have "ckcache_inv (snd (toscar_ckcache__remove k cache))" for k
    using assms ckl.unique_unlink [of cache k] set_unlink_first [of "ck_matches k" cache]
    by (auto simp: ckcache_inv_def toscar_ckcache__remove_eq)
  then show ?thesis
    by (auto simp: toscar_ckcache_rem_def split: prod.splits option.splits) (metis snd_conv)+
qed

lemma ckcache_inv_timer: "ckcache_inv cache \<Longrightarrow> ckcache_inv (toscar_ckcache_timer now cache)"
  by (auto simp: ckcache_inv_def toscar_ckcache_timer_eq unique_by_filter)

section \<open>Redeeming a cookie\<close>

lemma toscar_ckcache_rem_hit:
  assumes inv: "ckcache_inv cache" and len: "unat cklen \<le> length ck" "cklen \<noteq> 0"
    and add: "toscar_ckcache_add mal now (Some m) (Some ck) cklen (Some ip) (Some sn) servtype cache = Some (0, cache1)"
  shows "toscar_ckcache_rem ck cklen cache1 = (0, Some (ip, sn, 0), cache)"
  using add len by (auto simp: toscar_ckcache_add_eq toscar_ckcache_rem_def ck_entry_def ck_matches_def split: if_splits)

lemma toscar_ckcache_rem_twice:
  assumes "ckcache_inv cache"
  shows "fst (toscar_ckcache_rem ck cklen (snd (snd (toscar_ckcache_rem ck cklen cache)))) = -1"
proof -
  have "toscar_ckcache__find (ck, cklen) (snd (toscar_ckcache__remove (ck, cklen) cache)) = None"
    using assms ckl.lookup_unlink_same by (simp add: ckcache_inv_def)
  then have "fst (toscar_ckcache__remove (ck, cklen) (snd (toscar_ckcache__remove (ck, cklen) cache))) = None"
    by (simp add: ckl.unlink_lookup)
  moreover have "snd (snd (toscar_ckcache_rem ck cklen cache)) = snd (toscar_ckcache__remove (ck, cklen) cache)"
    by (auto simp: toscar_ckcache_rem_def split: prod.splits option.splits)
  ultimately show ?thesis
    by (auto simp: toscar_ckcache_rem_def split: prod.splits option.splits)
qed

text \<open>Entries survive the timer exactly for the timeout.\<close>

lemma find_timer:
  assumes "toscar_ckcache__find k cache = Some c" "ckcache_inv cache"
  shows "toscar_ckcache__find k (toscar_ckcache_timer now cache) =
    (if now - ck_addtime c \<le> CKCACHE_TIMEOUT then Some c else None)"
  using assms
proof (induction cache)
  case (Cons a cache)
  have inv: "ckcache_inv cache" using Cons.prems(2) by (simp add: ckcache_inv_def unique_by_Cons)
  show ?case
  proof (cases "ck_matches k a")
    case True
    with Cons.prems(2) have "\<forall>b \<in> set cache. \<not> ck_matches k b"
      unfolding ckcache_inv_def unique_by_Cons by blast
    then have "toscar_ckcache__find k (toscar_ckcache_timer now cache) = None"
      by (auto simp: toscar_ckcache__find_eq toscar_ckcache_timer_eq find_None_iff)
    with True Cons.prems show ?thesis by auto
  next
    case False
    with Cons inv show ?thesis by simp
  qed
qed simp

section \<open>Properties\<close>

text \<open>A cookie is redeemed exactly once: after it has been added, removing it returns the address
  and the screen name it was added with and restores the cache, and removing it again fails. The
  service type does not survive: it comes back as 0 whatever was passed in.\<close>

theorem cookie_redeemed_once:
  assumes inv: "ckcache_inv cache" and len: "unat cklen \<le> length ck" "cklen \<noteq> 0"
    and add: "toscar_ckcache_add mal now (Some m) (Some ck) cklen (Some ip) (Some sn) servtype cache = Some (0, cache')"
  shows "toscar_ckcache_rem ck cklen cache' = (0, Some (ip, sn, 0), cache) \<and>
    fst (toscar_ckcache_rem ck cklen cache) = -1"
proof
  show 1: "toscar_ckcache_rem ck cklen cache' = (0, Some (ip, sn, 0), cache)"
    using inv len add by (rule toscar_ckcache_rem_hit)
  have "ckcache_inv cache'" using ckcache_inv_add [OF inv len, of mal now m ip sn servtype] add by auto
  from toscar_ckcache_rem_twice [OF this, of ck cklen] 1
  show "fst (toscar_ckcache_rem ck cklen cache) = -1" by simp
qed

theorem cookie_redeemed_once_witness:
  "toscar_ckcache_rem [1, 2] 2 [ck_entry 100 [1, 2] 2 [49] [97]] = (0, Some ([49], [97], 0), []) \<and>
   fst (toscar_ckcache_rem [1, 2] 2 []) = -1"
proof (rule cookie_redeemed_once)
  show "toscar_ckcache_add zero_alloc 100 (Some 1) (Some [1, 2]) 2 (Some [49]) (Some [97]) 9 [] =
      Some (0, [ck_entry 100 [1, 2] 2 [49] [97]])"
    by (simp add: toscar_ckcache_add_eq zero_alloc_def)
qed (simp_all add: ckcache_inv_def)

text \<open>C40. The cache never holds two entries for one cookie, and cookies have exactly their length:
  adding, removing and the timer keep this. An entry is still found after the timer has run if and
  only if it is at most 60 seconds old.\<close>

theorem ckcache_sound:
  assumes "ckcache_inv cache" "unat cklen \<le> length ck" "cklen \<noteq> 0"
  shows "(\<exists>r cache'. toscar_ckcache_add mal now (Some m) (Some ck) cklen (Some ip) (Some sn) servtype cache =
      Some (r, cache') \<and> ckcache_inv cache') \<and>
    ckcache_inv (snd (snd (toscar_ckcache_rem ck cklen cache))) \<and>
    ckcache_inv (toscar_ckcache_timer now cache) \<and>
    (\<forall>c. toscar_ckcache__find (ck, cklen) cache = Some c \<longrightarrow>
      toscar_ckcache__find (ck, cklen) (toscar_ckcache_timer now cache) =
        (if now - ck_addtime c \<le> CKCACHE_TIMEOUT then Some c else None))"
  using ckcache_inv_add [OF assms, of mal now m ip sn servtype] ckcache_inv_rem [OF assms(1)]
    ckcache_inv_timer [OF assms(1)] find_timer [OF _ assms(1)]
  by simp

theorem ckcache_sound_witness:
  "toscar_ckcache__find ([1, 2], 2) (toscar_ckcache_timer 161 [ck_entry 100 [1, 2] 2 [49] [97]]) = None"
proof -
  have inv: "ckcache_inv [ck_entry 100 [1, 2] 2 [49] [97]]"
    by (simp add: ckcache_inv_def unique_by_Cons ck_entry_def)
  have find: "toscar_ckcache__find ([1, 2], 2) [ck_entry 100 [1, 2] 2 [49] [97]] = Some (ck_entry 100 [1, 2] 2 [49] [97])"
    by simp
  have "ck_addtime (ck_entry 100 [1, 2] 2 [49] [97]) = 100" by (simp add: ck_entry_def)
  then show ?thesis
    using ckcache_sound [OF inv, of 2 "[1, 2]" zero_alloc 161 1 "[49]" "[97]" 9] find by simp
qed

end
