(* ===== verification/GnrNode.thy ===== *)
theory GnrNode
  imports Tags Names "HOL-Library.Multiset"
begin

text \<open>
  The node table of \<^verbatim>\<open>gnr/node.c\<close> and the event handlers of \<^verbatim>\<open>gnr/core.c\<close>. A node is
  identified by its address \<open>gn_addr\<close>; the 64 chains of \<^verbatim>\<open>gnr__nodehash\<close> are lists. The calls
  made into other modules (event handlers, tag destructors) are recorded in order in a
  trace; what those modules do is their own business.
\<close>

section \<open>Data\<close>

record gnrnode =
  gn_addr :: nat
  gn_name :: bytes
  gn_service :: bytes
  gn_flags :: naf_u32_t
  gn_metric :: int
  gn_ownermod :: nafmod
  gn_taglist :: taglist
  gn_refcount :: int
  gn_lastuse :: int
  gn_ttl :: int
  gn_createtime :: int

abbreviation (input) GNR_NODE_METRIC_LOCAL :: int where "GNR_NODE_METRIC_LOCAL \<equiv> 0"
abbreviation (input) GNR_NODE_METRIC_MAX :: int where "GNR_NODE_METRIC_MAX \<equiv> 65535"
abbreviation (input) GNR_NODE_TTL_DEFAULT :: int where "GNR_NODE_TTL_DEFAULT \<equiv> 30"
abbreviation (input) GNR_NODE_OFFLINE_REASON_UNKNOWN :: int where "GNR_NODE_OFFLINE_REASON_UNKNOWN \<equiv> 0"
abbreviation (input) GNR_NODE_OFFLINE_REASON_TIMEOUT :: int where "GNR_NODE_OFFLINE_REASON_TIMEOUT \<equiv> 1"
abbreviation (input) GNR_EVENT_NODEUP :: naf_u32_t where "GNR_EVENT_NODEUP \<equiv> 1"
abbreviation (input) GNR_EVENT_NODEDOWN :: naf_u32_t where "GNR_EVENT_NODEDOWN \<equiv> 2"

text \<open>\<^verbatim>\<open>sizeof(struct gnrnode)\<close> and \<^verbatim>\<open>sizeof(struct evhandler)\<close> on an LP64 system.\<close>

abbreviation (input) sizeof_gnrnode :: nat where "sizeof_gnrnode \<equiv> 88"
abbreviation (input) sizeof_evhandler :: nat where "sizeof_evhandler \<equiv> 32"

text \<open>\<^verbatim>\<open>struct gnr_event_info\<close>; the extended info of a node event is its reason.\<close>

record gnr_event_info =
  gei_event :: naf_u32_t
  gei_node :: gnrnode
  gei_extinfo :: "int option"

text \<open>A handler function is identified by its address.\<close>

record evhandler =
  evh_mod :: nafmod
  evh_func :: nat
  evh_evmask :: naf_u32_t

datatype gnr_call =
    EventCall nat nafmod gnr_event_info
  | FreeTagCall nafmod gnrnode bytes char tagdata

record nodestats =
  ns_total :: naf_u32_t
  ns_local :: naf_u32_t
  ns_peered :: naf_u32_t
  ns_external :: naf_u32_t

text \<open>The globals of the component: the event handlers, the hash table, the statistics; the next
  free address; the modules that have a \<^verbatim>\<open>freetag\<close> function; the trace.\<close>

record gnr_state =
  gs_evhlist :: "evhandler list"
  gs_nodehash :: "gnrnode list list"
  gs_nodestats :: nodestats
  gs_next :: nat
  gs_freetag :: "nafmod \<Rightarrow> bool"
  gs_calls :: "gnr_call list"

section \<open>Events\<close>

fun evh_find :: "evhandler list \<Rightarrow> nafmod \<Rightarrow> nat \<Rightarrow> evhandler option" where
  "evh_find [] ownermod func = None"
| "evh_find (evh # rest) ownermod func =
     (if evh_mod evh = ownermod \<and> evh_func evh = func then Some evh else evh_find rest ownermod func)"

definition gnr_event_register ::
    "allocator \<Rightarrow> nafmod option \<Rightarrow> nat option \<Rightarrow> naf_u32_t \<Rightarrow> gnr_state \<Rightarrow> int \<times> gnr_state" where
  "gnr_event_register mal md evfunc evmask st =
     (case (md, evfunc) of
        (Some m, Some f) \<Rightarrow>
          if evh_find (gs_evhlist st) m f \<noteq> None then (-1, st)
          else if mal sizeof_evhandler = None then (-1, st)
          else (0, st\<lparr>gs_evhlist :=
                 \<lparr>evh_mod = m, evh_func = f, evh_evmask = evmask\<rparr> # gs_evhlist st\<rparr>)
      | _ \<Rightarrow> (-1, st))"

text \<open>The unregistering loop goes on after a match.\<close>

fun event_unregister_loop :: "nafmod \<Rightarrow> nat \<Rightarrow> evhandler list \<Rightarrow> evhandler list" where
  "event_unregister_loop m f [] = []"
| "event_unregister_loop m f (cur # rest) =
     (if evh_mod cur = m \<and> evh_func cur = f then event_unregister_loop m f rest
      else cur # event_unregister_loop m f rest)"

definition gnr_event_unregister :: "nafmod option \<Rightarrow> nat option \<Rightarrow> gnr_state \<Rightarrow> int \<times> gnr_state" where
  "gnr_event_unregister md func st =
     (case (md, func) of
        (Some m, Some f) \<Rightarrow> (0, st\<lparr>gs_evhlist := event_unregister_loop m f (gs_evhlist st)\<rparr>)
      | _ \<Rightarrow> (-1, st))"

fun event_throw_loop :: "gnr_event_info \<Rightarrow> evhandler list \<Rightarrow> gnr_call list \<Rightarrow> gnr_call list" where
  "event_throw_loop gei [] calls = calls"
| "event_throw_loop gei (evh # rest) calls =
     event_throw_loop gei rest
       (if evh_evmask evh AND gei_event gei \<noteq> 0
        then calls @ [EventCall (evh_func evh) (evh_mod evh) gei] else calls)"

definition gnr_event_throw :: "gnr_event_info \<Rightarrow> gnr_state \<Rightarrow> gnr_state" where
  "gnr_event_throw gei st = st\<lparr>gs_calls := event_throw_loop gei (gs_evhlist st) (gs_calls st)\<rparr>"

definition gnr_event_throw_withnode :: "naf_u32_t \<Rightarrow> gnrnode \<Rightarrow> int option \<Rightarrow> gnr_state \<Rightarrow> gnr_state" where
  "gnr_event_throw_withnode ev node ei st =
     gnr_event_throw \<lparr>gei_event = ev, gei_node = node, gei_extinfo = ei\<rparr> st"

section \<open>The hash table\<close>

definition gnr_node__hash_init :: "gnr_state \<Rightarrow> gnr_state" where
  "gnr_node__hash_init st = st\<lparr>gs_nodehash := replicate GNR_NODE_HASH_SIZE []\<rparr>"

text \<open>The chain at an index. The index functions stay below 64, the length of the array.\<close>

definition bucket :: "gnr_state \<Rightarrow> nat \<Rightarrow> gnrnode list" where
  "bucket st idx = (if idx < length (gs_nodehash st) then gs_nodehash st ! idx else [])"

definition gnr_node__hash_add :: "gnrnode \<Rightarrow> gnr_state \<Rightarrow> gnr_state" where
  "gnr_node__hash_add gn st =
     (let idx = gnr_node__hash_getidx (gn_name gn)
      in st\<lparr>gs_nodehash := (gs_nodehash st)[idx := gn # bucket st idx]\<rparr>)"

definition gnr_node__hash_remove :: "gnrnode \<Rightarrow> gnr_state \<Rightarrow> gnrnode option \<times> gnr_state" where
  "gnr_node__hash_remove gn st =
     (let idx = gnr_node__hash_getidx (gn_name gn);
          (r, chain) = unlink_first (\<lambda>cur. gn_addr cur = gn_addr gn) (bucket st idx)
      in (r, st\<lparr>gs_nodehash := (gs_nodehash st)[idx := chain]\<rparr>))"

text \<open>The adjustments of the per-kind counters.\<close>

definition stats_inc :: "int \<Rightarrow> nodestats \<Rightarrow> nodestats" where
  "stats_inc metric s =
     (if metric = GNR_NODE_METRIC_LOCAL then s\<lparr>ns_local := ns_local s + 1\<rparr>
      else if metric = GNR_NODE_METRIC_MAX then s\<lparr>ns_external := ns_external s + 1\<rparr>
      else s\<lparr>ns_peered := ns_peered s + 1\<rparr>)"

definition stats_dec :: "int \<Rightarrow> nodestats \<Rightarrow> nodestats" where
  "stats_dec metric s =
     (if metric = GNR_NODE_METRIC_LOCAL then s\<lparr>ns_local := ns_local s - 1\<rparr>
      else if metric = GNR_NODE_METRIC_MAX then s\<lparr>ns_external := ns_external s - 1\<rparr>
      else s\<lparr>ns_peered := ns_peered s - 1\<rparr>)"

definition freenode :: "gnrnode \<Rightarrow> int \<Rightarrow> gnr_state \<Rightarrow> gnr_state" where
  "freenode gn reason st =
     (let st = gnr_event_throw_withnode GNR_EVENT_NODEDOWN gn (Some reason) st;
          s = gs_nodestats st;
          st = st\<lparr>gs_nodestats := stats_dec (gn_metric gn) (s\<lparr>ns_total := ns_total s - 1\<rparr>)\<rparr>
      in st\<lparr>gs_calls := naf_tag_freelist
              (\<lambda>m. if gs_freetag st m
                   then Some (\<lambda>calls name type data. calls @ [FreeTagCall m gn name type data])
                   else None)
              (gn_taglist gn) (gs_calls st)\<rparr>)"

text \<open>The loop shared by \<^verbatim>\<open>gnr_node__hash_timeout\<close> and \<^verbatim>\<open>gnr_node_offline_many\<close>: every node of
  a chain that the test selects is unlinked, then freed.\<close>

fun sweep_chain :: "(gnrnode \<Rightarrow> bool) \<Rightarrow> int \<Rightarrow> gnrnode list \<Rightarrow> gnr_state \<Rightarrow> gnrnode list \<times> gnr_state" where
  "sweep_chain sel reason [] st = ([], st)"
| "sweep_chain sel reason (cur # rest) st =
     (if sel cur then sweep_chain sel reason rest (freenode cur reason st)
      else (let (chain, st) = sweep_chain sel reason rest st in (cur # chain, st)))"

fun sweep_from :: "(gnrnode \<Rightarrow> bool) \<Rightarrow> int \<Rightarrow> nat \<Rightarrow> gnr_state \<Rightarrow> gnr_state" where
  "sweep_from sel reason 0 st = st"
| "sweep_from sel reason (Suc n) st =
     (let idx = GNR_NODE_HASH_SIZE - Suc n;
          (chain, st) = sweep_chain sel reason (bucket st idx) st
      in sweep_from sel reason n (st\<lparr>gs_nodehash := (gs_nodehash st)[idx := chain]\<rparr>))"

text \<open>The test of \<^verbatim>\<open>gnr_node__hash_timeout\<close>; \<open>now\<close> is \<^verbatim>\<open>time(NULL)\<close>.\<close>

definition expired :: "int \<Rightarrow> gnrnode \<Rightarrow> bool" where
  "expired now cur \<longleftrightarrow>
     \<not> (gn_metric cur = GNR_NODE_METRIC_LOCAL) \<and>
     \<not> (gn_ttl cur = -1 \<or> gn_refcount cur > 0 \<or> now - gn_lastuse cur < gn_ttl cur)"

definition gnr_node__hash_timeout :: "int \<Rightarrow> gnr_state \<Rightarrow> gnr_state" where
  "gnr_node__hash_timeout now st =
     sweep_from (expired now) GNR_NODE_OFFLINE_REASON_TIMEOUT GNR_NODE_HASH_SIZE st"

definition gnr_node_offline_many :: "(gnrnode \<Rightarrow> bool) option \<Rightarrow> int \<Rightarrow> gnr_state \<Rightarrow> gnr_state" where
  "gnr_node_offline_many matcher reason st =
     (case matcher of None \<Rightarrow> st | Some f \<Rightarrow> sweep_from f reason GNR_NODE_HASH_SIZE st)"

text \<open>\<^verbatim>\<open>gnr_node__hash_free\<close> frees every node and then clears the chain.\<close>

definition gnr_node__hash_free :: "gnr_state \<Rightarrow> gnr_state" where
  "gnr_node__hash_free st =
     sweep_from (\<lambda>_. True) GNR_NODE_OFFLINE_REASON_UNKNOWN GNR_NODE_HASH_SIZE st"

section \<open>Operations\<close>

text \<open>All nodes, in the order of \<^verbatim>\<open>gnr_node_find\<close>.\<close>

definition all_nodes :: "gnr_state \<Rightarrow> gnrnode list" where
  "all_nodes st = concat (gs_nodehash st)"

definition gnr_node_find :: "(gnrnode \<Rightarrow> bool) option \<Rightarrow> gnr_state \<Rightarrow> gnrnode option" where
  "gnr_node_find matcher st =
     (case matcher of None \<Rightarrow> None | Some f \<Rightarrow> List.find f (all_nodes st))"

definition node_matches :: "bytes \<Rightarrow> bytes option \<Rightarrow> gnrnode \<Rightarrow> bool" where
  "node_matches name service gn \<longleftrightarrow>
     gnr_node_namecmp (gn_name gn) name = 0 \<and>
     (case service of None \<Rightarrow> True | Some s \<Rightarrow> strcasecmp_eq (gn_service gn) s)"

definition gnr_node_findbyname :: "bytes option \<Rightarrow> bytes option \<Rightarrow> gnr_state \<Rightarrow> gnrnode option" where
  "gnr_node_findbyname name service st =
     (case name of
        None \<Rightarrow> None
      | Some n \<Rightarrow> List.find (node_matches n service) (bucket st (gnr_node__hash_getidx n)))"

definition gnr_node_online ::
    "allocator \<Rightarrow> int \<Rightarrow> nafmod option \<Rightarrow> bytes option \<Rightarrow> bytes option \<Rightarrow> naf_u32_t \<Rightarrow> int \<Rightarrow> gnr_state
       \<Rightarrow> gnrnode option \<times> gnr_state" where
  "gnr_node_online mal now owner name service flags metric st =
     (case (owner, name, service) of
        (Some own, Some n, Some s) \<Rightarrow>
          (case gnr_node_findbyname (Some n) (Some s) st of
             Some gn \<Rightarrow> (Some gn, st)
           | None \<Rightarrow>
               if mal sizeof_gnrnode = None \<or> mal (length n + 1) = None \<or> mal (length s + 1) = None
               then (None, st)
               else
                 (let gn = \<lparr>gn_addr = gs_next st, gn_name = n, gn_service = s, gn_flags = flags,
                            gn_metric = metric, gn_ownermod = own, gn_taglist = [], gn_refcount = 0,
                            gn_lastuse = now,
                            gn_ttl = (if metric > GNR_NODE_METRIC_LOCAL then GNR_NODE_TTL_DEFAULT else -1),
                            gn_createtime = now\<rparr>;
                      st = gnr_node__hash_add gn (st\<lparr>gs_next := Suc (gs_next st)\<rparr>);
                      t = gs_nodestats st;
                      st = st\<lparr>gs_nodestats := stats_inc metric (t\<lparr>ns_total := ns_total t + 1\<rparr>)\<rparr>;
                      st = gnr_event_throw_withnode GNR_EVENT_NODEUP gn None st
                  in (Some gn, st)))
      | _ \<Rightarrow> (None, st))"

text \<open>The operations on a node through its pointer: \<open>a\<close> is the address, \<open>None\<close> for a null pointer.
  An address that is not in the table is a dangling pointer.\<close>

definition node_at :: "nat \<Rightarrow> gnr_state \<Rightarrow> gnrnode option" where
  "node_at a st = List.find (\<lambda>gn. gn_addr gn = a) (all_nodes st)"

definition node_update :: "nat \<Rightarrow> (gnrnode \<Rightarrow> gnrnode) \<Rightarrow> gnr_state \<Rightarrow> gnr_state" where
  "node_update a f st =
     st\<lparr>gs_nodehash := map (map (\<lambda>gn. if gn_addr gn = a then f gn else gn)) (gs_nodehash st)\<rparr>"

definition gnr_node_usehit :: "int \<Rightarrow> nat option \<Rightarrow> gnr_state \<Rightarrow> gnr_state option" where
  "gnr_node_usehit now gn st =
     (case gn of
        None \<Rightarrow> Some st
      | Some a \<Rightarrow> do { n \<leftarrow> node_at a st; Some (node_update a (\<lambda>n. n\<lparr>gn_lastuse := now\<rparr>) st) })"

definition gnr_node_remetric :: "int \<Rightarrow> nat option \<Rightarrow> int \<Rightarrow> gnr_state \<Rightarrow> (int \<times> gnr_state) option" where
  "gnr_node_remetric now gn newmetric st =
     (case gn of
        None \<Rightarrow> Some (-1, st)
      | Some a \<Rightarrow> do {
          n \<leftarrow> node_at a st;
          let st = st\<lparr>gs_nodestats := stats_dec (gn_metric n) (gs_nodestats st)\<rparr>;
          let st = node_update a (\<lambda>n. n\<lparr>gn_metric := newmetric\<rparr>) st;
          let st = st\<lparr>gs_nodestats := stats_inc newmetric (gs_nodestats st)\<rparr>;
          let st = node_update a (\<lambda>n. n\<lparr>gn_ttl :=
                     (if newmetric = GNR_NODE_METRIC_LOCAL then -1 else GNR_NODE_TTL_DEFAULT)\<rparr>) st;
          st \<leftarrow> gnr_node_usehit now gn st;
          Some (0, st)
        })"

definition gnr_node_setttl :: "nat option \<Rightarrow> int \<Rightarrow> gnr_state \<Rightarrow> (int \<times> gnr_state) option" where
  "gnr_node_setttl gn newttl st =
     (case gn of
        None \<Rightarrow> Some (-1, st)
      | Some a \<Rightarrow> do {
          n \<leftarrow> node_at a st;
          if gn_metric n = GNR_NODE_METRIC_LOCAL then Some (0, st)
          else Some (0, node_update a (\<lambda>n. n\<lparr>gn_ttl :=
                 (if newttl = -1 then GNR_NODE_TTL_DEFAULT else newttl)\<rparr>) st)
        })"

definition gnr_node_offline :: "nat \<Rightarrow> int \<Rightarrow> gnr_state \<Rightarrow> (int \<times> gnr_state) option" where
  "gnr_node_offline a reason st = do {
     gn \<leftarrow> node_at a st;
     let (r, st) = gnr_node__hash_remove gn st;
     if map_option gn_addr r \<noteq> Some a then Some (-1, st)
     else Some (0, freenode gn reason st)
   }"

definition gnr_node_ref :: "nat option \<Rightarrow> gnr_state \<Rightarrow> gnr_state option" where
  "gnr_node_ref gn st =
     (case gn of
        None \<Rightarrow> Some st
      | Some a \<Rightarrow> do { n \<leftarrow> node_at a st; Some (node_update a (\<lambda>n. n\<lparr>gn_refcount := gn_refcount n + 1\<rparr>) st) })"

definition gnr_node_unref :: "nat option \<Rightarrow> gnr_state \<Rightarrow> gnr_state option" where
  "gnr_node_unref gn st =
     (case gn of
        None \<Rightarrow> Some st
      | Some a \<Rightarrow> do { n \<leftarrow> node_at a st; Some (node_update a (\<lambda>n. n\<lparr>gn_refcount := gn_refcount n - 1\<rparr>) st) })"

text \<open>Tags of a node: the tag operations on its list.\<close>

definition gnr_node_tag_add ::
    "allocator \<Rightarrow> nafmod option \<Rightarrow> nat option \<Rightarrow> bytes option \<Rightarrow> char \<Rightarrow> tagdata \<Rightarrow> gnr_state
       \<Rightarrow> (int \<times> gnr_state) option" where
  "gnr_node_tag_add mal md gn name type data st =
     (case gn of
        None \<Rightarrow> Some (-1, st)
      | Some a \<Rightarrow> do {
          n \<leftarrow> node_at a st;
          let (r, tags) = naf_tag_add mal (Some (gn_taglist n)) md name type data;
          tags \<leftarrow> tags;
          Some (r, node_update a (\<lambda>n. n\<lparr>gn_taglist := tags\<rparr>) st)
        })"

definition gnr_node_tag_remove ::
    "nafmod option \<Rightarrow> nat option \<Rightarrow> bytes option \<Rightarrow> gnr_state
       \<Rightarrow> (int \<times> (char \<times> tagdata) option \<times> gnr_state) option" where
  "gnr_node_tag_remove md gn name st =
     (case gn of
        None \<Rightarrow> Some (-1, None, st)
      | Some a \<Rightarrow> do {
          n \<leftarrow> node_at a st;
          let (r, out, tags) = naf_tag_remove (Some (gn_taglist n)) md name;
          tags \<leftarrow> tags;
          Some (r, out, node_update a (\<lambda>n. n\<lparr>gn_taglist := tags\<rparr>) st)
        })"

definition gnr_node_tag_ispresent :: "nafmod option \<Rightarrow> nat option \<Rightarrow> bytes option \<Rightarrow> gnr_state \<Rightarrow> int option" where
  "gnr_node_tag_ispresent md gn name st =
     (case gn of
        None \<Rightarrow> Some (-1)
      | Some a \<Rightarrow> do { n \<leftarrow> node_at a st; Some (naf_tag_ispresent (Some (gn_taglist n)) md name) })"

definition gnr_node_tag_fetch ::
    "nafmod option \<Rightarrow> nat option \<Rightarrow> bytes option \<Rightarrow> gnr_state \<Rightarrow> (int \<times> (char \<times> tagdata) option) option" where
  "gnr_node_tag_fetch md gn name st =
     (case gn of
        None \<Rightarrow> Some (-1, None)
      | Some a \<Rightarrow> do { n \<leftarrow> node_at a st; Some (naf_tag_fetch (Some (gn_taglist n)) md name) })"

section \<open>Counting\<close>

definition count_nodes :: "(gnrnode \<Rightarrow> bool) \<Rightarrow> gnrnode list \<Rightarrow> naf_u32_t" where
  "count_nodes P ns = of_nat (length (filter P ns))"

definition is_local :: "gnrnode \<Rightarrow> bool" where "is_local gn \<longleftrightarrow> gn_metric gn = GNR_NODE_METRIC_LOCAL"
definition is_external :: "gnrnode \<Rightarrow> bool" where "is_external gn \<longleftrightarrow> gn_metric gn = GNR_NODE_METRIC_MAX"

text \<open>The statistics that describe a list of nodes.\<close>

definition stats_of :: "gnrnode list \<Rightarrow> nodestats" where
  "stats_of ns = \<lparr>ns_total = of_nat (length ns), ns_local = count_nodes is_local ns,
     ns_peered = count_nodes (\<lambda>gn. \<not> is_local gn \<and> \<not> is_external gn) ns,
     ns_external = count_nodes is_external ns\<rparr>"

lemma count_nodes_Cons:
  "count_nodes P (gn # ns) = (if P gn then count_nodes P ns + 1 else count_nodes P ns)"
  by (simp add: count_nodes_def)

lemma count_nodes_perm: "mset ns = mset ns' \<Longrightarrow> count_nodes P ns = count_nodes P ns'"
  unfolding count_nodes_def by (metis mset_filter size_mset)

lemma stats_of_perm: "mset ns = mset ns' \<Longrightarrow> stats_of ns = stats_of ns'"
  by (simp add: stats_of_def count_nodes_perm [of ns ns'] mset_eq_length [of ns ns'])

lemma stats_of_Cons:
  "stats_of (gn # ns) = (let s = stats_of ns in stats_inc (gn_metric gn) (s\<lparr>ns_total := ns_total s + 1\<rparr>))"
  by (simp add: stats_of_def stats_inc_def count_nodes_Cons is_local_def is_external_def)

lemma stats_dec_inc: "stats_dec m (stats_inc m s) = s"
  by (simp add: stats_dec_def stats_inc_def)

lemma stats_dec_total: "stats_dec m (s\<lparr>ns_total := t\<rparr>) = (stats_dec m s)\<lparr>ns_total := t\<rparr>"
  by (simp add: stats_dec_def)

lemma stats_total_simps [simp]:
  "ns_total (stats_inc m s) = ns_total s" "ns_total (stats_dec m s) = ns_total s"
  by (simp_all add: stats_inc_def stats_dec_def)

lemma stats_of_dec:
  "(let s = stats_of (gn # ns) in stats_dec (gn_metric gn) (s\<lparr>ns_total := ns_total s - 1\<rparr>)) = stats_of ns"
  by (simp add: stats_of_Cons Let_def stats_dec_total stats_dec_inc)

section \<open>Invariant\<close>

text \<open>Two nodes that answer to the same name and service.\<close>

definition same_node :: "gnrnode \<Rightarrow> gnrnode \<Rightarrow> bool" where
  "same_node a b \<longleftrightarrow> node_matches (gn_name b) (Some (gn_service b)) a"

text \<open>The properties of the set of nodes: distinct addresses below the next free one, no two nodes
  with the same name and service, local nodes never time out, sound tag lists.\<close>

definition nodes_ok :: "nat \<Rightarrow> gnrnode list \<Rightarrow> bool" where
  "nodes_ok nxt ns \<longleftrightarrow>
     distinct (map gn_addr ns) \<and>
     (\<forall>a \<in> set ns. \<forall>b \<in> set ns. same_node a b \<longrightarrow> gn_addr a = gn_addr b) \<and>
     (\<forall>a \<in> set ns. gn_addr a < nxt \<and> (is_local a \<longrightarrow> gn_ttl a = -1) \<and> tags_inv (gn_taglist a))"

lemma nodes_okI:
  assumes "distinct (map gn_addr ns)"
    "\<And>a b. a \<in> set ns \<Longrightarrow> b \<in> set ns \<Longrightarrow> same_node a b \<Longrightarrow> gn_addr a = gn_addr b"
    "\<And>a. a \<in> set ns \<Longrightarrow> gn_addr a < nxt" "\<And>a. a \<in> set ns \<Longrightarrow> is_local a \<Longrightarrow> gn_ttl a = -1"
    "\<And>a. a \<in> set ns \<Longrightarrow> tags_inv (gn_taglist a)"
  shows "nodes_ok nxt ns"
  unfolding nodes_ok_def using assms by blast

lemma nodes_okD:
  assumes "nodes_ok nxt ns"
  shows "distinct (map gn_addr ns)"
    "a \<in> set ns \<Longrightarrow> b \<in> set ns \<Longrightarrow> same_node a b \<Longrightarrow> gn_addr a = gn_addr b"
    "a \<in> set ns \<Longrightarrow> gn_addr a < nxt" "a \<in> set ns \<Longrightarrow> is_local a \<Longrightarrow> gn_ttl a = -1"
    "a \<in> set ns \<Longrightarrow> tags_inv (gn_taglist a)"
  using assms unfolding nodes_ok_def by blast+

definition hash_ok :: "gnrnode list list \<Rightarrow> bool" where
  "hash_ok h \<longleftrightarrow> length h = GNR_NODE_HASH_SIZE \<and>
     (\<forall>i < GNR_NODE_HASH_SIZE. \<forall>gn \<in> set (h ! i). gnr_node__hash_getidx (gn_name gn) = i)"

definition gnr_inv :: "gnr_state \<Rightarrow> bool" where
  "gnr_inv st \<longleftrightarrow> hash_ok (gs_nodehash st) \<and> nodes_ok (gs_next st) (all_nodes st) \<and>
     gs_nodestats st = stats_of (all_nodes st)"

lemma gnr_invD:
  assumes "gnr_inv st"
  shows "length (gs_nodehash st) = GNR_NODE_HASH_SIZE" "hash_ok (gs_nodehash st)"
    "nodes_ok (gs_next st) (all_nodes st)" "gs_nodestats st = stats_of (all_nodes st)"
    "distinct (map gn_addr (all_nodes st))"
  using assms by (simp_all add: gnr_inv_def hash_ok_def nodes_ok_def)

lemma nodes_ok_perm:
  assumes "mset ns = mset ns'" "nodes_ok nxt ns" shows "nodes_ok nxt ns'"
proof -
  have "mset (map gn_addr ns) = mset (map gn_addr ns')" using assms(1) by simp
  then have "distinct (map gn_addr ns) = distinct (map gn_addr ns')" by (rule mset_eq_imp_distinct_iff)
  moreover have "set ns = set ns'" using assms(1) by (rule mset_eq_setD)
  ultimately show ?thesis using assms(2) by (simp add: nodes_ok_def)
qed

lemma nodes_ok_filter: "nodes_ok nxt ns \<Longrightarrow> nodes_ok nxt (filter P ns)"
  by (auto simp: nodes_ok_def distinct_map_filter)

lemma nodes_ok_Cons:
  "nodes_ok nxt (gn # ns) \<Longrightarrow> nodes_ok nxt ns"
  by (simp add: nodes_ok_def)

lemma mset_concat_update:
  assumes "i < length h"
  shows "mset (concat (h[i := c])) + mset (h ! i) = mset (concat h) + mset c"
  using assms
proof (induction h arbitrary: i)
  case (Cons x h)
  then show ?case by (cases i) (auto simp: ac_simps)
qed simp

lemma bucket_eq: "gnr_inv st \<Longrightarrow> i < GNR_NODE_HASH_SIZE \<Longrightarrow> bucket st i = gs_nodehash st ! i"
  by (simp add: bucket_def gnr_invD(1))

lemma in_bucket_iff:
  assumes "gnr_inv st"
  shows "gn \<in> set (bucket st (gnr_node__hash_getidx (gn_name gn))) \<longleftrightarrow> gn \<in> set (all_nodes st)"
proof
  assume "gn \<in> set (bucket st (gnr_node__hash_getidx (gn_name gn)))"
  then show "gn \<in> set (all_nodes st)"
    using gnr_invD(1) [OF assms] nth_mem [of "gnr_node__hash_getidx (gn_name gn)" "gs_nodehash st"]
    by (auto simp: bucket_eq [OF assms] all_nodes_def simp del: nth_mem)
next
  assume "gn \<in> set (all_nodes st)"
  then obtain c where "c \<in> set (gs_nodehash st)" "gn \<in> set c" by (auto simp: all_nodes_def)
  then obtain i where "i < length (gs_nodehash st)" "gn \<in> set (gs_nodehash st ! i)"
    by (metis in_set_conv_nth)
  moreover from this have "gnr_node__hash_getidx (gn_name gn) = i"
    using gnr_invD(1,2) [OF assms] by (auto simp: hash_ok_def)
  ultimately show "gn \<in> set (bucket st (gnr_node__hash_getidx (gn_name gn)))"
    by (simp add: bucket_def)
qed

section \<open>Lookup\<close>

text \<open>Looking into one chain is as good as looking through the whole table.\<close>

lemma matches_bucket:
  assumes "gnr_inv st" "gn \<in> set (all_nodes st)" "node_matches n sv gn"
  shows "gn \<in> set (bucket st (gnr_node__hash_getidx n))"
proof -
  have "gnr_node__hash_getidx (gn_name gn) = gnr_node__hash_getidx n"
    using assms(3) by (intro hash_namecmp) (simp add: node_matches_def)
  with in_bucket_iff [OF assms(1), of gn] assms(2) show ?thesis by simp
qed

lemma bucket_subset: "set (bucket st i) \<subseteq> set (all_nodes st)"
  by (auto simp: bucket_def all_nodes_def intro: bexI [OF _ nth_mem])

lemma findbyname_None:
  assumes "gnr_inv st"
  shows "gnr_node_findbyname (Some n) sv st = None \<longleftrightarrow> \<not> (\<exists>gn \<in> set (all_nodes st). node_matches n sv gn)"
  unfolding gnr_node_findbyname_def option.case find_None_iff
  using matches_bucket [OF assms] bucket_subset by blast

lemma findbyname_Some:
  assumes "gnr_node_findbyname (Some n) sv st = Some gn"
  shows "gn \<in> set (all_nodes st) \<and> node_matches n sv gn"
proof -
  have "gn \<in> set (bucket st (gnr_node__hash_getidx n)) \<and> node_matches n sv gn"
    using assms unfolding gnr_node_findbyname_def find_Some_iff option.case by (metis nth_mem)
  with bucket_subset show ?thesis by blast
qed

lemma node_matches_same:
  assumes "node_matches n (Some s) a" "node_matches n (Some s) b" shows "same_node a b"
proof -
  have "gnr_node_namecmp (gn_name a) (gn_name b) = 0"
    using assms namecmp_trans [of "gn_name a" n "gn_name b"] namecmp_sym [of n "gn_name b"]
    by (simp add: node_matches_def)
  with assms show ?thesis by (simp add: same_node_def node_matches_def strcasecmp_eq_def)
qed

lemma nodes_addr_inj:
  "nodes_ok nxt ns \<Longrightarrow> a \<in> set ns \<Longrightarrow> b \<in> set ns \<Longrightarrow> gn_addr a = gn_addr b \<Longrightarrow> a = b"
  by (auto simp: nodes_ok_def distinct_map inj_on_def)

lemma findbyname_iff:
  assumes inv: "gnr_inv st"
  shows "gnr_node_findbyname (Some n) (Some s) st = Some gn \<longleftrightarrow>
    gn \<in> set (all_nodes st) \<and> node_matches n (Some s) gn"
proof
  assume R: "gn \<in> set (all_nodes st) \<and> node_matches n (Some s) gn"
  then obtain gn' where gn': "gnr_node_findbyname (Some n) (Some s) st = Some gn'"
    using findbyname_None [OF inv] by blast
  then have "gn' \<in> set (all_nodes st)" "node_matches n (Some s) gn'" by (auto dest: findbyname_Some)
  with R have "same_node gn' gn" by (blast intro: node_matches_same)
  with R \<open>gn' \<in> set (all_nodes st)\<close> have "gn_addr gn' = gn_addr gn"
    using gnr_invD(3) [OF inv] unfolding nodes_ok_def by blast
  with R \<open>gn' \<in> set (all_nodes st)\<close> have "gn' = gn"
    using nodes_addr_inj [OF gnr_invD(3) [OF inv]] by blast
  with gn' show "gnr_node_findbyname (Some n) (Some s) st = Some gn" by simp
qed (rule findbyname_Some)

lemma node_at_iff:
  assumes "gnr_inv st"
  shows "node_at a st = Some gn \<longleftrightarrow> gn \<in> set (all_nodes st) \<and> gn_addr gn = a"
proof
  assume R: "gn \<in> set (all_nodes st) \<and> gn_addr gn = a"
  then obtain gn' where gn': "node_at a st = Some gn'"
    by (cases "node_at a st") (auto simp: node_at_def find_None_iff)
  then have "gn' \<in> set (all_nodes st)" "gn_addr gn' = a" by (auto simp: node_at_def find_Some_iff)
  with R have "gn' = gn" using nodes_addr_inj [OF gnr_invD(3) [OF assms], of gn' gn] by simp
  with gn' show "node_at a st = Some gn" by simp
next
  assume "node_at a st = Some gn"
  then show "gn \<in> set (all_nodes st) \<and> gn_addr gn = a" by (auto simp: node_at_def find_Some_iff)
qed

section \<open>Freeing\<close>

text \<open>The calls that freeing a node makes: first the handlers interested in the event, then the
  destructors of its tags.\<close>

definition event_calls :: "gnr_event_info \<Rightarrow> gnr_state \<Rightarrow> gnr_call list" where
  "event_calls gei st =
     map (\<lambda>evh. EventCall (evh_func evh) (evh_mod evh) gei)
       (filter (\<lambda>evh. evh_evmask evh AND gei_event gei \<noteq> 0) (gs_evhlist st))"

definition free_calls :: "gnrnode \<Rightarrow> int \<Rightarrow> gnr_state \<Rightarrow> gnr_call list" where
  "free_calls gn reason st =
     event_calls \<lparr>gei_event = GNR_EVENT_NODEDOWN, gei_node = gn, gei_extinfo = Some reason\<rparr> st @
     map (\<lambda>t. FreeTagCall (tag_owner t) gn (tag_name t) (tag_type t) (tag_data t))
       (filter (gs_freetag st \<circ> tag_owner) (gn_taglist gn))"

lemma event_throw_loop_eq:
  "event_throw_loop gei evhs calls =
     calls @ map (\<lambda>evh. EventCall (evh_func evh) (evh_mod evh) gei)
       (filter (\<lambda>evh. evh_evmask evh AND gei_event gei \<noteq> 0) evhs)"
  by (induction evhs arbitrary: calls) auto

lemma gnr_event_throw_eq: "gnr_event_throw gei st = st\<lparr>gs_calls := gs_calls st @ event_calls gei st\<rparr>"
  by (simp add: gnr_event_throw_def event_throw_loop_eq event_calls_def)

lemma freelist_calls:
  "naf_tag_freelist (\<lambda>m. if has m then Some (\<lambda>calls name type data. calls @ [FreeTagCall m gn name type data])
      else None) tags calls =
   calls @ map (\<lambda>t. FreeTagCall (tag_owner t) gn (tag_name t) (tag_type t) (tag_data t))
     (filter (has \<circ> tag_owner) tags)"
  by (induction tags arbitrary: calls) auto

lemma freenode_eq:
  "freenode gn reason st =
     st\<lparr>gs_nodestats := (let s = gs_nodestats st in
           stats_dec (gn_metric gn) (s\<lparr>ns_total := ns_total s - 1\<rparr>)),
        gs_calls := gs_calls st @ free_calls gn reason st\<rparr>"
  by (simp add: freenode_def Let_def gnr_event_throw_withnode_def gnr_event_throw_eq freelist_calls
      free_calls_def)

text \<open>Freeing several nodes one after the other.\<close>

definition free_all :: "int \<Rightarrow> gnrnode list \<Rightarrow> gnr_state \<Rightarrow> gnr_state" where
  "free_all reason gns st = fold (\<lambda>gn. freenode gn reason) gns st"

lemma free_all_simps [simp]:
  "free_all reason [] st = st"
  "free_all reason (gn # gns) st = free_all reason gns (freenode gn reason st)"
  "free_all reason (gns @ gns') st = free_all reason gns' (free_all reason gns st)"
  by (simp_all add: free_all_def)

lemma free_all_frame [simp]:
  "gs_nodehash (free_all reason gns st) = gs_nodehash st"
  "gs_evhlist (free_all reason gns st) = gs_evhlist st"
  "gs_freetag (free_all reason gns st) = gs_freetag st"
  "gs_next (free_all reason gns st) = gs_next st"
  by (induction gns arbitrary: st) (simp_all add: freenode_eq)

lemma free_calls_cong:
  "gs_evhlist st = gs_evhlist st' \<Longrightarrow> gs_freetag st = gs_freetag st' \<Longrightarrow>
     free_calls gn reason st = free_calls gn reason st'"
  by (simp add: free_calls_def event_calls_def)

lemma freenode_nodehash:
  "freenode gn reason (st\<lparr>gs_nodehash := h\<rparr>) = (freenode gn reason st)\<lparr>gs_nodehash := h\<rparr>"
  by (simp add: freenode_eq free_calls_cong [of "st\<lparr>gs_nodehash := h\<rparr>" st])

lemma free_all_nodehash:
  "free_all reason gns (st\<lparr>gs_nodehash := h\<rparr>) = (free_all reason gns st)\<lparr>gs_nodehash := h\<rparr>"
  by (induction gns arbitrary: st) (simp_all add: freenode_nodehash)

lemma free_all_calls:
  "gs_calls (free_all reason gns st) = gs_calls st @ concat (map (\<lambda>gn. free_calls gn reason st) gns)"
proof (induction gns arbitrary: st)
  case (Cons gn gns)
  have "free_calls g reason (freenode gn reason st) = free_calls g reason st" for g
    by (rule free_calls_cong) (simp_all add: freenode_eq)
  with Cons show ?case by (simp add: freenode_eq)
qed simp

lemma free_all_stats:
  "gs_nodestats st = stats_of (gns @ ns) \<Longrightarrow> gs_nodestats (free_all reason gns st) = stats_of ns"
proof (induction gns arbitrary: st)
  case (Cons gn gns)
  have "gs_nodestats (freenode gn reason st) = stats_of (gns @ ns)"
    using stats_of_dec [of gn "gns @ ns"] Cons.prems by (simp add: freenode_eq)
  with Cons.IH show ?case by simp
qed simp

lemma sweep_chain_eq:
  "sweep_chain sel reason chain st =
     (filter (\<lambda>gn. \<not> sel gn) chain, free_all reason (filter sel chain) st)"
  by (induction chain arbitrary: st) simp_all

lemma sweep_from_eq:
  assumes "length (gs_nodehash st) = GNR_NODE_HASH_SIZE" "n \<le> GNR_NODE_HASH_SIZE"
  shows "sweep_from sel reason n st =
    (free_all reason (filter sel (concat (drop (GNR_NODE_HASH_SIZE - n) (gs_nodehash st)))) st)
      \<lparr>gs_nodehash := take (GNR_NODE_HASH_SIZE - n) (gs_nodehash st) @
         map (filter (\<lambda>gn. \<not> sel gn)) (drop (GNR_NODE_HASH_SIZE - n) (gs_nodehash st))\<rparr>"
  using assms
proof (induction n arbitrary: st)
  case 0
  then show ?case by simp
next
  case (Suc n)
  define i where "i = GNR_NODE_HASH_SIZE - Suc n"
  let ?h = "gs_nodehash st"
  let ?c = "filter (\<lambda>gn. \<not> sel gn) (?h ! i)"
  have i: "i < length ?h" and i': "GNR_NODE_HASH_SIZE - n = Suc i" using Suc.prems by (auto simp: i_def)
  let ?st = "(free_all reason (filter sel (?h ! i)) st)\<lparr>gs_nodehash := ?h[i := ?c]\<rparr>"
  have step: "sweep_from sel reason (Suc n) st = sweep_from sel reason n ?st"
    using i unfolding sweep_from.simps i_def [symmetric] by (simp add: Let_def sweep_chain_eq bucket_def)
  have dr: "drop i ?h = ?h ! i # drop (Suc i) ?h" using i by (simp add: Cons_nth_drop_Suc)
  have tk: "take (Suc i) (?h[i := ?c]) = take i ?h @ [?c]"
    using i by (simp add: take_Suc_conv_app_nth)
  have "length (gs_nodehash ?st) = GNR_NODE_HASH_SIZE" "n \<le> GNR_NODE_HASH_SIZE" using Suc.prems by simp_all
  from Suc.IH [OF this] show ?case
    unfolding step i' i_def [symmetric] dr using tk by (simp add: free_all_nodehash)
qed

lemma sweep_eq:
  assumes "length (gs_nodehash st) = GNR_NODE_HASH_SIZE"
  shows "sweep_from sel reason GNR_NODE_HASH_SIZE st =
    (free_all reason (filter sel (all_nodes st)) st)
      \<lparr>gs_nodehash := map (filter (\<lambda>gn. \<not> sel gn)) (gs_nodehash st)\<rparr>"
  using sweep_from_eq [OF assms, of GNR_NODE_HASH_SIZE sel reason] by (simp add: all_nodes_def)

lemma all_nodes_sweep:
  assumes "length (gs_nodehash st) = GNR_NODE_HASH_SIZE"
  shows "all_nodes (sweep_from sel reason GNR_NODE_HASH_SIZE st) = filter (\<lambda>gn. \<not> sel gn) (all_nodes st)"
  unfolding sweep_eq [OF assms] by (simp add: all_nodes_def filter_concat)

section \<open>Every operation keeps the invariant\<close>

lemma gnr_inv_sweep:
  assumes inv: "gnr_inv st"
  shows "gnr_inv (sweep_from sel reason GNR_NODE_HASH_SIZE st)"
proof -
  note D = gnr_invD [OF inv]
  let ?st = "sweep_from sel reason GNR_NODE_HASH_SIZE st"
  have "hash_ok (gs_nodehash ?st)"
    using D(2) by (auto simp: sweep_eq [OF D(1)] hash_ok_def)
  moreover have "nodes_ok (gs_next ?st) (all_nodes ?st)"
    unfolding all_nodes_sweep [OF D(1)] using nodes_ok_filter [OF D(3)] by (simp add: sweep_eq [OF D(1)])
  moreover have "gs_nodestats ?st = stats_of (all_nodes ?st)"
  proof -
    have "mset (all_nodes st) = mset (filter sel (all_nodes st) @ filter (\<lambda>gn. \<not> sel gn) (all_nodes st))"
      by simp
    then have "gs_nodestats st = stats_of (filter sel (all_nodes st) @ filter (\<lambda>gn. \<not> sel gn) (all_nodes st))"
      using D(4) stats_of_perm by metis
    then show ?thesis
      unfolding all_nodes_sweep [OF D(1)] by (simp add: sweep_eq [OF D(1)] free_all_stats)
  qed
  ultimately show ?thesis by (simp add: gnr_inv_def)
qed

lemma mset_hash_add:
  assumes "length (gs_nodehash st) = GNR_NODE_HASH_SIZE"
  shows "mset (all_nodes (gnr_node__hash_add gn st)) = mset (gn # all_nodes st)"
  using mset_concat_update [of "gnr_node__hash_getidx (gn_name gn)" "gs_nodehash st"
      "gn # bucket st (gnr_node__hash_getidx (gn_name gn))"] assms
  by (simp add: gnr_node__hash_add_def Let_def all_nodes_def bucket_def)

lemma hash_ok_update:
  assumes "hash_ok h" "\<forall>gn \<in> set c. gnr_node__hash_getidx (gn_name gn) = i"
  shows "hash_ok (h[i := c])"
  using assms by (cases "i < length h") (auto simp: hash_ok_def nth_list_update split: if_splits)

lemma gnr_node_online_new:
  assumes "gnr_node_findbyname (Some n) (Some s) st = None"
    "mal sizeof_gnrnode \<noteq> None" "mal (length n + 1) \<noteq> None" "mal (length s + 1) \<noteq> None"
  obtains gn where "gn_name gn = n" "gn_service gn = s" "gn_metric gn = metric" "gn_addr gn = gs_next st"
    "gn_ttl gn = (if metric > 0 then 30 else -1)" "gn_taglist gn = []" "gn_refcount gn = 0"
    "gn_lastuse gn = now" "gn_ownermod gn = own"
    "gnr_node_online mal now (Some own) (Some n) (Some s) flags metric st =
      (Some gn, (gnr_node__hash_add gn st)\<lparr>gs_next := Suc (gs_next st),
         gs_nodestats := (let t = gs_nodestats st in stats_inc metric (t\<lparr>ns_total := ns_total t + 1\<rparr>)),
         gs_calls := gs_calls st @ event_calls \<lparr>gei_event = GNR_EVENT_NODEUP, gei_node = gn, gei_extinfo = None\<rparr> st\<rparr>)"
proof -
  let ?gn = "\<lparr>gn_addr = gs_next st, gn_name = n, gn_service = s, gn_flags = flags,
     gn_metric = metric, gn_ownermod = own, gn_taglist = [], gn_refcount = 0, gn_lastuse = now,
     gn_ttl = (if metric > 0 then 30 else -1), gn_createtime = now\<rparr>"
  show ?thesis
    using assms
    by (intro that [of ?gn])
       (simp_all add: gnr_node_online_def Let_def gnr_event_throw_withnode_def gnr_event_throw_eq
          gnr_node__hash_add_def bucket_def event_calls_def)
qed

lemma nodes_ok_push:
  assumes "nodes_ok nxt ns" "gn_addr gn = nxt" "is_local gn \<Longrightarrow> gn_ttl gn = -1" "tags_inv (gn_taglist gn)"
    and "\<And>a. a \<in> set ns \<Longrightarrow> \<not> same_node a gn \<and> \<not> same_node gn a"
  shows "nodes_ok (Suc nxt) (gn # ns)"
proof -
  note D = nodes_okD [OF assms(1)]
  have "gn_addr gn \<notin> set (map gn_addr ns)" using assms(2) D(3) by fastforce
  with D(1) have dist: "distinct (map gn_addr (gn # ns))" by simp
  show ?thesis
  proof (rule nodes_okI [OF dist])
    fix a b assume ab: "a \<in> set (gn # ns)" "b \<in> set (gn # ns)" "same_node a b"
    from ab(1,2) consider "a = gn" "b = gn" | "a = gn" "b \<in> set ns" | "a \<in> set ns" "b = gn"
      | "a \<in> set ns" "b \<in> set ns" by auto
    then show "gn_addr a = gn_addr b" using ab(3) assms(5) D(2) by cases blast+
  next
    fix a assume a: "a \<in> set (gn # ns)"
    then show "gn_addr a < Suc nxt" using D(3) [of a] assms(2) by auto
    show "gn_ttl a = -1" if "is_local a" using that a assms(3) D(4) by auto
    show "tags_inv (gn_taglist a)" using a assms(4) D(5) by auto
  qed
qed

lemma gnr_inv_online:
  assumes inv: "gnr_inv st"
  shows "gnr_inv (snd (gnr_node_online mal now owner name service flags metric st))"
proof (cases "\<exists>own n s. owner = Some own \<and> name = Some n \<and> service = Some s \<and>
    gnr_node_findbyname (Some n) (Some s) st = None \<and> mal sizeof_gnrnode \<noteq> None \<and>
    mal (length n + 1) \<noteq> None \<and> mal (length s + 1) \<noteq> None")
  case False
  then have "snd (gnr_node_online mal now owner name service flags metric st) = st"
    by (auto simp: gnr_node_online_def split: option.splits)
  with inv show ?thesis by simp
next
  case True
  then obtain own n s where args: "owner = Some own" "name = Some n" "service = Some s"
    and none: "gnr_node_findbyname (Some n) (Some s) st = None"
    and mal: "mal sizeof_gnrnode \<noteq> None" "mal (length n + 1) \<noteq> None" "mal (length s + 1) \<noteq> None"
    by blast
  note D = gnr_invD [OF inv]
  from none mal show ?thesis
  proof (rule gnr_node_online_new [where metric = metric and now = now and own = own and flags = flags])
    fix gn
    assume gn: "gn_name gn = n" "gn_service gn = s" "gn_metric gn = metric" "gn_addr gn = gs_next st"
      "gn_ttl gn = (if metric > 0 then 30 else -1)" "gn_taglist gn = []"
      and eq: "gnr_node_online mal now (Some own) (Some n) (Some s) flags metric st =
      (Some gn, (gnr_node__hash_add gn st)\<lparr>gs_next := Suc (gs_next st),
         gs_nodestats := (let t = gs_nodestats st in stats_inc metric (t\<lparr>ns_total := ns_total t + 1\<rparr>)),
         gs_calls := gs_calls st @ event_calls \<lparr>gei_event = GNR_EVENT_NODEUP, gei_node = gn, gei_extinfo = None\<rparr> st\<rparr>)"
    let ?st = "snd (gnr_node_online mal now (Some own) (Some n) (Some s) flags metric st)"
    have all: "mset (all_nodes ?st) = mset (gn # all_nodes st)"
      using mset_hash_add [OF D(1), of gn] by (simp add: eq all_nodes_def)
    have other: "\<not> same_node a gn \<and> \<not> same_node gn a" if "a \<in> set (all_nodes st)" for a
    proof -
      have "\<not> node_matches n (Some s) a" using that none findbyname_None [OF inv] by blast
      then show ?thesis
        using namecmp_sym [of "gn_name a" n] gn(1,2)
        by (auto simp: same_node_def node_matches_def strcasecmp_eq_def)
    qed
    have "nodes_ok (Suc (gs_next st)) (gn # all_nodes st)"
      using gn by (intro nodes_ok_push [OF D(3)] other) (simp_all add: tags_inv_def is_local_def)
    then have "nodes_ok (gs_next ?st) (all_nodes ?st)"
      using nodes_ok_perm [OF all [symmetric]] by (simp add: eq)
    moreover have "hash_ok (gs_nodehash ?st)"
    proof -
      have "\<forall>g \<in> set (bucket st (gnr_node__hash_getidx n)). gnr_node__hash_getidx (gn_name g) = gnr_node__hash_getidx n"
        using D(1,2) by (simp add: bucket_def hash_ok_def)
      with D(2) gn(1) show ?thesis by (simp add: eq gnr_node__hash_add_def Let_def hash_ok_update)
    qed
    moreover have "gs_nodestats ?st = stats_of (gn # all_nodes st)"
      using D(4) gn(3) by (simp add: eq stats_of_Cons)
    ultimately show ?thesis
      unfolding args gnr_inv_def using stats_of_perm [OF all] by simp
  qed
qed

lemma gnr_inv_calls [simp]: "gnr_inv (st\<lparr>gs_calls := c\<rparr>) = gnr_inv st"
  "gnr_inv (st\<lparr>gs_evhlist := e\<rparr>) = gnr_inv st"
  by (simp_all add: gnr_inv_def all_nodes_def)

lemma remove_node_mset:
  assumes inv: "gnr_inv st" and gn: "gn \<in> set (all_nodes st)"
  obtains st' where "gnr_node__hash_remove gn st = (Some gn, st')"
    "mset (gn # all_nodes st') = mset (all_nodes st)" "hash_ok (gs_nodehash st')"
    "gs_next st' = gs_next st" "gs_nodestats st' = gs_nodestats st" "gs_calls st' = gs_calls st"
    "gs_evhlist st' = gs_evhlist st" "gs_freetag st' = gs_freetag st"
proof -
  let ?i = "gnr_node__hash_getidx (gn_name gn)" and ?P = "\<lambda>cur. gn_addr cur = gn_addr gn"
  have b: "gn \<in> set (bucket st ?i)" using in_bucket_iff [OF inv] gn by blast
  have "List.find ?P (bucket st ?i) = Some gn"
  proof -
    obtain g where g: "List.find ?P (bucket st ?i) = Some g"
      using b by (cases "List.find ?P (bucket st ?i)") (auto simp: find_None_iff)
    then have "g \<in> set (bucket st ?i)" "gn_addr g = gn_addr gn" unfolding find_Some_iff by (metis nth_mem)+
    with bucket_subset gn have "g = gn" using nodes_addr_inj [OF gnr_invD(3) [OF inv]] by blast
    with g show ?thesis by simp
  qed
  from unlink_first_split [OF this] obtain ys zs where
    split: "bucket st ?i = ys @ gn # zs" "snd (unlink_first ?P (bucket st ?i)) = ys @ zs" by blast
  then have unl: "unlink_first ?P (bucket st ?i) = (Some gn, ys @ zs)"
    using \<open>List.find ?P (bucket st ?i) = Some gn\<close> by (simp add: prod_eq_iff)
  let ?st = "st\<lparr>gs_nodehash := (gs_nodehash st)[?i := ys @ zs]\<rparr>"
  have "gnr_node__hash_remove gn st = (Some gn, ?st)"
    by (simp add: gnr_node__hash_remove_def Let_def unl)
  moreover have "mset (gn # all_nodes ?st) = mset (all_nodes st)"
    using mset_concat_update [of ?i "gs_nodehash st" "ys @ zs"] gnr_invD(1) [OF inv] split(1)
    by (simp add: all_nodes_def bucket_def)
  moreover have "hash_ok (gs_nodehash ?st)"
  proof -
    have "\<forall>g \<in> set (bucket st ?i). gnr_node__hash_getidx (gn_name g) = ?i"
      using gnr_invD(1,2) [OF inv] by (simp add: bucket_def hash_ok_def)
    with split(1) show ?thesis using gnr_invD(2) [OF inv] by (simp add: hash_ok_update)
  qed
  ultimately show ?thesis by (intro that [of ?st]) simp_all
qed

lemma gnr_node_offline_eq:
  assumes inv: "gnr_inv st" and gn: "gn \<in> set (all_nodes st)"
  obtains st' where "gnr_node_offline (gn_addr gn) reason st = Some (0, st')" "gnr_inv st'"
    "mset (gn # all_nodes st') = mset (all_nodes st)"
    "gs_calls st' = gs_calls st @ free_calls gn reason st"
proof (rule remove_node_mset [OF inv gn])
  fix st1
  assume st1: "gnr_node__hash_remove gn st = (Some gn, st1)"
    "mset (gn # all_nodes st1) = mset (all_nodes st)" "hash_ok (gs_nodehash st1)"
    "gs_next st1 = gs_next st" "gs_nodestats st1 = gs_nodestats st" "gs_calls st1 = gs_calls st"
    "gs_evhlist st1 = gs_evhlist st" "gs_freetag st1 = gs_freetag st"
  have at: "node_at (gn_addr gn) st = Some gn" using gn by (simp add: node_at_iff [OF inv])
  let ?st = "freenode gn reason st1"
  have "gnr_node_offline (gn_addr gn) reason st = Some (0, ?st)"
    by (simp add: gnr_node_offline_def at st1(1))
  moreover have "all_nodes ?st = all_nodes st1" by (simp add: freenode_eq all_nodes_def)
  moreover have "gnr_inv ?st"
  proof -
    have "nodes_ok (gs_next st) (all_nodes st1)"
      using nodes_ok_Cons nodes_ok_perm [OF st1(2) [symmetric] gnr_invD(3) [OF inv]] by blast
    moreover have "gs_nodestats ?st = stats_of (all_nodes st1)"
      using stats_of_dec [of gn "all_nodes st1"] stats_of_perm [OF st1(2)] gnr_invD(4) [OF inv] st1(5)
      by (simp add: freenode_eq)
    ultimately show ?thesis
      using st1(3,4) \<open>all_nodes ?st = all_nodes st1\<close> by (simp add: gnr_inv_def freenode_eq)
  qed
  moreover have "gs_calls ?st = gs_calls st @ free_calls gn reason st"
    using st1(6-8) free_calls_cong [of st1 st] by (simp add: freenode_eq)
  ultimately show ?thesis using st1(2) by (intro that [of ?st]) simp_all
qed

text \<open>Updates through a pointer that leave name, service and metric alone.\<close>

lemma all_nodes_update:
  "all_nodes (node_update a f st) = map (\<lambda>gn. if gn_addr gn = a then f gn else gn) (all_nodes st)"
  by (simp add: node_update_def all_nodes_def map_concat)

lemma hash_ok_node_update:
  assumes "hash_ok (gs_nodehash st)" "\<And>gn. gn_name (f gn) = gn_name gn"
  shows "hash_ok (gs_nodehash (node_update a f st))"
  using assms by (auto simp: hash_ok_def node_update_def)

lemma nodes_ok_node_update:
  assumes ok: "nodes_ok nxt ns"
    and keep: "\<And>gn. gn_name (f gn) = gn_name gn \<and> gn_service (f gn) = gn_service gn \<and> gn_addr (f gn) = gn_addr gn"
    and good: "\<And>gn. gn \<in> set ns \<Longrightarrow> gn_addr gn = a \<Longrightarrow>
      (is_local (f gn) \<longrightarrow> gn_ttl (f gn) = -1) \<and> tags_inv (gn_taglist (f gn))"
  shows "nodes_ok nxt (map (\<lambda>gn. if gn_addr gn = a then f gn else gn) ns)"
proof -
  define g where "g = (\<lambda>gn. if gn_addr gn = a then f gn else gn)"
  have g: "gn_addr (g gn) = gn_addr gn" "gn_name (g gn) = gn_name gn" "gn_service (g gn) = gn_service gn" for gn
    using keep by (auto simp: g_def)
  have same: "same_node (g x) (g y) = same_node x y" for x y
    by (simp add: same_node_def node_matches_def g)
  note D = nodes_okD [OF ok]
  have "distinct (map gn_addr (map g ns))" using D(1) by (simp add: g comp_def)
  then have "nodes_ok nxt (map g ns)"
    using D(2-5) good by (intro nodes_okI) (auto simp: same g, auto simp: g_def split: if_splits)
  then show ?thesis by (simp add: g_def)
qed

lemma gnr_inv_node_update:
  assumes inv: "gnr_inv st"
    and keep: "\<And>gn. gn_name (f gn) = gn_name gn \<and> gn_service (f gn) = gn_service gn \<and>
      gn_addr (f gn) = gn_addr gn \<and> gn_metric (f gn) = gn_metric gn"
    and good: "\<And>gn. gn \<in> set (all_nodes st) \<Longrightarrow> gn_addr gn = a \<Longrightarrow>
      (is_local gn \<longrightarrow> gn_ttl (f gn) = -1) \<and> tags_inv (gn_taglist (f gn))"
  shows "gnr_inv (node_update a f st)"
proof -
  have "stats_of (map (\<lambda>gn. if gn_addr gn = a then f gn else gn) ns) = stats_of ns" for ns
  proof (induction ns)
    case (Cons gn ns)
    then show ?case using keep by (simp add: stats_of_Cons)
  qed simp
  moreover have "nodes_ok (gs_next st) (map (\<lambda>gn. if gn_addr gn = a then f gn else gn) (all_nodes st))"
    using gnr_invD(3) [OF inv] keep good by (intro nodes_ok_node_update) (auto simp: is_local_def)
  moreover have "gs_next (node_update a f st) = gs_next st" "gs_nodestats (node_update a f st) = gs_nodestats st"
    by (simp_all add: node_update_def)
  ultimately show ?thesis
    using inv hash_ok_node_update [of st f a] keep by (simp add: gnr_inv_def all_nodes_update)
qed

text \<open>Changing the metric moves the node from one counter to another.\<close>

lemma stats_inc_dec_comm: "stats_inc m (stats_dec m' s) = stats_dec m' (stats_inc m s)"
  by (simp add: stats_inc_def stats_dec_def)

lemma stats_dec_Cons:
  "stats_dec (gn_metric gn) (stats_of (gn # ns)) = (stats_of ns)\<lparr>ns_total := of_nat (Suc (length ns))\<rparr>"
  by (simp add: stats_of_Cons Let_def stats_dec_inc) (simp add: stats_of_def)

lemma stats_of_remetric:
  assumes "gn \<in> set ns" "distinct (map gn_addr ns)" "gn_metric (f gn) = m"
  shows "stats_of (map (\<lambda>x. if gn_addr x = gn_addr gn then f x else x) ns) =
    stats_inc m (stats_dec (gn_metric gn) (stats_of ns))"
proof -
  obtain ys zs where ns: "ns = ys @ gn # zs" using assms(1) by (auto dest: split_list)
  have other: "map (\<lambda>x. if gn_addr x = gn_addr gn then f x else x) xs = xs"
    if "gn_addr gn \<notin> set (map gn_addr xs)" for xs
    using that by (induction xs) auto
  have "gn_addr gn \<notin> set (map gn_addr ys)" "gn_addr gn \<notin> set (map gn_addr zs)"
    using assms(2) unfolding ns by auto
  from other [OF this(1)] other [OF this(2)]
  have upd: "map (\<lambda>x. if gn_addr x = gn_addr gn then f x else x) ns = ys @ f gn # zs"
    unfolding ns by (simp only: map_append list.map if_True refl)
  have "stats_of ns = stats_of (gn # ys @ zs)" by (rule stats_of_perm) (simp add: ns)
  then have "stats_dec (gn_metric gn) (stats_of ns) =
      (stats_of (ys @ zs))\<lparr>ns_total := of_nat (Suc (length (ys @ zs)))\<rparr>"
    by (simp only: stats_dec_Cons)
  moreover have "stats_of (ys @ f gn # zs) = stats_of (f gn # ys @ zs)" by (rule stats_of_perm) simp
  ultimately show ?thesis
    unfolding upd by (simp add: stats_of_Cons assms(3) Let_def) (simp add: stats_of_def add.commute)
qed

lemma node_update_comp:
  "(\<And>gn. gn_addr (g gn) = gn_addr gn) \<Longrightarrow> node_update a f (node_update a g st) = node_update a (\<lambda>gn. f (g gn)) st"
  by (simp add: node_update_def cong: if_cong)

lemma node_update_stats:
  "node_update a f (st\<lparr>gs_nodestats := s\<rparr>) = (node_update a f st)\<lparr>gs_nodestats := s\<rparr>"
  "gs_nodestats (node_update a f st) = gs_nodestats st" "gs_next (node_update a f st) = gs_next st"
  by (simp_all add: node_update_def)

lemma node_at_update:
  assumes "node_at a st = Some gn" "\<And>gn. gn_addr (f gn) = gn_addr gn"
  shows "node_at a (node_update a f st) \<noteq> None"
proof -
  obtain x where "x \<in> set (all_nodes st)" "gn_addr x = a"
    using assms(1) unfolding node_at_def find_Some_iff by (metis nth_mem)
  then have "f x \<in> set (all_nodes (node_update a f st))" "gn_addr (f x) = a"
    using assms(2) by (auto simp: all_nodes_update)
  then show ?thesis unfolding node_at_def find_None_iff by blast
qed

lemma gnr_node_remetric_eq:
  assumes at: "node_at a st = Some gn"
  shows "gnr_node_remetric now (Some a) newmetric st =
    Some (0, (node_update a (\<lambda>n. n\<lparr>gn_metric := newmetric,
        gn_ttl := (if newmetric = GNR_NODE_METRIC_LOCAL then -1 else GNR_NODE_TTL_DEFAULT), gn_lastuse := now\<rparr>) st)
      \<lparr>gs_nodestats := stats_inc newmetric (stats_dec (gn_metric gn) (gs_nodestats st))\<rparr>)"
proof -
  let ?f = "\<lambda>n. n\<lparr>gn_metric := newmetric,
    gn_ttl := (if newmetric = GNR_NODE_METRIC_LOCAL then -1 else GNR_NODE_TTL_DEFAULT)\<rparr>"
  let ?s = "stats_inc newmetric (stats_dec (gn_metric gn) (gs_nodestats st))"
  obtain gn' where "node_at a ((node_update a ?f st)\<lparr>gs_nodestats := ?s\<rparr>) = Some gn'"
    using node_at_update [OF at, of ?f] by (auto simp: node_at_def all_nodes_def)
  then show ?thesis
    using at by (simp add: gnr_node_remetric_def gnr_node_usehit_def Let_def node_update_comp node_update_stats)
qed

lemma node_at_after_update:
  assumes "\<And>gn. gn_addr (f gn) = gn_addr gn"
  shows "node_at a (node_update b f st) = map_option (\<lambda>gn. if gn_addr gn = b then f gn else gn) (node_at a st)"
proof -
  have "List.find (\<lambda>gn. gn_addr gn = a) (map (\<lambda>gn. if gn_addr gn = b then f gn else gn) ns) =
      map_option (\<lambda>gn. if gn_addr gn = b then f gn else gn) (List.find (\<lambda>gn. gn_addr gn = a) ns)" for ns
    using assms by (induction ns) auto
  then show ?thesis by (simp add: node_at_def all_nodes_update)
qed

lemma gnr_inv_remetric:
  assumes inv: "gnr_inv st" and ret: "gnr_node_remetric now gn newmetric st = Some (r, st')"
  shows "gnr_inv st'"
proof (cases gn)
  case None
  with ret inv show ?thesis by (simp add: gnr_node_remetric_def)
next
  case (Some a)
  then obtain n where n: "node_at a st = Some n"
    using ret by (cases "node_at a st") (auto simp: gnr_node_remetric_def)
  then have mem: "n \<in> set (all_nodes st)" "gn_addr n = a" by (auto simp: node_at_iff [OF inv])
  let ?f = "\<lambda>n. n\<lparr>gn_metric := newmetric,
    gn_ttl := (if newmetric = GNR_NODE_METRIC_LOCAL then -1 else GNR_NODE_TTL_DEFAULT), gn_lastuse := now\<rparr>"
  have st': "st' = (node_update a ?f st)\<lparr>gs_nodestats := stats_inc newmetric (stats_dec (gn_metric n) (gs_nodestats st))\<rparr>"
    using ret unfolding Some gnr_node_remetric_eq [OF n] by simp
  have "stats_of (all_nodes (node_update a ?f st)) = stats_inc newmetric (stats_dec (gn_metric n) (gs_nodestats st))"
    unfolding all_nodes_update gnr_invD(4) [OF inv]
    using stats_of_remetric [OF mem(1) gnr_invD(5) [OF inv], of ?f newmetric] mem(2) by simp
  moreover have "nodes_ok (gs_next st) (all_nodes (node_update a ?f st))"
    unfolding all_nodes_update using gnr_invD(3) [OF inv] nodes_okD(5) [OF gnr_invD(3) [OF inv]]
    by (intro nodes_ok_node_update) (auto simp: is_local_def)
  moreover have "hash_ok (gs_nodehash (node_update a ?f st))"
    using gnr_invD(2) [OF inv] by (rule hash_ok_node_update) simp
  ultimately show ?thesis
    unfolding gnr_inv_def st' by (simp add: all_nodes_def node_update_stats)
qed

section \<open>Reachable states\<close>

text \<open>One call into the component; \<open>mal\<close>, \<open>now\<close> and the arguments are arbitrary, tag names are
  at most 64 characters long.\<close>

inductive gnr_step :: "gnr_state \<Rightarrow> gnr_state \<Rightarrow> bool" where
  online: "gnr_step st (snd (gnr_node_online mal now owner name service flags metric st))"
| offline: "gnr_node_offline a reason st = Some (r, st') \<Longrightarrow> gnr_step st st'"
| offline_many: "gnr_step st (gnr_node_offline_many matcher reason st)"
| timeout: "gnr_step st (gnr_node__hash_timeout now st)"
| hash_free: "gnr_step st (gnr_node__hash_free st)"
| usehit: "gnr_node_usehit now gn st = Some st' \<Longrightarrow> gnr_step st st'"
| remetric: "gnr_node_remetric now gn newmetric st = Some (r, st') \<Longrightarrow> gnr_step st st'"
| setttl: "gnr_node_setttl gn newttl st = Some (r, st') \<Longrightarrow> gnr_step st st'"
| ref: "gnr_node_ref gn st = Some st' \<Longrightarrow> gnr_step st st'"
| unref: "gnr_node_unref gn st = Some st' \<Longrightarrow> gnr_step st st'"
| tag_add: "gnr_node_tag_add mal md gn name type data st = Some (r, st') \<Longrightarrow>
    length (the name) \<le> MAXTAGNAMELEN \<Longrightarrow> gnr_step st st'"
| tag_remove: "gnr_node_tag_remove md gn name st = Some (r, out, st') \<Longrightarrow> gnr_step st st'"
| ev_register: "gnr_step st (snd (gnr_event_register mal md func evmask st))"
| ev_unregister: "gnr_step st (snd (gnr_event_unregister md func st))"

inductive gnr_reachable :: "gnr_state \<Rightarrow> bool" where
  init: "gs_nodestats st = stats_of [] \<Longrightarrow> gnr_reachable (gnr_node__hash_init st)"
| step: "gnr_reachable st \<Longrightarrow> gnr_step st st' \<Longrightarrow> gnr_reachable st'"

lemma gnr_inv_init: "gs_nodestats st = stats_of [] \<Longrightarrow> gnr_inv (gnr_node__hash_init st)"
  by (simp add: gnr_inv_def gnr_node__hash_init_def hash_ok_def all_nodes_def nodes_ok_def)

lemma gnr_inv_event:
  assumes "gnr_inv st"
  shows "gnr_inv (snd (gnr_event_register mal md func evmask st))" "gnr_inv (snd (gnr_event_unregister md func st))"
  using assms by (auto simp: gnr_event_register_def gnr_event_unregister_def split: option.splits)

lemma gnr_inv_pointer_ops:
  assumes inv: "gnr_inv st"
  shows "gnr_node_usehit now gn st = Some st' \<Longrightarrow> gnr_inv st'"
    "gnr_node_setttl gn newttl st = Some (r, st') \<Longrightarrow> gnr_inv st'"
    "gnr_node_ref gn st = Some st' \<Longrightarrow> gnr_inv st'"
    "gnr_node_unref gn st = Some st' \<Longrightarrow> gnr_inv st'"
proof -
  note D = nodes_okD [OF gnr_invD(3) [OF inv]]
  note upd = gnr_inv_node_update [OF inv]
  show "gnr_node_usehit now gn st = Some st' \<Longrightarrow> gnr_inv st'"
    using inv D(4,5) by (auto simp: gnr_node_usehit_def bind_eq_Some_conv split: option.splits intro!: upd)
  show "gnr_node_ref gn st = Some st' \<Longrightarrow> gnr_inv st'"
    using inv D(4,5) by (auto simp: gnr_node_ref_def bind_eq_Some_conv split: option.splits intro!: upd)
  show "gnr_node_unref gn st = Some st' \<Longrightarrow> gnr_inv st'"
    using inv D(4,5) by (auto simp: gnr_node_unref_def bind_eq_Some_conv split: option.splits intro!: upd)
  have one: "x = n" if "node_at a st = Some n" "x \<in> set (all_nodes st)" "gn_addr x = a" for x n a
    using that node_at_iff [OF inv] by (metis option.inject)
  have ttl: "gnr_inv (node_update a (\<lambda>n. n\<lparr>gn_ttl := t\<rparr>) st)"
    if "node_at a st = Some n" "gn_metric n \<noteq> GNR_NODE_METRIC_LOCAL" for a n t
    using that D(5) by (intro upd) (auto simp: is_local_def dest: one)
  show "gnr_node_setttl gn newttl st = Some (r, st') \<Longrightarrow> gnr_inv st'"
    using inv ttl by (auto simp: gnr_node_setttl_def bind_eq_Some_conv split: option.splits if_splits)
qed

lemma gnr_inv_tag_add:
  assumes inv: "gnr_inv st" and len: "length (the name) \<le> MAXTAGNAMELEN"
    and ret: "gnr_node_tag_add mal md gn name type data st = Some (r, st')"
  shows "gnr_inv st'"
proof (cases gn)
  case None
  with ret inv show ?thesis by (simp add: gnr_node_tag_add_def)
next
  case (Some a)
  then obtain n tags where n: "node_at a st = Some n"
    and tags: "snd (naf_tag_add mal (Some (gn_taglist n)) md name type data) = Some tags"
    and st': "st' = node_update a (\<lambda>n. n\<lparr>gn_taglist := tags\<rparr>) st"
    using ret by (auto simp: gnr_node_tag_add_def bind_eq_Some_conv case_prod_beta)
  have old: "tags_inv (gn_taglist n)"
    using n nodes_okD(5) [OF gnr_invD(3) [OF inv]] by (simp add: node_at_iff [OF inv])
  have "tags_inv tags"
  proof (cases "md = None \<or> name = None")
    case True
    with old tags show ?thesis by (auto simp: naf_tag_add_def badname_def)
  next
    case False
    then obtain m nm where "md = Some m" "name = Some nm" by auto
    with tags_inv_add [OF old, of nm mal m type data] len tags show ?thesis by auto
  qed
  then show ?thesis
    unfolding st' using nodes_okD(4) [OF gnr_invD(3) [OF inv]]
    by (intro gnr_inv_node_update [OF inv]) auto
qed

lemma gnr_inv_tag_remove:
  assumes inv: "gnr_inv st" and ret: "gnr_node_tag_remove md gn name st = Some (r, out, st')"
  shows "gnr_inv st'"
proof (cases gn)
  case None
  with ret inv show ?thesis by (simp add: gnr_node_tag_remove_def)
next
  case (Some a)
  then obtain n tags where n: "node_at a st = Some n"
    and tags: "snd (snd (naf_tag_remove (Some (gn_taglist n)) md name)) = Some tags"
    and st': "st' = node_update a (\<lambda>n. n\<lparr>gn_taglist := tags\<rparr>) st"
    using ret by (auto simp: gnr_node_tag_remove_def bind_eq_Some_conv case_prod_beta)
  have "tags_inv (gn_taglist n)"
    using n nodes_okD(5) [OF gnr_invD(3) [OF inv]] by (simp add: node_at_iff [OF inv])
  from tags_inv_remove [OF this, of md name] tags have "tags_inv tags" by auto
  then show ?thesis
    unfolding st' using nodes_okD(4) [OF gnr_invD(3) [OF inv]]
    by (intro gnr_inv_node_update [OF inv]) auto
qed

lemma gnr_inv_offline:
  assumes inv: "gnr_inv st" and ret: "gnr_node_offline a reason st = Some (r, st')"
  shows "gnr_inv st'"
proof -
  obtain gn where "node_at a st = Some gn" using ret by (auto simp: gnr_node_offline_def bind_eq_Some_conv)
  then have gn: "gn \<in> set (all_nodes st)" "gn_addr gn = a" by (auto simp: node_at_iff [OF inv])
  show ?thesis
    by (rule gnr_node_offline_eq [OF inv gn(1), where reason = reason]) (use ret gn(2) in auto)
qed

lemma gnr_inv_step: "gnr_step st st' \<Longrightarrow> gnr_inv st \<Longrightarrow> gnr_inv st'"
  by (induction rule: gnr_step.induct)
     (auto simp: gnr_inv_online gnr_inv_event gnr_node_offline_many_def gnr_node__hash_timeout_def
        gnr_node__hash_free_def gnr_inv_sweep split: option.splits
        intro: gnr_inv_offline gnr_inv_pointer_ops gnr_inv_remetric gnr_inv_tag_add gnr_inv_tag_remove)

lemma gnr_reachable_inv: "gnr_reachable st \<Longrightarrow> gnr_inv st"
  by (induction rule: gnr_reachable.induct) (auto intro: gnr_inv_init gnr_inv_step)

lemma gnr_node_online_found:
  assumes inv: "gnr_inv st" and mal: "total_alloc mal"
  shows "\<exists>gn st'. gnr_node_online mal now (Some own) (Some n) (Some s) flags metric st = (Some gn, st') \<and>
    gnr_node_findbyname (Some n) (Some s) st' = Some gn \<and>
    gnr_node_online mal now' (Some own') (Some n) (Some s) flags' metric' st' = (Some gn, st') \<and>
    (if gnr_node_findbyname (Some n) (Some s) st = None
     then gn_name gn = n \<and> gn_service gn = s \<and> gn_metric gn = metric \<and> gn_ownermod gn = own \<and>
          mset (all_nodes st') = mset (gn # all_nodes st)
     else st' = st)"
proof (cases "gnr_node_findbyname (Some n) (Some s) st")
  case (Some gn)
  then show ?thesis by (simp add: gnr_node_online_def)
next
  case None
  show ?thesis
  proof (rule gnr_node_online_new [OF None total_allocD(3) [OF mal] total_allocD(3) [OF mal] total_allocD(3) [OF mal],
        where metric = metric and now = now and own = own and flags = flags])
    fix gn
    assume gn: "gn_name gn = n" "gn_service gn = s" "gn_metric gn = metric" "gn_ownermod gn = own"
      and eq: "gnr_node_online mal now (Some own) (Some n) (Some s) flags metric st =
      (Some gn, (gnr_node__hash_add gn st)\<lparr>gs_next := Suc (gs_next st),
         gs_nodestats := (let t = gs_nodestats st in stats_inc metric (t\<lparr>ns_total := ns_total t + 1\<rparr>)),
         gs_calls := gs_calls st @ event_calls \<lparr>gei_event = GNR_EVENT_NODEUP, gei_node = gn, gei_extinfo = None\<rparr> st\<rparr>)"
    let ?st = "snd (gnr_node_online mal now (Some own) (Some n) (Some s) flags metric st)"
    have all: "mset (all_nodes ?st) = mset (gn # all_nodes st)"
      using mset_hash_add [OF gnr_invD(1) [OF inv], of gn] by (simp add: eq all_nodes_def)
    then have mem: "gn \<in> set (all_nodes ?st)" by (metis list.set_intros(1) mset_eq_setD)
    have "node_matches n (Some s) gn" using gn by (simp add: node_matches_def strcasecmp_eq_def)
    then have found: "gnr_node_findbyname (Some n) (Some s) ?st = Some gn"
      using findbyname_iff [OF gnr_inv_online [OF inv]] mem by blast
    then have "gnr_node_online mal now' (Some own') (Some n) (Some s) flags' metric' ?st = (Some gn, ?st)"
      by (simp add: gnr_node_online_def)
    moreover have "gnr_node_online mal now (Some own) (Some n) (Some s) flags metric st = (Some gn, ?st)"
      by (simp add: eq)
    ultimately show ?thesis
      unfolding None using found all gn
      by (intro exI [of _ gn] exI [of _ ?st] conjI) (assumption+, simp only: if_True refl)
  qed
qed

section \<open>Properties\<close>

text \<open>A state with one local and one external node, for witnesses.\<close>

definition gnr_empty :: gnr_state where
  "gnr_empty = gnr_node__hash_init \<lparr>gs_evhlist = [\<lparr>evh_mod = 9, evh_func = 5, evh_evmask = 3\<rparr>],
     gs_nodehash = [], gs_nodestats = \<lparr>ns_total = 0, ns_local = 0, ns_peered = 0, ns_external = 0\<rparr>,
     gs_next = 100, gs_freetag = (\<lambda>_. False), gs_calls = []\<rparr>"

definition gnr_sample :: gnr_state where
  "gnr_sample = snd (gnr_node_online zero_alloc 10 (Some 2) (Some (cstr ''ext'')) (Some (cstr ''AIM'')) 0 65535
     (snd (gnr_node_online zero_alloc 10 (Some 2) (Some (cstr ''me'')) (Some (cstr ''AIM'')) 0 0 gnr_empty)))"

lemma gnr_empty_reachable: "gnr_reachable gnr_empty"
  unfolding gnr_empty_def by (rule gnr_reachable.init) (simp add: stats_of_def count_nodes_def)

lemma gnr_sample_reachable: "gnr_reachable gnr_sample"
  unfolding gnr_sample_def by (intro gnr_reachable.step [OF _ gnr_step.online] gnr_empty_reachable)

text \<open>C32. In every state that the component's operations can reach, the table is sound: 64 chains with
  every node in the chain of its name, distinct addresses, no two nodes with the same name and
  service, no time limit on local nodes, sound tag lists, and statistics that count exactly the
  nodes of each kind.\<close>

theorem node_table_invariant:
  assumes "gnr_reachable st"
  shows "hash_ok (gs_nodehash st) \<and> nodes_ok (gs_next st) (all_nodes st) \<and>
    gs_nodestats st = stats_of (all_nodes st)"
  using gnr_reachable_inv [OF assms] by (simp add: gnr_inv_def)

theorem node_table_invariant_witness:
  "hash_ok (gs_nodehash gnr_sample) \<and> nodes_ok (gs_next gnr_sample) (all_nodes gnr_sample) \<and>
    gs_nodestats gnr_sample = stats_of (all_nodes gnr_sample)"
  by (rule node_table_invariant [OF gnr_sample_reachable])

text \<open>C34. Looking up a name and service through the hash table is the same as searching all nodes: it
  returns the one node that answers to them, wherever it is stored, and nothing if there is none.\<close>

theorem findbyname_is_search:
  assumes "gnr_reachable st"
  shows "(gnr_node_findbyname (Some n) (Some s) st = Some gn \<longleftrightarrow>
      gn \<in> set (all_nodes st) \<and> gnr_node_namecmp (gn_name gn) n = 0 \<and> strcasecmp_eq (gn_service gn) s) \<and>
    (gnr_node_findbyname (Some n) (Some s) st =
      gnr_node_find (Some (\<lambda>gn. gnr_node_namecmp (gn_name gn) n = 0 \<and> strcasecmp_eq (gn_service gn) s)) st)"
proof -
  note inv = gnr_reachable_inv [OF assms]
  have m: "node_matches n (Some s) = (\<lambda>gn. gnr_node_namecmp (gn_name gn) n = 0 \<and> strcasecmp_eq (gn_service gn) s)"
    by (simp add: node_matches_def fun_eq_iff)
  have "List.find (node_matches n (Some s)) (all_nodes st) = gnr_node_findbyname (Some n) (Some s) st"
  proof (cases "gnr_node_findbyname (Some n) (Some s) st")
    case None
    then show ?thesis using findbyname_None [OF inv, of n "Some s"] by (simp add: find_None_iff)
  next
    case (Some g)
    then have "List.find (node_matches n (Some s)) (all_nodes st) \<noteq> None"
      unfolding find_None_iff findbyname_iff [OF inv] by blast
    then obtain h where h: "List.find (node_matches n (Some s)) (all_nodes st) = Some h" by blast
    then have "h \<in> set (all_nodes st)" "node_matches n (Some s) h"
      unfolding find_Some_iff by (metis nth_mem)+
    with h show ?thesis using findbyname_iff [OF inv, of n s h] by simp
  qed
  then show ?thesis
    using findbyname_iff [OF inv, of n s gn] by (simp add: gnr_node_find_def m)
qed

theorem findbyname_is_search_witness:
  "gnr_node_findbyname (Some (cstr ''M E'')) (Some (cstr ''aim'')) gnr_sample =
     gnr_node_find (Some (\<lambda>gn. gnr_node_namecmp (gn_name gn) (cstr ''M E'') = 0 \<and>
       strcasecmp_eq (gn_service gn) (cstr ''aim''))) gnr_sample"
  using findbyname_is_search [OF gnr_sample_reachable] by blast

text \<open>Bringing a node online is idempotent per name and service. For an unknown one it adds exactly
  one node, returned and found by lookups from then on; for a known one it changes nothing and
  returns the existing node.\<close>

theorem node_online_once:
  assumes reach: "gnr_reachable st" and mal: "total_alloc mal"
  shows "\<exists>gn st'. gnr_node_online mal now (Some own) (Some n) (Some s) flags metric st = (Some gn, st') \<and>
    gnr_node_findbyname (Some n) (Some s) st' = Some gn \<and>
    gnr_node_online mal now' (Some own') (Some n) (Some s) flags' metric' st' = (Some gn, st') \<and>
    (if gnr_node_findbyname (Some n) (Some s) st = None
     then gn_name gn = n \<and> gn_service gn = s \<and> gn_metric gn = metric \<and> gn_ownermod gn = own \<and>
          mset (all_nodes st') = mset (gn # all_nodes st)
     else st' = st)"
  by (rule gnr_node_online_found [OF gnr_reachable_inv [OF reach] mal])

theorem node_online_once_witness:
  "\<exists>gn st'. gnr_node_online zero_alloc 1 (Some 2) (Some [97]) (Some [98]) 0 0 gnr_sample = (Some gn, st') \<and>
    gnr_node_findbyname (Some [97]) (Some [98]) st' = Some gn"
  using node_online_once [OF gnr_sample_reachable total_zero_alloc, of 1 2 "[97]" "[98]" 0 0 5 6 7 8] by blast

text \<open>C35. The timeout sweep removes exactly the nodes that are not local, have a time limit, are not
  referenced and have not been used within their limit; the others stay as they are. For every node
  removed, in table order, the handlers registered for node-down events are called and then the
  destructors of its tags.\<close>

theorem timeout_exact:
  assumes "gnr_reachable st"
  shows "all_nodes (gnr_node__hash_timeout now st) = filter (\<lambda>gn. \<not> expired now gn) (all_nodes st) \<and>
    gs_calls (gnr_node__hash_timeout now st) =
      gs_calls st @ concat (map (\<lambda>gn. free_calls gn GNR_NODE_OFFLINE_REASON_TIMEOUT st)
                                (filter (expired now) (all_nodes st)))"
  using gnr_invD(1) [OF gnr_reachable_inv [OF assms]]
  by (simp add: gnr_node__hash_timeout_def all_nodes_sweep) (simp add: sweep_eq free_all_calls)

theorem timeout_exact_witness:
  "all_nodes (gnr_node__hash_timeout 50 gnr_sample) = filter (\<lambda>gn. \<not> expired 50 gn) (all_nodes gnr_sample)"
  using timeout_exact [OF gnr_sample_reachable] by blast

text \<open>Taking a node offline through its pointer removes that node and no other, returns 0, and
  announces it to the registered handlers before its tags are destroyed. The state stays sound.\<close>

theorem node_offline_exact:
  assumes reach: "gnr_reachable st" and gn: "gn \<in> set (all_nodes st)"
  shows "\<exists>st'. gnr_node_offline (gn_addr gn) reason st = Some (0, st') \<and> gnr_inv st' \<and>
    mset (gn # all_nodes st') = mset (all_nodes st) \<and>
    gnr_node_findbyname (Some (gn_name gn)) (Some (gn_service gn)) st' = None \<and>
    gs_calls st' = gs_calls st @ free_calls gn reason st"
proof (rule gnr_node_offline_eq [OF gnr_reachable_inv [OF reach] gn, of reason])
  note inv = gnr_reachable_inv [OF reach]
  fix st'
  assume st': "gnr_node_offline (gn_addr gn) reason st = Some (0, st')" "gnr_inv st'"
    "mset (gn # all_nodes st') = mset (all_nodes st)" "gs_calls st' = gs_calls st @ free_calls gn reason st"
  have "\<not> node_matches (gn_name gn) (Some (gn_service gn)) x" if x: "x \<in> set (all_nodes st')" for x
  proof
    assume "node_matches (gn_name gn) (Some (gn_service gn)) x"
    then have same: "same_node x gn" by (simp add: same_node_def)
    have perm: "nodes_ok (gs_next st) (gn # all_nodes st')"
      using nodes_ok_perm [OF st'(3) [symmetric] gnr_invD(3) [OF inv]] .
    from nodes_okD(2) [OF perm _ _ same] x have "gn_addr x = gn_addr gn" by simp
    moreover have "gn_addr gn \<notin> gn_addr ` set (all_nodes st')" using nodes_okD(1) [OF perm] by simp
    ultimately show False using x by (metis image_eqI)
  qed
  then have "gnr_node_findbyname (Some (gn_name gn)) (Some (gn_service gn)) st' = None"
    using findbyname_None [OF st'(2)] by blast
  with st' show ?thesis by blast
qed

theorem node_offline_exact_witness:
  "\<exists>gn st'. gn \<in> set (all_nodes gnr_sample) \<and> gnr_node_offline (gn_addr gn) 2 gnr_sample = Some (0, st') \<and>
    mset (gn # all_nodes st') = mset (all_nodes gnr_sample)"
proof -
  have "length (all_nodes gnr_sample) = 2" by code_simp
  then obtain g where "g \<in> set (all_nodes gnr_sample)" by (cases "all_nodes gnr_sample") auto
  then show ?thesis using node_offline_exact [OF gnr_sample_reachable, of g 2] by blast
qed

end
