(* ===== verification/FlapOut.thy ===== *)
theory FlapOut
  imports Conn Tlv Ckcache GnrNode
begin

text \<open>
  The sending half of \<^verbatim>\<open>timps/oscar/flap.c\<close>: FLAP framing, the packets the proxy makes
  itself, taking over a connection, and the searches through the connections of a user. FLAP
  frames carry a marker, a channel, a sequence number and a length before the body.
\<close>

section \<open>Environment and state\<close>

text \<open>What the OSCAR component finds around it: the allocator, the time, its own module, libnbio, the
  settings, the values of \<^verbatim>\<open>rand\<close>.\<close>

record 'nb oenv =
  oe_mal :: allocator
  oe_now :: int
  oe_mod :: nafmod
  oe_nb :: "'nb nbio_ops"
  oe_authorizer :: "bytes option"
  oe_prorogueall :: bool
  oe_extip :: "bytes option"
  oe_rand :: "nat \<Rightarrow> naf_u8_t"
  oe_keepalive :: int
  oe_txtimeout :: int

text \<open>Its state: the connections, the cookie cache, the nodes.\<close>

record 'nb ostate = "'nb cstate" +
  os_ckcache :: "ckcache list"
  os_gnr :: gnr_state

abbreviation (input) FLAPHDRLEN :: nat where "FLAPHDRLEN \<equiv> 6"
abbreviation (input) MAXSNACLEN :: nat where "MAXSNACLEN \<equiv> 8192"
abbreviation (input) MAXFLAPLEN :: nat where "MAXFLAPLEN \<equiv> 8198"
abbreviation (input) FLAP_MAGIC :: naf_u8_t where "FLAP_MAGIC \<equiv> 0x2a"
abbreviation (input) HRET_ERROR :: int where "HRET_ERROR \<equiv> -1"
abbreviation (input) HRET_FORWARD :: int where "HRET_FORWARD \<equiv> 0"
abbreviation (input) HRET_DIGESTED :: int where "HRET_DIGESTED \<equiv> 1"
abbreviation (input) TOSCAR_FLAG_NONE :: naf_u32_t where "TOSCAR_FLAG_NONE \<equiv> 0"
abbreviation (input) TOSCAR_FLAG_READY :: naf_u32_t where "TOSCAR_FLAG_READY \<equiv> 1"
abbreviation (input) TOSCAR_SERVTYPE_UNKNOWN :: naf_u16_t where "TOSCAR_SERVTYPE_UNKNOWN \<equiv> 0x0000"
abbreviation (input) TOSCAR_SERVTYPE_BOS :: naf_u16_t where "TOSCAR_SERVTYPE_BOS \<equiv> 0x0009"
abbreviation (input) TOSCAR_SERVTYPE_AUTH :: naf_u16_t where "TOSCAR_SERVTYPE_AUTH \<equiv> 0x0017"
abbreviation (input) TIMPS_OSCAR_DEFAULTPORT :: int where "TIMPS_OSCAR_DEFAULTPORT \<equiv> 5190"

definition OSCARSERVICE :: bytes where "OSCARSERVICE = cstr ''AIM''"

text \<open>Reading back a tag's data through a pointer of the expected type.\<close>

fun as_str :: "tagdata \<Rightarrow> bytes option option" where
  "as_str (DStr s) = Some (Some s)" | "as_str DNull = Some None" | "as_str _ = None"

fun as_tlvs :: "tagdata \<Rightarrow> naf_tlv_t list option" where
  "as_tlvs (DTlvs ts) = Some ts" | "as_tlvs DNull = Some []" | "as_tlvs _ = None"

fun as_int :: "tagdata \<Rightarrow> naf_u32_t option" where
  "as_int (DInt n) = Some n" | "as_int DNull = Some 0" | "as_int _ = None"

fun as_buf :: "tagdata \<Rightarrow> bytes option option" where
  "as_buf (DBuf b) = Some (Some b)" | "as_buf DNull = Some None" | "as_buf _ = None"

section \<open>Requesting and sending frames\<close>

text \<open>When a buffer is reused and the read request is refused, the code tests a variable that was
  never set.\<close>

definition toscar_flap__reqflap ::
    "'nb oenv \<Rightarrow> nat \<Rightarrow> bytes option \<Rightarrow> 'nb ostate \<Rightarrow> (int \<times> 'nb ostate) option" where
  "toscar_flap__reqflap e conn oldbuf st =
     (case oldbuf of
        None \<Rightarrow> do {
          (r, st) \<leftarrow> naf_conn_reqread (oe_nb e) (Some conn) (oe_mal e MAXFLAPLEN) (int FLAPHDRLEN) 0 st;
          Some (if r = -1 then -1 else 0, st)
        }
      | Some b \<Rightarrow> do {
          (r, st) \<leftarrow> naf_conn_reqread (oe_nb e) (Some conn) (Some b) (int FLAPHDRLEN) 0 st;
          if r = -1 then None else Some (0, st)
        })"

definition toscar_flap__sendraw ::
    "'nb oenv \<Rightarrow> nat option \<Rightarrow> bytes option \<Rightarrow> naf_u16_t \<Rightarrow> 'nb ostate \<Rightarrow> (int \<times> 'nb ostate) option" where
  "toscar_flap__sendraw e conn buf buflen st =
     (case conn of
        None \<Rightarrow> Some (-1, st)
      | Some a \<Rightarrow> do {
          c \<leftarrow> cs_conns st a;
          b \<leftarrow> buf;
          b \<leftarrow> mem_write b 0 (naf_byte_put8 FLAP_MAGIC);
          b \<leftarrow> mem_write b 2 (naf_byte_put16 (c_nextseqnum c));
          b \<leftarrow> mem_write b 4 (naf_byte_put16 (buflen - of_nat FLAPHDRLEN));
          (r, st) \<leftarrow> naf_conn_reqwrite (oe_nb e) (oe_now e) conn (Some b) (uint buflen) st;
          if r = -1 then Some (-1, st)
          else Some (0, conn_update a (\<lambda>c. c\<lparr>c_nextseqnum := c_nextseqnum c + 1\<rparr>) st)
        })"

definition toscar_flap_sendsbuf_consume ::
    "'nb oenv \<Rightarrow> nat option \<Rightarrow> naf_sbuf_t \<Rightarrow> 'nb ostate \<Rightarrow> (int \<times> 'nb ostate) option" where
  "toscar_flap_sendsbuf_consume e conn sb st = do {
     (r, st) \<leftarrow> toscar_flap__sendraw e conn (sbuf_buf sb) (sbuf_pos sb) st;
     if r = -1 then Some (-1, st) else Some (0, st)
   }"

definition toscar_flap_puthdr :: "allocator \<Rightarrow> naf_sbuf_t \<Rightarrow> naf_u8_t \<Rightarrow> (int \<times> naf_sbuf_t) option" where
  "toscar_flap_puthdr mal sb chan = do {
     (_, sb) \<leftarrow> naf_sbuf_put8 mal sb FLAP_MAGIC;
     (_, sb) \<leftarrow> naf_sbuf_put8 mal sb chan;
     (_, sb) \<leftarrow> naf_sbuf_put16 mal sb 0x0000;
     (_, sb) \<leftarrow> naf_sbuf_put16 mal sb 4;
     Some (0, sb)
   }"

text \<open>The four packets below share the last step: hand the buffer over, or drop it.\<close>

definition toscar_flap__sendflapversion :: "'nb oenv \<Rightarrow> nat option \<Rightarrow> 'nb ostate \<Rightarrow> (int \<times> 'nb ostate) option" where
  "toscar_flap__sendflapversion e conn st =
     (let (r, sb) = naf_sbuf_init (oe_mal e) (Some (oe_mod e)) None (of_nat FLAPHDRLEN + 4)
      in if r = -1 then Some (-1, st)
         else do {
           (_, sb) \<leftarrow> toscar_flap_puthdr (oe_mal e) sb 0x01;
           (_, sb) \<leftarrow> naf_sbuf_put32 (oe_mal e) sb 0x00000001;
           toscar_flap_sendsbuf_consume e conn sb st
         })"

definition toscar_flap_sendcookie ::
    "'nb oenv \<Rightarrow> nat option \<Rightarrow> naf_tlv_t list \<Rightarrow> 'nb ostate \<Rightarrow> (int \<times> 'nb ostate) option" where
  "toscar_flap_sendcookie e conn tlvh st =
     (let (r, sb) = naf_sbuf_init (oe_mal e) (Some (oe_mod e)) None 0
      in if r = -1 then Some (-1, st)
         else do {
           (_, sb) \<leftarrow> toscar_flap_puthdr (oe_mal e) sb 0x01;
           (_, sb) \<leftarrow> naf_sbuf_put32 (oe_mal e) sb 0x00000001;
           (_, sb) \<leftarrow> naf_tlv_render (oe_mal e) tlvh sb;
           toscar_flap_sendsbuf_consume e conn sb st
         })"

definition toscar_flap_sendconnclose ::
    "'nb oenv \<Rightarrow> nat option \<Rightarrow> naf_u16_t \<Rightarrow> bytes option \<Rightarrow> 'nb ostate \<Rightarrow> (int \<times> 'nb ostate) option" where
  "toscar_flap_sendconnclose e conn reason reasonurl st =
     (let (r, sb) = naf_sbuf_init (oe_mal e) (Some (oe_mod e)) None 0
      in if r = -1 then Some (-1, st)
         else do {
           (_, sb) \<leftarrow> toscar_flap_puthdr (oe_mal e) sb 0x04;
           sb \<leftarrow> (if reason \<noteq> 0 \<or> reasonurl \<noteq> None
                  then do {
                    let tlvh = Some [];
                    (_, tlvh) \<leftarrow> (if reason \<noteq> 0
                       then naf_tlv_addu16 (oe_mal e) (Some (oe_mod e)) tlvh 0x0009 reason else Some (0, tlvh));
                    (_, tlvh) \<leftarrow> (case reasonurl of
                         Some url \<Rightarrow> naf_tlv_addstring (oe_mal e) (Some (oe_mod e)) tlvh 0x000b url
                       | None \<Rightarrow> Some (0, tlvh));
                    tlvs \<leftarrow> tlvh;
                    (_, sb) \<leftarrow> naf_tlv_render (oe_mal e) tlvs sb;
                    Some sb
                  }
                  else Some sb);
           toscar_flap_sendsbuf_consume e conn sb st
         })"

definition toscar_flap_sendnop :: "'nb oenv \<Rightarrow> nat option \<Rightarrow> 'nb ostate \<Rightarrow> (int \<times> 'nb ostate) option" where
  "toscar_flap_sendnop e conn st =
     (let (r, sb) = naf_sbuf_init (oe_mal e) (Some (oe_mod e)) None 0
      in if r = -1 then Some (-1, st)
         else do {
           (_, sb) \<leftarrow> toscar_flap_puthdr (oe_mal e) sb 0x05;
           toscar_flap_sendsbuf_consume e conn sb st
         })"

definition toscar_flap_prepareconn :: "'nb oenv \<Rightarrow> nat \<Rightarrow> 'nb ostate \<Rightarrow> (int \<times> 'nb ostate) option" where
  "toscar_flap_prepareconn e conn st = do {
     let st = conn_update conn (\<lambda>c. c\<lparr>c_flags := TOSCAR_FLAG_NONE\<rparr>) st;
     let st = (if oe_prorogueall e
               then conn_update conn (\<lambda>c. c\<lparr>c_type := c_type c OR NAF_CONN_TYPE_PROROGUEDEATH\<rparr>) st else st);
     c \<leftarrow> cs_conns st conn;
     (r, st) \<leftarrow> (if c_type c AND NAF_CONN_TYPE_CLIENT \<noteq> 0
                 then toscar_flap__sendflapversion e (Some conn) st else Some (0, st));
     if r = -1 then Some (-1, st) else toscar_flap__reqflap e conn None st
   }"

text \<open>\<^verbatim>\<open>takeconn\<close> of \<^verbatim>\<open>timps/oscar/oscar.c\<close>, which other components call through the module.\<close>

definition takeconn :: "'nb oenv \<Rightarrow> nat \<Rightarrow> 'nb ostate \<Rightarrow> (int \<times> 'nb ostate) option" where
  "takeconn e conn st = do {
     c \<leftarrow> cs_conns st conn;
     let st = conn_update conn (\<lambda>c. c\<lparr>c_type :=
                (c_type c AND NOT NAF_CONN_TYPE_DETECTING) OR NAF_CONN_TYPE_FLAP\<rparr>) st;
     toscar_flap_prepareconn e conn st
   }"

definition oscar_takeconn ::
    "'nb oenv \<Rightarrow> nafmod \<Rightarrow> (nat \<Rightarrow> 'nb ostate \<Rightarrow> (int \<times> 'nb ostate) option) option" where
  "oscar_takeconn e m = (if m = oe_mod e then Some (takeconn e) else None)"

section \<open>The connections of a user\<close>

text \<open>The screen name attached to a connection: the outer option is a fault.\<close>

definition conn_screenname :: "'nb oenv \<Rightarrow> nat option \<Rightarrow> 'nb ostate \<Rightarrow> bytes option option" where
  "conn_screenname e conn st = do {
     (r, out) \<leftarrow> naf_conn_tag_fetch (Some (oe_mod e)) conn (Some (cstr ''conn.screenname'')) st;
     case out of
       None \<Rightarrow> Some None
     | Some (_, d) \<Rightarrow> as_str d
   }"

definition toscar__findconn__matcher ::
    "'nb oenv \<Rightarrow> bytes \<Rightarrow> nat \<Rightarrow> 'nb ostate \<Rightarrow> (bool \<times> 'nb ostate) option" where
  "toscar__findconn__matcher e sn a st = do {
     c \<leftarrow> cs_conns st a;
     if c_type c AND NAF_CONN_TYPE_SERVER = 0 then Some (False, st)
     else do {
       cursn \<leftarrow> conn_screenname e (Some a) st;
       case cursn of
         None \<Rightarrow> Some (False, st)
       | Some cur \<Rightarrow> do { r \<leftarrow> toscar_sncmp sn cur; Some (r = 0, st) }
     }
   }"

definition toscar__findconn :: "'nb oenv \<Rightarrow> bytes \<Rightarrow> 'nb ostate \<Rightarrow> (nat option \<times> 'nb ostate) option" where
  "toscar__findconn e sn st = naf_conn_find (oe_nb e) (toscar__findconn__matcher e sn) st"

definition toscar__force_disconnect :: "'nb oenv \<Rightarrow> bytes \<Rightarrow> 'nb ostate \<Rightarrow> (int \<times> 'nb ostate) option" where
  "toscar__force_disconnect e sn st = do {
     (conn, st) \<leftarrow> toscar__findconn e sn st;
     case conn of
       None \<Rightarrow> Some (-1, st)
     | Some a \<Rightarrow> do { (_, st) \<leftarrow> naf_conn_schedulekill (oe_nb e) (Some a) st; Some (0, st) }
   }"

definition toscar__userhasotherclient__matcher ::
    "'nb oenv \<Rightarrow> bytes \<Rightarrow> nat \<Rightarrow> nat \<Rightarrow> 'nb ostate \<Rightarrow> (bool \<times> 'nb ostate) option" where
  "toscar__userhasotherclient__matcher e sn self a st = do {
     c \<leftarrow> cs_conns st a;
     if c_type c AND NAF_CONN_TYPE_SERVER = 0 then Some (False, st)
     else if a = self then Some (False, st)
     else do {
       cursn \<leftarrow> conn_screenname e (Some a) st;
       case cursn of
         None \<Rightarrow> Some (False, st)
       | Some cur \<Rightarrow> do {
           r \<leftarrow> toscar_sncmp sn cur;
           Some (r = 0 \<and> c_endpoint c \<noteq> None, st)
         }
     }
   }"

definition toscar__userhasotherclient ::
    "'nb oenv \<Rightarrow> bytes \<Rightarrow> nat \<Rightarrow> 'nb ostate \<Rightarrow> (bool \<times> 'nb ostate) option" where
  "toscar__userhasotherclient e sn self st = do {
     (found, st) \<leftarrow> naf_conn_find (oe_nb e) (toscar__userhasotherclient__matcher e sn self) st;
     Some (found \<noteq> None, st)
   }"

text \<open>This matcher schedules the connections for closing and never matches.\<close>

definition toscar__detacholdconns__matcher ::
    "'nb oenv \<Rightarrow> bytes \<Rightarrow> nat \<Rightarrow> 'nb ostate \<Rightarrow> (bool \<times> 'nb ostate) option" where
  "toscar__detacholdconns__matcher e sn a st = do {
     c \<leftarrow> cs_conns st a;
     if c_type c AND NAF_CONN_TYPE_SERVER = 0 then Some (False, st)
     else if c_endpoint c \<noteq> None then Some (False, st)
     else do {
       cursn \<leftarrow> conn_screenname e (Some a) st;
       case cursn of
         None \<Rightarrow> Some (False, st)
       | Some cur \<Rightarrow> do {
           r \<leftarrow> toscar_sncmp sn cur;
           if r \<noteq> 0 then Some (False, st)
           else do { (_, st) \<leftarrow> naf_conn_schedulekill (oe_nb e) (Some a) st; Some (False, st) }
         }
     }
   }"

definition toscar__detacholdconns :: "'nb oenv \<Rightarrow> bytes \<Rightarrow> 'nb ostate \<Rightarrow> (nat option \<times> 'nb ostate) option" where
  "toscar__detacholdconns e sn st = naf_conn_find (oe_nb e) (toscar__detacholdconns__matcher e sn) st"

section \<open>Frames\<close>

definition flap_frame :: "naf_u8_t \<Rightarrow> naf_u16_t \<Rightarrow> bytes \<Rightarrow> bytes" where
  "flap_frame chan seq body = [FLAP_MAGIC, chan] @ naf_byte_put16 seq @ naf_byte_put16 (of_nat (length body)) @ body"

lemma length_flap_frame [simp]: "length (flap_frame chan seq body) = FLAPHDRLEN + length body"
  by (simp add: flap_frame_def)

text \<open>The header is overwritten in place, whatever was in the four fields but the channel.\<close>

lemma sendraw_header:
  assumes "buf = [m, chan, s0, s1, l0, l1] @ body @ rest"
  shows "do { b \<leftarrow> mem_write buf 0 (naf_byte_put8 FLAP_MAGIC);
              b \<leftarrow> mem_write b 2 (naf_byte_put16 seq);
              mem_write b 4 (naf_byte_put16 (of_nat (FLAPHDRLEN + length body) - of_nat FLAPHDRLEN)) } =
    Some (flap_frame chan seq body @ rest)"
  unfolding assms
  by (simp add: mem_write_def flap_frame_def naf_byte_put8_def naf_byte_put16_def eval_nat_numeral)

text \<open>A connection that can take data.\<close>

definition conn_ready :: "nat \<Rightarrow> 'nb ostate \<Rightarrow> bool" where
  "conn_ready a st \<longleftrightarrow> (case cs_conns st a of None \<Rightarrow> False | Some c \<Rightarrow> c_fdt c \<noteq> None)"

lemma toscar_flap__sendraw_eq:
  assumes c: "cs_conns st a = Some c" "c_fdt c = Some fdt"
    and buf: "buf = [m, chan, s0, s1, l0, l1] @ body @ rest"
    and len: "FLAPHDRLEN + length body < 65536"
  shows "toscar_flap__sendraw e (Some a) (Some buf) (of_nat (FLAPHDRLEN + length body)) st =
    (case nb_addtxvector (oe_nb e) fdt (flap_frame chan (c_nextseqnum c) body @ rest)
            (int (FLAPHDRLEN + length body)) (cs_nb st) of
       (r, n) \<Rightarrow> Some (if r = -1 then -1 else 0,
         conn_update a (\<lambda>c. c\<lparr>c_lasttx_soft := oe_now e,
           c_nextseqnum := (if r = -1 then c_nextseqnum c else c_nextseqnum c + 1)\<rparr>) (st\<lparr>cs_nb := n\<rparr>)))"
proof -
  define N where "N = FLAPHDRLEN + length body"
  define L :: naf_u16_t where "L = of_nat N"
  have u: "uint L = int N" using unat_of_nat_u16 [OF len] unfolding L_def N_def by (metis uint_nat)
  have pos: "N > 0" by (simp add: N_def)
  obtain b1 b2 where b: "mem_write buf 0 (naf_byte_put8 FLAP_MAGIC) = Some b1"
    "mem_write b1 2 (naf_byte_put16 (c_nextseqnum c)) = Some b2"
    "mem_write b2 4 (naf_byte_put16 (L - 6)) = Some (flap_frame chan (c_nextseqnum c) body @ rest)"
    using sendraw_header [OF buf, of "c_nextseqnum c"] by (auto simp: bind_eq_Some_conv L_def N_def)
  have upd: "conn_update a f (conn_update a g s) = conn_update a (\<lambda>c. f (g c)) s" for f g and s :: "'a ostate"
    by (simp add: conn_update_def option.map_comp comp_def)
  have nb: "(conn_update a f s)\<lparr>cs_nb := n\<rparr> = conn_update a f (s\<lparr>cs_nb := n\<rparr>)" for f n and s :: "'a ostate"
    by (simp add: conn_update_def)
  show ?thesis
    unfolding toscar_flap__sendraw_def naf_conn_reqwrite_def N_def [symmetric] L_def [symmetric]
    using c pos by (auto simp: b u nb upd Let_def split: prod.split)
qed

text \<open>What sending a frame means: the next sequence number of the connection, the whole frame handed
  to libnbio in one piece, the number advanced when it was accepted. \<open>rest\<close> is what follows the
  frame in its block.\<close>

definition send_frame ::
    "'nb oenv \<Rightarrow> nat \<Rightarrow> naf_u8_t \<Rightarrow> bytes \<Rightarrow> bytes \<Rightarrow> 'nb ostate \<Rightarrow> (int \<times> 'nb ostate) option" where
  "send_frame e a chan body rest st = do {
     c \<leftarrow> cs_conns st a;
     case c_fdt c of
       None \<Rightarrow> Some (-1, st)
     | Some fdt \<Rightarrow>
         (case nb_addtxvector (oe_nb e) fdt (flap_frame chan (c_nextseqnum c) body @ rest)
                 (int (FLAPHDRLEN + length body)) (cs_nb st) of
            (r, n) \<Rightarrow> Some (if r = -1 then -1 else 0,
              conn_update a (\<lambda>c. c\<lparr>c_lasttx_soft := oe_now e,
                c_nextseqnum := (if r = -1 then c_nextseqnum c else c_nextseqnum c + 1)\<rparr>) (st\<lparr>cs_nb := n\<rparr>)))
   }"

lemma sendraw_send_frame:
  assumes buf: "buf = [m, chan, s0, s1, l0, l1] @ body @ rest" and len: "FLAPHDRLEN + length body < 65536"
  shows "toscar_flap__sendraw e (Some a) (Some buf) (of_nat (FLAPHDRLEN + length body)) st =
    send_frame e a chan body rest st"
proof (cases "cs_conns st a")
  case None
  then show ?thesis by (simp add: toscar_flap__sendraw_def send_frame_def)
next
  case (Some c)
  show ?thesis
  proof (cases "c_fdt c")
    case None
    have "mem_write buf 0 (naf_byte_put8 FLAP_MAGIC) \<bind> (\<lambda>b. mem_write b 2 (naf_byte_put16 (c_nextseqnum c)) \<bind>
        (\<lambda>b. mem_write b 4 (naf_byte_put16 (of_nat (FLAPHDRLEN + length body) - of_nat FLAPHDRLEN)))) =
      Some (flap_frame chan (c_nextseqnum c) body @ rest)"
      by (rule sendraw_header [OF buf])
    with None Some show ?thesis
      by (auto simp: toscar_flap__sendraw_def send_frame_def naf_conn_reqwrite_def bind_eq_Some_conv)
  next
    case (Some fdt)
    with \<open>cs_conns st a = Some c\<close> show ?thesis
      using toscar_flap__sendraw_eq [OF \<open>cs_conns st a = Some c\<close> Some buf len]
      by (simp add: send_frame_def)
  qed
qed

text \<open>The buffer holds a header and a body.\<close>

definition flap_hdr :: "naf_u8_t \<Rightarrow> bytes" where
  "flap_hdr chan = naf_byte_put8 FLAP_MAGIC @ naf_byte_put8 chan @ naf_byte_put16 0 @ naf_byte_put16 4"

lemma length_flap_hdr [simp]: "length (flap_hdr chan) = FLAPHDRLEN"
  by (simp add: flap_hdr_def)

lemma sendsbuf_send_frame:
  assumes inv: "sbuf_inv sb" and dn: "sbuf_done sb = flap_hdr chan @ body"
  shows "\<exists>rest. toscar_flap_sendsbuf_consume e (Some a) sb st = send_frame e a chan body rest st"
proof -
  let ?rest = "drop (unat (sbuf_pos sb)) (sbuf_mem sb)"
  have mem: "sbuf_buf sb = Some (sbuf_mem sb)" using sbuf_invD(1) [OF inv] .
  have len: "unat (sbuf_pos sb) = FLAPHDRLEN + length body"
    using length_sbuf_done [OF inv] by (simp add: dn)
  have pos: "sbuf_pos sb = of_nat (FLAPHDRLEN + length body)" unfolding len [symmetric] by simp
  have lt: "FLAPHDRLEN + length body < 65536" using len unat_u16_lt [of "sbuf_pos sb"] by simp
  have "sbuf_mem sb = sbuf_done sb @ ?rest" by (simp add: sbuf_done_def)
  also have "\<dots> = [FLAP_MAGIC, chan, 0, 0, 0, 4] @ body @ ?rest"
    by (simp add: dn flap_hdr_def naf_byte_put8_def naf_byte_put16_def)
  finally have "toscar_flap__sendraw e (Some a) (Some (sbuf_mem sb)) (sbuf_pos sb) st =
      send_frame e a chan body ?rest st"
    unfolding pos using lt by (rule sendraw_send_frame)
  moreover have "\<And>r s. send_frame e a chan body ?rest st = Some (r, s) \<Longrightarrow> r = -1 \<or> r = 0"
    by (auto simp: send_frame_def bind_eq_Some_conv case_prod_beta split: option.splits if_splits)
  ultimately show ?thesis
    unfolding toscar_flap_sendsbuf_consume_def mem
    by (intro exI [of _ ?rest]) (cases "send_frame e a chan body ?rest st", auto)
qed

section \<open>Filling buffers\<close>

text \<open>A fresh buffer of the component.\<close>

lemma fresh_sbuf:
  assumes "total_alloc mal" "unat len \<le> 32768"
  obtains sb where "naf_sbuf_init mal md None len = (0, sb)" "sbuf_inv sb" "sbuf_done sb = []"
    "sbuf_room sb = (if len = 0 then 512 else unat len)"
proof -
  obtain b where "mal (if len = 0 then 512 else unat len) = Some b"
    using total_allocD(2) [OF assms(1)] by blast
  from sbuf_inv_init_alloc [OF total_allocD(1) [OF assms(1)] assms(2) this] that show ?thesis by blast
qed

lemma puthdr_fits:
  assumes "sbuf_inv sb" "FLAPHDRLEN \<le> sbuf_room sb"
  shows "\<exists>sb'. toscar_flap_puthdr mal sb chan = Some (0, sb') \<and> sbuf_inv sb' \<and>
    sbuf_done sb' = sbuf_done sb @ flap_hdr chan \<and> sbuf_room sb' = sbuf_room sb - FLAPHDRLEN"
proof -
  let ?bss = "[naf_byte_put8 FLAP_MAGIC, naf_byte_put8 chan, naf_byte_put16 0, naf_byte_put16 4]"
  obtain sb' where "put_all (sbuf_store mal) sb ?bss = Some (int FLAPHDRLEN, sb')" "sbuf_inv sb'"
    "sbuf_done sb' = sbuf_done sb @ concat ?bss" "sbuf_room sb' = sbuf_room sb - FLAPHDRLEN"
    using sbw.put_all_fits [OF assms(1), of ?bss mal] assms(2) by auto
  moreover from this(1) have "toscar_flap_puthdr mal sb chan = Some (0, sb')"
    by (auto simp: toscar_flap_puthdr_def naf_sbuf_put_defs bind_eq_Some_conv)
  ultimately show ?thesis by (simp add: flap_hdr_def)
qed

text \<open>The results of \<^verbatim>\<open>send_frame\<close>.\<close>

lemma send_frame_cases:
  assumes "cs_conns st a = Some c"
  obtains r st' where "send_frame e a chan body rest st = Some (r, st')" "r = 0 \<or> r = -1"
    "cs_conns st' b = (if b = a then cs_conns st' a else cs_conns st b)"
    "os_gnr st' = os_gnr st" "os_ckcache st' = os_ckcache st"
proof (cases "c_fdt c")
  case None
  with assms that [of "-1" st] show ?thesis by (simp add: send_frame_def)
next
  case (Some fdt)
  obtain r n where rn: "nb_addtxvector (oe_nb e) fdt (flap_frame chan (c_nextseqnum c) body @ rest)
      (int (FLAPHDRLEN + length body)) (cs_nb st) = (r, n)" by fastforce
  let ?st = "conn_update a (\<lambda>c. c\<lparr>c_lasttx_soft := oe_now e,
    c_nextseqnum := (if r = -1 then c_nextseqnum c else c_nextseqnum c + 1)\<rparr>) (st\<lparr>cs_nb := n\<rparr>)"
  have "send_frame e a chan body rest st = Some (if r = -1 then -1 else 0, ?st)"
    using assms Some rn by (simp add: send_frame_def)
  moreover have "os_gnr ?st = os_gnr st" "os_ckcache ?st = os_ckcache st"
    by (simp_all add: conn_update_def)
  ultimately show ?thesis by (intro that [of "if r = -1 then -1 else 0" ?st]) (auto split: if_splits)
qed

text \<open>Closing connections does not touch the nodes, the cookies or the connection records.\<close>

lemma schedulekill_frame:
  "naf_conn_schedulekill nb a st = Some (r, st') \<Longrightarrow> \<exists>n. st' = st\<lparr>cs_nb := n\<rparr>"
  by (auto simp: naf_conn_schedulekill_def bind_eq_Some_conv case_prod_beta split: option.splits)
     (metis cstate.surjective cstate.update_convs(2))+

lemma detach_matcher_frame:
  "toscar__detacholdconns__matcher e sn a st = Some (b, st') \<Longrightarrow> b = False \<and> (\<exists>n. st' = st\<lparr>cs_nb := n\<rparr>)"
proof -
  have "\<exists>n. st = st\<lparr>cs_nb := n\<rparr>" by (metis cstate.surjective cstate.update_convs(2))
  then show "toscar__detacholdconns__matcher e sn a st = Some (b, st') \<Longrightarrow> ?thesis"
    by (auto simp: toscar__detacholdconns__matcher_def bind_eq_Some_conv case_prod_beta
        split: option.splits if_splits dest: schedulekill_frame)
qed

lemma detacholdconns_frame:
  assumes "toscar__detacholdconns e sn st = Some (f, st')"
  shows "f = None \<and> (\<exists>n. st' = st\<lparr>cs_nb := n\<rparr>)"
proof -
  have "conn_find_loop (toscar__detacholdconns__matcher e sn) as st = Some (f, st') \<Longrightarrow>
      f = None \<and> (\<exists>n. st' = st\<lparr>cs_nb := n\<rparr>)" for as
  proof (induction as arbitrary: st)
    case Nil
    then show ?case by (metis conn_find_loop.simps(1) cstate.surjective cstate.update_convs(2) option.inject prod.inject)
  next
    case (Cons a as)
    from Cons.prems obtain b st1 where 1: "toscar__detacholdconns__matcher e sn a st = Some (b, st1)"
      "conn_find_loop (toscar__detacholdconns__matcher e sn) as st1 = Some (f, st')"
      using detach_matcher_frame by (fastforce simp: bind_eq_Some_conv split: if_splits)
    from detach_matcher_frame [OF 1(1)] Cons.IH [OF 1(2)] show ?case by fastforce
  qed
  with assms show ?thesis by (simp add: toscar__detacholdconns_def naf_conn_find_def)
qed

section \<open>Output queues\<close>

text \<open>What libnbio promises about output: the vectors of a descriptor are queued in order, each with
  the first \<open>len\<close> bytes of its block; a refused vector changes no queue. \<open>q\<close> reads the queues.\<close>

definition tx_queues :: "('nb, 'r) nbio_ops_scheme \<Rightarrow> ('nb \<Rightarrow> nat \<Rightarrow> bytes list) \<Rightarrow> bool" where
  "tx_queues nb q \<longleftrightarrow>
     (\<forall>fdt b len s r s'. nb_addtxvector nb fdt b len s = (r, s') \<longrightarrow>
        q s' = (if r = -1 then q s else (q s)(fdt := q s fdt @ [take (nat len) b])))"

lemma tx_queuesD:
  "tx_queues nb q \<Longrightarrow> nb_addtxvector nb fdt b len s = (r, s') \<Longrightarrow>
     q s' = (if r = -1 then q s else (q s)(fdt := q s fdt @ [take (nat len) b]))"
  unfolding tx_queues_def by blast

text \<open>A descriptor whose output is never refused.\<close>

definition tx_accepts :: "('nb, 'r) nbio_ops_scheme \<Rightarrow> bool" where
  "tx_accepts nb \<longleftrightarrow> (\<forall>fdt b len s. fst (nb_addtxvector nb fdt b len s) \<noteq> -1)"

lemma send_frame_queue:
  assumes q: "tx_queues (oe_nb e) q" and acc: "tx_accepts (oe_nb e)"
    and c: "cs_conns st a = Some c" "c_fdt c = Some fdt"
  obtains st' where "send_frame e a chan body rest st = Some (0, st')"
    "cs_conns st' = (cs_conns st)(a \<mapsto> c\<lparr>c_lasttx_soft := oe_now e, c_nextseqnum := c_nextseqnum c + 1\<rparr>)"
    "q (cs_nb st') = (q (cs_nb st))(fdt := q (cs_nb st) fdt @ [flap_frame chan (c_nextseqnum c) body])"
    "os_gnr st' = os_gnr st" "os_ckcache st' = os_ckcache st"
proof -
  obtain r n where rn: "nb_addtxvector (oe_nb e) fdt (flap_frame chan (c_nextseqnum c) body @ rest)
      (int (FLAPHDRLEN + length body)) (cs_nb st) = (r, n)" by fastforce
  with acc have r: "r \<noteq> -1" unfolding tx_accepts_def by (metis fst_conv)
  let ?st = "conn_update a (\<lambda>c. c\<lparr>c_lasttx_soft := oe_now e, c_nextseqnum := c_nextseqnum c + 1\<rparr>) (st\<lparr>cs_nb := n\<rparr>)"
  have tk: "take (nat (int (FLAPHDRLEN + length body))) (flap_frame chan (c_nextseqnum c) body @ rest) =
      flap_frame chan (c_nextseqnum c) body" by (simp only: nat_int) simp
  show ?thesis
    by (rule that [of ?st])
       (use c r rn tx_queuesD [OF q rn, unfolded tk] in \<open>simp_all add: send_frame_def conn_update_def\<close>)
qed

text \<open>Sending one block after the other on a connection.\<close>

fun send_blocks :: "'nb oenv \<Rightarrow> nat \<Rightarrow> (bytes \<times> naf_u16_t) list \<Rightarrow> 'nb ostate \<Rightarrow> (int list \<times> 'nb ostate) option" where
  "send_blocks e a [] st = Some ([], st)"
| "send_blocks e a ((b, len) # bs) st = do {
     (r, st) \<leftarrow> toscar_flap__sendraw e (Some a) (Some b) len st;
     (rs, st) \<leftarrow> send_blocks e a bs st;
     Some (r # rs, st)
   }"

text \<open>The frames that are meant: channel and body are those of the block; numbers are given only to
  blocks that were accepted.\<close>

definition block_frame :: "naf_u16_t \<Rightarrow> bytes \<times> naf_u16_t \<Rightarrow> bytes" where
  "block_frame seq blk = (case blk of (b, len) \<Rightarrow>
     flap_frame (b ! 1) seq (take (unat len - FLAPHDRLEN) (drop FLAPHDRLEN b)))"

fun numbered :: "naf_u16_t \<Rightarrow> (int \<times> bytes \<times> naf_u16_t) list \<Rightarrow> bytes list" where
  "numbered seq [] = []"
| "numbered seq ((r, blk) # xs) =
     (if r = 0 then block_frame seq blk # numbered (seq + 1) xs else numbered seq xs)"

lemma block_split:
  assumes "FLAPHDRLEN \<le> n" "n \<le> length b"
  obtains m s0 s1 l0 l1 where
    "b = [m, b ! 1, s0, s1, l0, l1] @ take (n - FLAPHDRLEN) (drop FLAPHDRLEN b) @ drop n b"
proof -
  have "b = take 6 b @ drop 6 b" by simp
  also have "drop 6 b = take (n - 6) (drop 6 b) @ drop n b"
    using assms by (metis append_take_drop_id drop_drop le_add_diff_inverse2)
  finally have b: "b = take 6 b @ take (n - 6) (drop 6 b) @ drop n b" .
  have "take 6 b = [b ! 0, b ! 1, b ! 2, b ! 3, b ! 4, b ! 5]"
    using assms by (intro nth_equalityI) (auto simp: less_Suc_eq numeral_eq_Suc)
  with b that show ?thesis by metis
qed

lemma sendraw_queue:
  assumes q: "tx_queues (oe_nb e) q" and c: "cs_conns st a = Some c" "c_fdt c = Some fdt"
    and len: "FLAPHDRLEN \<le> unat len" "unat len \<le> length b"
  obtains r st' c' where "toscar_flap__sendraw e (Some a) (Some b) len st = Some (r, st')"
    "r = 0 \<or> r = -1" "cs_conns st' a = Some c'" "c_fdt c' = Some fdt"
    "c_nextseqnum c' = (if r = 0 then c_nextseqnum c + 1 else c_nextseqnum c)"
    "q (cs_nb st') = (if r = 0 then (q (cs_nb st))(fdt := q (cs_nb st) fdt @ [block_frame (c_nextseqnum c) (b, len)])
                      else q (cs_nb st))"
proof -
  let ?body = "take (unat len - FLAPHDRLEN) (drop FLAPHDRLEN b)" and ?rest = "drop (unat len) b"
  obtain m s0 s1 l0 l1 where b: "b = [m, b ! 1, s0, s1, l0, l1] @ ?body @ ?rest"
    by (rule block_split [OF len])
  have n: "FLAPHDRLEN + length ?body = unat len" using len by simp
  have w: "of_nat (FLAPHDRLEN + length ?body) = len" unfolding n by simp
  have lt: "FLAPHDRLEN + length ?body < 65536" unfolding n by (rule unat_u16_lt)
  obtain r n' where add: "nb_addtxvector (oe_nb e) fdt (flap_frame (b ! 1) (c_nextseqnum c) ?body @ ?rest)
      (int (FLAPHDRLEN + length ?body)) (cs_nb st) = (r, n')" by fastforce
  have raw: "toscar_flap__sendraw e (Some a) (Some b) len st = Some (if r = -1 then -1 else 0,
      conn_update a (\<lambda>c. c\<lparr>c_lasttx_soft := oe_now e,
        c_nextseqnum := (if r = -1 then c_nextseqnum c else c_nextseqnum c + 1)\<rparr>) (st\<lparr>cs_nb := n'\<rparr>))"
    using toscar_flap__sendraw_eq [OF c b lt, of e] add unfolding w by simp
  have "take (nat (int (FLAPHDRLEN + length ?body))) (flap_frame (b ! 1) (c_nextseqnum c) ?body @ ?rest) =
      block_frame (c_nextseqnum c) (b, len)"
    by (simp only: nat_int) (simp add: block_frame_def)
  from tx_queuesD [OF q add, unfolded this]
  have q': "q n' = (if r = -1 then q (cs_nb st)
      else (q (cs_nb st))(fdt := q (cs_nb st) fdt @ [block_frame (c_nextseqnum c) (b, len)]))" .
  show ?thesis
    by (rule that [OF raw, of "c\<lparr>c_lasttx_soft := oe_now e,
          c_nextseqnum := (if r = -1 then c_nextseqnum c else c_nextseqnum c + 1)\<rparr>"])
       (use c q' in \<open>simp_all split: if_split\<close>)
qed

lemma send_blocks_queue:
  assumes q: "tx_queues (oe_nb e) q"
  shows "cs_conns st a = Some c \<Longrightarrow> c_fdt c = Some fdt \<Longrightarrow>
    \<forall>(b, len) \<in> set blks. FLAPHDRLEN \<le> unat len \<and> unat len \<le> length b \<Longrightarrow>
    \<exists>rs st'. send_blocks e a blks st = Some (rs, st') \<and> length rs = length blks \<and> set rs \<subseteq> {0, -1} \<and>
      q (cs_nb st') = (q (cs_nb st))(fdt := q (cs_nb st) fdt @ numbered (c_nextseqnum c) (zip rs blks))"
proof (induction blks arbitrary: st c)
  case (Cons blk blks)
  obtain b len where blk: "blk = (b, len)" by fastforce
  with Cons.prems have len: "FLAPHDRLEN \<le> unat len" "unat len \<le> length b" by auto
  obtain r st1 c1 where one: "toscar_flap__sendraw e (Some a) (Some b) len st = Some (r, st1)"
    "r = 0 \<or> r = -1" "cs_conns st1 a = Some c1" "c_fdt c1 = Some fdt"
    "c_nextseqnum c1 = (if r = 0 then c_nextseqnum c + 1 else c_nextseqnum c)"
    "q (cs_nb st1) = (if r = 0 then (q (cs_nb st))(fdt := q (cs_nb st) fdt @ [block_frame (c_nextseqnum c) (b, len)])
                      else q (cs_nb st))"
    by (rule sendraw_queue [OF q Cons.prems(1,2) len])
  have rest: "\<forall>(b, len) \<in> set blks. FLAPHDRLEN \<le> unat len \<and> unat len \<le> length b"
    using Cons.prems(3) by simp
  from Cons.IH [OF one(3,4) rest] obtain rs st2 where
    "send_blocks e a blks st1 = Some (rs, st2)" "length rs = length blks" "set rs \<subseteq> {0, -1}"
    "q (cs_nb st2) = (q (cs_nb st1))(fdt := q (cs_nb st1) fdt @ numbered (c_nextseqnum c1) (zip rs blks))"
    by blast
  with one blk show ?case by (intro exI [of _ "r # rs"] exI [of _ st2]) auto
qed simp

lemma packet_frames:
  assumes mal: "total_alloc (oe_mal e)" and ok: "\<forall>t \<in> set ts. tlv_ok t" and len: "length (tlvs_encode ts) \<le> 502"
  shows "\<exists>rest. toscar_flap_sendnop e (Some a) st = send_frame e a 0x05 [] rest st"
    "\<exists>rest. toscar_flap_sendconnclose e (Some a) 0 None st = send_frame e a 0x04 [] rest st"
    "\<exists>rest. toscar_flap__sendflapversion e (Some a) st = send_frame e a 0x01 (naf_byte_put32 1) rest st"
    "\<exists>rest. toscar_flap_sendcookie e (Some a) ts st =
       send_frame e a 0x01 (naf_byte_put32 1 @ tlvs_encode ts) rest st"
proof -
  let ?mal = "oe_mal e" and ?m = "Some (oe_mod e)"
  have hdr: "\<exists>s0 s1. naf_sbuf_init ?mal ?m None len = (0, s0) \<and> toscar_flap_puthdr ?mal s0 chan = Some (0, s1) \<and>
      sbuf_inv s1 \<and> sbuf_done s1 = flap_hdr chan \<and> sbuf_room s1 = (if len = 0 then 506 else unat len - 6)"
    if "len = 0 \<or> 6 \<le> unat len \<and> unat len \<le> 32768" for len chan
  proof -
    have "unat len \<le> 32768" using that by auto
    then obtain s0 where s0: "naf_sbuf_init ?mal ?m None len = (0, s0)" "sbuf_inv s0" "sbuf_done s0 = []"
      "sbuf_room s0 = (if len = 0 then 512 else unat len)"
      by (rule fresh_sbuf [OF mal, of len ?m])
    with that puthdr_fits [of s0 ?mal chan] show ?thesis by auto
  qed
  have put: "\<exists>s2. naf_sbuf_put32 ?mal s1 v = Some (4, s2) \<and> sbuf_inv s2 \<and>
      sbuf_done s2 = sbuf_done s1 @ naf_byte_put32 v \<and> sbuf_room s2 = sbuf_room s1 - 4"
    if "sbuf_inv s1" "4 \<le> sbuf_room s1" for s1 v
    using sbw.put_fits [OF that(1), of "naf_byte_put32 v" ?mal] that(2) by (simp add: naf_sbuf_put32_def)
  show "\<exists>rest. toscar_flap_sendnop e (Some a) st = send_frame e a 0x05 [] rest st"
    using hdr [of 0 5] sendsbuf_send_frame [of _ 5 "[]" e a st] by (auto simp: toscar_flap_sendnop_def)
  show "\<exists>rest. toscar_flap_sendconnclose e (Some a) 0 None st = send_frame e a 0x04 [] rest st"
    using hdr [of 0 4] sendsbuf_send_frame [of _ 4 "[]" e a st] by (auto simp: toscar_flap_sendconnclose_def)
  show "\<exists>rest. toscar_flap__sendflapversion e (Some a) st = send_frame e a 0x01 (naf_byte_put32 1) rest st"
  proof -
    obtain s0 s1 s2 where "naf_sbuf_init ?mal ?m None (of_nat FLAPHDRLEN + 4) = (0, s0)"
      "toscar_flap_puthdr ?mal s0 1 = Some (0, s1)" "naf_sbuf_put32 ?mal s1 1 = Some (4, s2)" "sbuf_inv s2"
      "sbuf_done s2 = flap_hdr 1 @ naf_byte_put32 1"
      using hdr [of "of_nat FLAPHDRLEN + 4" 1] put by fastforce
    then show ?thesis
      using sendsbuf_send_frame [of s2 1 "naf_byte_put32 1" e a st] by (simp add: toscar_flap__sendflapversion_def)
  qed
  show "\<exists>rest. toscar_flap_sendcookie e (Some a) ts st =
       send_frame e a 0x01 (naf_byte_put32 1 @ tlvs_encode ts) rest st"
  proof -
    obtain s0 s1 s2 where s: "naf_sbuf_init ?mal ?m None 0 = (0, s0)"
      "toscar_flap_puthdr ?mal s0 1 = Some (0, s1)" "naf_sbuf_put32 ?mal s1 1 = Some (4, s2)" "sbuf_inv s2"
      "sbuf_done s2 = flap_hdr 1 @ naf_byte_put32 1" "sbuf_room s2 = 502"
      using hdr [of 0 1] put by fastforce
    with naf_tlv_render_fits [OF ok s(4), of ?mal] len obtain s3 where
      "naf_tlv_render ?mal ts s2 = Some (int (length (tlvs_encode ts)), s3)" "sbuf_inv s3"
      "sbuf_done s3 = flap_hdr 1 @ naf_byte_put32 1 @ tlvs_encode ts" by auto
    with s show ?thesis
      using sendsbuf_send_frame [of s3 1 "naf_byte_put32 1 @ tlvs_encode ts" e a st]
      by (simp add: toscar_flap_sendcookie_def)
  qed
qed


section \<open>Taking a server connection over\<close>

lemma ostate_moreD:
  fixes st st' :: "'nb ostate"
  assumes "cstate.more st' = cstate.more st"
  shows "os_ckcache st' = os_ckcache st" "os_gnr st' = os_gnr st"
  using assms by (cases st; cases st'; simp)+

lemma takeconn_server:
  assumes c: "cs_conns st a = Some ec" and type: "\<not> bit (c_type ec) 20"
  obtains r st2 t where "takeconn e a st = Some (r, st2)"
    "cs_conns st2 = (cs_conns st)(a \<mapsto> ec\<lparr>c_type := t, c_flags := 0\<rparr>)" "bit t 21 = bit (c_type ec) 21"
    "cstate.more st2 = cstate.more st"
proof -
  define t0 where "t0 = (c_type ec AND NOT NAF_CONN_TYPE_DETECTING) OR NAF_CONN_TYPE_FLAP"
  define t where "t = (if oe_prorogueall e then t0 OR NAF_CONN_TYPE_PROROGUEDEATH else t0)"
  have bits: "bit t 20 = bit (c_type ec) 20" "bit t 21 = bit (c_type ec) 21"
    by (simp_all add: t_def t0_def bit_simps)
  then have nc: "t AND NAF_CONN_TYPE_CLIENT = 0" using type by (simp add: type_flag_bit)
  let ?st = "st\<lparr>cs_conns := (cs_conns st)(a \<mapsto> ec\<lparr>c_type := t, c_flags := 0\<rparr>)\<rparr>"
  have "takeconn e a st = toscar_flap__reqflap e a None ?st"
    using c nc by (cases ec) (auto simp: takeconn_def toscar_flap_prepareconn_def conn_update_def t_def t0_def Let_def)
  moreover have "\<exists>r n. toscar_flap__reqflap e a None ?st = Some (r, ?st\<lparr>cs_nb := n\<rparr>)"
  proof -
    have keep: "\<exists>n. ?st = ?st\<lparr>cs_nb := n\<rparr>" by (metis cstate.surjective cstate.update_convs(2))
    then show ?thesis
      by (auto simp: toscar_flap__reqflap_def naf_conn_reqread_def case_prod_beta split: option.split)
  qed
  ultimately obtain r n where "takeconn e a st = Some (r, ?st\<lparr>cs_nb := n\<rparr>)" by auto
  from that [OF this _ bits(2)] show thesis by simp
qed

section \<open>Properties\<close>

text \<open>An output queue as a list of blocks per descriptor, for witnesses.\<close>

definition queue_ops :: "(nat \<Rightarrow> bytes list) nbio_ops" where
  "queue_ops = \<lparr>nb_addrxvector = \<lambda>_ _ _ _ s. (0, s),
     nb_addtxvector = \<lambda>fdt b len s. (0, s(fdt := s fdt @ [take (nat len) b])),
     nb_remtoprxvector = \<lambda>_ s. (None, s), nb_remtoptxvector = \<lambda>_ s. (None, s),
     nb_setcloseonflush = \<lambda>_ s. (0, s), nb_setraw = \<lambda>_ _ s. s,
     nb_addfd = \<lambda>_ sfd _ s. (Some sfd, s), nb_fdlist = \<lambda>_. [4, 5],
     nb_dial = \<lambda>_ _ s. (Some (9, True), s), nb_sfd_close = \<lambda>_ s. s,
     nb_getsockname = \<lambda>_. (cstr ''10.0.0.1'', 5190), nb_closefdt = \<lambda>_ s. s,
     nb_getincomingconn = \<lambda>_ s. (None, s), nb_sfd_read0 = \<lambda>_ s. (0, s), nb_sfd_newlistener = \<lambda>_ _ s. (None, s),
     nb_cleanuponly = \<lambda>s. s, nb_setdelim = \<lambda>_ _ s. (0, s), nb_socketpair = \<lambda>s. (None, s)\<rparr>"

lemma queue_ops_queues [simp]: "tx_queues queue_ops (\<lambda>s. s)"
  by (simp add: tx_queues_def queue_ops_def)

lemma queue_ops_accepts [simp]: "tx_accepts queue_ops"
  by (simp add: tx_accepts_def queue_ops_def)

definition sample_env :: "(nat \<Rightarrow> bytes list) oenv" where
  "sample_env = \<lparr>oe_mal = zero_alloc, oe_now = 1000, oe_mod = 7, oe_nb = queue_ops,
     oe_authorizer = Some (cstr ''login.example:5190''), oe_prorogueall = False, oe_extip = None,
     oe_rand = \<lambda>i. 3, oe_keepalive = 30, oe_txtimeout = 120\<rparr>"

definition sample_conn :: nafconn where
  "sample_conn = \<lparr>c_fdt = Some 2, c_type = NAF_CONN_TYPE_FLAP OR NAF_CONN_TYPE_CLIENT, c_flags = 0,
     c_lastrx = 0, c_lasttx_soft = 0, c_lasttx_hard = 0, c_endpoint = None, c_parent = None,
     c_localip = cstr ''10.0.0.1'', c_localport = 5190, c_servtype = 0, c_taglist = [],
     c_nextseqnum = 65535, c_owner = Some 7, c_cid = 1\<rparr>"

definition sample_state :: "(nat \<Rightarrow> bytes list) ostate" where
  "sample_state = \<lparr>cs_conns = [4 \<mapsto> sample_conn], cs_nb = \<lambda>_. [], cs_nextcid = 2, cs_openconns = 1,
     cs_next = 5, cs_children = [], os_ckcache = [], os_gnr = gnr_empty\<rparr>"

text \<open>C3. Frames leave a connection in order with consecutive sequence numbers, modulo 65536: of the
  blocks sent one after the other, each that libnbio accepts is queued with the marker, its own
  channel and body, the number after that of the frame before, and the right length; a refused block
  uses no number.\<close>

theorem frames_in_sequence:
  assumes "tx_queues (oe_nb e) q" "cs_conns st a = Some c" "c_fdt c = Some fdt"
    and "\<forall>(b, len) \<in> set blks. FLAPHDRLEN \<le> unat len \<and> unat len \<le> length b"
  shows "\<exists>rs st'. send_blocks e a blks st = Some (rs, st') \<and> length rs = length blks \<and> set rs \<subseteq> {0, -1} \<and>
    q (cs_nb st') = (q (cs_nb st))(fdt := q (cs_nb st) fdt @ numbered (c_nextseqnum c) (zip rs blks))"
  using send_blocks_queue [OF assms] .

theorem frames_in_sequence_witness:
  "\<exists>rs st'. send_blocks sample_env 4 [([0, 5, 0, 0, 0, 0], 6), ([0, 2, 0, 0, 0, 0, 9, 9], 7)] sample_state =
      Some (rs, st') \<and>
    cs_nb st' 2 = numbered 65535 (zip rs [([0, 5, 0, 0, 0, 0], 6), ([0, 2, 0, 0, 0, 0, 9, 9], 7)])"
proof -
  let ?blks = "[([0, 5, 0, 0, 0, 0], 6), ([0, 2, 0, 0, 0, 0, 9, 9], 7)] :: (bytes \<times> naf_u16_t) list"
  have "\<exists>rs st'. send_blocks sample_env 4 ?blks sample_state = Some (rs, st') \<and> length rs = length ?blks \<and>
      set rs \<subseteq> {0, -1} \<and> cs_nb st' = (cs_nb sample_state)(2 := cs_nb sample_state 2 @
        numbered (c_nextseqnum sample_conn) (zip rs ?blks))"
    by (rule frames_in_sequence) (simp_all add: sample_env_def sample_state_def sample_conn_def)
  then show ?thesis by (auto simp: sample_state_def sample_conn_def)
qed

text \<open>The packets the proxy makes itself are well-formed frames: a keepalive is an empty frame on
  channel 5, closing is an empty frame on channel 4, the version packet is version 1 on channel 1,
  and logging in with a cookie is version 1 followed by the encoded TLVs on channel 1.\<close>

theorem packets_are_frames:
  assumes "total_alloc (oe_mal e)" "\<forall>t \<in> set ts. tlv_ok t" "length (tlvs_encode ts) \<le> 502"
  shows "(\<exists>rest. toscar_flap_sendnop e (Some a) st = send_frame e a 0x05 [] rest st) \<and>
    (\<exists>rest. toscar_flap_sendconnclose e (Some a) 0 None st = send_frame e a 0x04 [] rest st) \<and>
    (\<exists>rest. toscar_flap__sendflapversion e (Some a) st = send_frame e a 0x01 (naf_byte_put32 1) rest st) \<and>
    (\<exists>rest. toscar_flap_sendcookie e (Some a) ts st =
       send_frame e a 0x01 (naf_byte_put32 1 @ tlvs_encode ts) rest st)"
  by (intro conjI packet_frames [OF assms])

theorem packets_are_frames_witness:
  "\<exists>rest. toscar_flap_sendcookie sample_env (Some 4) [\<lparr>tlv_type = 6, tlv_length = 1, tlv_value = Some [1]\<rparr>] sample_state =
     send_frame sample_env 4 0x01 (naf_byte_put32 1 @
       tlvs_encode [\<lparr>tlv_type = 6, tlv_length = 1, tlv_value = Some [1]\<rparr>]) rest sample_state"
  using packets_are_frames [of sample_env "[\<lparr>tlv_type = 6, tlv_length = 1, tlv_value = Some [1]\<rparr>]" 4 sample_state]
  by (simp add: sample_env_def tlv_ok_def tlv_encode_def tlv_bytes_def)

end
