(* ===== verification/Snac.thy ===== *)
theory Snac
  imports FlapOut
begin

text \<open>
  SNACs, \<^verbatim>\<open>timps/oscar/snac.c\<close>: the packet builder, user information blocks, and the handlers of the
  login sequence. Handlers return \<^verbatim>\<open>HRET_ERROR\<close>, \<^verbatim>\<open>HRET_FORWARD\<close> or \<^verbatim>\<open>HRET_DIGESTED\<close>. The dispatcher
  is in \<open>FlapIn\<close>, behind the message handlers.
\<close>

section \<open>Data\<close>

record toscar_snac =
  snac_group :: naf_u16_t
  snac_subtype :: naf_u16_t
  snac_flags :: naf_u16_t
  snac_id :: naf_u32_t
  snac_extinfo :: naf_sbuf_t
  snac_payload :: naf_sbuf_t

text \<open>\<^verbatim>\<open>sizeof(struct touserinfo)\<close> on an LP64 system.\<close>

abbreviation (input) sizeof_touserinfo :: nat where "sizeof_touserinfo \<equiv> 24"

text \<open>The string in a block: the bytes before the first zero.\<close>

definition c_string :: "bytes \<Rightarrow> bytes" where
  "c_string b = takeWhile (\<lambda>c. c \<noteq> 0) b"

section \<open>Building\<close>

definition toscar_newsnacsb ::
    "'nb oenv \<Rightarrow> naf_u16_t \<Rightarrow> naf_u16_t \<Rightarrow> naf_u16_t \<Rightarrow> naf_u32_t \<Rightarrow> (int \<times> naf_sbuf_t) option" where
  "toscar_newsnacsb e grp subtype flags snacid =
     (let (r, sb) = naf_sbuf_init (oe_mal e) (Some (oe_mod e)) None 0
      in if r = -1 then Some (-1, sb)
         else do {
           (_, sb) \<leftarrow> toscar_flap_puthdr (oe_mal e) sb 0x02;
           (_, sb) \<leftarrow> naf_sbuf_put16 (oe_mal e) sb grp;
           (_, sb) \<leftarrow> naf_sbuf_put16 (oe_mal e) sb subtype;
           (_, sb) \<leftarrow> naf_sbuf_put16 (oe_mal e) sb flags;
           (_, sb) \<leftarrow> naf_sbuf_put32 (oe_mal e) sb snacid;
           Some (0, sb)
         })"

section \<open>User information\<close>

definition touserinfo_new :: "allocator \<Rightarrow> bytes option \<Rightarrow> touserinfo option" where
  "touserinfo_new mal sn =
     (case sn of
        None \<Rightarrow> None
      | Some s \<Rightarrow>
          if mal sizeof_touserinfo = None \<or> mal (length s + 1) = None then None
          else Some \<lparr>toui_sn = s, toui_evillevel = 0, toui_tlvh = []\<rparr>)"

text \<open>The inner option is the null result. The name is the string in the block that was read.\<close>

definition touserinfo_extract :: "allocator \<Rightarrow> naf_sbuf_t \<Rightarrow> (touserinfo option \<times> naf_sbuf_t) option" where
  "touserinfo_extract mal sb =
     (if mal sizeof_touserinfo = None then Some (None, sb)
      else do {
        (snlen, sb) \<leftarrow> naf_sbuf_get8 sb;
        (sn, sb) \<leftarrow> naf_sbuf_getstr mal sb (ucast snlen);
        case sn of
          None \<Rightarrow> Some (None, sb)
        | Some s \<Rightarrow> do {
            (evil, sb) \<leftarrow> naf_sbuf_get16 sb;
            (tlvcnt, sb) \<leftarrow> naf_sbuf_get16 sb;
            (tlvh, sb) \<leftarrow> naf_tlv_parse_limit mal sb (uint tlvcnt);
            Some (Some \<lparr>toui_sn = c_string s, toui_evillevel = evil, toui_tlvh = tlvh\<rparr>, sb)
          }
      })"

definition touserinfo_render :: "allocator \<Rightarrow> touserinfo \<Rightarrow> naf_sbuf_t \<Rightarrow> (int \<times> naf_sbuf_t) option" where
  "touserinfo_render mal toui sb = do {
     (_, sb) \<leftarrow> naf_sbuf_put8 mal sb (of_nat (length (toui_sn toui)));
     (_, sbo) \<leftarrow> naf_sbuf_putstr mal (Some sb) (Some (toui_sn toui));
     sb \<leftarrow> sbo;
     (_, sb) \<leftarrow> naf_sbuf_put16 mal sb (toui_evillevel toui);
     (_, sb) \<leftarrow> naf_sbuf_put16 mal sb (word_of_int (naf_tlv_gettotallength (toui_tlvh toui)));
     (_, sb) \<leftarrow> naf_tlv_render mal (toui_tlvh toui) sb;
     Some (0, sb)
   }"

section \<open>Login handlers\<close>

text \<open>0001/0002, client online.\<close>

definition toscar_snachandler_0001_0002 :: "'nb oenv \<Rightarrow> nat \<Rightarrow> toscar_snac \<Rightarrow> 'nb ostate \<Rightarrow> (int \<times> 'nb ostate) option" where
  "toscar_snachandler_0001_0002 e conn snac st = do {
     c \<leftarrow> cs_conns st conn;
     if c_type c AND NAF_CONN_TYPE_CLIENT = 0 then Some (HRET_ERROR, st)
     else do {
       sn \<leftarrow> conn_screenname e (c_endpoint c) st;
       case sn of
         None \<Rightarrow> Some (HRET_ERROR, st)
       | Some sn \<Rightarrow> do {
           (_, st) \<leftarrow> toscar__detacholdconns e sn st;
           let (node, g) = gnr_node_online (oe_mal e) (oe_now e) (Some (oe_mod e)) (Some sn)
                             (Some OSCARSERVICE) 0 GNR_NODE_METRIC_LOCAL (os_gnr st);
           let st = st\<lparr>os_gnr := g\<rparr>;
           if node = None then Some (HRET_ERROR, st) else Some (HRET_FORWARD, st)
         }
     }
   }"

text \<open>0001/0003, host online.\<close>

definition toscar_snachandler_0001_0003 :: "'nb oenv \<Rightarrow> nat \<Rightarrow> toscar_snac \<Rightarrow> 'nb ostate \<Rightarrow> (int \<times> 'nb ostate) option" where
  "toscar_snachandler_0001_0003 e conn snac st = do {
     c \<leftarrow> cs_conns st conn;
     Some (HRET_FORWARD, conn_update conn (\<lambda>c. c\<lparr>c_flags := c_flags c OR TOSCAR_FLAG_READY\<rparr>) st)
   }"

text \<open>0001/000b, server pause; the tag is only fetched for the log.\<close>

definition toscar_snachandler_0001_000b :: "'nb oenv \<Rightarrow> nat \<Rightarrow> toscar_snac \<Rightarrow> 'nb ostate \<Rightarrow> (int \<times> 'nb ostate) option" where
  "toscar_snachandler_0001_000b e conn snac st = do {
     _ \<leftarrow> conn_screenname e (Some conn) st;
     Some (HRET_ERROR, st)
   }"

text \<open>The head of a TLV list under construction, as a \<^verbatim>\<open>naf_tlv_t **\<close>; the results of the add
  functions are ignored.\<close>

definition toscar_auth_sendfail ::
    "'nb oenv \<Rightarrow> nat \<Rightarrow> bytes option \<Rightarrow> naf_u16_t \<Rightarrow> bytes option \<Rightarrow> 'nb ostate \<Rightarrow> (int \<times> 'nb ostate) option" where
  "toscar_auth_sendfail e conn sn code errurl st = do {
     (r, sb) \<leftarrow> toscar_newsnacsb e 0x0017 0x0003 0x0000 0x00000000;
     if r = -1 then Some (-1, st)
     else do {
       let m = Some (oe_mod e);
       (_, tlvh) \<leftarrow> naf_tlv_addstring (oe_mal e) m (Some []) 0x0001 (case sn of Some s \<Rightarrow> s | None \<Rightarrow> []);
       (_, tlvh) \<leftarrow> naf_tlv_addu16 (oe_mal e) m tlvh 0x0008 code;
       (_, tlvh) \<leftarrow> (case errurl of
            Some u \<Rightarrow> naf_tlv_addstring (oe_mal e) m tlvh 0x0004 u
          | None \<Rightarrow> Some (0, tlvh));
       tlvs \<leftarrow> tlvh;
       (_, sb) \<leftarrow> naf_tlv_render (oe_mal e) tlvs sb;
       toscar_flap_sendsbuf_consume e (Some conn) sb st
     }
   }"

definition toscar_auth_sendauthinforequest ::
    "'nb oenv \<Rightarrow> nat \<Rightarrow> naf_u32_t \<Rightarrow> naf_tlv_t list \<Rightarrow> 'nb ostate \<Rightarrow> (int \<times> 'nb ostate) option" where
  "toscar_auth_sendauthinforequest e conn snacid tlvh st = do {
     (r, sb) \<leftarrow> toscar_newsnacsb e 0x0017 0x0006 0x0000 snacid;
     if r = -1 then Some (-1, st)
     else do {
       (_, sb) \<leftarrow> naf_tlv_render (oe_mal e) tlvh sb;
       toscar_flap_sendsbuf_consume e (Some conn) sb st
     }
   }"

text \<open>A TLV's value as a C string.\<close>

definition tlv_cstring :: "allocator \<Rightarrow> naf_tlv_t list \<Rightarrow> naf_u16_t \<Rightarrow> bytes option option" where
  "tlv_cstring mal tlvs type = map_option (map_option c_string) (naf_tlv_getasstring mal tlvs type)"

text \<open>0017/0003, authentication success: the cookie goes into the cache, the address is replaced by
  ours, everything else is passed on.\<close>

definition toscar_snachandler_0017_0003 :: "'nb oenv \<Rightarrow> nat \<Rightarrow> toscar_snac \<Rightarrow> 'nb ostate \<Rightarrow> (int \<times> 'nb ostate) option" where
  "toscar_snachandler_0017_0003 e conn snac st = do {
     c \<leftarrow> cs_conns st conn;
     (tlvh, _) \<leftarrow> naf_tlv_parse (oe_mal e) (snac_payload snac);
     if naf_tlv_get tlvh 0x0004 \<noteq> None \<or> naf_tlv_get tlvh 0x0008 \<noteq> None then Some (HRET_FORWARD, st)
     else do {
       sn \<leftarrow> tlv_cstring (oe_mal e) tlvh 0x0001;
       let cktlv = naf_tlv_get tlvh 0x0006;
       let (iptlv, tlvh) = naf_tlv_remove tlvh 0x0005;
       ip \<leftarrow> tlv_cstring (oe_mal e) (case iptlv of None \<Rightarrow> [] | Some t \<Rightarrow> [t]) 0x0005;
       case (cktlv, ip, sn) of
         (Some ck, Some ip, Some sn) \<Rightarrow> do {
           (r, cache) \<leftarrow> toscar_ckcache_add (oe_mal e) (oe_now e) (Some (oe_mod e)) (tlv_value ck)
                           (tlv_length ck) (Some ip) (Some sn) TOSCAR_SERVTYPE_BOS (os_ckcache st);
           let st = st\<lparr>os_ckcache := cache\<rparr>;
           if r = -1 then Some (HRET_ERROR, st)
           else do {
             las \<leftarrow> naf_conn_getlocaladdrstr (oe_mal e) (oe_extip e) (c_endpoint c) st;
             case las of
               None \<Rightarrow> Some (HRET_ERROR, st)
             | Some las \<Rightarrow> do {
                 (_, tlvh) \<leftarrow> naf_tlv_addstring (oe_mal e) (Some (oe_mod e)) (Some tlvh) 0x0005 las;
                 tlvs \<leftarrow> tlvh;
                 (r, sb) \<leftarrow> toscar_newsnacsb e 0x0017 0x0003 0x0000 (snac_id snac);
                 if r = -1 then Some (HRET_ERROR, st)
                 else do {
                   (_, sb) \<leftarrow> naf_tlv_render (oe_mal e) tlvs sb;
                   (r, st) \<leftarrow> toscar_flap_sendsbuf_consume e (c_endpoint c) sb st;
                   Some (if r = -1 then HRET_ERROR else HRET_DIGESTED, st)
                 }
               }
           }
         }
       | _ \<Rightarrow> Some (HRET_ERROR, st)
     }
   }"

definition fail_url :: bytes where
  "fail_url = cstr ''http://www.aol.com?ccode=us&lang=en''"

text \<open>0017/0006, request for authentication data.\<close>

definition toscar_snachandler_0017_0006 :: "'nb oenv \<Rightarrow> nat \<Rightarrow> toscar_snac \<Rightarrow> 'nb ostate \<Rightarrow> (int \<times> 'nb ostate) option" where
  "toscar_snachandler_0017_0006 e conn snac st = do {
     (tlvh, _) \<leftarrow> naf_tlv_parse (oe_mal e) (snac_payload snac);
     sn \<leftarrow> tlv_cstring (oe_mal e) tlvh 0x0001;
     if sn = None \<or> length (the sn) < 2 \<or> length (the sn) > 96
     then do {
       (_, st) \<leftarrow> toscar_auth_sendfail e conn sn 0x0004 (Some fail_url) st;
       (_, st) \<leftarrow> toscar_flap_sendconnclose e (Some conn) 0 None st;
       (_, st) \<leftarrow> naf_conn_schedulekill (oe_nb e) (Some conn) st;
       Some (HRET_DIGESTED, st)
     }
     else do {
       c \<leftarrow> cs_conns st conn;
       if c_endpoint c \<noteq> None then Some (HRET_DIGESTED, st)
       else do {
         (r, st) \<leftarrow> naf_conn_startconnect (oe_mal e) (oe_nb e) (oe_now e) (oscar_takeconn e)
                      (Some conn) (oe_authorizer e) TIMPS_OSCAR_DEFAULTPORT st;
         if r = -1 then Some (HRET_ERROR, st)
         else do {
           c \<leftarrow> cs_conns st conn;
           ep \<leftarrow> c_endpoint c;
           let st = conn_update conn (\<lambda>c. c\<lparr>c_servtype := uint TOSCAR_SERVTYPE_AUTH\<rparr>) st;
           let st = conn_update ep (\<lambda>c. c\<lparr>c_servtype := uint TOSCAR_SERVTYPE_AUTH\<rparr>) st;
           (r, st) \<leftarrow> naf_conn_tag_add (oe_mal e) (Some (oe_mod e)) (Some ep)
                        (Some (cstr ''conn.logintlvs'')) (CHR ''V'') (DTlvs tlvh) st;
           if r = -1 then Some (HRET_ERROR, st)
           else do {
             (r, st) \<leftarrow> naf_conn_tag_add (oe_mal e) (Some (oe_mod e)) (Some ep)
                          (Some (cstr ''conn.loginsnacid'')) (CHR ''I'') (DInt (snac_id snac)) st;
             Some (if r = -1 then HRET_ERROR else HRET_DIGESTED, st)
           }
         }
       }
     }
   }"

section \<open>Encodings\<close>

definition snac_hdr :: "naf_u16_t \<Rightarrow> naf_u16_t \<Rightarrow> naf_u16_t \<Rightarrow> naf_u32_t \<Rightarrow> bytes" where
  "snac_hdr grp subtype flags snacid =
     naf_byte_put16 grp @ naf_byte_put16 subtype @ naf_byte_put16 flags @ naf_byte_put32 snacid"

lemma length_snac_hdr [simp]: "length (snac_hdr grp subtype flags snacid) = 10"
  by (simp add: snac_hdr_def)

lemma toscar_newsnacsb_ok:
  assumes "total_alloc (oe_mal e)"
  shows "\<exists>sb. toscar_newsnacsb e grp subtype flags snacid = Some (0, sb) \<and> sbuf_inv sb \<and>
    sbuf_done sb = flap_hdr 0x02 @ snac_hdr grp subtype flags snacid \<and> sbuf_room sb = 496"
proof -
  let ?mal = "oe_mal e"
  obtain s0 where s0: "naf_sbuf_init ?mal (Some (oe_mod e)) None 0 = (0, s0)" "sbuf_inv s0"
    "sbuf_done s0 = []" "sbuf_room s0 = 512"
    by (rule fresh_sbuf [OF assms, of 0 "Some (oe_mod e)"]) auto
  obtain s1 where s1: "toscar_flap_puthdr ?mal s0 0x02 = Some (0, s1)" "sbuf_inv s1"
    "sbuf_done s1 = flap_hdr 0x02" "sbuf_room s1 = 506"
    using puthdr_fits [OF s0(2), of ?mal 2] s0(3,4) by auto
  let ?bss = "[naf_byte_put16 grp, naf_byte_put16 subtype, naf_byte_put16 flags, naf_byte_put32 snacid]"
  obtain s2 where "put_all (sbuf_store ?mal) s1 ?bss = Some (10, s2)" "sbuf_inv s2"
    "sbuf_done s2 = sbuf_done s1 @ concat ?bss" "sbuf_room s2 = sbuf_room s1 - 10"
    using sbw.put_all_fits [OF s1(2), of ?bss ?mal] s1(4) by auto
  moreover from this(1) have "toscar_newsnacsb e grp subtype flags snacid = Some (0, s2)"
    by (auto simp: toscar_newsnacsb_def s0(1) s1(1) naf_sbuf_put_defs bind_eq_Some_conv)
  ultimately show ?thesis using s1(3,4) by (simp add: snac_hdr_def)
qed

text \<open>The wire form of user information.\<close>

definition toui_encode :: "touserinfo \<Rightarrow> bytes" where
  "toui_encode u = naf_byte_put8 (of_nat (length (toui_sn u))) @ toui_sn u @
     naf_byte_put16 (toui_evillevel u) @ naf_byte_put16 (of_nat (length (toui_tlvh u))) @
     tlvs_encode (toui_tlvh u)"

text \<open>User information that the format can express.\<close>

definition toui_ok :: "touserinfo \<Rightarrow> bool" where
  "toui_ok u \<longleftrightarrow> length (toui_sn u) < 256 \<and> 0 \<notin> set (toui_sn u) \<and>
     length (toui_tlvh u) < 65536 \<and> (\<forall>t \<in> set (toui_tlvh u). tlv_ok t)"

lemma touserinfo_render_fits:
  assumes inv: "sbuf_inv sb" and ok: "toui_ok u" and room: "length (toui_encode u) \<le> sbuf_room sb"
  shows "\<exists>sb'. touserinfo_render mal u sb = Some (0, sb') \<and> sbuf_inv sb' \<and>
    sbuf_done sb' = sbuf_done sb @ toui_encode u \<and> sbuf_room sb' = sbuf_room sb - length (toui_encode u)"
proof -
  let ?bss = "[naf_byte_put8 (of_nat (length (toui_sn u))), toui_sn u,
    naf_byte_put16 (toui_evillevel u), naf_byte_put16 (of_nat (length (toui_tlvh u)))]"
  have r1: "length (concat ?bss) \<le> sbuf_room sb" using room by (simp add: toui_encode_def)
  obtain s1 where s1: "put_all (sbuf_store mal) sb ?bss = Some (int (length (concat ?bss)), s1)" "sbuf_inv s1"
    "sbuf_done s1 = sbuf_done sb @ concat ?bss" "sbuf_room s1 = sbuf_room sb - length (concat ?bss)"
    using sbw.put_all_fits [OF inv r1] by blast
  have r2: "length (tlvs_encode (toui_tlvh u)) \<le> sbuf_room s1"
    using room s1(4) by (simp add: toui_encode_def)
  obtain s2 where s2: "naf_tlv_render mal (toui_tlvh u) s1 = Some (int (length (tlvs_encode (toui_tlvh u))), s2)"
    "sbuf_inv s2" "sbuf_done s2 = sbuf_done s1 @ tlvs_encode (toui_tlvh u)"
    "sbuf_room s2 = sbuf_room s1 - length (tlvs_encode (toui_tlvh u))"
    using naf_tlv_render_fits [OF _ s1(2) r2] ok by (auto simp: toui_ok_def)
  have "touserinfo_render mal u sb = Some (0, s2)"
    using s1(1) s2(1)
    by (auto simp: touserinfo_render_def naf_sbuf_putstr_def naf_sbuf_putraw_eq naf_sbuf_put_defs
        naf_tlv_gettotallength_eq bind_eq_Some_conv)
  with s1 s2 show ?thesis by (simp add: toui_encode_def)
qed

lemma c_string_append_0: "0 \<notin> set s \<Longrightarrow> c_string (s @ [0]) = s"
  by (induction s) (auto simp: c_string_def)

lemma parse_limit_encoded:
  assumes "total_alloc mal" "\<forall>t \<in> set ts. tlv_ok t" "sbuf_inv sb" "sbuf_rest sb = tlvs_encode ts @ bs"
  shows "\<exists>sb'. naf_tlv_parse_limit mal sb (int (length ts)) = Some (ts, sb') \<and> sbuf_inv sb' \<and> sbuf_rest sb' = bs"
proof (cases ts)
  case Nil
  with assms show ?thesis by (simp add: naf_tlv_parse_limit_def)
next
  case (Cons t ts')
  with parse_encoded_limit [of mal t ts' sb bs "[]"] assms show ?thesis
    by (simp add: naf_tlv_parse_limit_def)
qed

lemma touserinfo_extract_encoded:
  assumes mal: "total_alloc mal" and ok: "toui_ok u" and inv: "sbuf_inv sb"
    and rest: "sbuf_rest sb = toui_encode u @ bs"
  shows "\<exists>sb'. touserinfo_extract mal sb = Some (Some u, sb') \<and> sbuf_inv sb' \<and> sbuf_rest sb' = bs"
proof -
  let ?sn = "toui_sn u" and ?n = "length (toui_tlvh u)"
  let ?len = "of_nat (length ?sn) :: naf_u8_t"
  have sn: "length ?sn < 256" "0 \<notin> set ?sn" "?n < 65536" "\<forall>t \<in> set (toui_tlvh u). tlv_ok t"
    using ok by (auto simp: toui_ok_def)
  have ulen: "unat (ucast ?len :: naf_u16_t) = length ?sn"
    using sn(1) by (simp add: unat_of_nat unat_ucast_u8_u16)
  have un: "uint (of_nat ?n :: naf_u16_t) = int ?n"
    using unat_of_nat_u16 [OF sn(3)] by (metis uint_nat)
  obtain s1 where s1: "naf_sbuf_get8 sb = Some (?len, s1)" "sbuf_inv s1" "sbuf_rest s1 = ?sn @
      naf_byte_put16 (toui_evillevel u) @ naf_byte_put16 (of_nat ?n) @ tlvs_encode (toui_tlvh u) @ bs"
    using sbr.get8_ok [OF inv, of ?len] rest by (auto simp: toui_encode_def)
  let ?s2 = "s1\<lparr>sbuf_pos := sbuf_pos s1 + ucast ?len\<rparr>"
  have s2: "naf_sbuf_getstr mal s1 (ucast ?len) = Some (Some (?sn @ [0]), ?s2)" "sbuf_inv ?s2"
    "sbuf_rest ?s2 = naf_byte_put16 (toui_evillevel u) @ naf_byte_put16 (of_nat ?n) @ tlvs_encode (toui_tlvh u) @ bs"
    using sbuf_load_ok(2,3) [OF s1(2), of "ucast ?len"] total_allocD(1,3) [OF mal] s1(2,3)
    by (simp_all add: naf_sbuf_getstr_eq ulen)
  obtain s3 s4 where s4: "naf_sbuf_get16 ?s2 = Some (toui_evillevel u, s3)"
    "naf_sbuf_get16 s3 = Some (of_nat ?n, s4)" "sbuf_inv s4" "sbuf_rest s4 = tlvs_encode (toui_tlvh u) @ bs"
    using sbr.get16_get16 [OF s2(2,3)] by auto
  obtain s5 where s5: "naf_tlv_parse_limit mal s4 (int ?n) = Some (toui_tlvh u, s5)" "sbuf_inv s5" "sbuf_rest s5 = bs"
    using parse_limit_encoded [OF mal sn(4) s4(3,4)] by blast
  have "touserinfo_extract mal sb = Some (Some u, s5)"
    using total_allocD(3) [OF mal] s1(1) s2(1) s4(1,2) s5(1) un
    by (simp add: touserinfo_extract_def c_string_append_0 [OF sn(2)])
  with s5 show ?thesis by blast
qed

section \<open>SNACs as frames\<close>

text \<open>A SNAC made of a header and TLVs, sent.\<close>

lemma snac_tlvs_frame:
  assumes mal: "total_alloc (oe_mal e)" and ok: "\<forall>t \<in> set ts. tlv_ok t" and len: "length (tlvs_encode ts) \<le> 496"
  obtains sb n sb' rest where "toscar_newsnacsb e grp subtype flags snacid = Some (0, sb)"
    "naf_tlv_render (oe_mal e) ts sb = Some (n, sb')"
    "toscar_flap_sendsbuf_consume e (Some a) sb' st =
       send_frame e a 0x02 (snac_hdr grp subtype flags snacid @ tlvs_encode ts) rest st"
proof -
  obtain sb where sb: "toscar_newsnacsb e grp subtype flags snacid = Some (0, sb)" "sbuf_inv sb"
    "sbuf_done sb = flap_hdr 0x02 @ snac_hdr grp subtype flags snacid" "sbuf_room sb = 496"
    using toscar_newsnacsb_ok [OF mal] by blast
  with naf_tlv_render_fits [OF ok sb(2), of "oe_mal e"] len obtain sb' where
    sb': "naf_tlv_render (oe_mal e) ts sb = Some (int (length (tlvs_encode ts)), sb')" "sbuf_inv sb'"
    "sbuf_done sb' = flap_hdr 0x02 @ snac_hdr grp subtype flags snacid @ tlvs_encode ts" by auto
  from sendsbuf_send_frame [OF sb'(2,3)] that [OF sb(1) sb'(1)] show ?thesis by blast
qed

text \<open>A string TLV, with its terminator.\<close>

definition string_tlv :: "naf_u16_t \<Rightarrow> bytes \<Rightarrow> naf_tlv_t" where
  "string_tlv type s = \<lparr>tlv_type = type, tlv_length = of_nat (length s + 1), tlv_value = Some (s @ [0])\<rparr>"

lemma tlv_ok_string_tlv [simp]: "length s < 65535 \<Longrightarrow> tlv_ok (string_tlv type s)"
  using unat_of_nat_u16 [of "Suc (length s)"] by (auto simp: tlv_ok_def string_tlv_def simp flip: unat_eq_zero)

lemma naf_tlv_addstring_ok:
  assumes mal: "total_alloc mal" and len: "length s < 65535"
  shows "naf_tlv_addstring mal (Some md) (Some ts) type s = Some (0, Some (ts @ [string_tlv type s]))"
proof -
  have n: "unat (of_nat (length s + 1) :: naf_u16_t) = length s + 1" using len by (intro unat_of_nat_u16) simp
  then have "(of_nat (length s + 1) :: naf_u16_t) \<noteq> 0" by (metis add_is_0 one_neq_zero unat_0)
  with n show ?thesis
    using naf_tlv_addraw_ok [OF mal, of "of_nat (length s + 1)" "Some (s @ [0])" "s @ [0]" md ts type]
    by (simp add: naf_tlv_addstring_def string_tlv_def)
qed

lemma naf_tlv_addu16_ok:
  assumes mal: "total_alloc mal"
  shows "naf_tlv_addu16 mal (Some md) (Some ts) type v =
    Some (0, Some (ts @ [\<lparr>tlv_type = type, tlv_length = 2, tlv_value = Some (naf_byte_put16 v)\<rparr>]))"
  using naf_tlv_addraw_ok [OF mal, of 2 "Some (naf_byte_put16 v)" "naf_byte_put16 v" md ts type]
  by (simp add: naf_tlv_addu16_def)

lemma tlv_cstring_get:
  assumes "total_alloc mal" "\<forall>t \<in> set ts. tlv_ok t"
  shows "tlv_cstring mal ts type = Some (map_option (\<lambda>t. c_string (tlv_bytes t)) (naf_tlv_get ts type))"
proof (cases "naf_tlv_get ts type")
  case None
  then show ?thesis by (simp add: tlv_cstring_def naf_tlv_getasstring_def)
next
  case (Some t)
  then have "tlv_ok t" using assms(2) by (auto simp: naf_tlv_get_def find_Some_iff)
  then have "tlv_value_read t (unat (tlv_length t)) = Some (tlv_bytes t)"
    by (auto simp: tlv_value_read_def tlv_ok_def tlv_bytes_def mem_read_def unat_eq_zero split: option.splits)
  moreover have "c_string (b @ [0]) = c_string b" for b by (induction b) (auto simp: c_string_def)
  moreover obtain m where "mal (unat (tlv_length t) + 1) = Some m" using total_allocD(2) [OF assms(1)] by blast
  ultimately show ?thesis using Some by (simp add: tlv_cstring_def naf_tlv_getasstring_def)
qed

lemma naf_tlv_parse_encoded:
  assumes "total_alloc mal" "\<forall>t \<in> set ts. tlv_ok t" "sbuf_inv sb" "sbuf_rest sb = tlvs_encode ts"
  obtains sb' where "naf_tlv_parse mal sb = Some (ts, sb')"
  using parse_encoded [OF assms, of "[]"] by (auto simp: naf_tlv_parse_def naf_tlv_parse_limit_def)

section \<open>Properties\<close>

text \<open>C26. User information survives the wire: what \<^verbatim>\<open>touserinfo_render\<close> writes into a fresh buffer
  that holds it is read back completely by \<^verbatim>\<open>touserinfo_extract\<close> from the bytes written.\<close>

theorem userinfo_roundtrip:
  assumes mal: "total_alloc mal" and ok: "toui_ok u" and inv: "sbuf_inv sb" and new: "sbuf_done sb = []"
    and room: "length (toui_encode u) \<le> sbuf_room sb"
  shows "\<exists>sb' src'. touserinfo_render mal u sb = Some (0, sb') \<and>
    touserinfo_extract mal (snd (naf_sbuf_init mal md (sbuf_buf sb') (sbuf_pos sb'))) = Some (Some u, src') \<and>
    sbuf_rest src' = []"
proof -
  obtain sb' where sb': "touserinfo_render mal u sb = Some (0, sb')" "sbuf_inv sb'" "sbuf_done sb' = toui_encode u"
    using touserinfo_render_fits [OF inv ok room, of mal] new by auto
  note invs = sbuf_invD [OF sb'(2)]
  obtain src where src: "naf_sbuf_init mal md (Some (sbuf_mem sb')) (sbuf_pos sb') = (0, src)" "sbuf_inv src"
    "sbuf_rest src = sbuf_done sb'"
    using sbuf_inv_init_given [of "sbuf_pos sb'" "sbuf_mem sb'" mal md] invs(2,3) by (auto simp: sbuf_done_def)
  with touserinfo_extract_encoded [OF mal ok src(2), of "[]"] sb' show ?thesis by (auto simp: invs(1))
qed

theorem userinfo_roundtrip_witness:
  "\<exists>sb' src'. touserinfo_render zero_alloc \<lparr>toui_sn = [97, 110, 110], toui_evillevel = 5, toui_tlvh = []\<rparr>
      (snd (naf_sbuf_init zero_alloc None (Some (replicate 20 0)) 20)) = Some (0, sb') \<and>
    touserinfo_extract zero_alloc (snd (naf_sbuf_init zero_alloc None (sbuf_buf sb') (sbuf_pos sb'))) =
      Some (Some \<lparr>toui_sn = [97, 110, 110], toui_evillevel = 5, toui_tlvh = []\<rparr>, src') \<and> sbuf_rest src' = []"
  by (rule userinfo_roundtrip)
     (simp_all add: naf_sbuf_init_def sbuf_inv_def sbuf_done_def sbuf_room_def toui_ok_def toui_encode_def)

text \<open>C5. A successful login answer is redirected through the proxy: the cookie is remembered with the
  address and the screen name in it, and the client gets the same TLVs with the address replaced by
  the proxy's own, last, under the same request id. The TLVs of that answer have at most 496 bytes together, so that
  they do not fill the buffer.\<close>

theorem authsuccess_redirects:
  assumes mal: "total_alloc (oe_mal e)" and pl: "sbuf_inv (snac_payload snac)"
    and rest: "sbuf_rest (snac_payload snac) = tlvs_encode ts" and ok: "\<forall>t \<in> set ts. tlv_ok t"
    and tlvs: "naf_tlv_get ts 0x0004 = None" "naf_tlv_get ts 0x0008 = None" "naf_tlv_get ts 0x0001 = Some snt"
      "naf_tlv_get ts 0x0006 = Some ck" "naf_tlv_get ts 0x0005 = Some ipt" "tlv_length ck \<noteq> 0"
    and new: "toscar_ckcache__find (tlv_bytes ck, tlv_length ck) (os_ckcache st) = None"
    and conns: "cs_conns st conn = Some c" "c_endpoint c = Some cl"
    and addr: "naf_conn_getlocaladdrstr (oe_mal e) (oe_extip e) (Some cl) st = Some (Some las)" "length las < 65535"
    and size: "length (tlvs_encode (snd (naf_tlv_remove ts 0x0005) @ [string_tlv 0x0005 las])) \<le> 496"
  shows "\<exists>rest. toscar_snachandler_0017_0003 e conn snac st =
    do { (r, st) \<leftarrow> send_frame e cl 0x02 (snac_hdr 0x0017 0x0003 0x0000 (snac_id snac) @
             tlvs_encode (snd (naf_tlv_remove ts 0x0005) @ [string_tlv 0x0005 las])) rest
           (st\<lparr>os_ckcache := ck_entry (oe_now e) (tlv_bytes ck) (tlv_length ck)
              (c_string (tlv_bytes ipt)) (c_string (tlv_bytes snt)) # os_ckcache st\<rparr>);
         Some (if r = -1 then HRET_ERROR else HRET_DIGESTED, st) }"
proof -
  let ?ts = "snd (naf_tlv_remove ts 0x0005) @ [string_tlv 0x0005 las]"
  let ?st = "st\<lparr>os_ckcache := ck_entry (oe_now e) (tlv_bytes ck) (tlv_length ck)
              (c_string (tlv_bytes ipt)) (c_string (tlv_bytes snt)) # os_ckcache st\<rparr>"
  obtain pl' where parse: "naf_tlv_parse (oe_mal e) (snac_payload snac) = Some (ts, pl')"
    by (rule naf_tlv_parse_encoded [OF mal ok pl rest])
  have mem: "ck \<in> set ts" "ipt \<in> set ts" "tlv_type ipt = 5"
    using tlvs(4,5) by (auto simp: naf_tlv_get_def find_Some_iff)
  then have ckok: "tlv_ok ck" "tlv_ok ipt" using ok by auto
  obtain tsr where rem: "naf_tlv_remove ts 0x0005 = (Some ipt, tsr)"
    using tlvs(5) by (metis fst_unlink_first naf_tlv_get_def naf_tlv_remove_def prod.collapse)
  have ip: "tlv_cstring (oe_mal e) [ipt] 0x0005 = Some (Some (c_string (tlv_bytes ipt)))"
    using tlv_cstring_get [OF mal, of "[ipt]" 5] ckok(2) mem(3) by (simp add: naf_tlv_get_def)
  have ckv: "tlv_value ck = Some (tlv_bytes ck)" "length (tlv_bytes ck) = unat (tlv_length ck)"
    using ckok(1) tlvs(6) length_tlv_bytes [OF ckok(1)] by (auto simp: tlv_ok_def tlv_bytes_def split: option.splits)
  have add: "toscar_ckcache_add (oe_mal e) (oe_now e) (Some (oe_mod e)) (tlv_value ck) (tlv_length ck)
      (Some (c_string (tlv_bytes ipt))) (Some (c_string (tlv_bytes snt))) TOSCAR_SERVTYPE_BOS (os_ckcache st) =
      Some (0, os_ckcache ?st)"
    unfolding ckv(1) using tlvs(6) new ckv(2) total_allocD(3) [OF mal]
    by (subst toscar_ckcache_add_eq) simp_all
  have las: "naf_conn_getlocaladdrstr (oe_mal e) (oe_extip e) (Some cl) ?st = Some (Some las)"
    unfolding addr(1) [symmetric] by (rule getlocaladdrstr_cong) simp
  have "set (snd (naf_tlv_remove ts 0x0005)) \<subseteq> set ts" unfolding naf_tlv_remove_def by (rule set_unlink_first)
  with ok addr(2) have ok': "\<forall>t \<in> set ?ts. tlv_ok t" by auto
  obtain sb n sb' rst where "toscar_newsnacsb e 0x0017 0x0003 0x0000 (snac_id snac) = Some (0, sb)"
    "naf_tlv_render (oe_mal e) ?ts sb = Some (n, sb')"
    "toscar_flap_sendsbuf_consume e (Some cl) sb' ?st =
       send_frame e cl 0x02 (snac_hdr 0x0017 0x0003 0x0000 (snac_id snac) @ tlvs_encode ?ts) rst ?st"
    by (rule snac_tlvs_frame [OF mal ok' size])
  then show ?thesis
    unfolding toscar_snachandler_0017_0003_def
    using conns parse rem ip add las naf_tlv_addstring_ok [OF mal addr(2)] tlv_cstring_get [OF mal ok, of 1] tlvs
    by (intro exI [of _ rst]) simp
qed

text \<open>A login answer and the two connections of a client, for witnesses.\<close>

definition login_tlvs :: "naf_tlv_t list" where
  "login_tlvs = [\<lparr>tlv_type = 1, tlv_length = 3, tlv_value = Some [97, 110, 110]\<rparr>,
     \<lparr>tlv_type = 5, tlv_length = 2, tlv_value = Some [98, 99]\<rparr>,
     \<lparr>tlv_type = 6, tlv_length = 4, tlv_value = Some [1, 2, 3, 4]\<rparr>]"

definition login_snac :: toscar_snac where
  "login_snac = \<lparr>snac_group = 0x17, snac_subtype = 3, snac_flags = 0, snac_id = 77,
     snac_extinfo = \<lparr>sbuf_owner = None, sbuf_flags = 0, sbuf_buf = None, sbuf_buflen = 0, sbuf_pos = 0\<rparr>,
     snac_payload = \<lparr>sbuf_owner = None, sbuf_flags = 0, sbuf_buf = Some (tlvs_encode login_tlvs),
       sbuf_buflen = 21, sbuf_pos = 0\<rparr>\<rparr>"

definition pair_state :: "(nat \<Rightarrow> bytes list) ostate" where
  "pair_state = sample_state\<lparr>cs_conns := [4 \<mapsto> sample_conn\<lparr>c_endpoint := Some 5\<rparr>,
     5 \<mapsto> sample_conn\<lparr>c_fdt := Some 3, c_type := NAF_CONN_TYPE_FLAP OR NAF_CONN_TYPE_SERVER,
          c_endpoint := Some 4\<rparr>], cs_next := 6\<rparr>"

definition sample_addr :: bytes where
  "sample_addr = [49, 58, 50]"

lemma login_tlvs_facts:
  "\<forall>t \<in> set login_tlvs. tlv_ok t" "sbuf_inv (snac_payload login_snac)"
  "sbuf_rest (snac_payload login_snac) = tlvs_encode login_tlvs"
  by (simp_all add: login_tlvs_def login_snac_def tlv_ok_def tlv_encode_def tlv_bytes_def sbuf_inv_def
      sbuf_rest_def sbuf_mem_def naf_byte_put16_def)

theorem authsuccess_redirects_witness:
  "\<exists>rest. toscar_snachandler_0017_0003 (sample_env\<lparr>oe_extip := Some sample_addr\<rparr>) 5 login_snac pair_state =
    do { (r, st) \<leftarrow> send_frame (sample_env\<lparr>oe_extip := Some sample_addr\<rparr>) 4 0x02 (snac_hdr 0x0017 0x0003 0x0000 77 @
             tlvs_encode (snd (naf_tlv_remove login_tlvs 0x0005) @ [string_tlv 0x0005 sample_addr])) rest
           (pair_state\<lparr>os_ckcache := [ck_entry 1000 [1, 2, 3, 4] 4 [98, 99] [97, 110, 110]]\<rparr>);
         Some (if r = -1 then HRET_ERROR else HRET_DIGESTED, st) }"
proof -
  let ?e = "sample_env\<lparr>oe_extip := Some sample_addr\<rparr>"
  note defs = sample_env_def pair_state_def sample_state_def sample_conn_def login_tlvs_def naf_tlv_get_def
    naf_tlv_remove_def naf_conn_getlocaladdrstr_def sample_addr_def zero_alloc_def tlv_encode_def tlv_bytes_def
    string_tlv_def c_string_def
  have "\<exists>rest. toscar_snachandler_0017_0003 ?e 5 login_snac pair_state =
    do { (r, st) \<leftarrow> send_frame ?e 4 0x02 (snac_hdr 0x0017 0x0003 0x0000 (snac_id login_snac) @
             tlvs_encode (snd (naf_tlv_remove login_tlvs 0x0005) @ [string_tlv 0x0005 sample_addr])) rest
           (pair_state\<lparr>os_ckcache := ck_entry (oe_now ?e) (tlv_bytes (login_tlvs ! 2)) (tlv_length (login_tlvs ! 2))
              (c_string (tlv_bytes (login_tlvs ! 1))) (c_string (tlv_bytes (login_tlvs ! 0))) # os_ckcache pair_state\<rparr>);
         Some (if r = -1 then HRET_ERROR else HRET_DIGESTED, st) }"
  proof (rule authsuccess_redirects [OF _ login_tlvs_facts(2,3,1), where c = "the (cs_conns pair_state 5)"])
    show "total_alloc (oe_mal ?e)" by (simp add: sample_env_def)
    show "naf_conn_getlocaladdrstr (oe_mal ?e) (oe_extip ?e) (Some 4) pair_state = Some (Some sample_addr)"
      by (simp add: defs)
  qed (simp_all add: defs)
  then show ?thesis by (simp add: sample_env_def login_snac_def login_tlvs_def tlv_bytes_def c_string_def
      pair_state_def sample_state_def)
qed

text \<open>The answer that refuses a login.\<close>

definition authfail_body :: "bytes \<Rightarrow> naf_u16_t \<Rightarrow> bytes \<Rightarrow> bytes" where
  "authfail_body sn code url = snac_hdr 0x0017 0x0003 0x0000 0 @ tlvs_encode [string_tlv 0x0001 sn,
     \<lparr>tlv_type = 0x0008, tlv_length = 2, tlv_value = Some (naf_byte_put16 code)\<rparr>, string_tlv 0x0004 url]"

lemma auth_sendfail_frame:
  assumes mal: "total_alloc (oe_mal e)" and sn: "sn = (case sno of Some s \<Rightarrow> s | None \<Rightarrow> [])"
    and len: "length sn \<le> 400" "length url \<le> 60"
  obtains rest where "toscar_auth_sendfail e a sno code (Some url) st =
    send_frame e a 0x02 (authfail_body sn code url) rest st"
proof -
  let ?ts = "[string_tlv 0x0001 sn,
      \<lparr>tlv_type = 0x0008, tlv_length = 2, tlv_value = Some (naf_byte_put16 code)\<rparr>, string_tlv 0x0004 url]"
  have "tlv_ok \<lparr>tlv_type = 0x0008, tlv_length = 2, tlv_value = Some (naf_byte_put16 code)\<rparr>"
    by (simp add: tlv_ok_def)
  with len have ok: "\<forall>t \<in> set ?ts. tlv_ok t" by simp
  have "length (tlvs_encode ?ts) \<le> 496" using len by (simp add: tlv_encode_def string_tlv_def tlv_bytes_def)
  from snac_tlvs_frame [OF mal ok this, of "0x0017" "0x0003" 0 0 a st] obtain sb n sb' rest where
    "toscar_newsnacsb e 0x0017 0x0003 0 0 = Some (0, sb)" "naf_tlv_render (oe_mal e) ?ts sb = Some (n, sb')"
    "toscar_flap_sendsbuf_consume e (Some a) sb' st =
       send_frame e a 0x02 (snac_hdr 0x0017 0x0003 0 0 @ tlvs_encode ?ts) rest st" by blast
  then show ?thesis
    using len sn naf_tlv_addstring_ok [OF mal] naf_tlv_addu16_ok [OF mal]
    by (intro that [of rest]) (simp add: toscar_auth_sendfail_def authfail_body_def)
qed

text \<open>C29. A client that asks for authentication with no screen name, or with one of less than 2 or of 97 to 400
  characters, is refused: it gets an answer with error 4, then the closing frame, in two frames
  with consecutive numbers, and its connection is closed once they are out; no connection to the
  authorizer is opened.\<close>

theorem bad_screenname_refused:
  assumes mal: "total_alloc (oe_mal e)" and pl: "sbuf_inv (snac_payload snac)"
    and rest: "sbuf_rest (snac_payload snac) = tlvs_encode ts" and ok: "\<forall>t \<in> set ts. tlv_ok t"
    and sn: "sn = (case naf_tlv_get ts 0x0001 of None \<Rightarrow> [] | Some t \<Rightarrow> c_string (tlv_bytes t))"
    and bad: "length sn < 2 \<or> 96 < length sn" "length sn \<le> 400"
    and q: "tx_queues (oe_nb e) q" "tx_accepts (oe_nb e)" "\<And>fdt s. q (snd (nb_setcloseonflush (oe_nb e) fdt s)) = q s"
    and c: "cs_conns st conn = Some c" "c_fdt c = Some fdt"
  shows "\<exists>st' s. toscar_snachandler_0017_0006 e conn snac st = Some (HRET_DIGESTED, st') \<and>
    q (cs_nb st') = (q (cs_nb st))(fdt := q (cs_nb st) fdt @
      [flap_frame 0x02 (c_nextseqnum c) (authfail_body sn 0x0004 fail_url),
       flap_frame 0x04 (c_nextseqnum c + 1) []]) \<and>
    cs_nb st' = snd (nb_setcloseonflush (oe_nb e) fdt s) \<and> map_option c_endpoint (cs_conns st' conn) = Some (c_endpoint c)"
proof -
  obtain pl' where parse: "naf_tlv_parse (oe_mal e) (snac_payload snac) = Some (ts, pl')"
    by (rule naf_tlv_parse_encoded [OF mal ok pl rest])
  define sno where "sno = map_option (\<lambda>t. c_string (tlv_bytes t)) (naf_tlv_get ts 0x0001)"
  have sno: "sn = (case sno of Some s \<Rightarrow> s | None \<Rightarrow> [])" by (simp add: sn sno_def split: option.split)
  then have cond: "sno = None \<or> length (the sno) < 2 \<or> length (the sno) > 96" using bad(1) by (cases sno) auto
  have url: "length fail_url \<le> 60" by (simp add: fail_url_def cstr_def)
  obtain r1 where f1: "toscar_auth_sendfail e conn sno 0x0004 (Some fail_url) st = send_frame e conn 0x02
      (authfail_body sn 0x0004 fail_url) r1 st"
    by (rule auth_sendfail_frame [OF mal sno bad(2) url])
  obtain st1 where s1: "send_frame e conn 0x02 (authfail_body sn 0x0004 fail_url) r1 st = Some (0, st1)"
    "cs_conns st1 = (cs_conns st)(conn \<mapsto> c\<lparr>c_lasttx_soft := oe_now e, c_nextseqnum := c_nextseqnum c + 1\<rparr>)"
    "q (cs_nb st1) = (q (cs_nb st))(fdt := q (cs_nb st) fdt @ [flap_frame 0x02 (c_nextseqnum c)
       (authfail_body sn 0x0004 fail_url)])"
    by (rule send_frame_queue [OF q(1,2) c])
  obtain r2 where f2: "toscar_flap_sendconnclose e (Some conn) 0 None st1 = send_frame e conn 0x04 [] r2 st1"
    using packet_frames(2) [OF mal, of "[]"] by auto
  have c1: "cs_conns st1 conn = Some (c\<lparr>c_lasttx_soft := oe_now e, c_nextseqnum := c_nextseqnum c + 1\<rparr>)"
    "c_fdt (c\<lparr>c_lasttx_soft := oe_now e, c_nextseqnum := c_nextseqnum c + 1\<rparr>) = Some fdt"
    using s1(2) c(2) by simp_all
  obtain st2 where s2: "send_frame e conn 0x04 [] r2 st1 = Some (0, st2)"
    "cs_conns st2 conn = Some (c\<lparr>c_lasttx_soft := oe_now e, c_nextseqnum := c_nextseqnum c + 1 + 1\<rparr>)"
    "q (cs_nb st2) = (q (cs_nb st1))(fdt := q (cs_nb st1) fdt @ [flap_frame 0x04 (c_nextseqnum c + 1) []])"
    by (rule send_frame_queue [OF q(1,2) c1, of 4 "[]" r2]) simp
  have "naf_conn_schedulekill (oe_nb e) (Some conn) st2 =
      Some (fst (nb_setcloseonflush (oe_nb e) fdt (cs_nb st2)), st2\<lparr>cs_nb := snd (nb_setcloseonflush (oe_nb e) fdt (cs_nb st2))\<rparr>)"
    using s2(2) c(2) by (simp add: naf_conn_schedulekill_def case_prod_beta)
  then have "toscar_snachandler_0017_0006 e conn snac st =
      Some (HRET_DIGESTED, st2\<lparr>cs_nb := snd (nb_setcloseonflush (oe_nb e) fdt (cs_nb st2))\<rparr>)"
    unfolding toscar_snachandler_0017_0006_def
    using parse tlv_cstring_get [OF mal ok, of 1] cond f1 s1(1) f2 s2(1) by (simp add: sno_def)
  then show ?thesis using s1 s2 q(3) c by auto
qed

theorem bad_screenname_refused_witness:
  "\<exists>st' s. toscar_snachandler_0017_0006 sample_env 4
      (login_snac\<lparr>snac_payload := (snac_payload login_snac)\<lparr>sbuf_buflen := 0\<rparr>\<rparr>) sample_state = Some (HRET_DIGESTED, st') \<and>
    cs_nb st' = (cs_nb sample_state)(2 := cs_nb sample_state 2 @
      [flap_frame 0x02 (c_nextseqnum sample_conn) (authfail_body [] 0x0004 fail_url),
       flap_frame 0x04 (c_nextseqnum sample_conn + 1) []]) \<and>
    cs_nb st' = snd (nb_setcloseonflush (oe_nb sample_env) 2 s) \<and>
    map_option c_endpoint (cs_conns st' 4) = Some (c_endpoint sample_conn)"
proof (rule bad_screenname_refused [where ts = "[]" and q = "\<lambda>s. s"])
  show "tx_queues (oe_nb sample_env) (\<lambda>s. s)" "tx_accepts (oe_nb sample_env)" by (simp_all add: sample_env_def)
qed (simp_all add: login_snac_def sbuf_inv_def sbuf_rest_def naf_tlv_get_def sample_env_def sample_state_def
    sample_conn_def queue_ops_def)

text \<open>A client that reports itself online gets a node: afterwards its screen name is found, and the
  packet is passed on to the server. A node that was not there before is local and belongs to the
  module. A node that was there, for instance because the user was sent a message shortly before
  logging in, stays as it was, not local.\<close>

theorem client_online:
  assumes mal: "total_alloc (oe_mal e)" and inv: "gnr_inv (os_gnr st)"
    and c: "cs_conns st conn = Some c" "c_type c AND NAF_CONN_TYPE_CLIENT \<noteq> 0"
    and sn: "conn_screenname e (c_endpoint c) st = Some (Some sn)"
    and detach: "toscar__detacholdconns e sn st = Some (f, st1)"
  shows "\<exists>st' gn. toscar_snachandler_0001_0002 e conn snac st = Some (HRET_FORWARD, st') \<and>
    gnr_node_findbyname (Some sn) (Some OSCARSERVICE) (os_gnr st') = Some gn \<and> cs_conns st' = cs_conns st \<and>
    (case gnr_node_findbyname (Some sn) (Some OSCARSERVICE) (os_gnr st) of
       None \<Rightarrow> gn_metric gn = GNR_NODE_METRIC_LOCAL \<and> gn_ownermod gn = oe_mod e
     | Some old \<Rightarrow> gn = old)"
proof -
  obtain n where st1: "st1 = st\<lparr>cs_nb := n\<rparr>" using detacholdconns_frame [OF detach] by blast
  obtain gn g where g: "gnr_node_online (oe_mal e) (oe_now e) (Some (oe_mod e)) (Some sn) (Some OSCARSERVICE) 0
      GNR_NODE_METRIC_LOCAL (os_gnr st) = (Some gn, g)"
    "gnr_node_findbyname (Some sn) (Some OSCARSERVICE) g = Some gn"
    "if gnr_node_findbyname (Some sn) (Some OSCARSERVICE) (os_gnr st) = None
     then gn_metric gn = GNR_NODE_METRIC_LOCAL \<and> gn_ownermod gn = oe_mod e else g = os_gnr st"
    using gnr_node_online_found [OF inv mal, of "oe_now e" "oe_mod e" sn OSCARSERVICE 0 0 0 0 0 0]
    by (metis (full_types))
  have "toscar_snachandler_0001_0002 e conn snac st = Some (HRET_FORWARD, st1\<lparr>os_gnr := g\<rparr>)"
    unfolding toscar_snachandler_0001_0002_def using c sn detach g(1) by (simp add: st1)
  then show ?thesis using g(2,3) by (auto simp: st1 split: option.splits if_splits)
qed

text \<open>The pair with the screen name attached to the server side.\<close>

definition online_state :: "(nat \<Rightarrow> bytes list) ostate" where
  "online_state = conn_update 5 (\<lambda>c. c\<lparr>c_taglist := [\<lparr>tag_owner = 7,
     tag_name = cstr ''conn.screenname'', tag_type = CHR ''S'', tag_data = DStr [97, 110, 110]\<rparr>]\<rparr>) pair_state"

lemma online_state_facts:
  "cs_conns online_state 4 = Some (sample_conn\<lparr>c_endpoint := Some 5\<rparr>)"
  "conn_screenname sample_env (Some 5) online_state = Some (Some [97, 110, 110])"
  "toscar__detacholdconns sample_env [97, 110, 110] online_state = Some (None, online_state)"
  "os_gnr online_state = gnr_empty"
  by (simp_all add: online_state_def pair_state_def sample_state_def sample_conn_def conn_screenname_def
      naf_conn_tag_fetch_def naf_tag_fetch_def sample_env_def toscar__detacholdconns_def naf_conn_find_def
      queue_ops_def toscar__detacholdconns__matcher_def badname_def cstr_def conn_update_def)

theorem client_online_witness:
  "\<exists>st' gn. toscar_snachandler_0001_0002 sample_env 4 login_snac online_state = Some (HRET_FORWARD, st') \<and>
    gnr_node_findbyname (Some [97, 110, 110]) (Some OSCARSERVICE) (os_gnr st') = Some gn"
proof -
  have inv: "gnr_inv (os_gnr online_state)" unfolding online_state_facts by (rule gnr_reachable_inv [OF gnr_empty_reachable])
  have mal: "total_alloc (oe_mal sample_env)" by (simp add: sample_env_def)
  have c: "c_type (sample_conn\<lparr>c_endpoint := Some 5\<rparr>) AND NAF_CONN_TYPE_CLIENT \<noteq> 0"
    "conn_screenname sample_env (c_endpoint (sample_conn\<lparr>c_endpoint := Some 5\<rparr>)) online_state = Some (Some [97, 110, 110])"
    by (simp_all add: sample_conn_def online_state_facts)
  from client_online [OF mal inv online_state_facts(1) c online_state_facts(3)] show ?thesis by blast
qed

end
