(* ===== verification/GnrMsg.thy ===== *)
theory GnrMsg
  imports GnrNode
begin

text \<open>
  Message handlers and message routing, \<^verbatim>\<open>gnr/msg.c\<close>. The array \<^verbatim>\<open>gnr__msghandlers\<close> is a
  list of three handler lists. Handler and output functions are identified by their
  addresses; what they do is given by the parameters \<open>call\<close> and \<open>outp\<close>, functions on the message,
  the handler info and a world made of the node table and whatever else the
  handlers work on.
\<close>

section \<open>Data\<close>

record gnrmsg =
  gm_srcname :: "bytes option"
  gm_srcnameservice :: "bytes option"
  gm_destname :: "bytes option"
  gm_destnameservice :: "bytes option"
  gm_type :: naf_u16_t
  gm_msgtexttype :: "bytes option"
  gm_msgtext :: "bytes option"
  gm_msgflags :: naf_u32_t
  gm_routeflags :: naf_u16_t
  gm_groupname :: "bytes option"
  gm_srcconn :: "nat option"
  gm_taglist :: taglist

text \<open>The message that \<^verbatim>\<open>memset(gm, 0, ...)\<close> leaves behind.\<close>

definition gnrmsg_zero :: gnrmsg where
  "gnrmsg_zero = \<lparr>gm_srcname = None, gm_srcnameservice = None, gm_destname = None,
     gm_destnameservice = None, gm_type = 0, gm_msgtexttype = None, gm_msgtext = None,
     gm_msgflags = 0, gm_routeflags = 0, gm_groupname = None, gm_srcconn = None, gm_taglist = []\<rparr>"

abbreviation (input) GNR_MSG_MSGFLAG_AUTORESPONSE :: naf_u32_t where "GNR_MSG_MSGFLAG_AUTORESPONSE \<equiv> 1"
abbreviation (input) GNR_MSG_MSGFLAG_ACKREQUESTED :: naf_u32_t where "GNR_MSG_MSGFLAG_ACKREQUESTED \<equiv> 2"
abbreviation (input) GNR_MSG_ROUTEFLAG_ROUTED_LOCAL :: naf_u16_t where "GNR_MSG_ROUTEFLAG_ROUTED_LOCAL \<equiv> 1"
abbreviation (input) GNR_MSG_ROUTEFLAG_ROUTED_FORWARD :: naf_u16_t where "GNR_MSG_ROUTEFLAG_ROUTED_FORWARD \<equiv> 4"

text \<open>\<^verbatim>\<open>GNR_MSG_ROUTEFLAG_ISROUTED\<close>: any of the four routed flags.\<close>

definition ISROUTED :: "naf_u16_t \<Rightarrow> bool" where
  "ISROUTED x \<longleftrightarrow> x AND 0x000f \<noteq> 0"

text \<open>Nodes are given by their addresses.\<close>

record gnrmsg_handler_info =
  hi_srcmod :: nafmod
  hi_destconn :: "nat option"
  hi_targetmod :: "nafmod option"
  hi_srcnode :: "nat option"
  hi_destnode :: "nat option"

record mhlist =
  mh_position :: int
  mh_module :: nafmod
  mh_handlerfunc :: nat
  mh_description :: bytes

abbreviation (input) STAGE_PREROUTING :: int where "STAGE_PREROUTING \<equiv> 0"
abbreviation (input) STAGE_ROUTING :: int where "STAGE_ROUTING \<equiv> 1"
abbreviation (input) STAGE_POSTROUTING :: int where "STAGE_POSTROUTING \<equiv> 2"
abbreviation (input) GNR_MSG_MSGHANDLER_STAGE_MAX :: int where "GNR_MSG_MSGHANDLER_STAGE_MAX \<equiv> 2"
abbreviation (input) GNR_MSG_MSGHANDLER_POS_MIN :: int where "GNR_MSG_MSGHANDLER_POS_MIN \<equiv> 0"
abbreviation (input) GNR_MSG_MSGHANDLER_POS_MAX :: int where "GNR_MSG_MSGHANDLER_POS_MAX \<equiv> 100"

text \<open>Sizes on an LP64 system.\<close>

abbreviation (input) sizeof_mhlist :: nat where "sizeof_mhlist \<equiv> 40"
abbreviation (input) sizeof_gnrmsg :: nat where "sizeof_gnrmsg \<equiv> 128"

type_synonym msghandlers = "mhlist list list"

section \<open>Handler registration\<close>

definition mh_alloc :: "allocator \<Rightarrow> bool" where
  "mh_alloc mal \<longleftrightarrow> mal sizeof_mhlist \<noteq> None"

text \<open>The insertion loop stops in front of the first handler with the same or a higher position.\<close>

fun mh_insert :: "mhlist \<Rightarrow> mhlist list \<Rightarrow> mhlist list" where
  "mh_insert mh [] = [mh]"
| "mh_insert mh (cur # rest) =
     (if mh_position cur \<ge> mh_position mh then mh # cur # rest else cur # mh_insert mh rest)"

fun mh_remove :: "nat \<Rightarrow> mhlist list \<Rightarrow> mhlist option \<times> mhlist list" where
  "mh_remove handlerfunc [] = (None, [])"
| "mh_remove handlerfunc (cur # rest) =
     (if mh_handlerfunc cur = handlerfunc then (Some cur, rest)
      else (let (r, rest) = mh_remove handlerfunc rest in (r, cur # rest)))"

text \<open>Only the upper end of the stage is checked; an index below 0 is a fault.\<close>

definition gnr_msg_addmsghandler ::
    "allocator \<Rightarrow> nafmod \<Rightarrow> int \<Rightarrow> int \<Rightarrow> nat \<Rightarrow> bytes \<Rightarrow> msghandlers \<Rightarrow> (int \<times> msghandlers) option" where
  "gnr_msg_addmsghandler mal md stage position handlerfunc desc hs =
     (if stage > GNR_MSG_MSGHANDLER_STAGE_MAX then Some (-1, hs)
      else if position < GNR_MSG_MSGHANDLER_POS_MIN \<or> position > GNR_MSG_MSGHANDLER_POS_MAX
      then Some (-1, hs)
      else if \<not> mh_alloc mal then Some (-1, hs)
      else if mal (length desc + 1) = None then Some (-1, hs)
      else if stage < 0 then None
      else
        (let mh = \<lparr>mh_position = position, mh_module = md, mh_handlerfunc = handlerfunc,
                   mh_description = desc\<rparr>
         in Some (0, hs[nat stage := mh_insert mh (hs ! nat stage)])))"

definition gnr_msg_remmsghandler :: "int \<Rightarrow> nat \<Rightarrow> msghandlers \<Rightarrow> (int \<times> msghandlers) option" where
  "gnr_msg_remmsghandler stage handlerfunc hs =
     (if stage > GNR_MSG_MSGHANDLER_STAGE_MAX then Some (-1, hs)
      else if stage < 0 then None
      else
        (case mh_remove handlerfunc (hs ! nat stage) of
           (None, _) \<Rightarrow> Some (-1, hs)
         | (Some mh, rest) \<Rightarrow> Some (0, hs[nat stage := rest])))"

definition gnr_msg__register :: msghandlers where
  "gnr_msg__register = replicate 3 []"

section \<open>Messages\<close>

definition gnr_msg_new :: "allocator \<Rightarrow> gnrmsg option" where
  "gnr_msg_new mal = (case mal sizeof_gnrmsg of None \<Rightarrow> None | Some _ \<Rightarrow> Some gnrmsg_zero)"

text \<open>The null message is dereferenced.\<close>

definition gnr_msg_free ::
    "(nafmod \<Rightarrow> ('u \<Rightarrow> bytes \<Rightarrow> char \<Rightarrow> tagdata \<Rightarrow> 'u) option) \<Rightarrow> gnrmsg option \<Rightarrow> 'u \<Rightarrow> 'u option" where
  "gnr_msg_free freetag gm u = map_option (\<lambda>gm. naf_tag_freelist freetag (gm_taglist gm) u) gm"

definition gnr_msg_clonetags ::
    "allocator \<Rightarrow> gnrmsg option \<Rightarrow> gnrmsg option \<Rightarrow> (int \<times> gnrmsg option) option" where
  "gnr_msg_clonetags mal destgm srcgm =
     (case (destgm, srcgm) of
        (Some d, Some s) \<Rightarrow> do {
          (r, tags) \<leftarrow> naf_tag_cloneall mal (Some (gm_taglist d)) (Some (gm_taglist s));
          tags \<leftarrow> tags;
          Some (r, Some (d\<lparr>gm_taglist := tags\<rparr>))
        }
      | _ \<Rightarrow> Some (-1, destgm))"

definition gnr_msg_tag_add ::
    "allocator \<Rightarrow> nafmod option \<Rightarrow> gnrmsg option \<Rightarrow> bytes option \<Rightarrow> char \<Rightarrow> tagdata \<Rightarrow> int \<times> gnrmsg option" where
  "gnr_msg_tag_add mal md gm name type data =
     (case gm of
        None \<Rightarrow> (-1, None)
      | Some g \<Rightarrow>
          (let (r, tags) = naf_tag_add mal (Some (gm_taglist g)) md name type data
           in (r, map_option (\<lambda>tags. g\<lparr>gm_taglist := tags\<rparr>) tags)))"

definition gnr_msg_tag_remove ::
    "nafmod option \<Rightarrow> gnrmsg option \<Rightarrow> bytes option \<Rightarrow> int \<times> (char \<times> tagdata) option \<times> gnrmsg option" where
  "gnr_msg_tag_remove md gm name =
     (case gm of
        None \<Rightarrow> (-1, None, None)
      | Some g \<Rightarrow>
          (let (r, out, tags) = naf_tag_remove (Some (gm_taglist g)) md name
           in (r, out, map_option (\<lambda>tags. g\<lparr>gm_taglist := tags\<rparr>) tags)))"

definition gnr_msg_tag_ispresent :: "nafmod option \<Rightarrow> gnrmsg option \<Rightarrow> bytes option \<Rightarrow> int" where
  "gnr_msg_tag_ispresent md gm name =
     (case gm of None \<Rightarrow> -1 | Some g \<Rightarrow> naf_tag_ispresent (Some (gm_taglist g)) md name)"

definition gnr_msg_tag_fetch ::
    "nafmod option \<Rightarrow> gnrmsg option \<Rightarrow> bytes option \<Rightarrow> int \<times> (char \<times> tagdata) option" where
  "gnr_msg_tag_fetch md gm name =
     (case gm of None \<Rightarrow> (-1, None) | Some g \<Rightarrow> naf_tag_fetch (Some (gm_taglist g)) md name)"

section \<open>Routing\<close>

type_synonym 'w world = "gnr_state \<times> 'w"

type_synonym 'w handler =
  "nafmod \<Rightarrow> int \<Rightarrow> gnrmsg \<Rightarrow> gnrmsg_handler_info \<Rightarrow> 'w world \<Rightarrow> int \<times> gnrmsg \<times> gnrmsg_handler_info \<times> 'w world"

text \<open>The loops over the pre- and post-routing handlers, which ignore the results, and over the
  routing handlers, which stop at the first non-zero one.\<close>

fun run_handlers ::
    "(nat \<Rightarrow> 'w handler) \<Rightarrow> int \<Rightarrow> mhlist list \<Rightarrow> gnrmsg \<times> gnrmsg_handler_info \<times> 'w world
       \<Rightarrow> gnrmsg \<times> gnrmsg_handler_info \<times> 'w world" where
  "run_handlers call stage [] s = s"
| "run_handlers call stage (mh # mhs) (gm, hi, w) =
     (let (r, s) = call (mh_handlerfunc mh) (mh_module mh) stage gm hi w
      in run_handlers call stage mhs s)"

fun run_routing ::
    "(nat \<Rightarrow> 'w handler) \<Rightarrow> mhlist list \<Rightarrow> gnrmsg \<times> gnrmsg_handler_info \<times> 'w world
       \<Rightarrow> gnrmsg \<times> gnrmsg_handler_info \<times> 'w world" where
  "run_routing call [] s = s"
| "run_routing call (mh # mhs) (gm, hi, w) =
     (let (r, gm, hi, w) = call (mh_handlerfunc mh) (mh_module mh) STAGE_ROUTING gm hi w
      in if r \<noteq> 0 then (gm, hi\<lparr>hi_targetmod := Some (mh_module mh)\<rparr>, w)
         else run_routing call mhs (gm, hi, w))"

text \<open>The output function a module has registered: a tag on the module that the gnr module owns.
  It is only ever set to a function pointer.\<close>

definition fetch_outputfunc :: "nafmod option \<Rightarrow> taglist \<Rightarrow> nat option" where
  "fetch_outputfunc gnr_module modtags =
     (case naf_tag_fetch (Some modtags) gnr_module (Some (cstr ''module.gnrmsg_outputfunc'')) of
        (_, Some (_, DPtr f)) \<Rightarrow> Some f
      | _ \<Rightarrow> None)"

definition gnr_msg_route ::
    "(nat \<Rightarrow> 'w handler) \<Rightarrow> (nat \<Rightarrow> nafmod \<Rightarrow> gnrmsg \<Rightarrow> gnrmsg_handler_info \<Rightarrow> 'w world \<Rightarrow> gnrmsg \<times> 'w world)
       \<Rightarrow> nafmod option \<Rightarrow> (nafmod \<Rightarrow> taglist) \<Rightarrow> msghandlers \<Rightarrow> nafmod \<Rightarrow> gnrmsg option \<Rightarrow> 'w world
       \<Rightarrow> int \<times> gnrmsg option \<times> 'w world" where
  "gnr_msg_route call outp gnr_module modtags hs srcmod gmp w =
     (case gmp of
        None \<Rightarrow> (-1, None, w)
      | Some gm \<Rightarrow>
          if gm_srcname gm = None \<or> gm_srcnameservice gm = None \<or>
             gm_destname gm = None \<or> gm_destnameservice gm = None
          then (-1, Some gm, w)
          else
            (let hi = \<lparr>hi_srcmod = srcmod, hi_destconn = None, hi_targetmod = None,
                       hi_srcnode = map_option gn_addr
                         (gnr_node_findbyname (gm_srcname gm) (gm_srcnameservice gm) (fst w)),
                       hi_destnode = map_option gn_addr
                         (gnr_node_findbyname (gm_destname gm) (gm_destnameservice gm) (fst w))\<rparr>;
                 s = run_handlers call STAGE_PREROUTING (hs ! 0) (gm, hi, w);
                 s = run_routing call (hs ! 1) s;
                 (gm, hi, w) = run_handlers call STAGE_POSTROUTING (hs ! 2) s
             in case hi_targetmod hi of
                  None \<Rightarrow> (0, Some gm, w)
                | Some target \<Rightarrow>
                    (case fetch_outputfunc gnr_module (modtags target) of
                       None \<Rightarrow> (0, Some gm, w)
                     | Some outf \<Rightarrow> (let (gm, w) = outp outf target gm hi w in (0, Some gm, w)))))"

definition gnr_msg_register ::
    "allocator \<Rightarrow> nafmod option \<Rightarrow> nafmod option \<Rightarrow> nat option \<Rightarrow> taglist \<Rightarrow> int \<times> taglist" where
  "gnr_msg_register mal gnr_module md outputfunc modtags =
     (if md = None then (-1, modtags)
      else case outputfunc of
             None \<Rightarrow> (0, modtags)
           | Some f \<Rightarrow>
               (case naf_tag_add mal (Some modtags) gnr_module
                       (Some (cstr ''module.gnrmsg_outputfunc'')) (CHR ''V'') (DPtr f) of
                  (r, Some tags) \<Rightarrow> if r = -1 then (-1, tags) else (0, tags)
                | (r, None) \<Rightarrow> (r, modtags)))"

definition gnr_msg_unregister :: "nafmod option \<Rightarrow> taglist \<Rightarrow> int \<times> taglist" where
  "gnr_msg_unregister gnr_module modtags =
     (case naf_tag_remove (Some modtags) gnr_module (Some (cstr ''module.gnrmsg_outputfunc'')) of
        (_, _, Some tags) \<Rightarrow> (0, tags)
      | _ \<Rightarrow> (0, modtags))"

text \<open>\<^verbatim>\<open>gnr_node__msg_postrouting\<close> of \<^verbatim>\<open>gnr/node.c\<close>: only routed messages count as use of a node.\<close>

definition gnr_node__msg_postrouting ::
    "int \<Rightarrow> gnrmsg \<Rightarrow> gnrmsg_handler_info \<Rightarrow> gnr_state \<Rightarrow> (int \<times> gnr_state) option" where
  "gnr_node__msg_postrouting now gm hinfo st =
     (if ISROUTED (gm_routeflags gm)
      then do {
        st \<leftarrow> gnr_node_usehit now (hi_srcnode hinfo) st;
        st \<leftarrow> gnr_node_usehit now (hi_destnode hinfo) st;
        Some (0, st)
      }
      else Some (0, st))"

section \<open>Handlers are kept in order\<close>

definition handlers_ok :: "msghandlers \<Rightarrow> bool" where
  "handlers_ok hs \<longleftrightarrow> length hs = 3 \<and> (\<forall>l \<in> set hs. sorted (map mh_position l))"

lemma set_mh_insert: "set (mh_insert mh l) = insert mh (set l)"
  by (induction l) auto

lemma sorted_mh_insert: "sorted (map mh_position l) \<Longrightarrow> sorted (map mh_position (mh_insert mh l))"
  by (induction l) (auto simp: set_mh_insert)

text \<open>The new handler goes before those of the same position, after those below.\<close>

lemma mh_insert_split:
  assumes "sorted (map mh_position l)"
  shows "mh_insert mh l = filter (\<lambda>h. mh_position h < mh_position mh) l @ mh #
      filter (\<lambda>h. mh_position mh \<le> mh_position h) l"
  using assms
proof (induction l)
  case (Cons h l)
  show ?case
  proof (cases "mh_position h \<ge> mh_position mh")
    case True
    with Cons.prems have "\<forall>x \<in> set l. mh_position mh \<le> mh_position x" by auto
    with True show ?thesis by (auto simp: filter_empty_conv filter_id_conv)
  next
    case False
    with Cons show ?thesis by simp
  qed
qed simp

lemma mh_remove_eq: "mh_remove f l = unlink_first (\<lambda>h. mh_handlerfunc h = f) l"
  by (induction l) auto

lemma handlers_ok_update:
  "handlers_ok hs \<Longrightarrow> sorted (map mh_position l) \<Longrightarrow> handlers_ok (hs[i := l])"
  using set_update_subset_insert by (fastforce simp: handlers_ok_def)

lemma handlers_ok_nth: "handlers_ok hs \<Longrightarrow> i < 3 \<Longrightarrow> sorted (map mh_position (hs ! i))"
  by (simp add: handlers_ok_def)

lemma handlers_ok_add:
  assumes "handlers_ok hs" "gnr_msg_addmsghandler mal md stage pos f desc hs = Some (r, hs')"
  shows "handlers_ok hs'"
  using assms handlers_ok_nth [OF assms(1), of "nat stage"]
  by (auto simp: gnr_msg_addmsghandler_def Let_def split: if_splits intro!: handlers_ok_update sorted_mh_insert)

lemma sorted_unlink: "sorted (map f l) \<Longrightarrow> sorted (map f (snd (unlink_first P l)))"
proof (induction l)
  case (Cons x l)
  then show ?case using set_unlink_first [of P l] by (auto simp: case_prod_beta)
qed simp

lemma handlers_ok_rem:
  assumes "handlers_ok hs" "gnr_msg_remmsghandler stage f hs = Some (r, hs')"
  shows "handlers_ok hs'"
proof -
  have "sorted (map mh_position (snd (mh_remove f (hs ! nat stage))))" if "stage \<le> 2" "\<not> stage < 0"
    using handlers_ok_nth [OF assms(1), of "nat stage"] that
    unfolding mh_remove_eq by (intro sorted_unlink) simp
  with assms show ?thesis
    by (auto simp: gnr_msg_remmsghandler_def handlers_ok_update split: if_splits prod.splits option.splits)
qed

lemma handlers_ok_init: "handlers_ok gnr_msg__register"
  by (simp add: handlers_ok_def gnr_msg__register_def)

section \<open>What routing does\<close>

text \<open>Handlers that decide by a fixed rule and log that they were called. The world is the log.\<close>

definition logging_call :: "(nat \<Rightarrow> int) \<Rightarrow> nat \<Rightarrow> (nat \<times> nafmod \<times> int) list handler" where
  "logging_call decide f m stage gm hi w = (decide f, gm, hi, (fst w, snd w @ [(f, m, stage)]))"

definition log_entry :: "int \<Rightarrow> mhlist \<Rightarrow> nat \<times> nafmod \<times> int" where
  "log_entry stage mh = (mh_handlerfunc mh, mh_module mh, stage)"

lemma run_handlers_log:
  "run_handlers (logging_call decide) stage mhs (gm, hi, (st, log)) =
     (gm, hi, (st, log @ map (log_entry stage) mhs))"
  by (induction mhs arbitrary: log) (simp_all add: logging_call_def log_entry_def)

text \<open>The routing handlers up to and including the first that takes the message.\<close>

fun upto_first :: "('a \<Rightarrow> bool) \<Rightarrow> 'a list \<Rightarrow> 'a list" where
  "upto_first P [] = []"
| "upto_first P (x # xs) = (if P x then [x] else x # upto_first P xs)"

lemma run_routing_log:
  "run_routing (logging_call decide) mhs (gm, hi, (st, log)) =
     (gm,
      (case List.find (\<lambda>mh. decide (mh_handlerfunc mh) \<noteq> 0) mhs of
         None \<Rightarrow> hi | Some mh \<Rightarrow> hi\<lparr>hi_targetmod := Some (mh_module mh)\<rparr>),
      (st, log @ map (log_entry STAGE_ROUTING) (upto_first (\<lambda>mh. decide (mh_handlerfunc mh) \<noteq> 0) mhs)))"
  by (induction mhs arbitrary: log) (simp_all add: logging_call_def log_entry_def)

section \<open>Properties\<close>

text \<open>Handlers run in the order of their positions: starting from the empty table, adding and
  removing handlers keeps every list sorted, and a handler that is added goes in front of those
  with the same position and behind those with a lower one, disturbing no other.\<close>

theorem handlers_in_order:
  assumes "handlers_ok hs" "mh_alloc mal" "mal (length desc + 1) \<noteq> None"
    and "0 \<le> stage" "stage \<le> 2" "0 \<le> pos" "pos \<le> 100"
  shows "\<exists>mh hs'. gnr_msg_addmsghandler mal md stage pos f desc hs = Some (0, hs') \<and> handlers_ok hs' \<and>
    mh_position mh = pos \<and> mh_handlerfunc mh = f \<and> mh_module mh = md \<and>
    hs' ! nat stage = filter (\<lambda>h. mh_position h < pos) (hs ! nat stage) @ mh #
      filter (\<lambda>h. pos \<le> mh_position h) (hs ! nat stage) \<and>
    (\<forall>i. i \<noteq> nat stage \<longrightarrow> hs' ! i = hs ! i) \<and>
    (\<forall>r hs''. gnr_msg_remmsghandler stage g hs' = Some (r, hs'') \<longrightarrow> handlers_ok hs'')"
proof -
  let ?mh = "\<lparr>mh_position = pos, mh_module = md, mh_handlerfunc = f, mh_description = desc\<rparr>"
  let ?hs = "hs[nat stage := mh_insert ?mh (hs ! nat stage)]"
  have add: "gnr_msg_addmsghandler mal md stage pos f desc hs = Some (0, ?hs)"
    using assms(2-7) by (simp add: gnr_msg_addmsghandler_def Let_def)
  have len: "nat stage < length hs" using assms(1,5) by (simp add: handlers_ok_def)
  have "sorted (map mh_position (hs ! nat stage))" using assms(1,5) by (intro handlers_ok_nth) simp_all
  then have "?hs ! nat stage = filter (\<lambda>h. mh_position h < pos) (hs ! nat stage) @ ?mh #
      filter (\<lambda>h. pos \<le> mh_position h) (hs ! nat stage)"
    using len by (simp add: mh_insert_split)
  moreover have ok: "handlers_ok ?hs" using handlers_ok_add [OF assms(1) add] .
  ultimately show ?thesis
    using add handlers_ok_rem [OF ok]
    by (intro exI [of _ ?mh] exI [of _ ?hs]) (auto simp: nth_list_update_neq)
qed

theorem handlers_in_order_witness:
  "\<exists>mh hs'. gnr_msg_addmsghandler zero_alloc 7 1 75 2 [100] gnr_msg__register = Some (0, hs') \<and> handlers_ok hs' \<and>
    mh_position mh = 75 \<and> mh_handlerfunc mh = 2 \<and> mh_module mh = 7 \<and>
    hs' ! nat 1 = filter (\<lambda>h. mh_position h < 75) (gnr_msg__register ! nat 1) @ mh #
      filter (\<lambda>h. 75 \<le> mh_position h) (gnr_msg__register ! nat 1)"
  using handlers_in_order [OF handlers_ok_init, of zero_alloc "[100]" 1 75 7 2 0]
  by (auto simp: mh_alloc_def zero_alloc_def)

text \<open>C33. Routing a complete message calls every pre-routing handler, then the routing handlers up to
  and including the first that takes the message, then every post-routing handler, each once and in
  list order; the module of the handler that took it becomes the target, and its output function, if
  it has registered one, is called exactly once, last. Nothing is put out when no handler takes it.\<close>

theorem routing_order:
  fixes decide :: "nat \<Rightarrow> int" and hs :: msghandlers
  defines "taker \<equiv> List.find (\<lambda>mh. decide (mh_handlerfunc mh) \<noteq> 0) (hs ! 1)"
  assumes "gm_srcname gm \<noteq> None" "gm_srcnameservice gm \<noteq> None" "gm_destname gm \<noteq> None" "gm_destnameservice gm \<noteq> None"
  shows "gnr_msg_route (logging_call decide) (\<lambda>f m gm hi w. (gm, (fst w, snd w @ [(f, m, 3)])))
      gnrmod modtags hs srcmod (Some gm) (st, []) =
    (0, Some gm, (st,
      map (log_entry 0) (hs ! 0) @
      map (log_entry 1) (upto_first (\<lambda>mh. decide (mh_handlerfunc mh) \<noteq> 0) (hs ! 1)) @
      map (log_entry 2) (hs ! 2) @
      (case taker of
         None \<Rightarrow> []
       | Some mh \<Rightarrow> (case fetch_outputfunc gnrmod (modtags (mh_module mh)) of
                       None \<Rightarrow> [] | Some f \<Rightarrow> [(f, mh_module mh, 3)]))))"
  using assms(2-)
  by (auto simp: gnr_msg_route_def Let_def run_handlers_log run_routing_log taker_def split: option.splits)

theorem routing_order_witness:
  "gnr_msg_route (logging_call (\<lambda>f. if f = 2 then 1 else 0)) (\<lambda>f m gm hi w. (gm, (fst w, snd w @ [(f, m, 3)])))
      (Some 1) (\<lambda>_. []) [[], [\<lparr>mh_position = 75, mh_module = 7, mh_handlerfunc = 2, mh_description = []\<rparr>], []] 5
      (Some (gnrmsg_zero\<lparr>gm_srcname := Some [97], gm_srcnameservice := Some [98],
                        gm_destname := Some [99], gm_destnameservice := Some [100]\<rparr>)) (gnr_empty, []) =
    (0, Some (gnrmsg_zero\<lparr>gm_srcname := Some [97], gm_srcnameservice := Some [98],
                         gm_destname := Some [99], gm_destnameservice := Some [100]\<rparr>), (gnr_empty, [(2, 7, 1)]))"
proof -
  let ?gm = "gnrmsg_zero\<lparr>gm_srcname := Some [97], gm_srcnameservice := Some [98],
    gm_destname := Some [99], gm_destnameservice := Some [100]\<rparr>"
  have "gm_srcname ?gm \<noteq> None" "gm_srcnameservice ?gm \<noteq> None" "gm_destname ?gm \<noteq> None" "gm_destnameservice ?gm \<noteq> None"
    by simp_all
  from routing_order [OF this, of "\<lambda>f. if f = 2 then 1 else 0" "Some 1" "\<lambda>_. []"
      "[[], [\<lparr>mh_position = 75, mh_module = 7, mh_handlerfunc = 2, mh_description = []\<rparr>], []]" 5 gnr_empty]
  show ?thesis
    by (simp add: log_entry_def fetch_outputfunc_def naf_tag_fetch_def badname_def cstr_def numeral_2_eq_2)
qed

end
