(* ===== verification/Icbm.thy ===== *)
theory Icbm
  imports Snac GnrMsg
begin

text \<open>
  Instant messages, \<^verbatim>\<open>timps/oscar/im.c\<close>: reading the text out of a message block, making a message
  block, the handlers of outgoing (0004/0006) and incoming (0004/0007) messages, which turn them
  into messages of the router, and the two functions that put a routed message back on the wire.
\<close>

abbreviation (input) MSGCOOKIELEN :: nat where "MSGCOOKIELEN \<equiv> 8"

section \<open>Message text\<close>

text \<open>A growing string: its block and the offset of the terminator (\<^verbatim>\<open>*e - *s\<close>). The outer option is a
  fault, the inner one the failed allocation.\<close>

type_synonym growstr = "bytes \<times> nat"

definition extendstr :: "allocator \<Rightarrow> growstr option \<Rightarrow> nat \<Rightarrow> growstr option option" where
  "extendstr mal s n =
     (case s of
        None \<Rightarrow>
          (case mal (n + 1) of
             None \<Rightarrow> Some None
           | Some b \<Rightarrow> do { b \<leftarrow> mem_write b 0 [0]; Some (Some (b, 0)) })
      | Some (b, e) \<Rightarrow>
          (case mal (e + n + 1) of
             None \<Rightarrow> Some None
           | Some ns \<Rightarrow> do {
               old \<leftarrow> mem_read b 0 (e + 1);
               ns \<leftarrow> mem_write ns 0 old;
               Some (Some (ns, e))
             }))"

text \<open>\<^verbatim>\<open>snprintf(p, 8, "&#%04x;", c)\<close> for a 16-bit number: seven characters and the terminator.\<close>

definition hexdigit :: "naf_u16_t \<Rightarrow> naf_u8_t" where
  "hexdigit d = (if d < 10 then 0x30 + ucast d else 0x57 + ucast d)"

definition entity :: "naf_u16_t \<Rightarrow> bytes" where
  "entity c = cstr ''&#'' @ [hexdigit (drop_bit 12 c AND 15), hexdigit (drop_bit 8 c AND 15),
     hexdigit (drop_bit 4 c AND 15), hexdigit (c AND 15)] @ cstr '';''"

text \<open>The two passes over a section of 16-bit characters: the space needed, and the conversion,
  which writes into the block. \<open>k\<close> characters are left.\<close>

fun unicode_size :: "nat \<Rightarrow> naf_sbuf_t \<Rightarrow> nat \<Rightarrow> (nat \<times> naf_sbuf_t) option" where
  "unicode_size 0 sb n = Some (n, sb)"
| "unicode_size (Suc k) sb n = do {
     (c, sb) \<leftarrow> naf_sbuf_get16 sb;
     unicode_size k sb (n + (if c < 128 then 1 else 7))
   }"

fun unicode_convert :: "nat \<Rightarrow> naf_sbuf_t \<Rightarrow> growstr \<Rightarrow> (growstr \<times> naf_sbuf_t) option" where
  "unicode_convert 0 sb s = Some (s, sb)"
| "unicode_convert (Suc k) sb (b, e) = do {
     (c, sb) \<leftarrow> naf_sbuf_get16 sb;
     if c < 128
     then do { b \<leftarrow> mem_write b (int e) [ucast c AND 0xff]; unicode_convert k sb (b, e + 1) }
     else do { b \<leftarrow> mem_write b (int e) (entity c @ [0]); unicode_convert k sb (b, e + 7) }
   }"

text \<open>The loop over the sections. The result is \<open>None\<close> inside for the jump to \<^verbatim>\<open>out\<close>.\<close>

partial_function (option) extract_loop ::
    "allocator \<Rightarrow> naf_sbuf_t \<Rightarrow> growstr option \<Rightarrow> nat \<Rightarrow> (growstr option \<times> nat) option option" where
  "extract_loop mal sb msgtext unrep =
     (if \<not> naf_sbuf_bytesremaining sb > 0 then Some (Some (msgtext, unrep))
      else
        Option.bind (naf_sbuf_get8 sb) (\<lambda>(b1, sb).
        if b1 \<noteq> 0x01 then Some None else
        Option.bind (naf_sbuf_get8 sb) (\<lambda>(b2, sb).
        if b2 \<noteq> 0x01 then Some None else
        Option.bind (naf_sbuf_get16 sb) (\<lambda>(plen, sb).
        if plen = 0 then extract_loop mal sb msgtext unrep
        else if plen < 4 then extract_loop mal sb msgtext unrep
        else
        Option.bind (naf_sbuf_get16 sb) (\<lambda>(f1, sb).
        Option.bind (naf_sbuf_get16 sb) (\<lambda>(f2, sb).
        let plen = plen - 4 in
        if f1 = 0x0000 \<or> f1 = 0x0003
        then
          Option.bind (extendstr mal msgtext (unat plen)) (\<lambda>ext.
          case ext of
            None \<Rightarrow> Some None
          | Some (b, e) \<Rightarrow>
              Option.bind (naf_sbuf_getrawbuf sb (drop e b) plen) (\<lambda>(_, out, sb).
              Option.bind (mem_write (take e b @ out) (int (e + unat plen)) [0]) (\<lambda>b.
                extract_loop mal sb (Some (b, e + unat plen)) unrep)))
        else if f1 = 0x0002 \<and> unat plen mod 2 = 0
        then
          if naf_sbuf_bytesremaining sb < uint plen then Some None
          else
            Option.bind (unicode_size (unat plen div 2) sb 0) (\<lambda>(n, sb').
            Option.bind (naf_sbuf_setpos mal sb' (word_of_int (naf_sbuf_getpos sb))) (\<lambda>(_, sb).
            Option.bind (extendstr mal msgtext n) (\<lambda>ext.
            case ext of
              None \<Rightarrow> Some None
            | Some s \<Rightarrow>
                Option.bind (unicode_convert (unat plen div 2) sb s) (\<lambda>((b, e), sb).
                Option.bind (mem_write b (int e) [0]) (\<lambda>b.
                  extract_loop mal sb (Some (b, e)) unrep)))))
        else
          Option.bind (naf_sbuf_advance mal sb plen) (\<lambda>(_, sb).
            extract_loop mal sb msgtext (unrep + 1))))))))"

text \<open>The result: \<open>-1\<close>, 0 or 1, and what \<^verbatim>\<open>*msgtextret\<close> is set to when it is not \<open>-1\<close>.\<close>

definition toscar_icbm__extractmsgtext ::
    "allocator \<Rightarrow> nafmod option \<Rightarrow> naf_tlv_t \<Rightarrow> (int \<times> bytes option) option" where
  "toscar_icbm__extractmsgtext mal md msgtlv =
     (let (r, sb) = naf_sbuf_init mal md (tlv_value msgtlv) (tlv_length msgtlv)
      in if r = -1 then Some (-1, None)
         else do {
           (b1, sb) \<leftarrow> naf_sbuf_get8 sb;
           if b1 \<noteq> 0x05 then Some (-1, None)
           else do {
             (b2, sb) \<leftarrow> naf_sbuf_get8 sb;
             if b2 \<noteq> 0x01 then Some (-1, None)
             else do {
               (featlen, sb) \<leftarrow> naf_sbuf_get16 sb;
               (_, sb) \<leftarrow> naf_sbuf_advance mal sb featlen;
               res \<leftarrow> extract_loop mal sb None 0;
               case res of
                 None \<Rightarrow> Some (-1, None)
               | Some (msgtext, unrep) \<Rightarrow>
                   Some (if unrep > 0 then 1 else 0, map_option (\<lambda>(b, e). c_string b) msgtext)
             }
           }
         })"

definition msgblock_puts :: "bytes \<Rightarrow> bytes list" where
  "msgblock_puts msgtext =
     [naf_byte_put8 0x05, naf_byte_put8 0x01, naf_byte_put16 0x0004,
      naf_byte_put8 0x01, naf_byte_put8 0x01, naf_byte_put8 0x01, naf_byte_put8 0x02,
      naf_byte_put8 0x01, naf_byte_put8 0x01, naf_byte_put16 (of_nat (length msgtext + 4)),
      naf_byte_put16 0x0000, naf_byte_put16 0x0000]"

text \<open>The block is written by a fixed sequence of puts into memory of exactly the right size, the
  text last; the results of the puts and of \<^verbatim>\<open>naf_tlv_addraw\<close> are ignored.\<close>

definition naf_tlv_addoscarmsgblock ::
    "allocator \<Rightarrow> nafmod option \<Rightarrow> naf_tlv_t list option \<Rightarrow> naf_u16_t \<Rightarrow> bytes option
       \<Rightarrow> (int \<times> naf_tlv_t list option) option" where
  "naf_tlv_addoscarmsgblock mal md tlvh type msgtext =
     (if md = None \<or> tlvh = None \<or> msgtext = None then Some (-1, tlvh)
      else
        (let text = the msgtext; buflen = 16 + length text
         in case mal buflen of
              None \<Rightarrow> Some (-1, tlvh)
            | Some buf \<Rightarrow> do {
                let (_, sb) = naf_sbuf_init mal md (Some buf) (of_nat buflen);
                (_, sb) \<leftarrow> put_all (sbuf_store mal) sb (msgblock_puts text);
                (_, sbo) \<leftarrow> naf_sbuf_putstr mal (Some sb) (Some text);
                sb \<leftarrow> sbo;
                (_, tlvh) \<leftarrow> naf_tlv_addraw mal md tlvh type (word_of_int (naf_sbuf_getpos sb)) (sbuf_buf sb);
                Some (0, tlvh)
              }))"

section \<open>Messages of channel 1\<close>

definition toscar_icbm__parsechan1 ::
    "'nb oenv \<Rightarrow> gnrmsg \<Rightarrow> naf_tlv_t list \<Rightarrow> (int \<times> gnrmsg \<times> naf_tlv_t list) option" where
  "toscar_icbm__parsechan1 e gm tlvh = do {
     let m = Some (oe_mod e);
     let (tlv, tlvh) = naf_tlv_remove tlvh 0x0002;
     gm \<leftarrow> (case tlv of
         None \<Rightarrow> Some gm
       | Some tlv \<Rightarrow> do {
           let gm = gm\<lparr>gm_msgtexttype := Some (cstr ''text/html'')\<rparr>;
           (r, text) \<leftarrow> toscar_icbm__extractmsgtext (oe_mal e) m tlv;
           let gm = (if r \<noteq> -1 then gm\<lparr>gm_msgtext := text\<rparr> else gm);
           if r \<noteq> 0
           then snd (gnr_msg_tag_add (oe_mal e) m (Some gm) (Some (cstr ''gnrmsg.oscarmsgtlv''))
                       (CHR ''V'') (DTlvs [tlv]))
           else Some gm
         });
     let (tlv, tlvh) = naf_tlv_remove tlvh 0x0003;
     let gm = (if tlv \<noteq> None then gm\<lparr>gm_msgflags := gm_msgflags gm OR GNR_MSG_MSGFLAG_ACKREQUESTED\<rparr> else gm);
     let (tlv, tlvh) = naf_tlv_remove tlvh 0x0004;
     let gm = (if tlv \<noteq> None then gm\<lparr>gm_msgflags := gm_msgflags gm OR GNR_MSG_MSGFLAG_AUTORESPONSE\<rparr> else gm);
     Some (0, gm, tlvh)
   }"

text \<open>The TLV list a tag of the message refers to, empty when there is no such tag.\<close>

definition msg_tag_tlvs :: "'nb oenv \<Rightarrow> gnrmsg \<Rightarrow> bytes \<Rightarrow> naf_tlv_t list option" where
  "msg_tag_tlvs e gm name =
     (case gnr_msg_tag_fetch (Some (oe_mod e)) (Some gm) (Some name) of
        (_, None) \<Rightarrow> Some []
      | (_, Some (_, d)) \<Rightarrow> as_tlvs d)"

definition toscar_icbm__renderchan1 ::
    "'nb oenv \<Rightarrow> gnrmsg \<Rightarrow> naf_sbuf_t \<Rightarrow> (int \<times> naf_sbuf_t) option" where
  "toscar_icbm__renderchan1 e gm sb = do {
     let mal = oe_mal e;
     let m = Some (oe_mod e);
     msgtlv \<leftarrow> msg_tag_tlvs e gm (cstr ''gnrmsg.oscarmsgtlv'');
     (_, sb) \<leftarrow> (if msgtlv \<noteq> [] then naf_tlv_render mal msgtlv sb
                 else do {
                   (_, tlvs) \<leftarrow> naf_tlv_addoscarmsgblock mal m (Some []) 0x0002 (gm_msgtext gm);
                   tlvs \<leftarrow> tlvs;
                   naf_tlv_render mal tlvs sb
                 });
     let tlvh = Some [];
     (_, tlvh) \<leftarrow> (if gm_msgflags gm AND GNR_MSG_MSGFLAG_ACKREQUESTED \<noteq> 0
                   then naf_tlv_addnoval mal m tlvh 0x0003 else Some (0, tlvh));
     (_, tlvh) \<leftarrow> (if gm_msgflags gm AND GNR_MSG_MSGFLAG_AUTORESPONSE \<noteq> 0
                   then naf_tlv_addnoval mal m tlvh 0x0004 else Some (0, tlvh));
     tlvs \<leftarrow> tlvh;
     (_, sb) \<leftarrow> naf_tlv_render mal tlvs sb;
     extratlvs \<leftarrow> msg_tag_tlvs e gm (cstr ''gnrmsg.extraoscartlvs'');
     (_, sb) \<leftarrow> (if extratlvs \<noteq> [] then naf_tlv_render mal extratlvs sb else Some (0, sb));
     Some (0, sb)
   }"

section \<open>Sending\<close>

definition put_cookie :: "'nb oenv \<Rightarrow> bytes option \<Rightarrow> naf_sbuf_t \<Rightarrow> (int \<times> naf_sbuf_t) option" where
  "put_cookie e msgck sb =
     (case msgck of
        Some ck \<Rightarrow> naf_sbuf_putraw (oe_mal e) sb ck MSGCOOKIELEN
      | None \<Rightarrow> put_all (sbuf_store (oe_mal e)) sb
                  (map (\<lambda>i. naf_byte_put8 (0x30 + oe_rand e i mod 10)) [0..<MSGCOOKIELEN]))"

text \<open>The hints of the message: the SNAC id and the message cookie.\<close>

definition msg_snacid :: "'nb oenv \<Rightarrow> gnrmsg \<Rightarrow> naf_u32_t option" where
  "msg_snacid e gm =
     (case gnr_msg_tag_fetch (Some (oe_mod e)) (Some gm) (Some (cstr ''gnrmsg.snacid'')) of
        (_, None) \<Rightarrow> Some 0x42424242
      | (_, Some (_, d)) \<Rightarrow> as_int d)"

definition msg_cookie :: "'nb oenv \<Rightarrow> gnrmsg \<Rightarrow> bytes option option" where
  "msg_cookie e gm =
     (case gnr_msg_tag_fetch (Some (oe_mod e)) (Some gm) (Some (cstr ''gnrmsg.oscarmsgcookie'')) of
        (_, None) \<Rightarrow> Some None
      | (_, Some (_, d)) \<Rightarrow> as_buf d)"

abbreviation (input) GNR_MSG_MSGTYPE_IM :: naf_u16_t where "GNR_MSG_MSGTYPE_IM \<equiv> 0"

text \<open>The types other than instant messages all end in \<^verbatim>\<open>return -1\<close>.\<close>

definition toscar_icbm_sendoutgoing ::
    "'nb oenv \<Rightarrow> nat option \<Rightarrow> gnrmsg \<Rightarrow> 'nb ostate \<Rightarrow> (int \<times> 'nb ostate) option" where
  "toscar_icbm_sendoutgoing e conn gm st =
     (if gm_type gm \<noteq> GNR_MSG_MSGTYPE_IM then Some (-1, st)
      else do {
        snacid \<leftarrow> msg_snacid e gm;
        msgck \<leftarrow> msg_cookie e gm;
        (r, sb) \<leftarrow> toscar_newsnacsb e 0x0004 0x0006 0x0000 (snacid AND NOT 0x80000000);
        if r = -1 then Some (-1, st)
        else do {
          (_, sb) \<leftarrow> put_cookie e msgck sb;
          (_, sb) \<leftarrow> naf_sbuf_put16 (oe_mal e) sb 0x0001;
          destname \<leftarrow> gm_destname gm;
          (_, sb) \<leftarrow> naf_sbuf_put8 (oe_mal e) sb (of_nat (length destname));
          (_, sbo) \<leftarrow> naf_sbuf_putstr (oe_mal e) (Some sb) (Some destname);
          sb \<leftarrow> sbo;
          (r, sb) \<leftarrow> toscar_icbm__renderchan1 e gm sb;
          if r = -1 then Some (-1, st) else toscar_flap_sendsbuf_consume e conn sb st
        }
      })"

text \<open>The user information attached to the message, if any.\<close>

definition msg_srcuserinfo :: "'nb oenv \<Rightarrow> gnrmsg \<Rightarrow> touserinfo option option" where
  "msg_srcuserinfo e gm =
     (case gnr_msg_tag_fetch (Some (oe_mod e)) (Some gm) (Some (cstr ''gnrmsg.srcuserinfo'')) of
        (_, Some (_, DUserinfo u)) \<Rightarrow> Some (Some u)
      | (_, None) \<Rightarrow> Some None
      | (_, Some (_, DNull)) \<Rightarrow> Some None
      | _ \<Rightarrow> None)"

text \<open>The message is changed: an acknowledgement request is not passed on.\<close>

definition toscar_icbm_sendincoming ::
    "'nb oenv \<Rightarrow> nat option \<Rightarrow> gnrmsg \<Rightarrow> 'nb ostate \<Rightarrow> (int \<times> gnrmsg \<times> 'nb ostate) option" where
  "toscar_icbm_sendincoming e conn gm st =
     (if gm_type gm \<noteq> GNR_MSG_MSGTYPE_IM then Some (-1, gm, st)
      else do {
        snacid \<leftarrow> msg_snacid e gm;
        msgck \<leftarrow> msg_cookie e gm;
        srcinfo \<leftarrow> msg_srcuserinfo e gm;
        (r, sb) \<leftarrow> toscar_newsnacsb e 0x0004 0x0007 0x0000 (snacid OR 0x80000000);
        if r = -1 then Some (-1, gm, st)
        else do {
          (_, sb) \<leftarrow> put_cookie e msgck sb;
          (_, sb) \<leftarrow> naf_sbuf_put16 (oe_mal e) sb 0x0001;
          (case (case srcinfo of Some u \<Rightarrow> Some u | None \<Rightarrow> touserinfo_new (oe_mal e) (gm_srcname gm)) of
             None \<Rightarrow> Some (-1, gm, st)
           | Some u \<Rightarrow> do {
               (_, sb) \<leftarrow> touserinfo_render (oe_mal e) u sb;
               let gm = gm\<lparr>gm_msgflags := gm_msgflags gm AND NOT GNR_MSG_MSGFLAG_ACKREQUESTED\<rparr>;
               (r, sb) \<leftarrow> toscar_icbm__renderchan1 e gm sb;
               if r = -1 then Some (-1, gm, st)
               else do {
                 (r, st) \<leftarrow> toscar_flap_sendsbuf_consume e conn sb st;
                 Some (r, gm, st)
               }
             })
        }
      })"

section \<open>Handlers\<close>

text \<open>\<open>route\<close> is \<^verbatim>\<open>gnr_msg_route\<close> on the state.\<close>

type_synonym 'nb router = "gnrmsg \<Rightarrow> 'nb ostate \<Rightarrow> (gnrmsg \<times> 'nb ostate) option"

text \<open>The common middle of the two handlers: the two hint tags and the names. \<open>None\<close> inside is the
  jump to \<^verbatim>\<open>out\<close> with \<^verbatim>\<open>HRET_ERROR\<close>.\<close>

definition icbm_message ::
    "'nb oenv \<Rightarrow> toscar_snac \<Rightarrow> bytes \<Rightarrow> bytes \<Rightarrow> bytes \<Rightarrow> gnrmsg option" where
  "icbm_message e snac msgck srcname destname = do {
     gm \<leftarrow> gnr_msg_new (oe_mal e);
     let (r1, gm1) = gnr_msg_tag_add (oe_mal e) (Some (oe_mod e)) (Some gm) (Some (cstr ''gnrmsg.snacid''))
                       (CHR ''I'') (DInt (snac_id snac));
     if r1 = -1 then None
     else do {
       let (r2, gm2) = gnr_msg_tag_add (oe_mal e) (Some (oe_mod e)) gm1 (Some (cstr ''gnrmsg.oscarmsgcookie''))
                         (CHR ''V'') (DBuf msgck);
       if r2 = -1 then None
       else do {
         gm \<leftarrow> gm2;
         Some (gm\<lparr>gm_srcname := Some srcname, gm_srcnameservice := Some OSCARSERVICE,
                  gm_destname := Some destname, gm_destnameservice := Some OSCARSERVICE\<rparr>)
       }
     }
   }"

definition ensure_node :: "'nb oenv \<Rightarrow> bytes option \<Rightarrow> 'nb ostate \<Rightarrow> 'nb ostate" where
  "ensure_node e name st =
     (if gnr_node_findbyname name (Some OSCARSERVICE) (os_gnr st) = None
      then st\<lparr>os_gnr := snd (gnr_node_online (oe_mal e) (oe_now e) (Some (oe_mod e)) name
                 (Some OSCARSERVICE) 0 GNR_NODE_METRIC_MAX (os_gnr st))\<rparr>
      else st)"

text \<open>0004/0006: a message of the client, on its connection; the user's name is attached to the
  server connection.\<close>

definition toscar_snachandler_0004_0006 ::
    "'nb oenv \<Rightarrow> 'nb router \<Rightarrow> nat \<Rightarrow> toscar_snac \<Rightarrow> 'nb ostate \<Rightarrow> (int \<times> 'nb ostate) option" where
  "toscar_snachandler_0004_0006 e route conn snac st = do {
     c \<leftarrow> cs_conns st conn;
     srcsn \<leftarrow> conn_screenname e (c_endpoint c) st;
     case srcsn of
       None \<Rightarrow> Some (HRET_ERROR, st)
     | Some srcsn \<Rightarrow> do {
         (msgck, pl) \<leftarrow> naf_sbuf_getraw (oe_mal e) (snac_payload snac) (of_nat MSGCOOKIELEN);
         case msgck of
           None \<Rightarrow> Some (HRET_ERROR, st)
         | Some msgck \<Rightarrow> do {
             (msgchan, pl) \<leftarrow> naf_sbuf_get16 pl;
             (destsnlen, pl) \<leftarrow> naf_sbuf_get8 pl;
             (destsn, pl) \<leftarrow> naf_sbuf_getstr (oe_mal e) pl (ucast destsnlen);
             case destsn of
               None \<Rightarrow> Some (HRET_ERROR, st)
             | Some destsn \<Rightarrow> do {
                 (tlvh, pl) \<leftarrow> naf_tlv_parse (oe_mal e) pl;
                 case icbm_message e snac msgck srcsn (c_string destsn) of
                   None \<Rightarrow> Some (HRET_ERROR, st)
                 | Some gm \<Rightarrow>
                     if msgchan \<noteq> 0x0001 then Some (HRET_FORWARD, st)
                     else do {
                       (r, gm, tlvh) \<leftarrow> toscar_icbm__parsechan1 e gm tlvh;
                       if r = -1 then Some (HRET_ERROR, st)
                       else do {
                         gm \<leftarrow> snd (gnr_msg_tag_add (oe_mal e) (Some (oe_mod e)) (Some gm)
                                 (Some (cstr ''gnrmsg.extraoscartlvs'')) (CHR ''V'') (DTlvs tlvh));
                         let st = ensure_node e (gm_destname gm) st;
                         (gm, st) \<leftarrow> route gm st;
                         Some (HRET_DIGESTED, st)
                       }
                     }
               }
           }
       }
   }"

text \<open>0004/0007: a message of the server for the client. On every early exit \<^verbatim>\<open>gnr_msg_free\<close> is called
  with whatever \<^verbatim>\<open>gm\<close> is, which is null before the message has been made.\<close>

definition toscar_snachandler_0004_0007 ::
    "'nb oenv \<Rightarrow> 'nb router \<Rightarrow> nat \<Rightarrow> toscar_snac \<Rightarrow> 'nb ostate \<Rightarrow> (int \<times> 'nb ostate) option" where
  "toscar_snachandler_0004_0007 e route conn snac st = do {
     destsn \<leftarrow> conn_screenname e (Some conn) st;
     case destsn of
       None \<Rightarrow> None
     | Some destsn \<Rightarrow> do {
         (msgck, pl) \<leftarrow> naf_sbuf_getraw (oe_mal e) (snac_payload snac) (of_nat MSGCOOKIELEN);
         case msgck of
           None \<Rightarrow> None
         | Some msgck \<Rightarrow> do {
             (msgchan, pl) \<leftarrow> naf_sbuf_get16 pl;
             (srcinfo, pl) \<leftarrow> touserinfo_extract (oe_mal e) pl;
             case srcinfo of
               None \<Rightarrow> None
             | Some srcinfo \<Rightarrow> do {
                 (tlvh, pl) \<leftarrow> naf_tlv_parse (oe_mal e) pl;
                 if gnr_msg_new (oe_mal e) = None then None
                 else case icbm_message e snac msgck (toui_sn srcinfo) destsn of
                   None \<Rightarrow> Some (HRET_ERROR, st)
                 | Some gm \<Rightarrow>
                     if msgchan \<noteq> 0x0001 then Some (HRET_FORWARD, st)
                     else do {
                       (r, gm, tlvh) \<leftarrow> toscar_icbm__parsechan1 e gm tlvh;
                       if r = -1 then Some (HRET_ERROR, st)
                       else do {
                         let (r, gmo) = gnr_msg_tag_add (oe_mal e) (Some (oe_mod e)) (Some gm)
                                 (Some (cstr ''gnrmsg.srcuserinfo'')) (CHR ''V'') (DUserinfo srcinfo);
                         if r = -1 then Some (HRET_ERROR, st)
                         else do {
                           gm \<leftarrow> gmo;
                           gm \<leftarrow> snd (gnr_msg_tag_add (oe_mal e) (Some (oe_mod e)) (Some gm)
                                   (Some (cstr ''gnrmsg.extraoscartlvs'')) (CHR ''V'') (DTlvs tlvh));
                           let st = ensure_node e (gm_srcname gm) st;
                           (gm, st) \<leftarrow> route gm st;
                           Some (HRET_DIGESTED, st)
                         }
                       }
                     }
               }
           }
       }
   }"

section \<open>Sections of a message block\<close>

text \<open>What a growing string holds.\<close>

definition grow_text :: "growstr option \<Rightarrow> bytes option \<Rightarrow> bool" where
  "grow_text s t \<longleftrightarrow>
     (case s of
        None \<Rightarrow> t = None
      | Some (b, e) \<Rightarrow> \<exists>x. t = Some x \<and> e = length x \<and> take (Suc e) b = x @ [0])"

abbreviation (input) text_of :: "bytes option \<Rightarrow> bytes" where
  "text_of t \<equiv> (case t of None \<Rightarrow> [] | Some x \<Rightarrow> x)"

lemma extendstr_cases:
  assumes mal: "good_alloc mal" and s: "grow_text s t"
  obtains (refused) "extendstr mal s n = Some None" "mal (length (text_of t) + n + 1) = None"
  | (grown) b where "extendstr mal s n = Some (Some (b, length (text_of t)))"
      "length b = length (text_of t) + n + 1" "take (Suc (length (text_of t))) b = text_of t @ [0]"
proof (cases "mal (length (text_of t) + n + 1)")
  case None
  with s refused show ?thesis by (auto simp: extendstr_def grow_text_def split: option.splits prod.splits)
next
  case (Some b)
  then have len: "length b = length (text_of t) + n + 1" using mal by (rule_tac good_allocD)
  show ?thesis
  proof (cases s)
    case None
    with s Some len show ?thesis
      by (intro grown [of "0 # drop 1 b"]) (auto simp: extendstr_def grow_text_def mem_write_def)
  next
    case (Some be)
    obtain b0 e where be: "be = (b0, e)" by fastforce
    from s Some be obtain x where x: "t = Some x" "e = length x" "take (Suc e) b0 = x @ [0]"
      by (auto simp: grow_text_def)
    have "min (length b0) (Suc e) = Suc e" using arg_cong [OF x(3), of length] x(2) by simp
    then have l0: "e < length b0" by simp
    have "extendstr mal s n = Some (Some (take (Suc e) b0 @ drop (Suc e) b, e))"
      using Some be x l0 \<open>mal (length (text_of t) + n + 1) = Some b\<close> len
      by (simp add: extendstr_def mem_read_def mem_write_def)
    then show ?thesis using x len l0 by (intro grown [of "take (Suc e) b0 @ drop (Suc e) b"]) simp_all
  qed
qed

lemma grow_textI: "take (Suc (length x)) b = x @ [0] \<Longrightarrow> grow_text (Some (b, length x)) (Some x)"
  by (simp add: grow_text_def)

lemma grow_text_string: "grow_text s t \<Longrightarrow> map_option (\<lambda>(b, e). c_string b) s = map_option c_string t"
proof -
  have "c_string b = c_string x" if "take (Suc (length x)) b = x @ [0]" for x b :: bytes
  proof -
    have "c_string ((x @ [0]) @ r) = c_string x" for r
      by (induction x) (auto simp: c_string_def)
    then show ?thesis by (metis append_take_drop_id that)
  qed
  then show "grow_text s t \<Longrightarrow> ?thesis" by (auto simp: grow_text_def split: option.splits)
qed

text \<open>The 16-bit characters of a section and what each becomes.\<close>

fun wides :: "bytes \<Rightarrow> naf_u16_t list" where
  "wides (a # b # bs) = naf_byte_get16 [a, b] # wides bs"
| "wides _ = []"

definition wide_text :: "naf_u16_t \<Rightarrow> bytes" where
  "wide_text c = (if c < 128 then [ucast c] else entity c)"

lemma length_entity [simp]: "length (entity c) = 7"
  by (simp add: entity_def cstr_def)

lemma length_wide_text: "length (wide_text c) = (if c < 128 then 1 else 7)"
  by (simp add: wide_text_def)

lemma sbuf_get16_wide:
  assumes "sbuf_inv sb" "2 \<le> length (sbuf_rest sb)"
  shows "naf_sbuf_get16 sb = Some (naf_byte_get16 (take 2 (sbuf_rest sb)), sb\<lparr>sbuf_pos := sbuf_pos sb + 2\<rparr>)"
    "sbuf_inv (sb\<lparr>sbuf_pos := sbuf_pos sb + 2\<rparr>)"
    "sbuf_rest (sb\<lparr>sbuf_pos := sbuf_pos sb + 2\<rparr>) = drop 2 (sbuf_rest sb)"
  using sbuf_get_eqs(2) [OF assms(1)] sbuf_load_ok(2,3) [OF assms(1), of 2] assms(2)
  by (simp_all add: naf_byte_get_take)

lemma wides_take:
  "2 \<le> length bs \<Longrightarrow> wides (take (2 * Suc k) bs) = naf_byte_get16 (take 2 bs) # wides (take (2 * k) (drop 2 bs))"
  by (cases bs rule: wides.cases) (auto simp: numeral_2_eq_2)

lemma unicode_size_eq:
  "sbuf_inv sb \<Longrightarrow> 2 * k \<le> length (sbuf_rest sb) \<Longrightarrow>
     unicode_size k sb n = Some (n + length (concat (map wide_text (wides (take (2 * k) (sbuf_rest sb))))),
       sb\<lparr>sbuf_pos := sbuf_pos sb + of_nat (2 * k)\<rparr>)"
proof (induction k arbitrary: sb n)
  case (Suc k)
  have two: "2 \<le> length (sbuf_rest sb)" using Suc.prems by simp
  note g = sbuf_get16_wide [OF Suc.prems(1) two]
  have "2 * k \<le> length (sbuf_rest (sb\<lparr>sbuf_pos := sbuf_pos sb + 2\<rparr>))" using Suc.prems g(3) by simp
  from Suc.IH [OF g(2) this] show ?case
    unfolding wides_take [OF two] by (simp add: g(1,3) length_wide_text algebra_simps)
qed simp

lemma unicode_convert_eq:
  "sbuf_inv sb \<Longrightarrow> 2 * k \<le> length (sbuf_rest sb) \<Longrightarrow>
     e + length (concat (map wide_text (wides (take (2 * k) (sbuf_rest sb))))) < length b \<Longrightarrow>
     \<exists>b'. unicode_convert k sb (b, e) =
         Some ((b', e + length (concat (map wide_text (wides (take (2 * k) (sbuf_rest sb)))))),
               sb\<lparr>sbuf_pos := sbuf_pos sb + of_nat (2 * k)\<rparr>) \<and> length b' = length b \<and>
       take (e + length (concat (map wide_text (wides (take (2 * k) (sbuf_rest sb)))))) b' =
         take e b @ concat (map wide_text (wides (take (2 * k) (sbuf_rest sb))))"
proof (induction k arbitrary: sb b e)
  case (Suc k)
  let ?sb = "sb\<lparr>sbuf_pos := sbuf_pos sb + 2\<rparr>"
  have two: "2 \<le> length (sbuf_rest sb)" using Suc.prems by simp
  note g = sbuf_get16_wide [OF Suc.prems(1) two]
  define c where "c = naf_byte_get16 (take 2 (sbuf_rest sb))"
  define tail where "tail = concat (map wide_text (wides (take (2 * k) (sbuf_rest ?sb))))"
  have all: "concat (map wide_text (wides (take (2 * Suc k) (sbuf_rest sb)))) = wide_text c @ tail"
    unfolding wides_take [OF two] by (simp add: c_def tail_def g(3))
  have k: "2 * k \<le> length (sbuf_rest ?sb)" using Suc.prems g(3) by simp
  have len: "e + length (wide_text c) + length tail < length b" using Suc.prems(3) unfolding all by simp
  define w where "w = (if c < 128 then [ucast c] else entity c @ [0])"
  define b1 where "b1 = take e b @ w @ drop (e + length w) b"
  have lw: "e + length w \<le> length b" using len by (auto simp: w_def length_wide_text split: if_splits)
  have b1: "mem_write b (int e) w = Some b1" "length b1 = length b"
    "take (e + length (wide_text c)) b1 = take e b @ wide_text c"
    using lw by (auto simp: b1_def w_def wide_text_def split: if_splits)
  have step: "unicode_convert (Suc k) sb (b, e) = unicode_convert k ?sb (b1, e + length (wide_text c))"
    using g(1) b1(1) by (auto simp: c_def [symmetric] w_def length_wide_text split: if_splits)
  have "e + length (wide_text c) + length tail < length b1" using len b1(2) by simp
  from Suc.IH [OF g(2) k, folded tail_def, OF this] obtain b' where
    "unicode_convert k ?sb (b1, e + length (wide_text c)) = Some ((b', e + length (wide_text c) + length tail),
       ?sb\<lparr>sbuf_pos := sbuf_pos ?sb + of_nat (2 * k)\<rparr>)" "length b' = length b1"
    "take (e + length (wide_text c) + length tail) b' = take (e + length (wide_text c)) b1 @ tail" by blast
  then show ?case unfolding all step using b1(2,3) by (auto simp: algebra_simps)
qed simp

lemma mem_write_end: "length b = n + 1 \<Longrightarrow> mem_write b (int n) [v] = Some (take n b @ [v])"
  by (simp add: mem_write_def)

text \<open>A section: character set, subset, contents.\<close>

record msec =
  ms_charset :: naf_u16_t
  ms_subset :: naf_u16_t
  ms_body :: bytes

definition msec_encode :: "msec \<Rightarrow> bytes" where
  "msec_encode m = naf_byte_put8 0x01 @ naf_byte_put8 0x01 @ naf_byte_put16 (of_nat (length (ms_body m) + 4)) @
     naf_byte_put16 (ms_charset m) @ naf_byte_put16 (ms_subset m) @ ms_body m"

definition msec_ok :: "msec \<Rightarrow> bool" where
  "msec_ok m \<longleftrightarrow> length (ms_body m) + 4 < 65536"

text \<open>The text of a section, if it can be represented, and of a sequence of sections.\<close>

definition msec_text :: "msec \<Rightarrow> bytes option" where
  "msec_text m =
     (if ms_charset m = 0x0000 \<or> ms_charset m = 0x0003 then Some (ms_body m)
      else if ms_charset m = 0x0002 \<and> even (length (ms_body m)) then Some (concat (map wide_text (wides (ms_body m))))
      else None)"

definition add_text :: "msec \<Rightarrow> bytes option \<Rightarrow> bytes option" where
  "add_text m t = (case msec_text m of None \<Rightarrow> t | Some x \<Rightarrow> Some (text_of t @ x))"

lemma extract_loop_header:
  assumes inv: "sbuf_inv sb" and m: "msec_ok m" and rest: "sbuf_rest sb = msec_encode m @ r"
  obtains pl s1 s2 s3 s4 s5 where "naf_sbuf_bytesremaining sb > 0"
    "naf_sbuf_get8 sb = Some (1, s1)" "naf_sbuf_get8 s1 = Some (1, s2)"
    "naf_sbuf_get16 s2 = Some (pl, s3)" "naf_sbuf_get16 s3 = Some (ms_charset m, s4)"
    "naf_sbuf_get16 s4 = Some (ms_subset m, s5)" "sbuf_inv s5" "sbuf_rest s5 = ms_body m @ r"
    "unat (pl - 4) = length (ms_body m)" "\<not> pl < 4" "pl \<noteq> 0"
proof -
  let ?n = "length (ms_body m) + 4"
  have n: "unat (of_nat ?n :: naf_u16_t) = ?n" using m unat_of_nat_u16 [of ?n] by (simp add: msec_ok_def)
  then have le: "(4 :: naf_u16_t) \<le> of_nat ?n" by (simp add: word_le_nat_alt)
  then have n4: "unat (of_nat ?n - 4 :: naf_u16_t) = length (ms_body m)"
    using n unat_sub [OF le] by simp
  have nz: "of_nat ?n \<noteq> (0 :: naf_u16_t)" using n by (metis add_is_0 unat_0 zero_neq_numeral)
  obtain s1 s2 where s2: "naf_sbuf_get8 sb = Some (1, s1)" "naf_sbuf_get8 s1 = Some (1, s2)" "sbuf_inv s2"
    "sbuf_rest s2 = naf_byte_put16 (of_nat ?n) @ naf_byte_put16 (ms_charset m) @ naf_byte_put16 (ms_subset m) @ ms_body m @ r"
    using sbr.get8_get8 [OF inv, of 1 1] rest by (auto simp: msec_encode_def)
  obtain s3 s4 where s4: "naf_sbuf_get16 s2 = Some (of_nat ?n, s3)" "naf_sbuf_get16 s3 = Some (ms_charset m, s4)"
    "sbuf_inv s4" "sbuf_rest s4 = naf_byte_put16 (ms_subset m) @ ms_body m @ r"
    using sbr.get16_get16 [OF s2(3,4)] by blast
  obtain s5 where s5: "naf_sbuf_get16 s4 = Some (ms_subset m, s5)" "sbuf_inv s5" "sbuf_rest s5 = ms_body m @ r"
    using sbr.get16_ok [OF s4(3,4)] by blast
  have "naf_sbuf_bytesremaining sb > 0"
    using inv rest by (simp add: sbuf_bytesremaining length_sbuf_rest [symmetric] msec_encode_def)
  moreover have "\<not> (of_nat ?n :: naf_u16_t) < 4" using le by (simp only: not_less)
  ultimately show ?thesis using that [OF _ s2(1,2) s4(1,2) s5 n4 _ nz] by blast
qed

lemma extract_loop_section:
  assumes mal: "total_alloc mal" and inv: "sbuf_inv sb" and m: "msec_ok m"
    and rest: "sbuf_rest sb = msec_encode m @ r" and s: "grow_text s t"
  shows "\<exists>sb' s'. sbuf_inv sb' \<and> sbuf_rest sb' = r \<and> grow_text s' (add_text m t) \<and>
    extract_loop mal sb s u = extract_loop mal sb' s' (if msec_text m = None then u + 1 else u)"
proof -
  obtain pl s1 s2 s3 s4 s5 where h: "naf_sbuf_bytesremaining sb > 0"
    "naf_sbuf_get8 sb = Some (1, s1)" "naf_sbuf_get8 s1 = Some (1, s2)"
    "naf_sbuf_get16 s2 = Some (pl, s3)" "naf_sbuf_get16 s3 = Some (ms_charset m, s4)"
    "naf_sbuf_get16 s4 = Some (ms_subset m, s5)" "sbuf_inv s5" "sbuf_rest s5 = ms_body m @ r"
    "unat (pl - 4) = length (ms_body m)" "\<not> pl < 4" "pl \<noteq> 0"
    by (rule extract_loop_header [OF inv m rest])
  define plen :: naf_u16_t where "plen = pl - 4"
  have ulen: "unat plen = length (ms_body m)" using h(9) by (simp add: plen_def)
  let ?s6 = "s5\<lparr>sbuf_pos := sbuf_pos s5 + plen\<rparr>"
  have fits: "unat plen \<le> length (sbuf_rest s5)" using h(8) ulen by simp
  have s6: "sbuf_inv ?s6" "sbuf_rest ?s6 = r"
    using sbuf_load_ok(2,3) [OF h(7) fits] h(8) ulen by simp_all
  note loop = extract_loop.simps [of mal sb s u] h(1-6) h(10,11) plen_def [symmetric]
  have al: "mal n \<noteq> None" for n using total_allocD(3) [OF mal] .
  consider (plain) "ms_charset m = 0 \<or> ms_charset m = 3"
    | (wide) "ms_charset m = 2" "even (length (ms_body m))" "\<not> (ms_charset m = 0 \<or> ms_charset m = 3)"
    | (other) "msec_text m = None" "\<not> (ms_charset m = 0 \<or> ms_charset m = 3)"
        "\<not> (ms_charset m = 2 \<and> even (length (ms_body m)))"
    by (auto simp: msec_text_def)
  then show ?thesis
  proof cases
    case other
    have "naf_sbuf_advance mal s5 plen = Some (0, ?s6)" using h(7) fits by (rule naf_sbuf_advance_fits)
    moreover have "\<not> (ms_charset m = 2 \<and> unat plen mod 2 = 0)" using other(3) ulen by (simp add: even_iff_mod_2_eq_zero)
    ultimately have "extract_loop mal sb s u = extract_loop mal ?s6 s (u + 1)"
      using other(2) by (auto simp: loop)
    with s6 s other(1) show ?thesis by (intro exI [of _ ?s6] exI [of _ s]) (simp add: add_text_def)
  next
    case plain
    obtain b where b: "extendstr mal s (unat plen) = Some (Some (b, length (text_of t)))"
      "length b = length (text_of t) + unat plen + 1" "take (Suc (length (text_of t))) b = text_of t @ [0]"
      by (rule extendstr_cases [OF total_allocD(1) [OF mal] s, of "unat plen"]) (use al in auto)
    let ?e = "length (text_of t)"
    have tk: "take ?e b = text_of t" using arg_cong [OF b(3), of "take ?e"] by (simp add: min_def)
    let ?out = "ms_body m @ drop (unat plen) (drop ?e b)"
    have get: "naf_sbuf_getrawbuf s5 (drop ?e b) plen = Some (uint plen, ?out, ?s6)"
      using naf_sbuf_getrawbuf_eq [OF h(7), of plen "drop ?e b"] b(2) fits h(8) ulen by simp
    let ?b = "text_of t @ ms_body m @ [0]"
    have wr: "mem_write (take ?e b @ ?out) (int (?e + unat plen)) [0] = Some ?b"
      using b(2) tk ulen by (simp add: mem_write_def)
    have "extract_loop mal sb s u = extract_loop mal ?s6 (Some (?b, ?e + unat plen)) u"
      using plain b(1) get wr by (auto simp: loop)
    moreover have "grow_text (Some (?b, ?e + unat plen)) (add_text m t)"
      using plain ulen by (auto simp: grow_text_def add_text_def msec_text_def)
    ultimately show ?thesis using s6 plain
      by (intro exI [of _ ?s6] exI [of _ "Some (?b, ?e + unat plen)"]) (auto simp: msec_text_def)
  next
    case wide
    define k where "k = unat plen div 2"
    have k: "2 * k = length (ms_body m)" using wide(2) ulen by (simp add: k_def)
    let ?x = "concat (map wide_text (wides (ms_body m)))"
    have tkr: "take (2 * k) (sbuf_rest s5) = ms_body m" using h(8) k by simp
    have kr: "2 * k \<le> length (sbuf_rest s5)" using h(8) k by simp
    have kp: "of_nat (2 * k) = plen" unfolding k ulen [symmetric] by simp
    have size: "unicode_size k s5 0 = Some (length ?x, ?s6)"
      using unicode_size_eq [OF h(7) kr, of 0] unfolding tkr kp by simp
    have rewound: "naf_sbuf_setpos mal ?s6 (word_of_int (naf_sbuf_getpos s5)) = Some (0, s5)"
      using sbuf_invD(3) [OF h(7)] by (simp add: naf_sbuf_setpos_def naf_sbuf_getpos_def word_less_nat_alt)
    obtain b where b: "extendstr mal s (length ?x) = Some (Some (b, length (text_of t)))"
      "length b = length (text_of t) + length ?x + 1" "take (Suc (length (text_of t))) b = text_of t @ [0]"
      by (rule extendstr_cases [OF total_allocD(1) [OF mal] s, of "length ?x"]) (use al in auto)
    let ?e = "length (text_of t)"
    have tk: "take ?e b = text_of t" using arg_cong [OF b(3), of "take ?e"] by (simp add: min_def)
    obtain b' where b': "unicode_convert k s5 (b, ?e) = Some ((b', ?e + length ?x), ?s6)" "length b' = length b"
      "take (?e + length ?x) b' = text_of t @ ?x"
      using unicode_convert_eq [OF h(7) kr, of ?e b] b(2) unfolding tkr kp tk by auto
    have wr: "mem_write b' (int (?e + length ?x)) [0] = Some (text_of t @ ?x @ [0])"
      using mem_write_end [of b' "?e + length ?x"] b'(2,3) b(2) by (simp del: of_nat_add)
    have cond: "unat plen mod 2 = 0" "\<not> naf_sbuf_bytesremaining s5 < uint plen"
      using wide(2) ulen fits h(7) by (simp_all add: sbuf_bytesremaining length_sbuf_rest int_less_uint)
    have "extract_loop mal sb s u = extract_loop mal ?s6 (Some (text_of t @ ?x @ [0], ?e + length ?x)) u"
      using wide(1) cond size rewound b(1) b'(1) wr by (simp add: loop k_def [symmetric])
    moreover have "grow_text (Some (text_of t @ ?x @ [0], ?e + length ?x)) (add_text m t)"
      using wide by (auto simp: grow_text_def add_text_def msec_text_def)
    ultimately show ?thesis using s6 wide
      by (intro exI [of _ ?s6] exI [of _ "Some (text_of t @ ?x @ [0], ?e + length ?x)"]) (auto simp: msec_text_def)
  qed
qed

lemma extract_loop_sections:
  "total_alloc mal \<Longrightarrow> \<forall>m \<in> set ms. msec_ok m \<Longrightarrow> sbuf_inv sb \<Longrightarrow> sbuf_rest sb = concat (map msec_encode ms) \<Longrightarrow>
     grow_text s t \<Longrightarrow>
     \<exists>s'. extract_loop mal sb s u = Some (Some (s', u + length (filter (\<lambda>m. msec_text m = None) ms))) \<and>
          grow_text s' (fold add_text ms t)"
proof (induction ms arbitrary: sb s t u)
  case Nil
  then have "\<not> naf_sbuf_bytesremaining sb > 0" by (simp add: sbuf_bytesremaining length_sbuf_rest [symmetric])
  with Nil show ?case by (simp add: extract_loop.simps)
next
  case (Cons m ms)
  then have m: "msec_ok m" and rest: "sbuf_rest sb = msec_encode m @ concat (map msec_encode ms)" by simp_all
  obtain sb' s' where 1: "sbuf_inv sb'" "sbuf_rest sb' = concat (map msec_encode ms)" "grow_text s' (add_text m t)"
    "extract_loop mal sb s u = extract_loop mal sb' s' (if msec_text m = None then u + 1 else u)"
    using extract_loop_section [OF Cons.prems(1,3) m rest Cons.prems(5)] by blast
  have "\<forall>m \<in> set ms. msec_ok m" using Cons.prems(2) by simp
  from Cons.IH [OF Cons.prems(1) this 1(1-3)] obtain s2 where
    "extract_loop mal sb' s' (if msec_text m = None then u + 1 else u) =
      Some (Some (s2, (if msec_text m = None then u + 1 else u) + length (filter (\<lambda>m. msec_text m = None) ms)))"
    "grow_text s2 (fold add_text ms (add_text m t))" by blast
  with 1(4) show ?case by auto
qed

text \<open>A message block: version, features, sections.\<close>

definition msgblock :: "bytes \<Rightarrow> msec list \<Rightarrow> bytes" where
  "msgblock feat ms = naf_byte_put8 0x05 @ naf_byte_put8 0x01 @ naf_byte_put16 (of_nat (length feat)) @ feat @
     concat (map msec_encode ms)"

lemma extractmsgtext_block:
  assumes mal: "total_alloc mal" and ms: "\<forall>m \<in> set ms. msec_ok m" and feat: "length feat < 65536"
    and t: "tlv_value t = Some (msgblock feat ms)" "tlv_ok t"
  shows "toscar_icbm__extractmsgtext mal md t =
    Some (if \<exists>m \<in> set ms. msec_text m = None then 1 else 0, map_option c_string (fold add_text ms None))"
proof -
  have len: "unat (tlv_length t) = length (msgblock feat ms)" using t by (simp add: tlv_ok_def)
  obtain sb where sb: "naf_sbuf_init mal md (tlv_value t) (tlv_length t) = (0, sb)" "sbuf_inv sb"
    "sbuf_rest sb = msgblock feat ms"
    using sbuf_inv_init_given [of "tlv_length t" "msgblock feat ms" mal md] len t(1) by auto
  obtain s1 s2 where s2: "naf_sbuf_get8 sb = Some (5, s1)" "naf_sbuf_get8 s1 = Some (1, s2)" "sbuf_inv s2"
    "sbuf_rest s2 = naf_byte_put16 (of_nat (length feat)) @ feat @ concat (map msec_encode ms)"
    using sbr.get8_get8 [OF sb(2), of 5 1] sb(3) by (auto simp: msgblock_def)
  obtain s3 where s3: "naf_sbuf_get16 s2 = Some (of_nat (length feat), s3)" "sbuf_inv s3"
    "sbuf_rest s3 = feat @ concat (map msec_encode ms)"
    using sbr.get16_ok [OF s2(3,4)] by blast
  have fl: "unat (of_nat (length feat) :: naf_u16_t) = length feat" using feat by (rule unat_of_nat_u16)
  let ?s4 = "s3\<lparr>sbuf_pos := sbuf_pos s3 + of_nat (length feat)\<rparr>"
  have fits: "unat (of_nat (length feat) :: naf_u16_t) \<le> length (sbuf_rest s3)" using fl s3(3) by simp
  have s4: "naf_sbuf_advance mal s3 (of_nat (length feat)) = Some (0, ?s4)" "sbuf_inv ?s4"
    "sbuf_rest ?s4 = concat (map msec_encode ms)"
    using naf_sbuf_advance_fits [OF s3(2) fits] sbuf_load_ok(2,3) [OF s3(2) fits] s3(3) fl by simp_all
  have "grow_text None None" by (simp add: grow_text_def)
  from extract_loop_sections [OF mal ms s4(2,3) this, of 0] obtain s' where
    s': "extract_loop mal ?s4 None 0 = Some (Some (s', length (filter (\<lambda>m. msec_text m = None) ms)))"
    "grow_text s' (fold add_text ms None)" by auto
  have "(0 < length (filter (\<lambda>m. msec_text m = None) ms)) = (\<exists>m \<in> set ms. msec_text m = None)"
    by (auto simp: filter_empty_conv)
  with sb(1) s2(1,2) s3(1) s4(1) s'(1) grow_text_string [OF s'(2)] show ?thesis
    by (simp add: toscar_icbm__extractmsgtext_def)
qed

lemma addoscarmsgblock_ok:
  assumes mal: "total_alloc mal" and len: "length text + 16 < 65536"
  shows "naf_tlv_addoscarmsgblock mal (Some md) (Some ts) type (Some text) =
    Some (0, Some (ts @ [\<lparr>tlv_type = type, tlv_length = of_nat (16 + length text),
      tlv_value = Some (msgblock [1, 1, 1, 2] [\<lparr>ms_charset = 0, ms_subset = 0, ms_body = text\<rparr>])\<rparr>]))"
proof -
  let ?n = "16 + length text"
  let ?blk = "msgblock [1, 1, 1, 2] [\<lparr>ms_charset = 0, ms_subset = 0, ms_body = text\<rparr>]"
  obtain buf where buf: "mal ?n = Some buf" "length buf = ?n" using total_allocD(2) [OF mal] by blast
  have n: "unat (of_nat ?n :: naf_u16_t) = ?n" using len by (intro unat_of_nat_u16) simp
  obtain sb where sb: "naf_sbuf_init mal (Some md) (Some buf) (of_nat ?n) = (0, sb)" "sbuf_inv sb"
    "sbuf_done sb = []" "sbuf_room sb = ?n"
    using sbuf_inv_init_given [of "of_nat ?n" buf mal "Some md"] buf(2) n by auto
  have r: "length (concat (msgblock_puts text)) = 16" by (simp add: msgblock_puts_def)
  obtain s1 where s1: "put_all (sbuf_store mal) sb (msgblock_puts text) = Some (16, s1)" "sbuf_inv s1"
    "sbuf_done s1 = concat (msgblock_puts text)" "sbuf_room s1 = length text"
    using sbw.put_all_fits [OF sb(2), of "msgblock_puts text" mal] sb(3,4) r by auto
  obtain s2 where s2: "sbuf_store mal s1 text = Some (int (length text), s2)" "sbuf_inv s2"
    "sbuf_done s2 = concat (msgblock_puts text) @ text"
    using sbw.put_fits [OF s1(2), of "text" mal] s1(3,4) by auto
  have blk: "concat (msgblock_puts text) @ text = ?blk"
    by (simp add: msgblock_puts_def msgblock_def msec_encode_def naf_byte_put8_def)
  have lb: "length ?blk = ?n" unfolding blk [symmetric] using r by simp
  have pos: "unat (sbuf_pos s2) = ?n" using length_sbuf_done [OF s2(2)] unfolding s2(3) blk lb by simp
  have len2: "?n \<le> length (sbuf_mem s2)" using sbuf_invD(2,3) [OF s2(2)] pos by simp
  have tk: "take ?n (sbuf_mem s2) = ?blk" using s2(3) unfolding sbuf_done_def pos blk .
  have nz: "(of_nat ?n :: naf_u16_t) \<noteq> 0" using n by (metis add_is_0 unat_0 zero_neq_numeral)
  have posw: "word_of_int (naf_sbuf_getpos s2) = (of_nat ?n :: naf_u16_t)"
    unfolding naf_sbuf_getpos_def using pos by (metis uint_nat of_int_of_nat_eq)
  have "naf_tlv_addraw mal (Some md) (Some ts) type (of_nat ?n) (sbuf_buf s2) =
      Some (0, Some (ts @ [\<lparr>tlv_type = type, tlv_length = of_nat ?n, tlv_value = Some ?blk\<rparr>]))"
    using naf_tlv_addraw_ok [OF mal, of "of_nat ?n" "sbuf_buf s2" "sbuf_mem s2" md ts type]
      sbuf_invD(1) [OF s2(2)] len2 nz tk unfolding n by simp
  with buf(1) sb(1) s1(1) s2(1) posw show ?thesis
    by (simp add: naf_tlv_addoscarmsgblock_def naf_sbuf_putstr_def naf_sbuf_putraw_eq)
qed

section \<open>Any input\<close>

text \<open>Buffers over memory that is not ours: \<open>shrinks sb sb'\<close> holds when \<open>sb'\<close> is a later, sound state
  of the same buffer.\<close>

definition shrinks :: "naf_sbuf_t \<Rightarrow> naf_sbuf_t \<Rightarrow> bool" where
  "shrinks sb sb' \<longleftrightarrow> sbuf_inv sb' \<and> sbuf_flags sb' AND NAF_SBUF_FLAG_AUTORESIZE = 0 \<and>
     length (sbuf_rest sb') \<le> length (sbuf_rest sb)"

lemma shrinks_trans: "shrinks a b \<Longrightarrow> shrinks b c \<Longrightarrow> shrinks a c"
  by (auto simp: shrinks_def)

lemma shrinks_load:
  assumes "shrinks sb sb'" "unat n \<le> length (sbuf_rest sb')"
  shows "shrinks sb (sb'\<lparr>sbuf_pos := sbuf_pos sb' + n\<rparr>)"
  using assms sbuf_load_ok(2,3) [of sb' n] by (auto simp: shrinks_def)

lemma get_shrinks:
  assumes "shrinks sb sb'"
  shows "\<exists>v s. naf_sbuf_get8 sb' = Some (v, s) \<and> shrinks sb s"
    "\<exists>v s. naf_sbuf_get16 sb' = Some (v, s) \<and> shrinks sb s"
proof -
  have inv: "sbuf_inv sb'" using assms by (simp add: shrinks_def)
  show "\<exists>v s. naf_sbuf_get8 sb' = Some (v, s) \<and> shrinks sb s"
    using shrinks_load [OF assms, of 1] assms unfolding sbuf_get_eqs(1) [OF inv]
    by (cases "length (sbuf_rest sb') < 1") (auto simp: Suc_le_eq)
  show "\<exists>v s. naf_sbuf_get16 sb' = Some (v, s) \<and> shrinks sb s"
    using shrinks_load [OF assms, of 2] assms unfolding sbuf_get_eqs(2) [OF inv]
    by (cases "length (sbuf_rest sb') < 2") auto
qed

lemma advance_shrinks:
  assumes "shrinks sb sb'"
  shows "\<exists>r s. naf_sbuf_advance mal sb' n = Some (r, s) \<and> shrinks sb s"
proof (cases "unat n \<le> length (sbuf_rest sb')")
  case True
  with assms naf_sbuf_advance_fits [of sb' n mal] shrinks_load [OF assms True] show ?thesis by (simp add: shrinks_def)
next
  case False
  with assms naf_sbuf_advance_static [of sb' n mal] show ?thesis by (simp add: shrinks_def)
qed

text \<open>One round on a plain and on a wide section, whatever is left in the buffer.\<close>

lemma plain_round:
  assumes mal: "good_alloc mal" and sb: "shrinks sb0 sb" and s: "grow_text s t"
  obtains "extendstr mal s (unat plen) = Some None"
  | b e r out sb' b' where "extendstr mal s (unat plen) = Some (Some (b, e))"
      "naf_sbuf_getrawbuf sb (drop e b) plen = Some (r, out, sb')" "shrinks sb0 sb'"
      "mem_write (take e b @ out) (int (e + unat plen)) [0] = Some b'" "\<exists>t'. grow_text (Some (b', e + unat plen)) t'"
proof (rule extendstr_cases [OF mal s, of "unat plen"])
  assume "extendstr mal s (unat plen) = Some None"
  then show thesis by (rule that(1))
next
  fix b
  let ?e = "length (text_of t)"
  assume b: "extendstr mal s (unat plen) = Some (Some (b, ?e))" "length b = ?e + unat plen + 1"
  have inv: "sbuf_inv sb" using sb by (simp add: shrinks_def)
  obtain r out sb' where get: "naf_sbuf_getrawbuf sb (drop ?e b) plen = Some (r, out, sb')" "shrinks sb0 sb'"
    "length out = unat plen + 1"
    using naf_sbuf_getrawbuf_eq [OF inv, of plen "drop ?e b"] shrinks_load [OF sb, of plen] sb b(2)
    by (cases "length (sbuf_rest sb) < unat plen") auto
  let ?b = "take ?e b @ out"
  have len: "length ?b = ?e + unat plen + 1" using b(2) get(3) by simp
  have "mem_write ?b (int (?e + unat plen)) [0] = Some (take (?e + unat plen) ?b @ [0])"
    by (rule mem_write_end [OF len])
  moreover have "grow_text (Some (take (?e + unat plen) ?b @ [0], ?e + unat plen)) (Some (take (?e + unat plen) ?b))"
    using len by (simp add: grow_text_def)
  ultimately show thesis using that(2) [OF b(1) get(1,2)] by blast
qed

lemma wide_round:
  fixes plen :: naf_u16_t
  assumes mal: "good_alloc mal" and sb: "shrinks sb0 sb" and s: "grow_text s t"
    and plen: "\<not> naf_sbuf_bytesremaining sb < uint plen" "unat plen mod 2 = 0"
  obtains n sb1 where "unicode_size (unat plen div 2) sb 0 = Some (n, sb1)"
    "naf_sbuf_setpos mal sb1 (word_of_int (naf_sbuf_getpos sb)) = Some (0, sb)"
    "extendstr mal s n = Some None \<or>
     (\<exists>b e b1 e1 sb2 b2. extendstr mal s n = Some (Some (b, e)) \<and>
        unicode_convert (unat plen div 2) sb (b, e) = Some ((b1, e1), sb2) \<and> shrinks sb0 sb2 \<and>
        mem_write b1 (int e1) [0] = Some b2 \<and> (\<exists>t'. grow_text (Some (b2, e1)) t'))"
proof -
  let ?k = "unat plen div 2"
  have inv: "sbuf_inv sb" using sb by (simp add: shrinks_def)
  have k: "2 * ?k = unat plen" using plen(2) by auto
  have fits: "unat plen \<le> length (sbuf_rest sb)"
    using plen(1) inv by (simp add: sbuf_bytesremaining length_sbuf_rest int_less_uint not_less)
  have kr: "2 * ?k \<le> length (sbuf_rest sb)" using fits unfolding k .
  have kp: "of_nat (2 * ?k) = plen" unfolding k by simp
  let ?x = "concat (map wide_text (wides (take (2 * ?k) (sbuf_rest sb))))"
  let ?s6 = "sb\<lparr>sbuf_pos := sbuf_pos sb + plen\<rparr>"
  have size: "unicode_size ?k sb 0 = Some (length ?x, ?s6)"
    using unicode_size_eq [OF inv kr, of 0] unfolding kp by simp
  have rewound: "naf_sbuf_setpos mal ?s6 (word_of_int (naf_sbuf_getpos sb)) = Some (0, sb)"
    using sbuf_invD(3) [OF inv] by (simp add: naf_sbuf_setpos_def naf_sbuf_getpos_def word_less_nat_alt)
  show thesis
  proof (rule that [OF size rewound], rule extendstr_cases [OF mal s, of "length ?x"])
    fix b
    let ?e = "length (text_of t)"
    assume b: "extendstr mal s (length ?x) = Some (Some (b, ?e))" "length b = ?e + length ?x + 1"
    obtain b' where b': "unicode_convert ?k sb (b, ?e) = Some ((b', ?e + length ?x), ?s6)" "length b' = length b"
      using unicode_convert_eq [OF inv kr, of ?e b] b(2) unfolding kp by auto
    have "mem_write b' (int (?e + length ?x)) [0] = Some (take (?e + length ?x) b' @ [0])"
      using b'(2) b(2) by (intro mem_write_end) simp
    moreover have "grow_text (Some (take (?e + length ?x) b' @ [0], ?e + length ?x)) (Some (take (?e + length ?x) b'))"
      using b'(2) b(2) by (simp add: grow_text_def)
    ultimately show "extendstr mal s (length ?x) = Some None \<or>
     (\<exists>b e b1 e1 sb2 b2. extendstr mal s (length ?x) = Some (Some (b, e)) \<and>
        unicode_convert ?k sb (b, e) = Some ((b1, e1), sb2) \<and> shrinks sb0 sb2 \<and>
        mem_write b1 (int e1) [0] = Some b2 \<and> (\<exists>t'. grow_text (Some (b2, e1)) t'))"
      using b(1) b'(1) shrinks_load [OF sb fits] by blast
  qed blast
qed

lemma extract_loop_total:
  assumes mal: "good_alloc mal"
  shows "shrinks sb sb \<Longrightarrow> grow_text s t \<Longrightarrow> extract_loop mal sb s u \<noteq> None"
proof (induction "length (sbuf_rest sb)" arbitrary: sb s t u rule: less_induct)
  case less
  have inv: "sbuf_inv sb" using less.prems(1) by (simp add: shrinks_def)
  show ?case
  proof (cases "naf_sbuf_bytesremaining sb > 0")
    case False
    then show ?thesis by (simp add: extract_loop.simps)
  next
    case True
    then have ne: "0 < length (sbuf_rest sb)" using inv by (simp add: sbuf_bytesremaining length_sbuf_rest)
    define s1 where "s1 = sb\<lparr>sbuf_pos := sbuf_pos sb + 1\<rparr>"
    have one: "unat (1 :: naf_u16_t) \<le> length (sbuf_rest sb)" using ne by (simp add: Suc_le_eq)
    have r1: "length (sbuf_rest s1) < length (sbuf_rest sb)" and s1: "shrinks s1 s1"
      using sbuf_load_ok(2,3) [OF inv one] ne less.prems(1) unfolding s1_def shrinks_def by auto
    obtain b1 where g1: "naf_sbuf_get8 sb = Some (b1, s1)" using sbuf_get_eqs(1) [OF inv] ne unfolding s1_def by auto
    obtain b2 s2 where g2: "naf_sbuf_get8 s1 = Some (b2, s2)" "shrinks s1 s2" using get_shrinks(1) [OF s1] by blast
    obtain pl s3 where g3: "naf_sbuf_get16 s2 = Some (pl, s3)" "shrinks s1 s3" using get_shrinks(2) [OF g2(2)] by blast
    obtain f1 s4 where g4: "naf_sbuf_get16 s3 = Some (f1, s4)" "shrinks s1 s4" using get_shrinks(2) [OF g3(2)] by blast
    obtain f2 s5 where g5: "naf_sbuf_get16 s4 = Some (f2, s5)" "shrinks s1 s5" using get_shrinks(2) [OF g4(2)] by blast
    obtain r6 s6 where g6: "naf_sbuf_advance mal s5 (pl - 4) = Some (r6, s6)" "shrinks s1 s6"
      using advance_shrinks [OF g5(2)] by blast
    have again: "extract_loop mal s' s'' u' \<noteq> None" if "shrinks s1 s'" "grow_text s'' t'" for s' s'' t' u'
      using less.hyps [of s' s'' t'] that r1 by (auto simp: shrinks_def)
    note loop = extract_loop.simps [of mal sb s u] True g1 g2(1) g3(1) g4(1) g5(1) g6(1)
    consider (short) "b1 \<noteq> 1 \<or> b2 \<noteq> 1 \<or> pl = 0 \<or> pl < 4"
      | (plain) "b1 = 1" "b2 = 1" "pl \<noteq> 0" "\<not> pl < 4" "f1 = 0 \<or> f1 = 3"
      | (wide) "b1 = 1" "b2 = 1" "pl \<noteq> 0" "\<not> pl < 4" "f1 = 2" "unat (pl - 4) mod 2 = 0"
      | (other) "b1 = 1" "b2 = 1" "pl \<noteq> 0" "\<not> pl < 4" "\<not> (f1 = 0 \<or> f1 = 3)" "\<not> (f1 = 2 \<and> unat (pl - 4) mod 2 = 0)"
      by argo
    then show ?thesis
    proof cases
      case short
      then show ?thesis using again [OF g3(2) less.prems(2)] by (auto simp: loop)
    next
      case plain
      then show ?thesis
        by (rule_tac plain_round [OF mal g5(2) less.prems(2), of "pl - 4"]) (use again in \<open>auto simp: loop\<close>)
    next
      case other
      then show ?thesis using again [OF g6(2) less.prems(2)] by (auto simp: loop Let_def)
    next
      case wide
      show ?thesis
      proof (cases "naf_sbuf_bytesremaining s5 < uint (pl - 4)")
        case True
        then show ?thesis using wide by (simp add: loop)
      next
        case False
        then show ?thesis
          by (rule_tac wide_round [OF mal g5(2) less.prems(2) False wide(6)]) (use wide again in \<open>auto simp: loop\<close>)
      qed
    qed
  qed
qed

section \<open>Properties\<close>

text \<open>C18. The text of a well-formed message block is what those of its sections say that can be represented, in order: plain
  sections as they are, 16-bit sections character by character with everything above 127 as \<^verbatim>\<open>&#\<close>, four hexadecimal digits and
  \<^verbatim>\<open>;\<close>. Other sections are left out, and that there are some is reported by the result 1. What the caller gets is cut at
  the first zero byte, and there is none when no section can be represented. Memory is available.\<close>

theorem message_text_read:
  assumes "total_alloc mal" "\<forall>m \<in> set ms. msec_ok m" "length feat < 65536"
    and "tlv_value t = Some (msgblock feat ms)" "tlv_ok t"
  shows "toscar_icbm__extractmsgtext mal md t =
    Some (if \<exists>m \<in> set ms. msec_text m = None then 1 else 0, map_option c_string (fold add_text ms None))"
  by (rule extractmsgtext_block [OF assms])

definition sample_secs :: "msec list" where
  "sample_secs = [\<lparr>ms_charset = 0, ms_subset = 0, ms_body = [104, 105]\<rparr>,
     \<lparr>ms_charset = 2, ms_subset = 0, ms_body = [0, 33, 32, 172]\<rparr>]"

theorem message_text_read_witness:
  "toscar_icbm__extractmsgtext zero_alloc None \<lparr>tlv_type = 2, tlv_length = 28, tlv_value = Some (msgblock [1, 1] sample_secs)\<rparr> =
     Some (if \<exists>m \<in> set sample_secs. msec_text m = None then 1 else 0, map_option c_string (fold add_text sample_secs None)) \<and>
   fold add_text sample_secs None = Some (cstr ''hi!&#20ac;'')"
proof
  show "toscar_icbm__extractmsgtext zero_alloc None \<lparr>tlv_type = 2, tlv_length = 28, tlv_value = Some (msgblock [1, 1] sample_secs)\<rparr> =
     Some (if \<exists>m \<in> set sample_secs. msec_text m = None then 1 else 0, map_option c_string (fold add_text sample_secs None))"
    by (rule message_text_read [where feat = "[1, 1]"])
       (simp_all add: sample_secs_def msec_ok_def tlv_ok_def msgblock_def msec_encode_def)
  show "fold add_text sample_secs None = Some (cstr ''hi!&#20ac;'')" by code_simp
qed

text \<open>C19. A message put into a block comes out again: the TLV that \<^verbatim>\<open>naf_tlv_addoscarmsgblock\<close> appends is
  well-formed and \<^verbatim>\<open>toscar_icbm__extractmsgtext\<close> returns exactly the text it was made from.\<close>

theorem message_block_roundtrip:
  assumes mal: "total_alloc mal" and len: "length msg + 16 < 65536" and str: "0 \<notin> set msg"
  shows "\<exists>t. naf_tlv_addoscarmsgblock mal (Some md) (Some ts) type (Some msg) = Some (0, Some (ts @ [t])) \<and>
    tlv_type t = type \<and> tlv_ok t \<and> toscar_icbm__extractmsgtext mal md' t = Some (0, Some msg)"
proof -
  let ?ms = "[\<lparr>ms_charset = 0, ms_subset = 0, ms_body = msg\<rparr>]"
  let ?t = "\<lparr>tlv_type = type, tlv_length = of_nat (16 + length msg), tlv_value = Some (msgblock [1, 1, 1, 2] ?ms)\<rparr>"
  have n: "unat (of_nat (16 + length msg) :: naf_u16_t) = 16 + length msg" using len by (intro unat_of_nat_u16) simp
  then have "(of_nat (16 + length msg) :: naf_u16_t) \<noteq> 0" by (metis add_is_0 unat_0 zero_neq_numeral)
  with n have ok: "tlv_ok ?t" by (simp add: tlv_ok_def msgblock_def msec_encode_def)
  have "c_string msg = msg" using str by (auto simp: c_string_def takeWhile_eq_all_conv)
  with extractmsgtext_block [OF mal, of ?ms "[1, 1, 1, 2]" ?t md'] ok len addoscarmsgblock_ok [OF mal len]
  show ?thesis by (intro exI [of _ ?t]) (simp add: msec_ok_def msec_text_def add_text_def)
qed

theorem message_block_roundtrip_witness:
  "\<exists>t. naf_tlv_addoscarmsgblock zero_alloc (Some 1) (Some []) 2 (Some [104, 105]) = Some (0, Some ([] @ [t])) \<and>
    tlv_type t = 2 \<and> tlv_ok t \<and> toscar_icbm__extractmsgtext zero_alloc None t = Some (0, Some [104, 105])"
  by (rule message_block_roundtrip) simp_all

text \<open>C30. Reading a message is total: whatever bytes a non-empty message TLV holds, truncated or
  inconsistent, \<^verbatim>\<open>toscar_icbm__extractmsgtext\<close> returns, without an access outside its blocks, also when
  memory runs out on the way.\<close>

theorem message_text_total:
  assumes mal: "good_alloc mal" and t: "tlv_ok t" "tlv_length t \<noteq> 0"
  shows "\<exists>r msg. toscar_icbm__extractmsgtext mal md t = Some (r, msg) \<and> r \<in> {-1, 0, 1} \<and> (r = -1 \<longrightarrow> msg = None)"
proof -
  obtain v where v: "tlv_value t = Some v" "length v = unat (tlv_length t)"
    using t by (auto simp: tlv_ok_def split: option.splits)
  obtain sb where sb: "naf_sbuf_init mal md (tlv_value t) (tlv_length t) = (0, sb)" "sbuf_inv sb" "sbuf_flags sb = 0"
    using sbuf_inv_init_given [of "tlv_length t" v mal md] v by auto
  then have s0: "shrinks sb sb" by (simp add: shrinks_def)
  obtain b1 s1 where g1: "naf_sbuf_get8 sb = Some (b1, s1)" "shrinks sb s1" using get_shrinks(1) [OF s0] by blast
  obtain b2 s2 where g2: "naf_sbuf_get8 s1 = Some (b2, s2)" "shrinks sb s2" using get_shrinks(1) [OF g1(2)] by blast
  obtain fl s3 where g3: "naf_sbuf_get16 s2 = Some (fl, s3)" "shrinks sb s3" using get_shrinks(2) [OF g2(2)] by blast
  obtain r4 s4 where g4: "naf_sbuf_advance mal s3 fl = Some (r4, s4)" "shrinks sb s4"
    using advance_shrinks [OF g3(2)] by blast
  have "shrinks s4 s4" using g4(2) by (simp add: shrinks_def)
  then obtain res where "extract_loop mal s4 None 0 = Some res"
    using extract_loop_total [OF mal, of s4 None None 0] by (auto simp: grow_text_def)
  then show ?thesis using sb(1) g1(1) g2(1) g3(1) g4(1)
    by (cases res) (auto simp: toscar_icbm__extractmsgtext_def)
qed

theorem message_text_total_witness:
  "\<exists>r msg. toscar_icbm__extractmsgtext no_alloc None
      \<lparr>tlv_type = 2, tlv_length = 7, tlv_value = Some [5, 1, 0, 0, 1, 1, 9]\<rparr> = Some (r, msg) \<and> r \<in> {-1, 0, 1} \<and>
    (r = -1 \<longrightarrow> msg = None)"
  by (rule message_text_total) (simp_all add: tlv_ok_def)

text \<open>A message from the server that cannot be taken apart crashes the proxy: with no screen name on
  the connection, or less than the 8 bytes of the message cookie, the handler jumps to its end with no
  message made and passes a null pointer to \<^verbatim>\<open>gnr_msg_free\<close>, which reads through it.\<close>

theorem incoming_runt_crashes:
  assumes mal: "good_alloc (oe_mal e)" and inv: "sbuf_inv (snac_payload snac)"
    and sn: "conn_screenname e (Some conn) st = Some sno"
    and bad: "sno = None \<or> length (sbuf_rest (snac_payload snac)) < MSGCOOKIELEN"
  shows "toscar_snachandler_0004_0007 e route conn snac st = None"
proof (cases sno)
  case None
  with sn show ?thesis by (simp add: toscar_snachandler_0004_0007_def)
next
  case (Some s)
  then have "naf_sbuf_getraw (oe_mal e) (snac_payload snac) (of_nat MSGCOOKIELEN) = Some (None, snac_payload snac)"
    using bad naf_sbuf_getraw_eq [OF inv mal, of 8] by simp
  with Some sn show ?thesis by (simp add: toscar_snachandler_0004_0007_def)
qed

theorem incoming_runt_crashes_witness:
  "toscar_snachandler_0004_0007 sample_env (\<lambda>gm st. None) 4 login_snac sample_state = None"
  by (rule incoming_runt_crashes [where sno = None])
     (simp_all add: login_tlvs_facts(2) conn_screenname_def naf_conn_tag_fetch_def naf_tag_fetch_def badname_def
       sample_env_def sample_state_def sample_conn_def cstr_def)

end
