(* ===== verification/FlapIn.thy ===== *)
theory FlapIn
  imports Icbm
begin

text \<open>
  The receiving half of \<^verbatim>\<open>timps/oscar/flap.c\<close> and the dispatcher of \<^verbatim>\<open>timps/oscar/snac.c\<close>: reading a
  frame in two steps, the login packets of channel 1, the table of SNAC handlers, and forwarding.
\<close>

section \<open>Channel 1\<close>

definition tag_of :: "string \<Rightarrow> bytes option" where
  "tag_of s = Some (cstr s)"

definition toscar_flap_handlechan1__conncomplete ::
    "'nb oenv \<Rightarrow> nat \<Rightarrow> 'nb ostate \<Rightarrow> (int \<times> 'nb ostate) option" where
  "toscar_flap_handlechan1__conncomplete e conn st = do {
     let m = Some (oe_mod e);
     (r, out, st) \<leftarrow> naf_conn_tag_remove m (Some conn) (tag_of ''conn.logintlvs'') st;
     if r \<noteq> -1
     then do {
       (_, d) \<leftarrow> out;
       wtlvs \<leftarrow> as_tlvs d;
       (_, out, st) \<leftarrow> naf_conn_tag_remove m (Some conn) (tag_of ''conn.loginsnacid'') st;
       snacid \<leftarrow> (case out of None \<Rightarrow> Some 0 | Some (_, d) \<Rightarrow> as_int d);
       (_, st) \<leftarrow> toscar_flap__sendflapversion e (Some conn) st;
       (_, st) \<leftarrow> toscar_auth_sendauthinforequest e conn snacid wtlvs st;
       Some (HRET_DIGESTED, st)
     }
     else do {
       (r, out, st) \<leftarrow> naf_conn_tag_remove m (Some conn) (tag_of ''conn.cookietlvs'') st;
       if r \<noteq> -1
       then do {
         (_, d) \<leftarrow> out;
         wtlvs \<leftarrow> as_tlvs d;
         (_, st) \<leftarrow> toscar_flap_sendcookie e (Some conn) wtlvs st;
         Some (HRET_DIGESTED, st)
       }
       else Some (HRET_DIGESTED, st)
     }
   }"

definition toscar_flap_handlechan1__xorlogin :: int where
  "toscar_flap_handlechan1__xorlogin = HRET_ERROR"

text \<open>A null cookie pointer is only compared when a cached cookie has the length 0, which none has.\<close>

definition toscar_flap_handlechan1__newconn ::
    "'nb oenv \<Rightarrow> nat \<Rightarrow> naf_tlv_t list \<Rightarrow> 'nb ostate \<Rightarrow> (int \<times> 'nb ostate) option" where
  "toscar_flap_handlechan1__newconn e conn tlvh st =
     (case naf_tlv_get tlvh 0x0006 of
        None \<Rightarrow> Some (HRET_ERROR, st)
      | Some cktlv \<Rightarrow>
          (case toscar_ckcache_rem (tlv_bytes cktlv) (tlv_length cktlv) (os_ckcache st) of
             (r, None, cache) \<Rightarrow> Some (HRET_ERROR, st\<lparr>os_ckcache := cache\<rparr>)
           | (r, Some (ip, sn, servtype), cache) \<Rightarrow> do {
               let st = st\<lparr>os_ckcache := cache\<rparr>;
               (r, st) \<leftarrow> naf_conn_startconnect (oe_mal e) (oe_nb e) (oe_now e) (oscar_takeconn e)
                            (Some conn) (Some ip) TIMPS_OSCAR_DEFAULTPORT st;
               if r = -1 then Some (HRET_ERROR, st)
               else do {
                 c \<leftarrow> cs_conns st conn;
                 ep \<leftarrow> c_endpoint c;
                 let st = conn_update conn (\<lambda>c. c\<lparr>c_servtype := uint servtype\<rparr>) st;
                 let st = conn_update ep (\<lambda>c. c\<lparr>c_servtype := uint servtype\<rparr>) st;
                 (r, st) \<leftarrow> naf_conn_tag_add (oe_mal e) (Some (oe_mod e)) (Some ep)
                              (tag_of ''conn.screenname'') (CHR ''S'') (DStr sn) st;
                 if r = -1 then Some (HRET_ERROR, st)
                 else do {
                   (r, st) \<leftarrow> naf_conn_tag_add (oe_mal e) (Some (oe_mod e)) (Some ep)
                                (tag_of ''conn.cookietlvs'') (CHR ''V'') (DTlvs tlvh) st;
                   Some (if r = -1 then HRET_ERROR else HRET_DIGESTED, st)
                 }
               }
             }))"

text \<open>The fields of the frame header.\<close>

definition FLAPHDR_MAGIC :: "bytes \<Rightarrow> naf_u8_t option" where
  "FLAPHDR_MAGIC buf = map_option naf_byte_get8 (mem_read buf 0 1)"

definition FLAPHDR_CHAN :: "bytes \<Rightarrow> naf_u8_t option" where
  "FLAPHDR_CHAN buf = map_option naf_byte_get8 (mem_read buf 1 1)"

definition FLAPHDR_LEN :: "bytes \<Rightarrow> naf_u16_t option" where
  "FLAPHDR_LEN buf = map_option naf_byte_get16 (mem_read buf 4 2)"

definition toscar_flap_handlechan1 ::
    "'nb oenv \<Rightarrow> nat \<Rightarrow> bytes \<Rightarrow> naf_u16_t \<Rightarrow> 'nb ostate \<Rightarrow> (int \<times> 'nb ostate) option" where
  "toscar_flap_handlechan1 e conn buf buflen st = do {
     let (_, sb) = naf_sbuf_init (oe_mal e) (Some (oe_mod e)) (Some buf) buflen;
     (_, sb) \<leftarrow> naf_sbuf_advance (oe_mal e) sb (of_nat FLAPHDRLEN);
     (flapver, sb) \<leftarrow> naf_sbuf_get32 sb;
     if flapver \<noteq> 0x00000001 then Some (HRET_ERROR, st)
     else do {
       (tlvh, sb) \<leftarrow> naf_tlv_parse (oe_mal e) sb;
       len \<leftarrow> FLAPHDR_LEN buf;
       c \<leftarrow> cs_conns st conn;
       if len = 4
       then (if c_type c AND NAF_CONN_TYPE_SERVER \<noteq> 0
             then toscar_flap_handlechan1__conncomplete e conn st
             else Some (HRET_DIGESTED, st))
       else if c_type c AND NAF_CONN_TYPE_CLIENT \<noteq> 0 \<and> naf_tlv_get tlvh 0x0001 \<noteq> None
       then Some (toscar_flap_handlechan1__xorlogin, st)
       else if c_type c AND NAF_CONN_TYPE_CLIENT \<noteq> 0 \<and> naf_tlv_get tlvh 0x0006 \<noteq> None
       then toscar_flap_handlechan1__newconn e conn tlvh st
       else Some (HRET_ERROR, st)
     }
   }"

definition toscar_flap_handlechan4 :: int where
  "toscar_flap_handlechan4 = HRET_FORWARD"

definition toscar_flap_handlechan5 :: int where
  "toscar_flap_handlechan5 = HRET_FORWARD"

section \<open>Dispatching SNACs\<close>

abbreviation (input) SNACHDRLEN :: nat where "SNACHDRLEN \<equiv> 10"

text \<open>The table \<^verbatim>\<open>toscar__snachandlers\<close>.\<close>

definition toscar__snachandlers ::
    "'nb oenv \<Rightarrow> 'nb router \<Rightarrow> (naf_u16_t \<times> naf_u16_t \<times> (nat \<Rightarrow> toscar_snac \<Rightarrow> 'nb ostate \<Rightarrow> (int \<times> 'nb ostate) option)) list" where
  "toscar__snachandlers e route =
     [(0x0001, 0x0002, toscar_snachandler_0001_0002 e),
      (0x0001, 0x0003, toscar_snachandler_0001_0003 e),
      (0x0001, 0x000b, toscar_snachandler_0001_000b e),
      (0x0004, 0x0006, toscar_snachandler_0004_0006 e route),
      (0x0004, 0x0007, toscar_snachandler_0004_0007 e route),
      (0x0017, 0x0003, toscar_snachandler_0017_0003 e),
      (0x0017, 0x0006, toscar_snachandler_0017_0006 e)]"

fun find_handler :: "naf_u16_t \<Rightarrow> naf_u16_t \<Rightarrow> (naf_u16_t \<times> naf_u16_t \<times> 'h) list \<Rightarrow> 'h option" where
  "find_handler g s [] = None"
| "find_handler g s ((g', s', h) # tab) = (if g' = g \<and> s' = s then Some h else find_handler g s tab)"

text \<open>The parsed header. \<open>buf\<close> is the memory after the FLAP header, of which \<open>buflen\<close> bytes belong to
  the frame; the length of the extended header is not checked against it.\<close>

definition parse_snac :: "'nb oenv \<Rightarrow> bytes \<Rightarrow> naf_u16_t \<Rightarrow> toscar_snac option" where
  "parse_snac e buf buflen = do {
     g \<leftarrow> mem_read buf 0 2;
     s \<leftarrow> mem_read buf 2 2;
     f \<leftarrow> mem_read buf 4 2;
     i \<leftarrow> mem_read buf 6 4;
     let flags = naf_byte_get16 f;
     exthdrlen \<leftarrow> (if flags AND 0x8000 \<noteq> 0
                   then map_option naf_byte_get16 (mem_read buf (int SNACHDRLEN) 2) else Some 0);
     let none = \<lparr>sbuf_owner = None, sbuf_flags = 0, sbuf_buf = None, sbuf_buflen = 0, sbuf_pos = 0\<rparr>;
     let m = Some (oe_mod e);
     let ext = (if exthdrlen \<noteq> 0
                then snd (naf_sbuf_init (oe_mal e) m (Some (drop (SNACHDRLEN + 2) buf)) exthdrlen) else none);
     let skip = (if exthdrlen \<noteq> 0 then 2 + exthdrlen else 0);
     let pl = snd (naf_sbuf_init (oe_mal e) m
                (Some (drop (SNACHDRLEN + (if exthdrlen \<noteq> 0 then 2 + unat exthdrlen else 0)) buf))
                (buflen - of_nat SNACHDRLEN - skip));
     Some \<lparr>snac_group = naf_byte_get16 g, snac_subtype = naf_byte_get16 s, snac_flags = flags,
           snac_id = naf_byte_get32 i, snac_extinfo = ext, snac_payload = pl\<rparr>
   }"

definition toscar_flap_handlesnac ::
    "'nb oenv \<Rightarrow> 'nb router \<Rightarrow> nat \<Rightarrow> bytes \<Rightarrow> naf_u16_t \<Rightarrow> 'nb ostate \<Rightarrow> (int \<times> 'nb ostate) option" where
  "toscar_flap_handlesnac e route conn buf buflen st =
     (if buflen < of_nat SNACHDRLEN then Some (HRET_ERROR, st)
      else do {
        snac \<leftarrow> parse_snac e buf buflen;
        case find_handler (snac_group snac) (snac_subtype snac) (toscar__snachandlers e route) of
          None \<Rightarrow> Some (HRET_FORWARD, st)
        | Some h \<Rightarrow> h conn snac st
      })"

section \<open>Reading frames\<close>

text \<open>A frame is read in two steps: the header, then the rest into the same buffer. \<open>buf\<close> is the
  whole block, \<open>buflen\<close> the length of the request that was filled.\<close>

definition handle_frame ::
    "'nb oenv \<Rightarrow> 'nb router \<Rightarrow> nat \<Rightarrow> bytes \<Rightarrow> int \<Rightarrow> naf_u8_t \<Rightarrow> 'nb ostate \<Rightarrow> (int \<times> 'nb ostate) option" where
  "handle_frame e route conn buf buflen chan st =
     (if chan = 0x01 then toscar_flap_handlechan1 e conn buf (word_of_int buflen) st
      else if chan = 0x02
      then toscar_flap_handlesnac e route conn (drop FLAPHDRLEN buf) (word_of_int (buflen - int FLAPHDRLEN)) st
      else if chan = 0x04 then Some (toscar_flap_handlechan4, st)
      else if chan = 0x05 then Some (toscar_flap_handlechan5, st)
      else Some (HRET_FORWARD, st))"

text \<open>Forwarding to the other side, and asking for the next frame.\<close>

definition finish_frame ::
    "'nb oenv \<Rightarrow> nat \<Rightarrow> bytes \<Rightarrow> int \<Rightarrow> int \<Rightarrow> 'nb ostate \<Rightarrow> (int \<times> 'nb ostate) option" where
  "finish_frame e conn buf buflen hret st =
     (if hret = HRET_ERROR then Some (-1, st)
      else do {
        c \<leftarrow> cs_conns st conn;
        if hret = HRET_FORWARD \<and> c_endpoint c \<noteq> None
        then do {
          (r, st) \<leftarrow> toscar_flap__sendraw e (c_endpoint c) (Some buf) (word_of_int buflen) st;
          if r = -1 then Some (-1, st)
          else toscar_flap__reqflap e conn None st
        }
        else toscar_flap__reqflap e conn (Some buf) st
      })"

definition toscar_flap_handleread ::
    "'nb oenv \<Rightarrow> 'nb router \<Rightarrow> nat \<Rightarrow> 'nb ostate \<Rightarrow> (int \<times> 'nb ostate) option" where
  "toscar_flap_handleread e route conn st = do {
     (r, out, st) \<leftarrow> naf_conn_takeread (oe_nb e) (Some conn) st;
     case out of
       None \<Rightarrow> Some (-1, st)
     | Some (buf, buflen) \<Rightarrow>
         if r = -1 then Some (-1, st)
         else do {
           magic \<leftarrow> FLAPHDR_MAGIC buf;
           if magic \<noteq> FLAP_MAGIC then Some (-1, st)
           else do {
             chan \<leftarrow> FLAPHDR_CHAN buf;
             if \<not> (chan = 0x01 \<or> chan = 0x02 \<or> chan = 0x04 \<or> chan = 0x05) then Some (-1, st)
             else do {
               len \<leftarrow> FLAPHDR_LEN buf;
               if unat len > MAXSNACLEN then Some (-1, st)
               else if buflen \<noteq> int (unat len + FLAPHDRLEN)
               then do {
                 (r, st) \<leftarrow> naf_conn_reqread (oe_nb e) (Some conn) (Some buf) (buflen + int (unat len)) buflen st;
                 Some (if r = -1 then -1 else 0, st)
               }
               else do {
                 (hret, st) \<leftarrow> handle_frame e route conn buf buflen chan st;
                 finish_frame e conn buf buflen hret st
               }
             }
           }
         }
   }"

definition toscar_flap_handlewrite :: "'nb oenv \<Rightarrow> nat \<Rightarrow> 'nb ostate \<Rightarrow> (int \<times> 'nb ostate) option" where
  "toscar_flap_handlewrite e conn st = do {
     (r, out, st) \<leftarrow> naf_conn_takewrite (oe_nb e) (oe_now e) (Some conn) st;
     Some (if r = -1 then -1 else 0, st)
   }"

section \<open>Frames on the wire\<close>

lemma flap_frame_fields:
  assumes "length body < 65536"
  shows "FLAPHDR_MAGIC (flap_frame chan seq body @ rest) = Some FLAP_MAGIC"
    "FLAPHDR_CHAN (flap_frame chan seq body @ rest) = Some chan"
    "FLAPHDR_LEN (flap_frame chan seq body @ rest) = Some (of_nat (length body))"
  using naf_byte_get16_put16 [of "of_nat (length body)" "[]"]
  by (simp_all add: FLAPHDR_MAGIC_def FLAPHDR_CHAN_def FLAPHDR_LEN_def flap_frame_def mem_read_def
      naf_byte_put16_def)

text \<open>A complete frame on a channel that is passed on goes to the other side with the same channel
  and body and the other side's own sequence number.\<close>

lemma finish_frame_forward:
  assumes c: "cs_conns st conn = Some c" "c_endpoint c = Some ep"
    and len: "FLAPHDRLEN + length body < 65536"
  shows "finish_frame e conn (flap_frame chan seq body @ rest) (int (FLAPHDRLEN + length body)) HRET_FORWARD st =
    do { (r, st) \<leftarrow> send_frame e ep chan body rest st;
         if r = -1 then Some (-1, st) else toscar_flap__reqflap e conn None st }"
proof -
  have "flap_frame chan seq body @ rest =
      [FLAP_MAGIC, chan, ucast (drop_bit 8 seq), ucast seq,
       ucast (drop_bit 8 (of_nat (length body) :: naf_u16_t)), ucast (of_nat (length body) :: naf_u16_t)] @ body @ rest"
    by (simp add: flap_frame_def naf_byte_put16_def)
  from sendraw_send_frame [OF this len, of e ep st] show ?thesis
    unfolding finish_frame_def using c by simp
qed

text \<open>Taking what has been read off the queue.\<close>

lemma takeread_eq:
  assumes "cs_conns st conn = Some c" "c_fdt c = Some fdt"
    and "nb_remtoprxvector nb fdt (cs_nb st) = (Some (b, len, off), n)"
  shows "naf_conn_takeread nb (Some conn) st = Some (len, Some (b, len), st\<lparr>cs_nb := n\<rparr>)"
  using assms by (simp add: naf_conn_takeread_def)

text \<open>The fields of a SNAC header in front of at least the bytes it needs.\<close>

definition snac_fits :: "bytes \<Rightarrow> bool" where
  "snac_fits body \<longleftrightarrow> SNACHDRLEN \<le> length body \<and>
     (naf_byte_get16 (drop 4 body) AND 0x8000 \<noteq> 0 \<longrightarrow> SNACHDRLEN + 2 \<le> length body)"

lemma parse_snac_fields:
  assumes "snac_fits body"
  shows "\<exists>s. parse_snac e (body @ rest) buflen = Some s \<and> snac_group s = naf_byte_get16 body \<and>
    snac_subtype s = naf_byte_get16 (drop 2 body)"
proof -
  have len: "SNACHDRLEN \<le> length body" using assms by (simp add: snac_fits_def)
  have rd: "mem_read (body @ rest) 0 2 = Some (take 2 body)" "mem_read (body @ rest) 2 2 = Some (take 2 (drop 2 body))"
    "mem_read (body @ rest) 4 2 = Some (take 2 (drop 4 body))" "mem_read (body @ rest) 6 4 = Some (take 4 (drop 6 body))"
    using len by (simp_all add: mem_read_def)
  have "mem_read (body @ rest) (int SNACHDRLEN) 2 \<noteq> None" if "naf_byte_get16 (drop 4 body) AND 0x8000 \<noteq> 0"
    using assms that by (simp add: snac_fits_def mem_read_def)
  then obtain ex where "(if naf_byte_get16 (drop 4 body) AND 0x8000 \<noteq> 0
      then map_option naf_byte_get16 (mem_read (body @ rest) (int SNACHDRLEN) 2) else Some 0) = Some ex"
    by fastforce
  then show ?thesis
    unfolding parse_snac_def rd Let_def bind.bind_lunit naf_byte_get_take by (simp only: bind.bind_lunit) simp
qed

text \<open>What the dispatcher does with a complete frame that nothing in the proxy is interested in.\<close>

definition passes_through :: "'nb oenv \<Rightarrow> 'nb router \<Rightarrow> naf_u8_t \<Rightarrow> bytes \<Rightarrow> bool" where
  "passes_through e route chan body \<longleftrightarrow> chan = 0x04 \<or> chan = 0x05 \<or>
     (chan = 0x02 \<and> snac_fits body \<and>
      find_handler (naf_byte_get16 body) (naf_byte_get16 (drop 2 body)) (toscar__snachandlers e route) = None)"

lemma drop_flap_frame: "drop FLAPHDRLEN (flap_frame chan seq body @ rest) = body @ rest"
  by (simp add: flap_frame_def naf_byte_put16_def)

lemma handle_frame_passes:
  assumes p: "passes_through e route chan body" and len: "length body \<le> MAXSNACLEN"
  shows "handle_frame e route conn (flap_frame chan seq body @ rest) (int (FLAPHDRLEN + length body)) chan st =
    Some (HRET_FORWARD, st)"
proof -
  have wo: "word_of_int (int (FLAPHDRLEN + length body) - int FLAPHDRLEN) = (of_nat (length body) :: naf_u16_t)" by simp
  have u: "unat (of_nat (length body) :: naf_u16_t) = length body" using len by (intro unat_of_nat_u16) simp
  have "toscar_flap_handlesnac e route conn (body @ rest) (of_nat (length body)) st = Some (HRET_FORWARD, st)"
    if snac: "snac_fits body"
      "find_handler (naf_byte_get16 body) (naf_byte_get16 (drop 2 body)) (toscar__snachandlers e route) = None"
  proof -
    have "\<not> of_nat (length body) < (of_nat SNACHDRLEN :: naf_u16_t)"
      using snac(1) u by (simp add: word_less_nat_alt snac_fits_def)
    with parse_snac_fields [OF snac(1), of e rest "of_nat (length body)"] snac(2) show ?thesis
      by (auto simp: toscar_flap_handlesnac_def)
  qed
  with p show ?thesis
    unfolding handle_frame_def drop_flap_frame wo
    by (auto simp: passes_through_def toscar_flap_handlechan4_def toscar_flap_handlechan5_def)
qed

lemma handleread_frame:
  assumes c: "cs_conns st conn = Some c" "c_fdt c = Some fdt"
    and rd: "nb_remtoprxvector (oe_nb e) fdt (cs_nb st) = (Some (flap_frame chan seq body @ rest, len, off), n)"
    and chan: "chan = 0x01 \<or> chan = 0x02 \<or> chan = 0x04 \<or> chan = 0x05" and body: "length body \<le> MAXSNACLEN" and r: "len \<noteq> -1"
  shows "toscar_flap_handleread e route conn st =
    (if len = int (FLAPHDRLEN + length body)
     then do { (hret, st) \<leftarrow> handle_frame e route conn (flap_frame chan seq body @ rest) len chan (st\<lparr>cs_nb := n\<rparr>);
               finish_frame e conn (flap_frame chan seq body @ rest) len hret st }
     else do { (r, st) \<leftarrow> naf_conn_reqread (oe_nb e) (Some conn) (Some (flap_frame chan seq body @ rest))
                            (len + int (length body)) len (st\<lparr>cs_nb := n\<rparr>);
               Some (if r = -1 then -1 else 0, st) })"
proof -
  have lt: "length body < 65536" using body by simp
  then have u: "unat (of_nat (length body) :: naf_u16_t) = length body" by (rule unat_of_nat_u16)
  show ?thesis
    unfolding toscar_flap_handleread_def takeread_eq [OF c rd]
    using chan body r by (auto simp: flap_frame_fields [OF lt] u add.commute)
qed

section \<open>Opening the other side\<close>

text \<open>A client's connection gets its server side, which the module takes over.\<close>

lemma startconnect_takeover:
  fixes st :: "'nb ostate"
  assumes mal: "total_alloc (oe_mal e)" and host: "split_host h TIMPS_OSCAR_DEFAULTPORT = Some (host, port)"
    and dial: "nb_dial (oe_nb e) host (word_of_int port) (cs_nb st) = (Some (sfd, inprogress), n)"
    and fd: "nb_addfd (oe_nb e) NBIO_FDTYPE_STREAM sfd (cs_next st) n = (Some fdt, n2)"
    and c: "cs_conns st conn = Some c" "c_owner c = Some (oe_mod e)" "bit (c_type c) 20" "\<not> bit (c_type c) 22"
      "\<not> bit (c_type c) 23" "\<not> bit (c_type c) 25" "conn \<noteq> cs_next st"
  obtains ec t st2 where "naf_conn_startconnect (oe_mal e) (oe_nb e) (oe_now e) (oscar_takeconn e) (Some conn) (Some h)
        TIMPS_OSCAR_DEFAULTPORT st =
      Some (0, conn_update (cs_next st) (\<lambda>c. c\<lparr>c_owner := Some (oe_mod e), c_endpoint := Some conn\<rparr>) st2)"
    "cs_conns st2 conn = Some (c\<lparr>c_endpoint := Some (cs_next st)\<rparr>)"
    "cs_conns st2 (cs_next st) = Some (ec\<lparr>c_type := t, c_flags := 0\<rparr>)" "bit t 21" "c_taglist ec = []"
    "os_ckcache st2 = os_ckcache st" "os_gnr st2 = os_gnr st"
proof -
  let ?a = "cs_next st" and ?m = "oe_mod e"
  define P where "P = (\<lambda>ec (st1 :: 'nb ostate) (st2 :: 'nb ostate). \<exists>t. cs_conns st2 = (cs_conns st1)(?a \<mapsto> ec\<lparr>c_type := t, c_flags := 0\<rparr>) \<and>
    bit t 21 \<and> c_taglist ec = [] \<and> cstate.more st2 = cstate.more st1)"
  have tk: "\<exists>r st2. takeconn e (cs_next st) st1 = Some (r, st2) \<and> P ec st1 st2 \<and> cs_conns st2 conn = cs_conns st1 conn \<and>
      cs_conns st2 (cs_next st) \<noteq> None"
    if ec: "cs_conns st1 (cs_next st) = Some ec" "c_fdt ec = Some fdt"
      "c_type ec = (c_type c XOR NAF_CONN_TYPE_CLIENT) OR NAF_CONN_TYPE_SERVER OR
         (if inprogress then NAF_CONN_TYPE_CONNECTING else 0)" "c_taglist ec = []"
      "cs_conns st1 conn = Some (c\<lparr>c_endpoint := Some (cs_next st)\<rparr>)" "cstate.more st1 = cstate.more st"
    for ec and st1 :: "'nb ostate"
  proof -
    have bits: "\<not> bit (c_type ec) 20" "bit (c_type ec) 21" using c(3) ec(3) by (simp_all add: bit_simps)
    obtain r st2 t where "takeconn e (cs_next st) st1 = Some (r, st2)"
      "cs_conns st2 = (cs_conns st1)(cs_next st \<mapsto> ec\<lparr>c_type := t, c_flags := 0\<rparr>)" "bit t 21 = bit (c_type ec) 21"
      "cstate.more st2 = cstate.more st1"
      by (rule takeconn_server [OF ec(1) bits(1)])
    with bits(2) c(7) ec(4) show ?thesis by (simp add: P_def) blast
  qed
  have pre: "oe_mal e sizeof_nafconn \<noteq> None" "oscar_takeconn e ?m = Some (takeconn e)" "cs_conns st conn = Some c"
    "conn \<noteq> cs_next st" "nb_dial (oe_nb e) host (word_of_int port) (cs_nb st) = (Some (sfd, inprogress), n)"
    "nb_addfd (oe_nb e) NBIO_FDTYPE_STREAM sfd (cs_next st) n = (Some fdt, n2)"
    using total_allocD(3) [OF mal] c(1,7) dial fd by (simp_all add: oscar_takeconn_def)
  obtain ec st1 st2 where 2: "P ec st1 st2" "cstate.more st1 = cstate.more st"
    "cs_conns st2 conn = Some (c\<lparr>c_endpoint := Some ?a\<rparr>)"
    "naf_conn_startconnect (oe_mal e) (oe_nb e) (oe_now e) (oscar_takeconn e) (Some conn) (Some h) TIMPS_OSCAR_DEFAULTPORT st =
       Some (0, conn_update ?a (\<lambda>c. c\<lparr>c_owner := Some ?m, c_endpoint := Some conn\<rparr>) st2)"
    by (rule startconnect_ok [where st = st and P = P and now = "oe_now e" and mal = "oe_mal e" and nb = "oe_nb e"
        and takeconn = "oscar_takeconn e" and tkf = "takeconn e" and own = ?m and l = conn and lc = c and h = h and port' = port
        and host = host and port = TIMPS_OSCAR_DEFAULTPORT and sfd = sfd and inprogress = inprogress and n = n
        and fdt = fdt and ?n2.0 = n2, OF pre(1) host pre(5,3) c(4,5,6) pre(4,6) c(2) pre(2) tk])
       simp_all
  obtain t where t: "cs_conns st2 ?a = Some (ec\<lparr>c_type := t, c_flags := 0\<rparr>)" "bit t 21" "c_taglist ec = []"
    "os_ckcache st2 = os_ckcache st" "os_gnr st2 = os_gnr st"
    using 2(1,2) ostate_moreD [of st2 st1] ostate_moreD [of st1 st] unfolding P_def by auto
  from that [OF 2(4,3) t] show thesis .
qed

text \<open>Adding a tag to a connection that does not have it.\<close>

lemma conn_tag_add_new:
  assumes "mal sizeof_naf_tag_t \<noteq> None" "name \<noteq> []" "length name \<le> MAXTAGNAMELEN"
    and "cs_conns st a = Some c" "tag_search (m, name) (c_taglist c) = None"
  shows "naf_conn_tag_add mal (Some m) (Some a) (Some name) type data st =
    Some (0, conn_update a (\<lambda>c. c\<lparr>c_taglist := \<lparr>tag_owner = m, tag_name = name, tag_type = type, tag_data = data\<rparr> # c_taglist c\<rparr>) st)"
  using assms naf_tag_add_cases [where mal = mal, OF assms(1,2), of "c_taglist c" m type data]
  by (simp add: naf_conn_tag_add_def conn_update_def)

section \<open>Properties\<close>

text \<open>C27. A complete frame that the proxy has no business with goes to the other side: channels 4 and 5
  and every SNAC without a handler are sent on with the same channel and body under the other side's
  own sequence number, and the next frame is asked for.\<close>

theorem frames_forwarded:
  assumes c: "cs_conns st conn = Some c" "c_fdt c = Some fdt" "c_endpoint c = Some ep"
    and rd: "nb_remtoprxvector (oe_nb e) fdt (cs_nb st) =
      (Some (flap_frame chan seq body @ rest, int (FLAPHDRLEN + length body), off), n)"
    and p: "passes_through e route chan body" and len: "length body \<le> MAXSNACLEN"
  shows "toscar_flap_handleread e route conn st =
    do { (r, st) \<leftarrow> send_frame e ep chan body rest (st\<lparr>cs_nb := n\<rparr>);
         if r = -1 then Some (-1, st) else toscar_flap__reqflap e conn None st }"
proof -
  have chan: "chan = 0x01 \<or> chan = 0x02 \<or> chan = 0x04 \<or> chan = 0x05" using p by (auto simp: passes_through_def)
  have fin: "finish_frame e conn (flap_frame chan seq body @ rest) (int (FLAPHDRLEN + length body)) HRET_FORWARD (st\<lparr>cs_nb := n\<rparr>) =
      do { (r, st) \<leftarrow> send_frame e ep chan body rest (st\<lparr>cs_nb := n\<rparr>);
           if r = -1 then Some (-1, st) else toscar_flap__reqflap e conn None st }"
    by (rule finish_frame_forward) (use c len in auto)
  have ne: "int (FLAPHDRLEN + length body) \<noteq> -1" by linarith
  show ?thesis
    unfolding handleread_frame [OF c(1,2) rd chan len ne] handle_frame_passes [OF p len] using fin by simp
qed

text \<open>C28. What is not a frame ends the connection: when nothing could be read, or the marker, the channel
  or the length is wrong, reading reports an error and nothing is forwarded or asked for.\<close>

theorem bad_frames_rejected:
  assumes c: "cs_conns st conn = Some c" "c_fdt c = Some fdt"
    and rd: "nb_remtoprxvector (oe_nb e) fdt (cs_nb st) = (Some (b, len, off), n)" and b: "FLAPHDRLEN \<le> length b"
    and bad: "len = -1 \<or> b ! 0 \<noteq> FLAP_MAGIC \<or> b ! 1 \<notin> {0x01, 0x02, 0x04, 0x05} \<or>
      unat (naf_byte_get16 (drop 4 b)) > MAXSNACLEN"
  shows "toscar_flap_handleread e route conn st = Some (-1, st\<lparr>cs_nb := n\<rparr>)"
proof -
  obtain b0 b1 b2 b3 b4 b5 bs where b': "b = b0 # b1 # b2 # b3 # b4 # b5 # bs"
    using b by (auto simp: Suc_le_length_iff eval_nat_numeral)
  then have h: "FLAPHDR_MAGIC b = Some (b ! 0)" "FLAPHDR_CHAN b = Some (b ! 1)"
    "FLAPHDR_LEN b = Some (naf_byte_get16 (drop 4 b))"
    by (simp_all add: FLAPHDR_MAGIC_def FLAPHDR_CHAN_def FLAPHDR_LEN_def mem_read_def)
  show ?thesis
    unfolding toscar_flap_handleread_def takeread_eq [OF c rd] using bad by (auto simp: h)
qed

text \<open>C4. A client that comes back with its cookie is connected to where the cookie belongs: the cookie is
  used up, the address stored with it is dialled, and the two connections are tied together, the new
  one as a server connection of the module that carries the client's screen name and the packet to log
  in with.\<close>

theorem cookie_restores_session:
  assumes mal: "total_alloc (oe_mal e)"
    and ck: "naf_tlv_get tlvh 0x0006 = Some ck"
      "toscar_ckcache_rem (tlv_bytes ck) (tlv_length ck) (os_ckcache st) = (0, Some (ip, sn, servtype), cache)"
    and host: "split_host ip TIMPS_OSCAR_DEFAULTPORT = Some (host, port)"
    and dial: "nb_dial (oe_nb e) host (word_of_int port) (cs_nb st) = (Some (sfd, inprogress), n)"
    and fd: "nb_addfd (oe_nb e) NBIO_FDTYPE_STREAM sfd (cs_next st) n = (Some fdt, n2)"
    and c: "cs_conns st conn = Some c" "c_owner c = Some (oe_mod e)" "bit (c_type c) 20" "\<not> bit (c_type c) 22"
      "\<not> bit (c_type c) 23" "\<not> bit (c_type c) 25" "conn \<noteq> cs_next st"
  shows "\<exists>st' ec. toscar_flap_handlechan1__newconn e conn tlvh st = Some (HRET_DIGESTED, st') \<and>
    os_ckcache st' = cache \<and> os_gnr st' = os_gnr st \<and>
    map_option c_endpoint (cs_conns st' conn) = Some (Some (cs_next st)) \<and>
    cs_conns st' (cs_next st) = Some ec \<and> c_endpoint ec = Some conn \<and> c_owner ec = Some (oe_mod e) \<and>
    c_type ec AND NAF_CONN_TYPE_SERVER \<noteq> 0 \<and> c_servtype ec = uint servtype \<and>
    conn_screenname e (Some (cs_next st)) st' = Some (Some sn) \<and>
    naf_conn_tag_fetch (Some (oe_mod e)) (Some (cs_next st)) (tag_of ''conn.cookietlvs'') st' =
      Some (0, Some (CHR ''V'', DTlvs tlvh))"
proof -
  let ?a = "cs_next st" and ?m = "oe_mod e"
  define st0 where "st0 = st\<lparr>os_ckcache := cache\<rparr>"
  have st0: "cs_conns st0 = cs_conns st" "cs_next st0 = ?a" "cs_nb st0 = cs_nb st" by (simp_all add: st0_def)
  have pre: "nb_dial (oe_nb e) host (word_of_int port) (cs_nb st0) = (Some (sfd, inprogress), n)"
    "nb_addfd (oe_nb e) NBIO_FDTYPE_STREAM sfd (cs_next st0) n = (Some fdt, n2)" "cs_conns st0 conn = Some c" "conn \<noteq> cs_next st0"
    using c(1,7) dial fd by (simp_all add: st0)
  obtain ec t st2 where 2: "naf_conn_startconnect (oe_mal e) (oe_nb e) (oe_now e) (oscar_takeconn e) (Some conn) (Some ip)
        TIMPS_OSCAR_DEFAULTPORT st0 = Some (0, conn_update ?a (\<lambda>c. c\<lparr>c_owner := Some ?m, c_endpoint := Some conn\<rparr>) st2)"
    "cs_conns st2 conn = Some (c\<lparr>c_endpoint := Some ?a\<rparr>)"
    "cs_conns st2 ?a = Some (ec\<lparr>c_type := t, c_flags := 0\<rparr>)" "bit t 21" "c_taglist ec = []"
    "os_ckcache st2 = os_ckcache st0" "os_gnr st2 = os_gnr st0"
    by (rule startconnect_takeover [OF mal host pre(1-3) c(2-6) pre(4), unfolded st0(2)])
  let ?tag = "\<lambda>name type data. \<lparr>tag_owner = ?m, tag_name = cstr name, tag_type = type, tag_data = data\<rparr>"
  define st3 where "st3 = conn_update ?a (\<lambda>c. c\<lparr>c_servtype := uint servtype\<rparr>) (conn_update conn (\<lambda>c. c\<lparr>c_servtype := uint servtype\<rparr>)
    (conn_update ?a (\<lambda>c. c\<lparr>c_owner := Some ?m, c_endpoint := Some conn\<rparr>) st2))"
  define ec3 where "ec3 = ec\<lparr>c_type := t, c_flags := 0, c_owner := Some ?m, c_endpoint := Some conn, c_servtype := uint servtype\<rparr>"
  have 3: "cs_conns st3 ?a = Some ec3" "map_option c_endpoint (cs_conns st3 conn) = Some (Some ?a)"
    "os_ckcache st3 = cache" "os_gnr st3 = os_gnr st"
    using 2 c(7) by (simp_all add: st3_def ec3_def conn_update_def st0_def)
  define st4 where "st4 = conn_update ?a (\<lambda>c. c\<lparr>c_taglist := ?tag ''conn.screenname'' (CHR ''S'') (DStr sn) # c_taglist c\<rparr>) st3"
  define st5 where "st5 = conn_update ?a (\<lambda>c. c\<lparr>c_taglist := ?tag ''conn.cookietlvs'' (CHR ''V'') (DTlvs tlvh) # c_taglist c\<rparr>) st4"
  have tagmal: "oe_mal e sizeof_naf_tag_t \<noteq> None" using total_allocD(3) [OF mal] .
  have names: "cstr ''conn.screenname'' \<noteq> []" "length (cstr ''conn.screenname'') \<le> MAXTAGNAMELEN"
    "cstr ''conn.cookietlvs'' \<noteq> []" "length (cstr ''conn.cookietlvs'') \<le> MAXTAGNAMELEN"
    "cstr ''conn.cookietlvs'' \<noteq> cstr ''conn.screenname''"
    by (simp_all add: cstr_def)
  have "tag_search (?m, cstr ''conn.screenname'') (c_taglist ec3) = None" by (simp add: ec3_def 2(5))
  from conn_tag_add_new [where mal = "oe_mal e", OF tagmal names(1,2) 3(1) this, of "CHR ''S''" "DStr sn"]
  have add4: "naf_conn_tag_add (oe_mal e) (Some ?m) (Some ?a) (tag_of ''conn.screenname'') (CHR ''S'') (DStr sn) st3 = Some (0, st4)"
    by (simp add: st4_def tag_of_def)
  have 4: "cs_conns st4 ?a = Some (ec3\<lparr>c_taglist := [?tag ''conn.screenname'' (CHR ''S'') (DStr sn)]\<rparr>)"
    by (simp add: st4_def 3(1)) (simp add: ec3_def 2(5))
  have "tag_search (?m, cstr ''conn.cookietlvs'') (c_taglist (ec3\<lparr>c_taglist := [?tag ''conn.screenname'' (CHR ''S'') (DStr sn)]\<rparr>)) = None"
    using names(5) by (simp add: tag_matches_def)
  from conn_tag_add_new [where mal = "oe_mal e", OF tagmal names(3,4) 4 this, of "CHR ''V''" "DTlvs tlvh"]
  have add5: "naf_conn_tag_add (oe_mal e) (Some ?m) (Some ?a) (tag_of ''conn.cookietlvs'') (CHR ''V'') (DTlvs tlvh) st4 = Some (0, st5)"
    by (simp add: st5_def tag_of_def)
  have epl: "cs_conns (conn_update ?a (\<lambda>c. c\<lparr>c_owner := Some ?m, c_endpoint := Some conn\<rparr>) st2) conn = Some (c\<lparr>c_endpoint := Some ?a\<rparr>)"
    using 2(2) c(7) by simp
  have run: "toscar_flap_handlechan1__newconn e conn tlvh st = Some (HRET_DIGESTED, st5)"
    unfolding toscar_flap_handlechan1__newconn_def ck(1)
    using 2(1) ck(2) c(7) epl add4 add5 by (simp add: st0_def [symmetric] st3_def [symmetric])
  have 5: "cs_conns st5 ?a = Some (ec3\<lparr>c_taglist := [?tag ''conn.cookietlvs'' (CHR ''V'') (DTlvs tlvh),
      ?tag ''conn.screenname'' (CHR ''S'') (DStr sn)]\<rparr>)" by (simp add: st5_def 4)
  have "conn_screenname e (Some ?a) st5 = Some (Some sn)"
    "naf_conn_tag_fetch (Some ?m) (Some ?a) (tag_of ''conn.cookietlvs'') st5 = Some (0, Some (CHR ''V'', DTlvs tlvh))"
    using names by (simp_all add: conn_screenname_def naf_conn_tag_fetch_def naf_tag_fetch_def badname_def tag_of_def 5)
  moreover have "c_type (ec3\<lparr>c_taglist := x\<rparr>) AND NAF_CONN_TYPE_SERVER \<noteq> 0" for x
    using 2(4) by (simp add: ec3_def type_flag_bit)
  moreover have "map_option c_endpoint (cs_conns st5 conn) = Some (Some ?a)" "os_ckcache st5 = cache" "os_gnr st5 = os_gnr st"
    using 3 c(7) by (simp_all add: st5_def st4_def conn_update_def)
  ultimately show ?thesis using run 5 by (intro exI conjI) (assumption | simp add: ec3_def)+
qed

text \<open>A block that has been read, for witnesses.\<close>

definition rx_env :: "bytes \<Rightarrow> int \<Rightarrow> (nat \<Rightarrow> bytes list) oenv" where
  "rx_env b len = sample_env\<lparr>oe_nb := queue_ops\<lparr>nb_remtoprxvector := \<lambda>fdt s. (Some (b, len, 0), s)\<rparr>\<rparr>"

theorem frames_forwarded_witness:
  "toscar_flap_handleread (rx_env (flap_frame 5 1 [] @ [9]) (int (FLAPHDRLEN + length ([] :: bytes)))) (\<lambda>gm st. None) 4 pair_state =
    do { (r, st) \<leftarrow> send_frame (rx_env (flap_frame 5 1 [] @ [9]) (int (FLAPHDRLEN + length ([] :: bytes)))) 5 5 [] [9]
           (pair_state\<lparr>cs_nb := \<lambda>_. []\<rparr>);
         if r = -1 then Some (-1, st)
         else toscar_flap__reqflap (rx_env (flap_frame 5 1 [] @ [9]) (int (FLAPHDRLEN + length ([] :: bytes)))) 4 None st }"
  by (rule frames_forwarded [where seq = 1 and off = 0 and c = "the (cs_conns pair_state 4)" and fdt = 2])
     (simp_all add: rx_env_def pair_state_def sample_state_def sample_conn_def passes_through_def)

theorem bad_frames_rejected_witness:
  "toscar_flap_handleread (rx_env [0x2a, 3, 0, 0, 0, 0] 6) (\<lambda>gm st. None) 4 pair_state = Some (-1, pair_state\<lparr>cs_nb := \<lambda>_. []\<rparr>)"
  by (rule bad_frames_rejected [where off = 0 and c = "the (cs_conns pair_state 4)" and fdt = 2 and b = "[0x2a, 3, 0, 0, 0, 0]" and len = 6])
     (simp_all add: rx_env_def pair_state_def sample_state_def sample_conn_def)

theorem cookie_restores_session_witness:
  "\<exists>st' ec. toscar_flap_handlechan1__newconn sample_env 4 login_tlvs
      (sample_state\<lparr>os_ckcache := [ck_entry 1000 [1, 2, 3, 4] 4 [98, 99] [97, 110, 110]]\<rparr>) = Some (HRET_DIGESTED, st') \<and>
    os_ckcache st' = [] \<and> cs_conns st' 5 = Some ec \<and> c_endpoint ec = Some 4 \<and>
    conn_screenname sample_env (Some 5) st' = Some (Some [97, 110, 110])"
proof -
  let ?st = "sample_state\<lparr>os_ckcache := [ck_entry 1000 [1, 2, 3, 4] 4 [98, 99] [97, 110, 110]]\<rparr>"
  have mal: "total_alloc (oe_mal sample_env)" by (simp add: sample_env_def)
  have ck: "naf_tlv_get login_tlvs 0x0006 = Some (login_tlvs ! 2)"
    "toscar_ckcache_rem (tlv_bytes (login_tlvs ! 2)) (tlv_length (login_tlvs ! 2)) (os_ckcache ?st) =
       (0, Some ([98, 99], [97, 110, 110], 0), [])"
    by (simp_all add: login_tlvs_def naf_tlv_get_def tlv_bytes_def toscar_ckcache_rem_def ck_entry_def ck_matches_def)
  have host: "split_host [98, 99] TIMPS_OSCAR_DEFAULTPORT = Some ([98, 99], TIMPS_OSCAR_DEFAULTPORT)"
    by (simp add: split_host_def)
  have nb: "nb_dial (oe_nb sample_env) [98, 99] (word_of_int TIMPS_OSCAR_DEFAULTPORT) (cs_nb ?st) = (Some (9, True), \<lambda>_. [])"
    "nb_addfd (oe_nb sample_env) NBIO_FDTYPE_STREAM 9 (cs_next ?st) (\<lambda>_. []) = (Some 9, \<lambda>_. [])"
    by (simp_all add: sample_env_def queue_ops_def sample_state_def)
  have c: "cs_conns ?st 4 = Some sample_conn" "c_owner sample_conn = Some (oe_mod sample_env)" "bit (c_type sample_conn) 20"
    "\<not> bit (c_type sample_conn) 22" "\<not> bit (c_type sample_conn) 23" "\<not> bit (c_type sample_conn) 25" "4 \<noteq> cs_next ?st"
    by (simp_all add: sample_state_def sample_conn_def sample_env_def)
  from cookie_restores_session [OF mal ck host nb c] show ?thesis by (auto simp: sample_state_def)
qed

text \<open>C6. Once the authorizer has answered the connection, the login request that the client made before
  is repeated to it: the version packet and then the request with the TLVs and the request id it came
  with, in two frames with consecutive numbers, and both are forgotten. The TLVs have at most 496 bytes together, so
  that they do not fill the buffer.\<close>

theorem login_replayed:
  assumes mal: "total_alloc (oe_mal e)" and q: "tx_queues (oe_nb e) q" "tx_accepts (oe_nb e)"
    and c: "cs_conns st conn = Some c" "c_fdt c = Some fdt"
    and tags: "c_taglist c = [\<lparr>tag_owner = oe_mod e, tag_name = cstr ''conn.loginsnacid'', tag_type = CHR ''I'', tag_data = DInt snacid\<rparr>,
      \<lparr>tag_owner = oe_mod e, tag_name = cstr ''conn.logintlvs'', tag_type = CHR ''V'', tag_data = DTlvs ts\<rparr>] @ others"
    and ts: "\<forall>t \<in> set ts. tlv_ok t" "length (tlvs_encode ts) \<le> 496"
  shows "\<exists>st'. toscar_flap_handlechan1__conncomplete e conn st = Some (HRET_DIGESTED, st') \<and>
    q (cs_nb st') = (q (cs_nb st))(fdt := q (cs_nb st) fdt @
      [flap_frame 0x01 (c_nextseqnum c) (naf_byte_put32 1),
       flap_frame 0x02 (c_nextseqnum c + 1) (snac_hdr 0x0017 0x0006 0 snacid @ tlvs_encode ts)]) \<and>
    map_option c_taglist (cs_conns st' conn) = Some others"
proof -
  define c1 where "c1 = c\<lparr>c_taglist := others\<rparr>"
  define st1 where "st1 = conn_update conn (\<lambda>c. c\<lparr>c_taglist := others\<rparr>) st"
  have c1: "cs_conns st1 conn = Some c1" "c_fdt c1 = Some fdt" "c_nextseqnum c1 = c_nextseqnum c" "cs_nb st1 = cs_nb st"
    using c by (simp_all add: st1_def c1_def)
  let ?st0 = "conn_update conn (\<lambda>c. c\<lparr>c_taglist := hd (c_taglist c) # others\<rparr>) st"
  have names: "cstr ''conn.logintlvs'' \<noteq> cstr ''conn.loginsnacid''" "cstr ''conn.logintlvs'' \<noteq> []"
    "cstr ''conn.loginsnacid'' \<noteq> []" by (simp_all add: cstr_def)
  have rem: "naf_conn_tag_remove (Some (oe_mod e)) (Some conn) (tag_of ''conn.logintlvs'') st =
      Some (0, Some (CHR ''V'', DTlvs ts), ?st0)"
    "naf_conn_tag_remove (Some (oe_mod e)) (Some conn) (tag_of ''conn.loginsnacid'') ?st0 =
      Some (0, Some (CHR ''I'', DInt snacid), st1)"
    using c(1) tags names
    by (simp_all add: naf_conn_tag_remove_def naf_tag_remove_def tag_of_def badname_def tag_matches_def st1_def conn_update_def)
  obtain r1 where f1: "toscar_flap__sendflapversion e (Some conn) st1 = send_frame e conn 0x01 (naf_byte_put32 1) r1 st1"
    using packet_frames(3) [OF mal, of "[]"] by auto
  obtain st2 where s2: "send_frame e conn 0x01 (naf_byte_put32 1) r1 st1 = Some (0, st2)"
    "cs_conns st2 = (cs_conns st1)(conn \<mapsto> c1\<lparr>c_lasttx_soft := oe_now e, c_nextseqnum := c_nextseqnum c1 + 1\<rparr>)"
    "q (cs_nb st2) = (q (cs_nb st1))(fdt := q (cs_nb st1) fdt @ [flap_frame 0x01 (c_nextseqnum c1) (naf_byte_put32 1)])"
    by (rule send_frame_queue [OF q c1(1,2)])
  have c2: "cs_conns st2 conn = Some (c1\<lparr>c_lasttx_soft := oe_now e, c_nextseqnum := c_nextseqnum c1 + 1\<rparr>)"
    "c_fdt (c1\<lparr>c_lasttx_soft := oe_now e, c_nextseqnum := c_nextseqnum c1 + 1\<rparr>) = Some fdt" using s2(2) c1(2) by simp_all
  obtain sb n sb' r2 where f2: "toscar_newsnacsb e 0x0017 0x0006 0 snacid = Some (0, sb)"
    "naf_tlv_render (oe_mal e) ts sb = Some (n, sb')"
    "toscar_flap_sendsbuf_consume e (Some conn) sb' st2 = send_frame e conn 0x02 (snac_hdr 0x0017 0x0006 0 snacid @ tlvs_encode ts) r2 st2"
    by (rule snac_tlvs_frame [OF mal ts])
  obtain st3 where s3: "send_frame e conn 0x02 (snac_hdr 0x0017 0x0006 0 snacid @ tlvs_encode ts) r2 st2 = Some (0, st3)"
    "map_option c_taglist (cs_conns st3 conn) = Some others"
    "q (cs_nb st3) = (q (cs_nb st2))(fdt := q (cs_nb st2) fdt @ [flap_frame 0x02 (c_nextseqnum c1 + 1)
       (snac_hdr 0x0017 0x0006 0 snacid @ tlvs_encode ts)])"
    by (rule send_frame_queue [OF q c2, of 2 "snac_hdr 0x0017 0x0006 0 snacid @ tlvs_encode ts" r2]) (simp add: c1_def)
  have "toscar_flap_handlechan1__conncomplete e conn st = Some (HRET_DIGESTED, st3)"
    using rem f1 s2(1) f2 s3(1)
    by (simp add: toscar_flap_handlechan1__conncomplete_def toscar_auth_sendauthinforequest_def)
  then show ?thesis using s3 s2(3) c1 by simp
qed

theorem login_replayed_witness:
  "\<exists>st'. toscar_flap_handlechan1__conncomplete sample_env 4 (conn_update 4 (\<lambda>c. c\<lparr>c_taglist :=
      [\<lparr>tag_owner = 7, tag_name = cstr ''conn.loginsnacid'', tag_type = CHR ''I'', tag_data = DInt 3\<rparr>,
       \<lparr>tag_owner = 7, tag_name = cstr ''conn.logintlvs'', tag_type = CHR ''V'', tag_data = DTlvs login_tlvs\<rparr>]\<rparr>) sample_state) =
      Some (HRET_DIGESTED, st') \<and> map_option c_taglist (cs_conns st' 4) = Some []"
proof -
  let ?tags = "[\<lparr>tag_owner = 7, tag_name = cstr ''conn.loginsnacid'', tag_type = CHR ''I'', tag_data = DInt 3\<rparr>,
       \<lparr>tag_owner = 7, tag_name = cstr ''conn.logintlvs'', tag_type = CHR ''V'', tag_data = DTlvs login_tlvs\<rparr>]"
  let ?st = "conn_update 4 (\<lambda>c. c\<lparr>c_taglist := ?tags\<rparr>) sample_state"
  have "total_alloc (oe_mal sample_env)" "tx_queues (oe_nb sample_env) (\<lambda>s. s)" "tx_accepts (oe_nb sample_env)"
    by (simp_all add: sample_env_def)
  moreover have "cs_conns ?st 4 = Some (sample_conn\<lparr>c_taglist := ?tags\<rparr>)"
    by (simp add: sample_state_def)
  moreover have "c_fdt (sample_conn\<lparr>c_taglist := ?tags\<rparr>) = Some 2" by (simp add: sample_conn_def)
  moreover have "c_taglist (sample_conn\<lparr>c_taglist := ?tags\<rparr>) =
      [\<lparr>tag_owner = oe_mod sample_env, tag_name = cstr ''conn.loginsnacid'', tag_type = CHR ''I'', tag_data = DInt 3\<rparr>,
       \<lparr>tag_owner = oe_mod sample_env, tag_name = cstr ''conn.logintlvs'', tag_type = CHR ''V'', tag_data = DTlvs login_tlvs\<rparr>] @ []"
    by (simp add: sample_env_def)
  moreover have "length (tlvs_encode login_tlvs) \<le> 496" by (simp add: login_tlvs_def tlv_encode_def tlv_bytes_def)
  ultimately show ?thesis using login_replayed login_tlvs_facts(1) by metis
qed

end
