(* ===== verification/Modules.thy ===== *)
theory Modules
  imports Conn
begin

text \<open>
  The module manager, \<^verbatim>\<open>naf/module.c\<close> and \<^verbatim>\<open>include/naf/nafmodule.h\<close>: the list of modules, loading
  and unloading by priority, searching, broadcasting signals, running timers, and asking the
  modules whose protocol a connection speaks. The functions of a module are fields of its record
  that act on the state of the program; they do not change the list itself, which only
  registration at start-up and the loader do. The dynamic linker is a parameter.
\<close>

section \<open>Data\<close>

abbreviation (input) NAF_MODULE_NAME_MAX :: nat where "NAF_MODULE_NAME_MAX \<equiv> 128"
abbreviation (input) NAF_MODULE_STATUSLINE_MAXLEN :: nat where "NAF_MODULE_STATUSLINE_MAXLEN \<equiv> 512"
abbreviation (input) MODULE_MAXFILENAME_LEN :: nat where "MODULE_MAXFILENAME_LEN \<equiv> 256"
abbreviation (input) NAF_MODULE_PRI_MAX :: int where "NAF_MODULE_PRI_MAX \<equiv> 5"
abbreviation (input) NAF_MODULE_PRI_LASTPASS :: int where "NAF_MODULE_PRI_LASTPASS \<equiv> 0"
abbreviation (input) MOD_STATUS_NOTLOADED :: naf_u8_t where "MOD_STATUS_NOTLOADED \<equiv> 0x00"
abbreviation (input) MOD_STATUS_LOADED :: naf_u8_t where "MOD_STATUS_LOADED \<equiv> 0x01"
abbreviation (input) MOD_STATUS_DISABLED :: naf_u8_t where "MOD_STATUS_DISABLED \<equiv> 0x02"
abbreviation (input) MOD_STATUS_ERROR :: naf_u8_t where "MOD_STATUS_ERROR \<equiv> 0x04"
abbreviation (input) MOD_STATUS_RESIDENT :: naf_u8_t where "MOD_STATUS_RESIDENT \<equiv> 0x10"
abbreviation (input) NAF_CONN_READY_READ :: naf_u16_t where "NAF_CONN_READY_READ \<equiv> 0x0001"
abbreviation (input) NAF_CONN_READY_WRITE :: naf_u16_t where "NAF_CONN_READY_WRITE \<equiv> 0x0002"
abbreviation (input) NAF_CONN_READY_CONNECTED :: naf_u16_t where "NAF_CONN_READY_CONNECTED \<equiv> 0x0004"
abbreviation (input) NAF_CONN_READY_DETECTTO :: naf_u16_t where "NAF_CONN_READY_DETECTTO \<equiv> 0x0008"

text \<open>\<open>None\<close> is a null function pointer. The first argument of each is the module itself; \<open>None\<close> as a
  result is a fault inside it. The handler of events only serves the log and is left out, like
  the one for exited children.\<close>

record 's nafmodule =
  nm_name :: bytes
  nm_init :: "(nafmod \<Rightarrow> 's \<Rightarrow> (int \<times> 's) option) option"
  nm_protocoldetect :: "(nafmod \<Rightarrow> nat \<Rightarrow> 's \<Rightarrow> (int \<times> 's) option) option"
  nm_takeconn :: "(nafmod \<Rightarrow> nat \<Rightarrow> 's \<Rightarrow> (int \<times> 's) option) option"
  nm_connready :: "(nafmod \<Rightarrow> nat \<Rightarrow> naf_u16_t \<Rightarrow> 's \<Rightarrow> (int \<times> 's) option) option"
  nm_freetag :: "(nafmod \<Rightarrow> nat \<Rightarrow> bytes \<Rightarrow> char \<Rightarrow> tagdata \<Rightarrow> 's \<Rightarrow> 's option) option"
  nm_connkill :: "(nafmod \<Rightarrow> nat \<Rightarrow> 's \<Rightarrow> 's option) option"
  nm_signal :: "(nafmod \<Rightarrow> nafmod option \<Rightarrow> int \<Rightarrow> 's \<Rightarrow> 's option) option"
  nm_timerfreq :: naf_u16_t
  nm_timer :: "(nafmod \<Rightarrow> 's \<Rightarrow> 's option) option"
  nm_shutdown :: "(nafmod \<Rightarrow> 's \<Rightarrow> (int \<times> 's) option) option"
  nm_taglist :: taglist
  nm_statusline :: bytes

definition nafmodule_zero :: "'s nafmodule" where
  "nafmodule_zero = \<lparr>nm_name = [], nm_init = None, nm_protocoldetect = None, nm_takeconn = None, nm_connready = None,
     nm_freetag = None, nm_connkill = None, nm_signal = None, nm_timerfreq = 0, nm_timer = None, nm_shutdown = None,
     nm_taglist = [], nm_statusline = []\<rparr>"

text \<open>\<^verbatim>\<open>nafmodulemain\<close> of a module fills in the record it is given.\<close>

type_synonym 's firstproc = "nafmod \<Rightarrow> 's nafmodule \<Rightarrow> 's \<Rightarrow> (int \<times> 's nafmodule \<times> 's) option"

record 's modlist_item =
  mi_filename :: bytes
  mi_status :: naf_u8_t
  mi_dlhandle :: "nat option"
  mi_firstproc :: "'s firstproc option"
  mi_module :: "'s nafmodule"
  mi_lasttimerrun :: int
  mi_startuppri :: int
  mi_addr :: nafmod

text \<open>\<^verbatim>\<open>sizeof(struct modlist_item)\<close> on an LP64 system.\<close>

abbreviation (input) sizeof_modlist_item :: nat where "sizeof_modlist_item \<equiv> 1080"

definition loaded :: "'s modlist_item \<Rightarrow> bool" where
  "loaded mi \<longleftrightarrow> mi_status mi AND MOD_STATUS_LOADED \<noteq> 0"

section \<open>The list\<close>

text \<open>\<open>a\<close> is the address of the new item.\<close>

definition newmi :: "allocator \<Rightarrow> nafmod \<Rightarrow> bytes option \<Rightarrow> 's modlist_item option" where
  "newmi mal a fn =
     (case fn of
        None \<Rightarrow> None
      | Some fn \<Rightarrow>
          if length fn > MODULE_MAXFILENAME_LEN \<or> mal sizeof_modlist_item = None then None
          else Some \<lparr>mi_filename = fn, mi_status = MOD_STATUS_NOTLOADED, mi_dlhandle = None, mi_firstproc = None,
                     mi_module = nafmodule_zero, mi_lasttimerrun = 0, mi_startuppri = NAF_MODULE_PRI_LASTPASS,
                     mi_addr = a\<rparr>)"

definition naf_module__add ::
    "allocator \<Rightarrow> nafmod \<Rightarrow> bytes option \<Rightarrow> 's modlist_item list \<Rightarrow> int \<times> 's modlist_item list" where
  "naf_module__add mal a fn modlist =
     (case newmi mal a fn of None \<Rightarrow> (-1, modlist) | Some mi \<Rightarrow> (0, mi # modlist))"

definition naf_module__add_last ::
    "allocator \<Rightarrow> nafmod \<Rightarrow> bytes option \<Rightarrow> 's modlist_item list \<Rightarrow> int \<times> 's modlist_item list" where
  "naf_module__add_last mal a fn modlist =
     (case newmi mal a fn of None \<Rightarrow> (-1, modlist) | Some mi \<Rightarrow> (0, modlist @ [mi]))"

text \<open>\<^verbatim>\<open>snprintf\<close> cuts the name to the size of the field.\<close>

definition naf_module__registerresident ::
    "allocator \<Rightarrow> nafmod \<Rightarrow> bytes option \<Rightarrow> 's firstproc option \<Rightarrow> int \<Rightarrow> 's modlist_item list
       \<Rightarrow> int \<times> 's modlist_item list" where
  "naf_module__registerresident mal a name firstproc startuppri modlist =
     (case (name, firstproc) of
        (Some n, Some f) \<Rightarrow>
          if mal sizeof_modlist_item = None then (-1, modlist)
          else (0, \<lparr>mi_filename = take MODULE_MAXFILENAME_LEN (cstr ''resident/'' @ n),
                    mi_status = MOD_STATUS_NOTLOADED OR MOD_STATUS_RESIDENT, mi_dlhandle = None,
                    mi_firstproc = Some f, mi_module = nafmodule_zero, mi_lasttimerrun = 0,
                    mi_startuppri = startuppri, mi_addr = a\<rparr> # modlist)
      | _ \<Rightarrow> (-1, modlist))"

section \<open>Loading and unloading\<close>

text \<open>The dynamic linker: \<open>None\<close> when the file cannot be opened, otherwise a handle and the address of
  \<^verbatim>\<open>nafmodulemain\<close>, if there is one.\<close>

type_synonym 's linker = "bytes \<Rightarrow> (nat \<times> 's firstproc option) option"

text \<open>The second part of \<^verbatim>\<open>naf_module__load\<close>. What \<^verbatim>\<open>init\<close> returns is ignored.\<close>

definition load_start :: "int \<Rightarrow> 's modlist_item \<Rightarrow> 's \<Rightarrow> (int \<times> 's modlist_item \<times> 's) option" where
  "load_start now mi st =
     (case mi_firstproc mi of
        None \<Rightarrow> Some (-1, mi\<lparr>mi_status := mi_status mi OR MOD_STATUS_ERROR\<rparr>, st)
      | Some f \<Rightarrow> do {
          (ret, m, st) \<leftarrow> f (mi_addr mi) (mi_module mi) st;
          let mi = mi\<lparr>mi_module := m\<rparr>;
          if ret \<noteq> 0 then Some (-1, mi\<lparr>mi_status := mi_status mi OR MOD_STATUS_ERROR\<rparr>, st)
          else do {
            let mi = mi\<lparr>mi_status := mi_status mi OR MOD_STATUS_LOADED\<rparr>;
            (_, st) \<leftarrow> (case nm_init m of None \<Rightarrow> Some (0, st) | Some i \<Rightarrow> i (mi_addr mi) st);
            Some (0, mi\<lparr>mi_lasttimerrun := now\<rparr>, st)
          }
        })"

definition naf_module__load ::
    "'s linker \<Rightarrow> int \<Rightarrow> 's modlist_item \<Rightarrow> 's \<Rightarrow> (int \<times> 's modlist_item \<times> 's) option" where
  "naf_module__load dl now mi st =
     (if mi_status mi AND MOD_STATUS_LOADED \<noteq> 0 then Some (0, mi, st)
      else if mi_status mi AND MOD_STATUS_RESIDENT = 0
      then (case dl (mi_filename mi) of
              None \<Rightarrow> Some (-1, mi\<lparr>mi_dlhandle := None, mi_status := MOD_STATUS_ERROR\<rparr>, st)
            | Some (h, None) \<Rightarrow>
                Some (-1, mi\<lparr>mi_dlhandle := Some h, mi_firstproc := None, mi_status := MOD_STATUS_ERROR\<rparr>, st)
            | Some (h, Some f) \<Rightarrow> load_start now (mi\<lparr>mi_dlhandle := Some h, mi_firstproc := Some f\<rparr>) st)
      else load_start now mi st)"

text \<open>One round of \<^verbatim>\<open>naf_module__loadall\<close>, for one priority, and the rounds.\<close>

fun load_round ::
    "'s linker \<Rightarrow> int \<Rightarrow> int \<Rightarrow> 's modlist_item list \<Rightarrow> 's \<Rightarrow> ('s modlist_item list \<times> 's) option" where
  "load_round dl now pri [] st = Some ([], st)"
| "load_round dl now pri (cur # rest) st = do {
     (cur, st) \<leftarrow> (if mi_startuppri cur \<noteq> pri then Some (cur, st)
                   else do { (_, cur, st) \<leftarrow> naf_module__load dl now cur st; Some (cur, st) });
     (rest, st) \<leftarrow> load_round dl now pri rest st;
     Some (cur # rest, st)
   }"

fun load_rounds ::
    "'s linker \<Rightarrow> int \<Rightarrow> int list \<Rightarrow> 's modlist_item list \<Rightarrow> 's \<Rightarrow> ('s modlist_item list \<times> 's) option" where
  "load_rounds dl now [] modlist st = Some (modlist, st)"
| "load_rounds dl now (pri # pris) modlist st = do {
     (modlist, st) \<leftarrow> load_round dl now pri modlist st;
     load_rounds dl now pris modlist st
   }"

definition naf_module__loadall ::
    "'s linker \<Rightarrow> int \<Rightarrow> int \<Rightarrow> 's modlist_item list \<Rightarrow> 's \<Rightarrow> (int \<times> 's modlist_item list \<times> 's) option" where
  "naf_module__loadall dl now minpri modlist st = do {
     (modlist, st) \<leftarrow> load_rounds dl now (rev [minpri..NAF_MODULE_PRI_MAX]) modlist st;
     Some (0, modlist, st)
   }"

fun naf_module__unloadall :: "'s modlist_item list \<Rightarrow> 's \<Rightarrow> (int \<times> 's modlist_item list \<times> 's) option" where
  "naf_module__unloadall [] st = Some (0, [], st)"
| "naf_module__unloadall (cur # rest) st = do {
     (cur, st) \<leftarrow>
       (if mi_status cur AND MOD_STATUS_LOADED = 0 then Some (cur, st)
        else do {
          (_, st) \<leftarrow> (case nm_shutdown (mi_module cur) of None \<Rightarrow> Some (0, st) | Some f \<Rightarrow> f (mi_addr cur) st);
          let s = mi_status cur AND NOT MOD_STATUS_LOADED;
          Some (cur\<lparr>mi_status := s OR MOD_STATUS_NOTLOADED, mi_lasttimerrun := 0\<rparr>, st)
        });
     (r, rest, st) \<leftarrow> naf_module__unloadall rest st;
     Some (r, cur # rest, st)
   }"

text \<open>The status that \<^verbatim>\<open>__rpc_core_listmodules\<close> reports.\<close>

definition listmodules_curstat :: "naf_u8_t \<Rightarrow> bytes" where
  "listmodules_curstat status =
     (if status AND MOD_STATUS_ERROR \<noteq> 0 then cstr ''error''
      else if status AND MOD_STATUS_DISABLED \<noteq> 0 then cstr ''disabled''
      else if status AND MOD_STATUS_LOADED \<noteq> 0 then cstr ''loaded''
      else if status AND MOD_STATUS_NOTLOADED \<noteq> 0 then cstr ''not loaded''
      else cstr ''unknown'')"

section \<open>Going through the modules\<close>

fun module_iter_loop ::
    "(nafmod \<Rightarrow> nafmod \<Rightarrow> 'u \<Rightarrow> (int \<times> 'u) option) \<Rightarrow> nafmod \<Rightarrow> 's modlist_item list \<Rightarrow> 'u \<Rightarrow> 'u option" where
  "module_iter_loop ufunc caller [] st = Some st"
| "module_iter_loop ufunc caller (cur # rest) st =
     (if mi_status cur AND MOD_STATUS_LOADED = 0 then module_iter_loop ufunc caller rest st
      else do {
        (r, st) \<leftarrow> ufunc caller (mi_addr cur) st;
        if r \<noteq> 0 then Some st else module_iter_loop ufunc caller rest st
      })"

definition naf_module_iter ::
    "(nafmod \<Rightarrow> nafmod \<Rightarrow> 'u \<Rightarrow> (int \<times> 'u) option) option \<Rightarrow> nafmod option \<Rightarrow> 's modlist_item list \<Rightarrow> 'u \<Rightarrow> 'u option" where
  "naf_module_iter ufunc caller modlist st =
     (case (caller, ufunc) of (Some c, Some f) \<Rightarrow> module_iter_loop f c modlist st | _ \<Rightarrow> Some st)"

definition naf_module_findbyname :: "nafmod option \<Rightarrow> bytes option \<Rightarrow> 's modlist_item list \<Rightarrow> nafmod option" where
  "naf_module_findbyname caller name modlist =
     (case (caller, name) of
        (Some _, Some n) \<Rightarrow>
          map_option mi_addr (List.find (\<lambda>cur. loaded cur \<and> strcasecmp_eq n (nm_name (mi_module cur))) modlist)
      | _ \<Rightarrow> None)"

fun nafsignal :: "nafmod option \<Rightarrow> int \<Rightarrow> 's modlist_item list \<Rightarrow> 's \<Rightarrow> 's option" where
  "nafsignal source signum [] st = Some st"
| "nafsignal source signum (cur # rest) st =
     (if Some (mi_addr cur) = source then nafsignal source signum rest st
      else if mi_status cur AND MOD_STATUS_LOADED = 0 then nafsignal source signum rest st
      else do {
        st \<leftarrow> (case nm_signal (mi_module cur) of None \<Rightarrow> Some st | Some f \<Rightarrow> f (mi_addr cur) source signum st);
        nafsignal source signum rest st
      })"

text \<open>A module with a frequency and no function makes the call go through a null pointer.\<close>

fun naf_module__timerrun :: "int \<Rightarrow> 's modlist_item list \<Rightarrow> 's \<Rightarrow> ('s modlist_item list \<times> 's) option" where
  "naf_module__timerrun now [] st = Some ([], st)"
| "naf_module__timerrun now (cur # rest) st = do {
     (cur, st) \<leftarrow>
       (if mi_status cur AND MOD_STATUS_LOADED = 0 then Some (cur, st)
        else if nm_timerfreq (mi_module cur) \<noteq> 0 \<and> now - mi_lasttimerrun cur \<ge> uint (nm_timerfreq (mi_module cur))
        then do {
          f \<leftarrow> nm_timer (mi_module cur);
          st \<leftarrow> f (mi_addr cur) st;
          Some (cur\<lparr>mi_lasttimerrun := now\<rparr>, st)
        }
        else Some (cur, st));
     (rest, st) \<leftarrow> naf_module__timerrun now rest st;
     Some (cur # rest, st)
   }"

section \<open>Whose connection is it\<close>

fun naf_module__protocoldetect ::
    "('nb, 'z) cstate_scheme modlist_item list \<Rightarrow> nafmod option \<Rightarrow> nat \<Rightarrow> ('nb, 'z) cstate_scheme
       \<Rightarrow> (int \<times> ('nb, 'z) cstate_scheme) option" where
  "naf_module__protocoldetect [] md conn st = Some (0, st)"
| "naf_module__protocoldetect (cur # rest) md conn st = do {
     c \<leftarrow> cs_conns st conn;
     if c_owner c \<noteq> None then Some (0, st)
     else if Some (mi_addr cur) = md then naf_module__protocoldetect rest md conn st
     else if mi_status cur AND MOD_STATUS_LOADED = 0 then naf_module__protocoldetect rest md conn st
     else (case nm_protocoldetect (mi_module cur) of
             None \<Rightarrow> naf_module__protocoldetect rest md conn st
           | Some f \<Rightarrow> do {
               (ret, st) \<leftarrow> f (mi_addr cur) conn st;
               if ret = 1
               then do {
                 let st = conn_update conn (\<lambda>c. c\<lparr>c_owner := Some (mi_addr cur)\<rparr>) st;
                 (r, st) \<leftarrow> (case nm_takeconn (mi_module cur) of None \<Rightarrow> Some (0, st) | Some t \<Rightarrow> t (mi_addr cur) conn st);
                 Some (if r = -1 then -1 else 1, st)
               }
               else if ret = -1 then Some (-1, st)
               else naf_module__protocoldetect rest md conn st
             })
   }"

fun naf_module__protocoldetecttimeout ::
    "('nb, 'z) cstate_scheme modlist_item list \<Rightarrow> nafmod option \<Rightarrow> nat \<Rightarrow> ('nb, 'z) cstate_scheme
       \<Rightarrow> (int \<times> ('nb, 'z) cstate_scheme) option" where
  "naf_module__protocoldetecttimeout [] md conn st = Some (0, st)"
| "naf_module__protocoldetecttimeout (cur # rest) md conn st = do {
     c \<leftarrow> cs_conns st conn;
     if c_owner c \<noteq> None then Some (0, st)
     else if Some (mi_addr cur) = md then naf_module__protocoldetecttimeout rest md conn st
     else if mi_status cur AND MOD_STATUS_LOADED = 0 then naf_module__protocoldetecttimeout rest md conn st
     else (case nm_connready (mi_module cur) of
             None \<Rightarrow> naf_module__protocoldetecttimeout rest md conn st
           | Some f \<Rightarrow> do {
               (ret, st) \<leftarrow> f (mi_addr cur) conn NAF_CONN_READY_DETECTTO st;
               if ret = 1 then Some (1, conn_update conn (\<lambda>c. c\<lparr>c_owner := Some (mi_addr cur)\<rparr>) st)
               else naf_module__protocoldetecttimeout rest md conn st
             })
   }"

section \<open>Fields of a module\<close>

text \<open>The fields are one byte longer than the limit and start out zero, so a name that is cut is still
  terminated.\<close>

definition naf_module_setname :: "'s nafmodule option \<Rightarrow> bytes option \<Rightarrow> int \<times> 's nafmodule option" where
  "naf_module_setname md name =
     (case (md, name) of
        (Some m, Some n) \<Rightarrow> (0, Some (m\<lparr>nm_name := take NAF_MODULE_NAME_MAX n\<rparr>))
      | _ \<Rightarrow> (-1, md))"

definition naf_module_setstatusline :: "'s nafmodule option \<Rightarrow> bytes \<Rightarrow> 's nafmodule option" where
  "naf_module_setstatusline md line =
     map_option (\<lambda>m. m\<lparr>nm_statusline := take NAF_MODULE_STATUSLINE_MAXLEN line\<rparr>) md"

definition naf_module_tag_add ::
    "allocator \<Rightarrow> nafmod option \<Rightarrow> 's nafmodule option \<Rightarrow> bytes option \<Rightarrow> char \<Rightarrow> tagdata \<Rightarrow> (int \<times> 's nafmodule option) option" where
  "naf_module_tag_add mal md target name type data =
     (case target of
        None \<Rightarrow> Some (-1, None)
      | Some m \<Rightarrow> do {
          let (r, tags) = naf_tag_add mal (Some (nm_taglist m)) md name type data;
          tags \<leftarrow> tags;
          Some (r, Some (m\<lparr>nm_taglist := tags\<rparr>))
        })"

definition naf_module_tag_remove ::
    "nafmod option \<Rightarrow> 's nafmodule option \<Rightarrow> bytes option
       \<Rightarrow> (int \<times> (char \<times> tagdata) option \<times> 's nafmodule option) option" where
  "naf_module_tag_remove md target name =
     (case target of
        None \<Rightarrow> Some (-1, None, None)
      | Some m \<Rightarrow> do {
          let (r, out, tags) = naf_tag_remove (Some (nm_taglist m)) md name;
          tags \<leftarrow> tags;
          Some (r, out, Some (m\<lparr>nm_taglist := tags\<rparr>))
        })"

definition naf_module_tag_ispresent :: "nafmod option \<Rightarrow> 's nafmodule option \<Rightarrow> bytes option \<Rightarrow> int" where
  "naf_module_tag_ispresent md target name =
     (case target of None \<Rightarrow> -1 | Some m \<Rightarrow> naf_tag_ispresent (Some (nm_taglist m)) md name)"

definition naf_module_tag_fetch ::
    "nafmod option \<Rightarrow> 's nafmodule option \<Rightarrow> bytes option \<Rightarrow> int \<times> (char \<times> tagdata) option" where
  "naf_module_tag_fetch md target name =
     (case target of None \<Rightarrow> (-1, None) | Some m \<Rightarrow> naf_tag_fetch (Some (nm_taglist m)) md name)"

section \<open>The order of loading\<close>

text \<open>Loading the module at one address.\<close>

fun load_at ::
    "'s linker \<Rightarrow> int \<Rightarrow> nafmod \<Rightarrow> 's modlist_item list \<times> 's \<Rightarrow> ('s modlist_item list \<times> 's) option" where
  "load_at dl now a ([], st) = Some ([], st)"
| "load_at dl now a (cur # rest, st) =
     (if mi_addr cur = a then do { (_, cur, st) \<leftarrow> naf_module__load dl now cur st; Some (cur # rest, st) }
      else do { (rest, st) \<leftarrow> load_at dl now a (rest, st); Some (cur # rest, st) })"

fun load_seq ::
    "'s linker \<Rightarrow> int \<Rightarrow> nafmod list \<Rightarrow> 's modlist_item list \<times> 's \<Rightarrow> ('s modlist_item list \<times> 's) option" where
  "load_seq dl now [] s = Some s"
| "load_seq dl now (a # as) s = Option.bind (load_at dl now a s) (load_seq dl now as)"

definition with_pri :: "int \<Rightarrow> 's modlist_item list \<Rightarrow> nafmod list" where
  "with_pri pri ml = map mi_addr (filter (\<lambda>m. mi_startuppri m = pri) ml)"

lemma load_seq_append: "load_seq dl now (as @ bs) s = Option.bind (load_seq dl now as s) (load_seq dl now bs)"
  by (induction as arbitrary: s) (simp_all split: bind_split)

text \<open>An item keeps its address and priority when it is loaded, and is loaded or marked in the end.\<close>

definition done_with :: "'s modlist_item \<Rightarrow> bool" where
  "done_with mi \<longleftrightarrow> loaded mi \<or> mi_status mi AND MOD_STATUS_ERROR \<noteq> 0"

lemma load_start_keeps:
  "load_start now mi st = Some (r, mi', st') \<Longrightarrow>
     mi_addr mi' = mi_addr mi \<and> mi_startuppri mi' = mi_startuppri mi \<and> done_with mi'"
proof -
  have "(s OR MOD_STATUS_ERROR) AND MOD_STATUS_ERROR \<noteq> 0" "(s OR MOD_STATUS_LOADED) AND MOD_STATUS_LOADED \<noteq> 0" for s :: naf_u8_t
  proof -
    have "bit ((s OR MOD_STATUS_ERROR) AND MOD_STATUS_ERROR) 2" "bit ((s OR MOD_STATUS_LOADED) AND MOD_STATUS_LOADED) 0"
      by (simp_all add: bit_simps)
    then show "(s OR MOD_STATUS_ERROR) AND MOD_STATUS_ERROR \<noteq> 0" "(s OR MOD_STATUS_LOADED) AND MOD_STATUS_LOADED \<noteq> 0"
      by (metis bit_0_eq bot_apply bot_bool_def)+
  qed
  then show "load_start now mi st = Some (r, mi', st') \<Longrightarrow>
     mi_addr mi' = mi_addr mi \<and> mi_startuppri mi' = mi_startuppri mi \<and> done_with mi'"
    by (auto simp: load_start_def done_with_def loaded_def bind_eq_Some_conv Let_def split: option.splits if_splits)
qed

lemma load_keeps:
  assumes "naf_module__load dl now mi st = Some (r, mi', st')"
  shows "mi_addr mi' = mi_addr mi \<and> mi_startuppri mi' = mi_startuppri mi \<and> done_with mi'"
proof -
  have "done_with (mi\<lparr>mi_dlhandle := h, mi_status := MOD_STATUS_ERROR\<rparr>)"
    "done_with (mi\<lparr>mi_dlhandle := h, mi_firstproc := f, mi_status := MOD_STATUS_ERROR\<rparr>)" for h f
    by (simp_all add: done_with_def)
  with assms show ?thesis
    by (auto simp: naf_module__load_def done_with_def loaded_def split: if_splits option.splits prod.splits
        dest!: load_start_keeps)
qed

lemma load_round_keys:
  "load_round dl now pri ml st = Some (ml', st') \<Longrightarrow>
     map mi_addr ml' = map mi_addr ml \<and> map mi_startuppri ml' = map mi_startuppri ml"
proof (induction ml arbitrary: st ml' st')
  case (Cons cur rest)
  from Cons.prems obtain cur1 st1 rest1 where "load_round dl now pri rest st1 = Some (rest1, st')"
    "mi_addr cur1 = mi_addr cur \<and> mi_startuppri cur1 = mi_startuppri cur" "ml' = cur1 # rest1"
    by (auto simp: bind_eq_Some_conv split: if_splits dest!: load_keeps)
  with Cons.IH show ?case by auto
qed simp

lemma with_pri_cong:
  "map mi_addr ml' = map mi_addr ml \<Longrightarrow> map mi_startuppri ml' = map mi_startuppri ml \<Longrightarrow> with_pri pri ml' = with_pri pri ml"
  unfolding with_pri_def
  by (induction ml' ml rule: list_induct2') auto

lemma load_at_cons:
  "mi_addr cur \<notin> set as \<Longrightarrow> load_seq dl now as (cur # rest, st) =
     map_option (\<lambda>(rest, st). (cur # rest, st)) (load_seq dl now as (rest, st))"
proof (induction as arbitrary: rest st)
  case (Cons a as)
  then show ?case
    by (cases "load_at dl now a (rest, st)") (auto simp: split: prod.splits)
qed simp

lemma load_round_seq:
  "distinct (map mi_addr ml) \<Longrightarrow> load_round dl now pri ml st = load_seq dl now (with_pri pri ml) (ml, st)"
proof (induction ml arbitrary: st)
  case (Cons cur rest)
  then have new: "mi_addr cur' = mi_addr cur \<Longrightarrow> mi_addr cur' \<notin> set (with_pri pri rest)" for cur' :: "'a modlist_item"
    by (auto simp: with_pri_def)
  have IH: "load_round dl now pri rest st = load_seq dl now (with_pri pri rest) (rest, st)" for st
    using Cons by simp
  have cons: "Option.bind (load_round dl now pri rest st) (\<lambda>(rest, st). Some (cur' # rest, st)) =
      load_seq dl now (with_pri pri rest) (cur' # rest, st)" if "mi_addr cur' = mi_addr cur" for cur' st
    unfolding IH load_at_cons [OF new [OF that]] by (cases "load_seq dl now (with_pri pri rest) (rest, st)") auto
  show ?case
  proof (cases "mi_startuppri cur = pri")
    case False
    then have "load_round dl now pri (cur # rest) st =
        Option.bind (load_round dl now pri rest st) (\<lambda>(rest, st). Some (cur # rest, st))" by simp
    also note cons [OF refl]
    finally show ?thesis using False by (simp add: with_pri_def)
  next
    case True
    then have wp: "with_pri pri (cur # rest) = mi_addr cur # with_pri pri rest" by (simp add: with_pri_def)
    show ?thesis
    proof (cases "naf_module__load dl now cur st")
      case (Some x)
      obtain r cur' st' where x: "x = (r, cur', st')" by (cases x)
      have "mi_addr cur' = mi_addr cur" using load_keeps [OF Some [unfolded x]] by simp
      from cons [OF this, of st'] show ?thesis unfolding wp using True Some x by simp
    qed (unfold wp, simp add: True)
  qed
qed (simp add: with_pri_def)

lemma load_rounds_seq:
  "distinct (map mi_addr ml) \<Longrightarrow>
     load_rounds dl now pris ml st = load_seq dl now (concat (map (\<lambda>p. with_pri p ml) pris)) (ml, st)"
proof (induction pris arbitrary: ml st)
  case (Cons p pris)
  show ?case
  proof (cases "load_round dl now p ml st")
    case None
    with Cons.prems show ?thesis by (simp add: load_seq_append load_round_seq)
  next
    case (Some x)
    obtain ml' st' where x: "x = (ml', st')" by (cases x)
    note keys = load_round_keys [OF Some [unfolded x]]
    have "load_rounds dl now pris ml' st' = load_seq dl now (concat (map (\<lambda>p. with_pri p ml') pris)) (ml', st')"
      by (rule Cons.IH) (use keys Cons.prems in simp)
    also have "map (\<lambda>p. with_pri p ml') pris = map (\<lambda>p. with_pri p ml) pris"
      using keys by (auto intro: with_pri_cong)
    finally show ?thesis
      using Some x Cons.prems by (simp add: load_seq_append load_round_seq)
  qed
qed simp

lemma load_round_done:
  "load_round dl now pri ml st = Some (ml', st') \<Longrightarrow>
     (\<forall>m \<in> set ml'. mi_startuppri m = pri \<longrightarrow> done_with m) \<and> length ml' = length ml \<and>
     (\<forall>i < length ml. mi_startuppri (ml ! i) \<noteq> pri \<longrightarrow> ml' ! i = ml ! i)"
proof (induction ml arbitrary: st ml' st')
  case (Cons cur rest)
  from Cons.prems obtain cur1 st1 rest1 where "load_round dl now pri rest st1 = Some (rest1, st')" "ml' = cur1 # rest1"
    "mi_startuppri cur1 = mi_startuppri cur" "mi_startuppri cur = pri \<longrightarrow> done_with cur1" "mi_startuppri cur \<noteq> pri \<longrightarrow> cur1 = cur"
    by (auto simp: bind_eq_Some_conv split: if_splits dest!: load_keeps)
  with Cons.IH show ?case by (auto simp: nth_Cons' less_Suc_eq_0_disj)
qed simp

lemma load_rounds_done:
  "load_rounds dl now pris ml st = Some (ml', st') \<Longrightarrow> distinct pris \<Longrightarrow>
     length ml' = length ml \<and> map mi_startuppri ml' = map mi_startuppri ml \<and>
     (\<forall>i < length ml. (mi_startuppri (ml ! i) \<in> set pris \<longrightarrow> done_with (ml' ! i)) \<and>
        (mi_startuppri (ml ! i) \<notin> set pris \<longrightarrow> ml' ! i = ml ! i))"
proof (induction pris arbitrary: ml st)
  case (Cons p pris)
  then obtain ml1 st1 where 1: "load_round dl now p ml st = Some (ml1, st1)" "load_rounds dl now pris ml1 st1 = Some (ml', st')"
    by (auto simp: bind_eq_Some_conv)
  note keys = load_round_keys [OF 1(1)] and dn = load_round_done [OF 1(1)]
  have pri: "mi_startuppri (ml1 ! i) = mi_startuppri (ml ! i)" if "i < length ml" for i
    using keys that dn by (metis nth_map)
  have IH: "length ml' = length ml1 \<and> map mi_startuppri ml' = map mi_startuppri ml1 \<and>
     (\<forall>i < length ml1. (mi_startuppri (ml1 ! i) \<in> set pris \<longrightarrow> done_with (ml' ! i)) \<and>
        (mi_startuppri (ml1 ! i) \<notin> set pris \<longrightarrow> ml' ! i = ml1 ! i))"
    using Cons.IH [OF 1(2)] Cons.prems(2) by simp
  have "done_with (ml' ! i)" if i: "i < length ml" "mi_startuppri (ml ! i) = p" for i
  proof -
    have "ml1 ! i \<in> set ml1" using i dn by simp
    then have "done_with (ml1 ! i)" using dn pri i by simp
    moreover have "ml' ! i = ml1 ! i" using IH i dn pri Cons.prems(2) by simp
    ultimately show ?thesis by simp
  qed
  then show ?case using IH dn keys pri by auto
qed simp

text \<open>C17. Modules are loaded in the order of their priorities, highest first, and in list order within a
  priority, each at most once in a run; afterwards every module of the priorities asked for is either
  loaded or marked with an error, and the others are as they were.\<close>

theorem load_order:
  assumes "distinct (map mi_addr ml)"
  shows "naf_module__loadall dl now minpri ml st =
      map_option (\<lambda>(ml, st). (0, ml, st))
        (load_seq dl now (concat (map (\<lambda>p. with_pri p ml) (rev [minpri..NAF_MODULE_PRI_MAX]))) (ml, st)) \<and>
    distinct (concat (map (\<lambda>p. with_pri p ml) (rev [minpri..NAF_MODULE_PRI_MAX]))) \<and>
    (\<forall>r ml' st'. naf_module__loadall dl now minpri ml st = Some (r, ml', st') \<longrightarrow>
      (\<forall>i < length ml. (minpri \<le> mi_startuppri (ml ! i) \<and> mi_startuppri (ml ! i) \<le> NAF_MODULE_PRI_MAX \<longrightarrow>
          loaded (ml' ! i) \<or> mi_status (ml' ! i) AND MOD_STATUS_ERROR \<noteq> 0) \<and>
        (mi_startuppri (ml ! i) < minpri \<longrightarrow> ml' ! i = ml ! i)))"
proof (intro conjI allI impI)
  show "naf_module__loadall dl now minpri ml st =
      map_option (\<lambda>(ml, st). (0, ml, st))
        (load_seq dl now (concat (map (\<lambda>p. with_pri p ml) (rev [minpri..NAF_MODULE_PRI_MAX]))) (ml, st))"
    unfolding naf_module__loadall_def load_rounds_seq [OF assms]
    by (cases "load_seq dl now (concat (map (\<lambda>p. with_pri p ml) (rev [minpri..NAF_MODULE_PRI_MAX]))) (ml, st)") auto
  have "inj_on mi_addr (set ml)" using assms by (simp add: distinct_map)
  then have "distinct (concat (map (\<lambda>p. with_pri p ml) ps))" if "distinct ps" for ps
    using that assms
    by (induction ps) (auto simp: with_pri_def distinct_map_filter dest: inj_onD)
  then show "distinct (concat (map (\<lambda>p. with_pri p ml) (rev [minpri..NAF_MODULE_PRI_MAX])))" by simp
next
  fix r ml' st' i
  assume "naf_module__loadall dl now minpri ml st = Some (r, ml', st')" and i: "i < length ml"
  then have "load_rounds dl now (rev [minpri..NAF_MODULE_PRI_MAX]) ml st = Some (ml', st')"
    by (auto simp: naf_module__loadall_def bind_eq_Some_conv)
  note dn = load_rounds_done [OF this, simplified]
  show "loaded (ml' ! i) \<or> mi_status (ml' ! i) AND MOD_STATUS_ERROR \<noteq> 0"
    if "minpri \<le> mi_startuppri (ml ! i) \<and> mi_startuppri (ml ! i) \<le> NAF_MODULE_PRI_MAX"
    using dn that i by (auto simp: done_with_def)
  show "ml' ! i = ml ! i" if "mi_startuppri (ml ! i) < minpri" using dn that i by auto
qed

text \<open>Three modules that log that they are started.\<close>

definition sample_module :: "nafmod \<Rightarrow> int \<Rightarrow> nat list modlist_item" where
  "sample_module a pri = \<lparr>mi_filename = [], mi_status = MOD_STATUS_RESIDENT, mi_dlhandle = None,
     mi_firstproc = Some (\<lambda>a m log. Some (0, m, log @ [a])), mi_module = nafmodule_zero, mi_lasttimerrun = 0,
     mi_startuppri = pri, mi_addr = a\<rparr>"

theorem load_order_witness:
  "\<exists>ml. naf_module__loadall (\<lambda>_. None) 10 0 [sample_module 1 0, sample_module 2 5, sample_module 3 0] [] =
    Some (0, ml, [2, 1, 3])"
proof -
  let ?ml = "[sample_module 1 0, sample_module 2 5, sample_module 3 0]"
  have "distinct (map mi_addr ?ml)" by (simp add: sample_module_def)
  from load_order [OF this, of "\<lambda>_. None" 10 0 "[]"]
  have "naf_module__loadall (\<lambda>_. None) 10 0 ?ml [] = map_option (\<lambda>(ml, st). (0, ml, st))
      (load_seq (\<lambda>_. None) 10 (concat (map (\<lambda>p. with_pri p ?ml) (rev [0..5]))) (?ml, []))" by blast
  also have "concat (map (\<lambda>p. with_pri p ?ml) (rev [0..5])) = [2, 1, 3]"
    by (simp add: with_pri_def sample_module_def upto_rec1)
  finally show ?thesis
    by (simp add: sample_module_def naf_module__load_def load_start_def nafmodule_zero_def)
qed

text \<open>A module that is not loaded is reported as \<^verbatim>\<open>unknown\<close>: the constant that the code tests for is zero.\<close>

lemma never_not_loaded: "listmodules_curstat status \<noteq> cstr ''not loaded''"
  by (simp add: listmodules_curstat_def cstr_def)

section \<open>Asking the modules\<close>

text \<open>The modules that are asked whether a connection is theirs, when they do not change it.\<close>

definition asked :: "nafmod option \<Rightarrow> 's modlist_item list \<Rightarrow> 's modlist_item list" where
  "asked md ml = filter (\<lambda>m. Some (mi_addr m) \<noteq> md \<and> loaded m \<and> nm_protocoldetect (mi_module m) \<noteq> None) ml"

definition detect_outcome ::
    "('nb, 'z) cstate_scheme modlist_item option \<Rightarrow> int \<Rightarrow> nat \<Rightarrow> ('nb, 'z) cstate_scheme
       \<Rightarrow> (int \<times> ('nb, 'z) cstate_scheme) option" where
  "detect_outcome first ans conn st =
     (case first of
        None \<Rightarrow> Some (0, st)
      | Some m \<Rightarrow>
          if ans = -1 then Some (-1, st)
          else do {
            let st = conn_update conn (\<lambda>c. c\<lparr>c_owner := Some (mi_addr m)\<rparr>) st;
            (r, st) \<leftarrow> (case nm_takeconn (mi_module m) of None \<Rightarrow> Some (0, st) | Some t \<Rightarrow> t (mi_addr m) conn st);
            Some (if r = -1 then -1 else 1, st)
          })"

lemma protocoldetect_first:
  assumes "\<And>m f. m \<in> set ml \<Longrightarrow> nm_protocoldetect (mi_module m) = Some f \<Longrightarrow> f (mi_addr m) conn st = Some (ans m, st)"
    and "cs_conns st conn = Some c" "c_owner c = None"
  shows "naf_module__protocoldetect ml md conn st =
    (let first = List.find (\<lambda>m. ans m = 1 \<or> ans m = -1) (asked md ml)
     in detect_outcome first (ans (the first)) conn st)"
  using assms(1)
proof (induction ml)
  case (Cons m ml)
  have IH: "naf_module__protocoldetect ml md conn st =
    (let first = List.find (\<lambda>m. ans m = 1 \<or> ans m = -1) (asked md ml)
     in detect_outcome first (ans (the first)) conn st)"
    by (rule Cons.IH) (use Cons.prems in auto)
  show ?case
  proof (cases "Some (mi_addr m) = md \<or> mi_status m AND MOD_STATUS_LOADED = 0 \<or> nm_protocoldetect (mi_module m) = None")
    case True
    then have "asked md (m # ml) = asked md ml" by (auto simp: asked_def loaded_def)
    moreover have "naf_module__protocoldetect (m # ml) md conn st = naf_module__protocoldetect ml md conn st"
      using True assms(2,3) by auto
    ultimately show ?thesis using IH by simp
  next
    case False
    then obtain f where f: "nm_protocoldetect (mi_module m) = Some f" by auto
    with False have ask: "asked md (m # ml) = m # asked md ml" by (auto simp: asked_def loaded_def)
    have ans: "f (mi_addr m) conn st = Some (ans m, st)" using Cons.prems f by simp
    have "naf_module__protocoldetect (m # ml) md conn st =
       (if ans m = 1 \<or> ans m = -1 then detect_outcome (Some m) (ans m) conn st else naf_module__protocoldetect ml md conn st)"
      using False f ans assms(2,3) by (simp add: detect_outcome_def)
    then show ?thesis unfolding ask IH by simp
  qed
qed (simp add: asked_def detect_outcome_def)

end
