(* ===== verification/Rpc.thy ===== *)
theory Rpc
  imports Modules
begin

text \<open>
  Remote procedure calls inside the program, \<^verbatim>\<open>naf/rpc.c\<close> and \<^verbatim>\<open>include/naf/nafrpc.h\<close>: trees of named
  and typed arguments, the methods every module registers, and the dispatch of a request. A pointer
  to the head of a list of arguments (\<^verbatim>\<open>naf_rpc_arg_t **\<close>) is the path of indices that leads to the
  array whose children it heads; lists only grow at the end, so a path stays good. A function pointer
  is its address, \<open>call\<close> says what the function there does.
\<close>

section \<open>Data\<close>

abbreviation (input) NAF_RPC_ARGTYPE_SCALAR :: naf_u16_t where "NAF_RPC_ARGTYPE_SCALAR \<equiv> 0x0000"
abbreviation (input) NAF_RPC_ARGTYPE_ARRAY :: naf_u16_t where "NAF_RPC_ARGTYPE_ARRAY \<equiv> 0x0001"
abbreviation (input) NAF_RPC_ARGTYPE_GENERIC :: naf_u16_t where "NAF_RPC_ARGTYPE_GENERIC \<equiv> 0x0002"
abbreviation (input) NAF_RPC_ARGTYPE_BOOL :: naf_u16_t where "NAF_RPC_ARGTYPE_BOOL \<equiv> 0x0003"
abbreviation (input) NAF_RPC_ARGTYPE_STRING :: naf_u16_t where "NAF_RPC_ARGTYPE_STRING \<equiv> 0x0004"
abbreviation (input) NAF_RPC_STATUS_SUCCESS :: naf_u16_t where "NAF_RPC_STATUS_SUCCESS \<equiv> 0x0000"
abbreviation (input) NAF_RPC_STATUS_UNKNOWNTARGET :: naf_u16_t where "NAF_RPC_STATUS_UNKNOWNTARGET \<equiv> 0x0001"
abbreviation (input) NAF_RPC_STATUS_UNKNOWNMETHOD :: naf_u16_t where "NAF_RPC_STATUS_UNKNOWNMETHOD \<equiv> 0x0002"
abbreviation (input) NAF_RPC_STATUS_INVALIDARGS :: naf_u16_t where "NAF_RPC_STATUS_INVALIDARGS \<equiv> 0x0003"
abbreviation (input) NAF_RPC_STATUS_PENDING :: naf_u16_t where "NAF_RPC_STATUS_PENDING \<equiv> 0xfffe"
abbreviation (input) NAF_RPC_STATUS_UNKNOWNFAILURE :: naf_u16_t where "NAF_RPC_STATUS_UNKNOWNFAILURE \<equiv> 0xffff"

text \<open>The constructor of \<open>rpcdata\<close> is the member of the union that was written last. Reading another
  one is a fault.\<close>

datatype rpcarg = RpcArg (ra_name: bytes) (ra_type: naf_u16_t) (ra_length: naf_u16_t) (ra_data: rpcdata)
and rpcdata =
    RScalar naf_u32_t
  | RChildren "rpcarg list"
  | RGeneric bytes
  | RBoolean naf_u8_t
  | RString bytes

type_synonym rpchead = "nat list"

record rpcreq =
  rq_target :: bytes
  rq_method :: bytes
  rq_inargs :: "rpcarg list"
  rq_status :: naf_u16_t
  rq_returnargs :: "rpcarg list"

text \<open>The methods of a module hang on its tag \<^verbatim>\<open>module.rpi\<close>; \<open>None\<close> is a module without the tag.\<close>

record rpcmethod =
  rm_name :: bytes
  rm_func :: nat
  rm_desc :: "bytes option"

record rpcstate =
  rs_rpi :: "nafmod \<Rightarrow> rpcmethod list option"

abbreviation (input) sizeof_naf_rpc_arg_t :: nat where "sizeof_naf_rpc_arg_t \<equiv> 32"
abbreviation (input) sizeof_naf_rpc_req_t :: nat where "sizeof_naf_rpc_req_t \<equiv> 40"
abbreviation (input) sizeof_rpcmethod :: nat where "sizeof_rpcmethod \<equiv> 32"
abbreviation (input) sizeof_rpcmoduleinfo :: nat where "sizeof_rpcmoduleinfo \<equiv> 8"

fun data_scalar :: "rpcarg \<Rightarrow> naf_u32_t option" where
  "data_scalar (RpcArg _ _ _ (RScalar v)) = Some v"
| "data_scalar _ = None"

fun data_boolean :: "rpcarg \<Rightarrow> naf_u8_t option" where
  "data_boolean (RpcArg _ _ _ (RBoolean v)) = Some v"
| "data_boolean _ = None"

text \<open>A string ends at its terminator.\<close>

fun data_string :: "rpcarg \<Rightarrow> bytes option" where
  "data_string (RpcArg _ _ _ (RString s)) = Some (takeWhile (\<lambda>c. c \<noteq> 0) s)"
| "data_string _ = None"

section \<open>Arguments\<close>

text \<open>The list a head leads to, and a change of it.\<close>

fun args_at :: "rpchead \<Rightarrow> rpcarg list \<Rightarrow> rpcarg list option" where
  "args_at [] as = Some as"
| "args_at (i # p) as =
     (if i < length as then (case ra_data (as ! i) of RChildren cs \<Rightarrow> args_at p cs | _ \<Rightarrow> None) else None)"

definition set_children :: "rpcarg list \<Rightarrow> rpcarg \<Rightarrow> rpcarg" where
  "set_children cs a = RpcArg (ra_name a) (ra_type a) (ra_length a) (RChildren cs)"

fun appendarg :: "rpchead \<Rightarrow> rpcarg \<Rightarrow> rpcarg list \<Rightarrow> rpcarg list option" where
  "appendarg [] narg as = Some (as @ [narg])"
| "appendarg (i # p) narg as =
     (if i < length as
      then (case ra_data (as ! i) of
              RChildren cs \<Rightarrow> map_option (\<lambda>cs. as[i := set_children cs (as ! i)]) (appendarg p narg cs)
            | _ \<Rightarrow> None)
      else None)"

definition naf_rpc_arg_new :: "allocator \<Rightarrow> bytes \<Rightarrow> rpcarg option" where
  "naf_rpc_arg_new mal name =
     (if mal sizeof_naf_rpc_arg_t = None then None
      else if mal (length name + 1) = None then None
      else Some (RpcArg name 0 0 (RScalar 0)))"

definition naf_rpc_addarg_scalar ::
    "allocator \<Rightarrow> rpchead \<Rightarrow> bytes \<Rightarrow> naf_u32_t \<Rightarrow> rpcarg list \<Rightarrow> (int \<times> rpcarg list) option" where
  "naf_rpc_addarg_scalar mal head name val as =
     (case naf_rpc_arg_new mal name of
        None \<Rightarrow> Some (-1, as)
      | Some narg \<Rightarrow> do {
          as \<leftarrow> appendarg head (RpcArg (ra_name narg) NAF_RPC_ARGTYPE_SCALAR 8 (RScalar val)) as;
          Some (0, as)
        })"

definition naf_rpc_addarg_bool ::
    "allocator \<Rightarrow> rpchead \<Rightarrow> bytes \<Rightarrow> naf_u8_t \<Rightarrow> rpcarg list \<Rightarrow> (int \<times> rpcarg list) option" where
  "naf_rpc_addarg_bool mal head name val as =
     (case naf_rpc_arg_new mal name of
        None \<Rightarrow> Some (-1, as)
      | Some narg \<Rightarrow> do {
          as \<leftarrow> appendarg head (RpcArg (ra_name narg) NAF_RPC_ARGTYPE_BOOL 1 (RBoolean val)) as;
          Some (0, as)
        })"

text \<open>The length is cut to 16 bits, here and for strings.\<close>

definition naf_rpc_addarg_generic ::
    "allocator \<Rightarrow> rpchead \<Rightarrow> bytes \<Rightarrow> bytes \<Rightarrow> nat \<Rightarrow> rpcarg list \<Rightarrow> (int \<times> rpcarg list) option" where
  "naf_rpc_addarg_generic mal head name data datalen as =
     (case naf_rpc_arg_new mal name of
        None \<Rightarrow> Some (-1, as)
      | Some narg \<Rightarrow>
          if mal datalen = None then Some (-1, as)
          else do {
            data \<leftarrow> mem_read data 0 datalen;
            as \<leftarrow> appendarg head (RpcArg (ra_name narg) NAF_RPC_ARGTYPE_GENERIC (of_nat datalen) (RGeneric data)) as;
            Some (0, as)
          })"

definition naf_rpc_addarg_string ::
    "allocator \<Rightarrow> rpchead \<Rightarrow> bytes \<Rightarrow> bytes \<Rightarrow> rpcarg list \<Rightarrow> (int \<times> rpcarg list) option" where
  "naf_rpc_addarg_string mal head name string as =
     (case naf_rpc_arg_new mal name of
        None \<Rightarrow> Some (-1, as)
      | Some narg \<Rightarrow>
          if mal (length string + 1) = None then Some (-1, as)
          else do {
            as \<leftarrow> appendarg head (RpcArg (ra_name narg) NAF_RPC_ARGTYPE_STRING (of_nat (length string + 1)) (RString string)) as;
            Some (0, as)
          })"

text \<open>The result is the head for the children of the new argument, the last of its list.\<close>

definition naf_rpc_addarg_array ::
    "allocator \<Rightarrow> rpchead \<Rightarrow> bytes \<Rightarrow> rpcarg list \<Rightarrow> (rpchead option \<times> rpcarg list) option" where
  "naf_rpc_addarg_array mal head name as =
     (case naf_rpc_arg_new mal name of
        None \<Rightarrow> Some (None, as)
      | Some narg \<Rightarrow> do {
          old \<leftarrow> args_at head as;
          as \<leftarrow> appendarg head (RpcArg (ra_name narg) NAF_RPC_ARGTYPE_ARRAY 0 (RChildren [])) as;
          Some (Some (head @ [length old]), as)
        })"

definition naf_rpc_getarg :: "rpcarg list \<Rightarrow> bytes \<Rightarrow> rpcarg option" where
  "naf_rpc_getarg head name = List.find (\<lambda>arg. strcasecmp_eq (ra_name arg) name) head"

section \<open>Requests\<close>

definition naf_rpc_request_new :: "allocator \<Rightarrow> bytes \<Rightarrow> bytes \<Rightarrow> rpcreq option" where
  "naf_rpc_request_new mal targetmod method =
     (if mal sizeof_naf_rpc_req_t = None then None
      else if mal (length targetmod + 1) = None then None
      else if mal (length method + 1) = None then None
      else Some \<lparr>rq_target = targetmod, rq_method = method, rq_inargs = [], rq_status = NAF_RPC_STATUS_PENDING,
                 rq_returnargs = []\<rparr>)"

section \<open>Methods\<close>

text \<open>The methods of a module, with an empty list attached when there is none yet.\<close>

definition fetchinfo :: "allocator \<Rightarrow> nafmod \<Rightarrow> 'r rpcstate_scheme \<Rightarrow> rpcmethod list option \<times> 'r rpcstate_scheme" where
  "fetchinfo mal md st =
     (case rs_rpi st md of
        Some rpi \<Rightarrow> (Some rpi, st)
      | None \<Rightarrow>
          if mal sizeof_rpcmoduleinfo = None then (None, st)
          else if mal sizeof_naf_tag_t = None then (None, st)
          else (Some [], st\<lparr>rs_rpi := (rs_rpi st)(md \<mapsto> [])\<rparr>))"

definition rm_matches :: "bytes \<Rightarrow> rpcmethod \<Rightarrow> bool" where
  "rm_matches name rm \<longleftrightarrow> strcasecmp_eq (rm_name rm) name"

fun findmethod :: "bytes \<Rightarrow> rpcmethod list \<Rightarrow> rpcmethod option" where
  "findmethod name [] = None"
| "findmethod name (rm # rest) = (if rm_matches name rm then Some rm else findmethod name rest)"

definition addmethod :: "allocator \<Rightarrow> bytes \<Rightarrow> nat \<Rightarrow> bytes option \<Rightarrow> rpcmethod list \<Rightarrow> int \<times> rpcmethod list" where
  "addmethod mal name func desc rpi =
     (if findmethod name rpi \<noteq> None then (0, rpi)
      else if mal sizeof_rpcmethod = None then (-1, rpi)
      else if mal (length name + 1) = None then (-1, rpi)
      else case desc of
             None \<Rightarrow> (0, \<lparr>rm_name = name, rm_func = func, rm_desc = None\<rparr> # rpi)
           | Some d \<Rightarrow>
               if mal (length d + 1) = None then (-1, rpi)
               else (0, \<lparr>rm_name = name, rm_func = func, rm_desc = Some d\<rparr> # rpi))"

definition naf_rpc_register_method ::
    "allocator \<Rightarrow> nafmod \<Rightarrow> bytes \<Rightarrow> nat \<Rightarrow> bytes option \<Rightarrow> 'r rpcstate_scheme \<Rightarrow> int \<times> 'r rpcstate_scheme" where
  "naf_rpc_register_method mal md name func desc st =
     (case fetchinfo mal md st of
        (None, st) \<Rightarrow> (-1, st)
      | (Some rpi, st) \<Rightarrow>
          (let (r, rpi) = addmethod mal name func desc rpi in (r, st\<lparr>rs_rpi := (rs_rpi st)(md \<mapsto> rpi)\<rparr>)))"

fun unlink_method :: "bytes \<Rightarrow> rpcmethod list \<Rightarrow> rpcmethod option \<times> rpcmethod list" where
  "unlink_method name [] = (None, [])"
| "unlink_method name (cur # rest) =
     (if rm_matches name cur then (Some cur, rest)
      else (let (r, rest) = unlink_method name rest in (r, cur # rest)))"

definition naf_rpc_unregister_method ::
    "allocator \<Rightarrow> nafmod \<Rightarrow> bytes \<Rightarrow> 'r rpcstate_scheme \<Rightarrow> int \<times> 'r rpcstate_scheme" where
  "naf_rpc_unregister_method mal md name st =
     (case fetchinfo mal md st of
        (None, st) \<Rightarrow> (-1, st)
      | (Some rpi, st) \<Rightarrow>
          (let (r, rpi) = unlink_method name rpi
           in (if r = None then -1 else 0, st\<lparr>rs_rpi := (rs_rpi st)(md \<mapsto> rpi)\<rparr>)))"

text \<open>What the functions of methods do: the function at an address is called with the module that
  registered it, the request and the state. \<open>None\<close> is a fault.\<close>

type_synonym 'st rpccall = "nat \<Rightarrow> nafmod \<Rightarrow> rpcreq \<Rightarrow> 'st \<Rightarrow> (rpcreq \<times> 'st) option"

definition naf_rpc_request_issue ::
    "allocator \<Rightarrow> 'r rpcstate_scheme rpccall \<Rightarrow> 's modlist_item list \<Rightarrow> nafmod option \<Rightarrow> rpcreq option
       \<Rightarrow> 'r rpcstate_scheme \<Rightarrow> (int \<times> rpcreq option \<times> 'r rpcstate_scheme) option" where
  "naf_rpc_request_issue mal call ml md req st =
     (case req of
        None \<Rightarrow> Some (-1, None, st)
      | Some req \<Rightarrow>
          (case naf_module_findbyname md (Some (rq_target req)) ml of
             None \<Rightarrow> Some (0, Some (req\<lparr>rq_status := NAF_RPC_STATUS_UNKNOWNTARGET\<rparr>), st)
           | Some target \<Rightarrow>
               (case fetchinfo mal target st of
                  (None, st) \<Rightarrow> Some (0, Some (req\<lparr>rq_status := NAF_RPC_STATUS_UNKNOWNMETHOD\<rparr>), st)
                | (Some rpi, st) \<Rightarrow>
                    (case findmethod (rq_method req) rpi of
                       None \<Rightarrow> Some (0, Some (req\<lparr>rq_status := NAF_RPC_STATUS_UNKNOWNMETHOD\<rparr>), st)
                     | Some rm \<Rightarrow> do {
                         (req, st) \<leftarrow> call (rm_func rm) target req st;
                         Some (0, Some req, st)
                       }))))"

section \<open>Putting several arguments\<close>

text \<open>A row of calls of \<^verbatim>\<open>naf_rpc_addarg_*\<close> on one head whose results are ignored.\<close>

datatype rpcput = PutScalar bytes naf_u32_t | PutBool bytes naf_u8_t | PutString bytes bytes

fun rpc_put :: "allocator \<Rightarrow> rpchead \<Rightarrow> rpcput \<Rightarrow> rpcarg list \<Rightarrow> (int \<times> rpcarg list) option" where
  "rpc_put mal head (PutScalar name v) as = naf_rpc_addarg_scalar mal head name v as"
| "rpc_put mal head (PutBool name v) as = naf_rpc_addarg_bool mal head name v as"
| "rpc_put mal head (PutString name s) as = naf_rpc_addarg_string mal head name s as"

fun rpc_puts :: "allocator \<Rightarrow> rpchead \<Rightarrow> rpcput list \<Rightarrow> rpcarg list \<Rightarrow> rpcarg list option" where
  "rpc_puts mal head [] as = Some as"
| "rpc_puts mal head (p # ps) as = do { (_, as) \<leftarrow> rpc_put mal head p as; rpc_puts mal head ps as }"

text \<open>\<^verbatim>\<open>if ((p = naf_rpc_addarg_array(...))) { ... }\<close>, and a loop that fills in the tree.\<close>

definition rpc_in_array ::
    "allocator \<Rightarrow> rpchead \<Rightarrow> bytes \<Rightarrow> (rpchead \<Rightarrow> rpcarg list \<Rightarrow> rpcarg list option) \<Rightarrow> rpcarg list \<Rightarrow> rpcarg list option" where
  "rpc_in_array mal head name body as = do {
     (p, as) \<leftarrow> naf_rpc_addarg_array mal head name as;
     case p of None \<Rightarrow> Some as | Some p \<Rightarrow> body p as
   }"

fun rpc_for :: "('a \<Rightarrow> rpcarg list \<Rightarrow> rpcarg list option) \<Rightarrow> 'a list \<Rightarrow> rpcarg list \<Rightarrow> rpcarg list option" where
  "rpc_for body [] as = Some as"
| "rpc_for body (x # xs) as = do { as \<leftarrow> body x as; rpc_for body xs as }"

text \<open>The calls that answer a request with a status alone.\<close>

abbreviation (input) rpc_status :: "naf_u16_t \<Rightarrow> rpcreq \<Rightarrow> 'st \<Rightarrow> (rpcreq \<times> 'st) option" where
  "rpc_status s req st \<equiv> Some (req\<lparr>rq_status := s\<rparr>, st)"

text \<open>An optional argument that has to be a string: \<open>None\<close> when it has another type, else its value if it
  is there.\<close>

definition string_arg :: "rpcarg list \<Rightarrow> bytes \<Rightarrow> bytes option option option" where
  "string_arg args name =
     (case naf_rpc_getarg args name of
        None \<Rightarrow> Some (Some None)
      | Some a \<Rightarrow> if ra_type a \<noteq> NAF_RPC_ARGTYPE_STRING then Some None
                  else map_option (\<lambda>s. Some (Some s)) (data_string a))"

text \<open>\<^verbatim>\<open>strncasecmp\<close> up to the length of its second string.\<close>

definition strncasecmp_prefix :: "bytes \<Rightarrow> bytes \<Rightarrow> bool" where
  "strncasecmp_prefix s pref \<longleftrightarrow> strcasecmp_eq (take (length pref) s) pref"

definition opt_string :: "bytes \<Rightarrow> bytes option \<Rightarrow> rpcput list" where
  "opt_string name val = (case val of None \<Rightarrow> [] | Some v \<Rightarrow> [PutString name v])"

section \<open>The method of the component\<close>

text \<open>\<^verbatim>\<open>helpiter\<close> works on the tree and on the state, to which \<^verbatim>\<open>fetchinfo\<close> adds.\<close>

definition helpiter ::
    "allocator \<Rightarrow> (nafmod \<Rightarrow> bytes) \<Rightarrow> rpchead \<Rightarrow> nafmod \<Rightarrow> nafmod \<Rightarrow> rpcarg list \<times> 'r rpcstate_scheme
       \<Rightarrow> (int \<times> rpcarg list \<times> 'r rpcstate_scheme) option" where
  "helpiter mal modname mtop md cur us =
     (case fetchinfo mal cur (snd us) of
        (None, st) \<Rightarrow> Some (0, fst us, st)
      | (Some rpi, st) \<Rightarrow>
          if rpi = [] then Some (0, fst us, st)
          else do {
            as \<leftarrow> rpc_in_array mal mtop (modname cur) (\<lambda>ptop. rpc_for (\<lambda>rm.
              rpc_in_array mal ptop (rm_name rm) (\<lambda>method. rpc_puts mal method
                (case rm_desc rm of None \<Rightarrow> [] | Some d \<Rightarrow> [PutString (cstr ''description'') d]))) rpi) (fst us);
            Some (0, as, st)
          })"

definition rpc_rpc_help ::
    "allocator \<Rightarrow> 's modlist_item list \<Rightarrow> (nafmod \<Rightarrow> bytes) \<Rightarrow> nafmod \<Rightarrow> rpcreq \<Rightarrow> 'r rpcstate_scheme
       \<Rightarrow> (rpcreq \<times> 'r rpcstate_scheme) option" where
  "rpc_rpc_help mal ml modname ourmodule req st =
     (let module = naf_rpc_getarg (rq_inargs req) (cstr ''module'')
      in if module \<noteq> None \<and> ra_type (the module) \<noteq> NAF_RPC_ARGTYPE_STRING
         then rpc_status NAF_RPC_STATUS_INVALIDARGS req st
         else do {
           name \<leftarrow> (case module of None \<Rightarrow> Some None | Some m \<Rightarrow> map_option Some (data_string m));
           (methods, as) \<leftarrow> naf_rpc_addarg_array mal [] (cstr ''methods'') (rq_returnargs req);
           (as, st) \<leftarrow> (case methods of
              None \<Rightarrow> Some (as, st)
            | Some mtop \<Rightarrow>
                (case name of
                   Some n \<Rightarrow>
                     (case naf_module_findbyname (Some ourmodule) (Some n) ml of
                        None \<Rightarrow> Some (as, st)
                      | Some pmod \<Rightarrow> map_option snd (helpiter mal modname mtop ourmodule pmod (as, st)))
                 | None \<Rightarrow> naf_module_iter (Some (helpiter mal modname mtop)) (Some ourmodule) ml (as, st)));
           Some (req\<lparr>rq_returnargs := as, rq_status := NAF_RPC_STATUS_SUCCESS\<rparr>, st)
         })"

section \<open>Typed trees\<close>

text \<open>The type and length of an argument agree with the member of the union that is set.\<close>

fun arg_ok :: "rpcarg \<Rightarrow> bool" where
  "arg_ok (RpcArg n t l (RScalar v)) \<longleftrightarrow> t = NAF_RPC_ARGTYPE_SCALAR \<and> l = 8"
| "arg_ok (RpcArg n t l (RChildren cs)) \<longleftrightarrow> t = NAF_RPC_ARGTYPE_ARRAY \<and> (\<forall>c \<in> set cs. arg_ok c)"
| "arg_ok (RpcArg n t l (RGeneric bs)) \<longleftrightarrow> t = NAF_RPC_ARGTYPE_GENERIC \<and> l = of_nat (length bs)"
| "arg_ok (RpcArg n t l (RBoolean b)) \<longleftrightarrow> t = NAF_RPC_ARGTYPE_BOOL \<and> l = 1"
| "arg_ok (RpcArg n t l (RString s)) \<longleftrightarrow> t = NAF_RPC_ARGTYPE_STRING \<and> l = of_nat (length s + 1)"

definition tree_ok :: "rpcarg list \<Rightarrow> bool" where
  "tree_ok as \<longleftrightarrow> (\<forall>a \<in> set as. arg_ok a)"

lemma arg_ok_children: "arg_ok a \<Longrightarrow> ra_data a = RChildren cs \<Longrightarrow> tree_ok cs"
  by (cases a) (auto simp: tree_ok_def)

lemma arg_ok_set_children:
  "arg_ok a \<Longrightarrow> ra_data a = RChildren cs \<Longrightarrow> tree_ok cs' \<Longrightarrow> arg_ok (set_children cs' a)"
  by (cases a) (auto simp: tree_ok_def set_children_def)

text \<open>Whatever is read off an argument of a typed tree after its type was tested is there.\<close>

lemma arg_ok_data:
  assumes "arg_ok a"
  shows "ra_type a = NAF_RPC_ARGTYPE_STRING \<Longrightarrow> \<exists>s. data_string a = Some s"
    and "ra_type a = NAF_RPC_ARGTYPE_SCALAR \<Longrightarrow> \<exists>v. data_scalar a = Some v"
    and "ra_type a = NAF_RPC_ARGTYPE_BOOL \<Longrightarrow> \<exists>b. data_boolean a = Some b"
  using assms by (cases a rule: arg_ok.cases; auto)+

lemma getarg_ok: "tree_ok as \<Longrightarrow> naf_rpc_getarg as name = Some a \<Longrightarrow> arg_ok a"
  by (auto simp: tree_ok_def naf_rpc_getarg_def find_Some_iff)

lemma set_children_simps [simp]: "ra_data (set_children cs a) = RChildren cs"
  by (simp add: set_children_def)

text \<open>Appending at a head that leads somewhere.\<close>

lemma appendarg_at:
  "args_at p as = Some l \<Longrightarrow> \<exists>as'. appendarg p a as = Some as' \<and> args_at p as' = Some (l @ [a])"
proof (induction p as rule: args_at.induct)
  case (2 i p as)
  then obtain cs where cs: "i < length as" "ra_data (as ! i) = RChildren cs" "args_at p cs = Some l"
    by (auto split: if_splits rpcdata.splits)
  with 2 obtain cs' where "appendarg p a cs = Some cs'" "args_at p cs' = Some (l @ [a])" by blast
  with cs show ?case by simp
qed simp

lemma args_at_snoc: "args_at (p @ [i]) as = Option.bind (args_at p as) (args_at [i])"
  by (induction p as rule: args_at.induct) (auto split: rpcdata.splits)

lemma appendarg_keeps:
  "appendarg p a as = Some as' \<Longrightarrow> args_at q as = Some l \<Longrightarrow> \<exists>l'. args_at q as' = Some l'"
proof (induction p a as arbitrary: as' q l rule: appendarg.induct)
  case (1 narg as)
  then show ?case
    by (cases q) (auto simp: nth_append split: if_splits rpcdata.splits)
next
  case (2 i p narg as)
  then obtain cs cs' where cs: "i < length as" "ra_data (as ! i) = RChildren cs" "appendarg p narg cs = Some cs'"
    "as' = as[i := set_children cs' (as ! i)]"
    by (auto split: if_splits rpcdata.splits)
  with 2 show ?case
    by (cases q) (auto simp: nth_list_update split: if_splits rpcdata.splits)
qed

lemma appendarg_ok: "appendarg p a as = Some as' \<Longrightarrow> tree_ok as \<Longrightarrow> arg_ok a \<Longrightarrow> tree_ok as'"
proof (induction p a as arbitrary: as' rule: appendarg.induct)
  case (2 i p narg as)
  then obtain cs cs' where cs: "i < length as" "ra_data (as ! i) = RChildren cs" "appendarg p narg cs = Some cs'"
    "as' = as[i := set_children cs' (as ! i)]"
    by (auto split: if_splits rpcdata.splits)
  then have i: "arg_ok (as ! i)" using 2(3) by (simp add: tree_ok_def)
  then have "tree_ok cs" using cs(2) by (rule arg_ok_children)
  with 2 cs have "tree_ok cs'" by blast
  with cs i 2 show ?case
    by (auto simp: tree_ok_def dest!: set_update_subset_insert [THEN subsetD] intro: arg_ok_set_children [unfolded tree_ok_def])
qed (auto simp: tree_ok_def)

section \<open>Filling in a tree\<close>

named_theorems fills_intro \<open>functions that fill in a tree of arguments\<close>

text \<open>What a tree may become: still typed, and every head good.\<close>

definition tree_ext :: "rpcarg list \<Rightarrow> rpcarg list \<Rightarrow> bool" where
  "tree_ext as as' \<longleftrightarrow> (tree_ok as \<longrightarrow> tree_ok as') \<and> (\<forall>q. args_at q as \<noteq> None \<longrightarrow> args_at q as' \<noteq> None)"

definition fills :: "rpchead \<Rightarrow> (rpcarg list \<Rightarrow> rpcarg list option) \<Rightarrow> bool" where
  "fills head body \<longleftrightarrow> (\<forall>as. args_at head as \<noteq> None \<longrightarrow> (\<exists>as'. body as = Some as' \<and> tree_ext as as'))"

lemma tree_ext_refl [simp]: "tree_ext as as"
  by (simp add: tree_ext_def)

lemma tree_ext_trans: "tree_ext as bs \<Longrightarrow> tree_ext bs cs \<Longrightarrow> tree_ext as cs"
  by (simp add: tree_ext_def)

lemma tree_extD:
  "tree_ext as as' \<Longrightarrow> tree_ok as \<Longrightarrow> tree_ok as'"
  "tree_ext as as' \<Longrightarrow> args_at q as \<noteq> None \<Longrightarrow> args_at q as' \<noteq> None"
  by (simp_all add: tree_ext_def)

lemma fillsD: "fills head body \<Longrightarrow> args_at head as \<noteq> None \<Longrightarrow> \<exists>as'. body as = Some as' \<and> tree_ext as as'"
  by (simp add: fills_def)

lemma append_ext:
  assumes "args_at head as \<noteq> None" "arg_ok a"
  shows "\<exists>as'. appendarg head a as = Some as' \<and> tree_ext as as'"
proof -
  obtain as' where as': "appendarg head a as = Some as'" using assms(1) appendarg_at by fastforce
  have "tree_ext as as'" using appendarg_ok [OF as' _ assms(2)] appendarg_keeps [OF as'] by (auto simp: tree_ext_def)
  with as' show ?thesis by blast
qed

lemma rpc_put_ext:
  "args_at head as \<noteq> None \<Longrightarrow> \<exists>r as'. rpc_put mal head p as = Some (r, as') \<and> tree_ext as as'"
proof (cases p)
  case (PutScalar name v)
  then show "args_at head as \<noteq> None \<Longrightarrow> ?thesis"
    using append_ext [of head as "RpcArg name NAF_RPC_ARGTYPE_SCALAR 8 (RScalar v)"]
    by (auto simp: naf_rpc_addarg_scalar_def naf_rpc_arg_new_def split: option.splits)
next
  case (PutBool name v)
  then show "args_at head as \<noteq> None \<Longrightarrow> ?thesis"
    using append_ext [of head as "RpcArg name NAF_RPC_ARGTYPE_BOOL 1 (RBoolean v)"]
    by (auto simp: naf_rpc_addarg_bool_def naf_rpc_arg_new_def split: option.splits)
next
  case (PutString name s)
  then show "args_at head as \<noteq> None \<Longrightarrow> ?thesis"
    using append_ext [of head as "RpcArg name NAF_RPC_ARGTYPE_STRING (of_nat (length s + 1)) (RString s)"]
    by (auto simp: naf_rpc_addarg_string_def naf_rpc_arg_new_def split: option.splits)
qed

lemma fills_puts [fills_intro]: "fills head (rpc_puts mal head ps)"
proof -
  have "\<exists>as'. rpc_puts mal head ps as = Some as' \<and> tree_ext as as'" if "args_at head as \<noteq> None" for as
    using that
  proof (induction ps arbitrary: as)
    case (Cons p ps)
    obtain r as1 where as1: "rpc_put mal head p as = Some (r, as1)" "tree_ext as as1"
      using rpc_put_ext [OF Cons.prems] by blast
    then have "args_at head as1 \<noteq> None" using Cons.prems tree_extD(2) by blast
    then obtain as2 where "rpc_puts mal head ps as1 = Some as2" "tree_ext as1 as2" using Cons.IH by blast
    with as1 show ?case using tree_ext_trans by auto
  qed simp
  then show ?thesis by (simp add: fills_def)
qed

lemma addarg_array_ext:
  assumes "args_at head as \<noteq> None"
  shows "\<exists>p as'. naf_rpc_addarg_array mal head name as = Some (p, as') \<and> tree_ext as as' \<and>
    (\<forall>h. p = Some h \<longrightarrow> args_at h as' = Some [])"
proof (cases "naf_rpc_arg_new mal name")
  case None
  then show ?thesis by (simp add: naf_rpc_addarg_array_def)
next
  case (Some narg)
  let ?a = "RpcArg (ra_name narg) NAF_RPC_ARGTYPE_ARRAY 0 (RChildren [])"
  obtain l where l: "args_at head as = Some l" using assms by blast
  obtain as' where as': "appendarg head ?a as = Some as'" "args_at head as' = Some (l @ [?a])"
    using appendarg_at [OF l] by blast
  have "tree_ext as as'" using append_ext [OF assms, of ?a] as'(1) by simp
  moreover have "args_at (head @ [length l]) as' = Some []" using as'(2) by (simp add: args_at_snoc)
  ultimately show ?thesis using Some l as'(1) by (simp add: naf_rpc_addarg_array_def)
qed

lemma fills_in_array [fills_intro]:
  assumes "\<And>p. fills p (body p)"
  shows "fills head (rpc_in_array mal head name body)"
proof -
  have "\<exists>as'. rpc_in_array mal head name body as = Some as' \<and> tree_ext as as'" if h: "args_at head as \<noteq> None" for as
  proof -
    obtain p as1 where as1: "naf_rpc_addarg_array mal head name as = Some (p, as1)" "tree_ext as as1"
      "\<forall>h. p = Some h \<longrightarrow> args_at h as1 = Some []"
      using addarg_array_ext [OF h] by blast
    show ?thesis
    proof (cases p)
      case None
      with as1 show ?thesis by (simp add: rpc_in_array_def)
    next
      case (Some q)
      with as1 fillsD [OF assms, of q as1] obtain as2 where "body q as1 = Some as2" "tree_ext as1 as2" by auto
      with as1 Some show ?thesis using tree_ext_trans by (auto simp: rpc_in_array_def)
    qed
  qed
  then show ?thesis by (simp add: fills_def)
qed

lemma fills_for [fills_intro]:
  assumes "\<And>x. x \<in> set xs \<Longrightarrow> fills head (body x)"
  shows "fills head (rpc_for body xs)"
proof -
  have "\<exists>as'. rpc_for body xs as = Some as' \<and> tree_ext as as'" if "args_at head as \<noteq> None" for as
    using that assms
  proof (induction xs arbitrary: as)
    case (Cons x xs)
    obtain as1 where as1: "body x as = Some as1" "tree_ext as as1"
      using fillsD [of head "body x" as] Cons.prems by auto
    then have "args_at head as1 \<noteq> None" using Cons.prems tree_extD(2) by blast
    then obtain as2 where "rpc_for body xs as1 = Some as2" "tree_ext as1 as2" using Cons by auto
    with as1 show ?case using tree_ext_trans by auto
  qed simp
  then show ?thesis by (simp add: fills_def)
qed

lemma fills_none [fills_intro]: "fills head Some"
  by (simp add: fills_def)

lemma fills_seq [fills_intro]:
  assumes "fills head f" "fills head g"
  shows "fills head (\<lambda>as. Option.bind (f as) g)"
proof -
  have "\<exists>as'. Option.bind (f as) g = Some as' \<and> tree_ext as as'" if "args_at head as \<noteq> None" for as
    using fillsD [OF assms(1) that] fillsD [OF assms(2)] that tree_extD(2) tree_ext_trans by (metis bind.bind_lunit)
  then show ?thesis by (simp add: fills_def)
qed

text \<open>The frame of a method that lists the modules, or one of them: \<open>iter\<close> is what is done for each.\<close>

definition rpc_list_modules ::
    "allocator \<Rightarrow> 's modlist_item list \<Rightarrow> nafmod
       \<Rightarrow> (rpchead \<Rightarrow> nafmod \<Rightarrow> nafmod \<Rightarrow> rpcarg list \<times> 'u \<Rightarrow> (int \<times> rpcarg list \<times> 'u) option)
       \<Rightarrow> rpcreq \<Rightarrow> 'u \<Rightarrow> (rpcreq \<times> 'u) option" where
  "rpc_list_modules mal ml md iter req st = do {
     modarg \<leftarrow> string_arg (rq_inargs req) (cstr ''module'');
     case modarg of
       None \<Rightarrow> rpc_status NAF_RPC_STATUS_INVALIDARGS req st
     | Some module \<Rightarrow> do {
         (modules, as) \<leftarrow> naf_rpc_addarg_array mal [] (cstr ''modules'') (rq_returnargs req);
         (as, st) \<leftarrow> (case modules of
            None \<Rightarrow> Some (as, st)
          | Some mtop \<Rightarrow>
              (case module of
                 Some n \<Rightarrow>
                   (case naf_module_findbyname (Some md) (Some n) ml of
                      None \<Rightarrow> Some (as, st)
                    | Some pmod \<Rightarrow> map_option snd (iter mtop md pmod (as, st)))
               | None \<Rightarrow> naf_module_iter (Some (iter mtop)) (Some md) ml (as, st)));
         Some (req\<lparr>rq_returnargs := as, rq_status := NAF_RPC_STATUS_SUCCESS\<rparr>, st)
       }
   }"

lemma fillsE:
  assumes "fills head body" "args_at head as \<noteq> None"
  obtains as' where "body as = Some as'" "tree_ext as as'"
  using fillsD [OF assms] by blast

lemma string_arg_ok:
  assumes "tree_ok args"
  shows "\<exists>r. string_arg args name = Some r"
  using arg_ok_data(1) [OF getarg_ok [OF assms]] by (cases "naf_rpc_getarg args name") (force simp: string_arg_def)+

section \<open>What a method promises\<close>

text \<open>An answer leaves the question as it is, sets a status that is final, and its tree is typed.\<close>

definition answered :: "rpcreq \<Rightarrow> rpcreq \<Rightarrow> bool" where
  "answered req req' \<longleftrightarrow> rq_target req' = rq_target req \<and> rq_method req' = rq_method req \<and>
     rq_inargs req' = rq_inargs req \<and> tree_ok (rq_returnargs req') \<and>
     rq_status req' \<in> {NAF_RPC_STATUS_SUCCESS, NAF_RPC_STATUS_INVALIDARGS, NAF_RPC_STATUS_UNKNOWNFAILURE}"

locale rpc_method =
  fixes good :: "'st \<Rightarrow> bool" and serve :: "rpcreq \<Rightarrow> 'st \<Rightarrow> (rpcreq \<times> 'st) option"
  assumes answers: "good st \<Longrightarrow> tree_ok (rq_inargs req) \<Longrightarrow> tree_ok (rq_returnargs req) \<Longrightarrow>
    \<exists>req' st'. serve req st = Some (req', st') \<and> answered req req' \<and> good st'"
begin

text \<open>A method that is part of a larger state, reached through \<open>get\<close> and \<open>put\<close>.\<close>

lemma answers_part:
  assumes "\<And>st'. good st' \<Longrightarrow> good2 (put st' big)" "good (get big)" "tree_ok (rq_inargs req)" "tree_ok (rq_returnargs req)"
  shows "\<exists>req' big'. map_option (\<lambda>(r, st). (r, put st big)) (serve req (get big)) = Some (req', big') \<and>
    answered req req' \<and> good2 big'"
  using answers [OF assms(2-4)] assms(1) by fastforce

end

text \<open>A program that answers: its functions meet the contract for methods, except those that end the
  program, on states that stay good when methods are attached to modules.\<close>

locale rpc_program =
  fixes good :: "'r rpcstate_scheme \<Rightarrow> bool" and call :: "'r rpcstate_scheme rpccall" and ends :: "rpcmethod \<Rightarrow> bool"
  assumes served: "good st \<Longrightarrow> rs_rpi st md = Some rpi \<Longrightarrow> rm \<in> set rpi \<Longrightarrow> \<not> ends rm \<Longrightarrow>
      tree_ok (rq_inargs req) \<Longrightarrow> tree_ok (rq_returnargs req) \<Longrightarrow>
      \<exists>req' st'. call (rm_func rm) md req st = Some (req', st') \<and> answered req req' \<and> good st'"
    and good_rpi: "good st \<Longrightarrow> rs_rpi st md = None \<Longrightarrow> good (st\<lparr>rs_rpi := (rs_rpi st)(md \<mapsto> [])\<rparr>)"
begin

lemma fetchinfo_good:
  assumes "good st" "fetchinfo mal md st = (r, st')"
  shows "good st' \<and> (\<forall>rpi. r = Some rpi \<longrightarrow> rs_rpi st' md = Some rpi)"
  using assms good_rpi by (auto simp: fetchinfo_def split: option.splits if_splits)

text \<open>Issuing a request returns, and unless its target or method is unknown it is answered.\<close>

lemma issue_answers:
  assumes "good st" "tree_ok (rq_inargs req)" "tree_ok (rq_returnargs req)"
    and stays: "\<And>rm. rm_matches (rq_method req) rm \<Longrightarrow> \<not> ends rm"
  shows "\<exists>req' st'. naf_rpc_request_issue mal call ml md (Some req) st = Some (0, Some req', st') \<and> good st' \<and>
    (answered req req' \<or> req' = req\<lparr>rq_status := NAF_RPC_STATUS_UNKNOWNTARGET\<rparr> \<or>
     req' = req\<lparr>rq_status := NAF_RPC_STATUS_UNKNOWNMETHOD\<rparr>)"
proof (cases "naf_module_findbyname md (Some (rq_target req)) ml")
  case None
  with assms(1) show ?thesis by (simp add: naf_rpc_request_issue_def)
next
  case (Some target)
  obtain rpi st1 where f: "fetchinfo mal target st = (rpi, st1)" by (cases "fetchinfo mal target st")
  note g = fetchinfo_good [OF assms(1) f]
  show ?thesis
  proof (cases "\<exists>l rm. rpi = Some l \<and> findmethod (rq_method req) l = Some rm")
    case True
    then obtain l rm where rm: "rpi = Some l" "findmethod (rq_method req) l = Some rm" by blast
    have "rm \<in> set l \<and> rm_matches (rq_method req) rm" using rm(2) by (induction l) (auto split: if_splits)
    with served [of st1 target l rm req] stays g rm(1) assms(2,3)
    obtain req' st' where "call (rm_func rm) target req st1 = Some (req', st')" "answered req req'" "good st'" by blast
    with Some f rm show ?thesis by (simp add: naf_rpc_request_issue_def)
  next
    case False
    with Some f g show ?thesis
      by (auto simp: naf_rpc_request_issue_def split: option.splits)
  qed
qed

end

section \<open>The help method\<close>

lemma fills_opt_string: "fills head (rpc_puts mal head (opt_string name val))"
  by (rule fills_puts)

lemma helpiter_ok:
  assumes "args_at mtop as \<noteq> None" "good st"
    and rpi: "\<And>md st. good st \<Longrightarrow> rs_rpi st md = None \<Longrightarrow> good (st\<lparr>rs_rpi := (rs_rpi st)(md \<mapsto> [])\<rparr>)"
  shows "\<exists>as' st'. helpiter mal modname mtop md cur (as, st) = Some (0, as', st') \<and> tree_ext as as' \<and> good st'"
proof (cases "fetchinfo mal cur st")
  case (Pair rpi st1)
  then have g: "good st1" using assms(2) rpi by (auto simp: fetchinfo_def split: option.splits if_splits)
  show ?thesis
  proof (cases rpi)
    case None
    with Pair g show ?thesis by (simp add: helpiter_def)
  next
    case (Some l)
    have "fills mtop (rpc_in_array mal mtop (modname cur) (\<lambda>ptop. rpc_for (\<lambda>rm.
        rpc_in_array mal ptop (rm_name rm) (\<lambda>method. rpc_puts mal method
          (case rm_desc rm of None \<Rightarrow> [] | Some d \<Rightarrow> [PutString (cstr ''description'') d]))) l))"
      by (intro fills_intro)
    from fillsE [OF this assms(1)] obtain as' where "rpc_in_array mal mtop (modname cur) (\<lambda>ptop. rpc_for (\<lambda>rm.
        rpc_in_array mal ptop (rm_name rm) (\<lambda>method. rpc_puts mal method
          (case rm_desc rm of None \<Rightarrow> [] | Some d \<Rightarrow> [PutString (cstr ''description'') d]))) l) as = Some as'" "tree_ext as as'"
      by blast
    with Pair Some g show ?thesis by (cases "l = []") (auto simp: helpiter_def)
  qed
qed

text \<open>Going through the modules with a function that fills in a tree and works on a state.\<close>

lemma module_iter_fills:
  assumes "\<And>cur as st. args_at mtop as \<noteq> None \<Longrightarrow> good st \<Longrightarrow>
    \<exists>r as' st'. f md cur (as, st) = Some (r, as', st') \<and> tree_ext as as' \<and> good st'"
  shows "args_at mtop as \<noteq> None \<Longrightarrow> good st \<Longrightarrow>
    \<exists>as' st'. module_iter_loop f md ml (as, st) = Some (as', st') \<and> tree_ext as as' \<and> good st'"
proof (induction ml arbitrary: as st)
  case (Cons cur ml)
  obtain r as1 st1 where 1: "f md (mi_addr cur) (as, st) = Some (r, as1, st1)" "tree_ext as as1" "good st1"
    using assms Cons.prems by blast
  then have "args_at mtop as1 \<noteq> None" using Cons.prems tree_extD(2) by blast
  from Cons.IH [OF this 1(3)] obtain as2 st2 where 2: "module_iter_loop f md ml (as1, st1) = Some (as2, st2)"
    "tree_ext as1 as2" "good st2" by blast
  consider "mi_status cur AND MOD_STATUS_LOADED = 0" | "mi_status cur AND MOD_STATUS_LOADED \<noteq> 0" "r \<noteq> 0"
    | "mi_status cur AND MOD_STATUS_LOADED \<noteq> 0" "r = 0" by blast
  then show ?case
  proof cases
    case 1
    with Cons.IH [OF Cons.prems] show ?thesis by simp
  next
    case 2
    with 1 show ?thesis by simp
  next
    case 3
    with 1 2 tree_ext_trans [OF 1(2) 2(2)] show ?thesis by simp
  qed
qed simp

lemma help_answers:
  assumes "tree_ok (rq_inargs req)" "tree_ok (rq_returnargs req)" "good st"
    and rpi: "\<And>md st. good st \<Longrightarrow> rs_rpi st md = None \<Longrightarrow> good (st\<lparr>rs_rpi := (rs_rpi st)(md \<mapsto> [])\<rparr>)"
  shows "\<exists>req' st'. rpc_rpc_help mal ml modname ourmodule req st = Some (req', st') \<and> answered req req' \<and> good st'"
proof -
  let ?m = "naf_rpc_getarg (rq_inargs req) (cstr ''module'')"
  show ?thesis
  proof (cases "?m \<noteq> None \<and> ra_type (the ?m) \<noteq> NAF_RPC_ARGTYPE_STRING")
    case True
    with assms show ?thesis by (auto simp: rpc_rpc_help_def answered_def Let_def)
  next
    case False
    have "\<exists>name. (case ?m of None \<Rightarrow> Some None | Some m \<Rightarrow> map_option Some (data_string m)) = Some name"
      using False arg_ok_data(1) [OF getarg_ok [OF assms(1)], of "cstr ''module''"] by (fastforce split: option.splits)
    then obtain name where name: "(case ?m of None \<Rightarrow> Some None | Some m \<Rightarrow> map_option Some (data_string m)) = Some name" ..
    obtain p as1 where p: "naf_rpc_addarg_array mal [] (cstr ''methods'') (rq_returnargs req) = Some (p, as1)"
      "tree_ext (rq_returnargs req) as1" "\<forall>h. p = Some h \<longrightarrow> args_at h as1 = Some []"
      using addarg_array_ext [of "[]" "rq_returnargs req" mal "cstr ''methods''"] by auto
    have "\<exists>as2 st2. (case p of None \<Rightarrow> Some (as1, st)
        | Some mtop \<Rightarrow> (case name of Some n \<Rightarrow>
             (case naf_module_findbyname (Some ourmodule) (Some n) ml of None \<Rightarrow> Some (as1, st)
              | Some pmod \<Rightarrow> map_option snd (helpiter mal modname mtop ourmodule pmod (as1, st)))
           | None \<Rightarrow> naf_module_iter (Some (helpiter mal modname mtop)) (Some ourmodule) ml (as1, st))) = Some (as2, st2) \<and>
        tree_ext as1 as2 \<and> good st2"
    proof (cases p)
      case None
      then show ?thesis using assms(3) by simp
    next
      case (Some mtop)
      then have h: "args_at mtop as1 \<noteq> None" using p by simp
      have "\<exists>as' st'. module_iter_loop (helpiter mal modname mtop) ourmodule ml (as1, st) = Some (as', st') \<and> tree_ext as1 as' \<and> good st'"
        by (rule module_iter_fills [where mtop = mtop]) (use helpiter_ok [where good = good] rpi h assms(3) in blast)+
      with helpiter_ok [OF h, of good st mal modname ourmodule] rpi assms(3) Some show ?thesis
        by (fastforce simp: naf_module_iter_def split: option.splits)
    qed
    then obtain as2 st2 where 2: "(case p of None \<Rightarrow> Some (as1, st)
        | Some mtop \<Rightarrow> (case name of Some n \<Rightarrow>
             (case naf_module_findbyname (Some ourmodule) (Some n) ml of None \<Rightarrow> Some (as1, st)
              | Some pmod \<Rightarrow> map_option snd (helpiter mal modname mtop ourmodule pmod (as1, st)))
           | None \<Rightarrow> naf_module_iter (Some (helpiter mal modname mtop)) (Some ourmodule) ml (as1, st))) = Some (as2, st2)"
      "tree_ext as1 as2" "good st2" by blast
    have "rpc_rpc_help mal ml modname ourmodule req st =
        Some (req\<lparr>rq_returnargs := as2, rq_status := NAF_RPC_STATUS_SUCCESS\<rparr>, st2)"
      unfolding rpc_rpc_help_def Let_def if_not_P [OF False] name p(1) bind.bind_lunit case_prod_conv 2(1) ..
    with p(2) 2(2,3) assms(2) show ?thesis by (auto simp: answered_def dest: tree_extD(1))
  qed
qed

interpretation help_method: rpc_method "\<lambda>_. True" "rpc_rpc_help mal ml modname ourmodule" for mal ml modname ourmodule
  by unfold_locales (rule help_answers; simp)

section \<open>Methods that list modules\<close>

lemma list_modules_answers:
  assumes iter: "\<And>mtop cur as st. args_at mtop as \<noteq> None \<Longrightarrow> good st \<Longrightarrow>
      \<exists>r as' st'. iter mtop md cur (as, st) = Some (r, as', st') \<and> tree_ext as as' \<and> good st'"
    and st: "good st" and req: "tree_ok (rq_inargs req)" "tree_ok (rq_returnargs req)"
  shows "\<exists>req' st'. rpc_list_modules mal ml md iter req st = Some (req', st') \<and> answered req req' \<and> good st'"
proof -
  obtain ma where ma: "string_arg (rq_inargs req) (cstr ''module'') = Some ma" using string_arg_ok [OF req(1)] by blast
  show ?thesis
  proof (cases ma)
    case None
    with ma st req show ?thesis by (simp add: rpc_list_modules_def answered_def)
  next
    case (Some module)
    obtain p as1 where p: "naf_rpc_addarg_array mal [] (cstr ''modules'') (rq_returnargs req) = Some (p, as1)"
      "tree_ext (rq_returnargs req) as1" "\<forall>h. p = Some h \<longrightarrow> args_at h as1 = Some []"
      using addarg_array_ext [of "[]" "rq_returnargs req" mal "cstr ''modules''"] by auto
    have "\<exists>as2 st2. (case p of None \<Rightarrow> Some (as1, st)
        | Some mtop \<Rightarrow> (case module of Some n \<Rightarrow>
             (case naf_module_findbyname (Some md) (Some n) ml of None \<Rightarrow> Some (as1, st)
              | Some pmod \<Rightarrow> map_option snd (iter mtop md pmod (as1, st)))
           | None \<Rightarrow> naf_module_iter (Some (iter mtop)) (Some md) ml (as1, st))) = Some (as2, st2) \<and>
        tree_ext as1 as2 \<and> good st2"
    proof (cases p)
      case None
      then show ?thesis using st by simp
    next
      case (Some mtop)
      then have h: "args_at mtop as1 \<noteq> None" using p by simp
      have "\<exists>as' st'. module_iter_loop (iter mtop) md ml (as1, st) = Some (as', st') \<and> tree_ext as1 as' \<and> good st'"
        by (rule module_iter_fills [where mtop = mtop]) (use iter h st in \<open>blast+\<close>)
      with iter [OF h st] Some st show ?thesis
        by (fastforce simp: naf_module_iter_def split: option.splits)
    qed
    then obtain as2 st2 where "rpc_list_modules mal ml md iter req st =
        Some (req\<lparr>rq_returnargs := as2, rq_status := NAF_RPC_STATUS_SUCCESS\<rparr>, st2)" "tree_ext as1 as2" "good st2"
      using Some ma p(1) by (fastforce simp: rpc_list_modules_def)
    with p(2) req(2) show ?thesis by (auto simp: answered_def dest: tree_extD(1))
  qed
qed

end
