(* ===== verification/Oscar.thy ===== *)
theory Oscar
  imports FlapIn Rpc
begin

text \<open>
  The module of \<^verbatim>\<open>timps/oscar/oscar.c\<close>: the routing handler and the output function it registers
  with the message router, the destructor of its tags, the callbacks for ready connections, the
  keepalive timer; and the router closed over them.
\<close>

section \<open>Routing\<close>

text \<open>\<open>n\<close> is read through the node pointers of the handler info.\<close>

definition toscar_msgrouting ::
    "nafmod \<Rightarrow> gnrmsg \<Rightarrow> gnrmsg_handler_info \<Rightarrow> gnr_state \<Rightarrow> (int \<times> gnrmsg) option" where
  "toscar_msgrouting md gm gmhi st =
     (case (hi_srcnode gmhi, hi_destnode gmhi) of
        (Some s, Some d) \<Rightarrow> do {
          dn \<leftarrow> node_at d st;
          if gn_metric dn = GNR_NODE_METRIC_LOCAL \<and> gn_ownermod dn = md
          then Some (1, gm\<lparr>gm_routeflags := gm_routeflags gm OR GNR_MSG_ROUTEFLAG_ROUTED_LOCAL\<rparr>)
          else do {
            sn \<leftarrow> node_at s st;
            if gn_metric sn = GNR_NODE_METRIC_LOCAL \<and> gn_ownermod sn = md
            then Some (1, gm\<lparr>gm_routeflags := gm_routeflags gm OR GNR_MSG_ROUTEFLAG_ROUTED_FORWARD\<rparr>)
            else Some (0, gm)
          }
        }
      | _ \<Rightarrow> Some (0, gm))"

definition toscar_gnroutputfunc ::
    "'nb oenv \<Rightarrow> gnrmsg \<Rightarrow> gnrmsg_handler_info \<Rightarrow> 'nb ostate \<Rightarrow> (int \<times> gnrmsg \<times> 'nb ostate) option" where
  "toscar_gnroutputfunc e gm gmhi st = do {
     d \<leftarrow> hi_destnode gmhi;
     dn \<leftarrow> node_at d (os_gnr st);
     if gn_metric dn = GNR_NODE_METRIC_LOCAL
     then do {
       (conn, st) \<leftarrow> toscar__findconn e (gn_name dn) st;
       case conn of
         None \<Rightarrow> Some (-1, gm, st)
       | Some a \<Rightarrow> do {
           c \<leftarrow> cs_conns st a;
           (_, gm, st) \<leftarrow> toscar_icbm_sendincoming e (c_endpoint c) gm st;
           Some (0, gm, st)
         }
     }
     else do {
       s \<leftarrow> hi_srcnode gmhi;
       sn \<leftarrow> node_at s (os_gnr st);
       if gn_metric sn = GNR_NODE_METRIC_LOCAL
       then do {
         (conn, st) \<leftarrow> toscar__findconn e (gn_name sn) st;
         case conn of
           None \<Rightarrow> Some (-1, gm, st)
         | Some a \<Rightarrow> do {
             (_, st) \<leftarrow> toscar_icbm_sendoutgoing e (Some a) gm st;
             Some (0, gm, st)
           }
       }
       else Some (0, gm, st)
     }
   }"

section \<open>The router closed over the module\<close>

text \<open>The addresses of the three functions that this program registers with the router. The world of
  the router carries the rest of the state; it is \<open>None\<close> after a fault.\<close>

definition FID_postrouting :: nat where "FID_postrouting = 1"
definition FID_msgrouting :: nat where "FID_msgrouting = 2"
definition FID_outputfunc :: nat where "FID_outputfunc = 3"

definition oscar_call :: "'nb oenv \<Rightarrow> nat \<Rightarrow> 'nb ostate option handler" where
  "oscar_call e f md stage gm hi w =
     (if f = FID_msgrouting
      then (case toscar_msgrouting md gm hi (fst w) of
              None \<Rightarrow> (0, gm, hi, (fst w, None))
            | Some (r, gm) \<Rightarrow> (r, gm, hi, w))
      else if f = FID_postrouting
      then (case gnr_node__msg_postrouting (oe_now e) gm hi (fst w) of
              None \<Rightarrow> (0, gm, hi, (fst w, None))
            | Some (r, g) \<Rightarrow> (r, gm, hi, (g, snd w)))
      else (0, gm, hi, w))"

definition oscar_outp ::
    "'nb oenv \<Rightarrow> nat \<Rightarrow> nafmod \<Rightarrow> gnrmsg \<Rightarrow> gnrmsg_handler_info \<Rightarrow> 'nb ostate option world \<Rightarrow> gnrmsg \<times> 'nb ostate option world" where
  "oscar_outp e f md gm hi w =
     (case snd w of
        None \<Rightarrow> (gm, w)
      | Some st \<Rightarrow>
          if f = FID_outputfunc
          then (case toscar_gnroutputfunc e gm hi (st\<lparr>os_gnr := fst w\<rparr>) of
                  None \<Rightarrow> (gm, (fst w, None))
                | Some (r, gm, st) \<Rightarrow> (gm, (os_gnr st, Some st)))
          else (gm, w))"

definition oscar_route ::
    "'nb oenv \<Rightarrow> nafmod option \<Rightarrow> (nafmod \<Rightarrow> taglist) \<Rightarrow> msghandlers \<Rightarrow> 'nb router" where
  "oscar_route e gnr_module modtags hs gm st =
     (case gnr_msg_route (oscar_call e) (oscar_outp e) gnr_module modtags hs (oe_mod e) (Some gm)
             (os_gnr st, Some st) of
        (r, Some gm, (g, Some st)) \<Rightarrow> Some (gm, st\<lparr>os_gnr := g\<rparr>)
      | _ \<Rightarrow> None)"

section \<open>Callbacks\<close>

text \<open>\<^verbatim>\<open>freetag\<close> on a connection: only the screen name has an effect beyond releasing memory. Its
  node goes offline unless the user has another client.\<close>

definition freetag :: "'nb oenv \<Rightarrow> nat \<Rightarrow> bytes \<Rightarrow> tagdata \<Rightarrow> 'nb ostate \<Rightarrow> 'nb ostate option" where
  "freetag e object tagname tagdata st =
     (if tagname = cstr ''conn.screenname''
      then do {
        sno \<leftarrow> as_str tagdata;
        case gnr_node_findbyname sno (Some OSCARSERVICE) (os_gnr st) of
          None \<Rightarrow> Some st
        | Some node \<Rightarrow> do {
            sn \<leftarrow> sno;
            (other, st) \<leftarrow> toscar__userhasotherclient e sn object st;
            if other then Some st
            else do {
              (_, g) \<leftarrow> gnr_node_offline (gn_addr node) 2 (os_gnr st);
              Some (st\<lparr>os_gnr := g\<rparr>)
            }
          }
      }
      else Some st)"

abbreviation (input) NAF_CONN_READY_READ :: naf_u16_t where "NAF_CONN_READY_READ \<equiv> 0x0001"
abbreviation (input) NAF_CONN_READY_WRITE :: naf_u16_t where "NAF_CONN_READY_WRITE \<equiv> 0x0002"

definition connready ::
    "'nb oenv \<Rightarrow> 'nb router \<Rightarrow> nat \<Rightarrow> naf_u16_t \<Rightarrow> 'nb ostate \<Rightarrow> (int \<times> 'nb ostate) option" where
  "connready e route conn what st = do {
     (r, st) \<leftarrow> (if what AND NAF_CONN_READY_READ \<noteq> 0 then toscar_flap_handleread e route conn st else Some (0, st));
     if r = -1 then Some (-1, st)
     else do {
       (r, st) \<leftarrow> (if what AND NAF_CONN_READY_WRITE \<noteq> 0 then toscar_flap_handlewrite e conn st else Some (0, st));
       if r = -1 then Some (-1, st) else Some (0, st)
     }
   }"

text \<open>\<^verbatim>\<open>conn->lasttx_soft\<close> is updated by the nop; \<^verbatim>\<open>conn->lasttx_hard\<close> is not.\<close>

definition toscar__keepalive_matcher ::
    "'nb oenv \<Rightarrow> nat \<Rightarrow> 'nb ostate \<Rightarrow> (bool \<times> 'nb ostate) option" where
  "toscar__keepalive_matcher e a st = do {
     c \<leftarrow> cs_conns st a;
     if c_type c AND NAF_CONN_TYPE_FLAP = 0 \<or> c_type c AND NAF_CONN_TYPE_SERVER = 0 then Some (False, st)
     else if c_flags c AND TOSCAR_FLAG_READY = 0 then Some (False, st)
     else do {
       (_, st) \<leftarrow> (if oe_now e - c_lasttx_soft c > oe_keepalive e
                   then toscar_flap_sendnop e (Some a) st else Some (0, st));
       (_, st) \<leftarrow> (if oe_now e - c_lasttx_hard c > oe_txtimeout e
                   then naf_conn_schedulekill (oe_nb e) (Some a) st else Some (0, st));
       Some (False, st)
     }
   }"

definition timerhandler :: "'nb oenv \<Rightarrow> 'nb ostate \<Rightarrow> 'nb ostate option" where
  "timerhandler e st = do {
     let st = st\<lparr>os_ckcache := toscar_ckcache_timer (oe_now e) (os_ckcache st)\<rparr>;
     (_, st) \<leftarrow> naf_conn_find (oe_nb e) (toscar__keepalive_matcher e) st;
     Some st
   }"

text \<open>\<^verbatim>\<open>modinit\<close>: the output function, the routing handler at position 75 and the remote method, and
  \<^verbatim>\<open>modshutdown\<close>, which takes them back. The function of the method is at address 15.\<close>

abbreviation (input) FID_disconnectuser :: nat where "FID_disconnectuser \<equiv> 15"

definition modinit ::
    "'nb oenv \<Rightarrow> nafmod option \<Rightarrow> taglist \<Rightarrow> msghandlers \<Rightarrow> 'r rpcstate_scheme \<Rightarrow>
     (int \<times> taglist \<times> msghandlers \<times> 'r rpcstate_scheme) option" where
  "modinit e gnr_module modtags hs rs =
     (let (r, modtags) = gnr_msg_register (oe_mal e) gnr_module (Some (oe_mod e)) (Some FID_outputfunc) modtags
      in if r = -1 then Some (-1, modtags, hs, rs)
         else do {
           (_, hs) \<leftarrow> gnr_msg_addmsghandler (oe_mal e) (oe_mod e) STAGE_ROUTING 75 FID_msgrouting
                        (cstr ''Route AIM/OSCAR messages'') hs;
           let (_, rs) = naf_rpc_register_method (oe_mal e) (oe_mod e) (cstr ''disconnectuser'') FID_disconnectuser
                           (Some (cstr ''Forcefully disconnect an OSCAR user'')) rs;
           Some (0, modtags, hs, rs)
         })"

definition modshutdown ::
    "'nb oenv \<Rightarrow> nafmod option \<Rightarrow> taglist \<Rightarrow> msghandlers \<Rightarrow> 'r rpcstate_scheme \<Rightarrow>
     (int \<times> taglist \<times> msghandlers \<times> 'r rpcstate_scheme) option" where
  "modshutdown e gnr_module modtags hs rs = do {
     let (_, rs) = naf_rpc_unregister_method (oe_mal e) (oe_mod e) (cstr ''disconnectuser'') rs;
     (_, hs) \<leftarrow> gnr_msg_remmsghandler STAGE_ROUTING FID_msgrouting hs;
     let (_, modtags) = gnr_msg_unregister gnr_module modtags;
     Some (0, modtags, hs, rs)
   }"

section \<open>Searching by screen name\<close>

text \<open>The connection to the server of a screen name, as a predicate that cannot fault. A state is
  searchable for a name when no connection in the list makes the matcher fault: dangling
  entries, tags of the wrong kind, and the overrun of \<^verbatim>\<open>toscar_sncmp\<close> on two names with
  trailing spaces.\<close>

definition server_conn :: "'nb oenv \<Rightarrow> bytes \<Rightarrow> 'nb ostate \<Rightarrow> nat \<Rightarrow> bool" where
  "server_conn e sn st a \<longleftrightarrow> map_option fst (toscar__findconn__matcher e sn a st) = Some True"

definition searchable :: "'nb oenv \<Rightarrow> bytes \<Rightarrow> 'nb ostate \<Rightarrow> bool" where
  "searchable e sn st \<longleftrightarrow> (\<forall>a \<in> set (nb_fdlist (oe_nb e) (cs_nb st)). toscar__findconn__matcher e sn a st \<noteq> None)"

text \<open>What the matcher finds, on the connection alone.\<close>

definition findconn_test :: "'nb oenv \<Rightarrow> bytes \<Rightarrow> nat \<Rightarrow> 'nb ostate \<Rightarrow> bool option" where
  "findconn_test e sn a st = map_option fst (toscar__findconn__matcher e sn a st)"

lemma findconn_matcher_test:
  "toscar__findconn__matcher e sn a st = map_option (\<lambda>b. (b, st)) (findconn_test e sn a st)"
proof -
  have "toscar__findconn__matcher e sn a st = map_option (\<lambda>p. (fst p, st)) (toscar__findconn__matcher e sn a st)"
  proof (cases "cs_conns st a")
    case (Some c)
    show ?thesis
    proof (cases "conn_screenname e (Some a) st")
      case (Some sno)
      with \<open>cs_conns st a = Some c\<close> show ?thesis
        by (cases sno; cases "toscar_sncmp sn (the sno)") (simp_all add: toscar__findconn__matcher_def)
    qed (simp add: toscar__findconn__matcher_def \<open>cs_conns st a = Some c\<close>)
  qed (simp add: toscar__findconn__matcher_def)
  then show ?thesis by (simp add: findconn_test_def option.map_comp comp_def)
qed

lemma findconn_matcher_eq:
  "toscar__findconn__matcher e sn a st \<noteq> None \<Longrightarrow>
     toscar__findconn__matcher e sn a st = Some (server_conn e sn st a, st)"
  unfolding server_conn_def by (subst findconn_matcher_test) (auto simp: findconn_test_def)

lemma findconn_is_find:
  "searchable e sn st \<Longrightarrow>
     toscar__findconn e sn st = Some (List.find (server_conn e sn st) (nb_fdlist (oe_nb e) (cs_nb st)), st)"
  unfolding toscar__findconn_def naf_conn_find_def searchable_def
  by (rule conn_find_loop_pure) (blast intro: findconn_matcher_eq)

text \<open>The search reads the connections only.\<close>

lemma findconn_test_gnr: "findconn_test e sn a (st\<lparr>os_gnr := g\<rparr>) = findconn_test e sn a st"
proof -
  have sno: "conn_screenname e (Some a) (st\<lparr>os_gnr := g\<rparr>) = conn_screenname e (Some a) st"
    by (simp add: conn_screenname_def naf_conn_tag_fetch_def)
  show ?thesis
  proof (cases "cs_conns st a")
    case (Some c)
    show ?thesis
    proof (cases "conn_screenname e (Some a) st")
      case (Some sno')
      with sno \<open>cs_conns st a = Some c\<close> show ?thesis
        by (cases sno'; cases "toscar_sncmp sn (the sno')") (simp_all add: toscar__findconn__matcher_def findconn_test_def)
    qed (simp add: toscar__findconn__matcher_def findconn_test_def sno \<open>cs_conns st a = Some c\<close>)
  qed (simp add: toscar__findconn__matcher_def findconn_test_def)
qed

lemma findconn_gnr:
  assumes "searchable e sn st"
  shows "toscar__findconn e sn (st\<lparr>os_gnr := g\<rparr>) =
    Some (List.find (server_conn e sn st) (nb_fdlist (oe_nb e) (cs_nb st)), st\<lparr>os_gnr := g\<rparr>)"
proof -
  have "toscar__findconn__matcher e sn a (st\<lparr>os_gnr := g\<rparr>) = None \<longleftrightarrow> toscar__findconn__matcher e sn a st = None" for a
    by (simp only: findconn_matcher_test findconn_test_gnr option.map_disc_iff)
  then have "searchable e sn (st\<lparr>os_gnr := g\<rparr>)" using assms by (simp add: searchable_def)
  moreover have "server_conn e sn (st\<lparr>os_gnr := g\<rparr>) = server_conn e sn st"
    by (rule ext) (simp add: server_conn_def findconn_test_def [symmetric] findconn_test_gnr)
  ultimately show ?thesis using findconn_is_find by fastforce
qed

section \<open>Routing over the module\<close>

text \<open>The handlers this program installs: the routing handler of this module, and the one of the
  node table after it.\<close>

definition proxy_handlers :: "nafmod \<Rightarrow> msghandlers \<Rightarrow> bool" where
  "proxy_handlers md hs \<longleftrightarrow> (\<exists>rt pt. hs = [[], [rt], [pt]] \<and>
     mh_handlerfunc rt = FID_msgrouting \<and> mh_module rt = md \<and> mh_handlerfunc pt = FID_postrouting)"

text \<open>Both nodes are marked as used.\<close>

definition both_used :: "int \<Rightarrow> nat \<Rightarrow> nat \<Rightarrow> gnr_state \<Rightarrow> gnr_state" where
  "both_used now s d g = node_update d (\<lambda>n. n\<lparr>gn_lastuse := now\<rparr>) (node_update s (\<lambda>n. n\<lparr>gn_lastuse := now\<rparr>) g)"

lemma postrouting_used:
  assumes "ISROUTED (gm_routeflags gm)" "hi_srcnode hi = Some s" "hi_destnode hi = Some d"
    and "node_at s g = Some sn" "node_at d g = Some dn"
  shows "gnr_node__msg_postrouting now gm hi g = Some (0, both_used now s d g)"
  using assms by (simp add: gnr_node__msg_postrouting_def gnr_node_usehit_def both_used_def node_at_after_update)

lemma node_at_both_used:
  "node_at a (both_used now s d g) =
     map_option (\<lambda>gn. if gn_addr gn = s \<or> gn_addr gn = d then gn\<lparr>gn_lastuse := now\<rparr> else gn) (node_at a g)"
  by (cases "node_at a g") (simp_all add: both_used_def node_at_after_update)

lemma gnr_inv_used: "gnr_inv g \<Longrightarrow> gnr_inv (node_update a (\<lambda>n. n\<lparr>gn_lastuse := now\<rparr>) g)"
  by (rule gnr_inv_node_update) (auto dest: nodes_okD(4) [OF gnr_invD(3)] nodes_okD(5) [OF gnr_invD(3)])

lemma gnr_inv_both_used: "gnr_inv g \<Longrightarrow> gnr_inv (both_used now s d g)"
  unfolding both_used_def by (intro gnr_inv_used)

lemma isrouted_or: "ISROUTED (x OR 1)" "ISROUTED (x OR 4)"
proof -
  have "bit ((x OR 1) AND 0x000f) 0" "bit ((x OR 4) AND 0x000f) 2" by (simp_all add: bit_simps)
  then have "(x OR 1) AND 0x000f \<noteq> 0" "(x OR 4) AND 0x000f \<noteq> 0" by (metis bit_0_eq bot_apply bot_bool_def)+
  then show "ISROUTED (x OR 1)" "ISROUTED (x OR 4)" by (simp_all add: ISROUTED_def)
qed

text \<open>One pass of the router for a message that the module takes, up to the output function.\<close>

lemma oscar_route_taken:
  assumes hs: "proxy_handlers (oe_mod e) hs"
    and outf: "fetch_outputfunc gnr_module (modtags (oe_mod e)) = Some FID_outputfunc"
    and gm: "gm_srcname gm = Some src" "gm_srcnameservice gm = Some ss" "gm_destname gm = Some dest" "gm_destnameservice gm = Some ds"
    and nodes: "gnr_node_findbyname (Some src) (Some ss) (os_gnr st) = Some sn"
      "gnr_node_findbyname (Some dest) (Some ds) (os_gnr st) = Some dn"
      "node_at (gn_addr sn) (os_gnr st) = Some sn" "node_at (gn_addr dn) (os_gnr st) = Some dn"
    and taken: "toscar_msgrouting (oe_mod e) gm \<lparr>hi_srcmod = oe_mod e, hi_destconn = None, hi_targetmod = None,
        hi_srcnode = Some (gn_addr sn), hi_destnode = Some (gn_addr dn)\<rparr> (os_gnr st) = Some (1, gm')"
      "ISROUTED (gm_routeflags gm')"
  shows "oscar_route e gnr_module modtags hs gm st = do {
    (_, gm, st) \<leftarrow> toscar_gnroutputfunc e gm' \<lparr>hi_srcmod = oe_mod e, hi_destconn = None,
      hi_targetmod = Some (oe_mod e), hi_srcnode = Some (gn_addr sn), hi_destnode = Some (gn_addr dn)\<rparr>
      (st\<lparr>os_gnr := both_used (oe_now e) (gn_addr sn) (gn_addr dn) (os_gnr st)\<rparr>);
    Some (gm, st) }"
proof -
  obtain rt pt where hs': "hs = [[], [rt], [pt]]" "mh_handlerfunc rt = FID_msgrouting" "mh_module rt = oe_mod e"
    "mh_handlerfunc pt = FID_postrouting" using hs by (auto simp: proxy_handlers_def)
  have post: "gnr_node__msg_postrouting (oe_now e) gm' \<lparr>hi_srcmod = oe_mod e, hi_destconn = None,
      hi_targetmod = Some (oe_mod e), hi_srcnode = Some (gn_addr sn), hi_destnode = Some (gn_addr dn)\<rparr> (os_gnr st) =
      Some (0, both_used (oe_now e) (gn_addr sn) (gn_addr dn) (os_gnr st))"
    by (rule postrouting_used) (use taken(2) nodes(3,4) in simp_all)
  show ?thesis
    unfolding oscar_route_def gnr_msg_route_def
    using gm nodes(1,2) taken(1) outf post
    by (simp add: hs' oscar_call_def oscar_outp_def FID_msgrouting_def FID_postrouting_def numeral_2_eq_2 Let_def
        split: option.splits)
qed

lemma findbyname_at:
  assumes "gnr_inv g" "gnr_node_findbyname (Some n) sv g = Some gn"
  shows "node_at (gn_addr gn) g = Some gn"
  using findbyname_Some [OF assms(2)] node_at_iff [OF assms(1)] by blast

lemma online_unknown:
  assumes "gnr_inv st" "total_alloc mal" "gnr_node_findbyname (Some n) (Some s) st = None"
  shows "\<exists>gn st'. gnr_node_online mal now (Some own) (Some n) (Some s) flags metric st = (Some gn, st') \<and>
    gn_name gn = n \<and> gn_service gn = s \<and> gn_metric gn = metric \<and> gn_ownermod gn = own \<and>
    mset (all_nodes st') = mset (gn # all_nodes st)"
  using gnr_node_online_found [OF assms(1,2), of now own n s flags metric 0 0 0 0]
  unfolding assms(3) by (simp only: if_True simp_thms) blast

text \<open>A table with two nodes, for witnesses.\<close>

lemma two_nodes:
  fixes m1 m2 :: int
  obtains g a b where "gnr_inv g"
    "gnr_node_findbyname (Some [97, 110, 110]) (Some OSCARSERVICE) g = Some a"
    "gnr_node_findbyname (Some [98, 111, 98]) (Some OSCARSERVICE) g = Some b"
    "gn_metric a = m1" "gn_ownermod a = 7" "gn_name a = [97, 110, 110]"
    "gn_metric b = m2" "gn_ownermod b = 7" "gn_name b = [98, 111, 98]"
proof -
  have inv0: "gnr_inv gnr_empty" by (rule gnr_reachable_inv [OF gnr_empty_reachable])
  have z: "total_alloc zero_alloc" by simp
  have empty: "all_nodes gnr_empty = []" by (simp add: gnr_empty_def all_nodes_def gnr_node__hash_init_def)
  have none: "gnr_node_findbyname n sv gnr_empty = None" for n sv
    by (cases n) (simp add: gnr_node_findbyname_def, simp only: findbyname_None [OF inv0] empty, simp)
  obtain a g1 where 1: "gnr_node_online zero_alloc 0 (Some 7) (Some [97, 110, 110]) (Some OSCARSERVICE) 0 m1 gnr_empty = (Some a, g1)"
    "gn_name a = [97, 110, 110]" "gn_service a = OSCARSERVICE" "gn_metric a = m1" "gn_ownermod a = 7"
    "mset (all_nodes g1) = mset (a # all_nodes gnr_empty)"
    using online_unknown [OF inv0 z none , where own = 7 and metric = m1
      and now = 0 and flags = 0] by blast
  have inv1: "gnr_inv g1" using gnr_inv_online [OF inv0] 1(1) by (metis snd_conv)
  have set1: "set (all_nodes g1) = {a}" using 1(6) empty by (metis list.simps(15) mset_eq_setD empty_set)
  have "gnr_node_findbyname (Some [98, 111, 98]) (Some OSCARSERVICE) g1 = None"
    using 1(2) by (simp add: findbyname_None [OF inv1] set1 node_matches_def toupper_def)
  note none1 = this
  obtain b g2 where 2: "gnr_node_online zero_alloc 0 (Some 7) (Some [98, 111, 98]) (Some OSCARSERVICE) 0 m2 g1 = (Some b, g2)"
    "gn_name b = [98, 111, 98]" "gn_service b = OSCARSERVICE" "gn_metric b = m2" "gn_ownermod b = 7"
    "mset (all_nodes g2) = mset (b # all_nodes g1)"
    using online_unknown [OF inv1 z none1 , where own = 7 and metric = m2
      and now = 0 and flags = 0] by blast
  have inv2: "gnr_inv g2" using gnr_inv_online [OF inv1] 2(1) by (metis snd_conv)
  have set2: "set (all_nodes g2) = {a, b}" using 2(6) set1 by (metis insert_commute list.simps(15) mset_eq_setD)
  have found: "gnr_node_findbyname (Some [97, 110, 110]) (Some OSCARSERVICE) g2 = Some a"
    "gnr_node_findbyname (Some [98, 111, 98]) (Some OSCARSERVICE) g2 = Some b"
    using 1 2 by (simp_all add: findbyname_iff [OF inv2] set2 node_matches_def strcasecmp_eq_def)
  show thesis by (rule that [OF inv2 found 1(4,5,2) 2(4,5,2)])
qed

section \<open>Keepalives\<close>

text \<open>A connection that is due a keepalive: a ready one to the server, on which nothing was queued for
  longer than the interval.\<close>

definition keepalive_due :: "'nb oenv \<Rightarrow> nafconn \<Rightarrow> bool" where
  "keepalive_due e c \<longleftrightarrow> c_type c AND NAF_CONN_TYPE_FLAP \<noteq> 0 \<and> c_type c AND NAF_CONN_TYPE_SERVER \<noteq> 0 \<and>
     c_flags c AND TOSCAR_FLAG_READY \<noteq> 0 \<and> oe_now e - c_lasttx_soft c > oe_keepalive e"

definition after_keepalive :: "'nb oenv \<Rightarrow> nafconn \<Rightarrow> nafconn" where
  "after_keepalive e c =
     (if keepalive_due e c then c\<lparr>c_lasttx_soft := oe_now e, c_nextseqnum := c_nextseqnum c + 1\<rparr> else c)"

definition keepalive_frames :: "'nb oenv \<Rightarrow> nafconn \<Rightarrow> bytes list" where
  "keepalive_frames e c = (if keepalive_due e c then [flap_frame 0x05 (c_nextseqnum c) []] else [])"

definition kill_keeps :: "('nb, 'r) nbio_ops_scheme \<Rightarrow> ('nb \<Rightarrow> nat \<Rightarrow> bytes list) \<Rightarrow> bool" where
  "kill_keeps nb q \<longleftrightarrow> (\<forall>fdt s. q (snd (nb_setcloseonflush nb fdt s)) = q s)"

lemma keepalive_step:
  assumes mal: "total_alloc (oe_mal e)" and q: "tx_queues (oe_nb e) q" "tx_accepts (oe_nb e)" "kill_keeps (oe_nb e) q"
    and c: "cs_conns st a = Some c" "c_fdt c = Some fdt"
  obtains st' where "toscar__keepalive_matcher e a st = Some (False, st')"
    "cs_conns st' = (cs_conns st)(a \<mapsto> after_keepalive e c)"
    "q (cs_nb st') = (q (cs_nb st))(fdt := q (cs_nb st) fdt @ keepalive_frames e c)"
proof -
  obtain st1 where 1: "(if oe_now e - c_lasttx_soft c > oe_keepalive e then toscar_flap_sendnop e (Some a) st else Some (0, st)) = Some (0, st1)"
    "cs_conns st1 = (cs_conns st)(a \<mapsto> (if oe_now e - c_lasttx_soft c > oe_keepalive e
       then c\<lparr>c_lasttx_soft := oe_now e, c_nextseqnum := c_nextseqnum c + 1\<rparr> else c))"
    "q (cs_nb st1) = (q (cs_nb st))(fdt := q (cs_nb st) fdt @ (if oe_now e - c_lasttx_soft c > oe_keepalive e
       then [flap_frame 0x05 (c_nextseqnum c) []] else []))"
  proof (cases "oe_now e - c_lasttx_soft c > oe_keepalive e")
    case True
    obtain r where nop: "toscar_flap_sendnop e (Some a) st = send_frame e a 0x05 [] r st"
      using packet_frames(1) [OF mal, of "[]"] by auto
    show thesis by (rule send_frame_queue [OF q(1,2) c, of 5 "[]" r]) (simp add: that True nop)
  next
    case False
    then show thesis using c by (intro that [of st]) (simp_all add: fun_upd_idem)
  qed
  obtain r st2 where 2: "(if oe_now e - c_lasttx_hard c > oe_txtimeout e then naf_conn_schedulekill (oe_nb e) (Some a) st1 else Some (0, st1)) =
      Some (r, st2)"
    "cs_conns st2 = cs_conns st1" "q (cs_nb st2) = q (cs_nb st1)"
  proof -
    have "\<exists>c'. cs_conns st1 a = Some c' \<and> c_fdt c' = Some fdt" using 1(2) c(2) by simp
    then have "naf_conn_schedulekill (oe_nb e) (Some a) st1 =
        Some (fst (nb_setcloseonflush (oe_nb e) fdt (cs_nb st1)), st1\<lparr>cs_nb := snd (nb_setcloseonflush (oe_nb e) fdt (cs_nb st1))\<rparr>)"
      by (auto simp: naf_conn_schedulekill_def case_prod_beta)
    then show thesis using q(3) by (cases "oe_now e - c_lasttx_hard c > oe_txtimeout e") (auto simp: kill_keeps_def intro: that)
  qed
  show thesis
  proof (cases "c_type c AND NAF_CONN_TYPE_FLAP = 0 \<or> c_type c AND NAF_CONN_TYPE_SERVER = 0 \<or> c_flags c AND TOSCAR_FLAG_READY = 0")
    case True
    then have "\<not> keepalive_due e c" by (auto simp: keepalive_due_def)
    with True c show thesis
      by (intro that [of st]) (auto simp: toscar__keepalive_matcher_def after_keepalive_def keepalive_frames_def fun_upd_idem)
  next
    case False
    have due: "keepalive_due e c \<longleftrightarrow> oe_now e - c_lasttx_soft c > oe_keepalive e" using False by (simp add: keepalive_due_def)
    have "toscar__keepalive_matcher e a st = Some (False, st2)"
      using False
      by (simp only: toscar__keepalive_matcher_def c(1) Option.bind.simps de_Morgan_disj if_False simp_thms 1(1) 2(1) prod.case)
    then show thesis
      by (rule that) (simp_all add: 1(2,3) 2(2,3) after_keepalive_def keepalive_frames_def due)
  qed
qed

lemma keepalive_loop:
  assumes mal: "total_alloc (oe_mal e)" and q: "tx_queues (oe_nb e) q" "tx_accepts (oe_nb e)" "kill_keeps (oe_nb e) q"
    and conns: "distinct as" "\<And>a. a \<in> set as \<Longrightarrow> cs_conns st a = Some (cf a) \<and> c_fdt (cf a) = Some (fd a)" "inj_on fd (set as)"
  shows "\<exists>st'. conn_find_loop (toscar__keepalive_matcher e) as st = Some (None, st') \<and>
    (\<forall>a \<in> set as. cs_conns st' a = Some (after_keepalive e (cf a)) \<and>
       q (cs_nb st') (fd a) = q (cs_nb st) (fd a) @ keepalive_frames e (cf a)) \<and>
    (\<forall>f. f \<notin> fd ` set as \<longrightarrow> q (cs_nb st') f = q (cs_nb st) f) \<and> (\<forall>a. a \<notin> set as \<longrightarrow> cs_conns st' a = cs_conns st a)"
  using conns
proof (induction as arbitrary: st)
  case (Cons a as)
  obtain st1 where 1: "toscar__keepalive_matcher e a st = Some (False, st1)"
    "cs_conns st1 = (cs_conns st)(a \<mapsto> after_keepalive e (cf a))"
    "q (cs_nb st1) = (q (cs_nb st))(fd a := q (cs_nb st) (fd a) @ keepalive_frames e (cf a))"
    by (rule keepalive_step [OF mal q, of st a "cf a" "fd a"]) (use Cons.prems(2) in auto)
  have same: "cs_conns st1 b = cs_conns st b" if "b \<in> set as" for b using that Cons.prems(1) 1(2) by auto
  obtain st2 where 2: "conn_find_loop (toscar__keepalive_matcher e) as st1 = Some (None, st2)"
    "\<forall>a \<in> set as. cs_conns st2 a = Some (after_keepalive e (cf a)) \<and>
       q (cs_nb st2) (fd a) = q (cs_nb st1) (fd a) @ keepalive_frames e (cf a)"
    "\<forall>f. f \<notin> fd ` set as \<longrightarrow> q (cs_nb st2) f = q (cs_nb st1) f" "\<forall>a. a \<notin> set as \<longrightarrow> cs_conns st2 a = cs_conns st1 a"
    using Cons.IH [of st1] Cons.prems same by (auto simp: inj_on_def)
  have new: "fd a \<notin> fd ` set as" using Cons.prems(1,3) by (auto simp: inj_on_def)
  then have "fd b \<noteq> fd a" if "b \<in> set as" for b using that by (metis image_eqI)
  with new have "q (cs_nb st2) (fd b) = q (cs_nb st) (fd b) @ keepalive_frames e (cf b)" if "b \<in> set (a # as)" for b
    using that 1(3) 2(2,3) by (cases "b = a") auto
  moreover have "cs_conns st2 b = Some (after_keepalive e (cf b))" if "b \<in> set (a # as)" for b
    using that 1(2) 2(2,4) Cons.prems(1) by auto
  ultimately show ?case using 1 2 by (intro exI [of _ st2]) auto
qed simp

section \<open>Properties\<close>



text \<open>The user \<^verbatim>\<open>ann\<close> behind the proxy, whose server connection is 5, and a message.\<close>

definition sample_hs :: msghandlers where
  "sample_hs = [[], [\<lparr>mh_position = 75, mh_module = 7, mh_handlerfunc = FID_msgrouting, mh_description = []\<rparr>],
     [\<lparr>mh_position = 0, mh_module = 9, mh_handlerfunc = FID_postrouting, mh_description = []\<rparr>]]"

definition sample_modtags :: "nafmod \<Rightarrow> taglist" where
  "sample_modtags md = [\<lparr>tag_owner = 9, tag_name = cstr ''module.gnrmsg_outputfunc'', tag_type = CHR ''V'',
     tag_data = DPtr FID_outputfunc\<rparr>]"

definition sample_msg :: "bytes \<Rightarrow> bytes \<Rightarrow> gnrmsg" where
  "sample_msg src dest = gnrmsg_zero\<lparr>gm_srcname := Some src, gm_srcnameservice := Some OSCARSERVICE,
     gm_destname := Some dest, gm_destnameservice := Some OSCARSERVICE\<rparr>"

lemma sample_routing:
  "proxy_handlers (oe_mod sample_env) sample_hs"
  "fetch_outputfunc (Some 9) (sample_modtags (oe_mod sample_env)) = Some FID_outputfunc"
  "searchable sample_env [97, 110, 110] (online_state\<lparr>os_gnr := g\<rparr>)"
  "List.find (server_conn sample_env [97, 110, 110] (online_state\<lparr>os_gnr := g\<rparr>))
     (nb_fdlist (oe_nb sample_env) (cs_nb (online_state\<lparr>os_gnr := g\<rparr>))) = Some 5"
proof -
  note defs = online_state_def pair_state_def sample_state_def sample_conn_def conn_screenname_def
    naf_conn_tag_fetch_def naf_tag_fetch_def sample_env_def badname_def cstr_def conn_update_def queue_ops_def
  show "proxy_handlers (oe_mod sample_env) sample_hs" by (simp add: proxy_handlers_def sample_hs_def sample_env_def)
  show "fetch_outputfunc (Some 9) (sample_modtags (oe_mod sample_env)) = Some FID_outputfunc"
    by (simp add: fetch_outputfunc_def sample_modtags_def naf_tag_fetch_def badname_def cstr_def tag_matches_def)
  have cmp: "toscar_sncmp [97, 110, 110] [97, 110, 110] = Some 0" by (simp add: toscar_sncmp_def sncmp_loop.simps Let_def skip_spaces_def)
  have m: "toscar__findconn__matcher sample_env [97, 110, 110] 4 (online_state\<lparr>os_gnr := g\<rparr>) = Some (False, online_state\<lparr>os_gnr := g\<rparr>)"
    "toscar__findconn__matcher sample_env [97, 110, 110] 5 (online_state\<lparr>os_gnr := g\<rparr>) = Some (True, online_state\<lparr>os_gnr := g\<rparr>)"
    using cmp by (simp_all add: toscar__findconn__matcher_def defs)
  have "nb_fdlist (oe_nb sample_env) s = [4, 5]" for s by (simp add: sample_env_def queue_ops_def)
  with m show "searchable sample_env [97, 110, 110] (online_state\<lparr>os_gnr := g\<rparr>)"
    "List.find (server_conn sample_env [97, 110, 110] (online_state\<lparr>os_gnr := g\<rparr>))
     (nb_fdlist (oe_nb sample_env) (cs_nb (online_state\<lparr>os_gnr := g\<rparr>))) = Some 5"
    by (simp_all add: searchable_def server_conn_def, blast)
qed



text \<open>C7. Idle server connections are kept alive: one run of the timer queues exactly one keepalive on
  every ready server connection on which nothing was queued for longer than the interval, nothing on
  any other connection, and restarts the interval of those it served; only cookies older than a
  minute leave the cache.\<close>

theorem keepalive_sent:
  assumes "total_alloc (oe_mal e)" "tx_queues (oe_nb e) q" "tx_accepts (oe_nb e)" "kill_keeps (oe_nb e) q"
    and "distinct (nb_fdlist (oe_nb e) (cs_nb st))" "inj_on fd (set (nb_fdlist (oe_nb e) (cs_nb st)))"
    and "\<And>a. a \<in> set (nb_fdlist (oe_nb e) (cs_nb st)) \<Longrightarrow> cs_conns st a = Some (cf a) \<and> c_fdt (cf a) = Some (fd a)"
  shows "\<exists>st'. timerhandler e st = Some st' \<and>
    (\<forall>a \<in> set (nb_fdlist (oe_nb e) (cs_nb st)).
       q (cs_nb st') (fd a) = q (cs_nb st) (fd a) @
         (if keepalive_due e (cf a) then [flap_frame 0x05 (c_nextseqnum (cf a)) []] else []) \<and>
       (0 \<le> oe_keepalive e \<longrightarrow> (\<exists>c. cs_conns st' a = Some c \<and> \<not> keepalive_due e c)))"
proof -
  let ?st = "st\<lparr>os_ckcache := toscar_ckcache_timer (oe_now e) (os_ckcache st)\<rparr>"
  have idle: "\<not> keepalive_due e (after_keepalive e c)" if "0 \<le> oe_keepalive e" for c
    using that by (simp add: after_keepalive_def) (simp add: keepalive_due_def)
  obtain st' where "conn_find_loop (toscar__keepalive_matcher e) (nb_fdlist (oe_nb e) (cs_nb st)) ?st = Some (None, st')"
    "\<forall>a \<in> set (nb_fdlist (oe_nb e) (cs_nb st)). cs_conns st' a = Some (after_keepalive e (cf a)) \<and>
       q (cs_nb st') (fd a) = q (cs_nb ?st) (fd a) @ keepalive_frames e (cf a)"
    using keepalive_loop [OF assms(1-5), of ?st cf fd] assms(6,7) by auto
  then show ?thesis using idle
    by (intro exI [of _ st']) (simp add: timerhandler_def naf_conn_find_def keepalive_frames_def)
qed

theorem keepalive_sent_witness:
  "\<exists>st'. timerhandler sample_env (conn_update 5 (\<lambda>c. c\<lparr>c_flags := TOSCAR_FLAG_READY\<rparr>) pair_state) = Some st' \<and>
    cs_nb st' 3 = [flap_frame 0x05 65535 []] \<and> cs_nb st' 2 = []"
proof -
  let ?st = "conn_update 5 (\<lambda>c. c\<lparr>c_flags := TOSCAR_FLAG_READY\<rparr>) pair_state"
  let ?cf = "\<lambda>a. the (cs_conns ?st a)" and ?fd = "\<lambda>a :: nat. if a = 4 then 2 else 3"
  note defs = sample_env_def queue_ops_def pair_state_def sample_state_def sample_conn_def conn_update_def
  have fds: "nb_fdlist (oe_nb sample_env) s = [4, 5]" for s by (simp add: sample_env_def queue_ops_def)
  have "\<exists>st'. timerhandler sample_env ?st = Some st' \<and>
    (\<forall>a \<in> set (nb_fdlist (oe_nb sample_env) (cs_nb ?st)).
       cs_nb st' (?fd a) = cs_nb ?st (?fd a) @
         (if keepalive_due sample_env (?cf a) then [flap_frame 0x05 (c_nextseqnum (?cf a)) []] else []) \<and>
       (0 \<le> oe_keepalive sample_env \<longrightarrow> (\<exists>c. cs_conns st' a = Some c \<and> \<not> keepalive_due sample_env c)))"
    by (rule keepalive_sent [where q = "\<lambda>s. s"])
       (auto simp: fds kill_keeps_def sample_env_def, auto simp: defs kill_keeps_def)
  moreover have "keepalive_due sample_env (?cf 5)" "\<not> keepalive_due sample_env (?cf 4)" "c_nextseqnum (?cf 5) = 65535" "cs_nb ?st = (\<lambda>_. [])"
    by (simp_all add: keepalive_due_def defs)
  ultimately show ?thesis by (auto simp: fds)
qed

end
