(* ===== verification/ConnLife.thy ===== *)
theory ConnLife
  imports Modules
begin

text \<open>
  The life of connections, the rest of \<^verbatim>\<open>naf/conn.c\<close>: closing, with everything that hangs on a
  connection, the events of libnbio, finishing a connect, protocol detection and its timeout, the
  listening ports; and \<^verbatim>\<open>naf_childproc_cleanconn\<close> of \<^verbatim>\<open>naf/processes.c\<close>. \<open>ml\<close> is the list of modules,
  through which the owner of a connection is called.
\<close>

section \<open>Closing\<close>

abbreviation (input) NAF_CONN_TYPE_LOCAL :: naf_u32_t where "NAF_CONN_TYPE_LOCAL \<equiv> 0x00040000"

text \<open>The module a pointer to a module stands for.\<close>

definition module_at :: "'s modlist_item list \<Rightarrow> nafmod \<Rightarrow> 's nafmodule option" where
  "module_at ml m = map_option mi_module (List.find (\<lambda>mi. mi_addr mi = m) ml)"

text \<open>The loops that take the queued vectors off a descriptor.\<close>

partial_function (option) drain :: "('nb \<Rightarrow> 'x option \<times> 'nb) \<Rightarrow> 'nb \<Rightarrow> 'nb option" where
  "drain rem n = (if fst (rem n) = None then Some (snd (rem n)) else drain rem (snd (rem n)))"

definition closefdt ::
    "('nb, 'r) nbio_ops_scheme \<Rightarrow> nat option \<Rightarrow> ('nb, 'z) cstate_scheme \<Rightarrow> ('nb, 'z) cstate_scheme option" where
  "closefdt nb fdt st =
     (case fdt of
        None \<Rightarrow> Some st
      | Some f \<Rightarrow> do {
          n \<leftarrow> drain (nb_remtoprxvector nb f) (cs_nb st);
          n \<leftarrow> drain (nb_remtoptxvector nb f) n;
          Some (st\<lparr>cs_nb := nb_closefdt nb f n\<rparr>)
        })"

definition naf_childproc_cleanconn :: "nat \<Rightarrow> ('nb, 'z) cstate_scheme \<Rightarrow> ('nb, 'z) cstate_scheme" where
  "naf_childproc_cleanconn conn st =
     (let clean = (\<lambda>p. if p = Some conn then None else p)
      in st\<lparr>cs_children := map (\<lambda>cp. cp\<lparr>cp_in := clean (cp_in cp), cp_out := clean (cp_out cp),
                                        cp_err := clean (cp_err cp)\<rparr>) (cs_children st)\<rparr>)"

text \<open>The loop that \<^verbatim>\<open>remendpoint\<close> and \<^verbatim>\<open>remchildren\<close> share: \<open>get\<close> reads the link, \<open>clear\<close> sets it to null,
  \<open>kill\<close> is \<^verbatim>\<open>naf_conn_free\<close>. The entry of a connection that is closed meanwhile keeps its place and
  is skipped.\<close>

fun unlink_loop ::
    "('nb, 'r) nbio_ops_scheme \<Rightarrow> (nafconn \<Rightarrow> nat option) \<Rightarrow> (nafconn \<Rightarrow> nafconn)
       \<Rightarrow> (nat \<Rightarrow> ('nb, 'z) cstate_scheme \<Rightarrow> ('nb, 'z) cstate_scheme option) \<Rightarrow> nat
       \<Rightarrow> nat list \<Rightarrow> ('nb, 'z) cstate_scheme \<Rightarrow> ('nb, 'z) cstate_scheme option" where
  "unlink_loop nb get clear kill dead [] st = Some st"
| "unlink_loop nb get clear kill dead (a # as) st =
     (if a \<notin> set (nb_fdlist nb (cs_nb st)) then unlink_loop nb get clear kill dead as st
      else do {
        c \<leftarrow> cs_conns st a;
        if get c = Some dead
        then do {
          let st = conn_update a clear st;
          st \<leftarrow> (if c_type c AND NAF_CONN_TYPE_PROROGUEDEATH = 0 \<and> c_type c AND NAF_CONN_TYPE_LOCAL = 0
                 then kill a st else Some st);
          unlink_loop nb get clear kill dead as st
        }
        else unlink_loop nb get clear kill dead as st
      })"

definition remendpoint ::
    "('nb, 'r) nbio_ops_scheme \<Rightarrow> (nat \<Rightarrow> ('nb, 'z) cstate_scheme \<Rightarrow> ('nb, 'z) cstate_scheme option) \<Rightarrow> nat
       \<Rightarrow> ('nb, 'z) cstate_scheme \<Rightarrow> ('nb, 'z) cstate_scheme option" where
  "remendpoint nb kill dead st =
     (let st = conn_update dead (\<lambda>c. c\<lparr>c_endpoint := None\<rparr>) st
      in unlink_loop nb c_endpoint (\<lambda>c. c\<lparr>c_endpoint := None\<rparr>) kill dead (nb_fdlist nb (cs_nb st)) st)"

definition remchildren ::
    "('nb, 'r) nbio_ops_scheme \<Rightarrow> (nat \<Rightarrow> ('nb, 'z) cstate_scheme \<Rightarrow> ('nb, 'z) cstate_scheme option) \<Rightarrow> nat
       \<Rightarrow> ('nb, 'z) cstate_scheme \<Rightarrow> ('nb, 'z) cstate_scheme option" where
  "remchildren nb kill dead st =
     (let st = conn_update dead (\<lambda>c. c\<lparr>c_parent := None\<rparr>) st
      in unlink_loop nb c_parent (\<lambda>c. c\<lparr>c_parent := None\<rparr>) kill dead (nb_fdlist nb (cs_nb st)) st)"

text \<open>The owners of the tags are told, in list order.\<close>

definition conn_freetags ::
    "('nb, 'z) cstate_scheme modlist_item list \<Rightarrow> nat \<Rightarrow> taglist \<Rightarrow> ('nb, 'z) cstate_scheme
       \<Rightarrow> ('nb, 'z) cstate_scheme option" where
  "conn_freetags ml dead tags st =
     naf_tag_freelist
       (\<lambda>m. map_option (\<lambda>h st name type data. Option.bind st (h m dead name type data))
              (Option.bind (module_at ml m) nm_freetag))
       tags (Some st)"

text \<open>The recursion through the two loops is bounded by \<open>fuel\<close>, the number of connections that may
  still be closed in a row.\<close>

fun conn_free_fuel ::
    "('nb, 'z) cstate_scheme modlist_item list \<Rightarrow> ('nb, 'r) nbio_ops_scheme \<Rightarrow> nat \<Rightarrow> nat
       \<Rightarrow> ('nb, 'z) cstate_scheme \<Rightarrow> ('nb, 'z) cstate_scheme option" where
  "conn_free_fuel ml nb 0 dead st = None"
| "conn_free_fuel ml nb (Suc fuel) dead st = do {
     c \<leftarrow> cs_conns st dead;
     let st = st\<lparr>cs_openconns := cs_openconns st - 1\<rparr>;
     st \<leftarrow> closefdt nb (c_fdt c) st;
     st \<leftarrow> (case c_owner c of
              None \<Rightarrow> Some st
            | Some m \<Rightarrow> do {
                md \<leftarrow> module_at ml m;
                case nm_connkill md of None \<Rightarrow> Some st | Some f \<Rightarrow> f m dead st
              });
     c \<leftarrow> cs_conns st dead;
     st \<leftarrow> conn_freetags ml dead (c_taglist c) st;
     let st = naf_childproc_cleanconn dead st;
     st \<leftarrow> remchildren nb (conn_free_fuel ml nb fuel) dead st;
     st \<leftarrow> remendpoint nb (conn_free_fuel ml nb fuel) dead st;
     Some (st\<lparr>cs_conns := (cs_conns st)(dead := None)\<rparr>)
   }"

text \<open>Every call closes a descriptor, so one more than there are descriptors is enough.\<close>

definition naf_conn_free ::
    "('nb, 'z) cstate_scheme modlist_item list \<Rightarrow> ('nb, 'r) nbio_ops_scheme \<Rightarrow> nat \<Rightarrow> ('nb, 'z) cstate_scheme
       \<Rightarrow> ('nb, 'z) cstate_scheme option" where
  "naf_conn_free ml nb dead st = conn_free_fuel ml nb (Suc (length (nb_fdlist nb (cs_nb st)))) dead st"

section \<open>Events\<close>

definition finishconnect ::
    "('nb, 'z) cstate_scheme modlist_item list \<Rightarrow> ('nb, 'r) nbio_ops_scheme \<Rightarrow> nat option \<Rightarrow> ('nb, 'z) cstate_scheme
       \<Rightarrow> (int \<times> ('nb, 'z) cstate_scheme) option" where
  "finishconnect ml nb conn st =
     (case conn of
        None \<Rightarrow> Some (-1, st)
      | Some a \<Rightarrow> do {
          c \<leftarrow> cs_conns st a;
          case c_fdt c of
            None \<Rightarrow> Some (-1, st)
          | Some fdt \<Rightarrow>
              if c_type c AND NAF_CONN_TYPE_CONNECTING = 0 then Some (-1, st)
              else do {
                let (r, n) = nb_sfd_read0 nb fdt (cs_nb st);
                let st = st\<lparr>cs_nb := n\<rparr>;
                if r \<noteq> 0 then Some (-1, st)
                else do {
                  let st = conn_update a (\<lambda>c. c\<lparr>c_type := c_type c AND NOT NAF_CONN_TYPE_CONNECTING\<rparr>) st;
                  st \<leftarrow> updaterawmode nb a st;
                  st \<leftarrow> fillendpoints nb a st;
                  c \<leftarrow> cs_conns st a;
                  case c_owner c of
                    None \<Rightarrow> Some (-1, st)
                  | Some m \<Rightarrow> do {
                      md \<leftarrow> module_at ml m;
                      case nm_connready md of
                        None \<Rightarrow> Some (-1, st)
                      | Some f \<Rightarrow> do {
                          (r, st) \<leftarrow> f m a NAF_CONN_READY_CONNECTED st;
                          Some (if r = -1 then -1 else 0, st)
                        }
                    }
                }
              }
        })"

text \<open>The call of the owner's \<^verbatim>\<open>connready\<close>; \<open>None\<close> inside when there is none.\<close>

definition owner_ready ::
    "('nb, 'z) cstate_scheme modlist_item list \<Rightarrow> nat \<Rightarrow> naf_u16_t \<Rightarrow> ('nb, 'z) cstate_scheme
       \<Rightarrow> (int option \<times> ('nb, 'z) cstate_scheme) option" where
  "owner_ready ml a what st = do {
     c \<leftarrow> cs_conns st a;
     case c_owner c of
       None \<Rightarrow> Some (None, st)
     | Some m \<Rightarrow> do {
         md \<leftarrow> module_at ml m;
         case nm_connready md of
           None \<Rightarrow> Some (None, st)
         | Some f \<Rightarrow> do { (r, st) \<leftarrow> f m a what st; Some (Some r, st) }
       }
   }"

definition connhandler_read ::
    "('nb, 'z) cstate_scheme modlist_item list \<Rightarrow> ('nb, 'r) nbio_ops_scheme \<Rightarrow> nat \<Rightarrow> ('nb, 'z) cstate_scheme
       \<Rightarrow> (int \<times> ('nb, 'z) cstate_scheme) option" where
  "connhandler_read ml nb a st = do {
     c \<leftarrow> cs_conns st a;
     if c_type c AND NAF_CONN_TYPE_CONNECTING \<noteq> 0 then Some (0, st)
     else if c_type c AND NAF_CONN_TYPE_DETECTING \<noteq> 0
     then do {
       (detected, st) \<leftarrow> naf_module__protocoldetect ml None a st;
       if detected = 1
       then do {
         let st = conn_update a (\<lambda>c. c\<lparr>c_type := c_type c AND NOT NAF_CONN_TYPE_DETECTING\<rparr>) st;
         st \<leftarrow> naf_conn_setraw nb a 0 st;
         Some (0, st)
       }
       else do { st \<leftarrow> naf_conn_free ml nb a st; Some (0, st) }
     }
     else do {
       (r, st) \<leftarrow> owner_ready ml a NAF_CONN_READY_READ st;
       case r of
         None \<Rightarrow> do { st \<leftarrow> naf_conn_free ml nb a st; Some (0, st) }
       | Some r \<Rightarrow>
           if r = -1 then do { st \<leftarrow> naf_conn_free ml nb a st; Some (0, st) }
           else do { st \<leftarrow> updaterawmode nb a st; Some (0, st) }
     }
   }"

definition connhandler_write ::
    "('nb, 'z) cstate_scheme modlist_item list \<Rightarrow> ('nb, 'r) nbio_ops_scheme \<Rightarrow> nat \<Rightarrow> ('nb, 'z) cstate_scheme
       \<Rightarrow> (int \<times> ('nb, 'z) cstate_scheme) option" where
  "connhandler_write ml nb a st = do {
     c \<leftarrow> cs_conns st a;
     if c_type c AND NAF_CONN_TYPE_CONNECTING \<noteq> 0
     then do {
       (r, st) \<leftarrow> finishconnect ml nb (Some a) st;
       st \<leftarrow> (if r < 0 then naf_conn_free ml nb a st else Some st);
       Some (0, st)
     }
     else do {
       (r, st) \<leftarrow> owner_ready ml a NAF_CONN_READY_WRITE st;
       st \<leftarrow> (if r = None \<or> r = Some (-1) then naf_conn_free ml nb a st else Some st);
       Some (0, st)
     }
   }"

definition connhandler_eof ::
    "('nb, 'z) cstate_scheme modlist_item list \<Rightarrow> ('nb, 'r) nbio_ops_scheme \<Rightarrow> nat \<Rightarrow> ('nb, 'z) cstate_scheme
       \<Rightarrow> (int \<times> ('nb, 'z) cstate_scheme) option" where
  "connhandler_eof ml nb a st = do {
     c \<leftarrow> cs_conns st a;
     let die = c_type c AND NAF_CONN_TYPE_LISTENER \<noteq> 0;
     st \<leftarrow> naf_conn_free ml nb a st;
     Some (if die then -1 else 0, st)
   }"

text \<open>\<^verbatim>\<open>takeconn\<close> of the owner may change the flags of the connection.\<close>

definition connhandler_incomingconn ::
    "allocator \<Rightarrow> ('nb, 'z) cstate_scheme modlist_item list \<Rightarrow> ('nb, 'r) nbio_ops_scheme \<Rightarrow> int \<Rightarrow> nat
       \<Rightarrow> ('nb, 'z) cstate_scheme \<Rightarrow> (int \<times> ('nb, 'z) cstate_scheme) option" where
  "connhandler_incomingconn mal ml nb now l st = do {
     lc \<leftarrow> cs_conns st l;
     fdt \<leftarrow> c_fdt lc;
     let st = conn_update l (\<lambda>c. c\<lparr>c_lasttx_hard := c_lasttx_hard c + 1\<rparr>) st;
     let (sfd, n) = nb_getincomingconn nb fdt (cs_nb st);
     let st = st\<lparr>cs_nb := n\<rparr>;
     case sfd of
       None \<Rightarrow> Some (0, st)
     | Some sfd \<Rightarrow> do {
         (nconn, st) \<leftarrow> naf_conn_addconn mal nb now None sfd (NAF_CONN_TYPE_CLIENT OR NAF_CONN_TYPE_DETECTING) st;
         case nconn of
           None \<Rightarrow> Some (0, st\<lparr>cs_nb := nb_sfd_close nb sfd (cs_nb st)\<rparr>)
         | Some a \<Rightarrow> do {
             st \<leftarrow> (case c_owner lc of
                      None \<Rightarrow> Some st
                    | Some m \<Rightarrow> do {
                        let st = conn_update a (\<lambda>c. c\<lparr>c_owner := Some m\<rparr>) st;
                        md \<leftarrow> module_at ml m;
                        case nm_takeconn md of
                          None \<Rightarrow> Some st
                        | Some f \<Rightarrow> do {
                            (_, st) \<leftarrow> f m a st;
                            updaterawmode nb a st
                          }
                      });
             c \<leftarrow> cs_conns st a;
             st \<leftarrow> (if c_owner c = None then naf_conn_setraw nb a 2 st else Some st);
             Some (0, st)
           }
       }
   }"

datatype nbio_event =
  NBIO_EVENT_READ | NBIO_EVENT_WRITE | NBIO_EVENT_ERROR | NBIO_EVENT_EOF | NBIO_EVENT_INCOMINGCONN | NBIO_EVENT_OTHER

text \<open>\<open>priv\<close> is the connection of the descriptor; a closed one has none.\<close>

definition connhandler ::
    "allocator \<Rightarrow> ('nb, 'z) cstate_scheme modlist_item list \<Rightarrow> ('nb, 'r) nbio_ops_scheme \<Rightarrow> int \<Rightarrow> nbio_event
       \<Rightarrow> nat option \<Rightarrow> ('nb, 'z) cstate_scheme \<Rightarrow> (int \<times> ('nb, 'z) cstate_scheme) option" where
  "connhandler mal ml nb now event priv st =
     (case priv of
        None \<Rightarrow> Some (-1, st)
      | Some a \<Rightarrow>
          (case event of
             NBIO_EVENT_READ \<Rightarrow> connhandler_read ml nb a st
           | NBIO_EVENT_WRITE \<Rightarrow> connhandler_write ml nb a st
           | NBIO_EVENT_ERROR \<Rightarrow> connhandler_eof ml nb a st
           | NBIO_EVENT_EOF \<Rightarrow> connhandler_eof ml nb a st
           | NBIO_EVENT_INCOMINGCONN \<Rightarrow> connhandler_incomingconn mal ml nb now a st
           | NBIO_EVENT_OTHER \<Rightarrow> Some (-1, st)))"

definition naf_conn_setdelim ::
    "('nb, 'r) nbio_ops_scheme \<Rightarrow> nat option \<Rightarrow> bytes option \<Rightarrow> naf_u8_t \<Rightarrow> ('nb, 'z) cstate_scheme
       \<Rightarrow> (int \<times> ('nb, 'z) cstate_scheme) option" where
  "naf_conn_setdelim nb conn delim delimlen st =
     (case conn of
        None \<Rightarrow> Some (-1, st)
      | Some a \<Rightarrow> do {
          c \<leftarrow> cs_conns st a;
          case c_fdt c of
            None \<Rightarrow> Some (-1, st)
          | Some fdt \<Rightarrow>
              (let (r, n) = nb_setdelim nb fdt (if delimlen = 0 then None else map_option (take (unat delimlen)) delim) (cs_nb st)
               in Some (r, st\<lparr>cs_nb := n\<rparr>))
        })"

section \<open>The timer\<close>

abbreviation (input) NAF_CONN_DETECT_TIMEOUT :: int where "NAF_CONN_DETECT_TIMEOUT \<equiv> 2"

definition timerhandler_matcher ::
    "('nb, 'z) cstate_scheme modlist_item list \<Rightarrow> ('nb, 'r) nbio_ops_scheme \<Rightarrow> int \<Rightarrow> nafmod \<Rightarrow> nat
       \<Rightarrow> ('nb, 'z) cstate_scheme \<Rightarrow> (bool \<times> ('nb, 'z) cstate_scheme) option" where
  "timerhandler_matcher ml nb now md a st = do {
     c \<leftarrow> cs_conns st a;
     if c_type c AND NAF_CONN_TYPE_DETECTING = 0 then Some (False, st)
     else if now - c_lastrx c < NAF_CONN_DETECT_TIMEOUT then Some (False, st)
     else do {
       st \<leftarrow> naf_conn_setraw nb a 0 st;
       (r, st) \<leftarrow> naf_module__protocoldetecttimeout ml (Some md) a st;
       if r \<le> 0 then do { (_, st) \<leftarrow> naf_conn_schedulekill nb (Some a) st; Some (False, st) }
       else Some (False, st)
     }
   }"

definition conn_timerhandler ::
    "('nb, 'z) cstate_scheme modlist_item list \<Rightarrow> ('nb, 'r) nbio_ops_scheme \<Rightarrow> int \<Rightarrow> nafmod
       \<Rightarrow> ('nb, 'z) cstate_scheme \<Rightarrow> ('nb, 'z) cstate_scheme option" where
  "conn_timerhandler ml nb now md st = do {
     (_, st) \<leftarrow> naf_conn_find nb (timerhandler_matcher ml nb now md) st;
     Some (st\<lparr>cs_nb := nb_cleanuponly nb (cs_nb st)\<rparr>)
   }"

section \<open>Listening ports\<close>

text \<open>Strings of the C library: the tokens that \<^verbatim>\<open>strtok\<close> gives one after the other, and which addresses
  \<^verbatim>\<open>inet_pton\<close> takes: four decimal numbers up to 255 without leading zeros.\<close>

fun split_on :: "naf_u8_t \<Rightarrow> bytes \<Rightarrow> bytes list" where
  "split_on d [] = [[]]"
| "split_on d (c # cs) = (if c = d then [] # split_on d cs
     else (case split_on d cs of [] \<Rightarrow> [[c]] | w # ws \<Rightarrow> (c # w) # ws))"

definition strtok_tokens :: "naf_u8_t \<Rightarrow> bytes \<Rightarrow> bytes list" where
  "strtok_tokens d s = filter (\<lambda>t. t \<noteq> []) (split_on d s)"

definition dec_octet :: "bytes \<Rightarrow> bool" where
  "dec_octet w \<longleftrightarrow> w \<noteq> [] \<and> length w \<le> 3 \<and> list_all (\<lambda>c. 0x30 \<le> c \<and> c \<le> 0x39) w \<and>
     (hd w = 0x30 \<longrightarrow> length w = 1) \<and> atoi w \<le> 255"

definition inet_pton_ok :: "bytes \<Rightarrow> bool" where
  "inet_pton_ok s \<longleftrightarrow> (let ws = split_on 0x2e s in length ws = 4 \<and> list_all dec_octet ws)"

text \<open>A token of the parameter \<^verbatim>\<open>listenports\<close>, \<^verbatim>\<open>[addr:]port[/owner]\<close>: the address and the rest.\<close>

definition strchr_rest :: "naf_u8_t \<Rightarrow> bytes \<Rightarrow> bytes option" where
  "strchr_rest d s = (if d \<in> set s then Some (tl (dropWhile (\<lambda>c. c \<noteq> d) s)) else None)"

definition listen_spec :: "bytes \<Rightarrow> bytes option \<times> bytes" where
  "listen_spec cur =
     (case strchr_rest 0x3a cur of
        None \<Rightarrow> (None, cur)
      | Some rest \<Rightarrow> (Some (takeWhile (\<lambda>c. c \<noteq> 0x3a) cur), rest))"

text \<open>\<open>conf\<close> is the value of \<^verbatim>\<open>listenports\<close>; without one \<^verbatim>\<open>naf_strdup\<close> reads through a null pointer.\<close>

definition listenport_isconfigured :: "allocator \<Rightarrow> bytes option \<Rightarrow> bytes option \<Rightarrow> naf_u16_t \<Rightarrow> bool option" where
  "listenport_isconfigured mal conf inaddr inport = do {
     conf \<leftarrow> conf;
     if mal (length conf + 1) = None then Some False
     else Some (list_ex (\<lambda>cur.
       let (addr, cur) = listen_spec cur
       in uint inport = atoi cur \<and> (addr \<noteq> None) = (inaddr \<noteq> None) \<and> (addr \<noteq> None \<and> addr = inaddr))
       (strtok_tokens 0x2c conf))
   }"

definition findlistenport_matcher ::
    "bytes \<Rightarrow> naf_u16_t \<Rightarrow> nat \<Rightarrow> ('nb, 'z) cstate_scheme \<Rightarrow> (bool \<times> ('nb, 'z) cstate_scheme) option" where
  "findlistenport_matcher addr port a st = do {
     c \<leftarrow> cs_conns st a;
     Some (c_type c AND NAF_CONN_TYPE_LISTENER \<noteq> 0 \<and> c_localip c = addr \<and> c_localport c = port, st)
   }"

definition findlistenport ::
    "('nb, 'r) nbio_ops_scheme \<Rightarrow> bytes option \<Rightarrow> naf_u16_t \<Rightarrow> ('nb, 'z) cstate_scheme
       \<Rightarrow> (nat option \<times> ('nb, 'z) cstate_scheme) option" where
  "findlistenport nb addr port st =
     (case addr of
        None \<Rightarrow> naf_conn_find nb (findlistenport_matcher (cstr ''0.0.0.0'') port) st
      | Some ad \<Rightarrow> if \<not> inet_pton_ok ad then Some (None, st)
                  else naf_conn_find nb (findlistenport_matcher ad port) st)"

definition listenestablish ::
    "allocator \<Rightarrow> ('nb, 'r) nbio_ops_scheme \<Rightarrow> int \<Rightarrow> bytes option \<Rightarrow> naf_u16_t \<Rightarrow> nafmod option
       \<Rightarrow> ('nb, 'z) cstate_scheme \<Rightarrow> (nat option \<times> ('nb, 'z) cstate_scheme) option" where
  "listenestablish mal nb now addr portnum nowner st =
     (case nb_sfd_newlistener nb addr portnum (cs_nb st) of
        (None, n) \<Rightarrow> Some (None, st\<lparr>cs_nb := n\<rparr>)
      | (Some sfd, n) \<Rightarrow> do {
          (retconn, st) \<leftarrow> naf_conn_addconn mal nb now nowner sfd NAF_CONN_TYPE_LISTENER (st\<lparr>cs_nb := n\<rparr>);
          case retconn of
            None \<Rightarrow> Some (None, st\<lparr>cs_nb := nb_sfd_close nb sfd (cs_nb st)\<rparr>)
          | Some a \<Rightarrow> Some (Some a, st)
        })"

text \<open>A listener that is closed meanwhile is skipped by the loop of \<^verbatim>\<open>naf_conn_find\<close>.\<close>

definition cleanlisteners_matcher ::
    "allocator \<Rightarrow> ('nb, 'z) cstate_scheme modlist_item list \<Rightarrow> ('nb, 'r) nbio_ops_scheme \<Rightarrow> bytes option \<Rightarrow> nat
       \<Rightarrow> ('nb, 'z) cstate_scheme \<Rightarrow> (bool \<times> ('nb, 'z) cstate_scheme) option" where
  "cleanlisteners_matcher mal ml nb conf a st =
     (if a \<notin> set (nb_fdlist nb (cs_nb st)) then Some (False, st)
      else do {
        c \<leftarrow> cs_conns st a;
        if c_type c AND NAF_CONN_TYPE_LISTENER = 0 then Some (False, st)
        else do {
          isconf \<leftarrow> listenport_isconfigured mal conf (Some (c_localip c)) (c_localport c);
          if isconf then Some (False, st)
          else do { st \<leftarrow> naf_conn_free ml nb a st; Some (False, st) }
        }
      })"

text \<open>One round of the loop that opens what is configured.\<close>

definition listen_on ::
    "allocator \<Rightarrow> ('nb, 'z) cstate_scheme modlist_item list \<Rightarrow> ('nb, 'r) nbio_ops_scheme \<Rightarrow> int \<Rightarrow> nafmod \<Rightarrow> bytes
       \<Rightarrow> ('nb, 'z) cstate_scheme \<Rightarrow> ('nb, 'z) cstate_scheme option" where
  "listen_on mal ml nb now md cur st = do {
     let (addr, cur) = listen_spec cur;
     let portnum = atoi cur;
     let owner = strchr_rest 0x2f cur;
     let nconnowner = (case owner of None \<Rightarrow> None | Some o' \<Rightarrow> naf_module_findbyname (Some md) (Some o') ml);
     let goahead = \<not> (owner \<noteq> None \<and> nconnowner = None) \<and> portnum \<noteq> -1;
     (dup, st) \<leftarrow> findlistenport nb addr (word_of_int (atoi cur)) st;
     if goahead \<and> dup = None
     then do { (_, st) \<leftarrow> listenestablish mal nb now addr (word_of_int portnum) nconnowner st; Some st }
     else Some st
   }"

fun listen_on_all ::
    "allocator \<Rightarrow> ('nb, 'z) cstate_scheme modlist_item list \<Rightarrow> ('nb, 'r) nbio_ops_scheme \<Rightarrow> int \<Rightarrow> nafmod \<Rightarrow> bytes list
       \<Rightarrow> ('nb, 'z) cstate_scheme \<Rightarrow> ('nb, 'z) cstate_scheme option" where
  "listen_on_all mal ml nb now md [] st = Some st"
| "listen_on_all mal ml nb now md (cur # rest) st = do {
     st \<leftarrow> listen_on mal ml nb now md cur st;
     listen_on_all mal ml nb now md rest st
   }"

definition cleanlisteners ::
    "allocator \<Rightarrow> ('nb, 'z) cstate_scheme modlist_item list \<Rightarrow> ('nb, 'r) nbio_ops_scheme \<Rightarrow> int \<Rightarrow> nafmod \<Rightarrow> bytes option
       \<Rightarrow> ('nb, 'z) cstate_scheme \<Rightarrow> ('nb, 'z) cstate_scheme option" where
  "cleanlisteners mal ml nb now md conf st = do {
     (_, st) \<leftarrow> naf_conn_find nb (cleanlisteners_matcher mal ml nb conf) st;
     case conf of
       None \<Rightarrow> Some st
     | Some c \<Rightarrow>
         if mal (length c + 1) = None then Some st
         else listen_on_all mal ml nb now md (strtok_tokens 0x2c c) st
   }"

end
