(* ===== verification/ConnFree.thy ===== *)
theory ConnFree
  imports ConnLife
begin

text \<open>
  Closing a connection, \<^verbatim>\<open>naf_conn_free\<close>: it returns, takes with it exactly the connections that
  depend on it, directly or through others, and leaves no link to any of them.
\<close>

section \<open>What is relied on\<close>

text \<open>libnbio: closing a descriptor takes its connection off the list and nothing else, and taking the
  queued vectors off a descriptor ends. \<open>own\<close> gives the connection a descriptor was made for.\<close>

definition nb_closes :: "('nb, 'r) nbio_ops_scheme \<Rightarrow> (nat \<Rightarrow> nat) \<Rightarrow> bool" where
  "nb_closes nb own \<longleftrightarrow>
     (\<forall>f n. nb_fdlist nb (nb_closefdt nb f n) = filter (\<lambda>a. a \<noteq> own f) (nb_fdlist nb n)) \<and>
     (\<forall>f n. \<exists>n'. drain (nb_remtoprxvector nb f) n = Some n' \<and> nb_fdlist nb n' = nb_fdlist nb n) \<and>
     (\<forall>f n. \<exists>n'. drain (nb_remtoptxvector nb f) n = Some n' \<and> nb_fdlist nb n' = nb_fdlist nb n)"

text \<open>A connection only loses links.\<close>

definition cle :: "nafconn \<Rightarrow> nafconn \<Rightarrow> bool" where
  "cle c c' \<longleftrightarrow> c' = c\<lparr>c_endpoint := c_endpoint c', c_parent := c_parent c'\<rparr> \<and>
     (c_endpoint c' = c_endpoint c \<or> c_endpoint c' = None) \<and> (c_parent c' = c_parent c \<or> c_parent c' = None)"

definition same_conns :: "('nb, 'r) nbio_ops_scheme \<Rightarrow> ('nb, 'z) cstate_scheme \<Rightarrow> ('nb, 'z) cstate_scheme \<Rightarrow> bool" where
  "same_conns nb st st' \<longleftrightarrow> cs_conns st' = cs_conns st \<and> nb_fdlist nb (cs_nb st') = nb_fdlist nb (cs_nb st)"

definition conns_le :: "('nb, 'z) cstate_scheme \<Rightarrow> ('nb, 'z) cstate_scheme \<Rightarrow> bool" where
  "conns_le st st' \<longleftrightarrow> (\<forall>x c'. cs_conns st' x = Some c' \<longrightarrow> (\<exists>c. cs_conns st x = Some c \<and> cle c c'))"

text \<open>The functions of the modules that are called on the way do not touch the connections, in states
  with the property \<open>G\<close>, which does not depend on how many connections there still are.\<close>

definition callbacks_ok ::
    "('nb, 'z) cstate_scheme modlist_item list \<Rightarrow> ('nb, 'r) nbio_ops_scheme \<Rightarrow> (('nb, 'z) cstate_scheme \<Rightarrow> bool) \<Rightarrow> bool" where
  "callbacks_ok ml nb G \<longleftrightarrow>
     (\<forall>st st'. G st \<and> conns_le st st' \<and> cstate.more st' = cstate.more st \<longrightarrow> G st') \<and>
     (\<forall>st dead c m md. G st \<and> set (nb_fdlist nb (cs_nb st)) \<subseteq> dom (cs_conns st) \<and> cs_conns st dead = Some c \<and>
          module_at ml m = Some md \<longrightarrow>
        (\<forall>f. nm_connkill md = Some f \<and> c_owner c = Some m \<longrightarrow>
           (\<exists>st'. f m dead st = Some st' \<and> G st' \<and> same_conns nb st st')) \<and>
        (\<forall>h t. nm_freetag md = Some h \<and> t \<in> set (c_taglist c) \<and> tag_owner t = m \<longrightarrow>
           (\<exists>st'. h m dead (tag_name t) (tag_type t) (tag_data t) st = Some st' \<and> G st' \<and> same_conns nb st st')))"

text \<open>What closing a connection asks of \<open>G\<close> more precisely: while connections lose links, or go when their descriptor has
  been closed, \<open>G\<close> stays as it is; the functions that are called once the descriptor of a connection has been closed bring
  it about again.\<close>

definition call_connkill ::
    "('nb, 'z) cstate_scheme modlist_item list \<Rightarrow> nat \<Rightarrow> nafmod option \<Rightarrow> ('nb, 'z) cstate_scheme \<Rightarrow> ('nb, 'z) cstate_scheme option" where
  "call_connkill ml a owner st =
     (case owner of None \<Rightarrow> Some st
      | Some m \<Rightarrow> do { md \<leftarrow> module_at ml m; case nm_connkill md of None \<Rightarrow> Some st | Some f \<Rightarrow> f m a st })"

definition closes_ok ::
    "('nb, 'z) cstate_scheme modlist_item list \<Rightarrow> ('nb, 'r) nbio_ops_scheme \<Rightarrow> (('nb, 'z) cstate_scheme \<Rightarrow> bool) \<Rightarrow> bool" where
  "closes_ok ml nb G \<longleftrightarrow>
     (\<forall>st st'. G st \<and> conns_le st st' \<and> cstate.more st' = cstate.more st \<and>
        nb_fdlist nb (cs_nb st') = nb_fdlist nb (cs_nb st) \<longrightarrow> G st') \<and>
     (\<forall>st st1 a c. G st \<and> cs_conns st a = Some c \<and> (\<forall>m. c_owner c = Some m \<longrightarrow> module_at ml m \<noteq> None) \<and>
        set (nb_fdlist nb (cs_nb st)) \<subseteq> dom (cs_conns st) \<and> a \<in> set (nb_fdlist nb (cs_nb st)) \<and>
        cs_conns st1 = cs_conns st \<and> cstate.more st1 = cstate.more st \<and>
        nb_fdlist nb (cs_nb st1) = filter (\<lambda>x. x \<noteq> a) (nb_fdlist nb (cs_nb st)) \<longrightarrow>
        (\<exists>st2 st3. call_connkill ml a (c_owner c) st1 = Some st2 \<and> same_conns nb st1 st2 \<and>
           conn_freetags ml a (c_taglist c) st2 = Some st3 \<and> same_conns nb st2 st3 \<and> G st3))"

definition killable :: "nafconn \<Rightarrow> bool" where
  "killable c \<longleftrightarrow> c_type c AND NAF_CONN_TYPE_PROROGUEDEATH = 0 \<and> c_type c AND NAF_CONN_TYPE_LOCAL = 0"

text \<open>The links of a state: every connection but those in \<open>D\<close>, which are being closed, has an open
  descriptor of its own, and links and owners that exist.\<close>

definition conns_inv ::
    "('nb, 'z) cstate_scheme modlist_item list \<Rightarrow> ('nb, 'r) nbio_ops_scheme \<Rightarrow> (nat \<Rightarrow> nat) \<Rightarrow> nat set
       \<Rightarrow> ('nb, 'z) cstate_scheme \<Rightarrow> bool" where
  "conns_inv ml nb own D st \<longleftrightarrow>
     D \<subseteq> dom (cs_conns st) \<and> set (nb_fdlist nb (cs_nb st)) = dom (cs_conns st) - D \<and>
     (\<forall>x \<in> set (nb_fdlist nb (cs_nb st)). \<forall>c. cs_conns st x = Some c \<longrightarrow>
        (\<exists>f. c_fdt c = Some f \<and> own f = x) \<and> (\<forall>m. c_owner c = Some m \<longrightarrow> module_at ml m \<noteq> None) \<and>
        (\<forall>y. c_endpoint c = Some y \<or> c_parent c = Some y \<longrightarrow> y \<in> dom (cs_conns st)))"

text \<open>What closing does to the other connections: they lose links at most, and those that are still
  open and not exempt from dying with others lose none.\<close>

definition shrinks_to ::
    "('nb, 'r) nbio_ops_scheme \<Rightarrow> ('nb, 'z) cstate_scheme \<Rightarrow> ('nb, 'z) cstate_scheme \<Rightarrow> bool" where
  "shrinks_to nb st st' \<longleftrightarrow> conns_le st st' \<and>
     (\<forall>x \<in> set (nb_fdlist nb (cs_nb st')). x \<in> set (nb_fdlist nb (cs_nb st)) \<and>
        (\<forall>c. cs_conns st x = Some c \<and> killable c \<longrightarrow> cs_conns st' x = Some c)) \<and>
     length (nb_fdlist nb (cs_nb st')) \<le> length (nb_fdlist nb (cs_nb st))"

text \<open>\<open>x\<close> dies with \<open>y\<close>.\<close>

definition tied :: "('nb, 'z) cstate_scheme \<Rightarrow> (nat \<times> nat) set" where
  "tied st = {(x, y). \<exists>c. cs_conns st x = Some c \<and> killable c \<and> (c_endpoint c = Some y \<or> c_parent c = Some y)}"

section \<open>Auxiliary facts\<close>

lemma cle_refl [simp]: "cle c c"
  by (simp add: cle_def)

lemma cle_trans: "cle a b \<Longrightarrow> cle b c \<Longrightarrow> cle a c"
  unfolding cle_def by (cases a; cases b; cases c) auto

lemma cle_clear [simp]: "cle c (c\<lparr>c_endpoint := None\<rparr>)" "cle c (c\<lparr>c_parent := None\<rparr>)"
  by (cases c; simp add: cle_def)+

lemma cle_same: "cle c c' \<Longrightarrow> c_fdt c' = c_fdt c \<and> c_owner c' = c_owner c \<and> c_type c' = c_type c \<and> c_taglist c' = c_taglist c"
  unfolding cle_def by (cases c; cases c') auto

lemma conns_le_refl [simp]: "conns_le st st"
  by (auto simp: conns_le_def)

lemma conns_le_trans: "conns_le a b \<Longrightarrow> conns_le b c \<Longrightarrow> conns_le a c"
  unfolding conns_le_def by (meson cle_trans)

lemma conns_le_same: "cs_conns st' = cs_conns st \<Longrightarrow> conns_le st st'"
  by (auto simp: conns_le_def)

lemma conns_le_update: "(\<And>c. cle c (f c)) \<Longrightarrow> conns_le st (conn_update x f st)"
  by (auto simp: conns_le_def conn_update_def split: if_splits)

lemma conns_le_tied: "conns_le st st' \<Longrightarrow> tied st' \<subseteq> tied st"
proof
  fix p
  assume le: "conns_le st st'" and "p \<in> tied st'"
  then obtain x y c' where p: "p = (x, y)" "cs_conns st' x = Some c'" "killable c'" "c_endpoint c' = Some y \<or> c_parent c' = Some y"
    by (auto simp: tied_def)
  then obtain c where c: "cs_conns st x = Some c" "cle c c'" using le by (auto simp: conns_le_def)
  then have "killable c" "c_endpoint c = Some y \<or> c_parent c = Some y"
    using p cle_same [OF c(2)] by (auto simp: killable_def cle_def)
  with p c show "p \<in> tied st" by (auto simp: tied_def)
qed

lemma shrinks_to_refl [simp]: "shrinks_to nb st st"
  by (simp add: shrinks_to_def)

lemma shrinks_to_trans:
  assumes "shrinks_to nb a b" "shrinks_to nb b c"
  shows "shrinks_to nb a c"
  unfolding shrinks_to_def
proof (intro conjI ballI allI impI)
  show "conns_le a c" using assms conns_le_trans by (auto simp: shrinks_to_def)
  fix x
  assume x: "x \<in> set (nb_fdlist nb (cs_nb c))"
  then show "x \<in> set (nb_fdlist nb (cs_nb a))" using assms by (auto simp: shrinks_to_def)
  fix cx
  assume "cs_conns a x = Some cx \<and> killable cx"
  with x assms show "cs_conns c x = Some cx" by (auto simp: shrinks_to_def)
next
  show "length (nb_fdlist nb (cs_nb c)) \<le> length (nb_fdlist nb (cs_nb a))"
    using assms by (simp add: shrinks_to_def)
qed

lemma shrinks_to_same: "same_conns nb st st' \<Longrightarrow> shrinks_to nb st st'"
  by (auto simp: shrinks_to_def same_conns_def conns_le_same)

lemma conns_inv_same: "same_conns nb st st' \<Longrightarrow> conns_inv ml nb own D st' = conns_inv ml nb own D st"
  by (simp add: conns_inv_def same_conns_def)

lemma conns_invD:
  assumes "conns_inv ml nb own D st"
  shows "D \<subseteq> dom (cs_conns st)" "set (nb_fdlist nb (cs_nb st)) = dom (cs_conns st) - D"
    "x \<in> set (nb_fdlist nb (cs_nb st)) \<Longrightarrow> cs_conns st x = Some c \<Longrightarrow> \<exists>f. c_fdt c = Some f \<and> own f = x"
    "x \<in> set (nb_fdlist nb (cs_nb st)) \<Longrightarrow> cs_conns st x = Some c \<Longrightarrow> c_owner c = Some m \<Longrightarrow> module_at ml m \<noteq> None"
    "x \<in> set (nb_fdlist nb (cs_nb st)) \<Longrightarrow> cs_conns st x = Some c \<Longrightarrow> c_endpoint c = Some y \<or> c_parent c = Some y \<Longrightarrow>
       y \<in> dom (cs_conns st)"
  using assms unfolding conns_inv_def by blast+

lemma conns_invI:
  assumes "D \<subseteq> dom (cs_conns st)" "set (nb_fdlist nb (cs_nb st)) = dom (cs_conns st) - D"
    and "\<And>x c. x \<in> set (nb_fdlist nb (cs_nb st)) \<Longrightarrow> cs_conns st x = Some c \<Longrightarrow> \<exists>f. c_fdt c = Some f \<and> own f = x"
    and "\<And>x c m. x \<in> set (nb_fdlist nb (cs_nb st)) \<Longrightarrow> cs_conns st x = Some c \<Longrightarrow> c_owner c = Some m \<Longrightarrow> module_at ml m \<noteq> None"
    and "\<And>x c y. x \<in> set (nb_fdlist nb (cs_nb st)) \<Longrightarrow> cs_conns st x = Some c \<Longrightarrow> c_endpoint c = Some y \<or> c_parent c = Some y \<Longrightarrow>
       y \<in> dom (cs_conns st)"
  shows "conns_inv ml nb own D st"
  unfolding conns_inv_def using assms by blast

section \<open>The part before the loops\<close>

lemma callbacks_stable:
  "callbacks_ok ml nb G \<Longrightarrow> G st \<Longrightarrow> conns_le st st' \<Longrightarrow> cstate.more st' = cstate.more st \<Longrightarrow> G st'"
  unfolding callbacks_ok_def by blast

lemma callbacks_connkill:
  assumes "callbacks_ok ml nb G" "G st" "set (nb_fdlist nb (cs_nb st)) \<subseteq> dom (cs_conns st)" "cs_conns st a = Some c" "c_owner c = Some m" "module_at ml m = Some md"
  shows "\<exists>st'. (case nm_connkill md of None \<Rightarrow> Some st | Some f \<Rightarrow> f m a st) = Some st' \<and> G st' \<and> same_conns nb st st'"
proof (cases "nm_connkill md")
  case (Some f)
  have "\<forall>f. nm_connkill md = Some f \<and> c_owner c = Some m \<longrightarrow>
       (\<exists>st'. f m a st = Some st' \<and> G st' \<and> same_conns nb st st')"
    using assms unfolding callbacks_ok_def by blast
  with Some assms(5) show ?thesis by simp
qed (use assms in \<open>simp add: same_conns_def\<close>)

lemma callbacks_freetag:
  assumes "callbacks_ok ml nb G" "G st" "set (nb_fdlist nb (cs_nb st)) \<subseteq> dom (cs_conns st)" "cs_conns st a = Some c" "module_at ml (tag_owner t) = Some md"
    "nm_freetag md = Some h" "t \<in> set (c_taglist c)"
  shows "\<exists>st'. h (tag_owner t) a (tag_name t) (tag_type t) (tag_data t) st = Some st' \<and> G st' \<and> same_conns nb st st'"
  using assms unfolding callbacks_ok_def by blast

lemma same_conns_trans: "same_conns nb a b \<Longrightarrow> same_conns nb b c \<Longrightarrow> same_conns nb a c"
  by (simp add: same_conns_def)

lemma conn_freetags_ok:
  assumes cb: "callbacks_ok ml nb G" and G: "G st" and fds: "set (nb_fdlist nb (cs_nb st)) \<subseteq> dom (cs_conns st)"
    and c: "cs_conns st a = Some c" and sub: "set tags \<subseteq> set (c_taglist c)"
  shows "\<exists>st'. conn_freetags ml a tags st = Some st' \<and> G st' \<and> same_conns nb st st'"
  using G fds c sub
proof (induction tags arbitrary: st)
  case Nil
  then show ?case by (simp add: conn_freetags_def same_conns_def)
next
  case (Cons t tags)
  obtain st1 where 1: "(case Option.bind (module_at ml (tag_owner t)) nm_freetag of None \<Rightarrow> Some st
      | Some h \<Rightarrow> h (tag_owner t) a (tag_name t) (tag_type t) (tag_data t) st) = Some st1" "G st1" "same_conns nb st st1"
  proof (cases "Option.bind (module_at ml (tag_owner t)) nm_freetag")
    case None
    then show thesis using Cons.prems(1) by (intro that [of st]) (simp_all add: same_conns_def)
  next
    case (Some h)
    then obtain md where "module_at ml (tag_owner t) = Some md" "nm_freetag md = Some h"
      by (auto simp: bind_eq_Some_conv)
    from callbacks_freetag [OF cb Cons.prems(1-3) this] Cons.prems(4) Some show thesis by (auto intro: that)
  qed
  have "set (nb_fdlist nb (cs_nb st1)) \<subseteq> dom (cs_conns st1)" "cs_conns st1 a = Some c" "set tags \<subseteq> set (c_taglist c)"
    using 1(3) Cons.prems by (simp_all add: same_conns_def)
  from Cons.IH [OF 1(2) this] obtain st2 where 2: "conn_freetags ml a tags st1 = Some st2" "G st2" "same_conns nb st1 st2" by blast
  have "conn_freetags ml a (t # tags) st = conn_freetags ml a tags st1"
    using 1(1) by (cases "Option.bind (module_at ml (tag_owner t)) nm_freetag") (auto simp: conn_freetags_def)
  with 2 same_conns_trans [OF 1(3) 2(3)] show ?case by auto
qed

lemma callbacks_closes:
  assumes cb: "callbacks_ok ml nb G"
  shows "closes_ok ml nb G"
  unfolding closes_ok_def
proof (intro conjI allI impI)
  fix st st' :: "('a, 'b) cstate_scheme"
  assume "G st \<and> conns_le st st' \<and> cstate.more st' = cstate.more st \<and> nb_fdlist nb (cs_nb st') = nb_fdlist nb (cs_nb st)"
  then show "G st'" using callbacks_stable [OF cb] by blast
next
  fix st st1 :: "('a, 'b) cstate_scheme" and a c
  assume a: "G st \<and> cs_conns st a = Some c \<and> (\<forall>m. c_owner c = Some m \<longrightarrow> module_at ml m \<noteq> None) \<and>
    set (nb_fdlist nb (cs_nb st)) \<subseteq> dom (cs_conns st) \<and> a \<in> set (nb_fdlist nb (cs_nb st)) \<and>
    cs_conns st1 = cs_conns st \<and> cstate.more st1 = cstate.more st \<and>
    nb_fdlist nb (cs_nb st1) = filter (\<lambda>x. x \<noteq> a) (nb_fdlist nb (cs_nb st))"
  have G1: "G st1" by (rule callbacks_stable [OF cb]) (use a in \<open>simp_all add: conns_le_same\<close>)
  have c1: "cs_conns st1 a = Some c" and fds: "set (nb_fdlist nb (cs_nb st1)) \<subseteq> dom (cs_conns st1)" using a by auto
  obtain st2 where 2: "call_connkill ml a (c_owner c) st1 = Some st2" "G st2" "same_conns nb st1 st2"
  proof (cases "c_owner c")
    case None
    then show thesis using G1 by (intro that [of st1]) (simp_all add: same_conns_def call_connkill_def)
  next
    case (Some m)
    then obtain md where md: "module_at ml m = Some md" using a by auto
    from callbacks_connkill [OF cb G1 fds c1 Some md] Some md show thesis by (auto simp: call_connkill_def intro: that)
  qed
  have "set (nb_fdlist nb (cs_nb st2)) \<subseteq> dom (cs_conns st2)" "cs_conns st2 a = Some c"
    using fds 2(3) c1 by (simp_all add: same_conns_def)
  from conn_freetags_ok [OF cb 2(2) this subset_refl] 2
  show "\<exists>st2 st3. call_connkill ml a (c_owner c) st1 = Some st2 \<and> same_conns nb st1 st2 \<and>
      conn_freetags ml a (c_taglist c) st2 = Some st3 \<and> same_conns nb st2 st3 \<and> G st3" by blast
qed

lemma closes_stable:
  "closes_ok ml nb G \<Longrightarrow> G st \<Longrightarrow> conns_le st st' \<Longrightarrow> cstate.more st' = cstate.more st \<Longrightarrow>
     nb_fdlist nb (cs_nb st') = nb_fdlist nb (cs_nb st) \<Longrightarrow> G st'"
  unfolding closes_ok_def by blast

lemma closes_call:
  assumes "closes_ok ml nb G" "G st" "cs_conns st a = Some c" "\<forall>m. c_owner c = Some m \<longrightarrow> module_at ml m \<noteq> None"
    "set (nb_fdlist nb (cs_nb st)) \<subseteq> dom (cs_conns st)" "a \<in> set (nb_fdlist nb (cs_nb st))"
    "cs_conns st1 = cs_conns st" "cstate.more st1 = cstate.more st"
    "nb_fdlist nb (cs_nb st1) = filter (\<lambda>x. x \<noteq> a) (nb_fdlist nb (cs_nb st))"
  obtains st2 st3 where "call_connkill ml a (c_owner c) st1 = Some st2" "same_conns nb st1 st2"
    "conn_freetags ml a (c_taglist c) st2 = Some st3" "same_conns nb st2 st3" "G st3"
  using assms unfolding closes_ok_def by blast

lemma closefdt_ok:
  assumes nb: "nb_closes nb own"
  obtains n where "closefdt nb (Some f) st = Some (st\<lparr>cs_nb := n\<rparr>)"
    "nb_fdlist nb n = filter (\<lambda>a. a \<noteq> own f) (nb_fdlist nb (cs_nb st))"
proof -
  obtain n1 where 1: "drain (nb_remtoprxvector nb f) (cs_nb st) = Some n1" "nb_fdlist nb n1 = nb_fdlist nb (cs_nb st)"
    using nb unfolding nb_closes_def by blast
  obtain n2 where "drain (nb_remtoptxvector nb f) n1 = Some n2" "nb_fdlist nb n2 = nb_fdlist nb n1"
    using nb unfolding nb_closes_def by blast
  with 1 nb show thesis by (intro that [of "nb_closefdt nb f n2"]) (simp_all add: closefdt_def nb_closes_def)
qed

text \<open>The state with which the loops start.\<close>

lemma conn_free_start:
  assumes nb: "nb_closes nb own" and cb: "closes_ok ml nb G"
    and inv: "conns_inv ml nb own D st" and G: "G st" and live: "a \<in> set (nb_fdlist nb (cs_nb st))"
  obtains st1 where "conn_free_fuel ml nb (Suc fuel) a st = do {
      st \<leftarrow> remchildren nb (conn_free_fuel ml nb fuel) a st1;
      st \<leftarrow> remendpoint nb (conn_free_fuel ml nb fuel) a st;
      Some (st\<lparr>cs_conns := (cs_conns st)(a := None)\<rparr>) }"
    "cs_conns st1 = cs_conns st" "nb_fdlist nb (cs_nb st1) = filter (\<lambda>x. x \<noteq> a) (nb_fdlist nb (cs_nb st))" "G st1"
    "conns_inv ml nb own (insert a D) st1"
proof -
  obtain c f where c: "cs_conns st a = Some c" "c_fdt c = Some f" "own f = a"
    "\<forall>m. c_owner c = Some m \<longrightarrow> module_at ml m \<noteq> None"
  proof -
    obtain c where c: "cs_conns st a = Some c" using conns_invD(2) [OF inv] live by blast
    obtain f where "c_fdt c = Some f" "own f = a" using conns_invD(3) [OF inv live c] by blast
    with c show thesis using conns_invD(4) [OF inv live c] by (intro that [of c f]) simp_all
  qed
  let ?st0 = "st\<lparr>cs_openconns := cs_openconns st - 1\<rparr>"
  obtain n where n: "closefdt nb (Some f) ?st0 = Some (?st0\<lparr>cs_nb := n\<rparr>)"
    "nb_fdlist nb n = filter (\<lambda>x. x \<noteq> a) (nb_fdlist nb (cs_nb st))"
    by (rule closefdt_ok [OF nb, of f ?st0]) (simp add: c(3))
  let ?st1 = "?st0\<lparr>cs_nb := n\<rparr>"
  have fds: "set (nb_fdlist nb (cs_nb st)) \<subseteq> dom (cs_conns st)" using conns_invD(2) [OF inv] by auto
  obtain st2 st3 where 2: "call_connkill ml a (c_owner c) ?st1 = Some st2" "same_conns nb ?st1 st2"
    and 3: "conn_freetags ml a (c_taglist c) st2 = Some st3" "same_conns nb st2 st3" "G st3"
    by (rule closes_call [OF cb G c(1,4) fds live, of ?st1]) (simp_all add: n(2))
  have c2: "cs_conns st2 a = Some c" using 2(2) c(1) by (simp add: same_conns_def)
  let ?st4 = "naf_childproc_cleanconn a st3"
  have same: "cs_conns ?st4 = cs_conns st" "nb_fdlist nb (cs_nb ?st4) = filter (\<lambda>x. x \<noteq> a) (nb_fdlist nb (cs_nb st))"
    using 2(2) 3(2) n(2) by (simp_all add: same_conns_def naf_childproc_cleanconn_def)
  have "conn_free_fuel ml nb (Suc fuel) a st = do {
      st \<leftarrow> remchildren nb (conn_free_fuel ml nb fuel) a ?st4;
      st \<leftarrow> remendpoint nb (conn_free_fuel ml nb fuel) a st;
      Some (st\<lparr>cs_conns := (cs_conns st)(a := None)\<rparr>) }"
    using n(1) 2(1) [unfolded call_connkill_def] 3(1) c(1,2) c2 by (simp add: Let_def)
  moreover have "G ?st4"
    by (rule closes_stable [OF cb 3(3)]) (simp_all add: conns_le_same naf_childproc_cleanconn_def)
  moreover have "conns_inv ml nb own (insert a D) ?st4"
  proof (rule conns_invI, unfold same)
    show "insert a D \<subseteq> dom (cs_conns st)" using conns_invD(1) [OF inv] c(1) by auto
    show "set (filter (\<lambda>x. x \<noteq> a) (nb_fdlist nb (cs_nb st))) = dom (cs_conns st) - insert a D"
      using conns_invD(2) [OF inv] by auto
  qed (use conns_invD(3-5) [OF inv] in \<open>simp_all, blast+\<close>)
  ultimately show thesis using same by (intro that [of ?st4])
qed

section \<open>The loops\<close>

text \<open>Losing a link keeps the invariant.\<close>

lemma conns_inv_clear:
  assumes inv: "conns_inv ml nb own D st" and f: "\<And>c. cle c (f c)"
  shows "conns_inv ml nb own D (conn_update x f st)"
proof -
  have dom: "dom (cs_conns (conn_update x f st)) = dom (cs_conns st)"
    by (auto simp: conn_update_def dom_def)
  have old: "\<exists>c. cs_conns st z = Some c \<and> cle c c'" if "cs_conns (conn_update x f st) z = Some c'" for z c'
    using conns_le_update [of f st x, OF f] that by (simp add: conns_le_def)
  note D = conns_invD [OF inv]
  show ?thesis
  proof (rule conns_invI, unfold dom)
    fix z c'
    assume z: "z \<in> set (nb_fdlist nb (cs_nb (conn_update x f st)))" "cs_conns (conn_update x f st) z = Some c'"
    then obtain c where c: "cs_conns st z = Some c" "cle c c'" using old by blast
    have z': "z \<in> set (nb_fdlist nb (cs_nb st))" using z(1) by simp
    note s = cle_same [OF c(2)]
    show "\<exists>f. c_fdt c' = Some f \<and> own f = z" using D(3) [OF z' c(1)] s by simp
    show "module_at ml m \<noteq> None" if "c_owner c' = Some m" for m using D(4) [OF z' c(1)] s that by simp
    show "y \<in> dom (cs_conns st)" if "c_endpoint c' = Some y \<or> c_parent c' = Some y" for y
      using D(5) [OF z' c(1), of y] c(2) that unfolding cle_def by auto
  qed (use D(1,2) in simp_all)
qed

text \<open>What is promised of a call of \<^verbatim>\<open>naf_conn_free\<close>.\<close>

definition frees ::
    "('nb, 'z) cstate_scheme modlist_item list \<Rightarrow> ('nb, 'r) nbio_ops_scheme \<Rightarrow> (nat \<Rightarrow> nat) \<Rightarrow> (('nb, 'z) cstate_scheme \<Rightarrow> bool)
       \<Rightarrow> nat set \<Rightarrow> nat \<Rightarrow> ('nb, 'z) cstate_scheme \<Rightarrow> ('nb, 'z) cstate_scheme \<Rightarrow> bool" where
  "frees ml nb own G D a st st' \<longleftrightarrow>
     conns_inv ml nb own D st' \<and> G st' \<and> shrinks_to nb st st' \<and> cs_conns st' a = None \<and>
     dom (cs_conns st) - dom (cs_conns st') \<subseteq> {y. (y, a) \<in> (tied st)\<^sup>*}"

text \<open>The two kinds of links.\<close>

definition link_field :: "(nafconn \<Rightarrow> nat option) \<Rightarrow> (nafconn \<Rightarrow> nafconn) \<Rightarrow> bool" where
  "link_field get clear \<longleftrightarrow>
     (get = c_endpoint \<and> clear = (\<lambda>c. c\<lparr>c_endpoint := None\<rparr>)) \<or> (get = c_parent \<and> clear = (\<lambda>c. c\<lparr>c_parent := None\<rparr>))"

lemma link_fieldD:
  assumes "link_field get clear"
  shows "cle c (clear c)" "get (clear c) = None" "cle c c' \<Longrightarrow> get c' = get c \<or> get c' = None"
    "get c = Some y \<Longrightarrow> c_endpoint c = Some y \<or> c_parent c = Some y"
  using assms unfolding link_field_def by (auto simp: cle_def)

lemma shrinks_to_kill:
  assumes f: "\<And>c. cle c (f c)" and kill: "shrinks_to nb (conn_update x f st) st'" and gone: "x \<notin> set (nb_fdlist nb (cs_nb st'))"
  shows "shrinks_to nb st st'"
  unfolding shrinks_to_def
proof (intro conjI ballI allI impI)
  show "conns_le st st'" using conns_le_trans [OF conns_le_update [OF f]] kill unfolding shrinks_to_def by blast
  fix z
  assume z: "z \<in> set (nb_fdlist nb (cs_nb st'))"
  then show "z \<in> set (nb_fdlist nb (cs_nb st))" using kill by (simp add: shrinks_to_def)
  fix c
  assume "cs_conns st z = Some c \<and> killable c"
  moreover have "z \<noteq> x" using z gone by auto
  ultimately show "cs_conns st' z = Some c" using kill z by (simp add: shrinks_to_def conn_update_def)
next
  show "length (nb_fdlist nb (cs_nb st')) \<le> length (nb_fdlist nb (cs_nb st))" using kill by (simp add: shrinks_to_def)
qed

text \<open>A step on one that is exempt from dying: it only loses the link.\<close>

lemma shrinks_to_clear:
  assumes f: "\<And>c. cle c (f c)" and c: "\<And>c. cs_conns st x = Some c \<Longrightarrow> \<not> killable c"
  shows "shrinks_to nb st (conn_update x f st)"
  using conns_le_update [of f st x, OF f] c by (auto simp: shrinks_to_def conn_update_def)

lemma unlink_loop_ok:
  assumes link: "link_field get clear"
    and kill: "\<And>x st. conns_inv ml nb own D st \<Longrightarrow> G st \<Longrightarrow> x \<in> set (nb_fdlist nb (cs_nb st)) \<Longrightarrow>
      length (nb_fdlist nb (cs_nb st)) \<le> n \<Longrightarrow> \<exists>st'. kill x st = Some st' \<and> frees ml nb own G D x st st'"
    and cb: "closes_ok ml nb G"
  shows "conns_inv ml nb own D st \<Longrightarrow> G st \<Longrightarrow> length (nb_fdlist nb (cs_nb st)) \<le> n \<Longrightarrow>
    \<exists>st'. unlink_loop nb get clear kill dead as st = Some st' \<and> conns_inv ml nb own D st' \<and> G st' \<and> shrinks_to nb st st' \<and>
      (\<forall>x \<in> set as. x \<in> set (nb_fdlist nb (cs_nb st')) \<longrightarrow> (\<forall>c. cs_conns st' x = Some c \<longrightarrow> get c \<noteq> Some dead)) \<and>
      dom (cs_conns st) - dom (cs_conns st') \<subseteq> {y. (y, dead) \<in> (tied st)\<^sup>+}"
proof (induction as arbitrary: st)
  case Nil
  then show ?case by simp
next
  case (Cons x as)
  note L = link_fieldD [OF link]
  have step: "\<exists>st'. unlink_loop nb get clear kill dead (x # as) st = Some st' \<and> conns_inv ml nb own D st' \<and> G st' \<and> shrinks_to nb st st' \<and>
      (\<forall>z \<in> set (x # as). z \<in> set (nb_fdlist nb (cs_nb st')) \<longrightarrow> (\<forall>c. cs_conns st' z = Some c \<longrightarrow> get c \<noteq> Some dead)) \<and>
      dom (cs_conns st) - dom (cs_conns st') \<subseteq> {y. (y, dead) \<in> (tied st)\<^sup>+}"
    if eq: "unlink_loop nb get clear kill dead (x # as) st = unlink_loop nb get clear kill dead as st1"
      and 1: "conns_inv ml nb own D st1" "G st1" "shrinks_to nb st st1"
      and x: "\<And>c. x \<in> set (nb_fdlist nb (cs_nb st1)) \<Longrightarrow> cs_conns st1 x = Some c \<Longrightarrow> get c \<noteq> Some dead"
      and gone: "dom (cs_conns st) - dom (cs_conns st1) \<subseteq> {y. (y, dead) \<in> (tied st)\<^sup>+}" for st1
  proof -
    have "length (nb_fdlist nb (cs_nb st1)) \<le> n" using 1(3) Cons.prems(3) by (simp add: shrinks_to_def)
    from Cons.IH [OF 1(1,2) this] obtain st2 where 2: "unlink_loop nb get clear kill dead as st1 = Some st2"
      "conns_inv ml nb own D st2" "G st2" "shrinks_to nb st1 st2"
      "\<forall>z \<in> set as. z \<in> set (nb_fdlist nb (cs_nb st2)) \<longrightarrow> (\<forall>c. cs_conns st2 z = Some c \<longrightarrow> get c \<noteq> Some dead)"
      "dom (cs_conns st1) - dom (cs_conns st2) \<subseteq> {y. (y, dead) \<in> (tied st1)\<^sup>+}" by blast
    have "get c \<noteq> Some dead" if z: "x \<in> set (nb_fdlist nb (cs_nb st2))" "cs_conns st2 x = Some c" for c
    proof -
      have "x \<in> set (nb_fdlist nb (cs_nb st1))" using z(1) 2(4) by (simp add: shrinks_to_def)
      moreover obtain c1 where "cs_conns st1 x = Some c1" "cle c1 c"
        using 2(4) z(2) unfolding shrinks_to_def conns_le_def by blast
      ultimately show ?thesis using x L(3) [of c1 c] by fastforce
    qed
    moreover have "tied st1 \<subseteq> tied st" using 1(3) by (intro conns_le_tied) (simp add: shrinks_to_def)
    then have "(tied st1)\<^sup>+ \<subseteq> (tied st)\<^sup>+" by (auto intro: trancl_mono)
    then have "dom (cs_conns st) - dom (cs_conns st2) \<subseteq> {y. (y, dead) \<in> (tied st)\<^sup>+}" using gone 2(6) by blast
    ultimately show ?thesis
      unfolding eq using 2 shrinks_to_trans [OF 1(3) 2(4)] by auto
  qed
  show ?case
  proof (cases "x \<in> set (nb_fdlist nb (cs_nb st))")
    case False
    then show ?thesis using Cons.prems by (intro step [of st]) simp_all
  next
    case live: True
    then obtain c where c: "cs_conns st x = Some c" using conns_invD(2) [OF Cons.prems(1)] by blast
    show ?thesis
    proof (cases "get c = Some dead")
      case False
      then show ?thesis using Cons.prems live c by (intro step [of st]) simp_all
    next
      case True
      let ?st = "conn_update x clear st"
      have cl: "\<And>c. cle c (clear c)" by (rule L(1))
      have inv1: "conns_inv ml nb own D ?st" by (rule conns_inv_clear [OF Cons.prems(1) cl])
      have G1: "G ?st" by (rule closes_stable [OF cb Cons.prems(2) conns_le_update [OF cl]]) (simp_all add: conn_update_def)
      show ?thesis
      proof (cases "killable c")
        case False
        then have "unlink_loop nb get clear kill dead (x # as) st = unlink_loop nb get clear kill dead as ?st"
          using live c True by (auto simp: killable_def)
        then show ?thesis
        proof (rule step [OF _ inv1 G1])
          show "shrinks_to nb st ?st" by (rule shrinks_to_clear [OF cl]) (use c False in simp)
        qed (use c L(2) in \<open>auto simp: conn_update_def dom_def split: if_splits\<close>)
      next
        case k: True
        have lv: "x \<in> set (nb_fdlist nb (cs_nb ?st))" "length (nb_fdlist nb (cs_nb ?st)) \<le> n"
          using live Cons.prems(3) by simp_all
        obtain st1 where 1: "kill x ?st = Some st1" "conns_inv ml nb own D st1" "G st1" "shrinks_to nb ?st st1"
          "cs_conns st1 x = None" "dom (cs_conns ?st) - dom (cs_conns st1) \<subseteq> {y. (y, x) \<in> (tied ?st)\<^sup>*}"
          using kill [OF inv1 G1 lv] unfolding frees_def by blast
        have gone: "x \<notin> set (nb_fdlist nb (cs_nb st1))" using conns_invD(2) [OF 1(2)] 1(5) by auto
        have "(x, dead) \<in> tied st" using c k True L(4) [of c] by (auto simp: tied_def)
        moreover have "(tied ?st)\<^sup>* \<subseteq> (tied st)\<^sup>*" by (intro rtrancl_mono conns_le_tied conns_le_update cl)
        ultimately have "{y. (y, x) \<in> (tied ?st)\<^sup>*} \<subseteq> {y. (y, dead) \<in> (tied st)\<^sup>+}"
          by (auto intro: rtrancl_into_trancl1)
        then have dead: "dom (cs_conns st) - dom (cs_conns st1) \<subseteq> {y. (y, dead) \<in> (tied st)\<^sup>+}"
          using 1(6) by (fastforce simp: conn_update_def dom_def)
        have "unlink_loop nb get clear kill dead (x # as) st = unlink_loop nb get clear kill dead as st1"
          using live c True k 1(1) by (auto simp: killable_def)
        then show ?thesis
          by (rule step [OF _ 1(2,3) shrinks_to_kill [OF cl 1(4) gone] _ dead]) (use gone in simp)
      qed
    qed
  qed
qed

section \<open>Closing\<close>

lemma link_fields: "link_field c_endpoint (\<lambda>c. c\<lparr>c_endpoint := None\<rparr>)" "link_field c_parent (\<lambda>c. c\<lparr>c_parent := None\<rparr>)"
  by (simp_all add: link_field_def)

lemma conn_free_fuel_ok:
  assumes nb: "nb_closes nb own" and cb: "closes_ok ml nb G"
  shows "conns_inv ml nb own D st \<Longrightarrow> G st \<Longrightarrow> a \<in> set (nb_fdlist nb (cs_nb st)) \<Longrightarrow>
    length (nb_fdlist nb (cs_nb st)) \<le> fuel \<Longrightarrow>
    \<exists>st'. conn_free_fuel ml nb fuel a st = Some st' \<and> frees ml nb own G D a st st'"
proof (induction fuel arbitrary: D st a)
  case 0
  then show ?case by simp
next
  case (Suc n)
  obtain st1 where start: "conn_free_fuel ml nb (Suc n) a st = do {
      st \<leftarrow> remchildren nb (conn_free_fuel ml nb n) a st1;
      st \<leftarrow> remendpoint nb (conn_free_fuel ml nb n) a st;
      Some (st\<lparr>cs_conns := (cs_conns st)(a := None)\<rparr>) }"
    and 1: "cs_conns st1 = cs_conns st" "nb_fdlist nb (cs_nb st1) = filter (\<lambda>x. x \<noteq> a) (nb_fdlist nb (cs_nb st))" "G st1"
      "conns_inv ml nb own (insert a D) st1"
    by (rule conn_free_start [OF nb cb Suc.prems(1-3)])
  let ?D = "insert a D"
  have notD: "a \<notin> D" using conns_invD(2) [OF Suc.prems(1)] Suc.prems(3) by auto
  have len1: "length (nb_fdlist nb (cs_nb st1)) \<le> n"
  proof -
    have "length (filter (\<lambda>x. x \<noteq> a) (nb_fdlist nb (cs_nb st))) < length (nb_fdlist nb (cs_nb st))"
      by (rule length_filter_less [OF Suc.prems(3)]) simp
    with 1(2) Suc.prems(4) show ?thesis by simp
  qed
  have kill: "\<exists>st'. conn_free_fuel ml nb n x s = Some st' \<and> frees ml nb own G ?D x s st'"
    if "conns_inv ml nb own ?D s" "G s" "x \<in> set (nb_fdlist nb (cs_nb s))" "length (nb_fdlist nb (cs_nb s)) \<le> n" for x s
    by (rule Suc.IH [OF that])
  let ?s1 = "conn_update a (\<lambda>c. c\<lparr>c_parent := None\<rparr>) st1"
  have s1: "conns_inv ml nb own ?D ?s1" "G ?s1" "length (nb_fdlist nb (cs_nb ?s1)) \<le> n"
    using conns_inv_clear [OF 1(4), of "\<lambda>c. c\<lparr>c_parent := None\<rparr>" a]
      closes_stable [OF cb 1(3) conns_le_update [of "\<lambda>c. c\<lparr>c_parent := None\<rparr>" st1 a]] len1
    by (simp_all add: conn_update_def)
  obtain st2 where 2: "remchildren nb (conn_free_fuel ml nb n) a st1 = Some st2" "conns_inv ml nb own ?D st2" "G st2"
    "shrinks_to nb ?s1 st2"
    "\<forall>x \<in> set (nb_fdlist nb (cs_nb ?s1)). x \<in> set (nb_fdlist nb (cs_nb st2)) \<longrightarrow> (\<forall>c. cs_conns st2 x = Some c \<longrightarrow> c_parent c \<noteq> Some a)"
    "dom (cs_conns ?s1) - dom (cs_conns st2) \<subseteq> {y. (y, a) \<in> (tied ?s1)\<^sup>+}"
    using unlink_loop_ok [OF link_fields(2) kill cb s1, of a "nb_fdlist nb (cs_nb ?s1)"] unfolding remchildren_def Let_def by blast
  let ?s2 = "conn_update a (\<lambda>c. c\<lparr>c_endpoint := None\<rparr>) st2"
  have len2: "length (nb_fdlist nb (cs_nb st2)) \<le> n" using 2(4) s1(3) by (simp add: shrinks_to_def)
  have s2: "conns_inv ml nb own ?D ?s2" "G ?s2" "length (nb_fdlist nb (cs_nb ?s2)) \<le> n"
    using conns_inv_clear [OF 2(2), of "\<lambda>c. c\<lparr>c_endpoint := None\<rparr>" a]
      closes_stable [OF cb 2(3) conns_le_update [of "\<lambda>c. c\<lparr>c_endpoint := None\<rparr>" st2 a]] len2
    by (simp_all add: conn_update_def)
  obtain st3 where 3: "remendpoint nb (conn_free_fuel ml nb n) a st2 = Some st3" "conns_inv ml nb own ?D st3" "G st3"
    "shrinks_to nb ?s2 st3"
    "\<forall>x \<in> set (nb_fdlist nb (cs_nb ?s2)). x \<in> set (nb_fdlist nb (cs_nb st3)) \<longrightarrow> (\<forall>c. cs_conns st3 x = Some c \<longrightarrow> c_endpoint c \<noteq> Some a)"
    "dom (cs_conns ?s2) - dom (cs_conns st3) \<subseteq> {y. (y, a) \<in> (tied ?s2)\<^sup>+}"
    using unlink_loop_ok [OF link_fields(1) kill cb s2, of a "nb_fdlist nb (cs_nb ?s2)"] unfolding remendpoint_def Let_def by blast
  let ?st = "st3\<lparr>cs_conns := (cs_conns st3)(a := None)\<rparr>"
  have run: "conn_free_fuel ml nb (Suc n) a st = Some ?st" using start 2(1) 3(1) by simp
  have upd: "cs_conns ?s1 z = cs_conns st z" "cs_conns ?s2 z = cs_conns st2 z" "cs_conns ?st z = cs_conns st3 z" if "z \<noteq> a" for z
    using that 1(1) by (simp_all add: conn_update_def)
  have doms: "dom (cs_conns ?s1) = dom (cs_conns st)" "dom (cs_conns ?s2) = dom (cs_conns st2)" "dom (cs_conns ?st) = dom (cs_conns st3) - {a}"
    using 1(1) by (auto simp: conn_update_def dom_def)
  have le1: "conns_le st ?s1" using conns_le_trans [OF conns_le_same [OF 1(1)] conns_le_update [of "\<lambda>c. c\<lparr>c_parent := None\<rparr>" st1 a]] by simp
  have le2: "conns_le st2 ?s2" by (rule conns_le_update) simp
  have le3: "conns_le st3 ?st" by (auto simp: conns_le_def split: if_splits)
  have le12: "conns_le st st2" using conns_le_trans [OF le1] 2(4) by (simp add: shrinks_to_def)
  have le: "conns_le st ?st"
    using conns_le_trans [OF conns_le_trans [OF conns_le_trans [OF le12 le2]] le3] 3(4) by (simp add: shrinks_to_def)
  have live: "z \<in> set (nb_fdlist nb (cs_nb ?s2)) \<and> z \<in> set (nb_fdlist nb (cs_nb st2)) \<and> z \<in> set (nb_fdlist nb (cs_nb ?s1)) \<and>
      z \<in> set (nb_fdlist nb (cs_nb st)) \<and> z \<noteq> a" if "z \<in> set (nb_fdlist nb (cs_nb ?st))" for z
  proof -
    have "z \<in> set (nb_fdlist nb (cs_nb ?s2))" using that 3(4) by (simp add: shrinks_to_def)
    moreover from this have "z \<in> set (nb_fdlist nb (cs_nb ?s1))" using 2(4) by (simp add: shrinks_to_def)
    ultimately show ?thesis using 1(2) by simp
  qed
  have shr: "shrinks_to nb st ?st"
    unfolding shrinks_to_def
  proof (intro conjI ballI allI impI)
    fix z assume z: "z \<in> set (nb_fdlist nb (cs_nb ?st))"
    then show "z \<in> set (nb_fdlist nb (cs_nb st))" using live by blast
    fix c assume c: "cs_conns st z = Some c \<and> killable c"
    then have "cs_conns st2 z = Some c" using 2(4) live [OF z] upd(1) [of z] unfolding shrinks_to_def by simp
    then have "cs_conns st3 z = Some c" using 3(4) c z live [OF z] upd(2) [of z] unfolding shrinks_to_def by simp
    then show "cs_conns ?st z = Some c" using live [OF z] by simp
  next
    have "length (nb_fdlist nb (cs_nb st3)) \<le> length (nb_fdlist nb (cs_nb st2))"
      "length (nb_fdlist nb (cs_nb st2)) \<le> length (nb_fdlist nb (cs_nb st1))"
      "length (nb_fdlist nb (cs_nb st1)) \<le> length (nb_fdlist nb (cs_nb st))"
      using 3(4) 2(4) 1(2) unfolding shrinks_to_def by simp_all
    then show "length (nb_fdlist nb (cs_nb ?st)) \<le> length (nb_fdlist nb (cs_nb st))" by simp
  qed (rule le)
  note D3 = conns_invD [OF 3(2)]
  have inv: "conns_inv ml nb own D ?st"
  proof (rule conns_invI, unfold doms)
    show "D \<subseteq> dom (cs_conns st3) - {a}" using D3(1) notD by auto
    show "set (nb_fdlist nb (cs_nb ?st)) = dom (cs_conns st3) - {a} - D" using D3(2) by auto
    fix z c assume z: "z \<in> set (nb_fdlist nb (cs_nb ?st))" "cs_conns ?st z = Some c"
    have z3: "z \<in> set (nb_fdlist nb (cs_nb st3))" "cs_conns st3 z = Some c" using z live [OF z(1)] by simp_all
    show "\<exists>f. c_fdt c = Some f \<and> own f = z" by (rule D3(3) [OF z3])
    show "module_at ml m \<noteq> None" if "c_owner c = Some m" for m by (rule D3(4) [OF z3 that])
    fix y assume y: "c_endpoint c = Some y \<or> c_parent c = Some y"
    have "c_endpoint c \<noteq> Some a" using 3(5) live [OF z(1)] z3 by blast
    moreover have "c_parent c \<noteq> Some a"
    proof -
      obtain c2 where "cs_conns ?s2 z = Some c2" "cle c2 c"
        using 3(4) z3(2) unfolding shrinks_to_def conns_le_def by blast
      moreover from this have "c_parent c2 \<noteq> Some a" using 2(5) live [OF z(1)] upd(2) [of z] by auto
      ultimately show ?thesis by (auto simp: cle_def)
    qed
    ultimately show "y \<in> dom (cs_conns st3) - {a}" using D3(5) [OF z3 y] y by auto
  qed
  have "G ?st" by (rule closes_stable [OF cb 3(3) le3]) simp_all
  moreover have "dom (cs_conns st) - dom (cs_conns ?st) \<subseteq> {y. (y, a) \<in> (tied st)\<^sup>*}"
  proof -
    have "(tied ?s1)\<^sup>* \<subseteq> (tied st)\<^sup>*" "(tied ?s2)\<^sup>* \<subseteq> (tied st)\<^sup>*"
      by (intro rtrancl_mono conns_le_tied le1 conns_le_trans [OF le12 le2])+
    then have sub: "{y. (y, a) \<in> (tied ?s1)\<^sup>+} \<subseteq> {y. (y, a) \<in> (tied st)\<^sup>*}"
      "{y. (y, a) \<in> (tied ?s2)\<^sup>+} \<subseteq> {y. (y, a) \<in> (tied st)\<^sup>*}"
      by (auto dest: trancl_into_rtrancl)
    have "dom (cs_conns st) - dom (cs_conns st2) \<subseteq> {y. (y, a) \<in> (tied st)\<^sup>*}"
      using 2(6) sub(1) unfolding doms by (rule order_trans)
    moreover have "dom (cs_conns st2) - dom (cs_conns st3) \<subseteq> {y. (y, a) \<in> (tied st)\<^sup>*}"
      using 3(6) sub(2) unfolding doms by (rule order_trans)
    ultimately show ?thesis unfolding doms by auto
  qed
  ultimately show ?case using run inv shr unfolding frees_def by (intro exI [of _ ?st]) simp
qed

text \<open>Everything tied to a closed connection is gone: a link that a survivor had can only have been cut
  by the death of what it led to, and then the survivor would have died with it.\<close>

lemma frees_all_tied:
  assumes inv: "conns_inv ml nb own {} st" and fr: "frees ml nb own G {} a st st'" and t: "(y, a) \<in> (tied st)\<^sup>*"
  shows "cs_conns st' y = None"
  using t
proof (induction rule: converse_rtrancl_induct)
  case base
  then show ?case using fr by (simp add: frees_def)
next
  case (step y z)
  show ?case
  proof (rule ccontr)
    assume "cs_conns st' y \<noteq> None"
    then have live: "y \<in> set (nb_fdlist nb (cs_nb st'))"
      using fr conns_invD(2) [of ml nb own "{}" st'] unfolding frees_def by auto
    obtain c where c: "cs_conns st y = Some c" "killable c" "c_endpoint c = Some z \<or> c_parent c = Some z"
      using step(1) by (auto simp: tied_def)
    then have "cs_conns st' y = Some c" using fr live unfolding frees_def shrinks_to_def by blast
    then have "z \<in> dom (cs_conns st')" using fr c(3) live conns_invD(5) [of ml nb own "{}" st' y c z] unfolding frees_def by blast
    with step(3) show False by auto
  qed
qed

lemma naf_conn_free_closes:
  assumes "nb_closes nb own" "closes_ok ml nb G" "conns_inv ml nb own {} st" "G st"
    and "a \<in> dom (cs_conns st)"
  shows "\<exists>st'. naf_conn_free ml nb a st = Some st' \<and>
    dom (cs_conns st') = dom (cs_conns st) - {y. (y, a) \<in> (tied st)\<^sup>*} \<and>
    conns_inv ml nb own {} st' \<and> shrinks_to nb st st' \<and> G st'"
proof -
  have live: "a \<in> set (nb_fdlist nb (cs_nb st))" using conns_invD(2) [OF assms(3)] assms(5) by simp
  obtain st' where st': "naf_conn_free ml nb a st = Some st'" "frees ml nb own G {} a st st'"
    using conn_free_fuel_ok [OF assms(1-4) live, of "Suc (length (nb_fdlist nb (cs_nb st)))"]
    unfolding naf_conn_free_def by auto
  have "dom (cs_conns st') \<subseteq> dom (cs_conns st)"
    using st'(2) unfolding frees_def shrinks_to_def conns_le_def by blast
  moreover have "dom (cs_conns st) - dom (cs_conns st') \<subseteq> {y. (y, a) \<in> (tied st)\<^sup>*}"
    using st'(2) unfolding frees_def by blast
  moreover have "y \<notin> dom (cs_conns st')" if "(y, a) \<in> (tied st)\<^sup>*" for y
    using frees_all_tied [OF assms(3) st'(2) that] by (simp add: domIff)
  ultimately have "dom (cs_conns st') = dom (cs_conns st) - {y. (y, a) \<in> (tied st)\<^sup>*}" by blast
  with st' show ?thesis unfolding frees_def by blast
qed

section \<open>Properties\<close>

text \<open>C14. Closing a connection returns, whatever hangs on it, and takes with it exactly those connections
  that depend on it, directly or through others: whose endpoint or parent dies, unless they are
  marked as outliving it. No link leads to a connection that is gone, and those that stay lose at
  most links.\<close>

theorem conn_free_exact:
  assumes "nb_closes nb own" "callbacks_ok ml nb G" "conns_inv ml nb own {} st" "G st"
    and "a \<in> dom (cs_conns st)"
  shows "\<exists>st'. naf_conn_free ml nb a st = Some st' \<and>
    dom (cs_conns st') = dom (cs_conns st) - {y. (y, a) \<in> (tied st)\<^sup>*} \<and>
    conns_inv ml nb own {} st' \<and> conns_le st st' \<and> G st'"
  using naf_conn_free_closes [OF assms(1) callbacks_closes [OF assms(2)] assms(3-5)] by (auto simp: shrinks_to_def)

text \<open>A pair of connections, and one that outlives its endpoint; the state of libnbio is the list of the
  open connections.\<close>

definition list_ops :: "nat list nbio_ops" where
  "list_ops = \<lparr>nb_addrxvector = \<lambda>_ _ _ _ n. (0, n), nb_addtxvector = \<lambda>_ _ _ n. (0, n),
     nb_remtoprxvector = \<lambda>_ n. (None, n), nb_remtoptxvector = \<lambda>_ n. (None, n),
     nb_setcloseonflush = \<lambda>_ n. (0, n), nb_setraw = \<lambda>_ _ n. n, nb_addfd = \<lambda>_ _ a n. (Some a, a # n), nb_fdlist = \<lambda>n. n,
     nb_dial = \<lambda>_ _ n. (None, n), nb_sfd_close = \<lambda>_ n. n, nb_getsockname = \<lambda>_. ([], 0),
     nb_closefdt = \<lambda>f n. filter (\<lambda>a. a \<noteq> f) n, nb_getincomingconn = \<lambda>_ n. (Some 9, n), nb_sfd_read0 = \<lambda>_ n. (0, n),
     nb_sfd_newlistener = \<lambda>_ _ n. (Some 8, n), nb_cleanuponly = \<lambda>n. n, nb_setdelim = \<lambda>_ _ n. (0, n),
     nb_socketpair = \<lambda>n. (None, n)\<rparr>"

definition list_conn :: "nat \<Rightarrow> naf_u32_t \<Rightarrow> nat option \<Rightarrow> nafconn" where
  "list_conn f type ep = \<lparr>c_fdt = Some f, c_type = type, c_flags = 0, c_lastrx = 0, c_lasttx_soft = 0,
     c_lasttx_hard = 0, c_endpoint = ep, c_parent = None, c_localip = [], c_localport = 0, c_servtype = 0,
     c_taglist = [], c_nextseqnum = 0, c_owner = None, c_cid = 0\<rparr>"

definition list_state :: "nat list cstate" where
  "list_state = \<lparr>cs_conns = [4 \<mapsto> list_conn 4 NAF_CONN_TYPE_CLIENT (Some 5), 5 \<mapsto> list_conn 5 NAF_CONN_TYPE_SERVER (Some 4),
       6 \<mapsto> list_conn 6 NAF_CONN_TYPE_PROROGUEDEATH (Some 5)],
     cs_nb = [4, 5, 6], cs_nextcid = 7, cs_openconns = 3, cs_next = 7, cs_children = []\<rparr>"

lemma drain_none: "(\<And>n. rem n = (None, n)) \<Longrightarrow> drain rem n = Some n"
  by (subst drain.simps) simp

lemma list_ops_closes: "nb_closes list_ops (\<lambda>f. f)"
  by (simp add: nb_closes_def list_ops_def drain_none)

lemma list_state_inv: "conns_inv [] list_ops (\<lambda>f. f) {} list_state"
  by (rule conns_invI) (auto simp: list_state_def list_ops_def list_conn_def split: if_splits)

lemma callbacks_ok_Nil: "callbacks_ok [] nb (\<lambda>_. True)"
  by (simp add: callbacks_ok_def module_at_def)

theorem conn_free_exact_witness:
  "\<exists>st'. naf_conn_free [] list_ops 4 list_state = Some st' \<and> dom (cs_conns st') = {6}"
proof -
  have "4 \<in> dom (cs_conns list_state)" by (simp add: list_state_def)
  from conn_free_exact [OF list_ops_closes callbacks_ok_Nil list_state_inv _ this]
  obtain st' where st': "naf_conn_free [] list_ops 4 list_state = Some st'"
    "dom (cs_conns st') = dom (cs_conns list_state) - {y. (y, 4) \<in> (tied list_state)\<^sup>*}" by blast
  have k: "killable (list_conn f NAF_CONN_TYPE_CLIENT e)" "killable (list_conn f NAF_CONN_TYPE_SERVER e)"
    "\<not> killable (list_conn f NAF_CONN_TYPE_PROROGUEDEATH e)" for f e
    by (simp_all add: killable_def list_conn_def)
  then have "tied list_state = {(4, 5), (5, 4)}"
    by (auto simp: tied_def list_state_def list_conn_def killable_def split: if_splits)
  then have t: "tied list_state = {(4, 5), (5, 4)}" .
  have "y = 4 \<or> y = 5" if "(y, 4) \<in> (tied list_state)\<^sup>*" for y
    using that unfolding t by (induction rule: converse_rtrancl_induct) auto
  moreover have "(5, 4) \<in> (tied list_state)\<^sup>*" unfolding t by (rule r_into_rtrancl) simp
  ultimately have "{y. (y, 4) \<in> (tied list_state)\<^sup>*} = {4, 5}" by auto
  moreover have "dom (cs_conns list_state) = {4, 5, 6}" by (auto simp: list_state_def)
  ultimately have "dom (cs_conns st') = {6}" using st'(2) by auto
  with st'(1) show ?thesis by (intro exI [of _ st']) auto
qed

end
