(* ===== verification/Proxy.thy ===== *)
theory Proxy
  imports Oscar ConnFree
begin

text \<open>
  The proxy closed: the module \<^verbatim>\<open>timps-oscar\<close> in the list of modules, and what the events of its
  connections do through it.
\<close>

section \<open>The module\<close>

text \<open>\<^verbatim>\<open>modfirst\<close> of \<^verbatim>\<open>timps/oscar/oscar.c\<close>. The functions for start-up, shutdown and signals work on the
  tables of the router and are not called through the module here.\<close>

definition oscar_modfirst :: "'nb oenv \<Rightarrow> 'nb router \<Rightarrow> 'nb ostate firstproc" where
  "oscar_modfirst e route m md st =
     (case naf_module_setname (Some md) (Some (cstr ''timps-oscar'')) of
        (r, Some md) \<Rightarrow>
          Some (0, md\<lparr>nm_freetag := Some (\<lambda>m object tagname type tagdata st. freetag e object tagname tagdata st),
                      nm_connready := Some (\<lambda>m conn what st. connready e route conn what st),
                      nm_takeconn := Some (\<lambda>m conn st. takeconn e conn st),
                      nm_timer := Some (\<lambda>m st. timerhandler e st), nm_timerfreq := 5\<rparr>, st)
      | (r, None) \<Rightarrow> None)"

definition timps_oscar__register ::
    "'nb oenv \<Rightarrow> 'nb router \<Rightarrow> nafmod \<Rightarrow> 'nb ostate modlist_item list \<Rightarrow> int \<times> 'nb ostate modlist_item list" where
  "timps_oscar__register e route a ml =
     naf_module__registerresident (oe_mal e) a (Some (cstr ''timps-oscar'')) (Some (oscar_modfirst e route)) 3 ml"

text \<open>Of the modules of the program only this one has a function for tags, and none has one for
  connections that are closed.\<close>

definition proxy_modules :: "'nb oenv \<Rightarrow> 'nb ostate modlist_item list \<Rightarrow> bool" where
  "proxy_modules e ml \<longleftrightarrow> (\<forall>m md. module_at ml m = Some md \<longrightarrow> nm_connkill md = None \<and>
     (nm_freetag md = None \<or> m = oe_mod e \<and>
        nm_freetag md = Some (\<lambda>m object tagname type tagdata st. freetag e object tagname tagdata st)))"

text \<open>It is in the list, with its function.\<close>

definition proxy_loaded :: "'nb oenv \<Rightarrow> 'nb ostate modlist_item list \<Rightarrow> bool" where
  "proxy_loaded e ml \<longleftrightarrow> proxy_modules e ml \<and> (\<exists>md. module_at ml (oe_mod e) = Some md \<and>
     nm_freetag md = Some (\<lambda>m object tagname type tagdata st. freetag e object tagname tagdata st))"

section \<open>Logging out\<close>

text \<open>Another connection of the same user with a client behind it.\<close>

definition has_other :: "'nb oenv \<Rightarrow> bytes \<Rightarrow> nat \<Rightarrow> 'nb ostate \<Rightarrow> bool" where
  "has_other e sn self st \<longleftrightarrow> (\<exists>a \<in> set (nb_fdlist (oe_nb e) (cs_nb st)). a \<noteq> self \<and>
     (\<exists>c cur. cs_conns st a = Some c \<and> c_type c AND NAF_CONN_TYPE_SERVER \<noteq> 0 \<and> c_endpoint c \<noteq> None \<and>
        conn_screenname e (Some a) st = Some (Some cur) \<and> toscar_sncmp sn cur = Some 0))"

text \<open>The search for it does not fault: every connection on the list is there, and the screen names can
  be compared.\<close>

definition names_safe :: "'nb oenv \<Rightarrow> bytes \<Rightarrow> 'nb ostate \<Rightarrow> bool" where
  "names_safe e sn st \<longleftrightarrow> (\<forall>a \<in> set (nb_fdlist (oe_nb e) (cs_nb st)). cs_conns st a \<noteq> None \<and>
     (\<exists>cur. conn_screenname e (Some a) st = Some cur \<and> (\<forall>s. cur = Some s \<longrightarrow> toscar_sncmp sn s \<noteq> None)))"

lemma userhasotherclient_eq:
  assumes "names_safe e sn st"
  shows "toscar__userhasotherclient e sn self st = Some (has_other e sn self st, st)"
proof -
  let ?P = "\<lambda>a. a \<noteq> self \<and> (\<exists>c cur. cs_conns st a = Some c \<and> c_type c AND NAF_CONN_TYPE_SERVER \<noteq> 0 \<and> c_endpoint c \<noteq> None \<and>
        conn_screenname e (Some a) st = Some (Some cur) \<and> toscar_sncmp sn cur = Some 0)"
  have "toscar__userhasotherclient__matcher e sn self a st = Some (?P a, st)"
    if a: "a \<in> set (nb_fdlist (oe_nb e) (cs_nb st))" for a
  proof -
    obtain c cur where c: "cs_conns st a = Some c" "conn_screenname e (Some a) st = Some cur"
      "\<forall>s. cur = Some s \<longrightarrow> toscar_sncmp sn s \<noteq> None"
      using assms a unfolding names_safe_def by blast
    show ?thesis
    proof (cases cur)
      case (Some s)
      with c obtain r where "toscar_sncmp sn s = Some r" by auto
      with c Some show ?thesis by (auto simp: toscar__userhasotherclient__matcher_def)
    qed (use c in \<open>auto simp: toscar__userhasotherclient__matcher_def\<close>)
  qed
  then have "naf_conn_find (oe_nb e) (toscar__userhasotherclient__matcher e sn self) st =
      Some (List.find ?P (nb_fdlist (oe_nb e) (cs_nb st)), st)"
    unfolding naf_conn_find_def by (rule conn_find_loop_pure)
  moreover have "List.find ?P l \<noteq> None \<longleftrightarrow> (\<exists>a \<in> set l. ?P a)" for l by (auto simp: find_None_iff)
  ultimately show ?thesis by (simp add: toscar__userhasotherclient_def has_other_def)
qed

lemma freetag_screenname:
  assumes inv: "gnr_inv (os_gnr st)" and safe: "names_safe e sn st"
  obtains g where "freetag e self (cstr ''conn.screenname'') (DStr sn) st = Some (st\<lparr>os_gnr := g\<rparr>)" "gnr_inv g"
    "if has_other e sn self st then g = os_gnr st
     else gnr_node_findbyname (Some sn) (Some OSCARSERVICE) g = None \<and>
       (case gnr_node_findbyname (Some sn) (Some OSCARSERVICE) (os_gnr st) of
          None \<Rightarrow> g = os_gnr st
        | Some gn \<Rightarrow> mset (gn # all_nodes g) = mset (all_nodes (os_gnr st)))"
proof (cases "gnr_node_findbyname (Some sn) (Some OSCARSERVICE) (os_gnr st)")
  case None
  then show thesis using inv by (intro that [of "os_gnr st"]) (simp_all add: freetag_def)
next
  case (Some gn)
  then have gn: "gn \<in> set (all_nodes (os_gnr st))" "node_matches sn (Some OSCARSERVICE) gn"
    by (auto dest: findbyname_Some)
  show thesis
  proof (cases "has_other e sn self st")
    case True
    then show thesis using inv Some userhasotherclient_eq [OF safe, of self]
      by (intro that [of "os_gnr st"]) (simp_all add: freetag_def)
  next
    case False
    show thesis
    proof (rule gnr_node_offline_eq [OF inv gn(1), of 2])
      fix g
      assume g: "gnr_node_offline (gn_addr gn) 2 (os_gnr st) = Some (0, g)" "gnr_inv g"
        "mset (gn # all_nodes g) = mset (all_nodes (os_gnr st))"
      have "\<not> node_matches sn (Some OSCARSERVICE) x" if x: "x \<in> set (all_nodes g)" for x
      proof
        assume "node_matches sn (Some OSCARSERVICE) x"
        then have "same_node x gn" using gn(2) by (blast intro: node_matches_same)
        moreover have "x \<in> set (all_nodes (os_gnr st))" using x g(3) by (metis list.set_intros(2) mset_eq_setD)
        ultimately have addr: "gn_addr x = gn_addr gn" using nodes_okD(2) [OF gnr_invD(3) [OF inv]] gn(1) by blast
        have "mset (map gn_addr (gn # all_nodes g)) = mset (map gn_addr (all_nodes (os_gnr st)))"
          using g(3) by (simp only: mset_map)
        then have "distinct (map gn_addr (gn # all_nodes g))"
          using gnr_invD(5) [OF inv] mset_eq_imp_distinct_iff by blast
        with x addr show False by (metis distinct.simps(2) imageI list.simps(9) list.set_map)
      qed
      then have none: "gnr_node_findbyname (Some sn) (Some OSCARSERVICE) g = None" using findbyname_None [OF g(2)] by blast
      show thesis
        using Some userhasotherclient_eq [OF safe, of self] False g(1) none g(2,3)
        by (intro that [of g]) (simp_all add: freetag_def)
    qed
  qed
qed

section \<open>Closing connections of the proxy\<close>

text \<open>The screen names attached to connections are strings that can be compared with each other, and
  the node table is sound.\<close>

definition sn_tags :: "'nb oenv \<Rightarrow> taglist \<Rightarrow> bytes set" where
  "sn_tags e tags = {sn. \<exists>t \<in> set tags. tag_owner t = oe_mod e \<and> tag_name t = cstr ''conn.screenname'' \<and> tag_data t = DStr sn}"

definition tidy :: "'nb oenv \<Rightarrow> 'nb ostate \<Rightarrow> bool" where
  "tidy e st \<longleftrightarrow> gnr_inv (os_gnr st) \<and>
     (\<forall>x c t. cs_conns st x = Some c \<and> t \<in> set (c_taglist c) \<and> tag_owner t = oe_mod e \<and>
        tag_name t = cstr ''conn.screenname'' \<longrightarrow> (\<exists>sn. tag_data t = DStr sn)) \<and>
     (\<forall>x c y d sn cur. cs_conns st x = Some c \<and> cs_conns st y = Some d \<and> sn \<in> sn_tags e (c_taglist c) \<and>
        cur \<in> sn_tags e (c_taglist d) \<longrightarrow> toscar_sncmp sn cur \<noteq> None)"

lemma tidy_stable:
  assumes t: "tidy e st" and le: "conns_le st st'" and gnr: "gnr_inv (os_gnr st')"
  shows "tidy e st'"
proof -
  have old: "\<exists>c. cs_conns st x = Some c \<and> c_taglist c = c_taglist c'" if "cs_conns st' x = Some c'" for x c'
    using le that cle_same unfolding conns_le_def by metis
  show ?thesis
    unfolding tidy_def
  proof (intro conjI allI impI)
    show "gnr_inv (os_gnr st')" by (rule gnr)
    fix x c' t'
    assume "cs_conns st' x = Some c' \<and> t' \<in> set (c_taglist c') \<and> tag_owner t' = oe_mod e \<and> tag_name t' = cstr ''conn.screenname''"
    moreover from this obtain c where "cs_conns st x = Some c" "c_taglist c = c_taglist c'" using old by blast
    ultimately show "\<exists>sn. tag_data t' = DStr sn" using t unfolding tidy_def by metis
  next
    fix x c' y d' sn cur
    assume a: "cs_conns st' x = Some c' \<and> cs_conns st' y = Some d' \<and> sn \<in> sn_tags e (c_taglist c') \<and> cur \<in> sn_tags e (c_taglist d')"
    obtain c where "cs_conns st x = Some c" "c_taglist c = c_taglist c'" using a old by blast
    moreover obtain d where "cs_conns st y = Some d" "c_taglist d = c_taglist d'" using a old by blast
    ultimately show "toscar_sncmp sn cur \<noteq> None" using t a unfolding tidy_def by metis
  qed
qed

text \<open>The screen name of a connection is that of one of its tags.\<close>

lemma conn_screenname_tidy:
  assumes t: "tidy e st" and c: "cs_conns st a = Some c"
  obtains cur where "conn_screenname e (Some a) st = Some cur" "\<forall>s. cur = Some s \<longrightarrow> s \<in> sn_tags e (c_taglist c)"
    "cur = None \<longrightarrow> sn_tags e (c_taglist c) = {}"
proof (cases "List.find (tag_matches (oe_mod e, cstr ''conn.screenname'')) (c_taglist c)")
  case None
  then have "naf_tag_fetch (Some (c_taglist c)) (Some (oe_mod e)) (Some (cstr ''conn.screenname'')) = (-1, None)"
    by (simp add: naf_tag_fetch_def badname_def cstr_def fetch_loop_owner tag_search_find)
  moreover have "sn_tags e (c_taglist c) = {}" using None by (auto simp: find_None_iff sn_tags_def tag_matches_def)
  ultimately show thesis using c by (intro that [of None]) (simp_all add: conn_screenname_def naf_conn_tag_fetch_def)
next
  case (Some tag)
  then have tag: "tag \<in> set (c_taglist c)" "tag_owner tag = oe_mod e" "tag_name tag = cstr ''conn.screenname''"
    by (auto simp: find_Some_iff tag_matches_def)
  then obtain sn where sn: "tag_data tag = DStr sn" using t c unfolding tidy_def by blast
  have "naf_tag_fetch (Some (c_taglist c)) (Some (oe_mod e)) (Some (cstr ''conn.screenname'')) =
      (0, Some (tag_type tag, DStr sn))"
    using Some sn by (simp add: naf_tag_fetch_def badname_def cstr_def fetch_loop_owner tag_search_find)
  then show thesis
    using c sn tag by (intro that [of "Some sn"]) (auto simp: conn_screenname_def naf_conn_tag_fetch_def sn_tags_def)
qed

lemma tidy_names_safe:
  assumes t: "tidy e st" and fds: "set (nb_fdlist (oe_nb e) (cs_nb st)) \<subseteq> dom (cs_conns st)"
    and c: "cs_conns st x = Some c" "sn \<in> sn_tags e (c_taglist c)"
  shows "names_safe e sn st"
  unfolding names_safe_def
proof
  fix a
  assume "a \<in> set (nb_fdlist (oe_nb e) (cs_nb st))"
  then obtain d where d: "cs_conns st a = Some d" using fds by auto
  obtain cur where cur: "conn_screenname e (Some a) st = Some cur" "\<forall>s. cur = Some s \<longrightarrow> s \<in> sn_tags e (c_taglist d)"
    by (rule conn_screenname_tidy [OF t d])
  have cmp: "toscar_sncmp s1 s2 \<noteq> None" if "s1 \<in> sn_tags e (c_taglist c)" "s2 \<in> sn_tags e (c_taglist d)" for s1 s2
    using t c(1) d that unfolding tidy_def by blast
  have "toscar_sncmp sn s \<noteq> None" if "cur = Some s" for s using cmp [OF c(2)] cur(2) that by blast
  with cur d show "cs_conns st a \<noteq> None \<and> (\<exists>cur. conn_screenname e (Some a) st = Some cur \<and>
      (\<forall>s. cur = Some s \<longrightarrow> toscar_sncmp sn s \<noteq> None))" by auto
qed

lemma freetag_tidy:
  assumes t: "tidy e st" and fds: "set (nb_fdlist (oe_nb e) (cs_nb st)) \<subseteq> dom (cs_conns st)"
    and c: "cs_conns st x = Some c" "tag \<in> set (c_taglist c)" "tag_owner tag = oe_mod e"
  shows "\<exists>st'. freetag e x (tag_name tag) (tag_data tag) st = Some st' \<and> tidy e st' \<and> same_conns (oe_nb e) st st'"
proof (cases "tag_name tag = cstr ''conn.screenname''")
  case False
  then show ?thesis using t by (simp add: freetag_def same_conns_def)
next
  case True
  then obtain sn where sn: "tag_data tag = DStr sn" using t c unfolding tidy_def by blast
  then have mem: "sn \<in> sn_tags e (c_taglist c)" using c True by (auto simp: sn_tags_def)
  have "gnr_inv (os_gnr st)" using t by (simp add: tidy_def)
  from freetag_screenname [OF this tidy_names_safe [OF t fds c(1) mem], of x]
  obtain g where g: "freetag e x (cstr ''conn.screenname'') (DStr sn) st = Some (st\<lparr>os_gnr := g\<rparr>)" "gnr_inv g" by metis
  have "tidy e (st\<lparr>os_gnr := g\<rparr>)" by (rule tidy_stable [OF t]) (simp_all add: conns_le_same g(2))
  with g show ?thesis by (simp add: True sn same_conns_def)
qed

lemma proxy_callbacks:
  assumes ml: "proxy_modules e ml"
  shows "callbacks_ok ml (oe_nb e) (tidy e)"
  unfolding callbacks_ok_def
proof (intro conjI allI impI)
  fix st st' :: "'a ostate"
  assume a: "tidy e st \<and> conns_le st st' \<and> cstate.more st' = cstate.more st"
  then have "os_gnr st' = os_gnr st" by (metis ostate_moreD(2))
  then have "gnr_inv (os_gnr st')" using a by (simp add: tidy_def)
  with a show "tidy e st'" by (blast intro: tidy_stable)
next
  fix st dead c m md f
  assume "tidy e st \<and> set (nb_fdlist (oe_nb e) (cs_nb st)) \<subseteq> dom (cs_conns st) \<and> cs_conns st dead = Some c \<and>
      module_at ml m = Some md" "nm_connkill md = Some f \<and> c_owner c = Some m"
  then show "\<exists>st'. f m dead st = Some st' \<and> tidy e st' \<and> same_conns (oe_nb e) st st'"
    using ml unfolding proxy_modules_def by (metis option.distinct(1))
next
  fix st dead c m md h t
  assume a: "tidy e st \<and> set (nb_fdlist (oe_nb e) (cs_nb st)) \<subseteq> dom (cs_conns st) \<and> cs_conns st dead = Some c \<and>
      module_at ml m = Some md" "nm_freetag md = Some h \<and> t \<in> set (c_taglist c) \<and> tag_owner t = m"
  then have "h = (\<lambda>m object tagname type tagdata st. freetag e object tagname tagdata st)" "m = oe_mod e"
    using ml unfolding proxy_modules_def by (metis option.distinct(1) option.inject)+
  moreover have "\<exists>st'. freetag e dead (tag_name t) (tag_data t) st = Some st' \<and> tidy e st' \<and> same_conns (oe_nb e) st st'"
    if "m = oe_mod e" using a that by (intro freetag_tidy [of e st dead c t]) simp_all
  ultimately show "\<exists>st'. h m dead (tag_name t) (tag_type t) (tag_data t) st = Some st' \<and> tidy e st' \<and> same_conns (oe_nb e) st st'"
    by simp
qed

section \<open>What closing does to the nodes\<close>

text \<open>A connection to the server for the user \<open>sn\<close>, with a client behind it; screen names that compare as equal are the
  same, and a connection has at most one.\<close>

definition serves :: "'nb oenv \<Rightarrow> bytes \<Rightarrow> nafconn \<Rightarrow> bool" where
  "serves e sn c \<longleftrightarrow> c_type c AND NAF_CONN_TYPE_SERVER \<noteq> 0 \<and> c_endpoint c \<noteq> None \<and> sn \<in> sn_tags e (c_taglist c)"

definition one_spelling :: "'nb oenv \<Rightarrow> 'nb ostate \<Rightarrow> bool" where
  "one_spelling e st \<longleftrightarrow> (\<forall>x c y d sn cur. cs_conns st x = Some c \<and> cs_conns st y = Some d \<and>
     sn \<in> sn_tags e (c_taglist c) \<and> cur \<in> sn_tags e (c_taglist d) \<longrightarrow>
     (toscar_sncmp sn cur = Some 0 \<longleftrightarrow> sn = cur) \<and> (x = y \<longrightarrow> sn = cur))"

text \<open>The open connections, and whether one of those in \<open>X\<close> serves \<open>sn\<close>.\<close>

definition open_conns :: "'nb oenv \<Rightarrow> 'nb ostate \<Rightarrow> nat set" where
  "open_conns e st = set (nb_fdlist (oe_nb e) (cs_nb st))"

definition has_client :: "'nb oenv \<Rightarrow> bytes \<Rightarrow> 'nb ostate \<Rightarrow> nat set \<Rightarrow> bool" where
  "has_client e sn st X \<longleftrightarrow> (\<exists>b \<in> X. \<exists>d. cs_conns st b = Some d \<and> serves e sn d)"

text \<open>The names of the connections of \<open>st0\<close> that are not in \<open>X\<close> any more.\<close>

definition names_outside :: "'nb oenv \<Rightarrow> 'nb ostate \<Rightarrow> nat set \<Rightarrow> bytes set" where
  "names_outside e st0 X = {sn. \<exists>x c. cs_conns st0 x = Some c \<and> x \<notin> X \<and> sn \<in> sn_tags e (c_taglist c)}"

text \<open>What has become of the nodes of \<open>st0\<close> while connections are closed. The names in \<open>pend\<close> have still to be looked at.\<close>

definition logged :: "'nb oenv \<Rightarrow> 'nb ostate \<Rightarrow> bytes set \<Rightarrow> 'nb ostate \<Rightarrow> bool" where
  "logged e st0 pend st \<longleftrightarrow> tidy e st \<and> conns_le st0 st \<and> mset (all_nodes (os_gnr st)) \<subseteq># mset (all_nodes (os_gnr st0)) \<and>
     (\<forall>gn \<in> set (all_nodes (os_gnr st0)). gn \<notin> set (all_nodes (os_gnr st)) \<longrightarrow>
        (\<exists>sn \<in> names_outside e st0 (open_conns e st). node_matches sn (Some OSCARSERVICE) gn \<and>
           \<not> has_client e sn st (open_conns e st))) \<and>
     (\<forall>sn \<in> names_outside e st0 (open_conns e st) - pend.
        gnr_node_findbyname (Some sn) (Some OSCARSERVICE) (os_gnr st) \<noteq> None \<longrightarrow> has_client e sn st0 (open_conns e st))"

lemma loggedD:
  assumes "logged e st0 pend st"
  shows "tidy e st" "conns_le st0 st" "mset (all_nodes (os_gnr st)) \<subseteq># mset (all_nodes (os_gnr st0))"
    "gn \<in> set (all_nodes (os_gnr st0)) \<Longrightarrow> gn \<notin> set (all_nodes (os_gnr st)) \<Longrightarrow>
       \<exists>sn \<in> names_outside e st0 (open_conns e st). node_matches sn (Some OSCARSERVICE) gn \<and> \<not> has_client e sn st (open_conns e st)"
    "sn \<in> names_outside e st0 (open_conns e st) \<Longrightarrow> sn \<notin> pend \<Longrightarrow>
       gnr_node_findbyname (Some sn) (Some OSCARSERVICE) (os_gnr st) \<noteq> None \<Longrightarrow> has_client e sn st0 (open_conns e st)"
  using assms unfolding logged_def by blast+

lemma logged_mono: "logged e st0 P st \<Longrightarrow> P \<subseteq> Q \<Longrightarrow> logged e st0 Q st"
  unfolding logged_def by blast

lemma serves_cle:
  assumes "cle c d" "serves e sn d"
  shows "serves e sn c"
proof -
  have "c_endpoint d = c_endpoint c \<or> c_endpoint d = None" using assms(1) unfolding cle_def by (elim conjE)
  then show ?thesis using cle_same [OF assms(1)] assms(2) by (auto simp: serves_def)
qed

lemma has_client_le: "conns_le st st' \<Longrightarrow> X' \<subseteq> X \<Longrightarrow> has_client e sn st' X' \<Longrightarrow> has_client e sn st X"
  unfolding has_client_def conns_le_def using serves_cle by blast

lemma conns_le_tags:
  assumes "conns_le st0 st" "cs_conns st x = Some c"
  obtains c0 where "cs_conns st0 x = Some c0" "c_taglist c0 = c_taglist c"
  using assms cle_same unfolding conns_le_def by metis

lemma one_spelling_le:
  assumes one: "one_spelling e st0" and le: "conns_le st0 st"
  shows "one_spelling e st"
  unfolding one_spelling_def
proof (intro allI impI)
  fix x c y d sn cur
  assume a: "cs_conns st x = Some c \<and> cs_conns st y = Some d \<and> sn \<in> sn_tags e (c_taglist c) \<and> cur \<in> sn_tags e (c_taglist d)"
  obtain c0 where "cs_conns st0 x = Some c0" "c_taglist c0 = c_taglist c" using conns_le_tags [OF le] a by blast
  moreover obtain d0 where "cs_conns st0 y = Some d0" "c_taglist d0 = c_taglist d" using conns_le_tags [OF le] a by blast
  ultimately show "(toscar_sncmp sn cur = Some 0 \<longleftrightarrow> sn = cur) \<and> (x = y \<longrightarrow> sn = cur)"
    using one a unfolding one_spelling_def by metis
qed

lemma logged_stable:
  assumes l: "logged e st0 P st" and le: "conns_le st st'" and more: "cstate.more st' = cstate.more st"
    and fds: "nb_fdlist (oe_nb e) (cs_nb st') = nb_fdlist (oe_nb e) (cs_nb st)"
  shows "logged e st0 P st'"
proof -
  have g: "os_gnr st' = os_gnr st" using ostate_moreD(2) [OF more] .
  have X: "open_conns e st' = open_conns e st" using fds by (simp add: open_conns_def)
  have "tidy e st'" by (rule tidy_stable [OF loggedD(1) [OF l] le]) (use loggedD(1) [OF l] in \<open>simp add: g tidy_def\<close>)
  moreover have "conns_le st0 st'" by (rule conns_le_trans [OF loggedD(2) [OF l] le])
  moreover have "has_client e sn st (open_conns e st)" if "has_client e sn st' (open_conns e st)" for sn
    using has_client_le [OF le subset_refl that] .
  ultimately show ?thesis using l unfolding logged_def g X by blast
qed

text \<open>The descriptor of a connection is closed: its names have to be looked at.\<close>

lemma logged_start:
  assumes l: "logged e st0 {} st" and c: "cs_conns st a = Some c"
    and st1: "cs_conns st1 = cs_conns st" "cstate.more st1 = cstate.more st"
      "nb_fdlist (oe_nb e) (cs_nb st1) = filter (\<lambda>x. x \<noteq> a) (nb_fdlist (oe_nb e) (cs_nb st))"
  shows "logged e st0 (sn_tags e (c_taglist c)) st1"
proof -
  have g: "os_gnr st1 = os_gnr st" using ostate_moreD(2) [OF st1(2)] .
  have X: "open_conns e st1 = open_conns e st - {a}" using st1(3) by (auto simp: open_conns_def)
  obtain c0 where c0: "cs_conns st0 a = Some c0" "c_taglist c0 = c_taglist c"
    by (rule conns_le_tags [OF loggedD(2) [OF l] c])
  have le: "conns_le st st1" by (rule conns_le_same [OF st1(1)])
  have out: "names_outside e st0 (open_conns e st) \<subseteq> names_outside e st0 (open_conns e st1)"
    "names_outside e st0 (open_conns e st1) - sn_tags e (c_taglist c) \<subseteq> names_outside e st0 (open_conns e st)"
    using c0 by (auto simp: names_outside_def X)
  have clients: "has_client e sn st (open_conns e st)" if "has_client e sn st1 (open_conns e st1)" for sn
    using has_client_le [OF le _ that] X by blast
  have clients0: "has_client e sn st0 (open_conns e st1)" if h: "has_client e sn st0 (open_conns e st)" "sn \<notin> sn_tags e (c_taglist c)" for sn
  proof -
    obtain b d where b: "b \<in> open_conns e st" "cs_conns st0 b = Some d" "serves e sn d" using h(1) unfolding has_client_def by blast
    then have "b \<noteq> a" using h(2) c0 by (auto simp: serves_def)
    with b show ?thesis unfolding has_client_def X by blast
  qed
  have "tidy e st1" by (rule tidy_stable [OF loggedD(1) [OF l] le]) (use loggedD(1) [OF l] in \<open>simp add: g tidy_def\<close>)
  moreover have "conns_le st0 st1" by (rule conns_le_trans [OF loggedD(2) [OF l] le])
  moreover have "\<exists>sn \<in> names_outside e st0 (open_conns e st1). node_matches sn (Some OSCARSERVICE) gn \<and>
      \<not> has_client e sn st1 (open_conns e st1)" if "gn \<in> set (all_nodes (os_gnr st0))" "gn \<notin> set (all_nodes (os_gnr st))" for gn
    using loggedD(4) [OF l that] out(1) clients by blast
  moreover have "has_client e sn st0 (open_conns e st1)"
    if "sn \<in> names_outside e st0 (open_conns e st1) - sn_tags e (c_taglist c)"
      "gnr_node_findbyname (Some sn) (Some OSCARSERVICE) (os_gnr st) \<noteq> None" for sn
    using loggedD(5) [OF l, of sn] that out(2) clients0 by blast
  ultimately show ?thesis using loggedD(3) [OF l] unfolding logged_def g by blast
qed

text \<open>A name is looked at.\<close>

lemma freetag_logged:
  assumes l: "logged e st0 pend st" and one: "one_spelling e st0"
    and fds: "open_conns e st \<subseteq> dom (cs_conns st)" and a: "a \<notin> open_conns e st"
    and c: "cs_conns st a = Some c" "sn \<in> sn_tags e (c_taglist c)"
  shows "\<exists>st'. freetag e a (cstr ''conn.screenname'') (DStr sn) st = Some st' \<and> same_conns (oe_nb e) st st' \<and>
    logged e st0 (pend - {sn}) st'"
proof -
  note t = loggedD(1) [OF l]
  have inv: "gnr_inv (os_gnr st)" using t by (simp add: tidy_def)
  have one': "one_spelling e st" by (rule one_spelling_le [OF one loggedD(2) [OF l]])
  have same: "sn = cur" if "cs_conns st b = Some d" "cur \<in> sn_tags e (c_taglist d)" "toscar_sncmp sn cur = Some 0" for b d cur
    using one' c that unfolding one_spelling_def by blast
  have cmp: "toscar_sncmp sn sn = Some 0" using one' c unfolding one_spelling_def by blast
  have other: "has_other e sn a st \<longleftrightarrow> has_client e sn st (open_conns e st)"
  proof
    assume "has_other e sn a st"
    then obtain b d cur where b: "b \<in> open_conns e st" "cs_conns st b = Some d" "c_type d AND NAF_CONN_TYPE_SERVER \<noteq> 0"
      "c_endpoint d \<noteq> None" "conn_screenname e (Some b) st = Some (Some cur)" "toscar_sncmp sn cur = Some 0"
      unfolding has_other_def open_conns_def by blast
    have "cur \<in> sn_tags e (c_taglist d)" using conn_screenname_tidy [OF t b(2)] b(5) by (metis option.inject)
    with b same [OF b(2) _ b(6)] show "has_client e sn st (open_conns e st)" unfolding has_client_def serves_def by blast
  next
    assume "has_client e sn st (open_conns e st)"
    then obtain b d where b: "b \<in> open_conns e st" "cs_conns st b = Some d" "c_type d AND NAF_CONN_TYPE_SERVER \<noteq> 0"
      "c_endpoint d \<noteq> None" "sn \<in> sn_tags e (c_taglist d)" unfolding has_client_def serves_def by blast
    obtain cur where cur: "conn_screenname e (Some b) st = Some cur" "\<forall>s. cur = Some s \<longrightarrow> s \<in> sn_tags e (c_taglist d)"
      "cur = None \<longrightarrow> sn_tags e (c_taglist d) = {}" by (rule conn_screenname_tidy [OF t b(2)])
    with b(5) obtain s where s: "cur = Some s" by (cases cur) auto
    then have "sn = s" using one' b(2,5) cur(2) unfolding one_spelling_def by blast
    moreover have "b \<noteq> a" using a b(1) by blast
    ultimately show "has_other e sn a st" using b cur(1) s cmp unfolding has_other_def open_conns_def by blast
  qed
  have safe: "names_safe e sn st" by (rule tidy_names_safe [OF t fds [unfolded open_conns_def] c])
  obtain g where g: "freetag e a (cstr ''conn.screenname'') (DStr sn) st = Some (st\<lparr>os_gnr := g\<rparr>)" "gnr_inv g"
    "if has_other e sn a st then g = os_gnr st
     else gnr_node_findbyname (Some sn) (Some OSCARSERVICE) g = None \<and>
       (case gnr_node_findbyname (Some sn) (Some OSCARSERVICE) (os_gnr st) of
          None \<Rightarrow> g = os_gnr st
        | Some gn \<Rightarrow> mset (gn # all_nodes g) = mset (all_nodes (os_gnr st)))"
    by (rule freetag_screenname [OF inv safe, of a])
  let ?st = "st\<lparr>os_gnr := g\<rparr>" and ?X = "open_conns e st"
  have X: "open_conns e ?st = ?X" by (simp add: open_conns_def)
  have clients: "has_client e n ?st ?X = has_client e n st ?X" for n by (simp add: has_client_def)
  have sub: "mset (all_nodes g) \<subseteq># mset (all_nodes (os_gnr st))"
  proof (cases "g = os_gnr st")
    case False
    with g(3) obtain gn where "mset (gn # all_nodes g) = mset (all_nodes (os_gnr st))" by (auto split: if_splits option.splits)
    then have "mset (all_nodes (os_gnr st)) = add_mset gn (mset (all_nodes g))" by simp
    then show ?thesis by simp
  qed simp
  have found: "gnr_node_findbyname (Some n) (Some OSCARSERVICE) (os_gnr st) \<noteq> None"
    if "gnr_node_findbyname (Some n) (Some OSCARSERVICE) g \<noteq> None" for n
    using that sub set_mset_mono unfolding findbyname_None [OF g(2)] findbyname_None [OF inv] by fastforce
  obtain c0 where "cs_conns st0 a = Some c0" "c_taglist c0 = c_taglist c" by (rule conns_le_tags [OF loggedD(2) [OF l] c(1)])
  moreover from this have "sn \<in> sn_tags e (c_taglist c0)" using c(2) by simp
  ultimately have mem: "sn \<in> names_outside e st0 ?X" using a unfolding names_outside_def by blast
  have gone: "\<exists>n \<in> names_outside e st0 ?X. node_matches n (Some OSCARSERVICE) gn \<and> \<not> has_client e n st ?X"
    if "gn \<in> set (all_nodes (os_gnr st0))" "gn \<notin> set (all_nodes g)" for gn
  proof (cases "gn \<in> set (all_nodes (os_gnr st))")
    case False
    then show ?thesis using loggedD(4) [OF l that(1)] by blast
  next
    case True
    with that(2) g(3) have no: "\<not> has_other e sn a st" by auto
    with g(3) that(2) True obtain gn' where gn': "gnr_node_findbyname (Some sn) (Some OSCARSERVICE) (os_gnr st) = Some gn'"
      "mset (gn' # all_nodes g) = mset (all_nodes (os_gnr st))" by (auto split: option.splits)
    then have "gn = gn'" using True that(2) by (metis set_ConsD mset_eq_setD)
    with gn'(1) have "node_matches sn (Some OSCARSERVICE) gn" using findbyname_Some by blast
    with no other mem show ?thesis by blast
  qed
  have left: "has_client e n st0 ?X" if "n \<in> names_outside e st0 ?X - (pend - {sn})"
    "gnr_node_findbyname (Some n) (Some OSCARSERVICE) g \<noteq> None" for n
  proof (cases "n = sn")
    case True
    with that(2) g(3) have "has_other e sn a st" by (auto split: if_splits)
    with other True show ?thesis using has_client_le [OF loggedD(2) [OF l] subset_refl] by blast
  next
    case False
    with that loggedD(5) [OF l, of n] found [OF that(2)] show ?thesis by blast
  qed
  have "tidy e ?st" by (rule tidy_stable [OF t]) (simp_all add: conns_le_same g(2))
  moreover have "conns_le st0 ?st" by (rule conns_le_trans [OF loggedD(2) [OF l]]) (simp add: conns_le_same)
  moreover have "mset (all_nodes g) \<subseteq># mset (all_nodes (os_gnr st0))" using subset_mset.order_trans [OF sub loggedD(3) [OF l]] .
  ultimately have "logged e st0 (pend - {sn}) ?st" using gone left unfolding logged_def X clients by simp
  with g(1) show ?thesis by (intro exI [of _ ?st]) (simp add: same_conns_def)
qed

lemma freetags_logged:
  assumes ml: "proxy_loaded e ml" and one: "one_spelling e st0"
  shows "logged e st0 (sn_tags e tags) st \<Longrightarrow> open_conns e st \<subseteq> dom (cs_conns st) \<Longrightarrow> a \<notin> open_conns e st \<Longrightarrow>
    cs_conns st a = Some c \<Longrightarrow> set tags \<subseteq> set (c_taglist c) \<Longrightarrow>
    \<exists>st'. conn_freetags ml a tags st = Some st' \<and> same_conns (oe_nb e) st st' \<and> logged e st0 {} st'"
proof (induction tags arbitrary: st)
  case Nil
  then show ?case by (simp add: conn_freetags_def same_conns_def sn_tags_def)
next
  case (Cons t tags)
  have "\<exists>st1. (case Option.bind (module_at ml (tag_owner t)) nm_freetag of None \<Rightarrow> Some st
      | Some h \<Rightarrow> h (tag_owner t) a (tag_name t) (tag_type t) (tag_data t) st) = Some st1 \<and> same_conns (oe_nb e) st st1 \<and>
      logged e st0 (sn_tags e tags) st1"
  proof (cases "tag_owner t = oe_mod e \<and> tag_name t = cstr ''conn.screenname''")
    case True
    obtain sn where sn: "tag_data t = DStr sn"
      using loggedD(1) [OF Cons.prems(1)] Cons.prems(4,5) True unfolding tidy_def by (meson list.set_intros(1) subsetD)
    then have mem: "sn \<in> sn_tags e (c_taglist c)" using True Cons.prems(5) by (auto simp: sn_tags_def)
    obtain st1 where "freetag e a (cstr ''conn.screenname'') (DStr sn) st = Some st1" "same_conns (oe_nb e) st st1"
      "logged e st0 (sn_tags e (t # tags) - {sn}) st1"
      using freetag_logged [OF Cons.prems(1) one Cons.prems(2,3,4) mem] by blast
    moreover have "sn_tags e (t # tags) - {sn} \<subseteq> sn_tags e tags" using sn by (auto simp: sn_tags_def)
    ultimately show ?thesis
      using ml True sn logged_mono unfolding proxy_loaded_def by fastforce
  next
    case False
    then have "sn_tags e (t # tags) = sn_tags e tags" by (auto simp: sn_tags_def)
    then have l: "logged e st0 (sn_tags e tags) st" using Cons.prems(1) by simp
    show ?thesis
    proof (cases "Option.bind (module_at ml (tag_owner t)) nm_freetag")
      case None
      with l show ?thesis by (simp add: same_conns_def)
    next
      case (Some h)
      then obtain md where md: "module_at ml (tag_owner t) = Some md" "nm_freetag md = Some h" by (auto simp: bind_eq_Some_conv)
      with ml have h: "tag_owner t = oe_mod e" "h = (\<lambda>m object tagname type tagdata st. freetag e object tagname tagdata st)"
        unfolding proxy_loaded_def proxy_modules_def by (metis option.distinct(1) option.inject)+
      with False have "tag_name t \<noteq> cstr ''conn.screenname''" by simp
      with Some h l show ?thesis by (simp add: freetag_def same_conns_def)
    qed
  qed
  then obtain st1 where 1: "(case Option.bind (module_at ml (tag_owner t)) nm_freetag of None \<Rightarrow> Some st
      | Some h \<Rightarrow> h (tag_owner t) a (tag_name t) (tag_type t) (tag_data t) st) = Some st1" "same_conns (oe_nb e) st st1"
      "logged e st0 (sn_tags e tags) st1" by blast
  have "open_conns e st1 \<subseteq> dom (cs_conns st1)" "a \<notin> open_conns e st1" "cs_conns st1 a = Some c" "set tags \<subseteq> set (c_taglist c)"
    using 1(2) Cons.prems by (simp_all add: same_conns_def open_conns_def)
  from Cons.IH [OF 1(3) this] obtain st2 where 2: "conn_freetags ml a tags st1 = Some st2" "same_conns (oe_nb e) st1 st2"
    "logged e st0 {} st2" by blast
  have "conn_freetags ml a (t # tags) st = conn_freetags ml a tags st1"
    using 1(1) by (cases "Option.bind (module_at ml (tag_owner t)) nm_freetag") (auto simp: conn_freetags_def)
  with 2 same_conns_trans [OF 1(2) 2(2)] show ?case by auto
qed

lemma logged_closes:
  assumes ml: "proxy_loaded e ml" and one: "one_spelling e st0"
  shows "closes_ok ml (oe_nb e) (logged e st0 {})"
  unfolding closes_ok_def
proof (intro conjI allI impI)
  fix st st' :: "'a ostate"
  assume "logged e st0 {} st \<and> conns_le st st' \<and> cstate.more st' = cstate.more st \<and>
    nb_fdlist (oe_nb e) (cs_nb st') = nb_fdlist (oe_nb e) (cs_nb st)"
  then show "logged e st0 {} st'" using logged_stable by blast
next
  fix st st1 a c
  assume p: "logged e st0 {} st \<and> cs_conns st a = Some c \<and> (\<forall>m. c_owner c = Some m \<longrightarrow> module_at ml m \<noteq> None) \<and>
    set (nb_fdlist (oe_nb e) (cs_nb st)) \<subseteq> dom (cs_conns st) \<and> a \<in> set (nb_fdlist (oe_nb e) (cs_nb st)) \<and>
    cs_conns st1 = cs_conns st \<and> cstate.more st1 = cstate.more st \<and>
    nb_fdlist (oe_nb e) (cs_nb st1) = filter (\<lambda>x. x \<noteq> a) (nb_fdlist (oe_nb e) (cs_nb st))"
  have k: "call_connkill ml a (c_owner c) st1 = Some st1"
  proof (cases "c_owner c")
    case (Some m)
    with p obtain md where "module_at ml m = Some md" by blast
    with ml Some show ?thesis by (simp add: call_connkill_def proxy_loaded_def proxy_modules_def)
  qed (simp add: call_connkill_def)
  have l: "logged e st0 (sn_tags e (c_taglist c)) st1" using logged_start p by blast
  have "open_conns e st1 \<subseteq> dom (cs_conns st1)" "a \<notin> open_conns e st1" "cs_conns st1 a = Some c"
    using p by (auto simp: open_conns_def)
  from freetags_logged [OF ml one l this subset_refl] k
  show "\<exists>st2 st3. call_connkill ml a (c_owner c) st1 = Some st2 \<and> same_conns (oe_nb e) st1 st2 \<and>
      conn_freetags ml a (c_taglist c) st2 = Some st3 \<and> same_conns (oe_nb e) st2 st3 \<and> logged e st0 {} st3"
    by (auto simp: same_conns_def [of _ st1 st1])
qed

lemma connhandler_closes:
  assumes "nb_closes (oe_nb e) own" "closes_ok ml (oe_nb e) G" "conns_inv ml (oe_nb e) own {} st" "G st"
    and "a \<in> dom (cs_conns st)" "event = NBIO_EVENT_EOF \<or> event = NBIO_EVENT_ERROR"
  shows "\<exists>r st'. connhandler (oe_mal e) ml (oe_nb e) (oe_now e) event (Some a) st = Some (r, st') \<and>
    dom (cs_conns st') = dom (cs_conns st) - {y. (y, a) \<in> (tied st)\<^sup>*} \<and>
    conns_inv ml (oe_nb e) own {} st' \<and> shrinks_to (oe_nb e) st st' \<and> G st'"
proof -
  obtain c where c: "cs_conns st a = Some c" using assms(5) by auto
  obtain st' where st': "naf_conn_free ml (oe_nb e) a st = Some st'"
    "dom (cs_conns st') = dom (cs_conns st) - {y. (y, a) \<in> (tied st)\<^sup>*}" "conns_inv ml (oe_nb e) own {} st'"
    "shrinks_to (oe_nb e) st st'" "G st'"
    using naf_conn_free_closes [OF assms(1-5)] by blast
  have "connhandler (oe_mal e) ml (oe_nb e) (oe_now e) event (Some a) st =
      Some (if c_type c AND NAF_CONN_TYPE_LISTENER \<noteq> 0 then -1 else 0, st')"
    using assms(6) c st'(1) by (auto simp: connhandler_def connhandler_eof_def Let_def)
  with st' show ?thesis by blast
qed

text \<open>Two connections that are each other's endpoint, on which nothing else depends.\<close>

definition session :: "('nb, 'z) cstate_scheme \<Rightarrow> nat \<Rightarrow> nat \<Rightarrow> bool" where
  "session st a b \<longleftrightarrow> a \<noteq> b \<and> map_option c_endpoint (cs_conns st a) = Some (Some b) \<and>
     map_option c_endpoint (cs_conns st b) = Some (Some a) \<and>
     (\<forall>x c. x \<noteq> a \<and> x \<noteq> b \<and> cs_conns st x = Some c \<and> killable c \<longrightarrow>
        c_endpoint c \<noteq> Some a \<and> c_endpoint c \<noteq> Some b \<and> c_parent c \<noteq> Some a \<and> c_parent c \<noteq> Some b)"

lemma session_tied:
  assumes s: "session st a b" and b: "cs_conns st b = Some d"
  shows "{y. (y, a) \<in> (tied st)\<^sup>*} = (if killable d then {a, b} else {a})"
proof
  have step: "y = a \<or> y = b \<and> killable d" if "(y, z) \<in> tied st" "z = a \<or> z = b \<and> killable d" for y z
    using that s b unfolding session_def tied_def by fastforce
  show "{y. (y, a) \<in> (tied st)\<^sup>*} \<subseteq> (if killable d then {a, b} else {a})"
  proof
    fix y assume "y \<in> {y. (y, a) \<in> (tied st)\<^sup>*}"
    then have "(y, a) \<in> (tied st)\<^sup>*" by simp
    then have "y = a \<or> y = b \<and> killable d" by (induction rule: converse_rtrancl_induct) (use step in blast)+
    then show "y \<in> (if killable d then {a, b} else {a})" by auto
  qed
  have "(b, a) \<in> tied st" if "killable d" using that s b by (auto simp: session_def tied_def)
  then show "(if killable d then {a, b} else {a}) \<subseteq> {y. (y, a) \<in> (tied st)\<^sup>*}" by auto
qed

section \<open>Properties\<close>



text \<open>The proxy over the list of open connections, for the witness.\<close>

definition list_env :: "nat list oenv" where
  "list_env = \<lparr>oe_mal = zero_alloc, oe_now = 1000, oe_mod = 7, oe_nb = list_ops, oe_authorizer = None,
     oe_prorogueall = False, oe_extip = None, oe_rand = \<lambda>i. 3, oe_keepalive = 30, oe_txtimeout = 120\<rparr>"

definition list_oscar_state :: "nat list ostate" where
  "list_oscar_state = cstate.extend list_state \<lparr>os_ckcache = [], os_gnr = gnr_empty\<rparr>"

text \<open>The module in the list, and the connections of a user: a client, its server side with the screen name, and
  one that outlives them.\<close>

definition oscar_list :: "nat list ostate modlist_item list" where
  "oscar_list = [\<lparr>mi_filename = cstr ''timps-oscar'', mi_status = MOD_STATUS_LOADED, mi_dlhandle = None, mi_firstproc = None,
     mi_module = nafmodule_zero\<lparr>nm_freetag := Some (\<lambda>m object tagname type tagdata st. freetag list_env object tagname tagdata st)\<rparr>,
     mi_lasttimerrun = 0, mi_startuppri = 3, mi_addr = 7\<rparr>]"

definition ann_tag :: naf_tag_t where
  "ann_tag = \<lparr>tag_owner = 7, tag_name = cstr ''conn.screenname'', tag_type = CHR ''S'', tag_data = DStr [97, 110, 110]\<rparr>"

definition user_state :: "gnr_state \<Rightarrow> nat list ostate" where
  "user_state g = list_oscar_state\<lparr>cs_conns := [4 \<mapsto> list_conn 4 NAF_CONN_TYPE_CLIENT (Some 5),
       5 \<mapsto> (list_conn 5 NAF_CONN_TYPE_SERVER (Some 4))\<lparr>c_taglist := [ann_tag]\<rparr>,
       6 \<mapsto> list_conn 6 NAF_CONN_TYPE_PROROGUEDEATH (Some 5)], os_gnr := g\<rparr>"

lemma user_state_fields:
  "cs_conns (user_state g) = [4 \<mapsto> list_conn 4 NAF_CONN_TYPE_CLIENT (Some 5),
     5 \<mapsto> (list_conn 5 NAF_CONN_TYPE_SERVER (Some 4))\<lparr>c_taglist := [ann_tag]\<rparr>,
     6 \<mapsto> list_conn 6 NAF_CONN_TYPE_PROROGUEDEATH (Some 5)]"
  "cs_nb (user_state g) = [4, 5, 6]" "os_gnr (user_state g) = g"
  by (simp_all add: user_state_def list_oscar_state_def list_state_def cstate.extend_def)

lemma user_state_tags:
  assumes "cs_conns (user_state g) x = Some c" "sn \<in> sn_tags list_env (c_taglist c)"
  shows "x = 5 \<and> sn = [97, 110, 110]"
  using assms by (auto simp: user_state_fields sn_tags_def list_conn_def ann_tag_def split: if_splits)

lemma oscar_list_loaded: "proxy_loaded list_env oscar_list"
  by (simp add: proxy_loaded_def proxy_modules_def oscar_list_def module_at_def list_env_def nafmodule_zero_def)

lemma user_state_ok:
  assumes "gnr_inv g"
  shows "nb_closes (oe_nb list_env) (\<lambda>f. f)" "conns_inv oscar_list (oe_nb list_env) (\<lambda>f. f) {} (user_state g)"
    "tidy list_env (user_state g)" "one_spelling list_env (user_state g)" "session (user_state g) 4 5"
proof -
  show "nb_closes (oe_nb list_env) (\<lambda>f. f)" using list_ops_closes by (simp add: list_env_def)
  show "conns_inv oscar_list (oe_nb list_env) (\<lambda>f. f) {} (user_state g)"
    by (rule conns_invI) (auto simp: user_state_fields list_ops_def list_conn_def list_env_def split: if_splits)
  have cmp: "toscar_sncmp [97, 110, 110] [97, 110, 110] = Some 0"
    by (simp add: toscar_sncmp_def sncmp_loop.simps Let_def skip_spaces_def)
  show "one_spelling list_env (user_state g)"
    unfolding one_spelling_def using user_state_tags cmp by (metis (no_types, lifting))
  have "\<exists>sn. tag_data t = DStr sn" if "cs_conns (user_state g) x = Some c" "t \<in> set (c_taglist c)" for x c t
    using that by (auto simp: user_state_fields list_conn_def ann_tag_def split: if_splits)
  moreover have "toscar_sncmp sn cur \<noteq> None" if "cs_conns (user_state g) x = Some c" "cs_conns (user_state g) y = Some d"
    "sn \<in> sn_tags list_env (c_taglist c)" "cur \<in> sn_tags list_env (c_taglist d)" for x c y d sn cur
    using user_state_tags [OF that(1,3)] user_state_tags [OF that(2,4)] cmp by simp
  ultimately show "tidy list_env (user_state g)" using assms unfolding tidy_def user_state_fields(3) by blast
  show "session (user_state g) 4 5"
    by (auto simp: session_def user_state_fields list_conn_def killable_def split: if_splits)
qed



end
