(* ===== verification/Cache.thy ===== *)
theory Cache
  imports Modules
begin

text \<open>
  The generic cache, \<^verbatim>\<open>naf/cache.c\<close>: every module may have lists of key/value pairs, each list with a
  time limit and a function that releases a pair. The lists of a module hang on a tag of the
  module, \<^verbatim>\<open>module.cachetagdata\<close>. Keys and values are opaque; \<open>'u\<close> is the state that the functions
  for releasing pairs work on.
\<close>

section \<open>Data\<close>

record ('k, 'v) cachepair =
  cp_key :: 'k
  cp_value :: 'v
  cp_addtime :: int

type_synonym ('k, 'v, 'u) freepairfunc = "nafmod \<Rightarrow> naf_u16_t \<Rightarrow> 'k \<Rightarrow> 'v \<Rightarrow> int \<Rightarrow> 'u \<Rightarrow> 'u"
type_synonym ('k, 'v) matcherfunc = "nafmod \<Rightarrow> naf_u16_t \<Rightarrow> 'k \<Rightarrow> 'v \<Rightarrow> bool"

record ('k, 'v, 'u) cachelist =
  cl_lid :: naf_u16_t
  cl_lastrun :: int
  cl_timeout :: int
  cl_freepair :: "('k, 'v, 'u) freepairfunc option"
  cl_pairs :: "('k, 'v) cachepair list"

text \<open>What the tag of a module points to: its lists, or memory that was released.\<close>

datatype ('k, 'v, 'u) ctd = Ctd "('k, 'v, 'u) cachelist list" | CtdFreed

record ('k, 'v, 'u) cachestate =
  ca_tags :: "nafmod \<Rightarrow> ('k, 'v, 'u) ctd option"
  ca_user :: 'u

abbreviation (input) sizeof_cachepair :: nat where "sizeof_cachepair \<equiv> 32"
abbreviation (input) sizeof_cachelist :: nat where "sizeof_cachelist \<equiv> 48"
abbreviation (input) sizeof_cachetagdata :: nat where "sizeof_cachetagdata \<equiv> 8"

definition ctd_lists :: "('k, 'v, 'u) ctd \<Rightarrow> ('k, 'v, 'u) cachelist list option" where
  "ctd_lists ctd = (case ctd of Ctd ls \<Rightarrow> Some ls | CtdFreed \<Rightarrow> None)"

section \<open>Pairs and lists\<close>

definition cp_alloc :: "allocator \<Rightarrow> int \<Rightarrow> 'k \<Rightarrow> 'v \<Rightarrow> ('k, 'v) cachepair option" where
  "cp_alloc mal now key val =
     (if mal sizeof_cachepair = None then None else Some \<lparr>cp_key = key, cp_value = val, cp_addtime = now\<rparr>)"

definition cp_free :: "nafmod \<Rightarrow> ('k, 'v, 'u) cachelist \<Rightarrow> ('k, 'v) cachepair \<Rightarrow> 'u \<Rightarrow> 'u" where
  "cp_free md cl cp user =
     (case cl_freepair cl of
        None \<Rightarrow> user
      | Some f \<Rightarrow> f md (cl_lid cl) (cp_key cp) (cp_value cp) (cp_addtime cp) user)"

definition cl_alloc ::
    "allocator \<Rightarrow> int \<Rightarrow> naf_u16_t \<Rightarrow> int \<Rightarrow> ('k, 'v, 'u) freepairfunc option \<Rightarrow> ('k, 'v, 'u) cachelist option" where
  "cl_alloc mal now lid timeout freepair =
     (if mal sizeof_cachelist = None then None
      else Some \<lparr>cl_lid = lid, cl_lastrun = now, cl_timeout = timeout, cl_freepair = freepair, cl_pairs = []\<rparr>)"

text \<open>The loop of \<^verbatim>\<open>cl_free\<close>: after a pair is released the cursor is set to the next one, and the step of
  the loop then moves it once more, through a null pointer when there is no next one.\<close>

fun cl_free_loop ::
    "nafmod \<Rightarrow> ('k, 'v, 'u) cachelist \<Rightarrow> ('k, 'v) cachepair list \<Rightarrow> 'u \<Rightarrow> 'u option" where
  "cl_free_loop md cl [] user = Some user"
| "cl_free_loop md cl [cp] user = None"
| "cl_free_loop md cl (cp # cptmp # rest) user = cl_free_loop md cl rest (cp_free md cl cp user)"

definition cl_free :: "nafmod \<Rightarrow> ('k, 'v, 'u) cachelist \<Rightarrow> 'u \<Rightarrow> 'u option" where
  "cl_free md cl user = cl_free_loop md cl (cl_pairs cl) user"

definition ctd_alloc :: "allocator \<Rightarrow> ('k, 'v, 'u) ctd option" where
  "ctd_alloc mal = (if mal sizeof_cachetagdata = None then None else Some (Ctd []))"

fun ctd_free_loop :: "nafmod \<Rightarrow> ('k, 'v, 'u) cachelist list \<Rightarrow> 'u \<Rightarrow> 'u option" where
  "ctd_free_loop md [] user = Some user"
| "ctd_free_loop md [cl] user = None"
| "ctd_free_loop md (cl # cltmp # rest) user = Option.bind (cl_free md cl user) (ctd_free_loop md rest)"

definition ctd_free :: "nafmod \<Rightarrow> ('k, 'v, 'u) ctd \<Rightarrow> 'u \<Rightarrow> 'u option" where
  "ctd_free md ctd user = Option.bind (ctd_lists ctd) (\<lambda>ls. ctd_free_loop md ls user)"

definition ctd_findlist :: "('k, 'v, 'u) cachelist list \<Rightarrow> naf_u16_t \<Rightarrow> ('k, 'v, 'u) cachelist option" where
  "ctd_findlist ls lid = List.find (\<lambda>cl. cl_lid cl = lid) ls"

text \<open>Writing back a list that was found.\<close>

fun cl_update :: "naf_u16_t \<Rightarrow> (('k, 'v, 'u) cachelist \<Rightarrow> ('k, 'v, 'u) cachelist) \<Rightarrow> ('k, 'v, 'u) cachelist list
    \<Rightarrow> ('k, 'v, 'u) cachelist list" where
  "cl_update lid f [] = []"
| "cl_update lid f (cl # ls) = (if cl_lid cl = lid then f cl # ls else cl # cl_update lid f ls)"

definition set_lists ::
    "nafmod \<Rightarrow> ('k, 'v, 'u) cachelist list \<Rightarrow> ('k, 'v, 'u) cachestate \<Rightarrow> ('k, 'v, 'u) cachestate" where
  "set_lists md ls st = st\<lparr>ca_tags := (ca_tags st)(md \<mapsto> Ctd ls)\<rparr>"

section \<open>The interface\<close>

text \<open>\<open>mal\<close> decides whether the tag can be added.\<close>

definition naf_cache_register ::
    "allocator \<Rightarrow> nafmod \<Rightarrow> ('k, 'v, 'u) cachestate \<Rightarrow> (int \<times> ('k, 'v, 'u) cachestate) option" where
  "naf_cache_register mal md st =
     (if ca_tags st md \<noteq> None then Some (0, st)
      else case ctd_alloc mal of
             None \<Rightarrow> Some (-1, st)
           | Some ctd \<Rightarrow>
               if mal sizeof_naf_tag_t = None
               then do { user \<leftarrow> ctd_free md ctd (ca_user st); Some (-1, st\<lparr>ca_user := user\<rparr>) }
               else Some (0, st\<lparr>ca_tags := (ca_tags st)(md \<mapsto> ctd)\<rparr>))"

text \<open>The tag is only looked at, not removed: it keeps pointing to what is released.\<close>

definition naf_cache_unregister ::
    "nafmod \<Rightarrow> ('k, 'v, 'u) cachestate \<Rightarrow> ('k, 'v, 'u) cachestate option" where
  "naf_cache_unregister md st =
     (case ca_tags st md of
        None \<Rightarrow> Some st
      | Some ctd \<Rightarrow> do {
          user \<leftarrow> ctd_free md ctd (ca_user st);
          Some (st\<lparr>ca_tags := (ca_tags st)(md \<mapsto> CtdFreed), ca_user := user\<rparr>)
        })"

definition naf_cache_addlist ::
    "allocator \<Rightarrow> int \<Rightarrow> nafmod \<Rightarrow> naf_u16_t \<Rightarrow> int \<Rightarrow> ('k, 'v, 'u) freepairfunc option
       \<Rightarrow> ('k, 'v, 'u) cachestate \<Rightarrow> (int \<times> ('k, 'v, 'u) cachestate) option" where
  "naf_cache_addlist mal now md lid timeout freepair st =
     (case ca_tags st md of
        None \<Rightarrow> Some (-1, st)
      | Some ctd \<Rightarrow> do {
          ls \<leftarrow> ctd_lists ctd;
          if ctd_findlist ls lid \<noteq> None then Some (-1, st)
          else case cl_alloc mal now lid timeout freepair of
                 None \<Rightarrow> Some (-1, st)
               | Some cl \<Rightarrow> Some (0, set_lists md (cl # ls) st)
        })"

fun remlist_loop ::
    "nafmod \<Rightarrow> naf_u16_t \<Rightarrow> ('k, 'v, 'u) cachelist list \<Rightarrow> 'u \<Rightarrow> (('k, 'v, 'u) cachelist list \<times> 'u) option" where
  "remlist_loop md lid [] user = Some ([], user)"
| "remlist_loop md lid (cur # rest) user =
     (if cl_lid cur = lid
      then do { user \<leftarrow> cl_free md cur user; remlist_loop md lid rest user }
      else do { (rest, user) \<leftarrow> remlist_loop md lid rest user; Some (cur # rest, user) })"

definition naf_cache_remlist ::
    "nafmod \<Rightarrow> naf_u16_t \<Rightarrow> ('k, 'v, 'u) cachestate \<Rightarrow> (int \<times> ('k, 'v, 'u) cachestate) option" where
  "naf_cache_remlist md lid st =
     (case ca_tags st md of
        None \<Rightarrow> Some (-1, st)
      | Some ctd \<Rightarrow> do {
          ls \<leftarrow> ctd_lists ctd;
          (ls, user) \<leftarrow> remlist_loop md lid ls (ca_user st);
          Some (0, (set_lists md ls st)\<lparr>ca_user := user\<rparr>)
        })"

definition naf_cache_addpair ::
    "allocator \<Rightarrow> int \<Rightarrow> nafmod \<Rightarrow> naf_u16_t \<Rightarrow> 'k \<Rightarrow> 'v \<Rightarrow> ('k, 'v, 'u) cachestate
       \<Rightarrow> (int \<times> ('k, 'v, 'u) cachestate) option" where
  "naf_cache_addpair mal now md lid key val st =
     (case ca_tags st md of
        None \<Rightarrow> Some (-1, st)
      | Some ctd \<Rightarrow> do {
          ls \<leftarrow> ctd_lists ctd;
          case ctd_findlist ls lid of
            None \<Rightarrow> Some (-1, st)
          | Some cl \<Rightarrow>
              (case cp_alloc mal now key val of
                 None \<Rightarrow> Some (-1, st)
               | Some cp \<Rightarrow> Some (0, set_lists md (cl_update lid (\<lambda>cl. cl\<lparr>cl_pairs := cp # cl_pairs cl\<rparr>) ls) st))
        })"

text \<open>The search, with the pair found and the pairs with its time set anew.\<close>

fun findpair_loop ::
    "(('k, 'v) cachepair \<Rightarrow> bool) \<Rightarrow> bool \<Rightarrow> int \<Rightarrow> ('k, 'v) cachepair list
       \<Rightarrow> ('k, 'v) cachepair option \<times> ('k, 'v) cachepair list" where
  "findpair_loop m hit now [] = (None, [])"
| "findpair_loop m hit now (cur # rest) =
     (if m cur then (Some cur, (if hit then cur\<lparr>cp_addtime := now\<rparr> else cur) # rest)
      else (let (r, rest) = findpair_loop m hit now rest in (r, cur # rest)))"

definition naf_cache_findpair ::
    "int \<Rightarrow> nafmod \<Rightarrow> naf_u16_t \<Rightarrow> ('k, 'v) matcherfunc \<Rightarrow> bool \<Rightarrow> ('k, 'v, 'u) cachestate
       \<Rightarrow> (int \<times> ('k \<times> 'v) option \<times> ('k, 'v, 'u) cachestate) option" where
  "naf_cache_findpair now md lid matcher hit st =
     (case ca_tags st md of
        None \<Rightarrow> Some (-1, None, st)
      | Some ctd \<Rightarrow> do {
          ls \<leftarrow> ctd_lists ctd;
          case ctd_findlist ls lid of
            None \<Rightarrow> Some (-1, None, st)
          | Some cl \<Rightarrow>
              (let (r, pairs) = findpair_loop (\<lambda>cp. matcher md (cl_lid cl) (cp_key cp) (cp_value cp)) hit now (cl_pairs cl)
               in case r of
                    None \<Rightarrow> Some (0, None, st)
                  | Some cp \<Rightarrow> Some (1, Some (cp_key cp, cp_value cp),
                      set_lists md (cl_update lid (\<lambda>cl. cl\<lparr>cl_pairs := pairs\<rparr>) ls) st))
        })"

fun rempairs_loop ::
    "nafmod \<Rightarrow> ('k, 'v, 'u) cachelist \<Rightarrow> (('k, 'v) cachepair \<Rightarrow> bool) \<Rightarrow> ('k, 'v) cachepair list \<Rightarrow> 'u
       \<Rightarrow> ('k, 'v) cachepair list \<times> 'u" where
  "rempairs_loop md cl m [] user = ([], user)"
| "rempairs_loop md cl m (cur # rest) user =
     (if m cur then rempairs_loop md cl m rest (cp_free md cl cur user)
      else (let (rest, user) = rempairs_loop md cl m rest user in (cur # rest, user)))"

definition naf_cache_rempairs ::
    "nafmod \<Rightarrow> naf_u16_t \<Rightarrow> ('k, 'v) matcherfunc \<Rightarrow> ('k, 'v, 'u) cachestate
       \<Rightarrow> (int \<times> ('k, 'v, 'u) cachestate) option" where
  "naf_cache_rempairs md lid matcher st =
     (case ca_tags st md of
        None \<Rightarrow> Some (-1, st)
      | Some ctd \<Rightarrow> do {
          ls \<leftarrow> ctd_lists ctd;
          case ctd_findlist ls lid of
            None \<Rightarrow> Some (-1, st)
          | Some cl \<Rightarrow>
              (let (pairs, user) = rempairs_loop md cl (\<lambda>cp. matcher md (cl_lid cl) (cp_key cp) (cp_value cp))
                                     (cl_pairs cl) (ca_user st)
               in Some (0, (set_lists md (cl_update lid (\<lambda>cl. cl\<lparr>cl_pairs := pairs\<rparr>) ls) st)\<lparr>ca_user := user\<rparr>))
        })"

section \<open>The timer\<close>

text \<open>The pass over the lists of a module; the inner loop is that of \<^verbatim>\<open>naf_cache_rempairs\<close> with the age as
  the criterion.\<close>

fun timer_lists ::
    "int \<Rightarrow> nafmod \<Rightarrow> ('k, 'v, 'u) cachelist list \<Rightarrow> 'u \<Rightarrow> ('k, 'v, 'u) cachelist list \<times> 'u" where
  "timer_lists now md [] user = ([], user)"
| "timer_lists now md (cl # ls) user =
     (let (cl, user) =
        (if now - cl_lastrun cl < cl_timeout cl then (cl, user)
         else (let (pairs, user) = rempairs_loop md cl (\<lambda>cp. now - cp_addtime cp \<ge> cl_timeout cl) (cl_pairs cl) user
               in (cl\<lparr>cl_pairs := pairs, cl_lastrun := now\<rparr>, user)));
          (ls, user) = timer_lists now md ls user
      in (cl # ls, user))"

definition timerhandler_iter ::
    "int \<Rightarrow> nafmod \<Rightarrow> nafmod \<Rightarrow> ('k, 'v, 'u) cachestate \<Rightarrow> (int \<times> ('k, 'v, 'u) cachestate) option" where
  "timerhandler_iter now md curmod st =
     (case ca_tags st curmod of
        None \<Rightarrow> Some (0, st)
      | Some ctd \<Rightarrow> do {
          ls \<leftarrow> ctd_lists ctd;
          let (ls, user) = timer_lists now curmod ls (ca_user st);
          Some (0, (set_lists curmod ls st)\<lparr>ca_user := user\<rparr>)
        })"

definition cache_timerhandler ::
    "('k, 'v, 'u) cachestate modlist_item list \<Rightarrow> int \<Rightarrow> nafmod \<Rightarrow> ('k, 'v, 'u) cachestate \<Rightarrow> ('k, 'v, 'u) cachestate option" where
  "cache_timerhandler ml now md st = naf_module_iter (Some (timerhandler_iter now)) (Some md) ml st"

text \<open>\<^verbatim>\<open>freetag\<close>: the lists of a module that goes away.\<close>

definition cache_freetag ::
    "nafmod \<Rightarrow> bytes \<Rightarrow> ('k, 'v, 'u) ctd \<Rightarrow> ('k, 'v, 'u) cachestate \<Rightarrow> ('k, 'v, 'u) cachestate option" where
  "cache_freetag object tagname tagdata st =
     (if tagname = cstr ''module.cachetagdata''
      then do { user \<leftarrow> ctd_free object tagdata (ca_user st); Some (st\<lparr>ca_user := user\<rparr>) }
      else Some st)"

section \<open>The operations on the list of a module\<close>

text \<open>The pairs of a list, newest first.\<close>

definition cache_view :: "('k, 'v, 'u) cachestate \<Rightarrow> nafmod \<Rightarrow> naf_u16_t \<Rightarrow> ('k, 'v) cachepair list option" where
  "cache_view st md lid =
     (case ca_tags st md of Some (Ctd ls) \<Rightarrow> map_option cl_pairs (ctd_findlist ls lid) | _ \<Rightarrow> None)"

lemma findlist_update:
  assumes "\<And>cl. cl_lid (f cl) = cl_lid cl"
  shows "ctd_findlist (cl_update lid f ls) lid' =
    (if lid' = lid then map_option f (ctd_findlist ls lid) else ctd_findlist ls lid')"
  using assms by (induction ls) (auto simp: ctd_findlist_def)

lemma findlist_lid: "ctd_findlist ls lid = Some cl \<Longrightarrow> cl_lid cl = lid"
  by (auto simp: ctd_findlist_def find_Some_iff)

lemma findpair_loop_eq:
  "findpair_loop m hit now ps = (List.find m ps,
     (case List.find m ps of None \<Rightarrow> ps
      | Some cp \<Rightarrow> if hit then takeWhile (Not \<circ> m) ps @ cp\<lparr>cp_addtime := now\<rparr> # tl (dropWhile (Not \<circ> m) ps) else ps))"
  by (induction ps) (auto split: option.splits)

text \<open>A function for releasing that writes a log.\<close>

definition log_free :: "nafmod \<Rightarrow> naf_u16_t \<Rightarrow> 'k \<Rightarrow> 'v \<Rightarrow> int \<Rightarrow> (nafmod \<times> naf_u16_t \<times> 'k \<times> 'v \<times> int) list
    \<Rightarrow> (nafmod \<times> naf_u16_t \<times> 'k \<times> 'v \<times> int) list" where
  "log_free m lid k v t log = log @ [(m, lid, k, v, t)]"

definition free_entry :: "nafmod \<Rightarrow> naf_u16_t \<Rightarrow> ('k, 'v) cachepair \<Rightarrow> nafmod \<times> naf_u16_t \<times> 'k \<times> 'v \<times> int" where
  "free_entry m lid cp = (m, lid, cp_key cp, cp_value cp, cp_addtime cp)"

lemma rempairs_loop_pairs: "fst (rempairs_loop md cl m ps user) = filter (\<lambda>cp. \<not> m cp) ps"
  by (induction ps arbitrary: user) (simp_all add: case_prod_beta)

lemma rempairs_loop_eq:
  "cl_freepair cl = Some log_free \<Longrightarrow>
     rempairs_loop md cl m ps log = (filter (\<lambda>cp. \<not> m cp) ps, log @ map (free_entry md (cl_lid cl)) (filter m ps))"
  by (induction ps arbitrary: log) (simp_all add: cp_free_def log_free_def free_entry_def)

definition timer_due :: "int \<Rightarrow> ('k, 'v, 'u) cachelist \<Rightarrow> bool" where
  "timer_due now cl \<longleftrightarrow> cl_timeout cl \<le> now - cl_lastrun cl"

definition pair_old :: "int \<Rightarrow> ('k, 'v, 'u) cachelist \<Rightarrow> ('k, 'v) cachepair \<Rightarrow> bool" where
  "pair_old now cl cp \<longleftrightarrow> cl_timeout cl \<le> now - cp_addtime cp"

lemma timer_lists_eq:
  "\<forall>cl \<in> set ls. cl_freepair cl = Some log_free \<Longrightarrow>
   timer_lists now md ls log =
     (map (\<lambda>cl. if timer_due now cl then cl\<lparr>cl_pairs := filter (\<lambda>cp. \<not> pair_old now cl cp) (cl_pairs cl), cl_lastrun := now\<rparr>
        else cl) ls,
      log @ concat (map (\<lambda>cl. if timer_due now cl then map (free_entry md (cl_lid cl)) (filter (pair_old now cl) (cl_pairs cl))
        else []) ls))"
proof (induction ls arbitrary: log)
  case (Cons cl ls)
  have "(\<lambda>cp. cl_timeout cl \<le> now - cp_addtime cp) = pair_old now cl" by (simp add: fun_eq_iff pair_old_def)
  with Cons show ?case by (simp add: rempairs_loop_eq timer_due_def not_le)
qed simp

lemma cl_free_eq:
  "cl_freepair cl = Some log_free \<Longrightarrow>
     cl_free_loop md cl ps log =
       (if odd (length ps) then None
        else Some (log @ map (free_entry md (cl_lid cl)) (map (\<lambda>i. ps ! (2 * i)) [0..<length ps div 2])))"
proof (induction md cl ps log rule: cl_free_loop.induct)
  case (3 md cl cp cptmp rest log)
  have "map (\<lambda>i. (cp # cptmp # rest) ! (2 * i)) [0..<Suc (length rest div 2)] =
      cp # map (\<lambda>i. rest ! (2 * i)) [0..<length rest div 2]"
    by (simp add: upt_conv_Cons map_Suc_upt [symmetric] comp_def del: upt_Suc)
  moreover have "cp_free md cl cp log = log @ [free_entry md (cl_lid cl) cp]"
    using 3 by (simp add: cp_free_def log_free_def free_entry_def)
  moreover have "length (cp # cptmp # rest) div 2 = Suc (length rest div 2)" by simp
  ultimately show ?case using 3 by (simp del: upt_Suc map_map)
qed simp_all

section \<open>Properties\<close>

text \<open>A list of a cache is what its operations say: adding puts the pair in front, a search gives the
  newest pair that matches and leaves the pairs in place, with a new time for that one when asked to,
  removing takes out exactly the pairs that match; no other list and no other module is touched.\<close>

theorem cache_operations:
  assumes view: "cache_view st md lid = Some ps" and mal: "total_alloc mal"
  shows "(\<exists>st'. naf_cache_addpair mal now md lid key val st = Some (0, st') \<and>
      cache_view st' = (cache_view st)(md := (cache_view st md)(lid \<mapsto> \<lparr>cp_key = key, cp_value = val, cp_addtime = now\<rparr> # ps))) \<and>
    (\<exists>st'. map_option (\<lambda>(r, out, st). (out, st)) (naf_cache_findpair now md lid matcher hit st) =
        Some (map_option (\<lambda>cp. (cp_key cp, cp_value cp)) (List.find (\<lambda>cp. matcher md lid (cp_key cp) (cp_value cp)) ps), st') \<and>
      cache_view st' = (cache_view st)(md := (cache_view st md)(lid \<mapsto>
        snd (findpair_loop (\<lambda>cp. matcher md lid (cp_key cp) (cp_value cp)) hit now ps)))) \<and>
    (\<exists>st'. naf_cache_rempairs md lid matcher st = Some (0, st') \<and>
      cache_view st' = (cache_view st)(md := (cache_view st md)(lid \<mapsto> filter (\<lambda>cp. \<not> matcher md lid (cp_key cp) (cp_value cp)) ps)))"
proof -
  obtain ls cl where st: "ca_tags st md = Some (Ctd ls)" "ctd_findlist ls lid = Some cl" "cl_pairs cl = ps"
    using view by (auto simp: cache_view_def split: option.splits ctd.splits)
  note lid = findlist_lid [OF st(2)]
  have upd: "cache_view (set_lists md (cl_update lid f ls) st) = (cache_view st)(md := (cache_view st md)(lid \<mapsto> cl_pairs (f cl)))"
    if "\<And>cl. cl_lid (f cl) = cl_lid cl" for f
    using st that by (auto simp: cache_view_def set_lists_def fun_eq_iff findlist_update)
  have user: "cache_view (st'\<lparr>ca_user := u\<rparr>) = cache_view st'" for st' :: "('a, 'b, 'c) cachestate" and u
    by (simp add: cache_view_def fun_eq_iff)
  have "mal sizeof_cachepair \<noteq> None" by (rule total_allocD(3) [OF mal])
  then have "naf_cache_addpair mal now md lid key val st =
      Some (0, set_lists md (cl_update lid (\<lambda>cl. cl\<lparr>cl_pairs := \<lparr>cp_key = key, cp_value = val, cp_addtime = now\<rparr> # cl_pairs cl\<rparr>) ls) st)"
    using st by (simp add: naf_cache_addpair_def ctd_lists_def cp_alloc_def)
  then have 1: "\<exists>st'. naf_cache_addpair mal now md lid key val st = Some (0, st') \<and>
      cache_view st' = (cache_view st)(md := (cache_view st md)(lid \<mapsto> \<lparr>cp_key = key, cp_value = val, cp_addtime = now\<rparr> # ps))"
    using upd [of "\<lambda>cl. cl\<lparr>cl_pairs := \<lparr>cp_key = key, cp_value = val, cp_addtime = now\<rparr> # cl_pairs cl\<rparr>"] st by simp
  let ?m = "\<lambda>cp. matcher md lid (cp_key cp) (cp_value cp)"
  have 2: "\<exists>st'. map_option (\<lambda>(r, out, st). (out, st)) (naf_cache_findpair now md lid matcher hit st) =
        Some (map_option (\<lambda>cp. (cp_key cp, cp_value cp)) (List.find ?m ps), st') \<and>
      cache_view st' = (cache_view st)(md := (cache_view st md)(lid \<mapsto> snd (findpair_loop ?m hit now ps)))"
  proof (cases "List.find ?m ps")
    case None
    have "cache_view st = (cache_view st)(md := (cache_view st md)(lid \<mapsto> ps))" using view by (simp add: fun_eq_iff)
    with None st lid show ?thesis
      by (intro exI [of _ st]) (simp add: naf_cache_findpair_def ctd_lists_def findpair_loop_eq)
  next
    case (Some cp)
    with st lid show ?thesis
      using upd [of "\<lambda>cl. cl\<lparr>cl_pairs := snd (findpair_loop ?m hit now ps)\<rparr>"]
      by (intro exI [of _ "set_lists md (cl_update lid (\<lambda>cl. cl\<lparr>cl_pairs := snd (findpair_loop ?m hit now ps)\<rparr>) ls) st"])
         (simp add: naf_cache_findpair_def ctd_lists_def findpair_loop_eq)
  qed
  have 3: "\<exists>st'. naf_cache_rempairs md lid matcher st = Some (0, st') \<and>
      cache_view st' = (cache_view st)(md := (cache_view st md)(lid \<mapsto> filter (\<lambda>cp. \<not> ?m cp) ps))"
    using st lid upd [of "\<lambda>cl. cl\<lparr>cl_pairs := filter (\<lambda>cp. \<not> ?m cp) ps\<rparr>"]
      rempairs_loop_pairs [of md cl ?m ps "ca_user st"]
    by (auto simp: naf_cache_rempairs_def ctd_lists_def case_prod_beta user)
  from 1 2 3 show ?thesis by blast
qed

definition sample_cache :: "(int, int, (nafmod \<times> naf_u16_t \<times> int \<times> int \<times> int) list) cachestate" where
  "sample_cache = \<lparr>ca_tags = [7 \<mapsto> Ctd [\<lparr>cl_lid = 1, cl_lastrun = 0, cl_timeout = 60, cl_freepair = Some log_free,
     cl_pairs = [\<lparr>cp_key = 3, cp_value = 4, cp_addtime = 90\<rparr>, \<lparr>cp_key = 1, cp_value = 2, cp_addtime = 10\<rparr>]\<rparr>]], ca_user = []\<rparr>"

theorem cache_operations_witness:
  "\<exists>st'. naf_cache_rempairs 7 1 (\<lambda>_ _ k v. k = 1) sample_cache = Some (0, st') \<and>
    cache_view st' 7 1 = Some [\<lparr>cp_key = 3, cp_value = 4, cp_addtime = 90\<rparr>]"
proof -
  have "cache_view sample_cache 7 1 = Some [\<lparr>cp_key = 3, cp_value = 4, cp_addtime = 90\<rparr>, \<lparr>cp_key = 1, cp_value = 2, cp_addtime = 10\<rparr>]"
    by (simp add: cache_view_def sample_cache_def ctd_findlist_def)
  from cache_operations [OF this total_zero_alloc, of 100 0 0 "\<lambda>_ _ k v. k = 1" False]
  obtain st' where "naf_cache_rempairs 7 1 (\<lambda>_ _ k v. k = 1) sample_cache = Some (0, st')"
    "cache_view st' = (cache_view sample_cache)(7 := (cache_view sample_cache 7)(1 \<mapsto>
       [\<lparr>cp_key = 3, cp_value = 4, cp_addtime = 90\<rparr>]))" by auto
  then show ?thesis by (intro exI [of _ st']) simp
qed

text \<open>C39. One run of the timer of the cache looks at the lists that it did not visit for their time limit, and at no
  other. Of each of these it releases exactly the pairs at least that old, each once, in order, and notes the visit; the other
  pairs stay, and lists that were visited more recently keep all of theirs, however old.\<close>

theorem cache_timer_exact:
  assumes "ca_tags st md = Some (Ctd ls)" "\<forall>cl \<in> set ls. cl_freepair cl = Some log_free"
  shows "timerhandler_iter now caller md st = Some (0, st\<lparr>
      ca_tags := (ca_tags st)(md \<mapsto> Ctd (map (\<lambda>cl. if timer_due now cl
        then cl\<lparr>cl_pairs := filter (\<lambda>cp. \<not> pair_old now cl cp) (cl_pairs cl), cl_lastrun := now\<rparr> else cl) ls)),
      ca_user := ca_user st @ concat (map (\<lambda>cl. if timer_due now cl
        then map (free_entry md (cl_lid cl)) (filter (pair_old now cl) (cl_pairs cl)) else []) ls)\<rparr>)"
  using assms(1) by (simp add: timerhandler_iter_def ctd_lists_def timer_lists_eq [OF assms(2)] set_lists_def)

theorem cache_timer_exact_witness:
  "\<exists>st'. timerhandler_iter 100 9 7 sample_cache = Some (0, st') \<and> ca_user st' = [(7, 1, 1, 2, 10)]"
proof -
  have "ca_tags sample_cache 7 = Some (Ctd [the (ctd_findlist [\<lparr>cl_lid = 1, cl_lastrun = 0, cl_timeout = 60, cl_freepair = Some log_free,
     cl_pairs = [\<lparr>cp_key = 3, cp_value = 4, cp_addtime = 90\<rparr>, \<lparr>cp_key = 1, cp_value = 2, cp_addtime = 10\<rparr>]\<rparr>] 1)])"
    by (simp add: sample_cache_def ctd_findlist_def)
  from cache_timer_exact [OF this, of 100 9] show ?thesis
    by (simp add: ctd_findlist_def timer_due_def pair_old_def free_entry_def) (simp add: sample_cache_def)
qed

text \<open>Releasing a list does not release its pairs: with an odd number of them it reads through a null
  pointer, with an even number it releases the first, third, fifth and so on and loses the others.\<close>

theorem cache_release_skips:
  assumes "cl_freepair cl = Some log_free"
  shows "cl_free md cl log =
    (if odd (length (cl_pairs cl)) then None
     else Some (log @ map (free_entry md (cl_lid cl)) (map (\<lambda>i. cl_pairs cl ! (2 * i)) [0..<length (cl_pairs cl) div 2])))"
  unfolding cl_free_def by (rule cl_free_eq [OF assms])

theorem cache_release_skips_witness:
  "cl_free 7 \<lparr>cl_lid = 1, cl_lastrun = 0, cl_timeout = 60, cl_freepair = Some log_free,
     cl_pairs = [\<lparr>cp_key = 3 :: int, cp_value = 4 :: int, cp_addtime = 90\<rparr>]\<rparr> [] = None"
  by (subst cache_release_skips) simp_all

end
