(* ===== verification/Config.thy ===== *)
theory Config
  imports Rpc
begin

text \<open>
  The configuration, \<^verbatim>\<open>naf/nafconfig.c\<close>: named parameters, their convenience readers, the reader of
  configuration files with sections and includes, and the two remote methods. A file that is open is
  the rest of its bytes with the end-of-file indicator; \<open>files\<close> gives the contents of the files that can
  be opened, and \<open>fds\<close> how many more can be open at a time.
\<close>

section \<open>Data\<close>

abbreviation (input) MAXLINELEN :: nat where "MAXLINELEN \<equiv> 512"
abbreviation (input) MODPREFIX :: bytes where "MODPREFIX \<equiv> cstr ''module.''"
abbreviation (input) CONFIG_PARM_FILENAME :: bytes where "CONFIG_PARM_FILENAME \<equiv> cstr ''__internal__.conffilename''"
abbreviation (input) sizeof_parm_s :: nat where "sizeof_parm_s \<equiv> 24"

record parm_s =
  pm_parm :: bytes
  pm_val :: "bytes option"

record confstate =
  cf_parmlist :: "parm_s list"
  cf_conffilename :: "bytes option"

definition ison :: "bytes \<Rightarrow> bool" where
  "ison x \<longleftrightarrow> strcasecmp_eq x (cstr ''yes'') \<or> strcasecmp_eq x (cstr ''on'') \<or> strcasecmp_eq x (cstr ''true'') \<or>
     strcasecmp_eq x (cstr ''1'')"

definition isoff :: "bytes \<Rightarrow> bool" where
  "isoff x \<longleftrightarrow> strcasecmp_eq x (cstr ''no'') \<or> strcasecmp_eq x (cstr ''off'') \<or> strcasecmp_eq x (cstr ''false'') \<or>
     strcasecmp_eq x (cstr ''0'')"

definition nextnonwhite :: "bytes \<Rightarrow> bytes" where
  "nextnonwhite s = dropWhile (\<lambda>c. c = 0x20 \<or> c = 0x09) s"

section \<open>Parameters\<close>

definition pm_matches :: "bytes \<Rightarrow> parm_s \<Rightarrow> bool" where
  "pm_matches parm p \<longleftrightarrow> pm_parm p = parm"

fun getparm :: "bytes \<Rightarrow> parm_s list \<Rightarrow> parm_s option" where
  "getparm parm [] = None"
| "getparm parm (cur # rest) = (if pm_matches parm cur then Some cur else getparm parm rest)"

fun remparm :: "bytes \<Rightarrow> parm_s list \<Rightarrow> parm_s option \<times> parm_s list" where
  "remparm parm [] = (None, [])"
| "remparm parm (cur # rest) =
     (if pm_matches parm cur then (Some cur, rest)
      else (let (r, rest) = remparm parm rest in (r, cur # rest)))"

definition allocparm :: "allocator \<Rightarrow> bytes \<Rightarrow> parm_s option" where
  "allocparm mal parm =
     (if mal sizeof_parm_s = None then None
      else if mal (length parm + 1) = None then None
      else Some \<lparr>pm_parm = parm, pm_val = None\<rparr>)"

definition naf_config_setparm :: "allocator \<Rightarrow> bytes \<Rightarrow> bytes option \<Rightarrow> 'z confstate_scheme \<Rightarrow> int \<times> 'z confstate_scheme" where
  "naf_config_setparm mal parm data st =
     (let st = st\<lparr>cf_parmlist := snd (remparm parm (cf_parmlist st))\<rparr>
      in case data of
           None \<Rightarrow> (0, st)
         | Some d \<Rightarrow>
             (case allocparm mal parm of
                None \<Rightarrow> (-1, st)
              | Some p \<Rightarrow>
                  if mal (length d + 1) = None then (-1, st)
                  else (0, st\<lparr>cf_parmlist := p\<lparr>pm_val := Some d\<rparr> # cf_parmlist st\<rparr>)))"

definition naf_config_getparmstr :: "bytes \<Rightarrow> 'z confstate_scheme \<Rightarrow> bytes option" where
  "naf_config_getparmstr parm st = Option.bind (getparm parm (cf_parmlist st)) pm_val"

definition naf_config_getparmbool :: "bytes \<Rightarrow> 'z confstate_scheme \<Rightarrow> int" where
  "naf_config_getparmbool parm st =
     (case naf_config_getparmstr parm st of
        None \<Rightarrow> -1
      | Some val \<Rightarrow> if ison val then 1 else if isoff val then 0 else -1)"

text \<open>\<^verbatim>\<open>snprintf\<close> into the static buffers cuts to what fits.\<close>

definition getprefixed :: "bytes \<Rightarrow> bytes" where
  "getprefixed modname = take MAXLINELEN (MODPREFIX @ modname @ cstr ''.'')"

definition naf_config_getmodparmraw :: "bytes option \<Rightarrow> bytes option \<Rightarrow> 'z confstate_scheme \<Rightarrow> bytes option" where
  "naf_config_getmodparmraw modname parm st =
     (case (modname, parm) of
        (Some m, Some p) \<Rightarrow> naf_config_getparmstr (take MAXLINELEN (MODPREFIX @ m @ cstr ''.'' @ p)) st
      | _ \<Rightarrow> None)"

text \<open>\<open>modname\<close> is the name of the module, if there is one.\<close>

definition naf_config_getmodparmstr :: "bytes option \<Rightarrow> bytes option \<Rightarrow> 'z confstate_scheme \<Rightarrow> bytes option" where
  "naf_config_getmodparmstr modname parm st =
     (case modname of None \<Rightarrow> None | Some m \<Rightarrow> naf_config_getmodparmraw (Some m) parm st)"

definition naf_config_getmodparmbool :: "bytes option \<Rightarrow> bytes option \<Rightarrow> 'z confstate_scheme \<Rightarrow> int" where
  "naf_config_getmodparmbool modname parm st =
     (case naf_config_getmodparmstr modname parm st of
        None \<Rightarrow> -1
      | Some val \<Rightarrow> if ison val then 1 else if isoff val then 0 else -1)"

section \<open>Reading files\<close>

type_synonym conffile = "bytes \<times> bool"

text \<open>One line into a buffer of \<open>size\<close> bytes. The length that the code is given is not used, so a line that
  does not fit is written past the end. The result is that of the function, the line and the file.\<close>

fun creadln_loop :: "nat \<Rightarrow> bytes \<Rightarrow> bytes \<Rightarrow> (int \<times> bytes \<times> conffile) option" where
  "creadln_loop sz buf [] = (if length buf < sz then Some (int (length buf), buf, ([], True)) else None)"
| "creadln_loop sz buf (c # file) =
     (if length buf < sz
      then (if c = 0 then Some (-1, buf, (file, False))
            else if c = 0x0d then creadln_loop sz buf file
            else if c = 0x0a then Some (int (length buf), buf, (file, False))
            else creadln_loop sz (buf @ [c]) file)
      else None)"

definition creadln :: "nat \<Rightarrow> conffile \<Rightarrow> (int \<times> bytes \<times> conffile) option" where
  "creadln sz file = (if snd file then Some (-1, [], file) else creadln_loop sz [] (fst file))"

text \<open>What a line says, on its own.\<close>

datatype confline =
    LNothing
  | LInclude bytes
  | LSection bytes bytes
  | LSetting bytes bytes

definition parse_section :: "bytes \<Rightarrow> confline" where
  "parse_section linestart =
     (if 0x5d \<notin> set linestart then LSection [] []
      else (let secname = takeWhile (\<lambda>c. c \<noteq> 0x5d) linestart
            in if 0x3d \<in> set secname
               then LSection (takeWhile (\<lambda>c. c \<noteq> 0x3d) secname) (tl (dropWhile (\<lambda>c. c \<noteq> 0x3d) secname))
               else LSection secname []))"

definition parse_line :: "bytes \<Rightarrow> confline" where
  "parse_line line =
     (if line = [] then LNothing
      else case nextnonwhite line of
             [] \<Rightarrow> LNothing
           | c # rest \<Rightarrow>
               if c = 0x3b then LNothing
               else if c = 0x21
               then (if take 8 rest = cstr ''include '' then LInclude (drop 8 rest) else LNothing)
               else if c = 0x5b then parse_section rest
               else if 0x3d \<notin> set (c # rest) then LNothing
               else if c = 0x3d then LNothing
               else LSetting (takeWhile (\<lambda>c. c \<noteq> 0x3d) (c # rest)) (tl (dropWhile (\<lambda>c. c \<noteq> 0x3d) (c # rest))))"

text \<open>A setting in its section.\<close>

definition apply_setting :: "allocator \<Rightarrow> bytes \<Rightarrow> bytes \<Rightarrow> bytes \<Rightarrow> bytes \<Rightarrow> 'z confstate_scheme \<Rightarrow> 'z confstate_scheme" where
  "apply_setting mal secname modname parm val st =
     (let val = (if val = [] then None else Some val)
      in if secname = cstr ''site''
         then snd (naf_config_setparm mal (take MAXLINELEN (cstr ''site.'' @ parm)) val st)
         else if secname = cstr ''module'' \<and> modname \<noteq> []
         then snd (naf_config_setparm mal (take MAXLINELEN (cstr ''module.'' @ modname @ cstr ''.'' @ parm)) val st)
         else st)"

definition file_left :: "conffile \<Rightarrow> nat" where
  "file_left file = length (fst file) + (if snd file then 0 else 1)"

lemma creadln_loop_shorter:
  "creadln_loop sz buf cs = Some (n, line, file') \<Longrightarrow> file_left file' < length cs + 1"
  by (induction sz buf cs rule: creadln_loop.induct) (auto simp: file_left_def split: if_splits)

lemma creadln_shorter:
  "creadln sz file = Some (n, line, file') \<Longrightarrow> \<not> n < 0 \<Longrightarrow> file_left file' < file_left file"
  using creadln_loop_shorter [of sz "[]" "fst file" n line "file'"]
  by (cases "snd file") (auto simp: creadln_def file_left_def [of "file"])

text \<open>The loop over the lines of an open file, in the section \<open>secname\<close>, \<open>modname\<close>. An included file is read
  with one descriptor less; one that cannot be opened is reported and passed over.\<close>

function readconfig_loop ::
    "allocator \<Rightarrow> (bytes \<Rightarrow> bytes option) \<Rightarrow> nat \<Rightarrow> conffile \<Rightarrow> bytes \<Rightarrow> bytes \<Rightarrow> 'z confstate_scheme \<Rightarrow> 'z confstate_scheme option" where
  "readconfig_loop mal files fds file secname modname st = do {
     (n, line, file') \<leftarrow> creadln (MAXLINELEN + 1) file;
     if n < 0 then Some st
     else case parse_line line of
            LNothing \<Rightarrow> readconfig_loop mal files fds file' secname modname st
          | LInclude name \<Rightarrow> do {
              st \<leftarrow> (case fds of
                       0 \<Rightarrow> Some st
                     | Suc k \<Rightarrow>
                         (case files name of
                            None \<Rightarrow> Some st
                          | Some content \<Rightarrow> readconfig_loop mal files k (content, False) [] [] st));
              readconfig_loop mal files fds file' secname modname st
            }
          | LSection secname modname \<Rightarrow> readconfig_loop mal files fds file' secname modname st
          | LSetting parm val \<Rightarrow>
              readconfig_loop mal files fds file' secname modname (apply_setting mal secname modname parm val st)
   }"
  by pat_completeness auto
termination
  by (relation "measures [\<lambda>(mal, files, fds, file, _). fds, \<lambda>(mal, files, fds, file, _). file_left file]")
     (auto intro: creadln_shorter)

declare readconfig_loop.simps [simp del]

definition readconfig ::
    "allocator \<Rightarrow> (bytes \<Rightarrow> bytes option) \<Rightarrow> nat \<Rightarrow> bytes option \<Rightarrow> bool \<Rightarrow> 'z confstate_scheme \<Rightarrow> (int \<times> 'z confstate_scheme) option" where
  "readconfig mal files fds cfn including st =
     (let st = (if cfn \<noteq> None \<and> \<not> including
                then st\<lparr>cf_conffilename := (if mal (length (the cfn) + 1) = None then None else cfn)\<rparr> else st);
          cfn = (if \<not> including \<and> cfn = None then cf_conffilename st else cfn)
      in case cfn of
           None \<Rightarrow> Some (-1, st)
         | Some name \<Rightarrow>
             (case fds of
                0 \<Rightarrow> Some (-1, st)
              | Suc k \<Rightarrow>
                  (case files name of
                     None \<Rightarrow> Some (-1, st)
                   | Some content \<Rightarrow> map_option (\<lambda>st. (0, st)) (readconfig_loop mal files k (content, False) [] [] st))))"

text \<open>Start-up: the name of the file comes from the command line, as a parameter.\<close>

definition config_modinit ::
    "allocator \<Rightarrow> (bytes \<Rightarrow> bytes option) \<Rightarrow> nat \<Rightarrow> 'z confstate_scheme \<Rightarrow> (int \<times> 'z confstate_scheme) option" where
  "config_modinit mal files fds st = do {
     (_, st) \<leftarrow> readconfig mal files fds (naf_config_getparmstr CONFIG_PARM_FILENAME st) False st;
     Some (0, st)
   }"

abbreviation (input) NAF_SIGNAL_CONFCHANGE :: int where "NAF_SIGNAL_CONFCHANGE \<equiv> 12"

text \<open>The file is read again when a reload is signalled, and all modules are told.\<close>

definition config_reload ::
    "allocator \<Rightarrow> (bytes \<Rightarrow> bytes option) \<Rightarrow> nat \<Rightarrow> 'z confstate_scheme modlist_item list \<Rightarrow> 'z confstate_scheme
       \<Rightarrow> 'z confstate_scheme option" where
  "config_reload mal files fds ml st = do {
     (_, st) \<leftarrow> readconfig mal files fds None False st;
     nafsignal None NAF_SIGNAL_CONFCHANGE ml st
   }"

section \<open>Remote methods\<close>

definition rpc_config_setvar :: "allocator \<Rightarrow> rpcreq \<Rightarrow> 'z confstate_scheme \<Rightarrow> (rpcreq \<times> 'z confstate_scheme) option" where
  "rpc_config_setvar mal req st = do {
     modarg \<leftarrow> string_arg (rq_inargs req) (cstr ''module'');
     vararg \<leftarrow> string_arg (rq_inargs req) (cstr ''varname'');
     valarg \<leftarrow> string_arg (rq_inargs req) (cstr ''value'');
     case modarg of
       None \<Rightarrow> rpc_status NAF_RPC_STATUS_INVALIDARGS req st
     | Some module \<Rightarrow>
         (case vararg of
            None \<Rightarrow> rpc_status NAF_RPC_STATUS_INVALIDARGS req st
          | Some None \<Rightarrow> rpc_status NAF_RPC_STATUS_INVALIDARGS req st
          | Some (Some var) \<Rightarrow>
              (case valarg of
                 None \<Rightarrow> rpc_status NAF_RPC_STATUS_INVALIDARGS req st
               | Some val \<Rightarrow>
                   (let buf = take MAXLINELEN ((case module of None \<Rightarrow> [] | Some m \<Rightarrow> MODPREFIX @ m @ cstr ''.'') @ var)
                    in rpc_status NAF_RPC_STATUS_SUCCESS req (snd (naf_config_setparm mal buf val st)))))
   }"

definition rpc_config_getvar :: "allocator \<Rightarrow> rpcreq \<Rightarrow> 'z confstate_scheme \<Rightarrow> (rpcreq \<times> 'z confstate_scheme) option" where
  "rpc_config_getvar mal req st = do {
     modarg \<leftarrow> string_arg (rq_inargs req) (cstr ''module'');
     vararg \<leftarrow> string_arg (rq_inargs req) (cstr ''varname'');
     case modarg of
       None \<Rightarrow> rpc_status NAF_RPC_STATUS_INVALIDARGS req st
     | Some module \<Rightarrow>
         (case vararg of
            None \<Rightarrow> rpc_status NAF_RPC_STATUS_INVALIDARGS req st
          | Some var \<Rightarrow> do {
              (hd', as) \<leftarrow> naf_rpc_addarg_array mal [] (cstr ''variables'') (rq_returnargs req);
              let req = req\<lparr>rq_returnargs := as\<rparr>;
              case hd' of
                None \<Rightarrow> rpc_status NAF_RPC_STATUS_UNKNOWNFAILURE req st
              | Some head \<Rightarrow> do {
                  as \<leftarrow> (case var of
                     Some v \<Rightarrow>
                       rpc_in_array mal head v (\<lambda>varhead. rpc_puts mal varhead
                         (opt_string (cstr ''module'') module @ [PutString (cstr ''varname'') v] @
                          opt_string (cstr ''value'') (case module of
                            Some m \<Rightarrow> naf_config_getmodparmraw (Some m) (Some v) st
                          | None \<Rightarrow> naf_config_getparmstr v st))) as
                   | None \<Rightarrow>
                       rpc_for (\<lambda>cur. if module \<noteq> None \<and> \<not> strncasecmp_prefix (pm_parm cur) (getprefixed (the module)) then Some
                         else rpc_in_array mal head (pm_parm cur) (\<lambda>varhead. rpc_puts mal varhead
                           (opt_string (cstr ''value'') (pm_val cur)))) (cf_parmlist st) as);
                  rpc_status NAF_RPC_STATUS_SUCCESS (req\<lparr>rq_returnargs := as\<rparr>) st
                }
            })
   }"

section \<open>The parameters as a map\<close>

lemma getparm_find: "getparm parm ps = List.find (pm_matches parm) ps"
  by (induction ps) auto

lemma remparm_first: "remparm parm ps = unlink_first (pm_matches parm) ps"
  by (induction ps) auto

lemma pm_matches_key: "pm_matches k a \<Longrightarrow> pm_matches k' a \<Longrightarrow> k = k'"
  by (simp add: pm_matches_def)

interpretation pml: keyed_list pm_matches "\<lambda>l. l" getparm remparm Cons
  by unfold_locales (auto simp: getparm_find remparm_first dest: pm_matches_key)

definition conf_inv :: "'z confstate_scheme \<Rightarrow> bool" where
  "conf_inv st \<longleftrightarrow> unique_by pm_matches (cf_parmlist st) \<and> (\<forall>p \<in> set (cf_parmlist st). pm_val p \<noteq> None)"

definition conf_map :: "'z confstate_scheme \<Rightarrow> bytes \<Rightarrow> bytes option" where
  "conf_map st = (\<lambda>parm. naf_config_getparmstr parm st)"

lemma pm_matches_inj: "pm_matches k = pm_matches k' \<longleftrightarrow> k = k'"
proof
  assume "pm_matches k = pm_matches k'"
  moreover have "pm_matches k \<lparr>pm_parm = k, pm_val = None\<rparr>" by (simp add: pm_matches_def)
  ultimately show "k = k'" using pm_matches_key by metis
qed simp

lemma set_remparm: "p \<in> set (snd (remparm parm ps)) \<Longrightarrow> p \<in> set ps"
  by (induction ps) (auto simp: case_prod_beta split: if_splits)

lemma setparm_map:
  assumes "conf_inv st" "naf_config_setparm mal parm data st = (r, st')"
  shows "conf_inv st' \<and> conf_map st' = (conf_map st)(parm := if r = 0 then data else None) \<and>
    cf_conffilename st' = cf_conffilename st"
proof -
  let ?ps = "snd (remparm parm (cf_parmlist st))"
  have ps: "unique_by pm_matches ?ps" "\<forall>p \<in> set ?ps. pm_val p \<noteq> None"
    using assms(1) pml.unique_unlink [of "cf_parmlist st" parm] by (auto simp: conf_inv_def dest: set_remparm)
  have off: "getparm k ?ps = (if k = parm then None else getparm k (cf_parmlist st))" for k
    using assms(1) pml.lookup_unlink_same pml.lookup_unlink_other
    by (auto simp: conf_inv_def pm_matches_inj)
  consider "cf_parmlist st' = ?ps" "r = 0 \<longrightarrow> data = None" "cf_conffilename st' = cf_conffilename st"
    | d where "data = Some d" "r = 0" "cf_parmlist st' = \<lparr>pm_parm = parm, pm_val = Some d\<rparr> # ?ps"
        "cf_conffilename st' = cf_conffilename st"
    using assms(2)
    by (auto simp: naf_config_setparm_def allocparm_def Let_def split: option.splits if_splits)
  then show ?thesis
  proof cases
    case 1
    with ps off show ?thesis
      by (auto simp: conf_inv_def conf_map_def naf_config_getparmstr_def fun_eq_iff)
  next
    case 2
    have "unique_by pm_matches (cf_parmlist st')"
      unfolding 2(3) by (rule pml.unique_push) (use ps off [of parm] in \<open>auto simp: pm_matches_def\<close>)
    with 2 ps off show ?thesis
      by (auto simp: conf_inv_def conf_map_def naf_config_getparmstr_def fun_eq_iff pm_matches_def)
  qed
qed

lemma setparm_total:
  assumes "total_alloc mal"
  shows "fst (naf_config_setparm mal parm data st) = 0"
proof (rule total_alloc_fun [OF assms])
  fix f assume "\<And>n. mal n = Some (f n)"
  then show ?thesis by (simp add: naf_config_setparm_def allocparm_def Let_def split: option.splits)
qed

section \<open>Reading lines\<close>

definition plain_text :: "bytes \<Rightarrow> bool" where
  "plain_text s \<longleftrightarrow> 0 \<notin> set s \<and> 0x0d \<notin> set s \<and> 0x0a \<notin> set s"

lemma creadln_loop_plain:
  "plain_text s \<Longrightarrow> length buf + length s < sz \<Longrightarrow>
     creadln_loop sz buf (s @ cs) = creadln_loop sz (buf @ s) cs"
proof (induction s arbitrary: buf)
  case (Cons c s)
  then have "plain_text s" "c \<noteq> 0" "c \<noteq> 0x0d" "c \<noteq> 0x0a" by (auto simp: plain_text_def)
  with Cons show ?case by simp
qed simp

lemma creadln_plain:
  "plain_text s \<Longrightarrow> length s < sz \<Longrightarrow> creadln sz (s @ 0x0a # cs, False) = Some (int (length s), s, (cs, False))"
  by (simp add: creadln_def creadln_loop_plain)

lemma creadln_loop_overlong:
  "plain_text s \<Longrightarrow> length buf + length s \<ge> sz \<Longrightarrow> length buf \<le> sz \<Longrightarrow> creadln_loop sz buf (s @ cs) = None"
proof (induction s arbitrary: buf)
  case Nil
  then show ?case by (cases cs) auto
next
  case (Cons c s)
  then have "plain_text s" "c \<noteq> 0" "c \<noteq> 0x0d" "c \<noteq> 0x0a" by (auto simp: plain_text_def)
  with Cons show ?case by simp
qed

text \<open>No line of a file is longer than the buffer, line feeds and carriage returns not counted.\<close>

fun lines_fit :: "nat \<Rightarrow> nat \<Rightarrow> bytes \<Rightarrow> bool" where
  "lines_fit sz n [] \<longleftrightarrow> n < sz"
| "lines_fit sz n (c # cs) \<longleftrightarrow> n < sz \<and> lines_fit sz (if c = 0x0a then 0 else if c = 0x0d then n else Suc n) cs"

lemma creadln_loop_fits:
  "lines_fit sz (length buf) cs \<Longrightarrow> \<exists>n line file'. creadln_loop sz buf cs = Some (n, line, file') \<and> (0 \<le> n \<longrightarrow> lines_fit sz 0 (fst file'))"
  by (induction sz buf cs rule: creadln_loop.induct) auto

lemma creadln_fits:
  "0 < sz \<Longrightarrow> lines_fit sz 0 (fst file) \<Longrightarrow>
     \<exists>n line file'. creadln sz file = Some (n, line, file') \<and> (0 \<le> n \<longrightarrow> lines_fit sz 0 (fst file'))"
  using creadln_loop_fits [of sz "[]" "fst file"] by (auto simp: creadln_def)

lemma apply_setting_inv: "conf_inv st \<Longrightarrow> conf_inv (apply_setting mal secname modname parm val st)"
proof -
  have "conf_inv (snd (naf_config_setparm mal p d st))" if "conf_inv st" for p d
    using setparm_map [OF that, of mal p d] by (cases "naf_config_setparm mal p d st") simp
  then show "conf_inv st \<Longrightarrow> ?thesis" by (simp add: apply_setting_def Let_def)
qed

lemma readconfig_loop_total:
  assumes "\<And>name content. files name = Some content \<Longrightarrow> lines_fit (MAXLINELEN + 1) 0 content"
  shows "lines_fit (MAXLINELEN + 1) 0 (fst file) \<Longrightarrow> conf_inv st \<Longrightarrow>
     \<exists>st'. readconfig_loop mal files fds file secname modname st = Some st' \<and> conf_inv st'"
  using assms
proof (induction mal files fds "file" secname modname st rule: readconfig_loop.induct)
  case (1 mal files fds "file" secname modname st)
  obtain n line file' where l: "creadln (MAXLINELEN + 1) file = Some (n, line, file')"
    "0 \<le> n \<longrightarrow> lines_fit (MAXLINELEN + 1) 0 (fst file')"
    using creadln_fits [of "MAXLINELEN + 1" "file"] 1 by auto
  show ?case
  proof (cases "n < 0")
    case True
    with l 1 show ?thesis by (simp add: readconfig_loop.simps [of mal files fds "file"])
  next
    case False
    note IH = "1.IH" [OF l(1) refl refl False]
    have fit: "lines_fit (MAXLINELEN + 1) 0 (fst file')" using l False by simp
    show ?thesis
    proof (cases "parse_line line")
      case LNothing
      with IH(1) fit 1 l False show ?thesis by (simp add: readconfig_loop.simps [of mal files fds "file"])
    next
      case (LInclude name)
      let ?inc = "case fds of 0 \<Rightarrow> Some st | Suc k \<Rightarrow> (case files name of None \<Rightarrow> Some st
        | Some content \<Rightarrow> readconfig_loop mal files k (content, False) [] [] st)"
      have "\<exists>st1. ?inc = Some st1 \<and> conf_inv st1"
      proof (cases fds)
        case (Suc k)
        show ?thesis
        proof (cases "files name")
          case (Some content)
          then show ?thesis using IH(2) [OF LInclude Suc Some] 1 Suc by simp
        qed (use Suc 1 in simp)
      qed (use 1 in simp)
      then obtain st1 where st1: "?inc = Some st1" "conf_inv st1" by blast
      then obtain st2 where "readconfig_loop mal files fds file' secname modname st1 = Some st2" "conf_inv st2"
        using IH(3) [OF LInclude st1(1) fit] 1 by blast
      then show ?thesis
        using st1 LInclude l False by (simp add: readconfig_loop.simps [of mal files fds "file"])
    next
      case (LSection s m)
      with IH(4) fit 1 l False show ?thesis by (simp add: readconfig_loop.simps [of mal files fds "file"])
    next
      case (LSetting p v)
      have "conf_inv (apply_setting mal secname modname p v st)" using 1 by (simp add: apply_setting_inv)
      with IH(5) [OF LSetting fit] 1(8) LSetting l False show ?thesis
        by (simp add: readconfig_loop.simps [of mal files fds "file"])
    qed
  qed
qed

section \<open>Writing and reading a file\<close>

text \<open>A setting of the site or of a module as two lines of a file, and what may be written that way.\<close>

type_synonym setting = "bytes option \<times> bytes \<times> bytes"

definition print_section :: "bytes option \<Rightarrow> bytes" where
  "print_section m = (case m of None \<Rightarrow> cstr ''[site]'' | Some m \<Rightarrow> cstr ''[module='' @ m @ [0x5d])"

definition print_setting :: "setting \<Rightarrow> bytes" where
  "print_setting x = (case x of (m, p, v) \<Rightarrow> print_section m @ [0x0a] @ p @ [0x3d] @ v @ [0x0a])"

definition setting_name :: "setting \<Rightarrow> bytes" where
  "setting_name x = (case x of
     (None, p, v) \<Rightarrow> cstr ''site.'' @ p
   | (Some m, p, v) \<Rightarrow> cstr ''module.'' @ m @ cstr ''.'' @ p)"

definition setting_value :: "setting \<Rightarrow> bytes option" where
  "setting_value x = (case x of (m, p, v) \<Rightarrow> if v = [] then None else Some v)"

definition setting_section :: "bytes option \<Rightarrow> bytes \<times> bytes" where
  "setting_section m = (case m of None \<Rightarrow> (cstr ''site'', []) | Some m \<Rightarrow> (cstr ''module'', m))"

definition put_setting :: "setting \<Rightarrow> (bytes \<Rightarrow> bytes option) \<Rightarrow> (bytes \<Rightarrow> bytes option)" where
  "put_setting x f = f(setting_name x := setting_value x)"

text \<open>No byte of a name or a value ends the line or the part it is in, and the lines and the name fit the buffers.\<close>

definition setting_ok :: "setting \<Rightarrow> bool" where
  "setting_ok x \<longleftrightarrow> (case x of (m, p, v) \<Rightarrow>
     (case m of None \<Rightarrow> True | Some m \<Rightarrow> m \<noteq> [] \<and> plain_text m \<and> 0x5d \<notin> set m \<and> length m + 9 \<le> MAXLINELEN) \<and>
     p \<noteq> [] \<and> plain_text p \<and> plain_text v \<and> 0x3d \<notin> set p \<and> hd p \<notin> {0x20, 0x09, 0x3b, 0x21, 0x5b} \<and>
     length p + 1 + length v \<le> MAXLINELEN \<and> length (setting_name x) \<le> MAXLINELEN)"

lemma plain_text_append [simp]: "plain_text (a @ b) \<longleftrightarrow> plain_text a \<and> plain_text b"
  by (auto simp: plain_text_def)

lemma takeWhile_not_in: "c \<notin> set xs \<Longrightarrow> takeWhile (\<lambda>x. x \<noteq> c) (xs @ c # ys) = xs"
  by (subst takeWhile_append2) auto

lemma dropWhile_not_in: "c \<notin> set xs \<Longrightarrow> dropWhile (\<lambda>x. x \<noteq> c) (xs @ c # ys) = c # ys"
  by (subst dropWhile_append2) auto

lemma parse_section_line:
  assumes "\<And>n. m = Some n \<Longrightarrow> n \<noteq> [] \<and> 0x5d \<notin> set n"
  shows "parse_line (print_section m) = LSection (fst (setting_section m)) (snd (setting_section m))"
proof (cases m)
  case None
  then show ?thesis
    by (simp add: print_section_def setting_section_def cstr_def parse_line_def nextnonwhite_def parse_section_def)
next
  case (Some n)
  let ?s = "cstr ''module='' @ n"
  have 1: "print_section m = 0x5b # ?s @ [0x5d]" by (simp add: cstr_def print_section_def Some)
  have 2: "0x5d \<notin> set ?s" using assms Some by (simp add: cstr_def)
  have 3: "?s = cstr ''module'' @ 0x3d # n" by (simp add: cstr_def)
  have 4: "0x3d \<notin> set (cstr ''module'')" by (simp add: cstr_def)
  have "parse_section (?s @ [0x5d]) = LSection (cstr ''module'') n"
    using takeWhile_not_in [OF 2, of "[]"] takeWhile_not_in [OF 4, of n] dropWhile_not_in [OF 4, of n]
    by (simp add: parse_section_def Let_def 3)
  then show ?thesis unfolding 1 by (simp add: parse_line_def nextnonwhite_def setting_section_def Some)
qed

lemma parse_setting_line:
  assumes "p \<noteq> []" "0x3d \<notin> set p" "hd p \<notin> {0x20, 0x09, 0x3b, 0x21, 0x5b}"
  shows "parse_line (p @ [0x3d] @ v) = LSetting p v"
proof -
  obtain c q where p: "p = c # q" using assms(1) by (cases p) auto
  with assms have c: "c \<noteq> 0x3d" "c \<noteq> 0x20" "c \<noteq> 0x09" "c \<noteq> 0x3b" "c \<noteq> 0x21" "c \<noteq> 0x5b" and q: "0x3d \<notin> set q" by auto
  show ?thesis
    using takeWhile_not_in [OF q, of v] dropWhile_not_in [OF q, of v] c
    by (simp add: parse_line_def nextnonwhite_def p)
qed

lemma read_setting:
  assumes "setting_ok (m, p, v)"
  shows "readconfig_loop mal files fds (print_setting (m, p, v) @ cs, False) secname modname st =
    (case setting_section m of (sec, md) \<Rightarrow> readconfig_loop mal files fds (cs, False) sec md (apply_setting mal sec md p v st))"
proof -
  note ok = assms [unfolded setting_ok_def, simplified]
  let ?l1 = "print_section m" and ?l2 = "p @ [0x3d] @ v"
  have l1: "plain_text ?l1" "length ?l1 < MAXLINELEN + 1" and l2: "plain_text ?l2" "length ?l2 < MAXLINELEN + 1"
    using ok by (auto simp: plain_text_def cstr_def print_section_def split: option.splits)
  obtain sec md where sec: "setting_section m = (sec, md)" by (cases "setting_section m")
  have "parse_line ?l1 = LSection sec md"
    using parse_section_line [of m] ok by (auto simp: sec split: option.splits)
  then have "readconfig_loop mal files fds (?l1 @ 0x0a # ?l2 @ 0x0a # cs, False) secname modname st =
      readconfig_loop mal files fds (?l2 @ 0x0a # cs, False) sec md st"
    using creadln_plain [OF l1] by (subst readconfig_loop.simps) simp
  also have "\<dots> = readconfig_loop mal files fds (cs, False) sec md (apply_setting mal sec md p v st)"
    using creadln_plain [OF l2] parse_setting_line [of p v] ok
    by (subst readconfig_loop.simps) simp
  finally show ?thesis by (simp add: print_setting_def sec)
qed

lemma apply_setting_map:
  assumes "conf_inv st" "total_alloc mal" "setting_ok (m, p, v)" "setting_section m = (sec, md)"
  shows "conf_map (apply_setting mal sec md p v st) = put_setting (m, p, v) (conf_map st)"
proof -
  have ok: "\<And>n. m = Some n \<Longrightarrow> n \<noteq> []" "length (setting_name (m, p, v)) \<le> MAXLINELEN"
    using assms(3) by (simp_all add: setting_ok_def)
  have ne: "cstr ''module'' \<noteq> cstr ''site''" by (simp add: cstr_def)
  have "apply_setting mal sec md p v st = snd (naf_config_setparm mal (setting_name (m, p, v)) (setting_value (m, p, v)) st)"
    using ok ne assms(4)
    by (cases m) (simp_all add: apply_setting_def setting_name_def setting_value_def setting_section_def Let_def)
  then show ?thesis
    using setparm_map [OF assms(1), of mal "setting_name (m, p, v)" "setting_value (m, p, v)"]
      setparm_total [OF assms(2), of "setting_name (m, p, v)" "setting_value (m, p, v)" st]
    by (cases "naf_config_setparm mal (setting_name (m, p, v)) (setting_value (m, p, v)) st") (auto simp: put_setting_def)
qed

lemma readconfig_loop_end: "readconfig_loop mal files fds ([], False) secname modname st = Some st"
  by (simp add: readconfig_loop.simps [of mal files fds "([], False)"] readconfig_loop.simps [of mal files fds "([], True)"]
      creadln_def parse_line_def)

lemma read_settings:
  assumes "total_alloc mal"
  shows "list_all setting_ok xs \<Longrightarrow> conf_inv st \<Longrightarrow>
    \<exists>st'. readconfig_loop mal files fds (concat (map print_setting xs), False) secname modname st = Some st' \<and>
      conf_map st' = fold put_setting xs (conf_map st)"
proof (induction xs arbitrary: secname modname st)
  case Nil
  then show ?case by (simp add: readconfig_loop_end)
next
  case (Cons x xs)
  obtain m p v where x: "x = (m, p, v)" by (cases x)
  obtain sec md where sec: "setting_section m = (sec, md)" by (cases "setting_section m")
  let ?st = "apply_setting mal sec md p v st"
  have m: "conf_map ?st = put_setting x (conf_map st)"
    using apply_setting_map [OF Cons.prems(2) assms _ sec, of p v] Cons.prems(1) x by simp
  have "conf_inv ?st" by (rule apply_setting_inv [OF Cons.prems(2)])
  then obtain st' where "readconfig_loop mal files fds (concat (map print_setting xs), False) sec md ?st = Some st'"
    "conf_map st' = fold put_setting xs (conf_map ?st)"
    using Cons.IH [of ?st sec md] Cons.prems(1) by auto
  with m show ?case using read_setting [of m p v mal files fds "concat (map print_setting xs)" secname modname st] Cons.prems(1) x sec
    by (simp del: fun_upd_apply)
qed

section \<open>Properties\<close>

text \<open>C13. The configuration is a map from names to values: setting a parameter changes the value of that one
  parameter, also to none, and of no other; only a value that cannot be stored for lack of memory is lost
  together with the old one. Every name is there once.\<close>

theorem config_is_a_map:
  assumes "conf_inv st" "naf_config_setparm mal parm data st = (r, st')"
  shows "conf_inv st' \<and> (\<forall>k. naf_config_getparmstr k st' =
      (if k = parm then (if r = 0 then data else None) else naf_config_getparmstr k st)) \<and>
    (total_alloc mal \<longrightarrow> r = 0)"
  using setparm_map [OF assms] setparm_total [of mal parm data st] assms(2)
  by (auto simp: conf_map_def fun_eq_iff)

definition conf_empty :: confstate where
  "conf_empty = \<lparr>cf_parmlist = [], cf_conffilename = None\<rparr>"

lemma conf_empty_inv: "conf_inv conf_empty"
  by (simp add: conf_inv_def conf_empty_def)

theorem config_is_a_map_witness:
  "\<exists>st :: confstate. naf_config_getparmstr (cstr ''site.name'') st = Some (cstr ''x'') \<and> naf_config_getparmstr (cstr ''site'') st = None"
proof -
  obtain r st where st: "naf_config_setparm zero_alloc (cstr ''site.name'') (Some (cstr ''x'')) conf_empty = (r, st)"
    by (cases "naf_config_setparm zero_alloc (cstr ''site.name'') (Some (cstr ''x'')) conf_empty")
  from config_is_a_map [OF conf_empty_inv st] show ?thesis
    by (intro exI [of _ st]) (simp add: cstr_def naf_config_getparmstr_def conf_empty_def)
qed

text \<open>C12. Reading the configuration returns, whatever the files say and however they include each other,
  themselves among them, as long as no line is longer than 512 characters, and keeps the parameters
  sound. The number of files that can be open bounds the nesting.\<close>

theorem readconfig_total:
  fixes st :: "'z confstate_scheme"
  assumes "\<And>name content. files name = Some content \<Longrightarrow> lines_fit (MAXLINELEN + 1) 0 content" "conf_inv st"
  shows "\<exists>r st'. readconfig mal files fds cfn including st = Some (r, st') \<and> conf_inv st'"
proof -
  have inv: "conf_inv (st\<lparr>cf_conffilename := f\<rparr>)" for f using assms(2) by (simp add: conf_inv_def)
  have "\<exists>st'. readconfig_loop mal files k (content, False) [] [] st1 = Some st' \<and> conf_inv st'"
    if "files name = Some content" "conf_inv st1" for name content k and st1 :: "'z confstate_scheme"
    using readconfig_loop_total [of files "(content, False)" st1 mal k "[]" "[]"] assms(1) that by auto
  then show ?thesis
    using assms(2) inv by (auto simp: readconfig_def Let_def split: option.splits nat.splits)
qed

definition self_include :: "bytes \<Rightarrow> bytes option" where
  "self_include name = (if name = cstr ''a'' then Some (cstr ''!include a'' @ [0x0a]) else None)"

theorem readconfig_total_witness:
  "\<exists>r st'. readconfig zero_alloc self_include 1000 (Some (cstr ''a'')) False conf_empty = Some (r, st')"
proof -
  have "lines_fit (MAXLINELEN + 1) 0 content" if "self_include name = Some content" for name content
    using that by (auto simp: self_include_def cstr_def split: if_splits)
  from readconfig_total [of self_include conf_empty zero_alloc 1000 "Some (cstr ''a'')" False, OF _ conf_empty_inv] this
  show ?thesis by blast
qed

text \<open>C11. What is written to a file section by section is read back: settings of the form \<^verbatim>\<open>p=v\<close>, each below a line
  \<^verbatim>\<open>[site]\<close> or \<^verbatim>\<open>[module=m]\<close>. After reading, every parameter \<^verbatim>\<open>site.p\<close> or \<^verbatim>\<open>module.m.p\<close> that
  the file sets has the value it was given last, none where that is empty, and the others have the value they had. Names and values are
  plain text, without the characters that end the part they are in, and no line and no name is longer than 512 characters.\<close>

theorem config_file_roundtrip:
  assumes "total_alloc mal" "list_all setting_ok xs" "conf_inv st" "files name = Some (concat (map print_setting xs))"
  shows "\<exists>st'. readconfig mal files (Suc k) (Some name) including st = Some (0, st') \<and>
    (\<forall>parm. naf_config_getparmstr parm st' =
      fold (\<lambda>x v. if setting_name x = parm then setting_value x else v) xs (naf_config_getparmstr parm st))"
proof -
  let ?st = "if including then st else st\<lparr>cf_conffilename := (if mal (length name + 1) = None then None else Some name)\<rparr>"
  have "conf_inv ?st" "conf_map ?st = conf_map st"
    using assms(3) by (auto simp: conf_inv_def conf_map_def naf_config_getparmstr_def)
  with read_settings [OF assms(1,2), of ?st files k "[]" "[]"] obtain st' where
    st': "readconfig_loop mal files k (concat (map print_setting xs), False) [] [] ?st = Some st'"
      "conf_map st' = fold put_setting xs (conf_map st)" by auto
  have "fold put_setting xs f parm = fold (\<lambda>x v. if setting_name x = parm then setting_value x else v) xs (f parm)" for f parm
    by (induction xs arbitrary: f) (auto simp: put_setting_def)
  with st' assms(4) show ?thesis
    by (intro exI [of _ st']) (auto simp: readconfig_def Let_def conf_map_def fun_eq_iff)
qed

theorem config_file_roundtrip_witness:
  "\<exists>st. readconfig zero_alloc (\<lambda>_. Some (print_setting (Some (cstr ''conn''), cstr ''debug'', cstr ''1'') @
        print_setting (None, cstr ''debug'', cstr ''0''))) 1 (Some []) False conf_empty = Some (0, st) \<and>
     naf_config_getmodparmstr (Some (cstr ''conn'')) (Some (cstr ''debug'')) st = Some (cstr ''1'') \<and>
     naf_config_getparmstr (cstr ''site.debug'') st = Some (cstr ''0'')"
proof -
  let ?x = "(Some (cstr ''conn''), cstr ''debug'', cstr ''1'')" and ?y = "(None, cstr ''debug'', cstr ''0'')"
  have names: "setting_name ?x = cstr ''module.conn.debug''" "setting_name ?y = cstr ''site.debug''"
    by (simp_all add: setting_name_def cstr_def)
  have "list_all setting_ok [?x, ?y]" by (simp add: setting_ok_def plain_text_def names) (simp add: cstr_def)
  from config_file_roundtrip [OF total_zero_alloc this conf_empty_inv, of "\<lambda>_. Some (print_setting ?x @ print_setting ?y)" "[]" 0 False]
  obtain st where st: "readconfig zero_alloc (\<lambda>_. Some (print_setting ?x @ print_setting ?y)) (Suc 0) (Some []) False conf_empty = Some (0, st)"
    "\<And>parm. naf_config_getparmstr parm st = (if setting_name ?y = parm then setting_value ?y
        else if setting_name ?x = parm then setting_value ?x else naf_config_getparmstr parm conf_empty)" by auto
  have v: "setting_value ?x = Some (cstr ''1'')" "setting_value ?y = Some (cstr ''0'')" by (simp_all add: setting_value_def cstr_def)
  have "naf_config_getparmstr (cstr ''module.conn.debug'') st = Some (cstr ''1'')" "naf_config_getparmstr (cstr ''site.debug'') st = Some (cstr ''0'')"
    unfolding st(2) names v by (simp_all add: cstr_def)
  moreover have "take MAXLINELEN (MODPREFIX @ cstr ''conn'' @ cstr ''.'' @ cstr ''debug'') = cstr ''module.conn.debug''" by (simp add: cstr_def)
  ultimately show ?thesis using st(1)
    by (intro exI [of _ st]) (simp add: naf_config_getmodparmstr_def naf_config_getmodparmraw_def)
qed

text \<open>A line of more than 512 characters is written past the end of the buffer.\<close>

lemma long_line_overflows:
  fixes st :: "'z confstate_scheme"
  assumes "files name = Some (s @ cs)" "plain_text s" "length s > MAXLINELEN"
  shows "readconfig mal files (Suc k) (Some name) including st = None"
proof -
  have "creadln (MAXLINELEN + 1) (s @ cs, False) = None"
    using creadln_loop_overlong [OF assms(2), of "MAXLINELEN + 1" "[]" cs] assms(3) by (simp add: creadln_def)
  then have "readconfig_loop mal files k (s @ cs, False) [] [] st1 = None" for st1 :: "'z confstate_scheme"
    by (simp add: readconfig_loop.simps [of mal files k "(s @ cs, False)"])
  with assms(1) show ?thesis by (simp add: readconfig_def Let_def)
qed

section \<open>The remote methods answer\<close>

lemma setvar_answers:
  assumes "conf_inv st" "tree_ok (rq_inargs req)" "tree_ok (rq_returnargs req)"
  shows "\<exists>req' st'. rpc_config_setvar mal req st = Some (req', st') \<and> answered req req' \<and> conf_inv st'"
proof -
  obtain ma va la where args: "string_arg (rq_inargs req) (cstr ''module'') = Some ma"
    "string_arg (rq_inargs req) (cstr ''varname'') = Some va" "string_arg (rq_inargs req) (cstr ''value'') = Some la"
    using string_arg_ok [OF assms(2)] by metis
  have "conf_inv (snd (naf_config_setparm mal p d st))" for p d
    using setparm_map [OF assms(1), of mal p d] by (cases "naf_config_setparm mal p d st") simp
  with args assms show ?thesis
    by (auto simp: rpc_config_setvar_def answered_def Let_def split: option.splits)
qed

lemma getvar_answers:
  assumes "conf_inv st" "tree_ok (rq_inargs req)" "tree_ok (rq_returnargs req)"
  shows "\<exists>req' st'. rpc_config_getvar mal req st = Some (req', st') \<and> answered req req' \<and> conf_inv st'"
proof -
  obtain ma va where args: "string_arg (rq_inargs req) (cstr ''module'') = Some ma"
    "string_arg (rq_inargs req) (cstr ''varname'') = Some va"
    using string_arg_ok [OF assms(2)] by metis
  obtain p as1 where p: "naf_rpc_addarg_array mal [] (cstr ''variables'') (rq_returnargs req) = Some (p, as1)"
    "tree_ext (rq_returnargs req) as1" "\<forall>h. p = Some h \<longrightarrow> args_at h as1 = Some []"
    using addarg_array_ext [of "[]" "rq_returnargs req" mal "cstr ''variables''"] by auto
  then have ok1: "tree_ok as1" using assms(3) tree_extD(1) by blast
  show ?thesis
  proof (cases "ma = None \<or> va = None \<or> p = None")
    case True
    with args p assms ok1 show ?thesis
      by (auto simp: rpc_config_getvar_def answered_def Let_def split: option.splits)
  next
    case False
    then obtain module var head where eqs: "ma = Some module" "va = Some var" "p = Some head" by fastforce
    let ?all = "rpc_for (\<lambda>cur. if module \<noteq> None \<and> \<not> strncasecmp_prefix (pm_parm cur) (getprefixed (the module)) then Some
        else rpc_in_array mal head (pm_parm cur) (\<lambda>varhead. rpc_puts mal varhead
          (opt_string (cstr ''value'') (pm_val cur)))) (cf_parmlist st)"
    let ?one = "\<lambda>v. rpc_in_array mal head v (\<lambda>varhead. rpc_puts mal varhead
        (opt_string (cstr ''module'') module @ [PutString (cstr ''varname'') v] @
         opt_string (cstr ''value'') (case module of
           Some m \<Rightarrow> naf_config_getmodparmraw (Some m) (Some v) st
         | None \<Rightarrow> naf_config_getparmstr v st)))"
    have f: "fills head ?all" "fills head (?one v)" for v
      by (rule fills_for, cases module) (auto intro!: fills_intro)
    have h: "args_at head as1 \<noteq> None" using p(3) eqs(3) by simp
    have "\<exists>as2. (case var of Some v \<Rightarrow> ?one v as1 | None \<Rightarrow> ?all as1) = Some as2 \<and> tree_ext as1 as2"
      using fillsD [OF f(1) h] fillsD [OF f(2) h] by (cases var) simp_all
    then obtain as2 where as2: "(case var of Some v \<Rightarrow> ?one v as1 | None \<Rightarrow> ?all as1) = Some as2" "tree_ext as1 as2"
      by blast
    then have "tree_ok as2" using ok1 tree_extD(1) by blast
    moreover have "rpc_config_getvar mal req st = Some (req\<lparr>rq_returnargs := as2, rq_status := NAF_RPC_STATUS_SUCCESS\<rparr>, st)"
      using args p(1) eqs as2(1) by (simp add: rpc_config_getvar_def)
    ultimately show ?thesis using assms(1) by (simp add: answered_def)
  qed
qed

interpretation setvar_method: rpc_method conf_inv "rpc_config_setvar mal" for mal
  by unfold_locales (rule setvar_answers)

interpretation getvar_method: rpc_method conf_inv "rpc_config_getvar mal" for mal
  by unfold_locales (rule getvar_answers)

end
