(* ===== verification/Stats.thy ===== *)
theory Stats
  imports Rpc
begin

text \<open>
  Statistics, \<^verbatim>\<open>naf/stats.c\<close>: modules register the addresses of their counters under names; anyone may
  read a counter by its name. The memory the counters are in is a parameter: \<open>longs\<close> and \<open>shorts\<close> give
  the value at an address.
\<close>

section \<open>Data\<close>

abbreviation (input) NAF_STATS_TYPE_LONG :: int where "NAF_STATS_TYPE_LONG \<equiv> 0"
abbreviation (input) NAF_STATS_TYPE_SHORT :: int where "NAF_STATS_TYPE_SHORT \<equiv> 1"
abbreviation (input) NAF_STATS_MAXNAMELEN :: nat where "NAF_STATS_MAXNAMELEN \<equiv> 128"
abbreviation (input) sizeof_naf_stat :: nat where "sizeof_naf_stat \<equiv> 160"

record naf_stat =
  stat_name :: bytes
  stat_type :: int
  stat_ptr :: nat
  stat_owner :: "nafmod option"

record statstate =
  sst_list :: "naf_stat list"

type_synonym counters = "(nat \<Rightarrow> naf_u32_t) \<times> (nat \<Rightarrow> naf_u16_t)"

section \<open>Operations\<close>

text \<open>The full name, if it fits a buffer of \<open>buflen\<close> bytes.\<close>

definition mkstatname :: "bytes option \<Rightarrow> bytes \<Rightarrow> nat \<Rightarrow> bytes option" where
  "mkstatname md name buflen =
     (let full = (case md of None \<Rightarrow> name | Some m \<Rightarrow> m @ cstr ''.'' @ name)
      in if length full + 1 > buflen then None else Some full)"

text \<open>The owner is given with its name.\<close>

definition registerstat ::
    "allocator \<Rightarrow> (nafmod \<times> bytes) option \<Rightarrow> bytes \<Rightarrow> int \<Rightarrow> nat \<Rightarrow> 'z statstate_scheme \<Rightarrow> int \<times> 'z statstate_scheme" where
  "registerstat mal owner name type statp st =
     (if mal sizeof_naf_stat = None then (-1, st)
      else case mkstatname (map_option snd owner) name NAF_STATS_MAXNAMELEN of
             None \<Rightarrow> (-1, st)
           | Some full \<Rightarrow> (0, st\<lparr>sst_list := \<lparr>stat_name = full, stat_type = type, stat_ptr = statp,
                                 stat_owner = map_option fst owner\<rparr> # sst_list st\<rparr>))"

definition naf_stats_register_longstat ::
    "allocator \<Rightarrow> (nafmod \<times> bytes) option \<Rightarrow> bytes \<Rightarrow> nat \<Rightarrow> 'z statstate_scheme \<Rightarrow> int \<times> 'z statstate_scheme" where
  "naf_stats_register_longstat mal owner name statp st = registerstat mal owner name NAF_STATS_TYPE_LONG statp st"

definition naf_stats_register_shortstat ::
    "allocator \<Rightarrow> (nafmod \<times> bytes) option \<Rightarrow> bytes \<Rightarrow> nat \<Rightarrow> 'z statstate_scheme \<Rightarrow> int \<times> 'z statstate_scheme" where
  "naf_stats_register_shortstat mal owner name statp st = registerstat mal owner name NAF_STATS_TYPE_SHORT statp st"

definition stat_matches :: "bytes \<Rightarrow> naf_stat \<Rightarrow> bool" where
  "stat_matches name nps \<longleftrightarrow> strcasecmp_eq name (stat_name nps)"

fun unlink_stat :: "bytes \<Rightarrow> naf_stat list \<Rightarrow> naf_stat option \<times> naf_stat list" where
  "unlink_stat name [] = (None, [])"
| "unlink_stat name (cur # rest) =
     (if stat_matches name cur then (Some cur, rest)
      else (let (r, rest) = unlink_stat name rest in (r, cur # rest)))"

definition naf_stats_unregisterstat ::
    "(nafmod \<times> bytes) option \<Rightarrow> bytes \<Rightarrow> 'z statstate_scheme \<Rightarrow> int \<times> 'z statstate_scheme" where
  "naf_stats_unregisterstat owner name st =
     (case mkstatname (map_option snd owner) name (NAF_STATS_MAXNAMELEN + 1) of
        None \<Rightarrow> (-1, st)
      | Some realname \<Rightarrow>
          (let (r, l) = unlink_stat realname (sst_list st)
           in (if r = None then -1 else 0, st\<lparr>sst_list := l\<rparr>)))"

fun findstat :: "bytes \<Rightarrow> naf_stat list \<Rightarrow> naf_stat option" where
  "findstat name [] = None"
| "findstat name (nps # rest) = (if stat_matches name nps then Some nps else findstat name rest)"

text \<open>The value of a counter, as the scalar that remote calls use.\<close>

definition stat_value :: "counters \<Rightarrow> naf_stat \<Rightarrow> naf_u32_t option" where
  "stat_value mem nps =
     (if stat_type nps = NAF_STATS_TYPE_SHORT then Some (ucast (snd mem (stat_ptr nps)))
      else if stat_type nps = NAF_STATS_TYPE_LONG then Some (fst mem (stat_ptr nps))
      else None)"

text \<open>\<open>buflen\<close> is what \<^verbatim>\<open>*buflen\<close> holds, when both pointers are given. The result has the type, and the new
  \<^verbatim>\<open>*buflen\<close> with the value that is stored.\<close>

definition naf_stats_getstatvalue ::
    "counters \<Rightarrow> bytes \<Rightarrow> bytes option \<Rightarrow> int option \<Rightarrow> 'z statstate_scheme \<Rightarrow> int \<times> int option \<times> (int \<times> naf_u32_t) option" where
  "naf_stats_getstatvalue mem modname name buflen st =
     (case name of
        None \<Rightarrow> (-1, None, None)
      | Some n \<Rightarrow>
          (case Option.bind (mkstatname (Some modname) n (NAF_STATS_MAXNAMELEN + 1)) (\<lambda>realname. findstat realname (sst_list st)) of
             None \<Rightarrow> (-1, None, None)
           | Some nps \<Rightarrow>
               (let type = Some (stat_type nps)
                in case buflen of
                     None \<Rightarrow> (0, type, None)
                   | Some bl \<Rightarrow>
                       if bl = 0 then (0, type, None)
                       else (let len = (if stat_type nps = NAF_STATS_TYPE_SHORT then 2 else 8)
                             in case stat_value mem nps of
                                  None \<Rightarrow> (-1, type, None)
                                | Some v \<Rightarrow> if bl < len then (-1, type, None) else (0, type, Some (len, v))))))"

definition freestatlist :: "'z statstate_scheme \<Rightarrow> 'z statstate_scheme" where
  "freestatlist st = st\<lparr>sst_list := []\<rparr>"

section \<open>Remote methods\<close>

definition opt_scalar :: "bytes \<Rightarrow> naf_u32_t option \<Rightarrow> rpcput list" where
  "opt_scalar name val = (case val of None \<Rightarrow> [] | Some v \<Rightarrow> [PutScalar name v])"

definition rpc_stats_getstat ::
    "allocator \<Rightarrow> counters \<Rightarrow> rpcreq \<Rightarrow> 'z statstate_scheme \<Rightarrow> (rpcreq \<times> 'z statstate_scheme) option" where
  "rpc_stats_getstat mal mem req st = do {
     modarg \<leftarrow> string_arg (rq_inargs req) (cstr ''module'');
     statarg \<leftarrow> string_arg (rq_inargs req) (cstr ''stat'');
     case modarg of
       None \<Rightarrow> rpc_status NAF_RPC_STATUS_INVALIDARGS req st
     | Some module \<Rightarrow>
         (case statarg of
            None \<Rightarrow> rpc_status NAF_RPC_STATUS_INVALIDARGS req st
          | Some None \<Rightarrow> rpc_status NAF_RPC_STATUS_INVALIDARGS req st
          | Some (Some stat) \<Rightarrow>
              (case mkstatname module stat (NAF_STATS_MAXNAMELEN + 1) of
                 None \<Rightarrow> rpc_status NAF_RPC_STATUS_INVALIDARGS req st
               | Some buf \<Rightarrow> do {
                   as \<leftarrow> rpc_puts mal [] (opt_string (cstr ''module'') module @ [PutString (cstr ''stat'') stat] @
                     opt_scalar (cstr ''value'') (Option.bind (findstat buf (sst_list st)) (stat_value mem))) (rq_returnargs req);
                   rpc_status NAF_RPC_STATUS_SUCCESS (req\<lparr>rq_returnargs := as\<rparr>) st
                 }))
   }"

text \<open>An optional boolean argument, like \<open>string_arg\<close>.\<close>

definition bool_arg :: "rpcarg list \<Rightarrow> bytes \<Rightarrow> naf_u8_t option option option" where
  "bool_arg args name =
     (case naf_rpc_getarg args name of
        None \<Rightarrow> Some (Some None)
      | Some a \<Rightarrow> if ra_type a \<noteq> NAF_RPC_ARGTYPE_BOOL then Some None
                  else map_option (\<lambda>b. Some (Some b)) (data_boolean a))"

definition rpc_stats_liststats ::
    "allocator \<Rightarrow> counters \<Rightarrow> rpcreq \<Rightarrow> 'z statstate_scheme \<Rightarrow> (rpcreq \<times> 'z statstate_scheme) option" where
  "rpc_stats_liststats mal mem req st = do {
     filterarg \<leftarrow> string_arg (rq_inargs req) (cstr ''filter'');
     wv \<leftarrow> bool_arg (rq_inargs req) (cstr ''wantvalues'');
     case filterarg of
       None \<Rightarrow> rpc_status NAF_RPC_STATUS_INVALIDARGS req st
     | Some pref \<Rightarrow>
         (case wv of
            None \<Rightarrow> rpc_status NAF_RPC_STATUS_INVALIDARGS req st
          | Some w \<Rightarrow> do {
              let wantvalues = (w \<noteq> None \<and> w \<noteq> Some 0);
              (hd', as) \<leftarrow> naf_rpc_addarg_array mal [] (cstr ''stats'') (rq_returnargs req);
              let req = req\<lparr>rq_returnargs := as\<rparr>;
              case hd' of
                None \<Rightarrow> rpc_status NAF_RPC_STATUS_UNKNOWNFAILURE req st
              | Some head \<Rightarrow> do {
                  as \<leftarrow> rpc_for (\<lambda>nps. if pref \<noteq> None \<and> \<not> strncasecmp_prefix (stat_name nps) (the pref) then Some
                    else rpc_in_array mal head (stat_name nps) (\<lambda>ass. rpc_puts mal ass
                      (if wantvalues then opt_scalar (cstr ''value'') (stat_value mem nps) else []))) (sst_list st) as;
                  rpc_status NAF_RPC_STATUS_SUCCESS (req\<lparr>rq_returnargs := as\<rparr>) st
                }
            })
   }"

section \<open>The list of statistics\<close>

lemma findstat_find: "findstat name l = List.find (stat_matches name) l"
  by (induction l) auto

lemma unlink_stat_first: "unlink_stat name l = unlink_first (stat_matches name) l"
  by (induction l) auto

lemma stat_matches_excl: "stat_matches k a \<Longrightarrow> stat_matches k' a \<Longrightarrow> stat_matches k = stat_matches k'"
  by (auto simp: stat_matches_def strcasecmp_eq_def fun_eq_iff)

interpretation statl: keyed_list stat_matches "\<lambda>l. l" findstat unlink_stat Cons
  by unfold_locales (auto simp: findstat_find unlink_stat_first dest: stat_matches_excl)

lemma mkstatname_mono: "mkstatname md name n = Some full \<Longrightarrow> n \<le> k \<Longrightarrow> mkstatname md name k = Some full"
  by (auto simp: mkstatname_def Let_def split: if_splits)

lemma bool_arg_ok:
  assumes "tree_ok args"
  shows "\<exists>r. bool_arg args name = Some r"
  using arg_ok_data(3) [OF getarg_ok [OF assms]] by (cases "naf_rpc_getarg args name") (force simp: bool_arg_def)+

lemma getstat_answers:
  assumes "tree_ok (rq_inargs req)" "tree_ok (rq_returnargs req)"
  shows "\<exists>req' st'. rpc_stats_getstat mal mem req st = Some (req', st') \<and> answered req req'"
proof -
  obtain ma sa where args: "string_arg (rq_inargs req) (cstr ''module'') = Some ma"
    "string_arg (rq_inargs req) (cstr ''stat'') = Some sa"
    using string_arg_ok [OF assms(1)] by metis
  have f: "\<exists>as'. rpc_puts mal [] ps (rq_returnargs req) = Some as' \<and> tree_ok as'" for ps
    using fillsD [OF fills_puts, of "[]" "rq_returnargs req"] assms(2) tree_extD(1) by fastforce
  obtain g where "\<And>ps. rpc_puts mal [] ps (rq_returnargs req) = Some (g ps)" "\<And>ps. tree_ok (g ps)"
    using f by metis
  with args assms(2) show ?thesis
    by (auto simp: rpc_stats_getstat_def answered_def split: option.splits)
qed

lemma liststats_answers:
  assumes "tree_ok (rq_inargs req)" "tree_ok (rq_returnargs req)"
  shows "\<exists>req' st'. rpc_stats_liststats mal mem req st = Some (req', st') \<and> answered req req'"
proof -
  obtain fa w where args: "string_arg (rq_inargs req) (cstr ''filter'') = Some fa"
    "bool_arg (rq_inargs req) (cstr ''wantvalues'') = Some w"
    using string_arg_ok [OF assms(1)] bool_arg_ok [OF assms(1)] by metis
  obtain p as1 where p: "naf_rpc_addarg_array mal [] (cstr ''stats'') (rq_returnargs req) = Some (p, as1)"
    "tree_ext (rq_returnargs req) as1" "\<forall>h. p = Some h \<longrightarrow> args_at h as1 = Some []"
    using addarg_array_ext [of "[]" "rq_returnargs req" mal "cstr ''stats''"] by auto
  then have ok1: "tree_ok as1" using assms(2) tree_extD(1) by blast
  show ?thesis
  proof (cases "fa = None \<or> w = None \<or> p = None")
    case True
    with args p assms ok1 show ?thesis
      by (auto simp: rpc_stats_liststats_def answered_def Let_def split: option.splits)
  next
    case False
    then obtain pref wv head where eqs: "fa = Some pref" "w = Some wv" "p = Some head" by fastforce
    let ?all = "rpc_for (\<lambda>nps. if pref \<noteq> None \<and> \<not> strncasecmp_prefix (stat_name nps) (the pref) then Some
        else rpc_in_array mal head (stat_name nps) (\<lambda>ass. rpc_puts mal ass
          (if wv \<noteq> None \<and> wv \<noteq> Some 0 then opt_scalar (cstr ''value'') (stat_value mem nps) else []))) (sst_list st)"
    have "fills head ?all" by (rule fills_for) (auto intro!: fills_intro)
    moreover have "args_at head as1 \<noteq> None" using p(3) eqs(3) by simp
    ultimately obtain as2 where as2: "?all as1 = Some as2" "tree_ext as1 as2" by (rule fillsE)
    then have "tree_ok as2" using ok1 tree_extD(1) by blast
    moreover have "rpc_stats_liststats mal mem req st = Some (req\<lparr>rq_returnargs := as2, rq_status := NAF_RPC_STATUS_SUCCESS\<rparr>, st)"
      using args p(1) eqs as2(1) by (simp add: rpc_stats_liststats_def Let_def del: not_None_eq)
    ultimately show ?thesis by (simp add: answered_def)
  qed
qed

interpretation getstat_method: rpc_method "\<lambda>_. True" "rpc_stats_getstat mal mem" for mal mem
  by unfold_locales (use getstat_answers in blast)

interpretation liststats_method: rpc_method "\<lambda>_. True" "rpc_stats_liststats mal mem" for mal mem
  by unfold_locales (use liststats_answers in blast)

section \<open>Properties\<close>

text \<open>A counter that a module registers is read under its name until it is unregistered: the value is
  the one its address holds at that time, at the width it was registered with, and other names are
  not touched. A name that was registered before is hidden, not replaced, and comes back.\<close>

theorem stat_lifetime:
  assumes "naf_stats_register_longstat mal (Some (m, modname)) name p st = (0, st')"
  shows "naf_stats_getstatvalue mem modname (Some name) (Some 8) st' = (0, Some NAF_STATS_TYPE_LONG, Some (8, fst mem p)) \<and>
    (\<forall>other. \<not> strcasecmp_eq other (modname @ cstr ''.'' @ name) \<longrightarrow> findstat other (sst_list st') = findstat other (sst_list st)) \<and>
    naf_stats_unregisterstat (Some (m, modname)) name st' = (0, st)"
proof -
  obtain full where full: "mkstatname (Some modname) name NAF_STATS_MAXNAMELEN = Some full"
    "st' = st\<lparr>sst_list := \<lparr>stat_name = full, stat_type = NAF_STATS_TYPE_LONG, stat_ptr = p, stat_owner = Some m\<rparr> # sst_list st\<rparr>"
    using assms by (auto simp: naf_stats_register_longstat_def registerstat_def split: if_splits option.splits)
  then have long: "mkstatname (Some modname) name (NAF_STATS_MAXNAMELEN + 1) = Some full"
    by (intro mkstatname_mono [OF full(1)]) simp
  have eq: "full = modname @ cstr ''.'' @ name" using full(1) by (auto simp: mkstatname_def Let_def split: if_splits)
  have same: "strcasecmp_eq full full" by (simp add: strcasecmp_eq_def)
  show ?thesis
    using full(2) long same
    by (simp add: naf_stats_getstatvalue_def naf_stats_unregisterstat_def stat_matches_def stat_value_def eq)
qed

theorem stat_lifetime_witness:
  "\<exists>st :: statstate. naf_stats_getstatvalue (\<lambda>a. of_nat a, \<lambda>_. 0) (cstr ''gnr'') (Some (cstr ''nodes'')) (Some 8) st = (0, Some 0, Some (8, 42))"
proof -
  obtain st where st: "naf_stats_register_longstat zero_alloc (Some (1, cstr ''gnr'')) (cstr ''nodes'') 42 \<lparr>sst_list = []\<rparr> = (0, st)"
    by (simp add: naf_stats_register_longstat_def registerstat_def mkstatname_def zero_alloc_def cstr_def)
  from stat_lifetime [OF this, of "(\<lambda>a. of_nat a, \<lambda>_. 0)"] show ?thesis by (intro exI [of _ st]) simp
qed

end
