(* ===== verification/Memory.thy ===== *)
theory Memory
  imports Rpc
begin

text \<open>
  The memory layer, \<^verbatim>\<open>naf/memory.c\<close>: every block carries a header and a trailing mark, and every module
  a count of what it has outstanding; and pools of blocks of one size with a bit map of what is taken.
  A block is named by the address that is given to the caller. The other theories abstract from this
  layer by their allocator parameter.
\<close>

section \<open>Data\<close>

abbreviation (input) NAF_MEM_TYPE_GENERIC :: int where "NAF_MEM_TYPE_GENERIC \<equiv> 0"
abbreviation (input) NAF_MEM_TYPE_NETBUF :: int where "NAF_MEM_TYPE_NETBUF \<equiv> 1"
abbreviation (input) HDR_MAGIC_START :: naf_u32_t where "HDR_MAGIC_START \<equiv> 0xbeefbeef"
abbreviation (input) HDR_MAGIC_END :: naf_u32_t where "HDR_MAGIC_END \<equiv> 0xfeebfeeb"
abbreviation (input) FTR_MAGIC_END :: bytes where "FTR_MAGIC_END \<equiv> [0xde, 0xad, 0xbe, 0xef]"
abbreviation (input) sizeof_naf_mem_header :: nat where "sizeof_naf_mem_header \<equiv> 40"
abbreviation (input) sizeof_naf_flmempool_t :: nat where "sizeof_naf_flmempool_t \<equiv> 48"

record memory_stats =
  ms_regions :: naf_u32_t
  ms_current :: naf_u32_t
  ms_maximum :: naf_u32_t

record module_memory_stats =
  mms_totals :: memory_stats
  mms_generic :: memory_stats
  mms_netbuf :: memory_stats

text \<open>A block: the header, the bytes for the caller and the four bytes after them.\<close>

record memblock =
  mh_magic1 :: naf_u32_t
  mh_hdrlen :: naf_u16_t
  mh_type :: naf_u16_t
  mh_owner :: "nafmod option"
  mh_buflen :: naf_u32_t
  mh_magic2 :: naf_u32_t
  mb_data :: bytes
  mb_footer :: bytes

record memstate =
  mem_stats :: "nafmod \<Rightarrow> module_memory_stats option"
  mem_blocks :: "nat \<Rightarrow> memblock option"

text \<open>A call may end the program on purpose.\<close>

datatype 'a outcome = Done 'a | Abort

definition memory_stats_zero :: memory_stats where
  "memory_stats_zero = \<lparr>ms_regions = 0, ms_current = 0, ms_maximum = 0\<rparr>"

definition mms_zero :: module_memory_stats where
  "mms_zero = \<lparr>mms_totals = memory_stats_zero, mms_generic = memory_stats_zero, mms_netbuf = memory_stats_zero\<rparr>"

section \<open>Allocating and releasing\<close>

definition naf_memory__module_init :: "bool \<Rightarrow> nafmod \<Rightarrow> memstate \<Rightarrow> int \<times> memstate" where
  "naf_memory__module_init sysok md st =
     (if mem_stats st md \<noteq> None then (0, st)
      else if \<not> sysok then (-1, st)
      else (0, st\<lparr>mem_stats := (mem_stats st)(md \<mapsto> mms_zero)\<rparr>))"

definition stats_grow :: "naf_u32_t \<Rightarrow> memory_stats \<Rightarrow> memory_stats" where
  "stats_grow n s =
     (let cur = ms_current s + n
      in \<lparr>ms_regions = ms_regions s + 1, ms_current = cur, ms_maximum = (if cur > ms_maximum s then cur else ms_maximum s)\<rparr>)"

definition stats_shrink :: "naf_u32_t \<Rightarrow> memory_stats \<Rightarrow> memory_stats" where
  "stats_shrink n s = s\<lparr>ms_current := ms_current s - n, ms_regions := ms_regions s - 1\<rparr>"

text \<open>The total and, by type, one of the others.\<close>

definition mms_change :: "(memory_stats \<Rightarrow> memory_stats) \<Rightarrow> int \<Rightarrow> module_memory_stats \<Rightarrow> module_memory_stats" where
  "mms_change f type pms =
     (let pms = pms\<lparr>mms_totals := f (mms_totals pms)\<rparr>
      in if type = NAF_MEM_TYPE_GENERIC then pms\<lparr>mms_generic := f (mms_generic pms)\<rparr>
         else if type = NAF_MEM_TYPE_NETBUF then pms\<lparr>mms_netbuf := f (mms_netbuf pms)\<rparr>
         else pms)"

text \<open>\<open>sys\<close> is \<^verbatim>\<open>malloc\<close> of the system: the address after the header, and the fresh memory. The size is computed
  in an \<^verbatim>\<open>int\<close>; a size that wraps gives a block in which header and mark do not fit.\<close>

definition int_of_size :: "nat \<Rightarrow> int" where
  "int_of_size n = sint (of_nat n :: 32 word)"

definition naf_malloc_real ::
    "bool \<Rightarrow> (nat \<Rightarrow> (nat \<times> bytes) option) \<Rightarrow> nafmod option \<Rightarrow> int \<Rightarrow> nat \<Rightarrow> memstate \<Rightarrow> (nat option \<times> memstate) option" where
  "naf_malloc_real sysok sys md type reqsize st =
     (let st = (case md of None \<Rightarrow> st | Some m \<Rightarrow> snd (naf_memory__module_init sysok m st));
          buflen = int_of_size (sizeof_naf_mem_header + reqsize + 4)
      in case sys (nat (buflen mod 2 ^ 64)) of
           None \<Rightarrow> Some (None, st)
         | Some (p, buf) \<Rightarrow>
             if sizeof_naf_mem_header + reqsize + 4 > length buf then None
             else
               (let hdr = \<lparr>mh_magic1 = HDR_MAGIC_START, mh_hdrlen = of_nat sizeof_naf_mem_header, mh_type = word_of_int type,
                           mh_owner = md, mh_buflen = of_nat reqsize, mh_magic2 = HDR_MAGIC_END,
                           mb_data = take reqsize (drop sizeof_naf_mem_header buf), mb_footer = FTR_MAGIC_END\<rparr>;
                    st = st\<lparr>mem_blocks := (mem_blocks st)(p \<mapsto> hdr)\<rparr>;
                    st = (case md of
                            None \<Rightarrow> st
                          | Some m \<Rightarrow>
                              (case mem_stats st m of
                                 None \<Rightarrow> st
                               | Some pms \<Rightarrow> st\<lparr>mem_stats := (mem_stats st)(m \<mapsto>
                                   mms_change (stats_grow (of_nat reqsize)) type pms)\<rparr>))
                in Some (Some p, st)))"

text \<open>Memory that does not have the header is released as it is; a damaged mark ends the program. Reading
  around a pointer to nothing is a fault.\<close>

definition naf_free_real :: "nat option \<Rightarrow> memstate \<Rightarrow> memstate outcome option" where
  "naf_free_real ptr st =
     (case ptr of
        None \<Rightarrow> Some (Done st)
      | Some p \<Rightarrow> do {
          hdr \<leftarrow> mem_blocks st p;
          let gone = st\<lparr>mem_blocks := (mem_blocks st)(p := None)\<rparr>;
          if mh_magic2 hdr \<noteq> HDR_MAGIC_END \<or> mh_magic1 hdr \<noteq> HDR_MAGIC_START then Some (Done gone)
          else if mb_footer hdr \<noteq> FTR_MAGIC_END then Some Abort
          else Some (Done (case mh_owner hdr of
                 None \<Rightarrow> gone
               | Some m \<Rightarrow>
                   (case mem_stats st m of
                      None \<Rightarrow> gone
                    | Some pms \<Rightarrow> gone\<lparr>mem_stats := (mem_stats st)(m \<mapsto>
                        mms_change (stats_shrink (mh_buflen hdr)) (uint (mh_type hdr)) pms)\<rparr>)))
        })"

text \<open>A copy of a string, with its terminator.\<close>

definition naf_strdup_type ::
    "bool \<Rightarrow> (nat \<Rightarrow> (nat \<times> bytes) option) \<Rightarrow> nafmod option \<Rightarrow> int \<Rightarrow> bytes \<Rightarrow> memstate \<Rightarrow> (nat option \<times> memstate) option" where
  "naf_strdup_type sysok sys md type s st = do {
     (r, st) \<leftarrow> naf_malloc_real sysok sys md type (length s + 1) st;
     case r of
       None \<Rightarrow> Some (None, st)
     | Some p \<Rightarrow> do {
         b \<leftarrow> mem_blocks st p;
         data \<leftarrow> mem_write (mb_data b) 0 (s @ [0]);
         Some (Some p, st\<lparr>mem_blocks := (mem_blocks st)(p \<mapsto> b\<lparr>mb_data := data\<rparr>)\<rparr>)
       }
   }"

section \<open>Pools\<close>

record naf_flmempool_t =
  flmp_blklen :: naf_u32_t
  flmp_blkcount :: naf_u32_t
  flmp_region :: nat
  flmp_regionlen :: naf_u32_t
  flmp_allocmap :: bytes
  flmp_allocmaplen :: naf_u32_t

text \<open>\<open>mmap\<close> gives the address of a region of a length. It never gives a null pointer: the failure that the
  code looks for is not the one that the call reports.\<close>

definition naf_flmp_alloc :: "allocator \<Rightarrow> (naf_u32_t \<Rightarrow> nat) \<Rightarrow> int \<Rightarrow> int \<Rightarrow> naf_flmempool_t option" where
  "naf_flmp_alloc mal mmap blklen blkcount =
     (if blklen \<le> 0 \<or> blklen AND (blklen - 1) \<noteq> 0 then None
      else if blkcount \<le> 0 \<or> blkcount mod 8 > 0 then None
      else if mal sizeof_naf_flmempool_t = None then None
      else (let count = word_of_int blkcount; len = word_of_int blklen; regionlen = len * count; maplen = count div 8
            in if mal (unat maplen) = None then None
               else if mmap regionlen = 0 then None
               else Some \<lparr>flmp_blklen = len, flmp_blkcount = count, flmp_region = mmap regionlen,
                      flmp_regionlen = regionlen, flmp_allocmap = replicate (unat maplen) 0, flmp_allocmaplen = maplen\<rparr>))"

text \<open>The index of a map byte with a zero bit and the highest zero bit in it.\<close>

definition free_byte :: "naf_flmempool_t \<Rightarrow> nat option" where
  "free_byte flmp = List.find (\<lambda>i. flmp_allocmap flmp ! i < 255) [0..<unat (flmp_allocmaplen flmp)]"

definition free_bit :: "naf_u8_t \<Rightarrow> nat option" where
  "free_bit b = List.find (\<lambda>j. drop_bit j b AND 1 = 0) [7, 6, 5, 4, 3, 2, 1, 0]"

definition naf_flmp_blkalloc :: "naf_flmempool_t \<Rightarrow> (nat option \<times> naf_flmempool_t) outcome option" where
  "naf_flmp_blkalloc flmp =
     (if unat (flmp_allocmaplen flmp) > length (flmp_allocmap flmp) then None
      else case free_byte flmp of
             None \<Rightarrow> Some (Done (None, flmp))
           | Some i \<Rightarrow>
               (case free_bit (flmp_allocmap flmp ! i) of
                  None \<Rightarrow> Some Abort
                | Some j \<Rightarrow>
                    Some (Done (Some (flmp_region flmp + (i * 8 + (7 - j)) * unat (flmp_blklen flmp)),
                      flmp\<lparr>flmp_allocmap := (flmp_allocmap flmp)[i := flmp_allocmap flmp ! i OR push_bit j 1]\<rparr>))))"

definition naf_flmp_blkfree :: "naf_flmempool_t option \<Rightarrow> nat option \<Rightarrow> naf_flmempool_t option outcome option" where
  "naf_flmp_blkfree flmp block =
     (case (flmp, block) of
        (Some f, Some b) \<Rightarrow>
          if b < flmp_region f then Some Abort
          else (let blknum = of_nat (b - flmp_region f) div flmp_blklen f
                in if blknum > flmp_blkcount f then Some Abort
                   else (let i = unat blknum div 8; j = 7 - unat blknum mod 8
                         in if i \<ge> length (flmp_allocmap f) then None
                            else if drop_bit j (flmp_allocmap f ! i) AND 1 = 0 then Some Abort
                            else Some (Done (Some (f\<lparr>flmp_allocmap := (flmp_allocmap f)[i := flmp_allocmap f ! i XOR push_bit j 1]\<rparr>)))))
      | _ \<Rightarrow> Some (Done flmp))"

section \<open>The remote method\<close>

definition put_memory_stats :: "allocator \<Rightarrow> rpchead \<Rightarrow> bytes \<Rightarrow> memory_stats \<Rightarrow> rpcarg list \<Rightarrow> rpcarg list option" where
  "put_memory_stats mal ptop name s =
     rpc_in_array mal ptop name (\<lambda>ms. rpc_puts mal ms
       [PutScalar (cstr ''regions_outstanding'') (ms_regions s), PutScalar (cstr ''current_outstanding'') (ms_current s),
        PutScalar (cstr ''maximum_outstanding'') (ms_maximum s)])"

definition memuseiter ::
    "allocator \<Rightarrow> (nafmod \<Rightarrow> bytes) \<Rightarrow> rpchead \<Rightarrow> nafmod \<Rightarrow> nafmod \<Rightarrow> rpcarg list \<times> memstate
       \<Rightarrow> (int \<times> rpcarg list \<times> memstate) option" where
  "memuseiter mal modname mtop md cur us = do {
     as \<leftarrow> rpc_in_array mal mtop (modname cur) (\<lambda>ptop.
       case mem_stats (snd us) cur of
         None \<Rightarrow> Some
       | Some pms \<Rightarrow> (\<lambda>as. do {
           as \<leftarrow> put_memory_stats mal ptop (cstr ''total'') (mms_totals pms) as;
           as \<leftarrow> put_memory_stats mal ptop (cstr ''type_generic'') (mms_generic pms) as;
           put_memory_stats mal ptop (cstr ''type_netbuf'') (mms_netbuf pms) as
         })) (fst us);
     Some (0, as, snd us)
   }"

definition rpc_core_modmemoryuse ::
    "allocator \<Rightarrow> 's modlist_item list \<Rightarrow> (nafmod \<Rightarrow> bytes) \<Rightarrow> nafmod \<Rightarrow> rpcreq \<Rightarrow> memstate \<Rightarrow> (rpcreq \<times> memstate) option" where
  "rpc_core_modmemoryuse mal ml modname md = rpc_list_modules mal ml md (memuseiter mal modname)"

section \<open>The accounts\<close>

type_synonym blocks = "nat \<Rightarrow> memblock option"

text \<open>The blocks of a module whose type satisfies a condition, and what an account says of a set of blocks.\<close>

definition live :: "blocks \<Rightarrow> nafmod \<Rightarrow> (int \<Rightarrow> bool) \<Rightarrow> nat set" where
  "live bl m P = {p. \<exists>b. bl p = Some b \<and> mh_owner b = Some m \<and> P (uint (mh_type b))}"

definition counts :: "blocks \<Rightarrow> nat set \<Rightarrow> memory_stats \<Rightarrow> bool" where
  "counts bl S s \<longleftrightarrow> ms_regions s = of_nat (card S) \<and> ms_current s = (\<Sum>p\<in>S. mh_buflen (the (bl p)))"

definition accounted :: "blocks \<Rightarrow> nafmod \<Rightarrow> module_memory_stats \<Rightarrow> bool" where
  "accounted bl m pms \<longleftrightarrow>
     counts bl (live bl m (\<lambda>_. True)) (mms_totals pms) \<and>
     counts bl (live bl m (\<lambda>t. t = NAF_MEM_TYPE_GENERIC)) (mms_generic pms) \<and>
     counts bl (live bl m (\<lambda>t. t = NAF_MEM_TYPE_NETBUF)) (mms_netbuf pms)"

definition block_ok :: "memblock \<Rightarrow> bool" where
  "block_ok b \<longleftrightarrow> mh_magic1 b = HDR_MAGIC_START \<and> mh_magic2 b = HDR_MAGIC_END \<and> mb_footer b = FTR_MAGIC_END \<and>
     mh_buflen b = of_nat (length (mb_data b))"

definition mem_inv :: "memstate \<Rightarrow> bool" where
  "mem_inv st \<longleftrightarrow> finite (dom (mem_blocks st)) \<and>
     (\<forall>p b. mem_blocks st p = Some b \<longrightarrow> block_ok b \<and> (\<forall>m. mh_owner b = Some m \<longrightarrow> mem_stats st m \<noteq> None)) \<and>
     (\<forall>m pms. mem_stats st m = Some pms \<longrightarrow> accounted (mem_blocks st) m pms)"

lemma live_subset: "live bl m P \<subseteq> dom bl"
  by (auto simp: live_def)

lemma counts_agree:
  "counts bl S s \<Longrightarrow> (\<And>p. p \<in> S \<Longrightarrow> bl' p = bl p) \<Longrightarrow> counts bl' S s"
  by (simp add: counts_def)

lemma counts_add:
  assumes "counts bl S s" "finite S" "p \<notin> S"
  shows "counts (bl(p \<mapsto> b)) (insert p S) (stats_grow (mh_buflen b) s)"
proof -
  have "(\<Sum>q\<in>S. mh_buflen (the ((bl(p \<mapsto> b)) q))) = (\<Sum>q\<in>S. mh_buflen (the (bl q)))"
    by (rule sum.cong) (use assms(3) in auto)
  with assms show ?thesis by (simp add: counts_def stats_grow_def Let_def)
qed

lemma counts_drop:
  assumes "counts bl S s" "finite S" "p \<in> S" "bl p = Some b"
  shows "counts (bl(p := None)) (S - {p}) (stats_shrink (mh_buflen b) s)"
proof -
  have "(\<Sum>q\<in>S - {p}. mh_buflen (the ((bl(p := None)) q))) = (\<Sum>q\<in>S - {p}. mh_buflen (the (bl q)))"
    by (rule sum.cong) auto
  moreover have "(\<Sum>q\<in>S. mh_buflen (the (bl q))) = mh_buflen b + (\<Sum>q\<in>S - {p}. mh_buflen (the (bl q)))"
    using sum.remove [OF assms(2,3), of "\<lambda>q. mh_buflen (the (bl q))"] assms(4) by simp
  moreover have "card S = Suc (card (S - {p}))" using card.remove [OF assms(2,3)] by simp
  ultimately show ?thesis using assms(1) by (simp add: counts_def stats_shrink_def)
qed

lemma live_add:
  "bl p = None \<Longrightarrow> live (bl(p \<mapsto> b)) m P =
     (if mh_owner b = Some m \<and> P (uint (mh_type b)) then insert p (live bl m P) else live bl m P)"
  by (auto simp: live_def)

lemma live_drop:
  "bl p = Some b \<Longrightarrow> live (bl(p := None)) m P =
     (if mh_owner b = Some m \<and> P (uint (mh_type b)) then live bl m P - {p} else live bl m P)"
  by (auto simp: live_def)

lemma counts_add_live:
  assumes "counts bl (live bl m P) s" "finite (dom bl)" "bl p = None"
  shows "counts (bl(p \<mapsto> b)) (live (bl(p \<mapsto> b)) m P)
    (if mh_owner b = Some m \<and> P (uint (mh_type b)) then stats_grow (mh_buflen b) s else s)"
proof -
  have p: "p \<notin> live bl m P" using assms(3) by (simp add: live_def)
  have "finite (live bl m P)" by (rule finite_subset [OF live_subset assms(2)])
  with counts_add [OF assms(1) _ p, of b]
  have "counts (bl(p \<mapsto> b)) (insert p (live bl m P)) (stats_grow (mh_buflen b) s)" by blast
  moreover have "counts (bl(p \<mapsto> b)) (live bl m P) s" by (rule counts_agree [OF assms(1)]) (use p in auto)
  ultimately show ?thesis unfolding live_add [where bl = bl, OF assms(3)] by presburger
qed

lemma counts_drop_live:
  assumes "counts bl (live bl m P) s" "finite (dom bl)" "bl p = Some b"
  shows "counts (bl(p := None)) (live (bl(p := None)) m P)
    (if mh_owner b = Some m \<and> P (uint (mh_type b)) then stats_shrink (mh_buflen b) s else s)"
proof -
  have fin: "finite (live bl m P)" by (rule finite_subset [OF live_subset assms(2)])
  show ?thesis
  proof (cases "mh_owner b = Some m \<and> P (uint (mh_type b))")
    case True
    then have "p \<in> live bl m P" using assms(3) by (simp add: live_def)
    from counts_drop [OF assms(1) fin this assms(3)] True show ?thesis
      by (simp add: live_drop [where bl = bl, OF assms(3)])
  next
    case False
    then have "p \<notin> live bl m P" using assms(3) by (auto simp: live_def)
    then have "counts (bl(p := None)) (live bl m P) s" by (intro counts_agree [OF assms(1)]) auto
    with False show ?thesis unfolding live_drop [where bl = bl, OF assms(3)] by presburger
  qed
qed

lemma mms_change_sel:
  "mms_totals (mms_change f t pms) = f (mms_totals pms)"
  "mms_generic (mms_change f t pms) = (if t = 0 then f (mms_generic pms) else mms_generic pms)"
  "mms_netbuf (mms_change f t pms) = (if t = 1 then f (mms_netbuf pms) else mms_netbuf pms)"
  by (simp_all add: mms_change_def Let_def)

lemma accounted_add:
  assumes acc: "accounted bl m pms" and fin: "finite (dom bl)" and p: "bl p = None"
  shows "accounted (bl(p \<mapsto> b)) m
    (if mh_owner b = Some m then mms_change (stats_grow (mh_buflen b)) (uint (mh_type b)) pms else pms)"
proof -
  note acc = acc [unfolded accounted_def]
  note c1 = counts_add_live [OF acc [THEN conjunct1] fin p, of b]
  note c2 = counts_add_live [OF acc [THEN conjunct2, THEN conjunct1] fin p, of b]
  note c3 = counts_add_live [OF acc [THEN conjunct2, THEN conjunct2] fin p, of b]
  show ?thesis
  proof (cases "mh_owner b = Some m")
    case True
    with c1 c2 c3 show ?thesis by (simp only: accounted_def mms_change_sel if_True simp_thms)
  next
    case False
    with c1 c2 c3 show ?thesis by (simp only: accounted_def if_False simp_thms)
  qed
qed

lemma accounted_drop:
  assumes acc: "accounted bl m pms" and fin: "finite (dom bl)" and p: "bl p = Some b"
  shows "accounted (bl(p := None)) m
    (if mh_owner b = Some m then mms_change (stats_shrink (mh_buflen b)) (uint (mh_type b)) pms else pms)"
proof -
  note acc = acc [unfolded accounted_def]
  note c1 = counts_drop_live [OF acc [THEN conjunct1] fin p]
  note c2 = counts_drop_live [OF acc [THEN conjunct2, THEN conjunct1] fin p]
  note c3 = counts_drop_live [OF acc [THEN conjunct2, THEN conjunct2] fin p]
  show ?thesis
  proof (cases "mh_owner b = Some m")
    case True
    with c1 c2 c3 show ?thesis by (simp only: accounted_def mms_change_sel if_True simp_thms)
  next
    case False
    with c1 c2 c3 show ?thesis by (simp only: accounted_def if_False simp_thms)
  qed
qed

lemma mem_invD:
  assumes "mem_inv st"
  shows "finite (dom (mem_blocks st))" "mem_blocks st p = Some b \<Longrightarrow> block_ok b"
    "mem_blocks st p = Some b \<Longrightarrow> mh_owner b = Some m \<Longrightarrow> \<exists>pms. mem_stats st m = Some pms"
    "mem_stats st m = Some pms \<Longrightarrow> accounted (mem_blocks st) m pms"
  using assms by (auto simp: mem_inv_def)

lemma mem_invI:
  assumes "finite (dom (mem_blocks st))" "\<And>p b. mem_blocks st p = Some b \<Longrightarrow> block_ok b"
    "\<And>p b m. mem_blocks st p = Some b \<Longrightarrow> mh_owner b = Some m \<Longrightarrow> mem_stats st m \<noteq> None"
    "\<And>m pms. mem_stats st m = Some pms \<Longrightarrow> accounted (mem_blocks st) m pms"
  shows "mem_inv st"
  using assms by (auto simp: mem_inv_def)

lemma module_init_inv:
  assumes "mem_inv st"
  shows "mem_inv (snd (naf_memory__module_init sysok m st))"
    and "mem_blocks (snd (naf_memory__module_init sysok m st)) = mem_blocks st"
    and "sysok \<Longrightarrow> mem_stats (snd (naf_memory__module_init sysok m st)) m \<noteq> None"
proof -
  have "accounted (mem_blocks st) m mms_zero" if "mem_stats st m = None"
  proof -
    have "live (mem_blocks st) m P = {}" for P
      using mem_invD(3) [OF assms] that by (fastforce simp: live_def)
    then show ?thesis by (simp add: accounted_def counts_def mms_zero_def memory_stats_zero_def)
  qed
  then show "mem_inv (snd (naf_memory__module_init sysok m st))"
    using mem_invD [OF assms] by (auto simp: naf_memory__module_init_def intro!: mem_invI split: if_splits)
qed (auto simp: naf_memory__module_init_def)

text \<open>What is asked of \<^verbatim>\<open>malloc\<close>: a fresh block of the size.\<close>

definition sys_ok :: "(nat \<Rightarrow> (nat \<times> bytes) option) \<Rightarrow> memstate \<Rightarrow> bool" where
  "sys_ok sys st \<longleftrightarrow> (\<forall>n p buf. sys n = Some (p, buf) \<longrightarrow> mem_blocks st p = None \<and> length buf = n)"

lemma int_of_size_small: "n < 2 ^ 31 \<Longrightarrow> int_of_size n = int n"
  by (simp add: int_of_size_def sint_word_ariths(1) signed_of_nat signed_take_bit_int_eq_self)

definition new_block :: "nafmod option \<Rightarrow> int \<Rightarrow> bytes \<Rightarrow> memblock" where
  "new_block md type data = \<lparr>mh_magic1 = HDR_MAGIC_START, mh_hdrlen = of_nat sizeof_naf_mem_header, mh_type = word_of_int type,
     mh_owner = md, mh_buflen = of_nat (length data), mh_magic2 = HDR_MAGIC_END, mb_data = data, mb_footer = FTR_MAGIC_END\<rparr>"

text \<open>Putting a new block in place and counting it.\<close>

definition add_block :: "nat \<Rightarrow> memblock \<Rightarrow> memstate \<Rightarrow> memstate" where
  "add_block p b st = \<lparr>mem_stats = (\<lambda>m. if mh_owner b = Some m
      then map_option (mms_change (stats_grow (mh_buflen b)) (uint (mh_type b))) (mem_stats st m) else mem_stats st m),
     mem_blocks = (mem_blocks st)(p \<mapsto> b)\<rparr>"

definition drop_block :: "nat \<Rightarrow> memblock \<Rightarrow> memstate \<Rightarrow> memstate" where
  "drop_block p b st = \<lparr>mem_stats = (\<lambda>m. if mh_owner b = Some m
      then map_option (mms_change (stats_shrink (mh_buflen b)) (uint (mh_type b))) (mem_stats st m) else mem_stats st m),
     mem_blocks = (mem_blocks st)(p := None)\<rparr>"

lemma add_block_inv:
  assumes inv: "mem_inv st" and b: "block_ok b" "mem_blocks st p = None" "\<And>m. mh_owner b = Some m \<Longrightarrow> mem_stats st m \<noteq> None"
  shows "mem_inv (add_block p b st)"
proof (rule mem_invI)
  fix m pms assume "mem_stats (add_block p b st) m = Some pms"
  then obtain pms0 where "mem_stats st m = Some pms0"
    "pms = (if mh_owner b = Some m then mms_change (stats_grow (mh_buflen b)) (uint (mh_type b)) pms0 else pms0)"
    by (auto simp: add_block_def split: if_splits)
  with accounted_add [OF mem_invD(4) [OF inv] mem_invD(1) [OF inv] b(2), of m pms0 b]
  show "accounted (mem_blocks (add_block p b st)) m pms" by (simp add: add_block_def)
qed (use mem_invD(1,2,3) [OF inv] b in \<open>fastforce simp: add_block_def split: if_splits\<close>)+

lemma drop_block_inv:
  assumes inv: "mem_inv st" and b: "mem_blocks st p = Some b"
  shows "mem_inv (drop_block p b st)"
proof (rule mem_invI)
  fix m pms assume "mem_stats (drop_block p b st) m = Some pms"
  then obtain pms0 where "mem_stats st m = Some pms0"
    "pms = (if mh_owner b = Some m then mms_change (stats_shrink (mh_buflen b)) (uint (mh_type b)) pms0 else pms0)"
    by (auto simp: drop_block_def split: if_splits)
  with accounted_drop [OF mem_invD(4) [OF inv] mem_invD(1) [OF inv] b, of m pms0]
  show "accounted (mem_blocks (drop_block p b st)) m pms" by (simp add: drop_block_def)
qed (use mem_invD(1,2,3) [OF inv] in \<open>fastforce simp: drop_block_def split: if_splits\<close>)+

lemma count_block:
  assumes "mh_owner b = md"
  shows "(case md of None \<Rightarrow> st\<lparr>mem_blocks := (mem_blocks st)(p \<mapsto> b)\<rparr>
    | Some m \<Rightarrow> (case mem_stats (st\<lparr>mem_blocks := (mem_blocks st)(p \<mapsto> b)\<rparr>) m of None \<Rightarrow> st\<lparr>mem_blocks := (mem_blocks st)(p \<mapsto> b)\<rparr>
        | Some pms \<Rightarrow> st\<lparr>mem_blocks := (mem_blocks st)(p \<mapsto> b), mem_stats := (mem_stats (st\<lparr>mem_blocks := (mem_blocks st)(p \<mapsto> b)\<rparr>))
            (m \<mapsto> mms_change (stats_grow (mh_buflen b)) (uint (mh_type b)) pms)\<rparr>)) = add_block p b st"
  using assms by (cases md) (auto simp: add_block_def fun_eq_iff split: option.splits)

lemma malloc_eq:
  assumes "sys_ok sys st" "n < 2 ^ 31 - 44" "0 \<le> type" "type < 2 ^ 16"
  shows "naf_malloc_real sysok sys md type n st =
    (let st1 = (case md of None \<Rightarrow> st | Some m \<Rightarrow> snd (naf_memory__module_init sysok m st))
     in Some (case sys (44 + n) of
          None \<Rightarrow> (None, st1)
        | Some (p, buf) \<Rightarrow> (Some p, add_block p (new_block md type (take n (drop sizeof_naf_mem_header buf))) st1)))"
proof -
  have sz: "int_of_size (sizeof_naf_mem_header + n + 4) = int (44 + n)"
    using assms(2) by (subst int_of_size_small) simp_all
  have nat: "nat (int (44 + n) mod 2 ^ 64) = 44 + n"
  proof -
    have "int (44 + n) mod 2 ^ 64 = int (44 + n)" using assms(2) by (intro mod_pos_pos_trivial) simp_all
    then show ?thesis by (simp only: nat_int)
  qed
  have ty: "uint (word_of_int type :: naf_u16_t) = type"
    using assms(3,4) by (simp add: unsigned_of_int take_bit_int_eq_self)
  show ?thesis
  proof (cases "sys (44 + n)")
    case None
    then show ?thesis unfolding naf_malloc_real_def Let_def sz nat by simp
  next
    case (Some pb)
    obtain p buf where pb: "pb = (p, buf)" by (cases pb)
    with Some assms(1) have len: "length buf = 44 + n" by (auto simp: sys_ok_def)
    let ?st1 = "case md of None \<Rightarrow> st | Some m \<Rightarrow> snd (naf_memory__module_init sysok m st)"
    let ?b = "new_block md type (take n (drop sizeof_naf_mem_header buf))"
    have b: "mh_owner ?b = md" "mh_buflen ?b = of_nat n" "uint (mh_type ?b) = type"
      using len ty by (simp_all add: new_block_def)
    have hdr: "\<lparr>mh_magic1 = HDR_MAGIC_START, mh_hdrlen = of_nat sizeof_naf_mem_header, mh_type = word_of_int type, mh_owner = md,
        mh_buflen = of_nat n, mh_magic2 = HDR_MAGIC_END, mb_data = take n (drop sizeof_naf_mem_header buf),
        mb_footer = FTR_MAGIC_END\<rparr> = ?b"
      using len by (simp add: new_block_def)
    have "\<not> sizeof_naf_mem_header + n + 4 > length buf" using len by simp
    then show ?thesis
      using count_block [OF b(1), of ?st1 p]
      unfolding naf_malloc_real_def Let_def sz nat Some pb option.case prod.case if_False hdr b by (simp only: if_False option.case prod.case)
  qed
qed

lemma free_eq:
  assumes "mem_inv st" "mem_blocks st p = Some b"
  shows "naf_free_real (Some p) st = Some (Done (drop_block p b st))"
  using mem_invD(2) [OF assms] assms(2)
  by (auto simp: naf_free_real_def block_ok_def drop_block_def Let_def fun_eq_iff split: option.splits)

text \<open>The account of a module, which is empty before it has one; and what becomes of the maxima: the ones that a
  new block counts for follow the current value, and no other changes.\<close>

definition account :: "memstate \<Rightarrow> nafmod \<Rightarrow> module_memory_stats" where
  "account st m = (case mem_stats st m of None \<Rightarrow> mms_zero | Some pms \<Rightarrow> pms)"

definition peak :: "bool \<Rightarrow> memory_stats \<Rightarrow> memory_stats \<Rightarrow> bool" where
  "peak grows s s' \<longleftrightarrow> ms_maximum s' = (if grows then max (ms_maximum s) (ms_current s') else ms_maximum s)"

definition peaks :: "nafmod option \<Rightarrow> int \<Rightarrow> memstate \<Rightarrow> memstate \<Rightarrow> bool" where
  "peaks md type st st' \<longleftrightarrow> (\<forall>m. peak (md = Some m) (mms_totals (account st m)) (mms_totals (account st' m)) \<and>
     peak (md = Some m \<and> type = NAF_MEM_TYPE_GENERIC) (mms_generic (account st m)) (mms_generic (account st' m)) \<and>
     peak (md = Some m \<and> type = NAF_MEM_TYPE_NETBUF) (mms_netbuf (account st m)) (mms_netbuf (account st' m)))"

lemma peak_grow: "peak True s (stats_grow n s)"
  by (auto simp: peak_def stats_grow_def Let_def max_def dest: less_imp_le)

lemma peak_same: "peak False s s" "peak False s (stats_shrink n s)"
  by (simp_all add: peak_def stats_shrink_def)

lemma account_init: "account (snd (naf_memory__module_init sysok m st)) = account st"
  by (auto simp: fun_eq_iff account_def naf_memory__module_init_def)

lemma peaks_same: "account st' = account st \<Longrightarrow> peaks None type st st'"
  by (simp add: peaks_def peak_same)

lemma peaks_add:
  assumes "account st1 = account st" "\<And>m. mh_owner b = Some m \<Longrightarrow> mem_stats st1 m \<noteq> None" "uint (mh_type b) = type"
  shows "peaks (mh_owner b) type st (add_block p b st1)"
  unfolding peaks_def
proof
  fix m
  have "account st1 m = account st m" by (simp add: assms(1))
  then have "account (add_block p b st1) m =
      (if mh_owner b = Some m then mms_change (stats_grow (mh_buflen b)) type (account st m) else account st m)"
    using assms(2) [of m] assms(3) by (auto simp: account_def add_block_def)
  then show "peak (mh_owner b = Some m) (mms_totals (account st m)) (mms_totals (account (add_block p b st1) m)) \<and>
     peak (mh_owner b = Some m \<and> type = NAF_MEM_TYPE_GENERIC) (mms_generic (account st m)) (mms_generic (account (add_block p b st1) m)) \<and>
     peak (mh_owner b = Some m \<and> type = NAF_MEM_TYPE_NETBUF) (mms_netbuf (account st m)) (mms_netbuf (account (add_block p b st1) m))"
    by (simp add: mms_change_sel peak_grow peak_same)
qed

lemma peaks_drop:
  assumes "\<And>m. mh_owner b = Some m \<Longrightarrow> mem_stats st m \<noteq> None"
  shows "peaks None type st (drop_block p b st)"
  unfolding peaks_def
proof
  fix m
  have "account (drop_block p b st) m =
      (if mh_owner b = Some m then mms_change (stats_shrink (mh_buflen b)) (uint (mh_type b)) (account st m) else account st m)"
    using assms [of m] by (auto simp: account_def drop_block_def)
  then show "peak (None = Some m) (mms_totals (account st m)) (mms_totals (account (drop_block p b st) m)) \<and>
     peak (None = Some m \<and> type = NAF_MEM_TYPE_GENERIC) (mms_generic (account st m)) (mms_generic (account (drop_block p b st) m)) \<and>
     peak (None = Some m \<and> type = NAF_MEM_TYPE_NETBUF) (mms_netbuf (account st m)) (mms_netbuf (account (drop_block p b st) m))"
    by (simp add: mms_change_sel peak_same)
qed

text \<open>C9. The accounts of the modules are exact, as long as every module that allocates has an account or memory for one can
  be had, and sizes stay below \<open>2 ^ 31 - 44\<close>: allocating gives a fresh block of the size asked
  for, or nothing, and releasing any block takes exactly that one away; either way the totals and the
  counts by type of every module remain the number and the size of the blocks it has outstanding, and no
  mark is damaged. The maxima that a new block counts for become the larger one of what they were and what is now outstanding;
  no other changes, and none when a block is released.\<close>

theorem memory_accounting:
  assumes inv: "mem_inv st"
  shows "(\<forall>sysok sys md type n. sys_ok sys st \<and> n < 2 ^ 31 - 44 \<and> 0 \<le> type \<and> type < 2 ^ 16 \<and>
      (\<forall>m. md = Some m \<longrightarrow> sysok \<or> mem_stats st m \<noteq> None) \<longrightarrow>
      (\<exists>r st'. naf_malloc_real sysok sys md type n st = Some (r, st') \<and> mem_inv st' \<and>
        peaks (if r = None then None else md) type st st' \<and>
        (case r of None \<Rightarrow> mem_blocks st' = mem_blocks st
         | Some p \<Rightarrow> mem_blocks st p = None \<and> (\<exists>data. length data = n \<and> mem_blocks st' = (mem_blocks st)(p \<mapsto> new_block md type data))))) \<and>
    (\<forall>p. mem_blocks st p \<noteq> None \<longrightarrow>
      (\<exists>st'. naf_free_real (Some p) st = Some (Done st') \<and> mem_inv st' \<and> peaks None 0 st st' \<and>
        mem_blocks st' = (mem_blocks st)(p := None)))"
proof (intro conjI allI impI)
  fix sysok sys md and type :: int and n :: nat
  assume "sys_ok sys st \<and> n < 2 ^ 31 - 44 \<and> 0 \<le> type \<and> type < (2::int) ^ 16 \<and>
    (\<forall>m. md = Some m \<longrightarrow> sysok \<or> mem_stats st m \<noteq> None)"
  then have sys: "sys_ok sys st" "n < 2 ^ 31 - 44" "0 \<le> type" "type < 2 ^ 16"
    and md: "md = Some m \<Longrightarrow> sysok \<or> mem_stats st m \<noteq> None" for m by blast+
  let ?st1 = "case md of None \<Rightarrow> st | Some m \<Rightarrow> snd (naf_memory__module_init sysok m st)"
  have st1: "mem_inv ?st1" "mem_blocks ?st1 = mem_blocks st" "account ?st1 = account st"
    using module_init_inv(1,2) [OF inv] account_init inv by (simp_all split: option.split)
  have has: "mem_stats ?st1 m \<noteq> None" if "md = Some m" for m
    using md [OF that] module_init_inv(3) [OF inv] that by (auto simp: naf_memory__module_init_def)
  show "\<exists>r st'. naf_malloc_real sysok sys md type n st = Some (r, st') \<and> mem_inv st' \<and>
    peaks (if r = None then None else md) type st st' \<and>
    (case r of None \<Rightarrow> mem_blocks st' = mem_blocks st
     | Some p \<Rightarrow> mem_blocks st p = None \<and> (\<exists>data. length data = n \<and> mem_blocks st' = (mem_blocks st)(p \<mapsto> new_block md type data)))"
  proof (cases "sys (44 + n)")
    case None
    with st1 malloc_eq [OF sys, of sysok md] peaks_same [OF st1(3)] show ?thesis by (simp add: Let_def)
  next
    case (Some pb)
    obtain p buf where pb: "pb = (p, buf)" by (cases pb)
    with Some sys(1) have p: "mem_blocks st p = None" "length buf = 44 + n" by (auto simp: sys_ok_def)
    let ?b = "new_block md type (take n (drop sizeof_naf_mem_header buf))"
    have b: "mh_owner ?b = md" "uint (mh_type ?b) = type"
      using sys(3,4) by (simp_all add: new_block_def unsigned_of_int take_bit_int_eq_self)
    have "mem_inv (add_block p ?b ?st1)"
      by (rule add_block_inv [OF st1(1)]) (use st1(2) has p in \<open>auto simp: block_ok_def new_block_def\<close>)
    moreover have "peaks md type st (add_block p ?b ?st1)"
      using peaks_add [OF st1(3) _ b(2), of p] has unfolding b(1) by blast
    moreover have "mem_blocks (add_block p ?b ?st1) = (mem_blocks st)(p \<mapsto> ?b)" using st1(2) by (simp add: add_block_def)
    moreover have "naf_malloc_real sysok sys md type n st = Some (Some p, add_block p ?b ?st1)"
      using malloc_eq [OF sys, of sysok md] Some pb by (simp add: Let_def)
    moreover have "length (take n (drop sizeof_naf_mem_header buf)) = n" using p(2) by simp
    ultimately have "naf_malloc_real sysok sys md type n st = Some (Some p, add_block p ?b ?st1) \<and> mem_inv (add_block p ?b ?st1) \<and>
        peaks md type st (add_block p ?b ?st1) \<and>
        (mem_blocks st p = None \<and> (\<exists>data. length data = n \<and> mem_blocks (add_block p ?b ?st1) = (mem_blocks st)(p \<mapsto> new_block md type data)))"
      using p(1) by blast
    then show ?thesis by (intro exI [of _ "Some p"] exI [of _ "add_block p ?b ?st1"]) (simp only: option.case option.distinct if_False)
  qed
next
  fix p assume "mem_blocks st p \<noteq> None"
  then obtain b where b: "mem_blocks st p = Some b" by blast
  have "peaks None 0 st (drop_block p b st)" by (rule peaks_drop) (use mem_invD(3) [OF inv b] in blast)
  then show "\<exists>st'. naf_free_real (Some p) st = Some (Done st') \<and> mem_inv st' \<and> peaks None 0 st st' \<and>
      mem_blocks st' = (mem_blocks st)(p := None)"
    using free_eq [OF inv b] drop_block_inv [OF inv b] by (simp add: drop_block_def)
qed

definition mem_empty :: memstate where
  "mem_empty = \<lparr>mem_stats = (\<lambda>_. None), mem_blocks = (\<lambda>_. None)\<rparr>"

theorem memory_accounting_witness:
  "\<exists>st'. naf_malloc_real True (\<lambda>n. Some (100, replicate n 0)) (Some 7) 1 10 mem_empty = Some (Some 100, st') \<and>
    mem_inv st' \<and> peaks (Some 7) 1 mem_empty st' \<and> mem_blocks st' 100 \<noteq> None"
proof -
  let ?sys = "\<lambda>n. Some (100, replicate n 0)"
  have inv: "mem_inv mem_empty" by (rule mem_invI) (auto simp: mem_empty_def)
  have "sys_ok ?sys mem_empty" by (simp add: sys_ok_def mem_empty_def)
  then have "sys_ok ?sys mem_empty \<and> (10::nat) < 2 ^ 31 - 44 \<and> (0::int) \<le> 1 \<and> (1::int) < 2 ^ 16 \<and>
      (\<forall>m. Some 7 = Some m \<longrightarrow> True \<or> mem_stats mem_empty m \<noteq> None)" by simp
  from memory_accounting [OF inv, THEN conjunct1, rule_format, OF this]
  obtain r st' where st': "naf_malloc_real True ?sys (Some 7) 1 10 mem_empty = Some (r, st')" "mem_inv st'"
    "peaks (if r = None then None else Some 7) 1 mem_empty st'"
    "case r of None \<Rightarrow> mem_blocks st' = mem_blocks mem_empty
     | Some p \<Rightarrow> mem_blocks mem_empty p = None \<and> (\<exists>data. length data = 10 \<and> mem_blocks st' = (mem_blocks mem_empty)(p \<mapsto> new_block (Some 7) 1 data))"
    by blast
  have "r = Some 100"
    using st'(1) malloc_eq [of ?sys mem_empty 10 1 True "Some 7"] by (simp add: Let_def sys_ok_def mem_empty_def)
  with st' show ?thesis by auto
qed

text \<open>A block of a module without an account is not counted, but its release is, once the module has one: here ten bytes are
  given back by an account that holds four.\<close>

lemma uncounted_release_underflows:
  "(do {
      (p, st) \<leftarrow> naf_malloc_real False (\<lambda>n. Some (100, replicate n 0)) (Some 7) 0 10 mem_empty;
      (_, st) \<leftarrow> naf_malloc_real True (\<lambda>n. Some (200, replicate n 0)) (Some 7) 0 4 st;
      r \<leftarrow> naf_free_real p st;
      case r of Done st \<Rightarrow> Some (ms_regions (mms_totals (account st 7)), ms_current (mms_totals (account st 7))) | Abort \<Rightarrow> None
    }) = Some (0, - 6)"
  by (simp add: naf_malloc_real_def naf_free_real_def naf_memory__module_init_def mem_empty_def int_of_size_def Let_def
      account_def mms_change_def stats_grow_def stats_shrink_def mms_zero_def memory_stats_zero_def)

section \<open>Pools as sets\<close>

definition block_bit :: "bytes \<Rightarrow> nat \<Rightarrow> bool" where
  "block_bit bs n \<longleftrightarrow> bit (bs ! (n div 8)) (7 - n mod 8)"

definition pool_set :: "naf_flmempool_t \<Rightarrow> nat set" where
  "pool_set f = {n. n < unat (flmp_blkcount f) \<and> block_bit (flmp_allocmap f) n}"

definition pool_inv :: "naf_flmempool_t \<Rightarrow> bool" where
  "pool_inv f \<longleftrightarrow> unat (flmp_allocmaplen f) = length (flmp_allocmap f) \<and>
     unat (flmp_blkcount f) = 8 * length (flmp_allocmap f) \<and> 0 < unat (flmp_blklen f) \<and>
     unat (flmp_regionlen f) = unat (flmp_blkcount f) * unat (flmp_blklen f)"

definition block_addr :: "naf_flmempool_t \<Rightarrow> nat \<Rightarrow> nat" where
  "block_addr f n = flmp_region f + n * unat (flmp_blklen f)"

lemma drop_bit_and_1: "(drop_bit j (w :: naf_u8_t) AND 1 = 0) \<longleftrightarrow> \<not> bit w j"
  by (simp add: bit_iff_odd_drop_bit and_one_eq flip: even_iff_mod_2_eq_zero)

lemma free_byte_bit: "(w :: naf_u8_t) < 255 \<longleftrightarrow> (\<exists>j < 8. \<not> bit w j)"
proof -
  have "w = 255 \<longleftrightarrow> (\<forall>j < 8. bit w j)"
  proof -
    have "(255 :: naf_u8_t) = - 1" by simp
    then have "bit (255 :: naf_u8_t) j" if "j < 8" for j using that by (simp only: bit_minus_1_iff) simp
    then show ?thesis by (auto intro!: bit_word_eqI)
  qed
  moreover have "w \<le> 255"
  proof -
    have "(255 :: naf_u8_t) = - 1" by simp
    then show ?thesis by (metis word_order.extremum)
  qed
  ultimately show ?thesis by (metis order_less_le)
qed

lemma find_down:
  "\<exists>j < n. P j \<Longrightarrow> \<exists>j < n. List.find P (rev [0..<n]) = Some j \<and> P j \<and> (\<forall>k. j < k \<and> k < n \<longrightarrow> \<not> P k)"
proof (induction n)
  case (Suc n)
  show ?case
  proof (cases "P n")
    case False
    with Suc obtain j where "j < n" "List.find P (rev [0..<n]) = Some j" "P j" "\<forall>k. j < k \<and> k < n \<longrightarrow> \<not> P k"
      by (auto simp: less_Suc_eq)
    with False show ?thesis by (intro exI [of _ j]) (auto simp: less_Suc_eq)
  qed auto
qed simp

lemma free_bit_Some:
  assumes "(w :: naf_u8_t) < 255"
  shows "\<exists>j < 8. free_bit w = Some j \<and> \<not> bit w j \<and> (\<forall>k. j < k \<and> k < 8 \<longrightarrow> bit w k)"
proof -
  have "\<exists>j < 8. \<not> bit w j" using assms by (simp add: free_byte_bit)
  moreover have "[7, 6, 5, 4, 3, 2, 1, 0 :: nat] = rev [0..<8]" by (simp add: upt_rec)
  ultimately show ?thesis
    using find_down [of 8 "\<lambda>j. \<not> bit w j"] unfolding free_bit_def drop_bit_and_1 by simp
qed

lemma index8: "m < 8 \<Longrightarrow> (i * 8 + m) div 8 = (i :: nat)" "m < 8 \<Longrightarrow> (i * 8 + m) mod 8 = m"
  by simp_all

lemma split8: "(k :: nat) = k div 8 * 8 + k mod 8" "k mod 8 < (8 :: nat)"
  by simp_all

lemma bit_single: "k < 8 \<Longrightarrow> bit (push_bit j 1 :: naf_u8_t) k \<longleftrightarrow> k = j"
  by (auto simp: bit_exp_iff)

lemma set_block_bit:
  assumes "i < length bs" "j < 8" "k div 8 < length bs"
  shows "block_bit (bs[i := bs ! i OR push_bit j 1]) k \<longleftrightarrow> block_bit bs k \<or> k = i * 8 + (7 - j)"
proof (cases "k div 8 = i")
  case True
  have k: "k = i * 8 + k mod 8" using True by (metis div_mult_mod_eq)
  have "bit (bs ! i OR push_bit j 1) (7 - k mod 8) \<longleftrightarrow> bit (bs ! i) (7 - k mod 8) \<or> 7 - k mod 8 = j"
    by (simp add: bit_or_iff bit_single del: push_bit_of_1)
  moreover have "7 - k mod 8 = j \<longleftrightarrow> k = i * 8 + (7 - j)"
    using k assms(2) split8(2) [of k] by arith
  ultimately show ?thesis using True assms by (simp add: block_bit_def)
next
  case False
  then have "k \<noteq> i * 8 + (7 - j)" by auto
  with False show ?thesis by (simp add: block_bit_def nth_list_update)
qed

lemma clear_block_bit:
  assumes "n div 8 < length bs" "block_bit bs n" "k div 8 < length bs"
  shows "block_bit (bs[n div 8 := bs ! (n div 8) XOR push_bit (7 - n mod 8) 1]) k \<longleftrightarrow> block_bit bs k \<and> k \<noteq> n"
proof (cases "k div 8 = n div 8")
  case True
  have "bit (bs ! (n div 8) XOR push_bit (7 - n mod 8) 1) (7 - k mod 8) \<longleftrightarrow>
      bit (bs ! (n div 8)) (7 - k mod 8) \<and> 7 - k mod 8 \<noteq> 7 - n mod 8"
    using assms(2) by (auto simp: block_bit_def bit_xor_iff bit_single simp del: push_bit_of_1)
  moreover have "7 - k mod 8 = 7 - n mod 8 \<longleftrightarrow> k = n"
  proof
    assume "7 - k mod 8 = 7 - n mod 8"
    then have "k mod 8 = n mod 8" using split8(2) [of k] split8(2) [of n] by arith
    with True show "k = n" by (metis div_mult_mod_eq)
  qed simp
  ultimately show ?thesis using True assms by (simp add: block_bit_def)
next
  case False
  then show ?thesis by (auto simp: block_bit_def nth_list_update)
qed

lemma block_number:
  assumes "pool_inv f" "o' < unat (flmp_blklen f)" "n \<le> unat (flmp_blkcount f)" "n * unat (flmp_blklen f) + o' < 2 ^ 64"
  shows "unat (of_nat (block_addr f n + o' - flmp_region f) div flmp_blklen f) = n"
proof -
  have "unat (of_nat (n * unat (flmp_blklen f) + o') :: naf_u32_t) = n * unat (flmp_blklen f) + o'"
    by (subst unat_of_nat) (use assms(4) in simp)
  then show ?thesis using assms(2) by (simp add: block_addr_def unat_div_distrib)
qed

lemma pool_div: "pool_inv f \<Longrightarrow> k < unat (flmp_blkcount f) \<longleftrightarrow> k div 8 < length (flmp_allocmap f)"
  by (auto simp: pool_inv_def)

lemma blkalloc_full:
  assumes "pool_inv f" "free_byte f = None"
  shows "pool_set f = {..<unat (flmp_blkcount f)}"
proof -
  have "block_bit (flmp_allocmap f) k" if "k < unat (flmp_blkcount f)" for k
  proof -
    have "k div 8 < unat (flmp_allocmaplen f)" using that assms(1) pool_div by (simp add: pool_inv_def)
    then have "\<not> flmp_allocmap f ! (k div 8) < 255" using assms(2) by (auto simp: free_byte_def find_None_iff)
    then show ?thesis by (simp add: free_byte_bit block_bit_def)
  qed
  then show ?thesis by (auto simp: pool_set_def)
qed

lemma blkalloc_next:
  assumes "pool_inv f" "free_byte f = Some i"
  shows "\<exists>n f'. naf_flmp_blkalloc f = Some (Done (Some (block_addr f n), f')) \<and> n < unat (flmp_blkcount f) \<and>
    n \<notin> pool_set f \<and> {..<n} \<subseteq> pool_set f \<and> pool_set f' = insert n (pool_set f) \<and>
    f' = f\<lparr>flmp_allocmap := flmp_allocmap f'\<rparr> \<and> pool_inv f'"
proof -
  let ?bs = "flmp_allocmap f"
  have len: "unat (flmp_allocmaplen f) = length ?bs" using assms(1) by (simp add: pool_inv_def)
  have i: "i < length ?bs" "?bs ! i < 255" "\<And>k. k < i \<Longrightarrow> \<not> ?bs ! k < 255"
    using assms(2) len by (auto simp: free_byte_def find_Some_iff)
  obtain j where j: "j < 8" "free_bit (?bs ! i) = Some j" "\<not> bit (?bs ! i) j" "\<And>k. j < k \<Longrightarrow> k < 8 \<Longrightarrow> bit (?bs ! i) k"
    using free_bit_Some [OF i(2)] by blast
  define n where "n = i * 8 + (7 - j)"
  have n8: "7 - j < 8" by simp
  have n: "n div 8 = i" "7 - n mod 8 = j" using j(1) index8 [OF n8, of i] by (simp_all add: n_def)
  let ?f = "f\<lparr>flmp_allocmap := ?bs[i := ?bs ! i OR push_bit j 1]\<rparr>"
  have "n < unat (flmp_blkcount f)" using pool_div [OF assms(1), of n] n i(1) by simp
  moreover have "n \<notin> pool_set f" using n j(3) by (simp add: pool_set_def block_bit_def)
  moreover have "k \<in> pool_set f" if "k < n" for k
  proof -
    have "bit (?bs ! (k div 8)) (7 - k mod 8)"
    proof (cases "k div 8 = i")
      case True
      then have "j < 7 - k mod 8" using that j(1) split8 [of k] unfolding n_def by arith
      with j(4) True show ?thesis by simp
    next
      case False
      moreover have "k div 8 \<le> i" using that n(1) div_le_mono [of k n 8] by simp
      ultimately have "k div 8 < i" by simp
      with i(3) show ?thesis by (simp add: free_byte_bit)
    qed
    with that \<open>n < unat (flmp_blkcount f)\<close> show ?thesis by (simp add: pool_set_def block_bit_def)
  qed
  moreover have "pool_set ?f = insert n (pool_set f)"
    using set_block_bit [OF i(1) j(1)] pool_div [OF assms(1)] \<open>n < unat (flmp_blkcount f)\<close>
    by (auto simp: pool_set_def n_def)
  moreover have "naf_flmp_blkalloc f = Some (Done (Some (block_addr f n), ?f))"
    using assms(2) len j by (simp add: naf_flmp_blkalloc_def block_addr_def n_def)
  moreover have "pool_inv ?f" using assms(1) by (simp add: pool_inv_def)
  ultimately show ?thesis by (intro exI [of _ n] exI [of _ ?f]) auto
qed

text \<open>C10. A pool is a set of block numbers: allocating hands out the lowest number that is not taken, or
  nothing when all are, releasing any address inside a block that is taken gives exactly that block
  back, and inside a block that is not taken ends the program. Blocks do not overlap.\<close>

theorem pool_is_a_set:
  assumes inv: "pool_inv f"
  shows "(\<exists>r f'. naf_flmp_blkalloc f = Some (Done (r, f')) \<and> pool_inv f' \<and>
      (if pool_set f = {..<unat (flmp_blkcount f)} then r = None \<and> f' = f
       else \<exists>n. n < unat (flmp_blkcount f) \<and> n \<notin> pool_set f \<and> {..<n} \<subseteq> pool_set f \<and> r = Some (block_addr f n) \<and>
         pool_set f' = insert n (pool_set f))) \<and>
    (\<forall>n < unat (flmp_blkcount f). \<forall>o' < unat (flmp_blklen f).
      (if n \<in> pool_set f
       then \<exists>f'. naf_flmp_blkfree (Some f) (Some (block_addr f n + o')) = Some (Done (Some f')) \<and> pool_inv f' \<and>
         pool_set f' = pool_set f - {n}
       else naf_flmp_blkfree (Some f) (Some (block_addr f n + o')) = Some Abort))"
proof (intro conjI allI impI)
  have len: "\<not> length (flmp_allocmap f) < unat (flmp_allocmaplen f)" using inv by (simp add: pool_inv_def)
  show "\<exists>r f'. naf_flmp_blkalloc f = Some (Done (r, f')) \<and> pool_inv f' \<and>
      (if pool_set f = {..<unat (flmp_blkcount f)} then r = None \<and> f' = f
       else \<exists>n. n < unat (flmp_blkcount f) \<and> n \<notin> pool_set f \<and> {..<n} \<subseteq> pool_set f \<and> r = Some (block_addr f n) \<and>
         pool_set f' = insert n (pool_set f))"
  proof (cases "free_byte f")
    case None
    with blkalloc_full [OF inv] len inv show ?thesis by (simp add: naf_flmp_blkalloc_def)
  next
    case (Some i)
    from blkalloc_next [OF inv this] obtain n f' where n: "naf_flmp_blkalloc f = Some (Done (Some (block_addr f n), f'))"
      "n < unat (flmp_blkcount f)" "n \<notin> pool_set f" "{..<n} \<subseteq> pool_set f" "pool_set f' = insert n (pool_set f)" "pool_inv f'"
      by blast
    then have "pool_set f \<noteq> {..<unat (flmp_blkcount f)}" by blast
    with n show ?thesis by auto
  qed
next
  fix n o' assume n: "n < unat (flmp_blkcount f)" and o': "o' < unat (flmp_blklen f)"
  have "n * unat (flmp_blklen f) + o' < (n + 1) * unat (flmp_blklen f)" using o' by simp
  also have "\<dots> \<le> unat (flmp_blkcount f) * unat (flmp_blklen f)" using n by (intro mult_le_mono1) simp
  also have "\<dots> < 2 ^ 64" using inv unsigned_less [of "flmp_regionlen f", where ?'a = nat] by (simp add: pool_inv_def)
  finally have blk: "unat (of_nat (block_addr f n + o' - flmp_region f) div flmp_blklen f) = n"
    by (intro block_number [OF inv o']) (use n in simp_all)
  then have num: "\<not> flmp_blkcount f < of_nat (block_addr f n + o' - flmp_region f) div flmp_blklen f"
    using n by (simp add: word_less_nat_alt)
  have reg: "\<not> block_addr f n + o' < flmp_region f" by (simp add: block_addr_def)
  have i: "n div 8 < length (flmp_allocmap f)" using pool_div [OF inv] n by blast
  have eq: "naf_flmp_blkfree (Some f) (Some (block_addr f n + o')) =
      (if block_bit (flmp_allocmap f) n
       then Some (Done (Some (f\<lparr>flmp_allocmap := (flmp_allocmap f)[n div 8 := flmp_allocmap f ! (n div 8) XOR push_bit (7 - n mod 8) 1]\<rparr>)))
       else Some Abort)"
    using reg num blk i
    by (simp add: naf_flmp_blkfree_def Let_def drop_bit_and_1 block_bit_def del: of_nat_add push_bit_of_1)
  show "if n \<in> pool_set f
       then \<exists>f'. naf_flmp_blkfree (Some f) (Some (block_addr f n + o')) = Some (Done (Some f')) \<and> pool_inv f' \<and>
         pool_set f' = pool_set f - {n}
       else naf_flmp_blkfree (Some f) (Some (block_addr f n + o')) = Some Abort"
  proof (cases "n \<in> pool_set f")
    case True
    let ?f = "f\<lparr>flmp_allocmap := (flmp_allocmap f)[n div 8 := flmp_allocmap f ! (n div 8) XOR push_bit (7 - n mod 8) 1]\<rparr>"
    have b: "block_bit (flmp_allocmap f) n" using True by (simp add: pool_set_def)
    have "pool_set ?f = pool_set f - {n}"
      using clear_block_bit [OF i b] pool_div [OF inv] by (auto simp: pool_set_def simp del: push_bit_of_1)
    moreover have "pool_inv ?f" using inv by (simp add: pool_inv_def)
    ultimately show ?thesis using True eq b by (simp del: push_bit_of_1)
  next
    case False
    with n have "\<not> block_bit (flmp_allocmap f) n" by (simp add: pool_set_def)
    with False eq show ?thesis by simp
  qed
qed

theorem pool_is_a_set_witness:
  "\<exists>f f'. naf_flmp_alloc zero_alloc (\<lambda>_. 4096) 16 8 = Some f \<and> naf_flmp_blkalloc f = Some (Done (Some 4096, f'))"
proof -
  obtain f where f: "naf_flmp_alloc zero_alloc (\<lambda>_. 4096) 16 8 = Some f"
    by (simp add: naf_flmp_alloc_def zero_alloc_def Let_def)
  then have eq: "f = \<lparr>flmp_blklen = 16, flmp_blkcount = 8, flmp_region = 4096, flmp_regionlen = 128, flmp_allocmap = [0], flmp_allocmaplen = 1\<rparr>"
    by (auto simp: naf_flmp_alloc_def zero_alloc_def Let_def)
  then have "pool_inv f" "pool_set f = {}" by (auto simp: pool_inv_def pool_set_def block_bit_def)
  have "0 \<in> {..<unat (flmp_blkcount f)}" by (simp add: eq)
  with \<open>pool_set f = {}\<close> have "pool_set f \<noteq> {..<unat (flmp_blkcount f)}" by blast
  with pool_is_a_set [OF \<open>pool_inv f\<close>] obtain n f' where "naf_flmp_blkalloc f = Some (Done (Some (block_addr f n), f'))"
    "{..<n} \<subseteq> pool_set f" by (auto simp del: not_None_eq)
  with \<open>pool_set f = {}\<close> have "naf_flmp_blkalloc f = Some (Done (Some (block_addr f 0), f'))" by (cases n) auto
  with f eq show ?thesis by (auto simp: block_addr_def)
qed

text \<open>The address right behind a pool passes the check of \<^verbatim>\<open>naf_flmp_blkfree\<close>, which compares the number of
  the block with the count for being greater, and makes it read behind the map.\<close>

lemma blkfree_behind:
  assumes inv: "pool_inv f"
  shows "naf_flmp_blkfree (Some f) (Some (flmp_region f + unat (flmp_regionlen f))) = None"
proof -
  have addr: "flmp_region f + unat (flmp_regionlen f) = block_addr f (unat (flmp_blkcount f)) + 0"
    using inv by (simp add: pool_inv_def block_addr_def)
  have "unat (flmp_blkcount f) * unat (flmp_blklen f) + 0 < 2 ^ 64"
    using inv unsigned_less [of "flmp_regionlen f", where ?'a = nat] by (simp add: pool_inv_def)
  then have blk: "unat (of_nat (block_addr f (unat (flmp_blkcount f)) + 0 - flmp_region f) div flmp_blklen f) = unat (flmp_blkcount f)"
    by (intro block_number [OF inv]) (use inv in \<open>simp_all add: pool_inv_def\<close>)
  then have "\<not> flmp_blkcount f < of_nat (block_addr f (unat (flmp_blkcount f)) + 0 - flmp_region f) div flmp_blklen f"
    by (simp add: word_less_nat_alt)
  moreover have "\<not> block_addr f (unat (flmp_blkcount f)) + 0 < flmp_region f" by (simp add: block_addr_def)
  moreover have "unat (flmp_blkcount f) div 8 = length (flmp_allocmap f)" using inv by (simp add: pool_inv_def)
  ultimately show ?thesis using blk unfolding addr by (simp add: naf_flmp_blkfree_def Let_def)
qed

section \<open>The remote method answers\<close>

lemma memuseiter_ok:
  assumes "args_at mtop as \<noteq> None"
  shows "\<exists>r as' st'. memuseiter mal modname mtop md cur (as, st) = Some (r, as', st') \<and> tree_ext as as' \<and> True"
proof -
  have "fills ptop (\<lambda>as. do {
      as \<leftarrow> put_memory_stats mal ptop (cstr ''total'') (mms_totals pms) as;
      as \<leftarrow> put_memory_stats mal ptop (cstr ''type_generic'') (mms_generic pms) as;
      put_memory_stats mal ptop (cstr ''type_netbuf'') (mms_netbuf pms) as})" for ptop and pms :: module_memory_stats
    unfolding put_memory_stats_def by (intro fills_intro)
  then have "fills mtop (rpc_in_array mal mtop (modname cur) (\<lambda>ptop. case mem_stats st cur of None \<Rightarrow> Some
      | Some pms \<Rightarrow> (\<lambda>as. do {
          as \<leftarrow> put_memory_stats mal ptop (cstr ''total'') (mms_totals pms) as;
          as \<leftarrow> put_memory_stats mal ptop (cstr ''type_generic'') (mms_generic pms) as;
          put_memory_stats mal ptop (cstr ''type_netbuf'') (mms_netbuf pms) as})))"
    by (intro fills_in_array) (simp add: fills_none split: option.splits)
  from fillsD [OF this assms] show ?thesis by (auto simp: memuseiter_def)
qed

interpretation memuse_method: rpc_method "\<lambda>_. True" "rpc_core_modmemoryuse mal ml modname md" for mal ml modname md
  unfolding rpc_core_modmemoryuse_def
  by unfold_locales (rule list_modules_answers [OF memuseiter_ok]; assumption)

end
