(* ===== verification/Admin.thy ===== *)
theory Admin
  imports Proxy Config Stats Memory
begin

text \<open>
  The remote methods by which the program is administered: the modules (\<^verbatim>\<open>naf/core.c\<close>,
  \<^verbatim>\<open>naf/module.c\<close>), the connections (\<^verbatim>\<open>naf/conn.c\<close>), the nodes and the message handlers (\<^verbatim>\<open>gnr/node.c\<close>,
  \<^verbatim>\<open>gnr/msg.c\<close>) and the users (\<^verbatim>\<open>timps/oscar/oscar.c\<close>). \<open>modname\<close> gives the name of a module.
\<close>

section \<open>Tags in a tree\<close>

text \<open>\<^verbatim>\<open>listconns_tag_matcher\<close> of the connections and \<^verbatim>\<open>putnodes_matcher\<close> of the nodes are the same. An integer
  goes through an \<^verbatim>\<open>int\<close>.\<close>

definition put_tag ::
    "allocator \<Rightarrow> rpchead \<Rightarrow> rpcarg list option \<Rightarrow> bytes \<Rightarrow> char \<Rightarrow> tagdata \<Rightarrow> int \<times> rpcarg list option" where
  "put_tag mal head as tagname tagtype tagdata =
     (0, Option.bind as (\<lambda>as.
        if tagtype = CHR ''S''
        then (case tagdata of DStr s \<Rightarrow> map_option snd (naf_rpc_addarg_string mal head tagname s as) | _ \<Rightarrow> None)
        else if tagtype = CHR ''I''
        then (case tagdata of
                DInt v \<Rightarrow> map_option snd (naf_rpc_addarg_scalar mal head tagname (scast (ucast v :: 32 word)) as)
              | _ \<Rightarrow> None)
        else Some as))"

definition put_tags :: "allocator \<Rightarrow> rpchead \<Rightarrow> taglist \<Rightarrow> rpcarg list \<Rightarrow> rpcarg list option" where
  "put_tags mal head tags as = naf_tag_iter (Some tags) (put_tag mal head) (Some as)"

section \<open>Modules\<close>

text \<open>\<open>statusline\<close> gives the status line of a module.\<close>

definition statusiter ::
    "allocator \<Rightarrow> (nafmod \<Rightarrow> bytes) \<Rightarrow> (nafmod \<Rightarrow> bytes) \<Rightarrow> rpchead \<Rightarrow> nafmod \<Rightarrow> nafmod \<Rightarrow> rpcarg list \<times> 'u
       \<Rightarrow> (int \<times> rpcarg list \<times> 'u) option" where
  "statusiter mal modname statusline mtop md curmod us = do {
     as \<leftarrow> rpc_in_array mal mtop (modname curmod) (\<lambda>ptop. rpc_puts mal ptop
       (if statusline curmod = [] then [] else [PutString (cstr ''status'') (statusline curmod)])) (fst us);
     Some (0, as, snd us)
   }"

definition rpc_core_modstatus ::
    "allocator \<Rightarrow> 's modlist_item list \<Rightarrow> (nafmod \<Rightarrow> bytes) \<Rightarrow> (nafmod \<Rightarrow> bytes) \<Rightarrow> nafmod \<Rightarrow> rpcreq \<Rightarrow> 'u \<Rightarrow> (rpcreq \<times> 'u) option" where
  "rpc_core_modstatus mal ml modname statusline md = rpc_list_modules mal ml md (statusiter mal modname statusline)"

definition rpc_core_listmodules ::
    "allocator \<Rightarrow> 's modlist_item list \<Rightarrow> rpcreq \<Rightarrow> 'u \<Rightarrow> (rpcreq \<times> 'u) option" where
  "rpc_core_listmodules mal ml req st = do {
     as \<leftarrow> rpc_in_array mal [] (cstr ''modules'') (\<lambda>modules. rpc_for (\<lambda>cur.
       rpc_in_array mal modules (mi_filename cur) (\<lambda>ptop. rpc_puts mal ptop
         ((if mi_status cur AND MOD_STATUS_LOADED \<noteq> 0 then [PutString (cstr ''name'') (nm_name (mi_module cur))] else []) @
          [PutString (cstr ''status'') (listmodules_curstat (mi_status cur))]))) ml) (rq_returnargs req);
     rpc_status NAF_RPC_STATUS_SUCCESS (req\<lparr>rq_returnargs := as\<rparr>) st
   }"

section \<open>Connections\<close>

definition getcidstr :: "nafconn \<Rightarrow> bytes" where
  "getcidstr c = take 31 (utoa (unat (c_cid c)))"

definition gettypestr :: "naf_u32_t \<Rightarrow> bytes" where
  "gettypestr type = concat (map (\<lambda>(flag, name). if type AND flag \<noteq> 0 then name else [])
     [(0x00100000, cstr ''client|''), (0x00200000, cstr ''server|''), (0x00400000, cstr ''listener|''),
      (0x00800000, cstr ''datagram|''), (0x08000000, cstr ''prorogue|''), (0x00040000, cstr ''local|''),
      (0x00000001, cstr ''detecting|''), (0x00000002, cstr ''flap|''), (0x00000004, cstr ''apip|''),
      (0x00000008, cstr ''msnp|''), (0x00000010, cstr ''yahoo|''), (0x00000020, cstr ''irc|''),
      (0x00000040, cstr ''abflap|''), (0x00000080, cstr ''abrouter|''), (0x00000100, cstr ''abdpcon|''),
      (0x00010000, cstr ''socks|''), (0x00020000, cstr ''raw|''), (0x01000000, cstr ''connecting|''),
      (0x02000000, cstr ''rawwaiting|''), (0x04000000, cstr ''readraw|'')])"

definition getdottedquad :: "bytes \<times> naf_u16_t \<Rightarrow> bytes" where
  "getdottedquad sin = fst sin @ [0x3a] @ utoa (unat (snd sin))"

definition rpc_conn_getconnstats ::
    "allocator \<Rightarrow> rpcreq \<Rightarrow> ('nb, 'z) cstate_scheme \<Rightarrow> (rpcreq \<times> ('nb, 'z) cstate_scheme) option" where
  "rpc_conn_getconnstats mal req st = do {
     (carg, as) \<leftarrow> naf_rpc_addarg_array mal [] (cstr ''general'') (rq_returnargs req);
     case carg of
       None \<Rightarrow> rpc_status NAF_RPC_STATUS_UNKNOWNFAILURE (req\<lparr>rq_returnargs := as\<rparr>) st
     | Some carg \<Rightarrow> do {
         as \<leftarrow> rpc_puts mal carg [PutScalar (cstr ''total'') (cs_nextcid st), PutScalar (cstr ''open'') (cs_openconns st)] as;
         rpc_status NAF_RPC_STATUS_SUCCESS (req\<lparr>rq_returnargs := as\<rparr>) st
       }
   }"

text \<open>\<open>remote\<close> is the remote endpoint that \<^verbatim>\<open>fillendpoints\<close> stored, which nothing else looks at. A link that
  leads to a connection that is gone is a fault.\<close>

definition cid_link :: "('nb, 'z) cstate_scheme \<Rightarrow> bytes \<Rightarrow> nat option \<Rightarrow> rpcput list option" where
  "cid_link st name l =
     (case l of
        None \<Rightarrow> Some []
      | Some a \<Rightarrow> do { c \<leftarrow> cs_conns st a; Some [PutString name (getcidstr c)] })"

definition listconns_matcher ::
    "allocator \<Rightarrow> (nafmod \<Rightarrow> bytes) \<Rightarrow> (nat \<Rightarrow> bytes \<times> naf_u16_t) \<Rightarrow> naf_u32_t option \<Rightarrow> bool \<Rightarrow> ('nb, 'z) cstate_scheme
       \<Rightarrow> nat \<Rightarrow> rpcarg list \<Rightarrow> (bool \<times> rpcarg list) option" where
  "listconns_matcher mal modname remote cid wanttags st a as = do {
     c \<leftarrow> cs_conns st a;
     if cid \<noteq> None \<and> cid \<noteq> Some (c_cid c) then Some (False, as)
     else do {
       as \<leftarrow> rpc_in_array mal [] (getcidstr c) (\<lambda>carg as. do {
         as \<leftarrow> rpc_puts mal carg
           ((case c_owner c of None \<Rightarrow> [] | Some m \<Rightarrow> [PutString (cstr ''owner'') (modname m)]) @
            [PutScalar (cstr ''type'') (c_type c), PutString (cstr ''typestr'') (gettypestr (c_type c)),
             PutString (cstr ''localaddr'') (getdottedquad (c_localip c, c_localport c)),
             PutString (cstr ''remoteaddr'') (getdottedquad (remote a))]) as;
         e \<leftarrow> cid_link st (cstr ''endpoint'') (c_endpoint c);
         as \<leftarrow> rpc_puts mal carg e as;
         p \<leftarrow> cid_link st (cstr ''parent'') (c_parent c);
         as \<leftarrow> rpc_puts mal carg p as;
         as \<leftarrow> rpc_puts mal carg
           ([PutScalar (cstr ''servtype'') (word_of_int (c_servtype c)), PutScalar (cstr ''flags'') (c_flags c)] @
            (if c_type c AND NAF_CONN_TYPE_LISTENER \<noteq> 0
             then [PutScalar (cstr ''acceptcount'') (word_of_int (c_lasttx_hard c))] else [])) as;
         if wanttags then rpc_in_array mal carg (cstr ''tags'') (\<lambda>tags. put_tags mal tags (c_taglist c)) as
         else Some as
       }) as;
       Some (cid \<noteq> None, as)
     }
   }"

text \<open>An optional scalar argument, like \<open>string_arg\<close>.\<close>

definition scalar_arg :: "rpcarg list \<Rightarrow> bytes \<Rightarrow> naf_u32_t option option option" where
  "scalar_arg args name =
     (case naf_rpc_getarg args name of
        None \<Rightarrow> Some (Some None)
      | Some a \<Rightarrow> if ra_type a \<noteq> NAF_RPC_ARGTYPE_SCALAR then Some None
                  else map_option (\<lambda>v. Some (Some v)) (data_scalar a))"

definition rpc_conn_getconninfo ::
    "allocator \<Rightarrow> ('nb, 'r) nbio_ops_scheme \<Rightarrow> (nafmod \<Rightarrow> bytes) \<Rightarrow> (nat \<Rightarrow> bytes \<times> naf_u16_t) \<Rightarrow> rpcreq
       \<Rightarrow> ('nb, 'z) cstate_scheme \<Rightarrow> (rpcreq \<times> ('nb, 'z) cstate_scheme) option" where
  "rpc_conn_getconninfo mal nb modname remote req st = do {
     cidarg \<leftarrow> scalar_arg (rq_inargs req) (cstr ''cid'');
     wt \<leftarrow> bool_arg (rq_inargs req) (cstr ''wanttags'');
     case cidarg of
       None \<Rightarrow> rpc_status NAF_RPC_STATUS_INVALIDARGS req st
     | Some cid \<Rightarrow>
         (case wt of
            None \<Rightarrow> rpc_status NAF_RPC_STATUS_INVALIDARGS req st
          | Some w \<Rightarrow> do {
              (_, as) \<leftarrow> conn_find_loop
                (listconns_matcher mal modname remote cid (w \<noteq> None \<and> w \<noteq> Some 0) st) (nb_fdlist nb (cs_nb st)) (rq_returnargs req);
              rpc_status NAF_RPC_STATUS_SUCCESS (req\<lparr>rq_returnargs := as\<rparr>) st
            })
   }"

section \<open>Nodes and message handlers\<close>

abbreviation (input) GNR_NODE_NAME_MAXLEN :: nat where "GNR_NODE_NAME_MAXLEN \<equiv> 128"

definition put_node :: "allocator \<Rightarrow> (nafmod \<Rightarrow> bytes) \<Rightarrow> rpchead \<Rightarrow> bool \<Rightarrow> gnrnode \<Rightarrow> rpcarg list \<Rightarrow> rpcarg list option" where
  "put_node mal modname head wt n =
     rpc_in_array mal head
       (take (GNR_NODE_NAME_MAXLEN + GNR_NODE_NAME_MAXLEN + 2) (gn_name n @ [0x5b] @ gn_service n @ [0x5d]))
       (\<lambda>rnode as. do {
          as \<leftarrow> rpc_puts mal rnode
            ([PutString (cstr ''name'') (gn_name n), PutString (cstr ''service'') (gn_service n),
              PutString (cstr ''owner'') (modname (gn_ownermod n)), PutScalar (cstr ''metric'') (word_of_int (gn_metric n)),
              PutScalar (cstr ''refcount'') (word_of_int (gn_refcount n))] @
             (if gn_metric n \<noteq> GNR_NODE_METRIC_LOCAL
              then [PutScalar (cstr ''ttl'') (word_of_int (gn_ttl n)), PutScalar (cstr ''lastuse'') (word_of_int (gn_lastuse n))]
              else [])) as;
          if wt then rpc_in_array mal rnode (cstr ''tags'') (\<lambda>tags. put_tags mal tags (gn_taglist n)) as else Some as
        })"

text \<open>\<open>ns\<close> is the chain that starts at the given node.\<close>

fun listnodes_putnodes ::
    "allocator \<Rightarrow> (nafmod \<Rightarrow> bytes) \<Rightarrow> rpchead \<Rightarrow> gnrnode list \<Rightarrow> bool \<Rightarrow> int \<Rightarrow> rpcarg list \<Rightarrow> rpcarg list option" where
  "listnodes_putnodes mal modname head [] wt cnt as = Some as"
| "listnodes_putnodes mal modname head (n # ns) wt cnt as =
     (if cnt > 0 \<or> cnt = -1
      then do {
        as \<leftarrow> put_node mal modname head wt n as;
        listnodes_putnodes mal modname head ns wt (if cnt \<noteq> -1 then cnt - 1 else cnt) as
      }
      else Some as)"

definition rpc_gnr_listnodes ::
    "allocator \<Rightarrow> (nafmod \<Rightarrow> bytes) \<Rightarrow> rpcreq \<Rightarrow> gnr_state \<Rightarrow> (rpcreq \<times> gnr_state) option" where
  "rpc_gnr_listnodes mal modname req st = do {
     idxarg \<leftarrow> scalar_arg (rq_inargs req) (cstr ''index'');
     wt \<leftarrow> bool_arg (rq_inargs req) (cstr ''wanttags'');
     case idxarg of
       None \<Rightarrow> rpc_status NAF_RPC_STATUS_INVALIDARGS req st
     | Some idx \<Rightarrow>
         (let index = (case idx of None \<Rightarrow> -1 | Some v \<Rightarrow> sint (ucast v :: 32 word))
          in if index \<noteq> -1 \<and> (index \<ge> int GNR_NODE_HASH_SIZE \<or> index < 0)
             then rpc_status NAF_RPC_STATUS_INVALIDARGS req st
             else case wt of
                    None \<Rightarrow> rpc_status NAF_RPC_STATUS_INVALIDARGS req st
                  | Some w \<Rightarrow> do {
                      let wanttags = (w \<noteq> None \<and> w \<noteq> Some 0);
                      (hd', as) \<leftarrow> naf_rpc_addarg_array mal [] (cstr ''nodes'') (rq_returnargs req);
                      let req = req\<lparr>rq_returnargs := as\<rparr>;
                      case hd' of
                        None \<Rightarrow> rpc_status NAF_RPC_STATUS_UNKNOWNFAILURE req st
                      | Some head \<Rightarrow> do {
                          as \<leftarrow> rpc_for (\<lambda>i. listnodes_putnodes mal modname head (gs_nodehash st ! i) wanttags (-1))
                            (if index = -1 then [0..<GNR_NODE_HASH_SIZE] else [nat index]) as;
                          rpc_status NAF_RPC_STATUS_SUCCESS (req\<lparr>rq_returnargs := as\<rparr>) st
                        }
                    })
   }"

text \<open>The chain behind the node that was found is not looked at: one node is asked for.\<close>

definition rpc_gnr_getnodeinfo ::
    "allocator \<Rightarrow> (nafmod \<Rightarrow> bytes) \<Rightarrow> rpcreq \<Rightarrow> gnr_state \<Rightarrow> (rpcreq \<times> gnr_state) option" where
  "rpc_gnr_getnodeinfo mal modname req st = do {
     namearg \<leftarrow> string_arg (rq_inargs req) (cstr ''name'');
     servarg \<leftarrow> string_arg (rq_inargs req) (cstr ''service'');
     case namearg of
       None \<Rightarrow> rpc_status NAF_RPC_STATUS_INVALIDARGS req st
     | Some None \<Rightarrow> rpc_status NAF_RPC_STATUS_INVALIDARGS req st
     | Some (Some name) \<Rightarrow>
         (case servarg of
            None \<Rightarrow> rpc_status NAF_RPC_STATUS_INVALIDARGS req st
          | Some serv \<Rightarrow> do {
              (hd', as) \<leftarrow> naf_rpc_addarg_array mal [] (cstr ''nodes'') (rq_returnargs req);
              let req = req\<lparr>rq_returnargs := as\<rparr>;
              case hd' of
                None \<Rightarrow> rpc_status NAF_RPC_STATUS_UNKNOWNFAILURE req st
              | Some head \<Rightarrow> do {
                  as \<leftarrow> (case gnr_node_findbyname (Some name) serv st of
                           None \<Rightarrow> Some as
                         | Some gn \<Rightarrow> listnodes_putnodes mal modname head [gn] True 1 as);
                  rpc_status NAF_RPC_STATUS_SUCCESS (req\<lparr>rq_returnargs := as\<rparr>) st
                }
            })
   }"

definition rpc_gnr_listmsghandlers ::
    "allocator \<Rightarrow> (nafmod \<Rightarrow> bytes) \<Rightarrow> msghandlers \<Rightarrow> rpcreq \<Rightarrow> 'u \<Rightarrow> (rpcreq \<times> 'u) option" where
  "rpc_gnr_listmsghandlers mal modname handlers req st = do {
     as \<leftarrow> rpc_for (\<lambda>(i, stage). rpc_in_array mal [] stage (\<lambda>head. rpc_for (\<lambda>mh.
         rpc_in_array mal head (take 127 (utoa (nat (mh_position mh mod 2 ^ 32)))) (\<lambda>ptop. rpc_puts mal ptop
           [PutScalar (cstr ''position'') (word_of_int (mh_position mh)), PutString (cstr ''module'') (modname (mh_module mh)),
            PutString (cstr ''description'') (mh_description mh)])) (handlers ! i)))
       [(0, cstr ''prerouting''), (1, cstr ''routing''), (2, cstr ''postrouting'')] (rq_returnargs req);
     rpc_status NAF_RPC_STATUS_SUCCESS (req\<lparr>rq_returnargs := as\<rparr>) st
   }"

section \<open>Users\<close>

definition rpc_oscar_disconnectuser :: "'nb oenv \<Rightarrow> rpcreq \<Rightarrow> 'nb ostate \<Rightarrow> (rpcreq \<times> 'nb ostate) option" where
  "rpc_oscar_disconnectuser e req st = do {
     name \<leftarrow> string_arg (rq_inargs req) (cstr ''sn'');
     case name of
       None \<Rightarrow> rpc_status NAF_RPC_STATUS_INVALIDARGS req st
     | Some None \<Rightarrow> rpc_status NAF_RPC_STATUS_INVALIDARGS req st
     | Some (Some sn) \<Rightarrow> do {
         (r, st) \<leftarrow> toscar__force_disconnect e sn st;
         rpc_status (if r \<noteq> -1 then NAF_RPC_STATUS_SUCCESS else NAF_RPC_STATUS_UNKNOWNFAILURE) req st
       }
   }"

section \<open>Every method answers\<close>

text \<open>A tag carries what its type says.\<close>

definition tags_typed :: "taglist \<Rightarrow> bool" where
  "tags_typed tags \<longleftrightarrow> (\<forall>t \<in> set tags. (tag_type t = CHR ''S'' \<longrightarrow> (\<exists>s. tag_data t = DStr s)) \<and>
     (tag_type t = CHR ''I'' \<longrightarrow> (\<exists>v. tag_data t = DInt v)))"

lemma put_tag_step:
  assumes "args_at head as \<noteq> None" "tag_type t = CHR ''S'' \<longrightarrow> (\<exists>s. tag_data t = DStr s)"
    "tag_type t = CHR ''I'' \<longrightarrow> (\<exists>v. tag_data t = DInt v)"
  shows "\<exists>as'. put_tag mal head (Some as) name (tag_type t) (tag_data t) = (0, Some as') \<and> tree_ext as as'"
proof -
  consider s where "tag_type t = CHR ''S''" "tag_data t = DStr s" | v where "tag_type t = CHR ''I''" "tag_data t = DInt v"
    | "tag_type t \<noteq> CHR ''S''" "tag_type t \<noteq> CHR ''I''" using assms(2,3) by blast
  then show ?thesis
  proof cases
    case 1
    with rpc_put_ext [OF assms(1), of mal "PutString name s"] show ?thesis by (auto simp: put_tag_def)
  next
    case 2
    with rpc_put_ext [OF assms(1), of mal "PutScalar name (scast (ucast v :: 32 word))"] show ?thesis
      by (auto simp: put_tag_def)
  qed (simp add: put_tag_def)
qed

lemma fills_put_tags [fills_intro]:
  assumes "tags_typed tags"
  shows "fills head (put_tags mal head tags)"
proof -
  have "\<exists>as'. iter_loop (put_tag mal head) (Some as) tags = Some as' \<and> tree_ext as as'" if "args_at head as \<noteq> None" for as
    using that assms
  proof (induction tags arbitrary: as)
    case (Cons t tags)
    obtain as1 where as1: "put_tag mal head (Some as) (tag_name t) (tag_type t) (tag_data t) = (0, Some as1)" "tree_ext as as1"
      using put_tag_step [OF Cons.prems(1), of t mal "tag_name t"] Cons.prems(2) by (auto simp: tags_typed_def)
    then have "args_at head as1 \<noteq> None" using Cons.prems tree_extD(2) by blast
    then obtain as2 where "iter_loop (put_tag mal head) (Some as1) tags = Some as2" "tree_ext as1 as2"
      using Cons by (auto simp: tags_typed_def)
    with as1 show ?case using tree_ext_trans by auto
  qed simp
  then show ?thesis by (simp add: fills_def put_tags_def naf_tag_iter_def)
qed

lemma fills_if [fills_intro]:
  assumes "b \<Longrightarrow> fills head f" "\<not> b \<Longrightarrow> fills head g"
  shows "fills head (\<lambda>as. if b then f as else g as)"
  using assms by (cases b) simp_all

text \<open>An answer whose tree is filled in from the root.\<close>

lemma answered_status:
  "tree_ok (rq_returnargs req) \<Longrightarrow> tree_ext (rq_returnargs req) as \<Longrightarrow>
    s \<in> {NAF_RPC_STATUS_SUCCESS, NAF_RPC_STATUS_INVALIDARGS, NAF_RPC_STATUS_UNKNOWNFAILURE} \<Longrightarrow>
    answered req (req\<lparr>rq_returnargs := as, rq_status := s\<rparr>) \<and> answered req (req\<lparr>rq_status := s\<rparr>)"
  by (auto simp: answered_def dest: tree_extD(1))

lemma fills_answer:
  fixes req :: rpcreq
  assumes "fills [] body" "tree_ok (rq_returnargs req)" "good st"
  shows "\<exists>req' st'. Option.bind (body (rq_returnargs req))
      (\<lambda>as. rpc_status NAF_RPC_STATUS_SUCCESS (req\<lparr>rq_returnargs := as\<rparr>) st) = Some (req', st') \<and> answered req req' \<and> good st'"
proof (rule fillsE [OF assms(1), of "rq_returnargs req"])
  fix as'
  assume "body (rq_returnargs req) = Some as'" "tree_ext (rq_returnargs req) as'"
  with answered_status [OF assms(2)] assms(3) show ?thesis by simp
qed simp

subsection \<open>Modules\<close>

lemma statusiter_ok:
  assumes "args_at mtop as \<noteq> None" "good st"
  shows "\<exists>r as' st'. statusiter mal modname statusline mtop md cur (as, st) = Some (r, as', st') \<and> tree_ext as as' \<and> good st'"
proof -
  have "fills mtop (rpc_in_array mal mtop (modname cur) (\<lambda>ptop. rpc_puts mal ptop
       (if statusline cur = [] then [] else [PutString (cstr ''status'') (statusline cur)])))"
    by (intro fills_intro)
  then obtain as' where "rpc_in_array mal mtop (modname cur) (\<lambda>ptop. rpc_puts mal ptop
       (if statusline cur = [] then [] else [PutString (cstr ''status'') (statusline cur)])) as = Some as'" "tree_ext as as'"
    using fillsE [OF _ assms(1)] by metis
  with assms(2) show ?thesis unfolding statusiter_def by simp
qed

interpretation modstatus_method: rpc_method good "rpc_core_modstatus mal ml modname statusline md"
  for good mal ml modname statusline md
  unfolding rpc_core_modstatus_def
  by unfold_locales (rule list_modules_answers [OF statusiter_ok]; assumption)

interpretation listmodules_method: rpc_method good "rpc_core_listmodules mal ml" for good mal ml
  unfolding rpc_core_listmodules_def
  by unfold_locales (rule fills_answer; (intro fills_intro)?; assumption)

interpretation listmsghandlers_method: rpc_method good "rpc_gnr_listmsghandlers mal modname handlers" for good mal modname handlers
  unfolding rpc_gnr_listmsghandlers_def case_prod_beta
  by unfold_locales (rule fills_answer; (intro fills_intro)?; assumption)

subsection \<open>Connections\<close>

text \<open>The frame of a method that puts its answer under an array at the root.\<close>

lemma root_array_cases:
  assumes "\<And>head. fills head (body head)"
  obtains as1 where "naf_rpc_addarg_array mal [] name as = Some (None, as1)" "tree_ext as as1"
  | h as1 as2 where "naf_rpc_addarg_array mal [] name as = Some (Some h, as1)" "body h as1 = Some as2" "tree_ext as as2"
proof -
  obtain p as1 where p: "naf_rpc_addarg_array mal [] name as = Some (p, as1)"
    "tree_ext as as1" "\<forall>h. p = Some h \<longrightarrow> args_at h as1 = Some []"
    using addarg_array_ext [of "[]" as mal name] by auto
  show thesis
  proof (cases p)
    case None
    with p that(1) show ?thesis by blast
  next
    case (Some h)
    then obtain as2 where "body h as1 = Some as2" "tree_ext as1 as2"
      using fillsD [OF assms(1), of h as1] p(3) by auto
    with Some p that(2) tree_ext_trans show ?thesis by blast
  qed
qed

lemma getconnstats_answers:
  fixes req :: rpcreq
  assumes a: "good st" "tree_ok (rq_inargs req)" "tree_ok (rq_returnargs req)"
  shows "\<exists>req' st'. rpc_conn_getconnstats mal req st = Some (req', st') \<and> answered req req' \<and> good st'"
  by (rule root_array_cases [of "\<lambda>carg. rpc_puts mal carg [PutScalar (cstr ''total'') (cs_nextcid st),
      PutScalar (cstr ''open'') (cs_openconns st)]" mal "cstr ''general''" "rq_returnargs req", OF fills_puts])
    (use a answered_status [OF a(3)] in \<open>simp_all add: rpc_conn_getconnstats_def del: rpc_puts.simps\<close>)

interpretation getconnstats_method: rpc_method good "rpc_conn_getconnstats mal" for good mal
  by unfold_locales (rule getconnstats_answers)

text \<open>Every connection that is open can be listed: its tags are typed, its links lead somewhere.\<close>

definition conn_listable :: "('nb, 'z) cstate_scheme \<Rightarrow> nat \<Rightarrow> bool" where
  "conn_listable st a \<longleftrightarrow> (case cs_conns st a of None \<Rightarrow> False
     | Some c \<Rightarrow> tags_typed (c_taglist c) \<and>
         (\<forall>y. c_endpoint c = Some y \<or> c_parent c = Some y \<longrightarrow> y \<in> dom (cs_conns st)))"

definition conns_listed :: "('nb, 'r) nbio_ops_scheme \<Rightarrow> ('nb, 'z) cstate_scheme \<Rightarrow> bool" where
  "conns_listed nb st \<longleftrightarrow> (\<forall>a \<in> set (nb_fdlist nb (cs_nb st)). conn_listable st a)"

lemma cid_link_ok: "(\<And>y. l = Some y \<Longrightarrow> y \<in> dom (cs_conns st)) \<Longrightarrow> \<exists>ps. cid_link st name l = Some ps"
  by (cases l) (auto simp: cid_link_def dom_def)

lemma listconns_matcher_ok:
  assumes "conn_listable st a"
  shows "\<exists>b as'. listconns_matcher mal modname remote cid wt st a as = Some (b, as') \<and> tree_ext as as'"
proof -
  obtain c where c: "cs_conns st a = Some c" "tags_typed (c_taglist c)"
    "\<And>y. c_endpoint c = Some y \<or> c_parent c = Some y \<Longrightarrow> y \<in> dom (cs_conns st)"
    using assms by (auto simp: conn_listable_def split: option.splits)
  show ?thesis
  proof (cases "cid \<noteq> None \<and> cid \<noteq> Some (c_cid c)")
  case True
  with c(1) have "listconns_matcher mal modname remote cid wt st a as = Some (False, as)"
    by (simp add: listconns_matcher_def)
  then show ?thesis by auto
next
  case False
  obtain e p where l: "cid_link st (cstr ''endpoint'') (c_endpoint c) = Some e" "cid_link st (cstr ''parent'') (c_parent c) = Some p"
    using cid_link_ok [of "c_endpoint c" st "cstr ''endpoint''"] cid_link_ok [of "c_parent c" st "cstr ''parent''"] c(3) by blast
  let ?body = "\<lambda>carg as. do {
         as \<leftarrow> rpc_puts mal carg
           ((case c_owner c of None \<Rightarrow> [] | Some m \<Rightarrow> [PutString (cstr ''owner'') (modname m)]) @
            [PutScalar (cstr ''type'') (c_type c), PutString (cstr ''typestr'') (gettypestr (c_type c)),
             PutString (cstr ''localaddr'') (getdottedquad (c_localip c, c_localport c)),
             PutString (cstr ''remoteaddr'') (getdottedquad (remote a))]) as;
         as \<leftarrow> rpc_puts mal carg e as;
         as \<leftarrow> rpc_puts mal carg p as;
         as \<leftarrow> rpc_puts mal carg
           ([PutScalar (cstr ''servtype'') (word_of_int (c_servtype c)), PutScalar (cstr ''flags'') (c_flags c)] @
            (if c_type c AND NAF_CONN_TYPE_LISTENER \<noteq> 0
             then [PutScalar (cstr ''acceptcount'') (word_of_int (c_lasttx_hard c))] else [])) as;
         if wt then rpc_in_array mal carg (cstr ''tags'') (\<lambda>tags. put_tags mal tags (c_taglist c)) as
         else Some as
       }"
  have "fills [] (rpc_in_array mal [] (getcidstr c) ?body)"
    by (intro fills_intro c(2))
  then obtain as' where "rpc_in_array mal [] (getcidstr c) ?body as = Some as'" "tree_ext as as'"
    using fillsE [of "[]" "rpc_in_array mal [] (getcidstr c) ?body" as] by auto
  then have "listconns_matcher mal modname remote cid wt st a as = Some (cid \<noteq> None, as')"
    unfolding listconns_matcher_def c(1) l bind.bind_lunit if_not_P [OF False] by (simp only: bind.bind_lunit)
  with \<open>tree_ext as as'\<close> show ?thesis by blast
qed
qed

lemma listconns_loop_ok:
  assumes "\<forall>a \<in> set as. conn_listable st a"
  shows "\<exists>f ts'. conn_find_loop (listconns_matcher mal modname remote cid wt st) as ts = Some (f, ts') \<and> tree_ext ts ts'"
  using assms
proof (induction as arbitrary: ts)
  case (Cons a as)
  obtain b ts1 where
    1: "listconns_matcher mal modname remote cid wt st a ts = Some (b, ts1)" "tree_ext ts ts1"
    using listconns_matcher_ok [of st a] Cons.prems by fastforce
  obtain f ts2 where "conn_find_loop (listconns_matcher mal modname remote cid wt st) as ts1 = Some (f, ts2)" "tree_ext ts1 ts2"
    using Cons by fastforce
  with 1 tree_ext_trans [OF 1(2)] show ?case by (cases b) auto
qed simp

lemma scalar_arg_ok:
  assumes "tree_ok args"
  shows "\<exists>r. scalar_arg args name = Some r"
  using arg_ok_data(2) [OF getarg_ok [OF assms]] by (cases "naf_rpc_getarg args name") (force simp: scalar_arg_def)+

lemma getconninfo_answers:
  fixes req :: rpcreq
  assumes a: "conns_listed nb st \<and> good st" "tree_ok (rq_inargs req)" "tree_ok (rq_returnargs req)"
  shows "\<exists>req' st'. rpc_conn_getconninfo mal nb modname remote req st = Some (req', st') \<and> answered req req' \<and> conns_listed nb st' \<and> good st'"
proof -
  obtain ca wt where args: "scalar_arg (rq_inargs req) (cstr ''cid'') = Some ca" "bool_arg (rq_inargs req) (cstr ''wanttags'') = Some wt"
    using scalar_arg_ok [OF a(2)] bool_arg_ok [OF a(2)] by blast
  show ?thesis
  proof (cases "ca = None \<or> wt = None")
    case True
    with args a answered_status [OF a(3) tree_ext_refl] show ?thesis
      by (auto simp: rpc_conn_getconninfo_def split: option.splits)
  next
    case False
    then obtain cid w where cw: "ca = Some cid" "wt = Some w" by auto
    obtain f as' where "conn_find_loop (listconns_matcher mal modname remote cid (w \<noteq> None \<and> w \<noteq> Some 0) st)
        (nb_fdlist nb (cs_nb st)) (rq_returnargs req) = Some (f, as')" "tree_ext (rq_returnargs req) as'"
      using listconns_loop_ok [of "nb_fdlist nb (cs_nb st)" st] a(1) unfolding conns_listed_def by blast
    with args cw a answered_status [OF a(3)] show ?thesis by (simp add: rpc_conn_getconninfo_def)
  qed
qed

interpretation getconninfo_method: rpc_method "\<lambda>st. conns_listed nb st \<and> good st" "rpc_conn_getconninfo mal nb modname remote"
  for nb good mal modname remote
  by unfold_locales (rule getconninfo_answers)

subsection \<open>Nodes\<close>

definition nodes_typed :: "gnr_state \<Rightarrow> bool" where
  "nodes_typed st \<longleftrightarrow> length (gs_nodehash st) = GNR_NODE_HASH_SIZE \<and> (\<forall>n \<in> set (all_nodes st). tags_typed (gn_taglist n))"

lemma nodes_typed_bucket: "nodes_typed st \<Longrightarrow> i < GNR_NODE_HASH_SIZE \<Longrightarrow> n \<in> set (gs_nodehash st ! i) \<Longrightarrow> tags_typed (gn_taglist n)"
  unfolding nodes_typed_def all_nodes_def by (metis UN_I nth_mem set_concat)

lemma fills_put_node [fills_intro]: "tags_typed (gn_taglist n) \<Longrightarrow> fills head (put_node mal modname head wt n)"
  unfolding put_node_def by (intro fills_intro)

lemma fills_putnodes [fills_intro]:
  "(\<And>n. n \<in> set ns \<Longrightarrow> tags_typed (gn_taglist n)) \<Longrightarrow> fills head (listnodes_putnodes mal modname head ns wt cnt)"
proof (induction ns arbitrary: cnt)
  case Nil
  then show ?case using fills_none by (simp add: fills_def)
next
  case (Cons n ns)
  then have "fills head (\<lambda>as. Option.bind (put_node mal modname head wt n as)
      (listnodes_putnodes mal modname head ns wt (if cnt \<noteq> -1 then cnt - 1 else cnt)))"
    by (intro fills_seq fills_put_node) auto
  then show ?case using fills_none by (cases "cnt = -1") (simp_all add: fills_def)
qed

lemma listnodes_answers:
  fixes req :: rpcreq
  assumes a: "nodes_typed st" "tree_ok (rq_inargs req)" "tree_ok (rq_returnargs req)"
  shows "\<exists>req' st'. rpc_gnr_listnodes mal modname req st = Some (req', st') \<and> answered req req' \<and> nodes_typed st'"
proof -
  obtain ia wt where args: "scalar_arg (rq_inargs req) (cstr ''index'') = Some ia" "bool_arg (rq_inargs req) (cstr ''wanttags'') = Some wt"
    using scalar_arg_ok [OF a(2)] bool_arg_ok [OF a(2)] by blast
  note inv = answered_status [OF a(3) tree_ext_refl, of NAF_RPC_STATUS_INVALIDARGS]
  show ?thesis
  proof (cases ia)
    case None
    with args a inv show ?thesis by (simp add: rpc_gnr_listnodes_def)
  next
    case (Some idx)
    define index where "index = (case idx of None \<Rightarrow> -1 | Some v \<Rightarrow> sint (ucast v :: 32 word))"
    show ?thesis
    proof (cases "(index \<noteq> -1 \<and> (index \<ge> int GNR_NODE_HASH_SIZE \<or> index < 0)) \<or> wt = None")
      case True
      with args a inv Some show ?thesis
        unfolding rpc_gnr_listnodes_def by (cases "wt = None") (simp_all add: index_def [symmetric] Let_def)
    next
      case False
      then obtain w where w: "wt = Some w" by auto
      let ?is = "if index = -1 then [0..<GNR_NODE_HASH_SIZE] else [nat index]"
      have "i < GNR_NODE_HASH_SIZE" if "i \<in> set ?is" for i using that False by (auto split: if_splits)
      then have "fills head (rpc_for (\<lambda>i. listnodes_putnodes mal modname head (gs_nodehash st ! i) (w \<noteq> None \<and> w \<noteq> Some 0) (-1)) ?is)" for head
        using nodes_typed_bucket [OF a(1)] by (intro fills_for fills_putnodes) blast
      then show ?thesis
        by (rule root_array_cases [where mal = mal and name = "cstr ''nodes''" and as = "rq_returnargs req"])
          (use args Some w False a answered_status [OF a(3)] in
            \<open>simp_all add: rpc_gnr_listnodes_def Let_def index_def [symmetric] del: upt.simps\<close>)
    qed
  qed
qed

interpretation listnodes_method: rpc_method nodes_typed "rpc_gnr_listnodes mal modname" for mal modname
  by unfold_locales (rule listnodes_answers)

lemma getnodeinfo_answers:
  fixes req :: rpcreq
  assumes a: "nodes_typed st" "tree_ok (rq_inargs req)" "tree_ok (rq_returnargs req)"
  shows "\<exists>req' st'. rpc_gnr_getnodeinfo mal modname req st = Some (req', st') \<and> answered req req' \<and> nodes_typed st'"
proof -
  obtain na sa where args: "string_arg (rq_inargs req) (cstr ''name'') = Some na" "string_arg (rq_inargs req) (cstr ''service'') = Some sa"
    using string_arg_ok [OF a(2)] by blast
  note inv = answered_status [OF a(3) tree_ext_refl, of NAF_RPC_STATUS_INVALIDARGS]
  show ?thesis
  proof (cases "na = None \<or> na = Some None \<or> sa = None")
    case True
    with args a inv show ?thesis by (auto simp: rpc_gnr_getnodeinfo_def split: option.splits)
  next
    case False
    then obtain name serv where ns: "na = Some (Some name)" "sa = Some serv" by (metis not_None_eq)
    show ?thesis
    proof (cases "gnr_node_findbyname (Some name) serv st")
      case None
      show ?thesis
        by (rule root_array_cases [of "\<lambda>_. Some" mal "cstr ''nodes''" "rq_returnargs req", OF fills_none])
          (use args ns None a answered_status [OF a(3)] in \<open>simp_all add: rpc_gnr_getnodeinfo_def Let_def\<close>)
    next
      case (Some gn)
      have "fills head (listnodes_putnodes mal modname head [gn] True 1)" for head
        using a(1) findbyname_Some(1) [OF Some] by (intro fills_putnodes) (simp add: nodes_typed_def)
      then show ?thesis
        by (rule root_array_cases [where mal = mal and name = "cstr ''nodes''" and as = "rq_returnargs req"])
          (use args ns Some a answered_status [OF a(3)] in
            \<open>simp_all add: rpc_gnr_getnodeinfo_def Let_def del: listnodes_putnodes.simps\<close>)
    qed
  qed
qed

interpretation getnodeinfo_method: rpc_method nodes_typed "rpc_gnr_getnodeinfo mal modname" for mal modname
  by unfold_locales (rule getnodeinfo_answers)

subsection \<open>Users\<close>

text \<open>The names that \<^verbatim>\<open>toscar_sncmp\<close> can compare: no connection has one that ends in a space.\<close>

definition screennames_ok :: "'nb oenv \<Rightarrow> 'nb ostate \<Rightarrow> bool" where
  "screennames_ok e st \<longleftrightarrow> (\<forall>a \<in> set (nb_fdlist (oe_nb e) (cs_nb st)). \<exists>cur. conn_screenname e (Some a) st = Some cur \<and>
     (\<forall>s. cur = Some s \<longrightarrow> 0 \<notin> set s \<and> name_trail s = 0))"

definition nb_marks :: "('nb, 'r) nbio_ops_scheme \<Rightarrow> bool" where
  "nb_marks nb \<longleftrightarrow> (\<forall>f n. nb_fdlist nb (snd (nb_setcloseonflush nb f n)) = nb_fdlist nb n)"

definition oscar_good :: "'nb oenv \<Rightarrow> 'nb ostate \<Rightarrow> bool" where
  "oscar_good e st \<longleftrightarrow> nb_marks (oe_nb e) \<and> conns_listed (oe_nb e) st \<and> screennames_ok e st \<and> nodes_typed (os_gnr st)"

lemma string_arg_terminated: "string_arg args name = Some (Some (Some s)) \<Longrightarrow> 0 \<notin> set s"
proof -
  assume "string_arg args name = Some (Some (Some s))"
  then obtain a where "data_string a = Some s" by (auto simp: string_arg_def split: option.splits if_splits)
  then show "0 \<notin> set s" by (cases a rule: data_string.cases) (auto dest: set_takeWhileD)
qed

lemma oscar_good_searchable:
  assumes "oscar_good e st" "0 \<notin> set sn"
  shows "searchable e sn st"
  unfolding searchable_def
proof
  fix a
  assume a: "a \<in> set (nb_fdlist (oe_nb e) (cs_nb st))"
  obtain c where c: "cs_conns st a = Some c"
    using assms(1) a by (auto simp: oscar_good_def conns_listed_def conn_listable_def split: option.splits)
  obtain cur where cur: "conn_screenname e (Some a) st = Some cur" "\<forall>s. cur = Some s \<longrightarrow> 0 \<notin> set s \<and> name_trail s = 0"
    using assms(1) a by (auto simp: oscar_good_def screennames_ok_def)
  have "toscar_sncmp sn s \<noteq> None" if "cur = Some s" for s
    unfolding toscar_sncmp_def using sncmp_loop_eq [OF assms(2)] cur(2) that by simp
  with c cur(1) show "toscar__findconn__matcher e sn a st \<noteq> None"
    by (cases cur) (auto simp: toscar__findconn__matcher_def)
qed

lemma screenname_nb: "conn_screenname e (Some a) (st\<lparr>cs_nb := n\<rparr>) = conn_screenname e (Some a) st"
  by (simp add: conn_screenname_def naf_conn_tag_fetch_def)

lemma conn_listable_nb: "conn_listable (st\<lparr>cs_nb := n\<rparr>) a = conn_listable st a"
  by (simp add: conn_listable_def split: option.split)

lemma oscar_good_nb:
  assumes "oscar_good e st" "nb_fdlist (oe_nb e) n = nb_fdlist (oe_nb e) (cs_nb st)"
  shows "oscar_good e (st\<lparr>cs_nb := n\<rparr>)"
  using assms by (simp add: oscar_good_def conns_listed_def conn_listable_nb screennames_ok_def screenname_nb)

lemma disconnectuser_answers:
  fixes req :: rpcreq
  assumes a: "oscar_good e st" "tree_ok (rq_inargs req)" "tree_ok (rq_returnargs req)"
  shows "\<exists>req' st'. rpc_oscar_disconnectuser e req st = Some (req', st') \<and> answered req req' \<and> oscar_good e st'"
proof -
  obtain sa where sa: "string_arg (rq_inargs req) (cstr ''sn'') = Some sa" using string_arg_ok [OF a(2)] by blast
  note ans = answered_status [OF a(3) tree_ext_refl]
  consider "sa = None \<or> sa = Some None" | sn where "sa = Some (Some sn)" by (metis not_None_eq)
  then show ?thesis
  proof cases
    case 1
    with sa a ans show ?thesis by (auto simp: rpc_oscar_disconnectuser_def)
  next
    case 2
    have s: "searchable e sn st" using oscar_good_searchable [OF a(1) string_arg_terminated] sa 2 by blast
    let ?l = "nb_fdlist (oe_nb e) (cs_nb st)"
    show ?thesis
    proof (cases "List.find (server_conn e sn st) ?l")
      case None
      with s sa 2 a ans show ?thesis
        by (simp add: rpc_oscar_disconnectuser_def toscar__force_disconnect_def findconn_is_find)
    next
      case (Some c)
      then have "c \<in> set ?l" by (auto simp: find_Some_iff)
      then obtain x where x: "cs_conns st c = Some x"
        using a(1) by (auto simp: oscar_good_def conns_listed_def conn_listable_def split: option.splits)
      obtain r st' where k: "naf_conn_schedulekill (oe_nb e) (Some c) st = Some (r, st')" "oscar_good e st'"
      proof (cases "c_fdt x")
        case None
        with x a(1) that show ?thesis by (simp add: naf_conn_schedulekill_def)
      next
        case (Some f)
        have "nb_fdlist (oe_nb e) (snd (nb_setcloseonflush (oe_nb e) f (cs_nb st))) = ?l"
          using a(1) by (simp add: oscar_good_def nb_marks_def)
        from oscar_good_nb [OF a(1) this] x Some that show ?thesis
          by (simp add: naf_conn_schedulekill_def case_prod_beta)
      qed
      with Some s sa 2 ans show ?thesis
        by (simp add: rpc_oscar_disconnectuser_def toscar__force_disconnect_def findconn_is_find)
    qed
  qed
qed

interpretation disconnectuser_method: rpc_method "oscar_good e" "rpc_oscar_disconnectuser e" for e
  by unfold_locales (rule disconnectuser_answers)

end
