(* ===== verification/Net.thy ===== *)
theory Net
  imports Config Admin
begin

text \<open>
  Network interfaces and routes of the user-space network stack, \<^verbatim>\<open>naf/ipv4/net.c\<close> and the first half of
  \<^verbatim>\<open>naf/ipv4/ipv4.c\<close>. An interface is identified by its address. \<open>useipv4\<close> says whether the code is built
  with \<^verbatim>\<open>NAFNET_USE_IPV4\<close>, which nothing in the repository defines, and \<open>aton\<close> is \<^verbatim>\<open>inet_aton\<close>, whose result
  is the address in network byte order, read as a number of the little-endian host.
\<close>

section \<open>Data\<close>

abbreviation (input) NAFNET_AF_INET :: naf_u16_t where "NAFNET_AF_INET \<equiv> 0"
abbreviation (input) NAFNET_MAXIFNAMELEN :: nat where "NAFNET_MAXIFNAMELEN \<equiv> 16"
abbreviation (input) NAFNET_IFFLAG_NONE :: naf_u32_t where "NAFNET_IFFLAG_NONE \<equiv> 0x00000000"
abbreviation (input) NAFNET_IFFLAG_UP :: naf_u32_t where "NAFNET_IFFLAG_UP \<equiv> 0x00000001"
abbreviation (input) NAFNET_MTU_DEFAULT :: naf_u16_t where "NAFNET_MTU_DEFAULT \<equiv> 1500"
abbreviation (input) sizeof_nafnet_if :: nat where "sizeof_nafnet_if \<equiv> 64"
abbreviation (input) sizeof_nafnet_ifaddr :: nat where "sizeof_nafnet_ifaddr \<equiv> 32"
abbreviation (input) sizeof_nafnet_rt :: nat where "sizeof_nafnet_rt \<equiv> 48"

record nafnet_ifaddr =
  ifa_type :: naf_u16_t
  ifaa_ipv4_addr :: naf_u32_t
  ifaa_ipv4_mask :: naf_u32_t

text \<open>A name that fills its array has no terminator.\<close>

record nafnet_if =
  if_self :: nat
  if_name :: bytes
  if_flags :: naf_u32_t
  if_mtu :: naf_u16_t
  if_addrs :: "nafnet_ifaddr list"
  if_owner :: nafmod
  if_outputf :: "nat option"

record nafnet_rt =
  rt_dest :: naf_u32_t
  rt_gw :: naf_u32_t
  rt_mask :: naf_u32_t
  rt_flags :: naf_u16_t
  rt_metric :: naf_u16_t
  rt_if :: "nat option"

record netstate =
  net_iflist :: "nafnet_if list"
  net_routetable :: "nafnet_rt list"
  net_next :: nat

definition if_cname :: "nafnet_if \<Rightarrow> bytes option" where
  "if_cname nif = (if length (if_name nif) < NAFNET_MAXIFNAMELEN then Some (if_name nif) else None)"

section \<open>Routes\<close>

type_synonym rtkey = "naf_u32_t \<times> naf_u32_t \<times> naf_u32_t \<times> naf_u16_t"

definition rt_matches :: "rtkey \<Rightarrow> nafnet_rt \<Rightarrow> bool" where
  "rt_matches k rt \<longleftrightarrow> (rt_dest rt, rt_gw rt, rt_mask rt, rt_metric rt) = k"

fun route_find :: "rtkey \<Rightarrow> nafnet_rt list \<Rightarrow> nafnet_rt option" where
  "route_find k [] = None"
| "route_find k (rt # rest) = (if rt_matches k rt then Some rt else route_find k rest)"

definition naf_ipv4_route_find ::
    "naf_u32_t \<Rightarrow> naf_u32_t \<Rightarrow> naf_u32_t \<Rightarrow> naf_u16_t \<Rightarrow> 'z netstate_scheme \<Rightarrow> nafnet_rt option" where
  "naf_ipv4_route_find dest gw nmask metric st = route_find (dest, gw, nmask, metric) (net_routetable st)"

definition naf_ipv4_getroute :: "naf_u32_t \<Rightarrow> 'z netstate_scheme \<Rightarrow> nafnet_rt option" where
  "naf_ipv4_getroute addr st = (case net_routetable st of [] \<Rightarrow> None | rt # _ \<Rightarrow> Some rt)"

fun route_unlink :: "rtkey \<Rightarrow> nafnet_rt list \<Rightarrow> nafnet_rt option \<times> nafnet_rt list" where
  "route_unlink k [] = (None, [])"
| "route_unlink k (rtc # rest) =
     (if rt_matches k rtc then (Some rtc, rest)
      else (let (r, rest) = route_unlink k rest in (r, rtc # rest)))"

definition naf_ipv4_route_rem ::
    "naf_u32_t \<Rightarrow> naf_u32_t \<Rightarrow> naf_u32_t \<Rightarrow> naf_u16_t \<Rightarrow> 'z netstate_scheme \<Rightarrow> int \<times> 'z netstate_scheme" where
  "naf_ipv4_route_rem dest gw nmask metric st =
     (let (r, l) = route_unlink (dest, gw, nmask, metric) (net_routetable st)
      in (if r = None then -1 else 0, st\<lparr>net_routetable := l\<rparr>))"

text \<open>Without an interface the first one of the list is taken.\<close>

definition naf_ipv4_route_add ::
    "allocator \<Rightarrow> naf_u32_t \<Rightarrow> naf_u32_t \<Rightarrow> naf_u32_t \<Rightarrow> naf_u16_t \<Rightarrow> naf_u16_t \<Rightarrow> nat option \<Rightarrow> 'z netstate_scheme
       \<Rightarrow> int \<times> 'z netstate_scheme" where
  "naf_ipv4_route_add mal dest gw nmask flags metric nif st =
     (if naf_ipv4_route_find dest gw nmask metric st \<noteq> None then (-1, st)
      else if mal sizeof_nafnet_rt = None then (-1, st)
      else (let via = (case nif of
                         Some i \<Rightarrow> Some i
                       | None \<Rightarrow> (case net_iflist st of [] \<Rightarrow> None | i # _ \<Rightarrow> Some (if_self i)));
                rt = \<lparr>rt_dest = dest, rt_gw = gw, rt_mask = nmask, rt_flags = flags, rt_metric = metric, rt_if = via\<rparr>
            in (0, st\<lparr>net_routetable := rt # net_routetable st\<rparr>)))"

definition naf_ipv4_event_ifup :: "allocator \<Rightarrow> nafnet_if \<Rightarrow> 'z netstate_scheme \<Rightarrow> 'z netstate_scheme" where
  "naf_ipv4_event_ifup mal nif st =
     fold (\<lambda>ifa st. if ifa_type ifa \<noteq> NAFNET_AF_INET then st
       else snd (naf_ipv4_route_add mal (ifaa_ipv4_addr ifa AND ifaa_ipv4_mask ifa) 0 (ifaa_ipv4_mask ifa) 0 0
         (Some (if_self nif)) st)) (if_addrs nif) st"

definition naf_ipv4_event_ifdown :: "nafnet_if \<Rightarrow> 'z netstate_scheme \<Rightarrow> 'z netstate_scheme" where
  "naf_ipv4_event_ifdown nif st =
     fold (\<lambda>ifa st. if ifa_type ifa \<noteq> NAFNET_AF_INET then st
       else snd (naf_ipv4_route_rem (ifaa_ipv4_addr ifa AND ifaa_ipv4_mask ifa) 0 (ifaa_ipv4_mask ifa) 0 st)) (if_addrs nif) st"

section \<open>Interfaces\<close>

definition mkpname :: "bytes \<Rightarrow> bytes list \<Rightarrow> bytes" where
  "mkpname p0 ps = cstr ''interface['' @ p0 @ [0x5d] @ concat (map (\<lambda>cp. [0x5b] @ cp @ [0x5d]) ps)"

definition naf_net_if_addr_remallbytype :: "naf_u16_t \<Rightarrow> nafnet_if \<Rightarrow> nafnet_if" where
  "naf_net_if_addr_remallbytype type nif = nif\<lparr>if_addrs := filter (\<lambda>ifac. ifa_type ifac \<noteq> type) (if_addrs nif)\<rparr>"

definition naf_net_if_addr_add_ipv4 :: "bool \<Rightarrow> allocator \<Rightarrow> naf_u32_t \<Rightarrow> naf_u32_t \<Rightarrow> nafnet_if \<Rightarrow> int \<times> nafnet_if" where
  "naf_net_if_addr_add_ipv4 useipv4 mal addr nmask nif =
     (if \<not> useipv4 then (0, nif)
      else if mal sizeof_nafnet_ifaddr = None then (-1, nif)
      else (0, nif\<lparr>if_addrs := \<lparr>ifa_type = NAFNET_AF_INET, ifaa_ipv4_addr = addr, ifaa_ipv4_mask = nmask\<rparr> # if_addrs nif\<rparr>))"

definition classmask :: "32 word \<Rightarrow> 32 word" where
  "classmask a =
     (if a AND 0x80000000 \<noteq> 0 then if a AND 0x40000000 \<noteq> 0 then 0xffffff00 else 0xffff0000 else 0xff000000)"

definition if_configure_ipv4 ::
    "bool \<Rightarrow> allocator \<Rightarrow> (bytes \<Rightarrow> 32 word option) \<Rightarrow> (bytes \<Rightarrow> bytes option) \<Rightarrow> bytes \<Rightarrow> nafnet_if \<Rightarrow> nafnet_if" where
  "if_configure_ipv4 useipv4 mal aton parm name nif =
     (if \<not> useipv4 then nif
      else
        let addr = (\<lambda>p. case Option.bind (parm p) aton of None \<Rightarrow> 0 | Some a \<Rightarrow> a);
            ina = addr (mkpname name [cstr ''ipv4'', cstr ''address'']);
            inam = addr (mkpname name [cstr ''ipv4'', cstr ''mask'']);
            inam = (if ina \<noteq> 0 \<and> inam = 0 then classmask ina else inam)
        in if ina = 0 \<or> inam = 0 then nif else snd (naf_net_if_addr_add_ipv4 useipv4 mal (ucast ina) (ucast inam) nif))"

definition if_configure_mtu :: "(bytes \<Rightarrow> bytes option) \<Rightarrow> bytes \<Rightarrow> nafnet_if \<Rightarrow> nafnet_if" where
  "if_configure_mtu parm name nif =
     (let nif = nif\<lparr>if_mtu := NAFNET_MTU_DEFAULT\<rparr>
      in case parm (mkpname name [cstr ''mtu'']) of
           None \<Rightarrow> nif
         | Some p \<Rightarrow> if atoi p = -1 then nif else nif\<lparr>if_mtu := word_of_int (atoi p)\<rparr>)"

text \<open>The interface, as it is in the list.\<close>

definition put_if :: "nafnet_if \<Rightarrow> 'z netstate_scheme \<Rightarrow> 'z netstate_scheme" where
  "put_if nif st = st\<lparr>net_iflist := map (\<lambda>i. if if_self i = if_self nif then nif else i) (net_iflist st)\<rparr>"

definition if_configure_state ::
    "allocator \<Rightarrow> (bytes \<Rightarrow> bytes option) \<Rightarrow> bytes \<Rightarrow> nafnet_if \<Rightarrow> 'z netstate_scheme \<Rightarrow> 'z netstate_scheme" where
  "if_configure_state mal parm name nif st =
     (let nstate :: int = (case parm (mkpname name [cstr ''state'']) of
                      None \<Rightarrow> -1
                    | Some p \<Rightarrow> (if strcasecmp_eq p (cstr ''up'') then 1 else if strcasecmp_eq p (cstr ''down'') then 0 else -1));
          up = if_flags nif AND NAFNET_IFFLAG_UP;
          nifup = nif\<lparr>if_flags := if_flags nif OR NAFNET_IFFLAG_UP\<rparr>;
          nifdown = nif\<lparr>if_flags := if_flags nif AND (NOT NAFNET_IFFLAG_UP)\<rparr>
      in if nstate = 1 \<and> up = 0 then naf_ipv4_event_ifup mal nifup (put_if nifup st)
         else if nstate = 0 \<and> up \<noteq> 0 then naf_ipv4_event_ifdown nifdown (put_if nifdown st)
         else put_if nif st)"

definition naf_net_if__configure ::
    "bool \<Rightarrow> allocator \<Rightarrow> (bytes \<Rightarrow> 32 word option) \<Rightarrow> 'c confstate_scheme \<Rightarrow> nafnet_if \<Rightarrow> 'z netstate_scheme
       \<Rightarrow> 'z netstate_scheme option" where
  "naf_net_if__configure useipv4 mal aton conf nif st = do {
     name \<leftarrow> if_cname nif;
     let parm = (\<lambda>pn. naf_config_getmodparmstr (Some (cstr ''net'')) (Some pn) conf);
     let nif = naf_net_if_addr_remallbytype NAFNET_AF_INET nif;
     let nif = if_configure_ipv4 useipv4 mal aton parm name nif;
     let nif = if_configure_mtu parm name nif;
     Some (if_configure_state mal parm name nif st)
   }"

fun reconfigureall_loop ::
    "bool \<Rightarrow> allocator \<Rightarrow> (bytes \<Rightarrow> 32 word option) \<Rightarrow> 'c confstate_scheme \<Rightarrow> nafnet_if list \<Rightarrow> 'z netstate_scheme
       \<Rightarrow> 'z netstate_scheme option" where
  "reconfigureall_loop useipv4 mal aton conf [] st = Some st"
| "reconfigureall_loop useipv4 mal aton conf (ifc # rest) st = do {
     st \<leftarrow> naf_net_if__configure useipv4 mal aton conf ifc st;
     reconfigureall_loop useipv4 mal aton conf rest st
   }"

definition naf_net_if__reconfigureall ::
    "bool \<Rightarrow> allocator \<Rightarrow> (bytes \<Rightarrow> 32 word option) \<Rightarrow> 'c confstate_scheme \<Rightarrow> 'z netstate_scheme
       \<Rightarrow> 'z netstate_scheme option" where
  "naf_net_if__reconfigureall useipv4 mal aton conf st = reconfigureall_loop useipv4 mal aton conf (net_iflist st) st"

fun if_find_loop :: "bytes \<Rightarrow> nafnet_if list \<Rightarrow> nafnet_if option option" where
  "if_find_loop ifname [] = Some None"
| "if_find_loop ifname (ifc # rest) = do {
     n \<leftarrow> if_cname ifc;
     if ifname = n then Some (Some ifc) else if_find_loop ifname rest
   }"

definition naf_net_if_find :: "bytes option \<Rightarrow> 'z netstate_scheme \<Rightarrow> nafnet_if option option" where
  "naf_net_if_find ifname st =
     (case ifname of
        None \<Rightarrow> Some (case net_iflist st of [] \<Rightarrow> None | i # _ \<Rightarrow> Some i)
      | Some n \<Rightarrow> if_find_loop n (net_iflist st))"

definition naf_net_if__alloc :: "allocator \<Rightarrow> nafmod \<Rightarrow> bytes \<Rightarrow> 'z netstate_scheme \<Rightarrow> nafnet_if option \<times> 'z netstate_scheme" where
  "naf_net_if__alloc mal md name st =
     (if mal sizeof_nafnet_if = None then (None, st)
      else (Some \<lparr>if_self = net_next st, if_name = take NAFNET_MAXIFNAMELEN name, if_flags = NAFNET_IFFLAG_NONE,
                  if_mtu = NAFNET_MTU_DEFAULT, if_addrs = [], if_owner = md, if_outputf = None\<rparr>,
            st\<lparr>net_next := Suc (net_next st)\<rparr>))"

text \<open>The name is the format of \<^verbatim>\<open>snprintf\<close>; only one \<^verbatim>\<open>%d\<close> has an argument.\<close>

definition ifname_format :: "bytes \<Rightarrow> nat \<Rightarrow> bytes option" where
  "ifname_format name n =
     (let pre = takeWhile (\<lambda>c. c \<noteq> 0x25) name; post = dropWhile (\<lambda>c. c \<noteq> 0x25) name
      in case post of
           _ # d # rest \<Rightarrow> if d = 0x64 \<and> 0x25 \<notin> set rest then Some (take (NAFNET_MAXIFNAMELEN - 1) (pre @ utoa n @ rest)) else None
         | _ \<Rightarrow> None)"

function allocif_loop :: "bytes \<Rightarrow> nat \<Rightarrow> 'z netstate_scheme \<Rightarrow> (bytes \<times> nat) option" where
  "allocif_loop name n st = do {
     nname \<leftarrow> ifname_format name n;
     if Suc n < 10
     then do {
       i \<leftarrow> naf_net_if_find (Some nname) st;
       if i \<noteq> None then allocif_loop name (Suc n) st else Some (nname, Suc n)
     }
     else Some (nname, Suc n)
   }"
  by pat_completeness auto
termination
  by (relation "measure (\<lambda>(name, n, st). 10 - n)") auto

declare allocif_loop.simps [simp del]

definition naf_net__allocif ::
    "allocator \<Rightarrow> nafmod \<Rightarrow> bytes \<Rightarrow> 'z netstate_scheme \<Rightarrow> (nafnet_if option \<times> 'z netstate_scheme) option" where
  "naf_net__allocif mal md name st =
     (if 0x25 \<notin> set name
      then do {
        i \<leftarrow> naf_net_if_find (Some name) st;
        Some (if i \<noteq> None then (None, st) else naf_net_if__alloc mal md name st)
      }
      else do {
        (nname, n) \<leftarrow> allocif_loop name 0 st;
        Some (if n = 10 then (None, st) else naf_net_if__alloc mal md nname st)
      })"

definition naf_net_if_add ::
    "bool \<Rightarrow> allocator \<Rightarrow> (bytes \<Rightarrow> 32 word option) \<Rightarrow> 'c confstate_scheme \<Rightarrow> nafmod option \<Rightarrow> bytes option \<Rightarrow> nat option
       \<Rightarrow> 'z netstate_scheme \<Rightarrow> (nat option \<times> 'z netstate_scheme) option" where
  "naf_net_if_add useipv4 mal aton conf md name outf st =
     (case (md, name, outf) of
        (Some md, Some name, Some outf) \<Rightarrow> do {
          (nif, st) \<leftarrow> naf_net__allocif mal md name st;
          case nif of
            None \<Rightarrow> Some (None, st)
          | Some nif \<Rightarrow> do {
              let nif = nif\<lparr>if_outputf := Some outf\<rparr>;
              let st = st\<lparr>net_iflist := nif # net_iflist st\<rparr>;
              st \<leftarrow> naf_net_if__configure useipv4 mal aton conf nif st;
              Some (Some (if_self nif), st)
            }
        }
      | _ \<Rightarrow> Some (None, st))"

text \<open>The routes of an interface that is removed stay.\<close>

definition naf_net_if_rem :: "nafmod option \<Rightarrow> nat option \<Rightarrow> 'z netstate_scheme \<Rightarrow> int \<times> 'z netstate_scheme" where
  "naf_net_if_rem md nif st =
     (case (md, nif) of
        (Some _, Some i) \<Rightarrow>
          (let (r, l) = unlink_first (\<lambda>ifc. if_self ifc = i) (net_iflist st)
           in (if r = None then -1 else 0, st\<lparr>net_iflist := l\<rparr>))
      | _ \<Rightarrow> (-1, st))"

section \<open>Remote methods\<close>

text \<open>\<open>ntoa\<close> is \<^verbatim>\<open>inet_ntoa\<close>.\<close>

definition rpc_net_ifconfig__addif ::
    "allocator \<Rightarrow> (32 word \<Rightarrow> bytes) \<Rightarrow> rpchead \<Rightarrow> bytes \<times> nafnet_if \<Rightarrow> rpcarg list \<Rightarrow> rpcarg list option" where
  "rpc_net_ifconfig__addif mal ntoa parent ni =
     (let (name, nif) = ni
      in rpc_in_array mal parent name (\<lambda>ifr as. do {
           as \<leftarrow> rpc_puts mal ifr [PutString (cstr ''name'') name,
             PutString (cstr ''state'') (if if_flags nif AND NAFNET_IFFLAG_UP \<noteq> 0 then cstr ''up'' else cstr ''down''),
             PutScalar (cstr ''flags'') (if_flags nif), PutScalar (cstr ''mtu'') (ucast (if_mtu nif))] as;
           rpc_for (\<lambda>ifa. if ifa_type ifa \<noteq> NAFNET_AF_INET then Some
             else rpc_in_array mal ifr (cstr ''ipv4'') (\<lambda>ifar. rpc_puts mal ifar
               [PutString (cstr ''address'') (ntoa (ucast (ifaa_ipv4_addr ifa))), PutString (cstr ''mask'') (ntoa (ucast (ifaa_ipv4_mask ifa)))]))
             (if_addrs nif) as
         }))"

text \<open>The interfaces with their names.\<close>

fun if_names :: "nafnet_if list \<Rightarrow> (bytes \<times> nafnet_if) list option" where
  "if_names [] = Some []"
| "if_names (i # is) = do { n \<leftarrow> if_cname i; ns \<leftarrow> if_names is; Some ((n, i) # ns) }"

definition rpc_net_ifconfig ::
    "allocator \<Rightarrow> (32 word \<Rightarrow> bytes) \<Rightarrow> rpcreq \<Rightarrow> 'z netstate_scheme \<Rightarrow> (rpcreq \<times> 'z netstate_scheme) option" where
  "rpc_net_ifconfig mal ntoa req st = do {
     ifname \<leftarrow> string_arg (rq_inargs req) (cstr ''ifname'');
     case ifname of
       None \<Rightarrow> rpc_status NAF_RPC_STATUS_INVALIDARGS req st
     | Some ifname \<Rightarrow> do {
         (ifs, as) \<leftarrow> naf_rpc_addarg_array mal [] (cstr ''interfaces'') (rq_returnargs req);
         let req = req\<lparr>rq_returnargs := as\<rparr>;
         case ifs of
           None \<Rightarrow> rpc_status NAF_RPC_STATUS_UNKNOWNFAILURE req st
         | Some ifs \<Rightarrow> do {
             sel \<leftarrow> (case ifname of
                       None \<Rightarrow> Some (net_iflist st)
                     | Some n \<Rightarrow> map_option (\<lambda>i. case i of None \<Rightarrow> [] | Some i \<Rightarrow> [i]) (naf_net_if_find (Some n) st));
             ns \<leftarrow> if_names sel;
             as \<leftarrow> rpc_for (rpc_net_ifconfig__addif mal ntoa ifs) ns as;
             rpc_status NAF_RPC_STATUS_SUCCESS (req\<lparr>rq_returnargs := as\<rparr>) st
           }
       }
   }"

text \<open>The routes with the names of their interfaces; one that is gone is a fault.\<close>

fun route_names :: "nafnet_if list \<Rightarrow> nafnet_rt list \<Rightarrow> (nafnet_rt \<times> bytes option) list option" where
  "route_names ifs [] = Some []"
| "route_names ifs (rt # rts) = do {
     name \<leftarrow> (case rt_if rt of
               None \<Rightarrow> Some None
             | Some i \<Rightarrow> do { nif \<leftarrow> List.find (\<lambda>nif. if_self nif = i) ifs; n \<leftarrow> if_cname nif; Some (Some n) });
     rest \<leftarrow> route_names ifs rts;
     Some ((rt, name) # rest)
   }"

definition rpc_ipv4_route ::
    "allocator \<Rightarrow> (32 word \<Rightarrow> bytes) \<Rightarrow> rpcreq \<Rightarrow> 'z netstate_scheme \<Rightarrow> (rpcreq \<times> 'z netstate_scheme) option" where
  "rpc_ipv4_route mal ntoa req st = do {
     (rts, as) \<leftarrow> naf_rpc_addarg_array mal [] (cstr ''routes'') (rq_returnargs req);
     let req = req\<lparr>rq_returnargs := as\<rparr>;
     case rts of
       None \<Rightarrow> rpc_status NAF_RPC_STATUS_UNKNOWNFAILURE req st
     | Some rts \<Rightarrow> do {
         rns \<leftarrow> route_names (net_iflist st) (net_routetable st);
         as \<leftarrow> rpc_for (\<lambda>(rt, name). rpc_in_array mal rts (ntoa (ucast (rt_dest rt))) (\<lambda>outer. rpc_puts mal outer
           ([PutString (cstr ''destination'') (ntoa (ucast (rt_dest rt))), PutString (cstr ''gateway'') (ntoa (ucast (rt_gw rt))),
             PutString (cstr ''mask'') (ntoa (ucast (rt_mask rt))), PutScalar (cstr ''flags'') (ucast (rt_flags rt)),
             PutScalar (cstr ''metric'') (ucast (rt_metric rt))] @ opt_string (cstr ''ifname'') name))) rns as;
         rpc_status NAF_RPC_STATUS_SUCCESS (req\<lparr>rq_returnargs := as\<rparr>) st
       }
   }"

section \<open>The route table as a keyed list\<close>

lemma rt_matches_excl: "rt_matches k rt \<Longrightarrow> rt_matches k' rt \<Longrightarrow> rt_matches k = rt_matches k'"
  by (auto simp: rt_matches_def)

lemma route_find_eq: "route_find k rts = List.find (rt_matches k) rts"
  by (induction rts) auto

lemma route_unlink_eq: "route_unlink k rts = unlink_first (rt_matches k) rts"
  by (induction rts) auto

interpretation rtl: keyed_list rt_matches "\<lambda>l. l" route_find route_unlink Cons
  by unfold_locales (auto simp: route_find_eq route_unlink_eq intro: rt_matches_excl)

lemma unique_by_find: "unique_by m xs \<Longrightarrow> a \<in> set xs \<Longrightarrow> m k a \<Longrightarrow> List.find (m k) xs = Some a"
  by (induction xs) (auto simp: unique_by_Cons)

lemma unique_by_distinct: "unique_by m xs \<Longrightarrow> (\<And>a. \<exists>k. m k a) \<Longrightarrow> distinct xs"
  by (induction xs) (auto simp: unique_by_Cons)

lemma find_distinct_key: "distinct (map f xs) \<Longrightarrow> a \<in> set xs \<Longrightarrow> List.find (\<lambda>x. f x = f a) xs = Some a"
  by (induction xs) auto

section \<open>The invariant\<close>

definition routes_ok :: "'z netstate_scheme \<Rightarrow> bool" where
  "routes_ok st \<longleftrightarrow> unique_by rt_matches (net_routetable st)"

definition ifs_ok :: "nat \<Rightarrow> nafnet_if list \<Rightarrow> bool" where
  "ifs_ok n ifs \<longleftrightarrow> distinct (map if_self ifs) \<and> distinct (map if_name ifs) \<and>
     (\<forall>nif \<in> set ifs. if_self nif < n \<and> length (if_name nif) < NAFNET_MAXIFNAMELEN)"

definition net_ok :: "'z netstate_scheme \<Rightarrow> bool" where
  "net_ok st \<longleftrightarrow> routes_ok st \<and> ifs_ok (net_next st) (net_iflist st)"

named_theorems net_keeps

lemma route_add_routes [net_keeps]: "routes_ok st \<Longrightarrow> routes_ok (snd (naf_ipv4_route_add mal d g m f c nif st))"
  using rtl.unique_push [of "net_routetable st" "(d, g, m, c)"]
  by (auto simp: routes_ok_def naf_ipv4_route_add_def naf_ipv4_route_find_def rt_matches_def Let_def)

lemma route_rem_routes [net_keeps]: "routes_ok st \<Longrightarrow> routes_ok (snd (naf_ipv4_route_rem d g m c st))"
  using rtl.unique_unlink [of "net_routetable st" "(d, g, m, c)"]
  by (simp add: routes_ok_def naf_ipv4_route_rem_def case_prod_beta)

lemma route_ops_ifs [simp]:
  "net_iflist (snd (naf_ipv4_route_add mal d g m f c nif st)) = net_iflist st"
  "net_next (snd (naf_ipv4_route_add mal d g m f c nif st)) = net_next st"
  "net_iflist (snd (naf_ipv4_route_rem d g m c st)) = net_iflist st"
  "net_next (snd (naf_ipv4_route_rem d g m c st)) = net_next st"
  by (simp_all add: naf_ipv4_route_add_def naf_ipv4_route_rem_def case_prod_beta Let_def)

lemma fold_keeps: "P st \<Longrightarrow> (\<And>x st. P st \<Longrightarrow> P (f x st)) \<Longrightarrow> P (fold f xs st)"
  by (induction xs arbitrary: st) auto

lemma events_ifs [simp]:
  "net_iflist (naf_ipv4_event_ifup mal nif st) = net_iflist st"
  "net_next (naf_ipv4_event_ifup mal nif st) = net_next st"
  "net_iflist (naf_ipv4_event_ifdown nif st) = net_iflist st"
  "net_next (naf_ipv4_event_ifdown nif st) = net_next st"
  unfolding naf_ipv4_event_ifup_def naf_ipv4_event_ifdown_def
  by (rule fold_keeps [where P = "\<lambda>s. net_iflist s = net_iflist st"] fold_keeps [where P = "\<lambda>s. net_next s = net_next st"];
    simp)+

lemma events_routes [net_keeps]:
  "routes_ok st \<Longrightarrow> routes_ok (naf_ipv4_event_ifup mal nif st)"
  "routes_ok st \<Longrightarrow> routes_ok (naf_ipv4_event_ifdown nif st)"
  unfolding naf_ipv4_event_ifup_def naf_ipv4_event_ifdown_def
  by (rule fold_keeps; simp add: net_keeps)+

lemma put_if_routes [simp]: "net_routetable (put_if nif st) = net_routetable st" "net_next (put_if nif st) = net_next st"
  by (simp_all add: put_if_def)

lemma put_if_ifs:
  assumes "ifs_ok n (net_iflist st)" "old \<in> set (net_iflist st)" "if_self nif = if_self old" "if_name nif = if_name old"
  shows "ifs_ok n (net_iflist (put_if nif st))"
proof -
  have same: "if_self i = if_self nif \<Longrightarrow> i = old" if "i \<in> set (net_iflist st)" for i
    using assms that unfolding ifs_ok_def by (metis inj_onD distinct_map)
  have "map if_self (net_iflist (put_if nif st)) = map if_self (net_iflist st)"
    "map if_name (net_iflist (put_if nif st)) = map if_name (net_iflist st)"
    using same assms(4) by (auto simp: put_if_def)
  moreover have "\<forall>i \<in> set (net_iflist (put_if nif st)). if_self i < n \<and> length (if_name i) < NAFNET_MAXIFNAMELEN"
    using assms unfolding ifs_ok_def by (auto simp: put_if_def)
  ultimately show ?thesis using assms(1) unfolding ifs_ok_def by simp
qed

lemma configure_same [simp]:
  "if_self (naf_net_if_addr_remallbytype t nif) = if_self nif" "if_name (naf_net_if_addr_remallbytype t nif) = if_name nif"
  "if_self (if_configure_ipv4 u mal aton parm name nif) = if_self nif"
  "if_name (if_configure_ipv4 u mal aton parm name nif) = if_name nif"
  "if_self (if_configure_mtu parm name nif) = if_self nif" "if_name (if_configure_mtu parm name nif) = if_name nif"
  by (simp_all add: naf_net_if_addr_remallbytype_def if_configure_ipv4_def naf_net_if_addr_add_ipv4_def if_configure_mtu_def
    Let_def split: option.split)

lemma events_net_ok:
  "net_ok st \<Longrightarrow> net_ok (naf_ipv4_event_ifup mal nif st)" "net_ok st \<Longrightarrow> net_ok (naf_ipv4_event_ifdown nif st)"
  by (simp_all add: net_ok_def net_keeps)

lemma configure_state_ok:
  assumes "net_ok st" "old \<in> set (net_iflist st)" "if_self nif = if_self old" "if_name nif = if_name old"
  shows "net_ok (if_configure_state mal parm name nif st)"
proof -
  have put: "net_ok (put_if nif' st)" if "if_self nif' = if_self old" "if_name nif' = if_name old" for nif'
    using assms(1) put_if_ifs [OF _ assms(2) that] by (simp add: net_ok_def routes_ok_def)
  show ?thesis using put assms(3,4) by (simp add: if_configure_state_def Let_def events_net_ok)
qed

lemma if_cname_Some: "if_cname nif = Some n \<longleftrightarrow> length (if_name nif) < NAFNET_MAXIFNAMELEN \<and> n = if_name nif"
  by (auto simp: if_cname_def)

lemma put_if_lists:
  "if_self i = if_self nif \<Longrightarrow> map if_self (net_iflist (put_if i st)) = map if_self (net_iflist st)"
  "if_self i = if_self nif \<Longrightarrow> x \<in> set (net_iflist st) \<Longrightarrow> if_self x \<noteq> if_self nif \<Longrightarrow> x \<in> set (net_iflist (put_if i st))"
  by (auto simp: put_if_def)

lemma put_if_here:
  assumes "nif \<in> set (net_iflist st)" "if_self m = if_self nif" "if_name m = n"
  shows "\<exists>m' \<in> set (net_iflist (put_if m st)). if_self m' = if_self nif \<and> if_name m' = n"
proof -
  have "m \<in> set (net_iflist (put_if m st))" using assms unfolding put_if_def by force
  with assms show ?thesis by blast
qed

lemma configure_state_lists:
  "if_self m = if_self nif \<Longrightarrow> map if_self (net_iflist (if_configure_state mal parm name m st)) = map if_self (net_iflist st)"
  "if_self m = if_self nif \<Longrightarrow> x \<in> set (net_iflist st) \<Longrightarrow> if_self x \<noteq> if_self nif \<Longrightarrow>
     x \<in> set (net_iflist (if_configure_state mal parm name m st))"
  "net_next (if_configure_state mal parm name m st) = net_next st"
  by (simp_all add: if_configure_state_def Let_def put_if_lists)

lemma configure_state_here:
  "nif \<in> set (net_iflist st) \<Longrightarrow> if_self m = if_self nif \<Longrightarrow>
     \<exists>m' \<in> set (net_iflist (if_configure_state mal parm name m st)). if_self m' = if_self nif \<and> if_name m' = if_name m"
  using put_if_here [of nif st m] put_if_here [of nif st "m\<lparr>if_flags := if_flags m OR NAFNET_IFFLAG_UP\<rparr>"]
    put_if_here [of nif st "m\<lparr>if_flags := if_flags m AND (NOT NAFNET_IFFLAG_UP)\<rparr>"]
  by (simp add: if_configure_state_def Let_def)

text \<open>Configuring an interface leaves the others as they are.\<close>

lemma configure_ok:
  assumes "net_ok st" "nif \<in> set (net_iflist st)"
  shows "\<exists>st'. naf_net_if__configure u mal aton conf nif st = Some st' \<and> net_ok st' \<and> net_next st' = net_next st \<and>
    map if_self (net_iflist st') = map if_self (net_iflist st) \<and>
    (\<exists>m \<in> set (net_iflist st'). if_self m = if_self nif \<and> if_name m = if_name nif) \<and>
    (\<forall>x \<in> set (net_iflist st). if_self x \<noteq> if_self nif \<longrightarrow> x \<in> set (net_iflist st'))"
proof -
  obtain m where m: "naf_net_if__configure u mal aton conf nif st =
      Some (if_configure_state mal (\<lambda>pn. naf_config_getmodparmstr (Some (cstr ''net'')) (Some pn) conf) (if_name nif) m st)"
    "if_self m = if_self nif" "if_name m = if_name nif"
    using assms by (auto simp: naf_net_if__configure_def if_cname_def net_ok_def ifs_ok_def Let_def)
  have "net_ok (if_configure_state mal parm name m st) \<and> net_next (if_configure_state mal parm name m st) = net_next st \<and>
      map if_self (net_iflist (if_configure_state mal parm name m st)) = map if_self (net_iflist st) \<and>
      (\<exists>m' \<in> set (net_iflist (if_configure_state mal parm name m st)). if_self m' = if_self nif \<and> if_name m' = if_name nif) \<and>
      (\<forall>x \<in> set (net_iflist st). if_self x \<noteq> if_self nif \<longrightarrow> x \<in> set (net_iflist (if_configure_state mal parm name m st)))"
    for parm name
    using configure_state_ok [OF assms m(2,3)] configure_state_here [OF assms(2) m(2)] m(2,3)
    by (auto simp: configure_state_lists)
  with m(1) show ?thesis by blast
qed

lemma reconfigureall_ok:
  assumes "net_ok st" "set ifs \<subseteq> set (net_iflist st)" "distinct (map if_self ifs)"
  shows "\<exists>st'. reconfigureall_loop u mal aton conf ifs st = Some st' \<and> net_ok st' \<and> net_next st' = net_next st \<and>
    map if_self (net_iflist st') = map if_self (net_iflist st)"
  using assms
proof (induction ifs arbitrary: st)
  case (Cons i ifs)
  then obtain st1 where 1: "naf_net_if__configure u mal aton conf i st = Some st1" "net_ok st1" "net_next st1 = net_next st"
    "map if_self (net_iflist st1) = map if_self (net_iflist st)"
    "\<forall>x \<in> set (net_iflist st). if_self x \<noteq> if_self i \<longrightarrow> x \<in> set (net_iflist st1)"
    using configure_ok [of st i u mal aton conf] by auto
  have "set ifs \<subseteq> set (net_iflist st1)"
  proof
    fix x assume x: "x \<in> set ifs"
    with Cons.prems(3) have "if_self x \<noteq> if_self i" by (metis distinct.simps(2) image_eqI list.set_map list.simps(9))
    with x Cons.prems(2) 1(5) show "x \<in> set (net_iflist st1)" by auto
  qed
  with Cons.IH [OF 1(2)] Cons.prems(3) 1 show ?case by simp
qed simp

lemma find_loop_eq:
  "\<forall>i \<in> set ifs. length (if_name i) < NAFNET_MAXIFNAMELEN \<Longrightarrow> if_find_loop n ifs = Some (List.find (\<lambda>i. if_name i = n) ifs)"
  by (induction ifs) (auto simp: if_cname_def)

lemma if_find_eq: "net_ok st \<Longrightarrow> naf_net_if_find (Some n) st = Some (List.find (\<lambda>i. if_name i = n) (net_iflist st))"
  by (simp add: naf_net_if_find_def find_loop_eq net_ok_def ifs_ok_def)

text \<open>The numbered names.\<close>

definition fmt_ok :: "bytes \<Rightarrow> bool" where
  "fmt_ok name \<longleftrightarrow>
     (case dropWhile (\<lambda>c. c \<noteq> 0x25) name of p # d # rest \<Rightarrow> d = 0x64 \<and> 0x25 \<notin> set rest | _ \<Rightarrow> False)"

definition if_numbered :: "bytes \<Rightarrow> nat \<Rightarrow> bytes" where
  "if_numbered name n = the (ifname_format name n)"

lemma ifname_format_cases:
  "ifname_format name n = (if fmt_ok name then Some (if_numbered name n) else None)"
proof -
  have aux: "(case D of p # d # rest \<Rightarrow> if d = 0x64 \<and> 0x25 \<notin> set rest then Some (f rest) else None | _ \<Rightarrow> None) = None \<longleftrightarrow>
      \<not> (case D of p # d # rest \<Rightarrow> d = 0x64 \<and> 0x25 \<notin> set rest | _ \<Rightarrow> False)" for D :: bytes and f :: "bytes \<Rightarrow> bytes"
    by (simp split: list.split)
  have "ifname_format name n = None \<longleftrightarrow> \<not> fmt_ok name"
    unfolding fmt_ok_def ifname_format_def Let_def by (rule aux)
  then show ?thesis by (auto simp: if_numbered_def)
qed

lemma ifname_format_length: "ifname_format name n = Some s \<Longrightarrow> length s < NAFNET_MAXIFNAMELEN"
  by (auto simp: ifname_format_def Let_def split: list.splits if_splits)

lemma ifname_format_numbered:
  assumes "ifname_format name k = Some s"
  shows "ifname_format name n = Some (if_numbered name n)" "length (if_numbered name n) < NAFNET_MAXIFNAMELEN"
proof -
  show "ifname_format name n = Some (if_numbered name n)"
    using assms ifname_format_cases [of name n] ifname_format_cases [of name k] by (simp split: if_splits)
  then show "length (if_numbered name n) < NAFNET_MAXIFNAMELEN" by (rule ifname_format_length)
qed

definition unused :: "'z netstate_scheme \<Rightarrow> bytes \<Rightarrow> bool" where
  "unused st n \<longleftrightarrow> n \<notin> if_name ` set (net_iflist st)"

lemma if_find_unused: "net_ok st \<Longrightarrow> naf_net_if_find (Some n) st = Some None \<longleftrightarrow> unused st n"
  by (auto simp: if_find_eq unused_def find_None_iff)

text \<open>The loop stops at the first of the numbers below nine whose name is not used, else at nine.\<close>

lemma allocif_loop_eq:
  assumes "net_ok st" "ifname_format name k = Some s"
  shows "n < 10 \<Longrightarrow> allocif_loop name n st =
    (case List.find (\<lambda>i. unused st (if_numbered name i)) [n..<9] of
       Some i \<Rightarrow> Some (if_numbered name i, Suc i) | None \<Rightarrow> Some (if_numbered name 9, 10))"
proof (induction "10 - n" arbitrary: n)
  case (Suc m)
  note f = ifname_format_numbered [OF assms(2)] and u = if_find_unused [OF assms(1)] if_find_eq [OF assms(1)]
  show ?case
  proof (cases "Suc n < 10")
    case True
    then have "[n..<9] = n # [Suc n..<9]" by (simp add: upt_rec)
    moreover have "allocif_loop name (Suc n) st = (case List.find (\<lambda>i. unused st (if_numbered name i)) [Suc n..<9] of
       Some i \<Rightarrow> Some (if_numbered name i, Suc i) | None \<Rightarrow> Some (if_numbered name 9, 10))" using Suc True by simp
    ultimately show ?thesis using True f(1) [of n] u(1) [of "if_numbered name n"] u(2) [of "if_numbered name n"]
      by (subst allocif_loop.simps) (cases "unused st (if_numbered name n)"; simp)
  next
    case False
    with Suc.prems have "n = 9" by simp
    then show ?thesis using f(1) [of 9] by (subst allocif_loop.simps) simp
  qed
qed simp

section \<open>Up and down\<close>

definition addr_key :: "nafnet_ifaddr \<Rightarrow> rtkey" where
  "addr_key ifa = (ifaa_ipv4_addr ifa AND ifaa_ipv4_mask ifa, 0, ifaa_ipv4_mask ifa, 0)"

definition addr_route :: "nafnet_if \<Rightarrow> nafnet_ifaddr \<Rightarrow> nafnet_rt" where
  "addr_route nif ifa = \<lparr>rt_dest = ifaa_ipv4_addr ifa AND ifaa_ipv4_mask ifa, rt_gw = 0, rt_mask = ifaa_ipv4_mask ifa,
     rt_flags = 0, rt_metric = 0, rt_if = Some (if_self nif)\<rparr>"

abbreviation inet_addrs :: "nafnet_if \<Rightarrow> nafnet_ifaddr list" where
  "inet_addrs nif \<equiv> filter (\<lambda>ifa. ifa_type ifa = NAFNET_AF_INET) (if_addrs nif)"

lemma addr_route_matches: "rt_matches k (addr_route nif ifa) \<longleftrightarrow> k = addr_key ifa"
  by (auto simp: rt_matches_def addr_route_def addr_key_def)

lemma addr_route_key: "addr_key a = addr_key b \<Longrightarrow> addr_route nif a = addr_route nif b"
  by (auto simp: addr_route_def addr_key_def)

lemma fold_skip: "fold (\<lambda>x. if \<not> P x then id else f x) xs st = fold f (filter P xs) st"
  by (induction xs arbitrary: st) auto

lemma ifup_fold: "naf_ipv4_event_ifup mal nif st =
    fold (\<lambda>ifa st. case addr_key ifa of (d, g, m, c) \<Rightarrow> snd (naf_ipv4_route_add mal d g m 0 c (Some (if_self nif)) st))
      (inet_addrs nif) st"
  unfolding naf_ipv4_event_ifup_def fold_skip [symmetric]
  by (rule arg_cong [where f = "\<lambda>f. fold f (if_addrs nif) st"]) (auto simp: addr_key_def fun_eq_iff)

lemma ifdown_fold: "naf_ipv4_event_ifdown nif st =
    fold (\<lambda>ifa st. case addr_key ifa of (d, g, m, c) \<Rightarrow> snd (naf_ipv4_route_rem d g m c st)) (inet_addrs nif) st"
  unfolding naf_ipv4_event_ifdown_def fold_skip [symmetric]
  by (rule arg_cong [where f = "\<lambda>f. fold f (if_addrs nif) st"]) (auto simp: addr_key_def fun_eq_iff)

lemma ifup_routes:
  assumes "total_alloc mal"
  shows "distinct (map addr_key ifas) \<Longrightarrow> \<forall>ifa \<in> set ifas. route_find (addr_key ifa) (net_routetable st) = None \<Longrightarrow>
    fold (\<lambda>ifa st. case addr_key ifa of (d, g, m, c) \<Rightarrow> snd (naf_ipv4_route_add mal d g m 0 c (Some (if_self nif)) st)) ifas st =
      st\<lparr>net_routetable := rev (map (addr_route nif) ifas) @ net_routetable st\<rparr>"
proof (induction ifas arbitrary: st)
  case (Cons ifa ifas)
  let ?st1 = "st\<lparr>net_routetable := addr_route nif ifa # net_routetable st\<rparr>"
  have "(case addr_key ifa of (d, g, m, c) \<Rightarrow> snd (naf_ipv4_route_add mal d g m 0 c (Some (if_self nif)) st)) = ?st1"
    using Cons.prems(2) total_allocD(2) [OF assms, of sizeof_nafnet_rt]
    by (auto simp: naf_ipv4_route_add_def naf_ipv4_route_find_def addr_key_def addr_route_def)
  moreover have "\<forall>i \<in> set ifas. route_find (addr_key i) (net_routetable ?st1) = None"
  proof
    fix i assume i: "i \<in> set ifas"
    with Cons.prems(1) have "addr_key i \<noteq> addr_key ifa" by (metis distinct.simps(2) image_eqI list.set_map list.simps(9))
    with i Cons.prems(2) show "route_find (addr_key i) (net_routetable ?st1) = None" by (simp add: addr_route_matches)
  qed
  ultimately show ?case using Cons.IH [of ?st1] Cons.prems(1) by simp
qed simp

lemma ifdown_routes:
  "distinct (map addr_key ifas) \<Longrightarrow> net_routetable st = rev (map (addr_route nif) ifas) @ rts \<Longrightarrow>
    fold (\<lambda>ifa st. case addr_key ifa of (d, g, m, c) \<Rightarrow> snd (naf_ipv4_route_rem d g m c st)) ifas st = st\<lparr>net_routetable := rts\<rparr>"
proof (induction ifas arbitrary: st)
  case (Cons ifa ifas)
  let ?L = "rev (map (addr_route nif) ifas)"
  have unlink: "snd (unlink_first (rt_matches (addr_key ifa)) (l @ addr_route nif ifa # rts)) = l @ rts"
    if "\<forall>r \<in> set l. \<not> rt_matches (addr_key ifa) r" for l
    using that by (induction l) (auto simp: addr_route_matches case_prod_beta)
  have "\<forall>r \<in> set ?L. \<not> rt_matches (addr_key ifa) r" using Cons.prems(1) by (force simp: addr_route_matches)
  then have "snd (unlink_first (rt_matches (addr_key ifa)) (?L @ addr_route nif ifa # rts)) = ?L @ rts" by (rule unlink)
  then have "(case addr_key ifa of (d, g, m, c) \<Rightarrow> snd (naf_ipv4_route_rem d g m c st)) = st\<lparr>net_routetable := ?L @ rts\<rparr>"
    using Cons.prems(2) by (auto simp: naf_ipv4_route_rem_def route_unlink_eq case_prod_beta split: prod.split)
  then show ?case using Cons.IH [of "st\<lparr>net_routetable := ?L @ rts\<rparr>"] Cons.prems(1) by simp
qed simp

text \<open>Bringing an interface up gives each of its networks, when they are different and not yet in the table, a
  route through it that is found, and touches no other route; taking it down again leaves the table as it was
  before.\<close>

theorem ifup_ifdown:
  assumes "total_alloc mal" "distinct (map addr_key (inet_addrs nif))"
    and "\<forall>ifa \<in> set (inet_addrs nif). route_find (addr_key ifa) (net_routetable st) = None"
  shows "naf_ipv4_event_ifdown nif (naf_ipv4_event_ifup mal nif st) = st \<and>
    (\<forall>ifa \<in> set (inet_addrs nif). route_find (addr_key ifa) (net_routetable (naf_ipv4_event_ifup mal nif st)) =
      Some (addr_route nif ifa)) \<and>
    (\<forall>k. k \<notin> addr_key ` set (inet_addrs nif) \<longrightarrow>
      route_find k (net_routetable (naf_ipv4_event_ifup mal nif st)) = route_find k (net_routetable st))"
proof (intro conjI ballI allI impI)
  let ?L = "rev (map (addr_route nif) (inet_addrs nif))"
  have up: "naf_ipv4_event_ifup mal nif st = st\<lparr>net_routetable := ?L @ net_routetable st\<rparr>"
    unfolding ifup_fold by (rule ifup_routes [OF assms])
  show "naf_ipv4_event_ifdown nif (naf_ipv4_event_ifup mal nif st) = st"
    unfolding up ifdown_fold using ifdown_routes [OF assms(2), where nif = nif and st = "st\<lparr>net_routetable := ?L @ net_routetable st\<rparr>"] by simp
  have find: "List.find P (xs @ ys) = (case List.find P xs of None \<Rightarrow> List.find P ys | r \<Rightarrow> r)" for P :: "nafnet_rt \<Rightarrow> bool" and xs ys
    by (induction xs) auto
  show "route_find (addr_key ifa) (net_routetable (naf_ipv4_event_ifup mal nif st)) = Some (addr_route nif ifa)"
    if "ifa \<in> set (inet_addrs nif)" for ifa
  proof -
    have "\<exists>r. List.find (rt_matches (addr_key ifa)) ?L = Some r"
      using that by (auto simp: find_None_iff addr_route_matches simp flip: not_None_eq)
    then obtain r where r: "List.find (rt_matches (addr_key ifa)) ?L = Some r" by blast
    then have "r \<in> set ?L" "rt_matches (addr_key ifa) r" by (metis find_Some_iff nth_mem)+
    then obtain x where "r = addr_route nif x" by auto
    with addr_route_key [of ifa x nif] \<open>rt_matches (addr_key ifa) r\<close> have "r = addr_route nif ifa"
      by (simp add: addr_route_matches)
    with r show ?thesis by (simp add: up route_find_eq find)
  qed
  show "route_find k (net_routetable (naf_ipv4_event_ifup mal nif st)) = route_find k (net_routetable st)"
    if "k \<notin> addr_key ` set (inet_addrs nif)" for k
  proof -
    have "List.find (rt_matches k) ?L = None" using that by (auto simp: find_None_iff addr_route_matches)
    then show ?thesis by (simp add: up route_find_eq find)
  qed
qed

definition sample_if :: nafnet_if where
  "sample_if = \<lparr>if_self = 0, if_name = cstr ''tun0'', if_flags = 0, if_mtu = 1500,
     if_addrs = [\<lparr>ifa_type = 0, ifaa_ipv4_addr = 0x0a000001, ifaa_ipv4_mask = 0xff000000\<rparr>,
       \<lparr>ifa_type = 0, ifaa_ipv4_addr = 0xc0a80101, ifaa_ipv4_mask = 0xffffff00\<rparr>],
     if_owner = 0, if_outputf = Some 1\<rparr>"

definition net_init :: netstate where
  "net_init = \<lparr>net_iflist = [], net_routetable = [], net_next = 0\<rparr>"

theorem ifup_ifdown_witness:
  "naf_ipv4_event_ifdown sample_if (naf_ipv4_event_ifup zero_alloc sample_if net_init) = net_init"
proof -
  have "distinct (map addr_key (inet_addrs sample_if))" by (simp add: sample_if_def addr_key_def)
  with ifup_ifdown [OF total_zero_alloc, of sample_if net_init] show ?thesis by (simp add: net_init_def)
qed

section \<open>Every state that the stack can reach\<close>

lemma net_if_new:
  assumes "net_ok st" "length n < NAFNET_MAXIFNAMELEN" "unused st n" "if_self nif = net_next st" "if_name nif = n"
  shows "net_ok (st\<lparr>net_next := Suc (net_next st), net_iflist := nif # net_iflist st\<rparr>)"
  using assms by (fastforce simp: net_ok_def routes_ok_def ifs_ok_def unused_def)

text \<open>What \<^verbatim>\<open>naf_net__allocif\<close> gives.\<close>

lemma allocif_cases:
  assumes "net_ok st" "naf_net__allocif mal md name st = Some (r, st1)"
  obtains (no) "r = None" "st1 = st"
    | (new) nif where "r = Some nif" "st1 = st\<lparr>net_next := Suc (net_next st)\<rparr>" "if_self nif = net_next st"
        "unused st (if_name nif) \<or> NAFNET_MAXIFNAMELEN \<le> length (if_name nif)"
proof (cases "0x25 \<in> set name")
  case False
  with assms if_find_unused [OF assms(1), of name] show ?thesis
    by (auto simp: naf_net__allocif_def naf_net_if__alloc_def bind_eq_Some_conv simp del: not_None_eq split: if_splits
      intro: that)
next
  case True
  with assms(2) obtain nname n where l: "allocif_loop name 0 st = Some (nname, n)"
    and r: "(r, st1) = (if n = 10 then (None, st) else naf_net_if__alloc mal md nname st)"
    by (auto simp: naf_net__allocif_def bind_eq_Some_conv)
  from l obtain s where s: "ifname_format name 0 = Some s"
    by (subst (asm) allocif_loop.simps) (auto simp: bind_eq_Some_conv)
  have "unused st nname" if "n \<noteq> 10"
    using l that allocif_loop_eq [OF assms(1) s, of 0] by (auto simp: find_Some_iff split: option.splits)
  then show ?thesis
    using r that by (cases "NAFNET_MAXIFNAMELEN \<le> length nname") (auto simp: naf_net_if__alloc_def split: if_splits)
qed

text \<open>A name that does not fit is a fault as soon as the interface is configured.\<close>

lemma if_add_ok:
  assumes "net_ok st" "naf_net_if_add u mal aton conf md name outf st = Some (r, st')"
  shows "net_ok st'"
proof -
  consider "st' = st" | m n f x st1 where "md = Some m" "name = Some n" "outf = Some f"
      "naf_net__allocif mal m n st = Some (x, st1)"
      "(case x of None \<Rightarrow> Some (None, st1)
        | Some nif \<Rightarrow> do {
            let nif = nif\<lparr>if_outputf := Some f\<rparr>;
            let st = st1\<lparr>net_iflist := nif # net_iflist st1\<rparr>;
            st \<leftarrow> naf_net_if__configure u mal aton conf nif st;
            Some (Some (if_self nif), st)
          }) = Some (r, st')"
    using assms(2) by (auto simp: naf_net_if_add_def bind_eq_Some_conv split: option.splits)
  then show ?thesis
  proof cases
    case 1
    with assms(1) show ?thesis by simp
  next
    case 2
    from assms(1) 2(4) show ?thesis
    proof (cases rule: allocif_cases)
      case no
      with 2(5) assms(1) show ?thesis by simp
    next
      case (new nif)
      let ?nif = "nif\<lparr>if_outputf := Some f\<rparr>"
      let ?st2 = "st\<lparr>net_next := Suc (net_next st), net_iflist := ?nif # net_iflist st\<rparr>"
      from 2(5) new(1,2) have c: "naf_net_if__configure u mal aton conf ?nif ?st2 = Some st'"
        by (auto simp: bind_eq_Some_conv Let_def)
      then have "length (if_name nif) < NAFNET_MAXIFNAMELEN"
        by (auto simp: naf_net_if__configure_def bind_eq_Some_conv if_cname_def split: if_splits)
      with new have "net_ok ?st2" by (intro net_if_new [OF assms(1)]) auto
      with configure_ok [of ?st2 ?nif u mal aton conf] c show ?thesis by auto
    qed
  qed
qed

lemma if_rem_ok: "net_ok st \<Longrightarrow> net_ok (snd (naf_net_if_rem md nif st))"
proof -
  assume ok: "net_ok st"
  have "ifs_ok n (snd (unlink_first P ifs))" if "ifs_ok n ifs" for n P ifs
    using that set_unlink_first [of P ifs] distinct_unlink_first [of if_self ifs P] distinct_unlink_first [of if_name ifs P]
    by (auto simp: ifs_ok_def)
  with ok show ?thesis
    by (auto simp: naf_net_if_rem_def net_ok_def routes_ok_def case_prod_beta split: option.split)
qed

inductive net_step ::
    "bool \<Rightarrow> allocator \<Rightarrow> (bytes \<Rightarrow> 32 word option) \<Rightarrow> netstate \<Rightarrow> netstate \<Rightarrow> bool" for u mal aton where
  add: "naf_net_if_add u mal aton (conf :: confstate) md name outf st = Some (r, st') \<Longrightarrow> net_step u mal aton st st'"
| remove: "naf_net_if_rem md nif st = (r, st') \<Longrightarrow> net_step u mal aton st st'"
| configure: "naf_net_if__reconfigureall u mal aton (conf :: confstate) st = Some st' \<Longrightarrow> net_step u mal aton st st'"

lemma net_init_ok: "net_ok net_init"
  by (simp add: net_ok_def routes_ok_def ifs_ok_def net_init_def unique_by_def)

lemma net_step_ok: "net_step u mal aton st st' \<Longrightarrow> net_ok st \<Longrightarrow> net_ok st'"
proof (induction rule: net_step.induct)
  case (add conf md name outf st r st')
  then show ?case by (blast intro: if_add_ok)
next
  case (remove md nif st r st')
  then show ?case using if_rem_ok [of st md nif] by simp
next
  case (configure conf st st')
  then show ?case using reconfigureall_ok [of st "net_iflist st" u mal aton conf]
    by (auto simp: naf_net_if__reconfigureall_def net_ok_def ifs_ok_def)
qed

lemma net_reachable_ok: "(net_step u mal aton)\<^sup>*\<^sup>* net_init st \<Longrightarrow> net_ok st"
  by (induction rule: rtranclp_induct) (auto intro: net_init_ok net_step_ok)

text \<open>C25. However interfaces are added and removed and the configuration changes: the route table never holds
  two routes for the same network, gateway and metric, so that every route is the one that is found for its
  key; every interface is found under its name, no two have the same; and reading the configuration again is
  never a fault.\<close>

theorem net_reachable_sound:
  assumes "(net_step u mal aton)\<^sup>*\<^sup>* net_init st"
  shows "(\<forall>rt \<in> set (net_routetable st).
      naf_ipv4_route_find (rt_dest rt) (rt_gw rt) (rt_mask rt) (rt_metric rt) st = Some rt) \<and> distinct (net_routetable st) \<and>
    (\<forall>nif \<in> set (net_iflist st). naf_net_if_find (Some (if_name nif)) st = Some (Some nif)) \<and>
    distinct (map if_name (net_iflist st)) \<and>
    (\<exists>st'. naf_net_if__reconfigureall u mal aton (conf :: confstate) st = Some st' \<and>
      map if_self (net_iflist st') = map if_self (net_iflist st))"
proof (intro conjI ballI)
  note ok = net_reachable_ok [OF assms]
  from ok have u: "unique_by rt_matches (net_routetable st)" by (simp add: net_ok_def routes_ok_def)
  show "naf_ipv4_route_find (rt_dest rt) (rt_gw rt) (rt_mask rt) (rt_metric rt) st = Some rt"
    if "rt \<in> set (net_routetable st)" for rt
    using unique_by_find [OF u that] by (simp add: naf_ipv4_route_find_def route_find_eq rt_matches_def)
  show "distinct (net_routetable st)" by (rule unique_by_distinct [OF u]) (auto simp: rt_matches_def)
  show "naf_net_if_find (Some (if_name nif)) st = Some (Some nif)" if "nif \<in> set (net_iflist st)" for nif
    unfolding if_find_eq [OF ok] using that ok by (simp add: net_ok_def ifs_ok_def find_distinct_key)
  show "distinct (map if_name (net_iflist st))" using ok by (simp add: net_ok_def ifs_ok_def)
  show "\<exists>st'. naf_net_if__reconfigureall u mal aton conf st = Some st' \<and>
      map if_self (net_iflist st') = map if_self (net_iflist st)"
    using reconfigureall_ok [OF ok, of "net_iflist st" u mal aton conf] ok
    by (auto simp: naf_net_if__reconfigureall_def net_ok_def ifs_ok_def)
qed


definition sample_netconf :: confstate where
  "sample_netconf = \<lparr>cf_parmlist =
     [\<lparr>pm_parm = cstr ''module.net.interface[tun0][state]'', pm_val = Some (cstr ''up'')\<rparr>,
      \<lparr>pm_parm = cstr ''module.net.interface[tun0][ipv4][address]'', pm_val = Some (cstr ''10.0.0.1'')\<rparr>],
     cf_conffilename = None\<rparr>"

definition sample_aton :: "bytes \<Rightarrow> 32 word option" where
  "sample_aton s = (if s = cstr ''10.0.0.1'' then Some 0x0100000a else None)"

definition sample_net :: netstate where
  "sample_net =
     \<lparr>net_iflist = [\<lparr>if_self = 0, if_name = cstr ''tun0'', if_flags = 1, if_mtu = 1500,
        if_addrs = [\<lparr>ifa_type = 0, ifaa_ipv4_addr = 0x0100000a, ifaa_ipv4_mask = 0xff000000\<rparr>],
        if_owner = 0, if_outputf = Some 1\<rparr>],
      net_routetable = [\<lparr>rt_dest = 0x01000000, rt_gw = 0, rt_mask = 0xff000000, rt_flags = 0, rt_metric = 0, rt_if = Some 0\<rparr>],
      net_next = 1\<rparr>"

lemma add_sample:
  "naf_net_if_add True zero_alloc sample_aton sample_netconf (Some 0) (Some (cstr ''tun%d'')) (Some 1) net_init =
     Some (Some 0, sample_net)"
  by code_simp

lemma sample_net_reachable: "(net_step True zero_alloc sample_aton)\<^sup>*\<^sup>* net_init sample_net"
  using net_step.add [OF add_sample] by (rule r_into_rtranclp)

theorem net_reachable_sound_witness:
  "naf_ipv4_route_find 0x01000000 0 0xff000000 0 sample_net = Some (hd (net_routetable sample_net)) \<and>
   naf_net_if_find (Some (cstr ''tun0'')) sample_net = Some (Some (hd (net_iflist sample_net)))"
  using net_reachable_sound [OF sample_net_reachable, of sample_netconf] by (simp add: sample_net_def)

text \<open>The address that is read is in network byte order, the made-up mask in the order of the host: the network of
  \<^verbatim>\<open>10.0.0.1\<close> in \<open>sample_net\<close> is \<^verbatim>\<open>0.0.0.1\<close> under the mask \<^verbatim>\<open>0.0.0.255\<close>.\<close>

text \<open>An interface that is removed leaves its routes, which point to memory that is gone: asking for the table is
  then a fault.\<close>

lemma dangling_route:
  assumes "naf_rpc_addarg_array mal [] (cstr ''routes'') (rq_returnargs req) = Some (Some rts, as)"
  shows "rpc_ipv4_route mal ntoa req (snd (naf_net_if_rem (Some 0) (Some 0) sample_net)) = None"
  using assms by (simp add: rpc_ipv4_route_def naf_net_if_rem_def sample_net_def)

section \<open>Numbered interfaces\<close>

text \<open>An interface whose name is a pattern gets the lowest of the numbers below nine whose name is not used, is
  put in front of the list and is found under that name from then on; when all nine are used the call fails and
  changes nothing, so that the tenth number of the loop is never given.\<close>

theorem numbered_interface:
  assumes "total_alloc mal" "fmt_ok name" "(net_step u mal aton)\<^sup>*\<^sup>* net_init st"
  shows "case List.find (\<lambda>i. unused st (if_numbered name i)) [0..<9] of
      None \<Rightarrow> naf_net_if_add u mal aton (conf :: confstate) (Some md) (Some name) (Some outf) st = Some (None, st)
    | Some i \<Rightarrow> \<exists>st' nif. naf_net_if_add u mal aton conf (Some md) (Some name) (Some outf) st = Some (Some (net_next st), st') \<and>
        naf_net_if_find (Some (if_numbered name i)) st' = Some (Some nif) \<and> if_self nif = net_next st \<and>
        map if_self (net_iflist st') = net_next st # map if_self (net_iflist st)"
proof (cases "List.find (\<lambda>i. unused st (if_numbered name i)) [0..<9]")
  note ok = net_reachable_ok [OF assms(3)]
  have f: "ifname_format name 0 = Some (if_numbered name 0)" using assms(2) by (simp add: ifname_format_cases)
  have pct: "0x25 \<in> set name"
  proof (rule ccontr)
    assume "0x25 \<notin> set name"
    then have "dropWhile (\<lambda>c. c \<noteq> 0x25) name = []" by auto
    with assms(2) show False unfolding fmt_ok_def by (simp only: list.case)
  qed
  note loop = allocif_loop_eq [OF ok f, of 0]
  {
    case None
    with loop pct show ?thesis
      by (simp add: naf_net_if_add_def naf_net__allocif_def)
  next
    case (Some i)
    let ?n = "if_numbered name i"
    let ?nif = "\<lparr>if_self = net_next st, if_name = ?n, if_flags = NAFNET_IFFLAG_NONE, if_mtu = NAFNET_MTU_DEFAULT,
      if_addrs = [], if_owner = md, if_outputf = Some outf\<rparr>"
    let ?st = "st\<lparr>net_next := Suc (net_next st), net_iflist := ?nif # net_iflist st\<rparr>"
    have len: "length ?n < NAFNET_MAXIFNAMELEN" by (rule ifname_format_numbered(2) [OF f])
    from Some have i: "unused st ?n" "i < 9" by (auto simp: find_Some_iff)
    have ok': "net_ok ?st" and mem: "?nif \<in> set (net_iflist ?st)" by (rule net_if_new [OF ok len i(1)]) simp_all
    obtain st' where st': "naf_net_if__configure u mal aton conf ?nif ?st = Some st'" "net_ok st'"
      "map if_self (net_iflist st') = map if_self (net_iflist ?st)"
      "\<exists>m \<in> set (net_iflist st'). if_self m = if_self ?nif \<and> if_name m = if_name ?nif"
      using configure_ok [OF ok' mem, of u mal aton conf] by blast
    from total_allocD(2) [OF assms(1)] have "mal sizeof_nafnet_if \<noteq> None" by (metis option.distinct(1))
    with loop pct Some i len st'(1)
    have add: "naf_net_if_add u mal aton conf (Some md) (Some name) (Some outf) st = Some (Some (net_next st), st')"
      by (simp add: naf_net_if_add_def naf_net__allocif_def naf_net_if__alloc_def)
    from st'(4) obtain m where m: "m \<in> set (net_iflist st')" "if_self m = net_next st" "if_name m = ?n" by auto
    with st'(2) have "naf_net_if_find (Some ?n) st' = Some (Some m)"
      unfolding if_find_eq [OF st'(2)] using find_distinct_key [of if_name "net_iflist st'" m] by (simp add: net_ok_def ifs_ok_def)
    with Some add st'(3) m(2) show ?thesis by auto
  }
qed

theorem numbered_interface_witness:
  "\<exists>st' nif. naf_net_if_add True zero_alloc sample_aton sample_netconf (Some 0) (Some (cstr ''tun%d'')) (Some 1) sample_net =
      Some (Some 1, st') \<and> naf_net_if_find (Some (cstr ''tun1'')) st' = Some (Some nif) \<and> if_self nif = 1"
proof -
  have "fmt_ok (cstr ''tun%d'')" by code_simp
  moreover have "List.find (\<lambda>i. unused sample_net (if_numbered (cstr ''tun%d'') i)) [0..<9] = Some 1" by code_simp
  moreover have "if_numbered (cstr ''tun%d'') 1 = cstr ''tun1''" "net_next sample_net = 1" by code_simp+
  ultimately show ?thesis
    using numbered_interface [OF total_zero_alloc _ sample_net_reachable, of "cstr ''tun%d''" sample_netconf 0 1] by auto
qed

section \<open>The remote methods answer\<close>

lemma if_names_ok: "\<forall>i \<in> set ifs. length (if_name i) < NAFNET_MAXIFNAMELEN \<Longrightarrow> \<exists>ns. if_names ifs = Some ns"
  by (induction ifs) (auto simp: if_cname_def)

text \<open>The routes are only read safely while none of their interfaces has been removed.\<close>

definition routes_bound :: "'z netstate_scheme \<Rightarrow> bool" where
  "routes_bound st \<longleftrightarrow> (\<forall>rt \<in> set (net_routetable st). \<forall>i. rt_if rt = Some i \<longrightarrow> i \<in> if_self ` set (net_iflist st))"

lemma fills_addif [fills_intro]: "fills head (rpc_net_ifconfig__addif mal ntoa head ni)"
proof -
  have addr: "fills h (if ifa_type ifa \<noteq> NAFNET_AF_INET then Some
      else rpc_in_array mal h (cstr ''ipv4'') (\<lambda>ifar. rpc_puts mal ifar
        [PutString (cstr ''address'') (ntoa (ucast (ifaa_ipv4_addr ifa))), PutString (cstr ''mask'') (ntoa (ucast (ifaa_ipv4_mask ifa)))]))"
    for h ifa
    using fills_none by (cases "ifa_type ifa = NAFNET_AF_INET") (auto intro!: fills_intro)
  show ?thesis
    unfolding rpc_net_ifconfig__addif_def case_prod_beta Let_def by (intro fills_intro addr)
qed

lemma ifconfig_answers:
  fixes req :: rpcreq
  assumes a: "net_ok st \<and> routes_bound st" "tree_ok (rq_inargs req)" "tree_ok (rq_returnargs req)"
  shows "\<exists>req' st'. rpc_net_ifconfig mal ntoa req st = Some (req', st') \<and> answered req req' \<and> net_ok st' \<and> routes_bound st'"
proof -
  note ok = conjunct1 [OF a(1)]
  obtain ia where ia: "string_arg (rq_inargs req) (cstr ''ifname'') = Some ia" using string_arg_ok [OF a(2)] by blast
  note inv = answered_status [OF a(3) tree_ext_refl, of NAF_RPC_STATUS_INVALIDARGS]
  show ?thesis
  proof (cases ia)
    case None
    with ia inv a(1) show ?thesis by (simp add: rpc_net_ifconfig_def)
  next
    case (Some n)
    define sel where "sel = (case n of None \<Rightarrow> net_iflist st
      | Some n \<Rightarrow> (case List.find (\<lambda>i. if_name i = n) (net_iflist st) of None \<Rightarrow> [] | Some i \<Rightarrow> [i]))"
    have sel: "(case n of None \<Rightarrow> Some (net_iflist st)
        | Some n \<Rightarrow> map_option (\<lambda>i. case i of None \<Rightarrow> [] | Some i \<Rightarrow> [i]) (naf_net_if_find (Some n) st)) = Some sel"
      by (simp add: sel_def if_find_eq [OF ok] split: option.split)
    have "set sel \<subseteq> set (net_iflist st)" by (auto simp: sel_def find_Some_iff split: option.splits dest!: sym [of "Some _"])
    with ok if_names_ok [of sel] obtain ns where ns: "if_names sel = Some ns" by (auto simp: net_ok_def ifs_ok_def)
    have "fills head (rpc_for (rpc_net_ifconfig__addif mal ntoa head) ns)" for head by (intro fills_intro)
    then show ?thesis
      by (rule root_array_cases [where mal = mal and name = "cstr ''interfaces''" and as = "rq_returnargs req"])
        (use ia Some sel ns a answered_status [OF a(3)] in \<open>simp_all add: rpc_net_ifconfig_def Let_def\<close>)
  qed
qed

interpretation ifconfig_method: rpc_method "\<lambda>st. net_ok st \<and> routes_bound st" "rpc_net_ifconfig mal ntoa" for mal ntoa
  by unfold_locales (rule ifconfig_answers)

lemma route_names_ok:
  assumes "ifs_ok n ifs"
  shows "\<forall>rt \<in> set rts. \<forall>i. rt_if rt = Some i \<longrightarrow> i \<in> if_self ` set ifs \<Longrightarrow> \<exists>ns. route_names ifs rts = Some ns"
proof (induction rts)
  case (Cons rt rts)
  then obtain ns where ns: "route_names ifs rts = Some ns" by auto
  show ?case
  proof (cases "rt_if rt")
    case (Some i)
    with Cons.prems obtain nif where nif: "nif \<in> set ifs" "if_self nif = i" by auto
    with assms find_distinct_key [of if_self ifs nif] have "List.find (\<lambda>nif. if_self nif = i) ifs = Some nif"
      by (simp add: ifs_ok_def)
    with nif assms Some ns show ?thesis by (simp add: ifs_ok_def if_cname_def)
  qed (use ns in simp)
qed simp

lemma route_answers:
  fixes req :: rpcreq
  assumes a: "net_ok st \<and> routes_bound st" "tree_ok (rq_inargs req)" "tree_ok (rq_returnargs req)"
  shows "\<exists>req' st'. rpc_ipv4_route mal ntoa req st = Some (req', st') \<and> answered req req' \<and> net_ok st' \<and> routes_bound st'"
proof -
  obtain rns where rns: "route_names (net_iflist st) (net_routetable st) = Some rns"
    using route_names_ok [of "net_next st" "net_iflist st"] a(1) unfolding net_ok_def routes_bound_def by blast
  have "fills head (rpc_for (\<lambda>(rt, name). rpc_in_array mal head (ntoa (ucast (rt_dest rt))) (\<lambda>outer. rpc_puts mal outer
           ([PutString (cstr ''destination'') (ntoa (ucast (rt_dest rt))), PutString (cstr ''gateway'') (ntoa (ucast (rt_gw rt))),
             PutString (cstr ''mask'') (ntoa (ucast (rt_mask rt))), PutScalar (cstr ''flags'') (ucast (rt_flags rt)),
             PutScalar (cstr ''metric'') (ucast (rt_metric rt))] @ opt_string (cstr ''ifname'') name))) rns)" for head
    unfolding case_prod_beta by (intro fills_intro)
  then show ?thesis
    by (rule root_array_cases [where mal = mal and name = "cstr ''routes''" and as = "rq_returnargs req"])
      (use rns a answered_status [OF a(3)] in \<open>simp_all add: rpc_ipv4_route_def Let_def\<close>)
qed

interpretation route_method: rpc_method "\<lambda>st. net_ok st \<and> routes_bound st" "rpc_ipv4_route mal ntoa" for mal ntoa
  by unfold_locales (rule route_answers)

end
