(* ===== verification/Program.thy ===== *)
theory Program
  imports Admin Net
begin

text \<open>
  The program as a whole, as a caller of remote methods meets it: the states of the components put
  together, the methods that the modules register when they start, and what a call of the function at
  an address does.
\<close>

section \<open>State\<close>

record 'nb program = rpcstate +
  pg_conf :: confstate
  pg_stats :: statstate
  pg_mem :: memstate
  pg_oscar :: "'nb ostate"
  pg_net :: netstate

text \<open>What stays the same: the allocator, the list of modules with their names and status lines, the
  remote ends of connections, the counters, the message handlers, the environment of the OSCAR
  module, and \<^verbatim>\<open>inet_ntoa\<close>.\<close>

record ('nb, 's) progenv =
  pe_mal :: allocator
  pe_ml :: "'s modlist_item list"
  pe_modname :: "nafmod \<Rightarrow> bytes"
  pe_statusline :: "nafmod \<Rightarrow> bytes"
  pe_remote :: "nat \<Rightarrow> bytes \<times> naf_u16_t"
  pe_counters :: counters
  pe_handlers :: msghandlers
  pe_oscar :: "'nb oenv"
  pe_ntoa :: "32 word \<Rightarrow> bytes"

section \<open>Methods\<close>

text \<open>A function is its address; each component has a table of what it registers.\<close>

type_synonym methodtable = "(bytes \<times> nat \<times> bytes) list"

definition rpc_methods :: methodtable where
  "rpc_methods = [(cstr ''help'', 1, cstr ''List registered methods'')]"

definition core_methods :: methodtable where
  "core_methods = [(cstr ''modstatus'', 2, cstr ''Get module list and status''),
     (cstr ''modmemoryuse'', 3, cstr ''Get module memory usage''), (cstr ''shutdown'', 4, cstr ''Shut down''),
     (cstr ''listmodules'', 5, cstr ''Get modules list'')]"

definition config_methods :: methodtable where
  "config_methods = [(cstr ''setvar'', 6, cstr ''Set a config variable''),
     (cstr ''getvar'', 7, cstr ''Get the value of a config variable'')]"

definition conn_methods :: methodtable where
  "conn_methods = [(cstr ''getconninfo'', 8, cstr ''Retrieve connection information''),
     (cstr ''getconnstats'', 9, cstr ''Retrieve connection statistics'')]"

definition stats_methods :: methodtable where
  "stats_methods = [(cstr ''getstat'', 10, cstr ''Retrieve value of named statistic''),
     (cstr ''liststats'', 11, cstr ''Retrieve list of statistics and values'')]"

definition node_methods :: methodtable where
  "node_methods = [(cstr ''listnodes'', 12, cstr ''Retrieve node list and info''),
     (cstr ''getnodeinfo'', 13, cstr ''Retrieve node info'')]"

definition msg_methods :: methodtable where
  "msg_methods = [(cstr ''listmsghandlers'', 14, cstr ''List registered message handlers'')]"

definition oscar_methods :: methodtable where
  "oscar_methods = [(cstr ''disconnectuser'', FID_disconnectuser, cstr ''Forcefully disconnect an OSCAR user'')]"

definition net_methods :: methodtable where
  "net_methods = [(cstr ''ifconfig'', 16, cstr ''Configure interfaces'')]"

definition ipv4_methods :: methodtable where
  "ipv4_methods = [(cstr ''route'', 17, cstr ''View routing table'')]"

text \<open>The result of a registration is not looked at.\<close>

definition register_methods :: "allocator \<Rightarrow> nafmod \<Rightarrow> methodtable \<Rightarrow> 'r rpcstate_scheme \<Rightarrow> 'r rpcstate_scheme" where
  "register_methods mal md ms st =
     fold (\<lambda>(name, func, desc) st. snd (naf_rpc_register_method mal md name func (Some desc) st)) ms st"

text \<open>The calls. \<open>on\<close> runs a method on its part of the state. \<^verbatim>\<open>core->shutdown\<close>, at address 4, tells the modules, unloads them
  and leaves the program with \<^verbatim>\<open>exit\<close>: it does not return.\<close>

definition on :: "('st \<Rightarrow> 'a) \<Rightarrow> ('a \<Rightarrow> 'st \<Rightarrow> 'st) \<Rightarrow> (rpcreq \<Rightarrow> 'a \<Rightarrow> (rpcreq \<times> 'a) option) \<Rightarrow> rpcreq \<Rightarrow> 'st \<Rightarrow> (rpcreq \<times> 'st) option" where
  "on get put serve req st = map_option (\<lambda>(r, s). (r, put s st)) (serve req (get st))"

definition gnr_on ::
    "(rpcreq \<Rightarrow> gnr_state \<Rightarrow> (rpcreq \<times> gnr_state) option) \<Rightarrow> rpcreq \<Rightarrow> 'nb program \<Rightarrow> (rpcreq \<times> 'nb program) option" where
  "gnr_on = on (\<lambda>st. os_gnr (pg_oscar st)) (\<lambda>g st. st\<lparr>pg_oscar := (pg_oscar st)\<lparr>os_gnr := g\<rparr>\<rparr>)"

definition prog_call :: "('nb, 's) progenv \<Rightarrow> 'nb program rpccall" where
  "prog_call pe f md =
     (if f = 1 then rpc_rpc_help (pe_mal pe) (pe_ml pe) (pe_modname pe) md
      else if f = 2 then rpc_core_modstatus (pe_mal pe) (pe_ml pe) (pe_modname pe) (pe_statusline pe) md
      else if f = 3 then on pg_mem (\<lambda>s st. st\<lparr>pg_mem := s\<rparr>) (rpc_core_modmemoryuse (pe_mal pe) (pe_ml pe) (pe_modname pe) md)
      else if f = 5 then rpc_core_listmodules (pe_mal pe) (pe_ml pe)
      else if f = 6 then on pg_conf (\<lambda>s st. st\<lparr>pg_conf := s\<rparr>) (rpc_config_setvar (pe_mal pe))
      else if f = 7 then on pg_conf (\<lambda>s st. st\<lparr>pg_conf := s\<rparr>) (rpc_config_getvar (pe_mal pe))
      else if f = 8 then on pg_oscar (\<lambda>s st. st\<lparr>pg_oscar := s\<rparr>)
        (rpc_conn_getconninfo (pe_mal pe) (oe_nb (pe_oscar pe)) (pe_modname pe) (pe_remote pe))
      else if f = 9 then on pg_oscar (\<lambda>s st. st\<lparr>pg_oscar := s\<rparr>) (rpc_conn_getconnstats (pe_mal pe))
      else if f = 10 then on pg_stats (\<lambda>s st. st\<lparr>pg_stats := s\<rparr>) (rpc_stats_getstat (pe_mal pe) (pe_counters pe))
      else if f = 11 then on pg_stats (\<lambda>s st. st\<lparr>pg_stats := s\<rparr>) (rpc_stats_liststats (pe_mal pe) (pe_counters pe))
      else if f = 12 then gnr_on (rpc_gnr_listnodes (pe_mal pe) (pe_modname pe))
      else if f = 13 then gnr_on (rpc_gnr_getnodeinfo (pe_mal pe) (pe_modname pe))
      else if f = 14 then rpc_gnr_listmsghandlers (pe_mal pe) (pe_modname pe) (pe_handlers pe)
      else if f = 15 then on pg_oscar (\<lambda>s st. st\<lparr>pg_oscar := s\<rparr>) (rpc_oscar_disconnectuser (pe_oscar pe))
      else if f = 16 then on pg_net (\<lambda>s st. st\<lparr>pg_net := s\<rparr>) (rpc_net_ifconfig (pe_mal pe) (pe_ntoa pe))
      else if f = 17 then on pg_net (\<lambda>s st. st\<lparr>pg_net := s\<rparr>) (rpc_ipv4_route (pe_mal pe) (pe_ntoa pe))
      else (\<lambda>req st. None))"

text \<open>All registrations, each in its module.\<close>

record progmods =
  pm_rpc :: nafmod
  pm_core :: nafmod
  pm_config :: nafmod
  pm_conn :: nafmod
  pm_stats :: nafmod
  pm_gnr :: nafmod
  pm_oscar :: nafmod
  pm_net :: nafmod
  pm_ipv4 :: nafmod

definition prog_register :: "allocator \<Rightarrow> progmods \<Rightarrow> 'nb program \<Rightarrow> 'nb program" where
  "prog_register mal pm = register_methods mal (pm_ipv4 pm) ipv4_methods \<circ> register_methods mal (pm_net pm) net_methods \<circ>
     register_methods mal (pm_oscar pm) oscar_methods \<circ> register_methods mal (pm_gnr pm) msg_methods \<circ>
     register_methods mal (pm_gnr pm) node_methods \<circ> register_methods mal (pm_stats pm) stats_methods \<circ>
     register_methods mal (pm_conn pm) conn_methods \<circ> register_methods mal (pm_config pm) config_methods \<circ>
     register_methods mal (pm_core pm) core_methods \<circ> register_methods mal (pm_rpc pm) rpc_methods"

section \<open>States that answer\<close>

abbreviation (input) prog_addresses :: "nat set" where
  "prog_addresses \<equiv> {1, 2, 3, 4, 5, 6, 7, 8, 9, 10, 11, 12, 13, 14, 15, 16, 17}"

definition prog_good :: "('nb, 's) progenv \<Rightarrow> 'nb program \<Rightarrow> bool" where
  "prog_good pe st \<longleftrightarrow> conf_inv (pg_conf st) \<and> oscar_good (pe_oscar pe) (pg_oscar st) \<and> net_ok (pg_net st) \<and> routes_bound (pg_net st) \<and>
     (\<forall>md rpi. rs_rpi st md = Some rpi \<longrightarrow> (\<forall>rm \<in> set rpi. rm_func rm \<in> prog_addresses \<and> (rm_func rm = 4 \<longrightarrow> rm_name rm = cstr ''shutdown'')))"

lemma prog_goodD:
  assumes "prog_good pe st"
  shows "conf_inv (pg_conf st)" "oscar_good (pe_oscar pe) (pg_oscar st)" "nodes_typed (os_gnr (pg_oscar st))"
    "conns_listed (oe_nb (pe_oscar pe)) (pg_oscar st)" "net_ok (pg_net st) \<and> routes_bound (pg_net st)"
    "rs_rpi st md = Some rpi \<Longrightarrow> rm \<in> set rpi \<Longrightarrow> rm_func rm \<in> prog_addresses"
    "rs_rpi st md = Some rpi \<Longrightarrow> rm \<in> set rpi \<Longrightarrow> rm_func rm = 4 \<Longrightarrow> rm_name rm = cstr ''shutdown''"
  using assms by (auto simp: prog_good_def oscar_good_def)

lemma prog_good_put:
  assumes "prog_good pe st"
  shows "conf_inv s \<Longrightarrow> prog_good pe (st\<lparr>pg_conf := s\<rparr>)" "prog_good pe (st\<lparr>pg_stats := t\<rparr>)" "prog_good pe (st\<lparr>pg_mem := m\<rparr>)"
    "oscar_good (pe_oscar pe) os \<Longrightarrow> prog_good pe (st\<lparr>pg_oscar := os\<rparr>)"
    "net_ok n \<and> routes_bound n \<Longrightarrow> prog_good pe (st\<lparr>pg_net := n\<rparr>)"
    "rs_rpi st md = None \<Longrightarrow> prog_good pe (st\<lparr>rs_rpi := (rs_rpi st)(md \<mapsto> [])\<rparr>)"
  using assms by (simp_all add: prog_good_def)

lemma oscar_good_gnr:
  assumes "oscar_good e os" "nodes_typed g"
  shows "oscar_good e (os\<lparr>os_gnr := g\<rparr>)"
proof -
  have "conn_screenname e (Some a) (os\<lparr>os_gnr := g\<rparr>) = conn_screenname e (Some a) os" for a
    by (simp add: conn_screenname_def naf_conn_tag_fetch_def)
  moreover have "conn_listable (os\<lparr>os_gnr := g\<rparr>) a = conn_listable os a" for a
    by (simp add: conn_listable_def split: option.split)
  ultimately show ?thesis using assms by (simp add: oscar_good_def conns_listed_def screennames_ok_def)
qed

text \<open>A method on its part of the program.\<close>

lemma on_answers:
  fixes req :: rpcreq
  assumes "rpc_method good serve" "good (get big)" "tree_ok (rq_inargs req)" "tree_ok (rq_returnargs req)"
    and "\<And>st'. good st' \<Longrightarrow> good2 (put st' big)"
  shows "\<exists>req' big'. on get put serve req big = Some (req', big') \<and> answered req req' \<and> good2 big'"
  unfolding on_def by (rule rpc_method.answers_part [where good = good, OF assms(1)]; rule assms; assumption)

lemma prog_call_answers:
  fixes req :: rpcreq
  assumes g: "prog_good pe st" and f: "f \<in> prog_addresses" "f \<noteq> 4"
    and req: "tree_ok (rq_inargs req)" "tree_ok (rq_returnargs req)"
  shows "\<exists>req' st'. prog_call pe f md req st = Some (req', st') \<and> answered req req' \<and> prog_good pe st'"
proof -
  note put = prog_good_put [OF g]
  note gnr = put(4) [OF oscar_good_gnr [OF prog_goodD(2) [OF g]]]
  note oc = prog_goodD(2,4) [OF g]
  note net = prog_goodD(5) [OF g]
  have "f = 1 \<or> f = 2 \<or> f = 3 \<or> f = 5 \<or> f = 6 \<or> f = 7 \<or> f = 8 \<or> f = 9 \<or> f = 10 \<or> f = 11 \<or> f = 12 \<or> f = 13 \<or> f = 14 \<or> f = 15 \<or> f = 16 \<or> f = 17"
    using f by auto
  then show ?thesis
  proof (elim disjE)
    assume "f = 1"
    then show ?thesis
      by (simp add: prog_call_def) (rule help_answers [OF req g prog_good_put(6)])
  next
    assume "f = 2"
    with modstatus_method.answers [where good = "prog_good pe", OF g req] show ?thesis by (simp add: prog_call_def)
  next
    assume "f = 3"
    then show ?thesis
      by (simp add: prog_call_def) (rule on_answers [OF memuse_method.rpc_method_axioms]; simp add: req put)
  next
    assume "f = 5"
    with listmodules_method.answers [where good = "prog_good pe", OF g req] show ?thesis by (simp add: prog_call_def)
  next
    assume "f = 6"
    then show ?thesis
      by (simp add: prog_call_def) (rule on_answers [OF setvar_method.rpc_method_axioms]; simp add: req put prog_goodD(1) [OF g])
  next
    assume "f = 7"
    then show ?thesis
      by (simp add: prog_call_def) (rule on_answers [OF getvar_method.rpc_method_axioms]; simp add: req put prog_goodD(1) [OF g])
  next
    assume "f = 8"
    then show ?thesis
      by (simp add: prog_call_def)
        (rule on_answers [OF getconninfo_method.rpc_method_axioms [where good = "oscar_good (pe_oscar pe)"]]; simp add: req put oc)
  next
    assume "f = 9"
    then show ?thesis
      by (simp add: prog_call_def)
        (rule on_answers [OF getconnstats_method.rpc_method_axioms [where good = "oscar_good (pe_oscar pe)"]]; simp add: req put oc)
  next
    assume "f = 10"
    then show ?thesis
      by (simp add: prog_call_def) (rule on_answers [OF getstat_method.rpc_method_axioms]; simp add: req put)
  next
    assume "f = 11"
    then show ?thesis
      by (simp add: prog_call_def) (rule on_answers [OF liststats_method.rpc_method_axioms]; simp add: req put)
  next
    assume "f = 12"
    then show ?thesis
      by (simp add: prog_call_def gnr_on_def)
        (rule on_answers [OF listnodes_method.rpc_method_axioms]; simp add: req gnr prog_goodD(3) [OF g])
  next
    assume "f = 13"
    then show ?thesis
      by (simp add: prog_call_def gnr_on_def)
        (rule on_answers [OF getnodeinfo_method.rpc_method_axioms]; simp add: req gnr prog_goodD(3) [OF g])
  next
    assume "f = 14"
    with listmsghandlers_method.answers [where good = "prog_good pe", OF g req] show ?thesis by (simp add: prog_call_def)
  next
    assume "f = 15"
    then show ?thesis
      by (simp add: prog_call_def) (rule on_answers [OF disconnectuser_method.rpc_method_axioms]; simp add: req put oc)
  next
    assume "f = 16"
    then show ?thesis
      by (simp add: prog_call_def) (rule on_answers [OF ifconfig_method.rpc_method_axioms]; simp add: req put net)
  next
    assume "f = 17"
    then show ?thesis
      by (simp add: prog_call_def) (rule on_answers [OF route_method.rpc_method_axioms]; simp add: req put net)
  qed
qed

interpretation prog: rpc_program "prog_good pe" "prog_call pe" "\<lambda>rm. rm_name rm = cstr ''shutdown''" for pe
proof unfold_locales
  fix st md rpi rm and req :: rpcreq
  assume a: "prog_good pe st" "rs_rpi st md = Some rpi" "rm \<in> set rpi" "rm_name rm \<noteq> cstr ''shutdown''"
    "tree_ok (rq_inargs req)" "tree_ok (rq_returnargs req)"
  then show "\<exists>req' st'. prog_call pe (rm_func rm) md req st = Some (req', st') \<and> answered req req' \<and> prog_good pe st'"
    using prog_goodD(6,7) [OF a(1-3)] by (intro prog_call_answers) auto
qed (rule prog_good_put(6))

text \<open>Registering keeps a state good.\<close>

lemma register_good:
  assumes "prog_good pe st" "func \<in> prog_addresses" "func = 4 \<longrightarrow> name = cstr ''shutdown''"
  shows "prog_good pe (snd (naf_rpc_register_method mal md name func desc st))"
proof (cases "fetchinfo mal md st")
  case (Pair r st1)
  note g = prog.fetchinfo_good [OF assms(1) Pair]
  show ?thesis
  proof (cases r)
    case None
    with Pair g show ?thesis by (simp add: naf_rpc_register_method_def)
  next
    case (Some rpi)
    have new: "rm \<in> set rpi \<or> rm_func rm = func \<and> rm_name rm = name" if "rm \<in> set (snd (addmethod mal name func desc rpi))" for rm
      using that by (auto simp: addmethod_def split: option.splits if_splits)
    have st1: "prog_good pe st1" "rs_rpi st1 md = Some rpi" using g Some by simp_all
    have "rm_func rm \<in> prog_addresses \<and> (rm_func rm = 4 \<longrightarrow> rm_name rm = cstr ''shutdown'')"
      if "rm \<in> set (snd (addmethod mal name func desc rpi))" for rm
      using new [OF that]
    proof
      assume "rm \<in> set rpi"
      with prog_goodD(6,7) [OF st1] show ?thesis by blast
    qed (use assms(2,3) in simp)
    with Pair st1(1) Some show ?thesis
      by (simp add: naf_rpc_register_method_def case_prod_beta prog_good_def del: insert_iff)
  qed
qed

lemma register_methods_good:
  "prog_good pe st \<Longrightarrow> \<forall>(name, func, desc) \<in> set ms. func \<in> prog_addresses \<and> (func = 4 \<longrightarrow> name = cstr ''shutdown'') \<Longrightarrow>
     prog_good pe (register_methods mal md ms st)"
proof (induction ms arbitrary: st)
  case (Cons m ms)
  obtain name func desc where m: "m = (name, func, desc)" by (cases m)
  have "prog_good pe (snd (naf_rpc_register_method mal md name func (Some desc) st))"
    using Cons.prems m by (intro register_good) auto
  with Cons m show ?case by (simp add: register_methods_def)
qed (simp add: register_methods_def)

lemma prog_register_good: "prog_good pe st \<Longrightarrow> prog_good pe (prog_register mal pm st)"
  unfolding prog_register_def comp_apply
  by (intro register_methods_good)
    (simp_all add: rpc_methods_def core_methods_def config_methods_def conn_methods_def stats_methods_def
      node_methods_def msg_methods_def oscar_methods_def net_methods_def ipv4_methods_def)

section \<open>Properties\<close>

text \<open>C8. Every remote call to the program, unless the name of the method is \<^verbatim>\<open>shutdown\<close>, is answered, and answers
  are typed. When the parts of the state are in order - in particular no route leads to an interface that was
  removed - and the arguments of the request are typed, issuing the request returns 0: it is answered with
  one of the final statuses, the question is left as it was, and in the tree of the answer the type and the
  length of every argument agree with its value. The state stays in order, so the next request is answered as
  well; registering the methods of all modules, also those of the packet stack, does not change that.
  \<^verbatim>\<open>core->shutdown\<close> ends the program.\<close>

theorem requests_answered:
  assumes "prog_good pe st" "tree_ok (rq_inargs req)" "tree_ok (rq_returnargs req)"
    and "\<not> strcasecmp_eq (cstr ''shutdown'') (rq_method req)"
  shows "prog_good pe (prog_register mal pm st) \<and>
    (\<exists>req' st'. naf_rpc_request_issue (pe_mal pe) (prog_call pe) (pe_ml pe) md (Some req) st = Some (0, Some req', st') \<and>
      prog_good pe st' \<and> tree_ok (rq_returnargs req') \<and> rq_target req' = rq_target req \<and> rq_method req' = rq_method req \<and>
      rq_inargs req' = rq_inargs req \<and>
      rq_status req' \<in> {NAF_RPC_STATUS_SUCCESS, NAF_RPC_STATUS_UNKNOWNTARGET, NAF_RPC_STATUS_UNKNOWNMETHOD,
        NAF_RPC_STATUS_INVALIDARGS, NAF_RPC_STATUS_UNKNOWNFAILURE})"
proof -
  have stays: "rm_name rm \<noteq> cstr ''shutdown''" if "rm_matches (rq_method req) rm" for rm
    using that assms(4) by (auto simp: rm_matches_def)
  from prog.issue_answers [OF assms(1-3) stays, of "pe_mal pe" "pe_ml pe" md] obtain req' st' where
    i: "naf_rpc_request_issue (pe_mal pe) (prog_call pe) (pe_ml pe) md (Some req) st = Some (0, Some req', st')" "prog_good pe st'" and
    c: "answered req req' \<or> req' = req\<lparr>rq_status := NAF_RPC_STATUS_UNKNOWNTARGET\<rparr> \<or>
     req' = req\<lparr>rq_status := NAF_RPC_STATUS_UNKNOWNMETHOD\<rparr>" by blast
  from c assms(3) have "tree_ok (rq_returnargs req') \<and> rq_target req' = rq_target req \<and> rq_method req' = rq_method req \<and>
      rq_inargs req' = rq_inargs req \<and>
      rq_status req' \<in> {NAF_RPC_STATUS_SUCCESS, NAF_RPC_STATUS_UNKNOWNTARGET, NAF_RPC_STATUS_UNKNOWNMETHOD,
        NAF_RPC_STATUS_INVALIDARGS, NAF_RPC_STATUS_UNKNOWNFAILURE}"
    by (elim disjE) (auto simp: answered_def)
  with i prog_register_good [OF assms(1)] show ?thesis by blast
qed

definition sample_mod :: "nat modlist_item" where
  "sample_mod = \<lparr>mi_filename = cstr ''conn'', mi_status = MOD_STATUS_LOADED, mi_dlhandle = None, mi_firstproc = None,
     mi_module = nafmodule_zero\<lparr>nm_name := cstr ''conn''\<rparr>, mi_lasttimerrun = 0, mi_startuppri = 0, mi_addr = 1\<rparr>"

definition sample_pe :: "(nat list, nat) progenv" where
  "sample_pe = \<lparr>pe_mal = zero_alloc, pe_ml = [sample_mod], pe_modname = \<lambda>_. cstr ''m'', pe_statusline = \<lambda>_. [], pe_remote = \<lambda>_. ([], 0),
     pe_counters = (\<lambda>_. 0, \<lambda>_. 0), pe_handlers = [[], [], []], pe_oscar = list_env, pe_ntoa = \<lambda>_. []\<rparr>"

definition sample_prog :: "nat list program" where
  "sample_prog = \<lparr>rs_rpi = \<lambda>_. None, pg_conf = \<lparr>cf_parmlist = [], cf_conffilename = None\<rparr>, pg_stats = \<lparr>sst_list = []\<rparr>,
     pg_mem = \<lparr>mem_stats = \<lambda>_. None, mem_blocks = \<lambda>_. None\<rparr>, pg_oscar = list_oscar_state, pg_net = net_init\<rparr>"

lemma sample_prog_good: "prog_good sample_pe sample_prog"
proof -
  have l: "nb_fdlist list_ops (cs_nb list_oscar_state) = [4, 5, 6]"
    by (simp add: list_oscar_state_def list_state_def list_ops_def cstate.defs)
  have c: "cs_conns list_oscar_state = [4 \<mapsto> list_conn 4 NAF_CONN_TYPE_CLIENT (Some 5), 5 \<mapsto> list_conn 5 NAF_CONN_TYPE_SERVER (Some 4),
       6 \<mapsto> list_conn 6 NAF_CONN_TYPE_PROROGUEDEATH (Some 5)]"
    by (simp add: list_oscar_state_def list_state_def cstate.defs)
  have "nb_marks list_ops" by (simp add: nb_marks_def list_ops_def)
  moreover have "conns_listed list_ops list_oscar_state"
    unfolding conns_listed_def l by (auto simp: conn_listable_def c list_conn_def tags_typed_def)
  moreover have "screennames_ok list_env list_oscar_state"
    unfolding screennames_ok_def
    by (auto simp: list_env_def l c list_conn_def conn_screenname_def naf_conn_tag_fetch_def naf_tag_fetch_def)
  moreover have "nodes_typed gnr_empty"
    by (simp add: nodes_typed_def gnr_empty_def gnr_node__hash_init_def all_nodes_def)
  moreover have "net_ok net_init" "routes_bound net_init" by (rule net_init_ok) (simp add: routes_bound_def net_init_def)
  ultimately show ?thesis
    by (simp add: prog_good_def sample_pe_def sample_prog_def oscar_good_def list_env_def conf_inv_def unique_by_def
      list_oscar_state_def cstate.defs)
qed

theorem requests_answered_witness:
  "\<exists>req' st'. naf_rpc_request_issue zero_alloc (prog_call sample_pe) [sample_mod] (Some 1)
      (Some \<lparr>rq_target = cstr ''conn'', rq_method = cstr ''getconninfo'', rq_inargs = [], rq_status = 0xfffe, rq_returnargs = []\<rparr>)
      (register_methods zero_alloc 1 conn_methods sample_prog) = Some (0, Some req', st') \<and>
    rq_method req' = cstr ''getconninfo'' \<and> tree_ok (rq_returnargs req')"
proof -
  let ?req = "\<lparr>rq_target = cstr ''conn'', rq_method = cstr ''getconninfo'', rq_inargs = [], rq_status = 0xfffe, rq_returnargs = []\<rparr>"
  have g: "prog_good sample_pe (register_methods zero_alloc 1 conn_methods sample_prog)"
    using sample_prog_good by (rule register_methods_good) (simp add: conn_methods_def)
  have t: "tree_ok (rq_inargs ?req)" "tree_ok (rq_returnargs ?req)" by (simp_all add: tree_ok_def)
  have s: "\<not> strcasecmp_eq (cstr ''shutdown'') (rq_method ?req)"
    by (simp add: strcasecmp_eq_def cstr_def tolower_def)
  have pe: "pe_mal sample_pe = zero_alloc" "pe_ml sample_pe = [sample_mod]" by (simp_all add: sample_pe_def)
  from requests_answered [OF g t s, of zero_alloc undefined "Some 1"] obtain req' st' where
    "naf_rpc_request_issue zero_alloc (prog_call sample_pe) [sample_mod] (Some 1) (Some ?req)
       (register_methods zero_alloc 1 conn_methods sample_prog) = Some (0, Some req', st')"
    "rq_method req' = rq_method ?req" "tree_ok (rq_returnargs req')" unfolding pe by blast
  then show ?thesis by auto
qed

end
