(* ===== verification/Lmx.thy ===== *)
theory Lmx
  imports Names
begin

text \<open>
  XML elements, \<^verbatim>\<open>libmx/src/lmx.c\<close> and \<^verbatim>\<open>libmx.h\<close>: trees of tags with attributes and character data, the
  entities, and the writer. A function on a node gives the changed node; a pointer to a new child is its
  position. Names and values are C strings; character data is a block that ends with a terminator the
  length does not count. Lengths that the writer adds up are a C \<^verbatim>\<open>int\<close>.
\<close>

section \<open>Lengths\<close>

text \<open>An \<^verbatim>\<open>int\<close> is an integer in its range. \<^verbatim>\<open>n += k\<close> overflows, which has no result, where \<open>k\<close> is an
  \<^verbatim>\<open>int\<close>; where \<open>k\<close> is a \<^verbatim>\<open>size_t\<close> the sum is taken at its width and converted back, which keeps the lowest 32
  bits.\<close>

definition add_int :: "int \<Rightarrow> int \<Rightarrow> int option" where
  "add_int n k = (let s = n + k in if - (2 ^ 31) \<le> s \<and> s < 2 ^ 31 then Some s else None)"

definition add_size :: "int \<Rightarrow> nat \<Rightarrow> int" where
  "add_size n k = sint (word_of_int (n + int k) :: 32 word)"

text \<open>The argument of \<^verbatim>\<open>malloc\<close>.\<close>

definition int_to_size :: "int \<Rightarrow> nat" where
  "int_to_size n = nat (n mod 2 ^ 64)"

lemma add_int_in [simp]: "0 \<le> n \<Longrightarrow> 0 \<le> k \<Longrightarrow> n + k < 2147483648 \<Longrightarrow> add_int n k = Some (n + k)"
  by (simp add: add_int_def)

lemma add_int_over: "2147483648 \<le> n + k \<Longrightarrow> add_int n k = None"
  by (simp add: add_int_def)

lemma add_size_in [simp]: "0 \<le> n \<Longrightarrow> n + int k < 2147483648 \<Longrightarrow> add_size n k = n + int k"
  unfolding add_size_def int_word_sint by simp

lemma int_to_size_in [simp]: "0 \<le> n \<Longrightarrow> n < 2147483648 \<Longrightarrow> int_to_size n = nat n"
  by (simp add: int_to_size_def)

section \<open>Data\<close>

type_synonym lmx_attrib_t = "bytes \<times> bytes option"

datatype lmx_t = LTag (lmx_name: bytes) (lmx_attribs: "lmx_attrib_t list") (lmx_children: "lmx_t list") | LCdata bytes

abbreviation (input) sizeof_lmx_t :: nat where "sizeof_lmx_t \<equiv> 56"
abbreviation (input) sizeof_lmx_attrib_t :: nat where "sizeof_lmx_attrib_t \<equiv> 24"

fun is_tag :: "lmx_t \<Rightarrow> bool" where
  "is_tag (LTag _ _ _) = True" | "is_tag (LCdata _) = False"

definition cstring :: "bytes \<Rightarrow> bytes" where
  "cstring s = takeWhile (\<lambda>c. c \<noteq> 0) s"

section \<open>Building\<close>

definition lmx__newtag :: "allocator \<Rightarrow> bytes \<Rightarrow> lmx_t option" where
  "lmx__newtag mal name =
     (if mal sizeof_lmx_t = None then None
      else if mal (length name + 1) = None then None
      else Some (LTag name [] []))"

text \<open>\<open>cdata\<close> is the memory of the caller.\<close>

definition lmx__newcdata :: "allocator \<Rightarrow> bytes \<Rightarrow> nat \<Rightarrow> lmx_t option option" where
  "lmx__newcdata mal cdata cdatalen =
     (if mal sizeof_lmx_t = None then Some None
      else if mal (cdatalen + 1) = None then Some None
      else do { bs \<leftarrow> mem_read cdata 0 cdatalen; Some (Some (LCdata bs)) })"

definition lmxattrib__findbyname :: "lmx_attrib_t list \<Rightarrow> bytes \<Rightarrow> lmx_attrib_t option" where
  "lmxattrib__findbyname head name = List.find (\<lambda>lmxa. strcasecmp_eq (fst lmxa) name) head"

definition lmxattrib__new :: "allocator \<Rightarrow> bytes \<Rightarrow> bytes option \<Rightarrow> lmx_attrib_t option" where
  "lmxattrib__new mal name value =
     (if mal sizeof_lmx_attrib_t = None then None
      else if mal (length name + 1) = None then None
      else case value of
             None \<Rightarrow> Some (name, None)
           | Some v \<Rightarrow> if mal (length v + 1) = None then None else Some (name, Some v))"

definition lmx_new :: "allocator \<Rightarrow> bytes option \<Rightarrow> lmx_t option" where
  "lmx_new mal name = Option.bind name (lmx__newtag mal)"

definition lmx_get_name :: "lmx_t option \<Rightarrow> bytes option" where
  "lmx_get_name lmx = (case lmx of Some (LTag name _ _) \<Rightarrow> Some name | _ \<Rightarrow> None)"

text \<open>A search gives the position of the child.\<close>

definition lmx__findbyname :: "lmx_t list \<Rightarrow> bytes \<Rightarrow> nat option" where
  "lmx__findbyname head name =
     List.find (\<lambda>i. is_tag (head ! i) \<and> strcasecmp_eq (lmx_name (head ! i)) name) [0..<length head]"

definition lmx_get_tag :: "lmx_t option \<Rightarrow> bytes option \<Rightarrow> nat option" where
  "lmx_get_tag parent tagname =
     (case (parent, tagname) of (Some (LTag _ _ cs), Some n) \<Rightarrow> lmx__findbyname cs n | _ \<Rightarrow> None)"

fun lmx__append :: "lmx_t \<Rightarrow> lmx_t \<Rightarrow> lmx_t" where
  "lmx__append (LTag name attribs cs) x = LTag name attribs (cs @ [x])"
| "lmx__append (LCdata bs) x = LCdata bs"

definition lmx_add :: "allocator \<Rightarrow> lmx_t option \<Rightarrow> bytes option \<Rightarrow> nat option \<times> lmx_t option" where
  "lmx_add mal parent name =
     (case (parent, name) of
        (Some (LTag pn pa cs), Some n) \<Rightarrow>
          (case lmx__newtag mal n of
             None \<Rightarrow> (None, parent)
           | Some lmx \<Rightarrow> (Some (length cs), Some (lmx__append (LTag pn pa cs) lmx)))
      | _ \<Rightarrow> (None, parent))"

definition lmx_add_cdata_bound :: "allocator \<Rightarrow> lmx_t option \<Rightarrow> bytes option \<Rightarrow> int \<Rightarrow> (int \<times> lmx_t option) option" where
  "lmx_add_cdata_bound mal lmx cdata cdatalen =
     (case (lmx, cdata) of
        (Some (LTag n a cs), Some cd) \<Rightarrow>
          if cdatalen \<le> 0 then Some (-1, lmx)
          else do {
            x \<leftarrow> lmx__newcdata mal cd (nat cdatalen);
            Some (case x of None \<Rightarrow> (-1, lmx) | Some x \<Rightarrow> (0, Some (lmx__append (LTag n a cs) x)))
          }
      | _ \<Rightarrow> Some (-1, lmx))"

definition lmx_add_cdata :: "allocator \<Rightarrow> lmx_t option \<Rightarrow> bytes \<Rightarrow> (int \<times> lmx_t option) option" where
  "lmx_add_cdata mal lmx cdata = lmx_add_cdata_bound mal lmx (Some (cdata @ [0])) (int (length cdata))"

definition lmx_add_attrib :: "allocator \<Rightarrow> lmx_t option \<Rightarrow> bytes option \<Rightarrow> bytes option \<Rightarrow> int \<times> lmx_t option" where
  "lmx_add_attrib mal lmx name value =
     (case (lmx, name) of
        (Some (LTag ln la cs), Some n) \<Rightarrow>
          (case lmxattrib__new mal n value of
             None \<Rightarrow> (-1, lmx)
           | Some lmxa \<Rightarrow> (0, Some (LTag ln (lmxa # la) cs)))
      | _ \<Rightarrow> (-1, lmx))"

text \<open>A copy of a tree under another one. \<open>src\<close> is not part of \<open>dest\<close>.\<close>

definition add_attribs :: "allocator \<Rightarrow> lmx_attrib_t list \<Rightarrow> lmx_t \<Rightarrow> lmx_t" where
  "add_attribs mal as x = fold (\<lambda>(n, v) x. the (snd (lmx_add_attrib mal (Some x) (Some n) v))) as x"

fun set_child :: "nat \<Rightarrow> lmx_t \<Rightarrow> lmx_t \<Rightarrow> lmx_t" where
  "set_child i x (LTag n as cs) = LTag n as (cs[i := x])"
| "set_child i x (LCdata bs) = LCdata bs"

fun lmx_add_lmx :: "allocator \<Rightarrow> lmx_t \<Rightarrow> lmx_t \<Rightarrow> nat option \<times> lmx_t"
  and add_children :: "allocator \<Rightarrow> lmx_t \<Rightarrow> lmx_t list \<Rightarrow> lmx_t" where
  "lmx_add_lmx mal dest (LTag name attribs cs) =
     (case lmx_add mal (Some dest) (Some name) of
        (Some i, Some d) \<Rightarrow>
          (Some i, set_child i (add_children mal (add_attribs mal attribs (lmx_children d ! i)) cs) d)
      | _ \<Rightarrow> (None, dest))"
| "lmx_add_lmx mal dest (LCdata bs) =
     (None, (case lmx_add_cdata_bound mal (Some dest) (Some (bs @ [0])) (int (length bs)) of
               Some (_, Some d) \<Rightarrow> d | _ \<Rightarrow> dest))"
| "add_children mal x [] = x"
| "add_children mal x (y # ys) = add_children mal (snd (lmx_add_lmx mal x y)) ys"

text \<open>\<^verbatim>\<open>atts\<close> is an array of names and values that ends with a null pointer where a name is expected.\<close>

fun lmx_add_expatattribs_loop :: "allocator \<Rightarrow> bytes option list \<Rightarrow> lmx_t \<Rightarrow> lmx_t option" where
  "lmx_add_expatattribs_loop mal (None # _) lmx = Some lmx"
| "lmx_add_expatattribs_loop mal (Some n # v # rest) lmx =
     lmx_add_expatattribs_loop mal rest (the (snd (lmx_add_attrib mal (Some lmx) (Some n) v)))"
| "lmx_add_expatattribs_loop mal _ lmx = None"

definition lmx_add_expatattribs :: "allocator \<Rightarrow> lmx_t option \<Rightarrow> bytes option list option \<Rightarrow> (int \<times> lmx_t option) option" where
  "lmx_add_expatattribs mal lmx atts =
     (case (lmx, atts) of
        (Some (LTag n a cs), Some as) \<Rightarrow> map_option (\<lambda>x. (0, Some x)) (lmx_add_expatattribs_loop mal as (LTag n a cs))
      | _ \<Rightarrow> Some (-1, lmx))"

section \<open>Reading\<close>

text \<open>The first character data of a tag, as the block it is in.\<close>

definition lmx_get_cdata :: "lmx_t option \<Rightarrow> bytes option" where
  "lmx_get_cdata lmx =
     (case lmx of
        Some (LTag _ _ cs) \<Rightarrow>
          (case List.find (\<lambda>x. \<not> is_tag x) cs of Some (LCdata bs) \<Rightarrow> Some (bs @ [0]) | _ \<Rightarrow> None)
      | _ \<Rightarrow> None)"

definition lmx_get_cdata_oftag :: "lmx_t option \<Rightarrow> bytes option \<Rightarrow> bytes option" where
  "lmx_get_cdata_oftag parent tagname =
     (case (parent, tagname) of
        (Some (LTag _ _ cs), Some n) \<Rightarrow> Option.bind (lmx__findbyname cs n) (\<lambda>i. lmx_get_cdata (Some (cs ! i)))
      | _ \<Rightarrow> None)"

definition lmx_get_attrib :: "lmx_t option \<Rightarrow> bytes option \<Rightarrow> bytes option" where
  "lmx_get_attrib lmx name =
     (case (lmx, name) of
        (Some (LTag _ as _), Some n) \<Rightarrow> Option.bind (lmxattrib__findbyname as n) snd
      | _ \<Rightarrow> None)"

definition lmx_get_firstchild :: "lmx_t option \<Rightarrow> nat option" where
  "lmx_get_firstchild lmx = (case lmx of Some (LTag _ _ cs) \<Rightarrow> if cs = [] then None else Some 0 | _ \<Rightarrow> None)"

definition lmx_get_firsttagchild :: "lmx_t option \<Rightarrow> nat option" where
  "lmx_get_firsttagchild lmx =
     (case lmx of Some (LTag _ _ cs) \<Rightarrow> List.find (\<lambda>i. is_tag (cs ! i)) [0..<length cs] | _ \<Rightarrow> None)"

text \<open>The siblings of the child at position \<open>i\<close>.\<close>

definition lmx_get_nextsibling :: "lmx_t list \<Rightarrow> nat \<Rightarrow> nat option" where
  "lmx_get_nextsibling cs i = (if Suc i < length cs then Some (Suc i) else None)"

definition lmx_get_nexttagsibling :: "lmx_t list \<Rightarrow> nat \<Rightarrow> nat option" where
  "lmx_get_nexttagsibling cs i = List.find (\<lambda>j. is_tag (cs ! j)) [Suc i..<length cs]"

section \<open>Entities\<close>

definition cdatastr__convs :: "(naf_u8_t \<times> bytes) list" where
  "cdatastr__convs = [(0x26, cstr ''&amp;''), (0x27, cstr ''&apos;''), (0x22, cstr ''&quot;''),
     (0x3c, cstr ''&lt;''), (0x3e, cstr ''&gt;'')]"

definition encoding :: "naf_u8_t \<Rightarrow> bytes option" where
  "encoding c = map_option snd (List.find (\<lambda>p. fst p = c) cdatastr__convs)"

fun strlen_loop :: "bytes \<Rightarrow> int \<Rightarrow> int option" where
  "strlen_loop [] n = Some n"
| "strlen_loop (c # cs) n = do {
     n \<leftarrow> (case encoding c of Some e \<Rightarrow> Some (add_size n (length e)) | None \<Rightarrow> add_int n 1);
     strlen_loop cs n
   }"

definition cdatastr__strlen :: "bytes \<Rightarrow> int option" where
  "cdatastr__strlen instr = strlen_loop instr 0"

text \<open>\<^verbatim>\<open>strncmp\<close> of a literal and the memory at \<open>p\<close>, over at most the length of the literal. Memory that is
  read past its end is a fault; a byte that differs ends the comparison.\<close>

fun strncmp_eq :: "bytes \<Rightarrow> bytes \<Rightarrow> nat \<Rightarrow> bool option" where
  "strncmp_eq (e # es) p (Suc n) =
     (case p of [] \<Rightarrow> None | c # cs \<Rightarrow> if c = e then strncmp_eq es cs n else Some False)"
| "strncmp_eq es p n = Some True"

text \<open>The first entity at \<open>p\<close>, of which \<open>bound e\<close> bytes are compared.\<close>

fun match_conv :: "(naf_u8_t \<times> bytes) list \<Rightarrow> (bytes \<Rightarrow> nat) \<Rightarrow> bytes \<Rightarrow> (naf_u8_t \<times> bytes) option option" where
  "match_conv [] bound p = Some None"
| "match_conv ((c, e) # convs) bound p = do {
     r \<leftarrow> strncmp_eq e p (bound e);
     if r then Some (Some (c, e)) else match_conv convs bound p
   }"

function cdatastr__decodedstrlen :: "bytes \<Rightarrow> int \<Rightarrow> nat option" where
  "cdatastr__decodedstrlen p instrlen =
     (case p of
        [] \<Rightarrow> None
      | c # _ \<Rightarrow>
          if c = 0 \<or> instrlen \<le> 0 then Some 0
          else do {
            m \<leftarrow> match_conv cdatastr__convs (\<lambda>e. min (length e) (nat instrlen)) p;
            let skip = (case m of None \<Rightarrow> 0 | Some (_, e) \<Rightarrow> length e - 1);
            n \<leftarrow> cdatastr__decodedstrlen (drop (Suc skip) p) (instrlen - int skip - 1);
            Some (Suc n)
          })"
  by pat_completeness auto
termination
  by (relation "measure (\<lambda>(p, _). length p)") auto

declare cdatastr__decodedstrlen.simps [simp del]

text \<open>An ordinary byte does not count against \<open>instrlen\<close>.\<close>

type_synonym outbuf = "bytes \<times> int \<times> int"

function decode_loop :: "bytes \<Rightarrow> int \<Rightarrow> outbuf \<Rightarrow> outbuf option" where
  "decode_loop p instrlen b =
     (case p of
        [] \<Rightarrow> None
      | c # _ \<Rightarrow>
          let (mem, pos, buflen) = b in
          if c = 0 \<or> buflen = 0 \<or> instrlen \<le> 0 then Some b
          else do {
            m \<leftarrow> match_conv cdatastr__convs length p;
            let (c', skip, used) = (case m of None \<Rightarrow> (c, 1, 0) | Some (c', e) \<Rightarrow> (c', length e, length e));
            mem \<leftarrow> mem_write mem pos [c'];
            decode_loop (drop (Suc (skip - 1)) p) (instrlen - int used) (mem, pos + 1, buflen - 1)
          })"
  by pat_completeness auto
termination
  by (relation "measure (\<lambda>(p, _). length p)") auto

declare decode_loop.simps [simp del]

definition cdatastr__decode :: "outbuf \<Rightarrow> bytes \<Rightarrow> int \<Rightarrow> outbuf option" where
  "cdatastr__decode b instr instrlen = do {
     (mem, pos, buflen) \<leftarrow> decode_loop instr instrlen b;
     mem \<leftarrow> mem_write mem pos [0];
     Some (mem, pos, buflen)
   }"

text \<open>A length that is negative becomes huge where it is a size. The position counts from the start of the
  block, as the \<^verbatim>\<open>int\<close> that the outermost call returns does.\<close>

fun putstr_loop :: "bytes \<Rightarrow> outbuf \<Rightarrow> outbuf option" where
  "putstr_loop [] b = Some b"
| "putstr_loop (c # cs) (mem, pos, buflen) =
     (if buflen = 0 then Some (mem, pos, buflen)
      else case encoding c of
             None \<Rightarrow> do {
               mem \<leftarrow> mem_write mem pos [c];
               pos \<leftarrow> add_int pos 1;
               putstr_loop cs (mem, pos, buflen - 1)
             }
           | Some e \<Rightarrow>
               (let z = min (int (length e)) buflen
                in if z < 0 then None
                   else do {
                     mem \<leftarrow> mem_write mem pos (take (nat z) e);
                     pos \<leftarrow> add_int pos z;
                     putstr_loop cs (mem, pos, buflen - z)
                   }))"

definition cdatastr__putstr :: "bytes \<Rightarrow> outbuf \<Rightarrow> outbuf option" where
  "cdatastr__putstr instr b = do {
     (mem, pos, buflen) \<leftarrow> putstr_loop instr b;
     mem \<leftarrow> mem_write mem pos [0];
     Some (mem, pos, buflen)
   }"

definition lmx_add_cdata_bound_encoded :: "allocator \<Rightarrow> lmx_t option \<Rightarrow> bytes \<Rightarrow> int \<Rightarrow> (int \<times> lmx_t option) option" where
  "lmx_add_cdata_bound_encoded mal lmx cdata cdatalen = do {
     buflen \<leftarrow> cdatastr__decodedstrlen cdata cdatalen;
     blen \<leftarrow> add_int (int buflen) 1;
     case mal (int_to_size blen) of
       None \<Rightarrow> Some (-1, lmx)
     | Some buf \<Rightarrow> do {
         (buf, _) \<leftarrow> cdatastr__decode (buf, 0, int buflen) cdata cdatalen;
         lmx_add_cdata_bound mal lmx (Some buf) (int buflen)
       }
   }"

section \<open>Writing\<close>

fun attribslen_loop :: "lmx_attrib_t list \<Rightarrow> int \<Rightarrow> int option" where
  "attribslen_loop [] n = Some n"
| "attribslen_loop ((name, value) # as) n =
     (let n = add_size n (1 + length name + 1 + 1);
          n = (case value of None \<Rightarrow> n | Some v \<Rightarrow> add_size n (length v))
      in do { n \<leftarrow> add_int n 1; attribslen_loop as n })"

definition lmxattrib__getrenderedlen :: "lmx_attrib_t list \<Rightarrow> int option" where
  "lmxattrib__getrenderedlen head = attribslen_loop head 0"

fun lmx__getrenderedlen :: "lmx_t \<Rightarrow> int option" and renderedlen_all :: "lmx_t list \<Rightarrow> int \<Rightarrow> int option" where
  "lmx__getrenderedlen (LTag name attribs cs) =
     (let n = add_size 0 (1 + length name + 1)
      in do {
        a \<leftarrow> lmxattrib__getrenderedlen attribs;
        n \<leftarrow> add_int n a;
        if cs = [] then add_int n 1
        else do {
          n \<leftarrow> renderedlen_all cs n;
          Some (add_size n (1 + 1 + length name + 1))
        }
      })"
| "lmx__getrenderedlen (LCdata bs) = do { k \<leftarrow> cdatastr__strlen (cstring bs); add_int 0 k }"
| "renderedlen_all [] n = Some n"
| "renderedlen_all (x # xs) n = do {
     k \<leftarrow> lmx__getrenderedlen x;
     n \<leftarrow> add_int n k;
     renderedlen_all xs n
   }"

text \<open>\<^verbatim>\<open>n = snprintf(buf, buflen, ...); buf += n; buflen -= n; m += n;\<close>: the text is cut to what fits, the
  position is moved by all of it. The number of bytes that the functions return is how far the position moves; more
  of them than an \<^verbatim>\<open>int\<close> holds have no result.\<close>

definition put_fmt :: "bytes \<Rightarrow> outbuf \<Rightarrow> outbuf option" where
  "put_fmt s b =
     (let (mem, pos, buflen) = b
      in do {
        mem \<leftarrow> (if buflen = 0 then Some mem
                 else mem_write mem pos ((if buflen > 0 then take (nat buflen - 1) s else s) @ [0]));
        pos \<leftarrow> add_int pos (int (length s));
        Some (mem, pos, buflen - int (length s))
      })"

fun lmxattrib__render :: "lmx_attrib_t list \<Rightarrow> outbuf \<Rightarrow> outbuf option" where
  "lmxattrib__render [] b = Some b"
| "lmxattrib__render ((n, v) # as) b = do {
     b \<leftarrow> put_fmt ([0x20] @ n @ [0x3d, 0x27] @ (case v of None \<Rightarrow> [] | Some v \<Rightarrow> v) @ [0x27]) b;
     lmxattrib__render as b
   }"

fun lmx__render :: "lmx_t \<Rightarrow> outbuf \<Rightarrow> outbuf option" and render_all :: "lmx_t list \<Rightarrow> outbuf \<Rightarrow> outbuf option" where
  "lmx__render (LTag name attribs cs) b = do {
     b \<leftarrow> put_fmt ([0x3c] @ name) b;
     b \<leftarrow> lmxattrib__render attribs b;
     if cs = [] then put_fmt [0x2f, 0x3e] b
     else do {
       b \<leftarrow> put_fmt [0x3e] b;
       b \<leftarrow> render_all cs b;
       put_fmt ([0x3c, 0x2f] @ name @ [0x3e]) b
     }
   }"
| "lmx__render (LCdata bs) b = cdatastr__putstr (cstring bs) b"
| "render_all [] b = Some b"
| "render_all (x # xs) b = do { b \<leftarrow> lmx__render x b; render_all xs b }"

text \<open>The result is the whole block.\<close>

definition lmx_get_string :: "allocator \<Rightarrow> lmx_t option \<Rightarrow> bytes option option" where
  "lmx_get_string mal lmx =
     (case lmx of
        None \<Rightarrow> Some None
      | Some x \<Rightarrow>
          do {
            n \<leftarrow> lmx__getrenderedlen x;
            buflen \<leftarrow> add_int n 1;
            case mal (int_to_size buflen) of
              None \<Rightarrow> Some None
            | Some buf \<Rightarrow> do { (buf, _) \<leftarrow> lmx__render x (buf, 0, buflen); Some (Some buf) }
          })"

section \<open>What is written\<close>

definition xml_esc :: "bytes \<Rightarrow> bytes" where
  "xml_esc s = concat (map (\<lambda>c. case encoding c of Some e \<Rightarrow> e | None \<Rightarrow> [c]) s)"

definition xml_attrib :: "lmx_attrib_t \<Rightarrow> bytes" where
  "xml_attrib a = [0x20] @ fst a @ [0x3d, 0x27] @ (case snd a of None \<Rightarrow> [] | Some v \<Rightarrow> v) @ [0x27]"

fun xml :: "lmx_t \<Rightarrow> bytes" where
  "xml (LTag name attribs cs) = [0x3c] @ name @ concat (map xml_attrib attribs) @
     (if cs = [] then [0x2f, 0x3e] else [0x3e] @ concat (map xml cs) @ [0x3c, 0x2f] @ name @ [0x3e])"
| "xml (LCdata bs) = xml_esc (cstring bs)"

lemma xml_esc_simps [simp]:
  "xml_esc [] = []" "xml_esc (c # cs) = (case encoding c of Some e \<Rightarrow> e | None \<Rightarrow> [c]) @ xml_esc cs"
  by (simp_all add: xml_esc_def)

lemma length_xml_esc:
  "0 \<le> n \<Longrightarrow> n + int (length (xml_esc s)) < 2 ^ 31 \<Longrightarrow> strlen_loop s n = Some (n + int (length (xml_esc s)))"
  by (induction s arbitrary: n) (auto split: option.splits)

lemma encoding_cases:
  assumes "encoding c = Some e"
  shows "(c, e) \<in> {(0x26, cstr ''&amp;''), (0x27, cstr ''&apos;''), (0x22, cstr ''&quot;''), (0x3c, cstr ''&lt;''), (0x3e, cstr ''&gt;'')}"
  using assms by (auto simp: encoding_def cdatastr__convs_def split: if_splits)

lemma xml_esc_longer: "length s \<le> length (xml_esc s)"
proof (induction s)
  case (Cons c s)
  then show ?case using encoding_cases [of c] by (fastforce simp: cstr_def split: option.splits)
qed simp

lemma length_xml_attribs:
  "0 \<le> n \<Longrightarrow> n + int (length (concat (map xml_attrib as))) < 2 ^ 31 \<Longrightarrow>
     attribslen_loop as n = Some (n + int (length (concat (map xml_attrib as))))"
  by (induction as arbitrary: n) (auto simp: xml_attrib_def split: option.splits)

lemma length_xml:
  "length (xml x) < 2 ^ 31 \<Longrightarrow> lmx__getrenderedlen x = Some (int (length (xml x)))"
  "0 \<le> n \<Longrightarrow> n + int (length (concat (map xml xs))) < 2 ^ 31 \<Longrightarrow>
     renderedlen_all xs n = Some (n + int (length (concat (map xml xs))))"
  by (induction x and xs n rule: lmx__getrenderedlen_renderedlen_all.induct)
    (auto simp: length_xml_esc length_xml_attribs cdatastr__strlen_def lmxattrib__getrenderedlen_def split: if_splits)

text \<open>A function that writes \<open>s\<close> where there is room for it and a terminator; when \<open>t\<close> holds it leaves a
  terminator behind, and otherwise keeps one that was there.\<close>

definition writes :: "bool \<Rightarrow> (outbuf \<Rightarrow> outbuf option) \<Rightarrow> bytes \<Rightarrow> bool" where
  "writes t f s \<longleftrightarrow> (\<forall>mem p r. length s < r \<and> p + r = length mem \<and> length mem < 2 ^ 31 \<longrightarrow>
     (\<exists>mem'. f (mem, int p, int r) = Some (mem', int (p + length s), int (r - length s)) \<and>
       length mem' = length mem \<and> take (p + length s) mem' = take p mem @ s \<and>
       (t \<or> mem ! p = 0 \<longrightarrow> mem' ! (p + length s) = 0)))"

lemma writesD:
  assumes "writes t f s" "length s < r" "p + r = length mem" "length mem < 2 ^ 31"
  obtains mem' where "f (mem, int p, int r) = Some (mem', int (p + length s), int (r - length s))"
    "length mem' = length mem" "take (p + length s) mem' = take p mem @ s" "t \<or> mem ! p = 0 \<Longrightarrow> mem' ! (p + length s) = 0"
  using assms unfolding writes_def by blast

lemma writes_weaken:
  assumes "writes True f s"
  shows "writes t f s"
  unfolding writes_def
proof (intro allI impI)
  fix mem :: bytes and p r :: nat
  assume "length s < r \<and> p + r = length mem \<and> length mem < 2 ^ 31"
  then show "\<exists>mem'. f (mem, int p, int r) = Some (mem', int (p + length s), int (r - length s)) \<and>
      length mem' = length mem \<and> take (p + length s) mem' = take p mem @ s \<and> (t \<or> mem ! p = 0 \<longrightarrow> mem' ! (p + length s) = 0)"
    using writesD [OF assms, of r p mem] by metis
qed

lemma writes_none: "writes False Some []"
  by (simp add: writes_def)

lemma writes_seq:
  assumes f: "writes t f s" and g: "writes u g w"
  shows "writes (t \<or> u) (\<lambda>b. Option.bind (f b) g) (s @ w)"
  unfolding writes_def
proof (intro allI impI)
  fix mem :: bytes and p r :: nat
  assume a: "length (s @ w) < r \<and> p + r = length mem \<and> length mem < 2 ^ 31"
  obtain m1 where 1: "f (mem, int p, int r) = Some (m1, int (p + length s), int (r - length s))" "length m1 = length mem"
    "take (p + length s) m1 = take p mem @ s" "t \<or> mem ! p = 0 \<Longrightarrow> m1 ! (p + length s) = 0"
    using writesD [OF f, of r p mem] a by auto
  have "length w < r - length s" "p + length s + (r - length s) = length m1" "length m1 < 2 ^ 31" using a 1(2) by auto
  from writesD [OF g this] obtain m2 where 2: "g (m1, int (p + length s), int (r - length s)) =
      Some (m2, int (p + length s + length w), int (r - length s - length w))" "length m2 = length m1"
    "take (p + length s + length w) m2 = take (p + length s) m1 @ w"
    "u \<or> m1 ! (p + length s) = 0 \<Longrightarrow> m2 ! (p + length s + length w) = 0" by metis
  have "Option.bind (f (mem, int p, int r)) g = Some (m2, int (p + length (s @ w)), int (r - length (s @ w)))"
    using 1(1) 2(1) by (simp add: add.assoc)
  moreover have "take (p + length (s @ w)) m2 = take p mem @ s @ w" using 2(3) 1(3) by (simp add: add.assoc)
  moreover have "(t \<or> u) \<or> mem ! p = 0 \<longrightarrow> m2 ! (p + length (s @ w)) = 0" using 1(4) 2(4) by (auto simp: add.assoc)
  ultimately show "\<exists>mem'. Option.bind (f (mem, int p, int r)) g = Some (mem', int (p + length (s @ w)), int (r - length (s @ w))) \<and>
      length mem' = length mem \<and> take (p + length (s @ w)) mem' = take p mem @ s @ w \<and>
      ((t \<or> u) \<or> mem ! p = 0 \<longrightarrow> mem' ! (p + length (s @ w)) = 0)"
    using 1(2) 2(2) by auto
qed

lemma put_fmt_writes: "writes True (put_fmt s) s"
proof -
  have "put_fmt s (mem, int p, int r) = Some (take p mem @ s @ [0] @ drop (p + length s + 1) mem, int (p + length s), int (r - length s))"
    if "length s < r" "p + r = length mem" "length mem < 2 ^ 31" for mem p r
    using that by (simp add: put_fmt_def)
  then show ?thesis by (auto simp: writes_def nth_append)
qed

lemma attribs_writes: "writes False (lmxattrib__render as) (concat (map xml_attrib as))"
proof (induction as)
  case Nil
  have "lmxattrib__render [] = Some" by (rule ext) simp
  then show ?case by (simp add: writes_none)
next
  case (Cons a as)
  obtain n v where a: "a = (n, v)" by (cases a)
  have "lmxattrib__render (a # as) = (\<lambda>b. Option.bind (put_fmt (xml_attrib a) b) (lmxattrib__render as))"
    by (rule ext) (simp add: a xml_attrib_def)
  then show ?case using writes_weaken [of _ "xml_attrib a @ _"] writes_seq [OF put_fmt_writes Cons.IH, of "xml_attrib a"]
    by simp
qed

lemma putstr_loop_writes:
  "length (xml_esc s) < r \<Longrightarrow> p + r = length mem \<Longrightarrow> length mem < 2 ^ 31 \<Longrightarrow>
     \<exists>mem'. putstr_loop s (mem, int p, int r) = Some (mem', int (p + length (xml_esc s)), int (r - length (xml_esc s))) \<and>
       length mem' = length mem \<and> take (p + length (xml_esc s)) mem' = take p mem @ xml_esc s"
proof (induction s arbitrary: mem p r)
  case (Cons c s)
  define e where "e = (case encoding c of Some e \<Rightarrow> e | None \<Rightarrow> [c])"
  have len: "length e + length (xml_esc s) < r" using Cons.prems(1) by (simp add: e_def)
  let ?m = "take p mem @ e @ drop (p + length e) mem"
  have "putstr_loop (c # s) (mem, int p, int r) = putstr_loop s (?m, int (p + length e), int (r - length e))"
    using len Cons.prems(2,3) by (cases "encoding c") (simp_all add: e_def min_def of_nat_diff Let_def add.commute)
  moreover have "length (xml_esc s) < r - length e" "p + length e + (r - length e) = length ?m" "length ?m < 2 ^ 31"
    using len Cons.prems(2,3) by auto
  from Cons.IH [OF this] obtain mem' where
    "putstr_loop s (?m, int (p + length e), int (r - length e)) =
       Some (mem', int (p + length e + length (xml_esc s)), int (r - length e - length (xml_esc s)))"
    "length mem' = length ?m" "take (p + length e + length (xml_esc s)) mem' = take (p + length e) ?m @ xml_esc s" by blast
  moreover have "take (p + length e) ?m = take p mem @ e" using len Cons.prems(2) by simp
  ultimately show ?case using len Cons.prems(2) by (auto simp: e_def [symmetric] add.assoc)
qed simp

lemma putstr_writes: "writes True (cdatastr__putstr s) (xml_esc s)"
  unfolding writes_def
proof (intro allI impI)
  fix mem :: bytes and p r :: nat
  assume a: "length (xml_esc s) < r \<and> p + r = length mem \<and> length mem < 2 ^ 31"
  then obtain mem' where m: "putstr_loop s (mem, int p, int r) =
      Some (mem', int (p + length (xml_esc s)), int (r - length (xml_esc s)))" "length mem' = length mem"
    "take (p + length (xml_esc s)) mem' = take p mem @ xml_esc s" using putstr_loop_writes by blast
  have "cdatastr__putstr s (mem, int p, int r) = Some (take (p + length (xml_esc s)) mem' @ [0] @ drop (p + length (xml_esc s) + 1) mem',
      int (p + length (xml_esc s)), int (r - length (xml_esc s)))"
    unfolding cdatastr__putstr_def m(1) using a m(2) by (simp del: of_nat_add)
  then show "\<exists>mem'. cdatastr__putstr s (mem, int p, int r) = Some (mem', int (p + length (xml_esc s)), int (r - length (xml_esc s))) \<and>
      length mem' = length mem \<and> take (p + length (xml_esc s)) mem' = take p mem @ xml_esc s \<and>
      (True \<or> mem ! p = 0 \<longrightarrow> mem' ! (p + length (xml_esc s)) = 0)"
    using a m(2,3) by (auto simp: nth_append)
qed

lemma render_all_writes:
  assumes "\<And>x. x \<in> set xs \<Longrightarrow> writes True (lmx__render x) (xml x)"
  shows "writes False (render_all xs) (concat (map xml xs))"
  using assms
proof (induction xs)
  case Nil
  have "render_all [] = Some" by (rule ext) simp
  then show ?case by (simp add: writes_none)
next
  case (Cons x xs)
  have "render_all (x # xs) = (\<lambda>b. Option.bind (lmx__render x b) (render_all xs))" by (rule ext) simp
  moreover have "writes False (render_all xs) (concat (map xml xs))" using Cons by simp
  ultimately show ?case using writes_weaken [of _ "xml x @ _"] writes_seq [of True "lmx__render x" "xml x"] Cons.prems [of x]
    by simp
qed

lemma render_writes: "writes True (lmx__render x) (xml x)"
proof (induction x)
  case (LTag name attribs cs)
  note attribs = writes_seq [OF put_fmt_writes [of "[0x3c] @ name"] attribs_writes [of attribs]]
  show ?case
  proof (cases "cs = []")
    case True
    have "lmx__render (LTag name attribs cs) =
        (\<lambda>b. Option.bind (Option.bind (put_fmt ([0x3c] @ name) b) (lmxattrib__render attribs)) (put_fmt [0x2f, 0x3e]))"
      by (rule ext) (simp add: True)
    then show ?thesis using writes_seq [OF attribs put_fmt_writes [of "[0x2f, 0x3e]"]] True by simp
  next
    case False
    let ?close = "[0x3c, 0x2f] @ name @ [0x3e]"
    have "lmx__render (LTag name attribs cs) = (\<lambda>b. Option.bind (Option.bind (Option.bind
        (Option.bind (put_fmt ([0x3c] @ name) b) (lmxattrib__render attribs)) (put_fmt [0x3e])) (render_all cs)) (put_fmt ?close))"
      by (rule ext) (simp add: False)
    moreover have "writes False (render_all cs) (concat (map xml cs))"
      using LTag.IH by (intro render_all_writes) simp
    note writes_seq [OF writes_seq [OF writes_seq [OF attribs put_fmt_writes [of "[0x3e]"]] this] put_fmt_writes [of ?close]]
    ultimately show ?thesis using False by simp
  qed
next
  case (LCdata bs)
  have "lmx__render (LCdata bs) = cdatastr__putstr (cstring bs)" by (rule ext) simp
  then show ?case using putstr_writes by simp
qed

section \<open>Copies\<close>

fun lmx_copy :: "lmx_t \<Rightarrow> lmx_t list" where
  "lmx_copy (LTag name attribs cs) = [LTag name (rev attribs) (concat (map lmx_copy cs))]"
| "lmx_copy (LCdata bs) = (if bs = [] then [] else [LCdata bs])"

lemma newtag_total: "total_alloc mal \<Longrightarrow> lmx__newtag mal name = Some (LTag name [] [])"
  by (simp add: lmx__newtag_def total_allocD(3) del: not_None_eq)

lemma add_attrib_total:
  "total_alloc mal \<Longrightarrow> lmx_add_attrib mal (Some (LTag n as cs)) (Some a) v = (0, Some (LTag n ((a, v) # as) cs))"
  by (simp add: lmx_add_attrib_def lmxattrib__new_def total_allocD(3) split: option.split del: not_None_eq)

lemma add_attribs_total: "total_alloc mal \<Longrightarrow> add_attribs mal bs (LTag n as cs) = LTag n (rev bs @ as) cs"
  by (induction bs arbitrary: as) (auto simp: add_attribs_def add_attrib_total)

lemma add_cdata_total:
  "total_alloc mal \<Longrightarrow> 0 < l \<Longrightarrow> l \<le> int (length bs) \<Longrightarrow>
     lmx_add_cdata_bound mal (Some (LTag n as cs)) (Some bs) l = Some (0, Some (LTag n as (cs @ [LCdata (take (nat l) bs)])))"
  by (simp add: lmx_add_cdata_bound_def lmx__newcdata_def total_allocD(3) mem_read_def del: not_None_eq)

lemma add_children_total:
  assumes "\<And>y d n as ds. y \<in> set ys \<Longrightarrow> snd (lmx_add_lmx mal (LTag n as ds) y) = LTag n as (ds @ lmx_copy y)"
  shows "add_children mal (LTag n as ds) ys = LTag n as (ds @ concat (map lmx_copy ys))"
  using assms by (induction ys arbitrary: ds) simp_all

lemma add_lmx_total:
  assumes "total_alloc mal"
  shows "lmx_add_lmx mal (LTag n as ds) src = (if is_tag src then Some (length ds) else None, LTag n as (ds @ lmx_copy src))"
proof (induction src arbitrary: n as ds)
  case (LTag name attribs cs)
  then show ?case
    by (simp add: lmx_add_def newtag_total [OF assms] add_attribs_total [OF assms] add_children_total)
next
  case (LCdata bs)
  then show ?case
  proof (cases "bs = []")
    case True
    then show ?thesis by (simp add: lmx_add_cdata_bound_def)
  next
    case False
    then show ?thesis using add_cdata_total [OF assms, of "int (length bs)" "bs @ [0]" n as ds] by simp
  qed
qed

section \<open>Decoding\<close>

lemma encoding_plain: "encoding c = None \<Longrightarrow> c \<noteq> 0x26"
  by (auto simp: encoding_def cdatastr__convs_def)

lemma strncmp_first: "c \<noteq> e \<Longrightarrow> 0 < n \<Longrightarrow> strncmp_eq (e # es) (c # p) n = Some False"
  by (cases n) simp_all

lemma match_plain:
  assumes "c \<noteq> 0x26" "\<And>e. 0 < length e \<Longrightarrow> 0 < bound e"
  shows "match_conv cdatastr__convs bound (c # p) = Some None"
  using assms by (simp add: cdatastr__convs_def cstr_def strncmp_first)

lemma strncmp_cons:
  "0 < n \<Longrightarrow> strncmp_eq (e # es) (c # p) n = (if c = e then strncmp_eq es p (n - 1) else Some False)"
  by (cases n) simp_all

lemma match_entity:
  assumes "encoding c = Some e" "\<And>e'. length e' \<le> 6 \<Longrightarrow> bound e' = min (length e') N" "length e \<le> N"
  shows "match_conv cdatastr__convs bound (e @ p) = Some (Some (c, e))"
  using encoding_cases [OF assms(1)] assms(2,3)
  by (auto simp: cdatastr__convs_def cstr_def strncmp_cons)

lemma encoding_shape: "encoding c = Some e \<Longrightarrow> \<exists>es. e = 0x26 # es \<and> 3 \<le> length es"
  using encoding_cases [of c e] by (auto simp: cstr_def)

lemma decodedstrlen_esc:
  "0 \<notin> set s \<Longrightarrow> cdatastr__decodedstrlen (xml_esc s @ 0 # more) (int (length (xml_esc s))) = Some (length s)"
proof (induction s)
  case Nil
  then show ?case by (subst cdatastr__decodedstrlen.simps) simp
next
  case (Cons c s)
  let ?rest = "xml_esc s @ 0 # more"
  show ?case
  proof (cases "encoding c")
    case None
    with match_plain [OF encoding_plain [OF None], of "\<lambda>e. min (length e) (nat (1 + int (length (xml_esc s))))" ?rest] Cons
    show ?thesis by (subst cdatastr__decodedstrlen.simps) (simp add: Let_def)
  next
    case (Some e)
    obtain es where es: "e = 0x26 # es" using encoding_shape [OF Some] by blast
    define N where "N = length (xml_esc (c # s))"
    have m: "match_conv cdatastr__convs (\<lambda>e'. min (length e') (nat (int N))) (e @ ?rest) = Some (Some (c, e))"
      by (rule match_entity [OF Some, where N = N]) (simp_all add: N_def Some)
    have N: "int N - int (length es) - 1 = int (length (xml_esc s))" by (simp add: N_def Some es)
    have "cdatastr__decodedstrlen (e @ ?rest) (int N) = map_option Suc (cdatastr__decodedstrlen ?rest (int N - int (length es) - 1))"
      using m by (subst cdatastr__decodedstrlen.simps) (simp add: es Let_def map_conv_bind_option comp_def N_def Some)
    then have "cdatastr__decodedstrlen (e @ ?rest) (int N) = map_option Suc (cdatastr__decodedstrlen ?rest (int (length (xml_esc s))))"
      unfolding N .
    with Cons Some show ?thesis by (simp add: N_def)
  qed
qed

lemma decode_loop_esc:
  "0 \<notin> set s \<Longrightarrow> length (xml_esc s) \<le> L \<Longrightarrow> p + length s < length mem \<Longrightarrow>
     decode_loop (xml_esc s @ 0 # more) (int L) (mem, int p, int (length s)) =
       Some (take p mem @ s @ drop (p + length s) mem, int (p + length s), 0)"
proof (induction s arbitrary: L p mem)
  case Nil
  then show ?case by (subst decode_loop.simps) simp
next
  case (Cons c s)
  let ?rest = "xml_esc s @ 0 # more"
  let ?mem = "take p mem @ [c] @ drop (Suc p) mem"
  have rest: "take (Suc p) ?mem @ s @ drop (Suc p + length s) ?mem = take p mem @ (c # s) @ drop (p + length (c # s)) mem"
    "Suc p + length s < length ?mem" "mem_write mem (int p) [c] = Some ?mem"
    using Cons.prems(3) by (simp_all add: add.commute)
  show ?case
  proof (cases "encoding c")
    case None
    have "decode_loop (c # ?rest) (int L) (mem, int p, int (length (c # s))) = decode_loop ?rest (int L) (?mem, int (Suc p), int (length s))"
      using match_plain [OF encoding_plain [OF None], of length ?rest] Cons.prems None rest(3)
      by (subst decode_loop.simps) (simp add: Let_def add.commute)
    moreover have "length (xml_esc s) \<le> L" using Cons.prems(2) None by simp
    ultimately show ?thesis using Cons.IH [of L "Suc p" ?mem] Cons.prems(1) rest None by (simp add: add.commute)
  next
    case (Some e)
    obtain es where es: "e = 0x26 # es" "3 \<le> length es" using encoding_shape [OF Some] by blast
    have amp: "(0x26 :: naf_u8_t) \<noteq> 0" by simp
    have L: "length e + length (xml_esc s) \<le> L" using Cons.prems(2) Some by simp
    have m: "match_conv cdatastr__convs length (e @ ?rest) = Some (Some (c, e))"
      by (rule match_entity [OF Some, where N = 6]) (use encoding_cases [OF Some] in \<open>auto simp: cstr_def cdatastr__convs_def\<close>)
    have "decode_loop (e @ ?rest) (int L) (mem, int p, int (length (c # s))) =
        decode_loop ?rest (int (L - length e)) (?mem, int (Suc p), int (length s))"
      using m L es rest(3) amp by (subst decode_loop.simps) (simp add: Let_def add.commute of_nat_diff)
    moreover have "length (xml_esc s) \<le> L - length e" using L by simp
    ultimately show ?thesis using Cons.IH [of "L - length e" "Suc p" ?mem] Cons.prems(1) rest Some by (simp add: add.commute)
  qed
qed

section \<open>Properties\<close>

lemma get_string_eq:
  assumes "good_alloc mal" "length (xml x) + 1 < 2 ^ 31" "mal (length (xml x) + 1) = Some buf"
  shows "lmx_get_string mal (Some x) = Some (Some (xml x @ [0]))"
proof -
  have l: "length buf = length (xml x) + 1" using good_allocD [OF assms(1,3)] .
  obtain mem where m: "lmx__render x (buf, int 0, int (length (xml x) + 1)) = Some (mem, int (0 + length (xml x)), int (length (xml x) + 1 - length (xml x)))"
    "length mem = length buf" "take (0 + length (xml x)) mem = take 0 buf @ xml x" "True \<or> buf ! 0 = 0 \<Longrightarrow> mem ! (0 + length (xml x)) = 0"
    by (rule writesD [OF render_writes, of x "length (xml x) + 1" 0 buf]) (use l assms(2) in auto)
  have "mem = take (length (xml x)) mem @ [mem ! length (xml x)]"
    using m(2) l by (metis Suc_eq_plus1 lessI take_Suc_conv_app_nth take_all_iff order_refl)
  then have "mem = xml x @ [0]" using m(3,4) by simp
  with m(1) assms(2,3) show ?thesis by (simp add: lmx_get_string_def length_xml(1) nat_add_distrib add.commute)
qed

text \<open>C20. Writing an element whose text, with its terminator, is shorter than \<open>2 ^ 31\<close> bytes into a string never
  leaves the block that was allocated for it, and fills it exactly: the length computed beforehand, as an \<^verbatim>\<open>int\<close>, is the length of the text, and the result is the text, with tags
  opened and closed, the short form for a tag without children, attributes in the order of the list and
  character data with its special characters as entities, followed by the terminator. Only when memory is
  refused there is none.\<close>

theorem xml_string_exact:
  assumes "good_alloc mal" "length (xml x) + 1 < 2 ^ 31"
  shows "lmx__getrenderedlen x = Some (int (length (xml x))) \<and>
    lmx_get_string mal (Some x) = Some (if mal (length (xml x) + 1) = None then None else Some (xml x @ [0]))"
proof (cases "mal (length (xml x) + 1)")
  case None
  then show ?thesis using assms(2) by (simp add: lmx_get_string_def length_xml(1) nat_add_distrib)
next
  case (Some buf)
  with get_string_eq [OF assms] assms(2) show ?thesis by (simp add: length_xml(1))
qed

definition sample_lmx :: lmx_t where
  "sample_lmx = LTag [0x61] [([0x62], Some [0x31])] [LCdata [0x3c, 0x63], LTag [0x64] [] []]"

text \<open>The element is \<^verbatim>\<open><a b='1'>&lt;c<d/></a>\<close>.\<close>

theorem xml_string_exact_witness:
  "lmx_get_string zero_alloc (Some sample_lmx) = Some (Some ([0x3c, 0x61, 0x20, 0x62, 0x3d, 0x27, 0x31, 0x27, 0x3e] @
     cstr ''&lt;'' @ [0x63] @ [0x3c, 0x64, 0x2f, 0x3e] @ [0x3c, 0x2f, 0x61, 0x3e, 0]))"
proof -
  have "xml sample_lmx = [0x3c, 0x61, 0x20, 0x62, 0x3d, 0x27, 0x31, 0x27, 0x3e] @
     cstr ''&lt;'' @ [0x63] @ [0x3c, 0x64, 0x2f, 0x3e] @ [0x3c, 0x2f, 0x61, 0x3e]"
    by (simp add: sample_lmx_def xml_attrib_def cstring_def encoding_def cdatastr__convs_def)
  moreover from this have "length (xml sample_lmx) + 1 < 2 ^ 31" by (simp add: cstr_def)
  ultimately show ?thesis using xml_string_exact [OF good_zero_alloc, of sample_lmx] by (simp add: zero_alloc_def)
qed

text \<open>C21. Character data comes back as it was: a text without a zero byte that was written as a string and is read
  with its entities is the text again, whatever special characters it has. The string has less than \<open>2 ^ 31\<close>
  bytes.\<close>

theorem cdata_roundtrip:
  assumes "total_alloc mal" "0 \<notin> set s" "s \<noteq> []" "length (xml_esc s) + 1 < 2 ^ 31"
  shows "\<exists>block. lmx_get_string mal (Some (LCdata s)) = Some (Some block) \<and>
    lmx_add_cdata_bound_encoded mal (Some (LTag n as cs)) block (int (length block) - 1) =
      Some (0, Some (LTag n as (cs @ [LCdata s])))"
proof (intro exI conjI)
  obtain buf where buf: "mal (length (xml (LCdata s)) + 1) = Some buf" using total_allocD(2) [OF assms(1)] by blast
  have "cstring s = s" unfolding cstring_def takeWhile_eq_all_conv using assms(2) by metis
  then have c: "xml (LCdata s) = xml_esc s" by simp
  have "length s \<le> length (xml_esc s)" by (rule xml_esc_longer)
  then have size: "length s + 1 < 2 ^ 31" using assms(4) by simp
  show "lmx_get_string mal (Some (LCdata s)) = Some (Some (xml_esc s @ [0]))"
    using get_string_eq [OF total_allocD(1) [OF assms(1)] _ buf] assms(4) c by simp
  obtain b where b: "mal (length s + 1) = Some b" "length b = length s + 1" using total_allocD(2) [OF assms(1)] by blast
  have "cdatastr__decode (b, 0, int (length s)) (xml_esc s @ [0]) (int (length (xml_esc s))) =
      Some (s @ [0], int (length s), 0)"
    using decode_loop_esc [OF assms(2) order_refl, of 0 b "[]"] b(2) by (simp add: cdatastr__decode_def)
  then show "lmx_add_cdata_bound_encoded mal (Some (LTag n as cs)) (xml_esc s @ [0]) (int (length (xml_esc s @ [0])) - 1) =
      Some (0, Some (LTag n as (cs @ [LCdata s])))"
    using decodedstrlen_esc [OF assms(2), of "[]"] b(1) add_cdata_total [OF assms(1), of "int (length s)" "s @ [0]" n as cs] assms(3)
      size
    by (simp add: lmx_add_cdata_bound_encoded_def nat_add_distrib)
qed

theorem cdata_roundtrip_witness:
  "\<exists>block. lmx_get_string zero_alloc (Some (LCdata [0x26, 0x3c, 0x61])) = Some (Some block) \<and>
    lmx_add_cdata_bound_encoded zero_alloc (Some (LTag [0x62] [] [])) block (int (length block) - 1) =
      Some (0, Some (LTag [0x62] [] [LCdata [0x26, 0x3c, 0x61]]))"
  using cdata_roundtrip [OF total_zero_alloc, of "[0x26, 0x3c, 0x61]" "[0x62]" "[]" "[]"]
    by (simp add: encoding_def cdatastr__convs_def cstr_def)

text \<open>Copying an element under another one appends one child with the same name, the same attributes and
  children in order, and touches nothing that was there; the attributes of every copied tag come out in
  reverse, and empty character data is dropped.\<close>

theorem copy_appends:
  assumes "total_alloc mal"
  shows "lmx_add_lmx mal (LTag n as ds) (LTag name attribs cs) =
      (Some (length ds), LTag n as (ds @ [LTag name (rev attribs) (concat (map lmx_copy cs))])) \<and>
    lmx_add_lmx mal (LTag n as ds) (LCdata bs) = (None, LTag n as (ds @ (if bs = [] then [] else [LCdata bs])))"
  using add_lmx_total [OF assms, of n as ds "LTag name attribs cs"] add_lmx_total [OF assms, of n as ds "LCdata bs"]
  by (simp del: lmx_add_lmx.simps)

theorem copy_appends_witness:
  "lmx_add_lmx zero_alloc (LTag [1] [] []) sample_lmx = (Some 0, LTag [1] [] [sample_lmx])"
  using copy_appends [OF total_zero_alloc, of "[1]" "[]" "[]" "[0x61]" "[([0x62], Some [0x31])]"
    "[LCdata [0x3c, 0x63], LTag [0x64] [] []]"] by (simp add: sample_lmx_def)

text \<open>A text that ends in the middle of an entity is read past its end: here a block of an ampersand and the
  terminator.\<close>

lemma entity_overread: "lmx_add_cdata_bound_encoded mal lmx [0x26, 0] 1 = None"
  by (simp add: lmx_add_cdata_bound_encoded_def cdatastr__decodedstrlen.simps [of "[0x26, 0]"] cdatastr__decodedstrlen.simps [of "[]"]
    cdatastr__convs_def cstr_def)

text \<open>The length is counted in an \<^verbatim>\<open>int\<close>: character data of \<open>2 ^ 31\<close> bytes overflows it.\<close>

lemma strlen_loop_over:
  "encoding c = None \<Longrightarrow> 0 \<le> n \<Longrightarrow> 2 ^ 31 \<le> n + int k \<Longrightarrow> n < 2 ^ 31 \<Longrightarrow> strlen_loop (replicate k c) n = None"
proof (induction k arbitrary: n)
  case (Suc k)
  then show ?case by (cases "n + 1 < 2 ^ 31") (simp_all add: add_int_over)
qed simp

lemma long_cdata_overflows: "lmx_get_string mal (Some (LCdata (replicate (2 ^ 31) 0x61))) = None"
proof -
  have "cstring (replicate (2 ^ 31) 0x61) = replicate (2 ^ 31) 0x61"
    unfolding cstring_def takeWhile_eq_all_conv by (simp add: in_set_replicate)
  moreover have "encoding 0x61 = None" by (simp add: encoding_def cdatastr__convs_def)
  then have "cdatastr__strlen (replicate (2 ^ 31) 0x61) = None"
    unfolding cdatastr__strlen_def by (rule strlen_loop_over) simp_all
  ultimately show ?thesis by (simp only: lmx_get_string_def lmx__getrenderedlen.simps option.simps Option.bind.simps)
qed

text \<open>Attribute values are written as they are: an apostrophe ends the value, and two elements give the
  same string.\<close>

lemma attribs_ambiguous:
  "xml (LTag [0x61] [([0x62], Some [0x31, 0x27, 0x20, 0x63, 0x3d, 0x27, 0x32])] []) =
   xml (LTag [0x61] [([0x62], Some [0x31]), ([0x63], Some [0x32])] [])"
  by (simp add: xml_attrib_def)

end
