(* ===== verification/Ipv4.thy ===== *)
theory Ipv4
  imports Net Sbuf
begin

text \<open>
  Packets of the user-space network stack, the second half of \<^verbatim>\<open>naf/ipv4/ipv4.c\<close> and \<^verbatim>\<open>naf/ipv4/icmpv4.c\<close>.
  Functions are called through their addresses: \<open>hdl\<close> runs a protocol handler, \<open>outf\<close> the output function of
  an interface; both work on the world \<open>w\<close> outside the stack. The host is little-endian.
\<close>

section \<open>Data\<close>

abbreviation (input) NAF_NET_IPFLAG_MOREFRAG :: naf_u32_t where "NAF_NET_IPFLAG_MOREFRAG \<equiv> 0x00000001"
abbreviation (input) NAF_NET_IPFLAG_DONTFRAG :: naf_u32_t where "NAF_NET_IPFLAG_DONTFRAG \<equiv> 0x00000002"
abbreviation (input) NAF_NET_IPFIELD_TOS :: naf_u16_t where "NAF_NET_IPFIELD_TOS \<equiv> 0x0001"
abbreviation (input) NAF_NET_IPFIELD_ID :: naf_u16_t where "NAF_NET_IPFIELD_ID \<equiv> 0x0002"
abbreviation (input) NAF_NET_IPFIELD_FRAGOFF :: naf_u16_t where "NAF_NET_IPFIELD_FRAGOFF \<equiv> 0x0004"
abbreviation (input) NAF_NET_IPFIELD_TTL :: naf_u16_t where "NAF_NET_IPFIELD_TTL \<equiv> 0x0008"
abbreviation (input) NAF_NET_IPFIELD_PROTOCOL :: naf_u16_t where "NAF_NET_IPFIELD_PROTOCOL \<equiv> 0x0010"
abbreviation (input) NAF_NET_IPFIELD_SADDR :: naf_u16_t where "NAF_NET_IPFIELD_SADDR \<equiv> 0x0020"
abbreviation (input) NAF_NET_IPFIELD_DADDR :: naf_u16_t where "NAF_NET_IPFIELD_DADDR \<equiv> 0x0040"
abbreviation (input) NAF_NET_IPOPT_SECURITY :: naf_u16_t where "NAF_NET_IPOPT_SECURITY \<equiv> 0x0001"
abbreviation (input) NAF_NET_IPOPT_LSRR :: naf_u16_t where "NAF_NET_IPOPT_LSRR \<equiv> 0x0002"
abbreviation (input) NAF_NET_IPOPT_SSRR :: naf_u16_t where "NAF_NET_IPOPT_SSRR \<equiv> 0x0004"
abbreviation (input) NAF_NET_IPOPT_RR :: naf_u16_t where "NAF_NET_IPOPT_RR \<equiv> 0x0008"
abbreviation (input) NAF_NET_IPOPT_SID :: naf_u16_t where "NAF_NET_IPOPT_SID \<equiv> 0x0010"
abbreviation (input) NAF_NET_IPOPT_TIMESTAMP :: naf_u16_t where "NAF_NET_IPOPT_TIMESTAMP \<equiv> 0x0020"
abbreviation (input) MINIPHDRLEN :: nat where "MINIPHDRLEN \<equiv> 20"
abbreviation (input) NAF_NET_TTL_DEFAULT :: naf_u8_t where "NAF_NET_TTL_DEFAULT \<equiv> 255"
abbreviation (input) sizeof_naf_ipv4_prot :: nat where "sizeof_naf_ipv4_prot \<equiv> 32"
abbreviation (input) sizeof_nafnet_ip :: nat where "sizeof_nafnet_ip \<equiv> 80"

record naf_ipv4_prot =
  nip_protocol :: naf_u8_t
  nip_mod :: nafmod
  nip_handler :: nat

record nafnet_ip =
  ip_flags :: naf_u32_t
  ip_fields :: naf_u16_t
  ip_options :: naf_u16_t
  ip_tos :: naf_u8_t
  ip_id :: naf_u16_t
  ip_fragoff :: naf_u16_t
  ip_ttl :: naf_u8_t
  ip_protocol :: naf_u8_t
  ip_saddr :: naf_u32_t
  ip_daddr :: naf_u32_t
  ip_data :: naf_sbuf_t
  ip_rt :: "nafnet_rt option"

text \<open>The header as it is read; the addresses are \<^verbatim>\<open>struct in_addr\<close> of 32 bits.\<close>

record nafnet_ipraw =
  raw_v :: naf_u8_t
  raw_hl :: naf_u8_t
  raw_tos :: naf_u8_t
  raw_len :: naf_u16_t
  raw_id :: naf_u16_t
  raw_off :: naf_u16_t
  raw_ttl :: naf_u8_t
  raw_p :: naf_u8_t
  raw_sum :: naf_u16_t
  raw_src :: "32 word"
  raw_dst :: "32 word"

section \<open>Protocols\<close>

definition naf_ipv4_prot_register ::
    "allocator \<Rightarrow> nafmod option \<Rightarrow> naf_u8_t \<Rightarrow> nat option \<Rightarrow> naf_ipv4_prot list \<Rightarrow> int \<times> naf_ipv4_prot list" where
  "naf_ipv4_prot_register mal md prot func protlist =
     (case (md, func) of
        (Some m, Some f) \<Rightarrow>
          (if mal sizeof_naf_ipv4_prot = None then (-1, protlist)
           else (0, \<lparr>nip_protocol = prot, nip_mod = m, nip_handler = f\<rparr> # protlist))
      | _ \<Rightarrow> (-1, protlist))"

definition naf_ipv4_prot_unregister ::
    "nafmod option \<Rightarrow> naf_u8_t \<Rightarrow> nat option \<Rightarrow> naf_ipv4_prot list \<Rightarrow> int \<times> naf_ipv4_prot list" where
  "naf_ipv4_prot_unregister md prot func protlist =
     (let (r, l) = unlink_first (\<lambda>nipc. Some (nip_mod nipc) = md \<and> nip_protocol nipc = prot \<and> Some (nip_handler nipc) = func)
                     protlist
      in (if r = None then -1 else 0, l))"

section \<open>The header\<close>

text \<open>The checksum field is set to zero in the packet itself. A packet that is too short gives no header.\<close>

definition getiphdr :: "allocator \<Rightarrow> naf_sbuf_t \<Rightarrow> (nafnet_ipraw option \<times> naf_sbuf_t) option" where
  "getiphdr mal sb =
     (if naf_sbuf_bytesremaining sb < int MINIPHDRLEN then Some (None, sb)
      else do {
        (b, sb) \<leftarrow> naf_sbuf_get8 sb;
        (tos, sb) \<leftarrow> naf_sbuf_get8 sb;
        (len, sb) \<leftarrow> naf_sbuf_get16 sb;
        (idn, sb) \<leftarrow> naf_sbuf_get16 sb;
        (off, sb) \<leftarrow> naf_sbuf_get16 sb;
        (ttl, sb) \<leftarrow> naf_sbuf_get8 sb;
        (p, sb) \<leftarrow> naf_sbuf_get8 sb;
        (csum, sb) \<leftarrow> naf_sbuf_get16 sb;
        (_, sb) \<leftarrow> naf_sbuf_setpos mal sb (word_of_int (naf_sbuf_getpos sb - 2));
        (_, sb) \<leftarrow> naf_sbuf_put16 mal sb 0x0000;
        (src, sb) \<leftarrow> naf_sbuf_get32 sb;
        (dst, sb) \<leftarrow> naf_sbuf_get32 sb;
        Some (Some \<lparr>raw_v = drop_bit 4 b AND 0xf, raw_hl = b AND 0xf, raw_tos = tos, raw_len = len, raw_id = idn,
                raw_off = off, raw_ttl = ttl, raw_p = p, raw_sum = csum, raw_src = ucast src, raw_dst = ucast dst\<rparr>, sb)
      })"

text \<open>The words of the header are loaded in the order of the host; the result is put into network order.\<close>

fun hdrcsum_loop :: "bytes \<Rightarrow> nat \<Rightarrow> naf_u32_t \<Rightarrow> (naf_u32_t \<times> bytes \<times> nat) option" where
  "hdrcsum_loop p len tot =
     (if len > 1
      then (case p of
              b0 # b1 # p \<Rightarrow> hdrcsum_loop p (len - 2) (tot + (ucast b0 + 256 * ucast b1))
            | _ \<Rightarrow> None)
      else Some (tot, p, len))"

declare hdrcsum_loop.simps [simp del]

definition htons :: "naf_u16_t \<Rightarrow> naf_u16_t" where
  "htons v = push_bit 8 v OR drop_bit 8 v"

definition naf_ipv4__hdrcsum :: "bytes \<Rightarrow> naf_u16_t \<Rightarrow> naf_u16_t option" where
  "naf_ipv4__hdrcsum buf len = do {
     (tot, p, len) \<leftarrow> hdrcsum_loop buf (unat len) 0;
     tot \<leftarrow> (if len \<noteq> 0 then (case p of b # _ \<Rightarrow> Some (tot + ucast b) | [] \<Rightarrow> None) else Some tot);
     let tot = drop_bit 16 tot + (tot AND 0xffff);
     Some (NOT (htons (ucast (tot AND 0xffff))))
   }"

text \<open>The options; every branch but the last goes on.\<close>

definition option_flag :: "naf_u8_t \<Rightarrow> naf_u16_t option" where
  "option_flag type =
     (if type = 131 then Some NAF_NET_IPOPT_LSRR else if type = 137 then Some NAF_NET_IPOPT_SSRR
      else if type = 7 then Some NAF_NET_IPOPT_RR else if type = 68 then Some NAF_NET_IPOPT_TIMESTAMP else None)"

partial_function (option) naf_ipv4__parseoptions :: "allocator \<Rightarrow> naf_sbuf_t \<Rightarrow> nafnet_ip \<Rightarrow> (naf_sbuf_t \<times> nafnet_ip) option" where
  "naf_ipv4__parseoptions mal sb ip =
     (if naf_sbuf_bytesremaining sb = 0 then Some (sb, ip)
      else
        Option.bind (naf_sbuf_get8 sb) (\<lambda>(type, sb).
        if type = 0 then Some (sb, ip)
        else if type = 1 then naf_ipv4__parseoptions mal sb ip
        else if type = 130
        then Option.bind (naf_sbuf_advance mal sb 11) (\<lambda>(_, sb).
               naf_ipv4__parseoptions mal sb (ip\<lparr>ip_options := ip_options ip OR NAF_NET_IPOPT_SECURITY\<rparr>))
        else if type = 136
        then Option.bind (naf_sbuf_advance mal sb 4) (\<lambda>(_, sb).
               naf_ipv4__parseoptions mal sb (ip\<lparr>ip_options := ip_options ip OR NAF_NET_IPOPT_SID\<rparr>))
        else case option_flag type of
               Some flag \<Rightarrow>
                 Option.bind (naf_sbuf_get8 sb) (\<lambda>(len, sb).
                 Option.bind (naf_sbuf_advance mal sb (ucast len - 2)) (\<lambda>(_, sb).
                   naf_ipv4__parseoptions mal sb (ip\<lparr>ip_options := ip_options ip OR flag\<rparr>)))
             | None \<Rightarrow> Some (sb, ip)))"

section \<open>Receiving\<close>

type_synonym 'w protfunc = "nat \<Rightarrow> nafmod \<Rightarrow> nafnet_ip \<Rightarrow> 'w \<Rightarrow> (int \<times> nafnet_ip \<times> 'w) option"

fun naf_ipv4_input__callhandler ::
    "allocator \<Rightarrow> 'w protfunc \<Rightarrow> naf_ipv4_prot list \<Rightarrow> nafnet_ip \<Rightarrow> 'w \<Rightarrow> (int \<times> nafnet_ip \<times> 'w) option" where
  "naf_ipv4_input__callhandler mal hdl [] ip w = Some (-1, ip, w)"
| "naf_ipv4_input__callhandler mal hdl (nip # rest) ip w =
     (if nip_protocol nip = ip_protocol ip
      then do {
        (r, ip, w) \<leftarrow> hdl (nip_handler nip) (nip_mod nip) ip w;
        if r = 0 then Some (0, ip, w)
        else do {
          (_, sb) \<leftarrow> naf_sbuf_rewind mal (ip_data ip);
          naf_ipv4_input__callhandler mal hdl rest (ip\<lparr>ip_data := sb\<rparr>) w
        }
      }
      else naf_ipv4_input__callhandler mal hdl rest ip w)"

definition ip_zero :: "naf_sbuf_t \<Rightarrow> nafnet_ip" where
  "ip_zero sb = \<lparr>ip_flags = 0, ip_fields = 0, ip_options = 0, ip_tos = 0, ip_id = 0, ip_fragoff = 0, ip_ttl = 0, ip_protocol = 0,
     ip_saddr = 0, ip_daddr = 0, ip_data = sb, ip_rt = None\<rparr>"

definition naf_ipv4_ip_new :: "allocator \<Rightarrow> nafmod option \<Rightarrow> nafnet_ip option" where
  "naf_ipv4_ip_new mal md =
     (if mal sizeof_nafnet_ip = None then None else Some (ip_zero (snd (naf_sbuf_init mal md None 0))))"

text \<open>The packet that the header describes. Its data are the rest of the block, of the length that the header gives.\<close>

definition ip_received :: "allocator \<Rightarrow> nafmod option \<Rightarrow> nafnet_ipraw \<Rightarrow> bytes \<Rightarrow> naf_u16_t \<Rightarrow> nafnet_ip" where
  "ip_received mal md iph data datalen =
     (let ip = (ip_zero (snd (naf_sbuf_init mal md (Some data) datalen)))
            \<lparr>ip_tos := raw_tos iph, ip_id := raw_id iph, ip_fragoff := raw_off iph, ip_ttl := raw_ttl iph,
             ip_protocol := raw_p iph, ip_saddr := ucast (raw_src iph), ip_daddr := ucast (raw_dst iph),
             ip_fields := NAF_NET_IPFIELD_TOS OR NAF_NET_IPFIELD_ID OR NAF_NET_IPFIELD_FRAGOFF OR NAF_NET_IPFIELD_TTL OR
               NAF_NET_IPFIELD_PROTOCOL OR NAF_NET_IPFIELD_SADDR OR NAF_NET_IPFIELD_DADDR\<rparr>;
          ip = (if ip_fragoff ip AND 0x4000 \<noteq> 0 then ip\<lparr>ip_flags := ip_flags ip OR NAF_NET_IPFLAG_DONTFRAG\<rparr> else ip);
          ip = (if ip_fragoff ip AND 0x2000 \<noteq> 0 then ip\<lparr>ip_flags := ip_flags ip OR NAF_NET_IPFLAG_MOREFRAG\<rparr> else ip)
      in ip\<lparr>ip_fragoff := ip_fragoff ip AND NOT 0xe000\<rparr>)"

text \<open>\<open>ipmod\<close> is the module of the stack.\<close>

definition naf_ipv4_input ::
    "allocator \<Rightarrow> 'w protfunc \<Rightarrow> nafmod option \<Rightarrow> naf_ipv4_prot list \<Rightarrow> nafmod option \<Rightarrow> bytes option \<Rightarrow> naf_u16_t \<Rightarrow> 'w
       \<Rightarrow> (int \<times> 'w) option" where
  "naf_ipv4_input mal hdl ipmod protlist inmod buf buflen w =
     (case (inmod, buf) of
        (Some _, Some buf) \<Rightarrow> do {
          (iph, sb) \<leftarrow> getiphdr mal (snd (naf_sbuf_init mal ipmod (Some buf) buflen));
          case iph of
            None \<Rightarrow> Some (0, w)
          | Some iph \<Rightarrow>
              (let hdrlen = ucast (raw_hl iph) * 4 :: naf_u16_t
               in if hdrlen > buflen \<or> raw_len iph > buflen then Some (0, w)
                  else do {
                    let sb = sb\<lparr>sbuf_buflen := hdrlen\<rparr>;
                    if raw_v iph \<noteq> 4 then Some (0, w)
                    else if raw_ttl iph = 0 then Some (0, w)
                    else do {
                      buf \<leftarrow> sbuf_buf sb;
                      csum \<leftarrow> naf_ipv4__hdrcsum buf hdrlen;
                      if csum \<noteq> raw_sum iph then Some (0, w)
                      else do {
                        (sb, ip) \<leftarrow> naf_ipv4__parseoptions mal sb
                          (ip_received mal ipmod iph (drop (unat hdrlen) buf) (raw_len iph - hdrlen));
                        (_, _, w) \<leftarrow> naf_ipv4_input__callhandler mal hdl protlist ip w;
                        Some (0, w)
                      }
                    }
                  })
        }
      | _ \<Rightarrow> Some (-1, w))"

section \<open>Sending\<close>

type_synonym 'w outfunc = "nat \<Rightarrow> nafnet_if \<Rightarrow> naf_sbuf_t \<Rightarrow> 'w \<Rightarrow> (int \<times> naf_sbuf_t \<times> 'w) option"

definition has_field :: "naf_u16_t \<Rightarrow> nafnet_ip \<Rightarrow> bool" where
  "has_field f ip \<longleftrightarrow> ip_fields ip AND f \<noteq> 0"

text \<open>The fields that the caller has not set.\<close>

definition ip_defaults :: "nafnet_ip \<Rightarrow> nafnet_ip" where
  "ip_defaults ip =
     (let ip = (if has_field NAF_NET_IPFIELD_TTL ip then ip else ip\<lparr>ip_ttl := NAF_NET_TTL_DEFAULT\<rparr>);
          ip = (if has_field NAF_NET_IPFIELD_TOS ip then ip else ip\<lparr>ip_tos := 0\<rparr>);
          ip = (if has_field NAF_NET_IPFIELD_ID ip then ip else ip\<lparr>ip_id := 0\<rparr>);
          ip = ip\<lparr>ip_fragoff := 0\<rparr>
      in if ip_flags ip AND NAF_NET_IPFLAG_DONTFRAG \<noteq> 0 then ip\<lparr>ip_fragoff := ip_fragoff ip OR 0x4000\<rparr> else ip)"

text \<open>Header and data in a new buffer.\<close>

definition put_ip :: "allocator \<Rightarrow> nafnet_ip \<Rightarrow> naf_u16_t \<Rightarrow> naf_sbuf_t \<Rightarrow> (nafnet_ip \<times> naf_sbuf_t) option" where
  "put_ip mal ip totlen ips = do {
     (_, ips) \<leftarrow> naf_sbuf_put8 mal ips 0x45;
     (_, ips) \<leftarrow> naf_sbuf_put8 mal ips (ip_tos ip);
     (_, ips) \<leftarrow> naf_sbuf_put16 mal ips totlen;
     (_, ips) \<leftarrow> naf_sbuf_put16 mal ips (ip_id ip);
     (_, ips) \<leftarrow> naf_sbuf_put16 mal ips (ip_fragoff ip);
     (_, ips) \<leftarrow> naf_sbuf_put8 mal ips (ip_ttl ip);
     (_, ips) \<leftarrow> naf_sbuf_put8 mal ips (ip_protocol ip);
     let ckpos = naf_sbuf_getpos ips;
     (_, ips) \<leftarrow> naf_sbuf_put16 mal ips 0x0000;
     (_, ips) \<leftarrow> naf_sbuf_put32 mal ips (ip_saddr ip);
     (_, ips) \<leftarrow> naf_sbuf_put32 mal ips (ip_daddr ip);
     (_, data) \<leftarrow> naf_sbuf_rewind mal (ip_data ip);
     p \<leftarrow> (case naf_sbuf_getposptr data of Some p \<Rightarrow> Some p | None \<Rightarrow> if naf_sbuf_bytesremaining data = 0 then Some [] else None);
     (_, ips) \<leftarrow> naf_sbuf_putraw mal ips p (nat (naf_sbuf_bytesremaining data));
     (_, ips) \<leftarrow> naf_sbuf_setpos mal ips (word_of_int ckpos);
     buf \<leftarrow> sbuf_buf ips;
     csum \<leftarrow> naf_ipv4__hdrcsum buf (of_nat MINIPHDRLEN);
     (_, ips) \<leftarrow> naf_sbuf_put16 mal ips csum;
     (_, ips) \<leftarrow> naf_sbuf_rewind mal ips;
     Some (ip\<lparr>ip_data := data\<rparr>, ips)
   }"

text \<open>When the call fails the packet is still the caller's; else it is gone.\<close>

definition naf_ipv4_output ::
    "allocator \<Rightarrow> 'w outfunc \<Rightarrow> nafmod option \<Rightarrow> 'z netstate_scheme \<Rightarrow> nafmod option \<Rightarrow> nafnet_ip option \<Rightarrow> 'w
       \<Rightarrow> (int \<times> nafnet_ip option \<times> 'w) option" where
  "naf_ipv4_output mal outf ipmod st md ip w =
     (case (md, ip) of
        (Some _, Some ip) \<Rightarrow>
          (if \<not> has_field NAF_NET_IPFIELD_DADDR ip \<or> \<not> has_field NAF_NET_IPFIELD_PROTOCOL ip then Some (-1, Some ip, w)
           else
             let ip = (if ip_rt ip = None then ip\<lparr>ip_rt := naf_ipv4_getroute (ip_daddr ip) st\<rparr> else ip)
             in case Option.bind (ip_rt ip) rt_if of
                  None \<Rightarrow> Some (-1, Some ip, w)
                | Some i \<Rightarrow> do {
                    nif \<leftarrow> List.find (\<lambda>nif. if_self nif = i) (net_iflist st);
                    ip \<leftarrow> (if has_field NAF_NET_IPFIELD_SADDR ip then Some ip
                           else (case if_addrs nif of
                                   [] \<Rightarrow> None
                                 | ifa # _ \<Rightarrow> Some (ip\<lparr>ip_saddr := ifaa_ipv4_addr ifa\<rparr>)));
                    let ip = ip_defaults ip;
                    let totlen = of_nat MINIPHDRLEN + sbuf_buflen (ip_data ip);
                    let (r, ips) = naf_sbuf_init mal ipmod None totlen;
                    if r = -1 then Some (-1, Some ip, w)
                    else do {
                      (ip, ips) \<leftarrow> put_ip mal ip totlen ips;
                      case if_outputf nif of
                        None \<Rightarrow> Some (-1, Some ip, w)
                      | Some f \<Rightarrow> do {
                          (r, _, w) \<leftarrow> outf f nif ips w;
                          Some (if r = -1 then (-1, Some ip, w) else (0, None, w))
                        }
                    }
                  })
      | _ \<Rightarrow> Some (-1, ip, w))"

section \<open>What is read from the header\<close>

definition iphdr_of :: "bytes \<Rightarrow> nafnet_ipraw" where
  "iphdr_of b = \<lparr>raw_v = drop_bit 4 (naf_byte_get8 b) AND 0xf, raw_hl = naf_byte_get8 b AND 0xf, raw_tos = naf_byte_get8 (drop 1 b),
     raw_len = naf_byte_get16 (drop 2 b), raw_id = naf_byte_get16 (drop 4 b), raw_off = naf_byte_get16 (drop 6 b),
     raw_ttl = naf_byte_get8 (drop 8 b), raw_p = naf_byte_get8 (drop 9 b), raw_sum = naf_byte_get16 (drop 10 b),
     raw_src = ucast (naf_byte_get32 (drop 12 b)), raw_dst = ucast (naf_byte_get32 (drop 16 b))\<rparr>"

definition zero_sum :: "bytes \<Rightarrow> bytes" where
  "zero_sum b = take 10 b @ [0, 0] @ drop 12 b"

lemma length_zero_sum: "12 \<le> length b \<Longrightarrow> length (zero_sum b) = length b"
  by (simp add: zero_sum_def)

abbreviation given_sbuf :: "nafmod option \<Rightarrow> bytes \<Rightarrow> naf_u16_t \<Rightarrow> naf_u16_t \<Rightarrow> naf_sbuf_t" where
  "given_sbuf md b len pos \<equiv> \<lparr>sbuf_owner = md, sbuf_flags = 0, sbuf_buf = Some b, sbuf_buflen = len, sbuf_pos = pos\<rparr>"

lemma byte_get_take:
  "1 \<le> k \<Longrightarrow> naf_byte_get8 (take k bs) = naf_byte_get8 bs"
  "2 \<le> k \<Longrightarrow> naf_byte_get16 (take k bs) = naf_byte_get16 bs"
  "4 \<le> k \<Longrightarrow> naf_byte_get32 (take k bs) = naf_byte_get32 bs"
  using naf_byte_get_take [of "take k bs"] naf_byte_get_take [of bs] by (simp_all add: min_def)

text \<open>Only the first 20 bytes count.\<close>

lemma iphdr_of_append:
  assumes "20 \<le> length b"
  shows "iphdr_of (b @ r) = iphdr_of b"
proof -
  have d: "drop k b = take (length b - k) (drop k (b @ r))" for k by (simp add: take_drop [symmetric])
  have g8: "naf_byte_get8 (drop k b) = naf_byte_get8 (drop k (b @ r))" if "k < 20" for k
    unfolding d [of k] using that assms by (intro byte_get_take(1)) simp
  have g16: "naf_byte_get16 (drop k b) = naf_byte_get16 (drop k (b @ r))" if "k < 19" for k
    unfolding d [of k] using that assms by (intro byte_get_take(2)) simp
  have g32: "naf_byte_get32 (drop k b) = naf_byte_get32 (drop k (b @ r))" if "k < 17" for k
    unfolding d [of k] using that assms by (intro byte_get_take(3)) simp
  show ?thesis
    unfolding iphdr_of_def using g8 [of 0] g8 [of 1] g8 [of 8] g8 [of 9] g16 [of 2] g16 [of 4] g16 [of 6] g16 [of 10] g32 [of 12] g32 [of 16]
    by (simp del: drop_append)
qed

lemma given_inv: "unat len \<le> length b \<Longrightarrow> unat pos \<le> unat len \<Longrightarrow> sbuf_inv (given_sbuf md b len pos)"
  by (simp add: sbuf_inv_def word_le_nat_alt)

lemma given_rest: "sbuf_rest (given_sbuf md b len pos) = take (unat len - unat pos) (drop (unat pos) b)"
  by (simp add: sbuf_rest_def sbuf_mem_def)

lemma given_gets:
  assumes "unat len \<le> length b"
  shows "unat pos + 1 \<le> unat len \<Longrightarrow>
      naf_sbuf_get8 (given_sbuf md b len pos) = Some (naf_byte_get8 (drop (unat pos) b), given_sbuf md b len (pos + 1))"
    "unat pos + 2 \<le> unat len \<Longrightarrow>
      naf_sbuf_get16 (given_sbuf md b len pos) = Some (naf_byte_get16 (drop (unat pos) b), given_sbuf md b len (pos + 2))"
    "unat pos + 4 \<le> unat len \<Longrightarrow>
      naf_sbuf_get32 (given_sbuf md b len pos) = Some (naf_byte_get32 (drop (unat pos) b), given_sbuf md b len (pos + 4))"
  using assms by (simp_all add: sbuf_get_eqs given_inv given_rest byte_get_take)

lemma given_remaining:
  "unat pos + n \<le> unat len \<Longrightarrow> \<not> naf_sbuf_bytesremaining (given_sbuf md b len pos) < int n"
  unfolding naf_sbuf_bytesremaining_def uint_nat by (simp only: naf_sbuf_t.select_convs)

lemma given_setpos: "unat npos \<le> unat len \<Longrightarrow>
    naf_sbuf_setpos mal (given_sbuf md b len pos) npos = Some (0, given_sbuf md b len npos)"
  by (simp add: naf_sbuf_setpos_def word_less_nat_alt)

lemma given_put16:
  assumes "unat pos + 2 \<le> unat len" "unat len \<le> length b"
  shows "naf_sbuf_put16 mal (given_sbuf md b len pos) v =
    Some (2, given_sbuf md (take (unat pos) b @ naf_byte_put16 v @ drop (unat pos + 2) b) len (pos + 2))"
proof -
  have "sbuf_reserve mal (given_sbuf md b len pos) 2 = Some (0, given_sbuf md b len pos)"
    using given_remaining [OF assms(1)] by (simp add: sbuf_reserve_def)
  moreover have "mem_write b (uint pos) (naf_byte_put16 v) = Some (take (unat pos) b @ naf_byte_put16 v @ drop (unat pos + 2) b)"
    using assms unfolding uint_nat by (subst mem_write_nat) simp_all
  ultimately show ?thesis by (simp add: naf_sbuf_put16_def sbuf_store_def)
qed

lemma getiphdr_eq:
  assumes "20 \<le> unat buflen" "unat buflen \<le> length b"
  shows "getiphdr mal (given_sbuf md b buflen 0) = Some (Some (iphdr_of b), given_sbuf md (zero_sum b) buflen 20)"
proof -
  have len: "20 \<le> length b" "length (zero_sum b) = length b" using assms by (simp_all add: length_zero_sum)
  have z: "take 10 b @ naf_byte_put16 0 @ drop 12 b = zero_sum b" by (simp add: naf_byte_put16_def zero_sum_def)
  have d: "drop 12 (zero_sum b) = drop 12 b" "drop 16 (zero_sum b) = drop 16 b" using len(1) by (simp_all add: zero_sum_def)
  have r: "\<not> naf_sbuf_bytesremaining (given_sbuf md b buflen 0) < int MINIPHDRLEN"
    using assms by (intro given_remaining) simp
  note ops = given_gets given_setpos given_put16
  show ?thesis
    unfolding getiphdr_def if_not_P [OF r] using assms len
    by (simp add: ops naf_sbuf_getpos_def z d iphdr_of_def)
qed

lemma hdrcsum_loop_total: "len \<le> length p \<Longrightarrow> \<exists>tot'. hdrcsum_loop p len tot = Some (tot', drop (len - len mod 2) p, len mod 2)"
proof (induction p len tot rule: hdrcsum_loop.induct)
  case (1 p len tot)
  show ?case
  proof (cases "len > 1")
    case True
    with "1.prems" obtain b0 b1 p' where p: "p = b0 # b1 # p'"
      by (metis One_nat_def Suc_le_length_iff less_eq_Suc_le order_trans)
    from True have "len - len mod 2 = Suc (Suc (len - 2 - (len - 2) mod 2))" "(len - 2) mod 2 = len mod 2"
      using le_mod_geq [of 2 len] mod_less_eq_dividend [of "len - 2" 2] by linarith+
    with "1.IH" [OF True p] "1.prems" True p show ?thesis by (subst hdrcsum_loop.simps) simp
  next
    case False
    then have "len mod 2 = len" by simp
    with False show ?thesis by (subst hdrcsum_loop.simps) simp
  qed
qed

lemma hdrcsum_total: "unat len \<le> length b \<Longrightarrow> \<exists>s. naf_ipv4__hdrcsum b len = Some s"
proof -
  assume len: "unat len \<le> length b"
  then obtain tot where l: "hdrcsum_loop b (unat len) 0 = Some (tot, drop (unat len - unat len mod 2) b, unat len mod 2)"
    using hdrcsum_loop_total by blast
  have "\<exists>c p'. drop (unat len - unat len mod 2) b = c # p'" if "unat len mod 2 \<noteq> 0"
  proof -
    have "0 < unat len" using that by (cases "unat len") auto
    with that len have "unat len - unat len mod 2 < length b" by linarith
    then show ?thesis by (metis Cons_nth_drop_Suc)
  qed
  with l show ?thesis by (cases "unat len mod 2 = 0") (auto simp: naf_ipv4__hdrcsum_def Let_def)
qed

section \<open>Buffers that do not grow\<close>

text \<open>The cursor may stand behind the end, as it does when the header claims to be shorter than 20 bytes.\<close>

definition sbuf_static :: "naf_sbuf_t \<Rightarrow> bool" where
  "sbuf_static sb \<longleftrightarrow> (\<exists>b. sbuf_buf sb = Some b \<and> unat (sbuf_buflen sb) \<le> length b) \<and> sbuf_flags sb AND NAF_SBUF_FLAG_AUTORESIZE = 0"

lemma remaining_add:
  assumes "int (unat n) \<le> naf_sbuf_bytesremaining sb"
  shows "naf_sbuf_bytesremaining (sb\<lparr>sbuf_pos := sbuf_pos sb + n\<rparr>) = naf_sbuf_bytesremaining sb - int (unat n)"
    "uint (sbuf_pos sb + n) = uint (sbuf_pos sb) + int (unat n)"
proof -
  have "uint (sbuf_pos sb) + int (unat n) < 2 ^ LENGTH(16)"
    using assms uint_lt2p [of "sbuf_buflen sb"] by (simp add: naf_sbuf_bytesremaining_def)
  then show u: "uint (sbuf_pos sb + n) = uint (sbuf_pos sb) + int (unat n)" by (simp add: uint_word_ariths)
  then show "naf_sbuf_bytesremaining (sb\<lparr>sbuf_pos := sbuf_pos sb + n\<rparr>) = naf_sbuf_bytesremaining sb - int (unat n)"
    by (simp add: naf_sbuf_bytesremaining_def)
qed

lemma static_get8:
  assumes "sbuf_static sb"
  shows "\<exists>v sb'. naf_sbuf_get8 sb = Some (v, sb') \<and> sbuf_static sb' \<and>
    (if naf_sbuf_bytesremaining sb < 1 then v = 0 \<and> sb' = sb else naf_sbuf_bytesremaining sb' = naf_sbuf_bytesremaining sb - 1)"
proof (cases "naf_sbuf_bytesremaining sb < 1")
  case False
  obtain b where b: "sbuf_buf sb = Some b" "unat (sbuf_buflen sb) \<le> length b" using assms by (auto simp: sbuf_static_def)
  from False have r: "int (unat (1 :: naf_u16_t)) \<le> naf_sbuf_bytesremaining sb" by simp
  have "unat (sbuf_pos sb) < unat (sbuf_buflen sb)"
    using False by (simp only: naf_sbuf_bytesremaining_def uint_nat)
  then have "mem_read b (uint (sbuf_pos sb)) 1 \<noteq> None" using b(2) by (simp add: mem_read_def)
  with False b assms remaining_add [OF r] show ?thesis
    by (auto simp: naf_sbuf_get8_def sbuf_load_def Let_def sbuf_static_def)
qed (use assms in \<open>simp add: naf_sbuf_get8_def\<close>)

lemma static_advance:
  assumes "sbuf_static sb"
  shows "\<exists>r sb'. naf_sbuf_advance mal sb n = Some (r, sb') \<and> sbuf_static sb' \<and>
    naf_sbuf_bytesremaining sb' \<le> max 0 (naf_sbuf_bytesremaining sb)"
proof (cases "naf_sbuf_bytesremaining sb < uint n")
  case True
  with assms show ?thesis
    by (auto simp: naf_sbuf_advance_def sbuf_reserve_def naf_sbuf__extendbuf_def sbuf_static_def)
next
  case False
  then have "int (unat n) \<le> naf_sbuf_bytesremaining sb" by simp
  moreover have "0 \<le> naf_sbuf_bytesremaining sb" using False uint_ge_0 [of n] by linarith
  ultimately show ?thesis using remaining_add(1) [of n sb] False assms
    by (auto simp: naf_sbuf_advance_def sbuf_reserve_def sbuf_static_def max_def)
qed

text \<open>Reading the options ends: every option is at least one byte.\<close>

lemma parseoptions_total:
  "sbuf_static sb \<Longrightarrow> \<exists>sb' opts. naf_ipv4__parseoptions mal sb ip = Some (sb', ip\<lparr>ip_options := opts\<rparr>)"
proof (induction "nat (naf_sbuf_bytesremaining sb)" arbitrary: sb ip rule: less_induct)
  case less
  have upd: "\<exists>sb' opts'. naf_ipv4__parseoptions mal sb2 (ip\<lparr>ip_options := opts\<rparr>) = Some (sb', ip\<lparr>ip_options := opts'\<rparr>)"
    if "nat (naf_sbuf_bytesremaining sb2) < nat (naf_sbuf_bytesremaining sb)" "sbuf_static sb2" for sb2 opts
    using less.hyps [OF that, of "ip\<lparr>ip_options := opts\<rparr>"] by simp
  have same: "\<exists>sb' opts. Some (sb2, ip) = Some (sb', ip\<lparr>ip_options := opts\<rparr>)" for sb2 :: naf_sbuf_t
    by (intro exI [of _ sb2] exI [of _ "ip_options ip"]) simp
  obtain t sb1 where 1: "naf_sbuf_get8 sb = Some (t, sb1)" "sbuf_static sb1"
    "if naf_sbuf_bytesremaining sb < 1 then t = 0 \<and> sb1 = sb else naf_sbuf_bytesremaining sb1 = naf_sbuf_bytesremaining sb - 1"
    using static_get8 [OF less.prems] by blast
  note unf = naf_ipv4__parseoptions.simps [of mal sb ip]
  show ?case
  proof (cases "naf_sbuf_bytesremaining sb = 0 \<or> t = 0")
    case True
    with same 1(1) show ?thesis by (subst unf) auto
  next
    case False
    with 1(3) have rem: "0 < naf_sbuf_bytesremaining sb" "naf_sbuf_bytesremaining sb1 = naf_sbuf_bytesremaining sb - 1"
      by (auto split: if_splits)
    have adv: "\<exists>sb' opts'. Option.bind (naf_sbuf_advance mal sb2 n) (\<lambda>(_, sb). naf_ipv4__parseoptions mal sb (ip\<lparr>ip_options := opts\<rparr>)) =
        Some (sb', ip\<lparr>ip_options := opts'\<rparr>)"
      if s: "sbuf_static sb2" "naf_sbuf_bytesremaining sb2 \<le> max 0 (naf_sbuf_bytesremaining sb1)" for sb2 n opts
    proof -
      obtain r sb3 where "naf_sbuf_advance mal sb2 n = Some (r, sb3)" "sbuf_static sb3"
        "naf_sbuf_bytesremaining sb3 \<le> max 0 (naf_sbuf_bytesremaining sb2)"
        using static_advance [OF s(1)] by blast
      with upd [of sb3 opts] s(2) rem show ?thesis by simp
    qed
    obtain l sb2 where 2: "naf_sbuf_get8 sb1 = Some (l, sb2)" "sbuf_static sb2"
      "naf_sbuf_bytesremaining sb2 \<le> max 0 (naf_sbuf_bytesremaining sb1)"
      using static_get8 [OF 1(2)] by (auto split: if_splits)
    have nop: "\<exists>sb' opts. naf_ipv4__parseoptions mal sb1 ip = Some (sb', ip\<lparr>ip_options := opts\<rparr>)"
      using less.hyps [of sb1 ip] 1(2) rem by simp
    consider "t = 1" | "t \<noteq> 1" "t = 130" | "t \<noteq> 1" "t \<noteq> 130" "t = 136"
      | f where "t \<noteq> 1" "t \<noteq> 130" "t \<noteq> 136" "option_flag t = Some f" | "t \<noteq> 1" "t \<noteq> 130" "t \<noteq> 136" "option_flag t = None" by auto
    then show ?thesis
      by cases (use False 1(1) 2(1) nop adv [OF 1(2)] adv [OF 2(2,3)] same in \<open>subst unf, simp del: max.absorb1 max.absorb2\<close>)+
  qed
qed

section \<open>What a protocol promises\<close>

definition data_ok :: "nafnet_ip \<Rightarrow> bool" where
  "data_ok ip \<longleftrightarrow> sbuf_inv (ip_data ip) \<and> sbuf_flags (ip_data ip) AND NAF_SBUF_FLAG_AUTORESIZE = 0 \<and>
     unat (sbuf_buflen (ip_data ip)) \<le> 32000"

text \<open>A handler returns for every packet whose data lie in their block, and leaves them there.\<close>

locale ip_handler =
  fixes good :: "'w \<Rightarrow> bool" and hdl :: "nat \<Rightarrow> nafmod \<Rightarrow> nafnet_ip \<Rightarrow> 'w \<Rightarrow> (int \<times> nafnet_ip \<times> 'w) option"
  assumes handles: "good w \<Longrightarrow> data_ok ip \<Longrightarrow>
    \<exists>r ip' w'. hdl f m ip w = Some (r, ip', w') \<and> data_ok ip' \<and> good w'"
begin

lemma callhandler_returns:
  "good w \<Longrightarrow> data_ok ip \<Longrightarrow> \<exists>r ip' w'. naf_ipv4_input__callhandler mal hdl prots ip w = Some (r, ip', w') \<and> good w'"
proof (induction prots arbitrary: ip w)
  case (Cons nip prots)
  from handles [OF Cons.prems, of "nip_handler nip" "nip_mod nip"] obtain r ip1 w1
    where h: "hdl (nip_handler nip) (nip_mod nip) ip w = Some (r, ip1, w1)" "data_ok ip1" "good w1" by blast
  have "naf_sbuf_rewind mal (ip_data ip1) = Some (0, (ip_data ip1)\<lparr>sbuf_pos := 0\<rparr>)"
    by (simp add: naf_sbuf_rewind_def naf_sbuf_setpos_def)
  moreover have "data_ok (ip1\<lparr>ip_data := (ip_data ip1)\<lparr>sbuf_pos := 0\<rparr>\<rparr>)"
    using h(2) by (auto simp: data_ok_def sbuf_inv_def)
  ultimately show ?case using Cons.IH [OF h(3), of "ip1\<lparr>ip_data := (ip_data ip1)\<lparr>sbuf_pos := 0\<rparr>\<rparr>"] Cons.IH [OF Cons.prems] h by auto
qed simp

text \<open>Any datagram whose header is not longer than it says it is in all is taken in without a fault.\<close>

lemma input_returns:
  assumes "good w" "unat buflen \<le> length buf" "unat buflen \<le> 32000"
    and sane: "20 \<le> unat buflen \<Longrightarrow> ucast (raw_hl (iphdr_of buf)) * 4 \<le> raw_len (iphdr_of buf)"
  shows "\<exists>w'. naf_ipv4_input mal hdl ipmod prots (Some m) (Some buf) buflen w = Some (0, w') \<and> good w'"
proof (cases "unat buflen < 20")
  case True
  then have "naf_sbuf_bytesremaining (given_sbuf ipmod buf buflen 0) < int MINIPHDRLEN"
    unfolding naf_sbuf_bytesremaining_def uint_nat by (simp only: naf_sbuf_t.select_convs unat_0)
  then have "getiphdr mal (given_sbuf ipmod buf buflen 0) = Some (None, given_sbuf ipmod buf buflen 0)"
    by (simp add: getiphdr_def)
  with assms(1) show ?thesis by (simp add: naf_ipv4_input_def naf_sbuf_init_def)
next
  case False
  let ?iph = "iphdr_of buf" and ?z = "zero_sum buf"
  let ?hl = "ucast (raw_hl ?iph) * 4 :: naf_u16_t"
  let ?sb = "given_sbuf ipmod ?z ?hl 20"
  have hdr: "getiphdr mal (given_sbuf ipmod buf buflen 0) = Some (Some ?iph, given_sbuf ipmod ?z buflen 20)"
    using False assms(2) by (intro getiphdr_eq) simp_all
  have len: "length ?z = length buf" using False assms(2) by (simp add: length_zero_sum)
  show ?thesis
  proof (cases "?hl > buflen \<or> raw_len ?iph > buflen")
    case True
    with hdr assms(1) show ?thesis by (simp add: naf_ipv4_input_def naf_sbuf_init_def)
  next
    case F2: False
    then have le: "unat ?hl \<le> unat buflen" "unat (raw_len ?iph) \<le> unat buflen" "unat ?hl \<le> unat (raw_len ?iph)"
      using sane False by (auto simp: word_le_nat_alt not_less)
    have static: "sbuf_static ?sb" using le(1) len assms(2) by (simp add: sbuf_static_def)
    let ?ip = "ip_received mal ipmod ?iph (drop (unat ?hl) ?z) (raw_len ?iph - ?hl)"
    obtain s where s: "naf_ipv4__hdrcsum ?z ?hl = Some s" using hdrcsum_total [of ?hl ?z] le(1) len assms(2) by auto
    obtain sb' opts where o: "naf_ipv4__parseoptions mal ?sb ?ip = Some (sb', ?ip\<lparr>ip_options := opts\<rparr>)"
      using parseoptions_total [OF static] by blast
    have "unat (raw_len ?iph - ?hl) = unat (raw_len ?iph) - unat ?hl" using le(3) by (simp add: unat_sub_if')
    moreover have "unat (raw_len ?iph) - unat ?hl \<le> length buf - unat ?hl" "unat (raw_len ?iph) - unat ?hl \<le> 32000"
      using le assms(2,3) by linarith+
    ultimately have "data_ok (?ip\<lparr>ip_options := opts\<rparr>)"
      using len by (simp add: data_ok_def ip_received_def Let_def ip_zero_def naf_sbuf_init_def sbuf_inv_def)
    from callhandler_returns [OF assms(1) this] obtain r ip' w' where
      "naf_ipv4_input__callhandler mal hdl prots (?ip\<lparr>ip_options := opts\<rparr>) w = Some (r, ip', w')" "good w'" by blast
    with hdr F2 s o assms(1) show ?thesis by (simp add: naf_ipv4_input_def naf_sbuf_init_def Let_def)
  qed
qed

end

section \<open>What is written\<close>

text \<open>The header up to the checksum and after it.\<close>

definition header_front :: "nafnet_ip \<Rightarrow> naf_u16_t \<Rightarrow> bytes" where
  "header_front ip totlen = [0x45, ip_tos ip] @ naf_byte_put16 totlen @ naf_byte_put16 (ip_id ip) @ naf_byte_put16 (ip_fragoff ip) @
     [ip_ttl ip, ip_protocol ip]"

definition header_back :: "nafnet_ip \<Rightarrow> bytes" where
  "header_back ip = naf_byte_put32 (ip_saddr ip) @ naf_byte_put32 (ip_daddr ip)"

lemma length_header [simp]: "length (header_front ip totlen) = 10" "length (header_back ip) = 8"
  by (simp_all add: header_front_def header_back_def)

definition wire :: "nafnet_ip \<Rightarrow> naf_u16_t \<Rightarrow> naf_u16_t \<Rightarrow> bytes \<Rightarrow> bytes" where
  "wire ip totlen csum payload = header_front ip totlen @ naf_byte_put16 csum @ header_back ip @ payload"

abbreviation new_sbuf :: "nafmod option \<Rightarrow> bytes \<Rightarrow> naf_u16_t \<Rightarrow> naf_u16_t \<Rightarrow> naf_sbuf_t" where
  "new_sbuf md b len pos \<equiv> \<lparr>sbuf_owner = md, sbuf_flags = 3, sbuf_buf = Some b, sbuf_buflen = len, sbuf_pos = pos\<rparr>"

text \<open>A buffer with \<open>d\<close> before the cursor and \<open>r\<close> after it.\<close>

definition cursor_sbuf :: "nafmod option \<Rightarrow> bytes \<Rightarrow> bytes \<Rightarrow> naf_u16_t \<Rightarrow> naf_sbuf_t" where
  "cursor_sbuf md d r len = new_sbuf md (d @ r) len (of_nat (length d))"

lemma store_step:
  assumes "length bs \<le> length r" "length d + length r = unat len"
  shows "sbuf_store mal (cursor_sbuf md d r len) bs = Some (int (length bs), cursor_sbuf md (d @ bs) (drop (length bs) r) len)"
proof -
  have "length d < 65536" using assms unat_u16_lt [of len] by linarith
  then have pos: "unat (of_nat (length d) :: naf_u16_t) = length d" by (simp add: unat_of_nat_u16)
  have "\<not> naf_sbuf_bytesremaining (cursor_sbuf md d r len) < int (length bs)"
    unfolding naf_sbuf_bytesremaining_def cursor_sbuf_def uint_nat using assms pos by (simp only: naf_sbuf_t.select_convs)
  moreover have "mem_write (d @ r) (uint (of_nat (length d) :: naf_u16_t)) bs = Some ((d @ bs) @ drop (length bs) r)"
    using assms unfolding uint_nat pos by (subst mem_write_nat) simp_all
  ultimately show ?thesis by (simp add: sbuf_store_def sbuf_reserve_def cursor_sbuf_def)
qed

lemma cursor_getpos: "length d + length r = unat len \<Longrightarrow> naf_sbuf_getpos (cursor_sbuf md d r len) = int (length d)"
proof -
  assume "length d + length r = unat len"
  then have "length d < 65536" using unat_u16_lt [of len] by linarith
  then show ?thesis unfolding naf_sbuf_getpos_def cursor_sbuf_def uint_nat by (simp add: unat_of_nat_u16)
qed

lemma cursor_setpos: "length d + length r = unat len \<Longrightarrow> n \<le> unat len \<Longrightarrow>
    naf_sbuf_setpos mal (cursor_sbuf md d r len) (word_of_int (int n)) = Some (0, cursor_sbuf md (take n (d @ r)) (drop n (d @ r)) len)"
proof -
  assume a: "length d + length r = unat len" "n \<le> unat len"
  then have "unat (of_nat n :: naf_u16_t) = n" using unat_u16_lt [of len] by (intro unat_of_nat_u16) simp
  with a show ?thesis by (simp add: naf_sbuf_setpos_def word_less_nat_alt cursor_sbuf_def min_def del: take_append drop_append)
qed

lemma cursor_buf: "sbuf_buf (cursor_sbuf md d r len) = Some (d @ r)"
  by (simp add: cursor_sbuf_def)

lemma put8_bytes: "naf_byte_put8 v = [v]"
  by (simp add: naf_byte_put8_def)

lemma put_header:
  assumes "length r = unat len" "20 \<le> unat len"
  shows "do {
     (_, ips) \<leftarrow> naf_sbuf_put8 mal (cursor_sbuf md [] r len) 0x45;
     (_, ips) \<leftarrow> naf_sbuf_put8 mal ips (ip_tos ip);
     (_, ips) \<leftarrow> naf_sbuf_put16 mal ips len;
     (_, ips) \<leftarrow> naf_sbuf_put16 mal ips (ip_id ip);
     (_, ips) \<leftarrow> naf_sbuf_put16 mal ips (ip_fragoff ip);
     (_, ips) \<leftarrow> naf_sbuf_put8 mal ips (ip_ttl ip);
     (_, ips) \<leftarrow> naf_sbuf_put8 mal ips (ip_protocol ip);
     f (naf_sbuf_getpos ips) ips
   } = f 10 (cursor_sbuf md (header_front ip len) (drop 10 r) len)"
  using assms
  by (simp add: naf_sbuf_put_defs put8_bytes store_step cursor_getpos header_front_def)

lemma cursor_rewind: "naf_sbuf_rewind mal (cursor_sbuf md d r len) = Some (0, cursor_sbuf md [] (d @ r) len)"
  by (simp add: naf_sbuf_rewind_def naf_sbuf_setpos_def cursor_sbuf_def)

lemma wire_split: "wire ip totlen csum payload = (header_front ip totlen @ naf_byte_put16 csum) @ header_back ip @ payload"
  by (simp add: wire_def)

lemma put_ip_eq:
  assumes data: "sbuf_buf (ip_data ip) = Some b" "unat (sbuf_buflen (ip_data ip)) \<le> length b"
    and len: "unat len = 20 + unat (sbuf_buflen (ip_data ip))" "length r = unat len"
    and csum: "naf_ipv4__hdrcsum (wire ip len 0 (take (unat (sbuf_buflen (ip_data ip))) b)) 20 = Some csum"
  shows "put_ip mal ip len (cursor_sbuf md [] r len) =
    Some (ip\<lparr>ip_data := (ip_data ip)\<lparr>sbuf_pos := 0\<rparr>\<rparr>,
      cursor_sbuf md [] (wire ip len csum (take (unat (sbuf_buflen (ip_data ip))) b)) len)"
proof -
  let ?n = "unat (sbuf_buflen (ip_data ip))"
  let ?d = "(ip_data ip)\<lparr>sbuf_pos := 0\<rparr>"
  let ?w = "\<lambda>c. wire ip len c (take ?n b)"
  have rew: "naf_sbuf_rewind mal (ip_data ip) = Some (0, ?d)" by (simp add: naf_sbuf_rewind_def naf_sbuf_setpos_def)
  have ptr: "naf_sbuf_getposptr ?d = Some b" "nat (naf_sbuf_bytesremaining ?d) = ?n"
    using data by (simp_all add: naf_sbuf_getposptr_def naf_sbuf_bytesremaining_def)
  have raw: "naf_sbuf_putraw mal s b ?n = sbuf_store mal s (take ?n b)" for s
    using data(2) by (rule naf_sbuf_putraw_eq)
  have front: "sbuf_store mal (cursor_sbuf md (header_front ip len) (drop 10 r) len) (naf_byte_put16 0) =
      Some (2, cursor_sbuf md (header_front ip len @ naf_byte_put16 0) (drop 12 r) len)"
    using len by (simp add: store_step)
  have rear: "do {
       (_, ips) \<leftarrow> sbuf_store mal (cursor_sbuf md (header_front ip len @ naf_byte_put16 0) (drop 12 r) len) (naf_byte_put32 (ip_saddr ip));
       (_, ips) \<leftarrow> sbuf_store mal ips (naf_byte_put32 (ip_daddr ip));
       (_, ips) \<leftarrow> sbuf_store mal ips (take ?n b);
       g ips
     } = g (cursor_sbuf md (?w 0) [] len)" for g :: "naf_sbuf_t \<Rightarrow> (nafnet_ip \<times> naf_sbuf_t) option"
    using len data(2) by (simp add: store_step wire_def header_back_def)
  have pos: "naf_sbuf_setpos mal (cursor_sbuf md (?w 0) [] len) 10 =
      Some (0, cursor_sbuf md (header_front ip len) (naf_byte_put16 0 @ header_back ip @ take ?n b) len)"
    using cursor_setpos [of "?w 0" "[]" len 10 mal md] len data(2) by (simp add: wire_def)
  have put: "sbuf_store mal (cursor_sbuf md (header_front ip len) (naf_byte_put16 0 @ header_back ip @ take ?n b) len) (naf_byte_put16 csum) =
      Some (2, cursor_sbuf md (header_front ip len @ naf_byte_put16 csum) (header_back ip @ take ?n b) len)"
    using len data(2) by (simp add: store_step)
  have mem: "header_front ip len @ naf_byte_put16 c @ header_back ip @ take ?n b = ?w c" for c by (simp add: wire_def)
  show ?thesis
    unfolding put_ip_def Let_def
    apply (subst put_header [where f = "\<lambda>ckpos ips. do {
       (_, ips) \<leftarrow> naf_sbuf_put16 mal ips 0x0000;
       (_, ips) \<leftarrow> naf_sbuf_put32 mal ips (ip_saddr ip);
       (_, ips) \<leftarrow> naf_sbuf_put32 mal ips (ip_daddr ip);
       (_, data) \<leftarrow> naf_sbuf_rewind mal (ip_data ip);
       p \<leftarrow> (case naf_sbuf_getposptr data of Some p \<Rightarrow> Some p | None \<Rightarrow> if naf_sbuf_bytesremaining data = 0 then Some [] else None);
       (_, ips) \<leftarrow> naf_sbuf_putraw mal ips p (nat (naf_sbuf_bytesremaining data));
       (_, ips) \<leftarrow> naf_sbuf_setpos mal ips (word_of_int ckpos);
       buf \<leftarrow> sbuf_buf ips;
       csum \<leftarrow> naf_ipv4__hdrcsum buf (of_nat MINIPHDRLEN);
       (_, ips) \<leftarrow> naf_sbuf_put16 mal ips csum;
       (_, ips) \<leftarrow> naf_sbuf_rewind mal ips;
       Some (ip\<lparr>ip_data := data\<rparr>, ips)
     }" and ip = ip and len = len and r = r and md = md and mal = mal])
    using len csum
    by (simp_all add: front rear pos put cursor_rewind cursor_buf mem rew ptr raw naf_sbuf_put_defs)
qed

section \<open>What is sent is what is received\<close>

lemma new_buffer:
  assumes "total_alloc mal" "len \<noteq> 0"
  obtains r where "naf_sbuf_init mal md None len = (0, cursor_sbuf md [] r len)" "length r = unat len"
proof -
  obtain r where "mal (unat len) = Some r" "length r = unat len" using total_allocD(2) [OF assms(1)] by blast
  with assms(2) show ?thesis by (intro that [of r]) (simp_all add: naf_sbuf_init_def Let_def cursor_sbuf_def)
qed

lemma zero_sum_wire: "zero_sum (wire ip len csum p) = wire ip len 0 p"
proof -
  have "take 10 (wire ip len csum p) = header_front ip len" "drop 12 (wire ip len csum p) = header_back ip @ p"
    by (simp_all add: wire_def)
  then show ?thesis by (simp add: zero_sum_def wire_def naf_byte_put16_def)
qed

lemma get16_put: "naf_byte_get16 (naf_byte_put16 v) = v"
  using naf_byte_get16_put16 [of v "[]"] by simp

lemma iphdr_of_wire:
  "iphdr_of (wire ip len csum p) = \<lparr>raw_v = 4, raw_hl = 5, raw_tos = ip_tos ip, raw_len = len, raw_id = ip_id ip,
     raw_off = ip_fragoff ip, raw_ttl = ip_ttl ip, raw_p = ip_protocol ip, raw_sum = csum,
     raw_src = ucast (ip_saddr ip), raw_dst = ucast (ip_daddr ip)\<rparr>"
proof -
  have d: "drop 2 (wire ip len csum p) = naf_byte_put16 len @ drop 4 (wire ip len csum p)"
    "drop 4 (wire ip len csum p) = naf_byte_put16 (ip_id ip) @ drop 6 (wire ip len csum p)"
    "drop 6 (wire ip len csum p) = naf_byte_put16 (ip_fragoff ip) @ drop 8 (wire ip len csum p)"
    "drop 10 (wire ip len csum p) = naf_byte_put16 csum @ drop 12 (wire ip len csum p)"
    "drop 12 (wire ip len csum p) = naf_byte_put32 (ip_saddr ip) @ drop 16 (wire ip len csum p)"
    "drop 16 (wire ip len csum p) = naf_byte_put32 (ip_daddr ip) @ p"
    by (simp_all add: wire_def header_front_def header_back_def)
  have b: "naf_byte_get8 (wire ip len csum p) = 0x45" "naf_byte_get8 (drop 1 (wire ip len csum p)) = ip_tos ip"
    "naf_byte_get8 (drop 8 (wire ip len csum p)) = ip_ttl ip" "naf_byte_get8 (drop 9 (wire ip len csum p)) = ip_protocol ip"
    by (simp_all add: wire_def header_front_def)
  have s: "ucast (scast (ucast v :: 32 word) :: naf_u32_t) = (ucast v :: 32 word)" for v :: naf_u32_t
    by (rule bit_word_eqI) (simp add: bit_simps)
  show ?thesis
    unfolding iphdr_of_def b by (subst d(1), subst d(2), subst d(3), subst d(4), subst d(5), subst d(6)) (simp add: byte_simps s)
qed

definition arrives :: "nafmod option \<Rightarrow> nafnet_ip \<Rightarrow> bytes \<Rightarrow> nafnet_ip" where
  "arrives md ip payload =
     \<lparr>ip_flags = (if ip_fragoff ip AND 0x4000 \<noteq> 0 then NAF_NET_IPFLAG_DONTFRAG else 0), ip_fields = 0x7f, ip_options = 0,
      ip_tos = ip_tos ip, ip_id = ip_id ip, ip_fragoff = 0, ip_ttl = ip_ttl ip, ip_protocol = ip_protocol ip,
      ip_saddr = ucast (ucast (ip_saddr ip) :: 32 word), ip_daddr = ucast (ucast (ip_daddr ip) :: 32 word),
      ip_data = given_sbuf md payload (of_nat (length payload)) 0, ip_rt = None\<rparr>"

lemma length_wire: "length (wire ip len csum p) = 20 + length p"
  by (simp add: wire_def)

lemma input_wire:
  assumes "unat len = 20 + length p" "naf_ipv4__hdrcsum (wire ip len 0 p) 20 = Some csum"
    and "ip_ttl ip \<noteq> 0" "ip_fragoff ip = 0 \<or> ip_fragoff ip = 0x4000"
  shows "naf_ipv4_input mal hdl ipmod prots (Some m) (Some (wire ip len csum p)) len w =
    map_option (\<lambda>(_, _, w). (0, w)) (naf_ipv4_input__callhandler mal hdl prots (arrives ipmod ip p) w)"
proof -
  have hdr: "getiphdr mal (given_sbuf ipmod (wire ip len csum p) len 0) =
      Some (Some (iphdr_of (wire ip len csum p)), given_sbuf ipmod (wire ip len 0 p) len 20)"
    using getiphdr_eq [of len "wire ip len csum p" mal ipmod] assms(1) by (simp add: length_wire zero_sum_wire)
  have "of_nat (unat len) = len" by simp
  then have len: "20 \<le> len" "len - 20 = of_nat (length p)" using assms(1) by (auto simp: word_le_nat_alt)
  have opts: "naf_ipv4__parseoptions mal (given_sbuf ipmod b 20 20) i = Some (given_sbuf ipmod b 20 20, i)" for b i
    by (subst naf_ipv4__parseoptions.simps) (simp add: naf_sbuf_bytesremaining_def)
  have "drop 20 (wire ip len 0 p) = p" by (simp add: wire_def)
  moreover have "ip_received mal ipmod (iphdr_of (wire ip len csum p)) p (of_nat (length p)) = arrives ipmod ip p"
    using assms(4) by (auto simp: ip_received_def iphdr_of_wire arrives_def ip_zero_def naf_sbuf_init_def Let_def)
  ultimately show ?thesis
    using hdr opts assms(2,3) len
    by (cases "naf_ipv4_input__callhandler mal hdl prots (arrives ipmod ip p) w")
      (auto simp: naf_ipv4_input_def naf_sbuf_init_def Let_def iphdr_of_wire)
qed

text \<open>The packet with its source and the fields that the stack fills in.\<close>

definition ip_outgoing :: "nafnet_if \<Rightarrow> nafnet_ip \<Rightarrow> nafnet_ip" where
  "ip_outgoing nif ip = ip_defaults
     (if has_field NAF_NET_IPFIELD_SADDR ip then ip else ip\<lparr>ip_saddr := ifaa_ipv4_addr (hd (if_addrs nif))\<rparr>)"

lemma defaults_simps [simp]:
  "ip_data (ip_defaults ip) = ip_data ip" "ip_rt (ip_defaults ip) = ip_rt ip"
  "ip_protocol (ip_defaults ip) = ip_protocol ip" "ip_saddr (ip_defaults ip) = ip_saddr ip" "ip_daddr (ip_defaults ip) = ip_daddr ip"
  "ip_flags (ip_defaults ip) = ip_flags ip"
  "ip_ttl (ip_defaults ip) = (if has_field NAF_NET_IPFIELD_TTL ip then ip_ttl ip else NAF_NET_TTL_DEFAULT)"
  "ip_tos (ip_defaults ip) = (if has_field NAF_NET_IPFIELD_TOS ip then ip_tos ip else 0)"
  "ip_id (ip_defaults ip) = (if has_field NAF_NET_IPFIELD_ID ip then ip_id ip else 0)"
  "ip_fragoff (ip_defaults ip) = (if ip_flags ip AND NAF_NET_IPFLAG_DONTFRAG \<noteq> 0 then 0x4000 else 0)"
  by (simp_all add: ip_defaults_def Let_def has_field_def)

definition routed :: "'z netstate_scheme \<Rightarrow> nafnet_ip \<Rightarrow> nafnet_if \<Rightarrow> bool" where
  "routed st ip nif \<longleftrightarrow> (\<exists>rt i. (if ip_rt ip = None then naf_ipv4_getroute (ip_daddr ip) st else ip_rt ip) = Some rt \<and> rt_if rt = Some i \<and>
     List.find (\<lambda>nif. if_self nif = i) (net_iflist st) = Some nif)"

text \<open>What the output function of the interface is given.\<close>

lemma output_sends:
  fixes st :: "'z netstate_scheme" and w :: 'w
  assumes mal: "total_alloc mal"
    and data: "sbuf_buf (ip_data ip) = Some b" "unat (sbuf_buflen (ip_data ip)) \<le> length b" "unat (sbuf_buflen (ip_data ip)) \<le> 65515"
    and fields: "has_field NAF_NET_IPFIELD_DADDR ip" "has_field NAF_NET_IPFIELD_PROTOCOL ip"
    and route: "routed st ip nif" "if_outputf nif = Some f" "has_field NAF_NET_IPFIELD_SADDR ip \<or> if_addrs nif \<noteq> []"
  defines "p \<equiv> take (unat (sbuf_buflen (ip_data ip))) b"
  obtains len csum ip' where "unat len = 20 + length p" "naf_ipv4__hdrcsum (wire (ip_outgoing nif ip) len 0 p) 20 = Some csum"
    "naf_ipv4_output mal outf ipmod st (Some m) (Some ip) w =
      Option.bind (outf f nif (cursor_sbuf ipmod [] (wire (ip_outgoing nif ip) len csum p) len) w)
        (\<lambda>(r, _, w). Some (if r = -1 then (-1, Some ip', w) else (0, None, w)))"
proof -
  define len where "len = of_nat MINIPHDRLEN + sbuf_buflen (ip_data ip)"
  have lp: "length p = unat (sbuf_buflen (ip_data ip))" using data(2) by (simp add: p_def)
  have "unat len = unat (of_nat MINIPHDRLEN :: naf_u16_t) + unat (sbuf_buflen (ip_data ip))"
    unfolding len_def using data(3) by (intro unat_add_u16) simp
  then have len: "unat len = 20 + unat (sbuf_buflen (ip_data ip))" by simp
  then have "len \<noteq> 0" by auto
  from new_buffer [OF mal this] obtain r where init: "naf_sbuf_init mal ipmod None len = (0, cursor_sbuf ipmod [] r len)"
    and r: "length r = unat len" by blast
  obtain rt i where rt: "(if ip_rt ip = None then naf_ipv4_getroute (ip_daddr ip) st else ip_rt ip) = Some rt" "rt_if rt = Some i"
    "List.find (\<lambda>nif. if_self nif = i) (net_iflist st) = Some nif" using route(1) by (auto simp: routed_def)
  define ip1 where "ip1 = (if ip_rt ip = None then ip\<lparr>ip_rt := naf_ipv4_getroute (ip_daddr ip) st\<rparr> else ip)"
  define ip2 where "ip2 = ip_outgoing nif ip1"
  have ip1: "ip_rt ip1 = Some rt" "has_field g ip1 = has_field g ip" "ip_data ip1 = ip_data ip" for g
    using rt(1) by (auto simp: ip1_def has_field_def)
  have w: "wire ip2 len c q = wire (ip_outgoing nif ip) len c q" for c q
    by (simp add: ip2_def ip1_def ip_outgoing_def wire_def header_front_def header_back_def has_field_def)
  obtain csum where csum: "naf_ipv4__hdrcsum (wire (ip_outgoing nif ip) len 0 p) 20 = Some csum"
    using hdrcsum_total [of 20 "wire (ip_outgoing nif ip) len 0 p"] by (auto simp: length_wire)
  have d2: "ip_data ip2 = ip_data ip" by (simp add: ip2_def ip_outgoing_def ip1)
  have put: "put_ip mal ip2 len (cursor_sbuf ipmod [] r len) =
      Some (ip2\<lparr>ip_data := (ip_data ip)\<lparr>sbuf_pos := 0\<rparr>\<rparr>, cursor_sbuf ipmod [] (wire (ip_outgoing nif ip) len csum p) len)"
    using put_ip_eq [of ip2 b len r csum mal ipmod] data len r csum by (simp add: d2 w p_def)
  have src: "(if has_field NAF_NET_IPFIELD_SADDR ip1 then Some ip1
      else (case if_addrs nif of [] \<Rightarrow> None | ifa # _ \<Rightarrow> Some (ip1\<lparr>ip_saddr := ifaa_ipv4_addr ifa\<rparr>))) =
      Some (if has_field NAF_NET_IPFIELD_SADDR ip1 then ip1 else ip1\<lparr>ip_saddr := ifaa_ipv4_addr (hd (if_addrs nif))\<rparr>)"
    using route(3) ip1(2) by (cases "if_addrs nif") auto
  have out: "naf_ipv4_output mal outf ipmod st (Some m) (Some ip) w =
      Option.bind (outf f nif (cursor_sbuf ipmod [] (wire (ip_outgoing nif ip) len csum p) len) w)
        (\<lambda>(r, _, w). Some (if r = -1 then (-1, Some (ip2\<lparr>ip_data := (ip_data ip)\<lparr>sbuf_pos := 0\<rparr>\<rparr>), w) else (0, None, w)))"
  proof -
    have eq: "ip_defaults (if has_field NAF_NET_IPFIELD_SADDR ip1 then ip1 else ip1\<lparr>ip_saddr := ifaa_ipv4_addr (hd (if_addrs nif))\<rparr>) = ip2"
      by (simp add: ip2_def ip_outgoing_def)
    have l: "20 + sbuf_buflen (ip_data ip) = len" by (simp add: len_def)
    have d3: "ip_data (if has_field NAF_NET_IPFIELD_SADDR ip1 then ip1
        else ip1\<lparr>ip_saddr := ifaa_ipv4_addr (hd (if_addrs nif))\<rparr>) = ip_data ip" by (simp add: ip1)
    show ?thesis
      using fields put init rt(2,3) ip1(1) route(2)
      unfolding naf_ipv4_output_def ip1_def [symmetric] Let_def prod.case option.case
      by (simp add: src eq d2 d3 l split del: if_split)
  qed
  show ?thesis by (rule that [OF _ csum out]) (simp add: len lp)
qed

text \<open>C24. A packet that is sent and comes back is the packet: the output function of the interface that the route
  names is called once, with a buffer that \<^verbatim>\<open>naf_ipv4_input\<close>, given its bytes, takes apart into the same data,
  protocol, time to live, type of service, identification and addresses, with no options and the
  fragmentation flag as it was set; it reaches the registered handlers. Addresses keep their low 32 bits.\<close>

theorem packet_roundtrip:
  assumes "total_alloc mal"
    and "sbuf_buf (ip_data ip) = Some b" "unat (sbuf_buflen (ip_data ip)) \<le> length b" "unat (sbuf_buflen (ip_data ip)) \<le> 65515"
    and "has_field NAF_NET_IPFIELD_DADDR ip" "has_field NAF_NET_IPFIELD_PROTOCOL ip"
    and "routed st ip nif" "if_outputf nif = Some f" "has_field NAF_NET_IPFIELD_SADDR ip \<or> if_addrs nif \<noteq> []"
    and "has_field NAF_NET_IPFIELD_TTL ip \<longrightarrow> ip_ttl ip \<noteq> 0"
  shows "\<exists>pkt ip'.
    naf_ipv4_output mal outf ipmod st (Some m) (Some ip) w =
      Option.bind (outf f nif pkt w) (\<lambda>(r, _, w). Some (if r = -1 then (-1, Some ip', w) else (0, None, w))) \<and>
    naf_ipv4_input mal hdl ipmod prots (Some m') (sbuf_buf pkt) (sbuf_buflen pkt) v =
      map_option (\<lambda>(_, _, v). (0, v)) (naf_ipv4_input__callhandler mal hdl prots
        (arrives ipmod (ip_outgoing nif ip) (take (unat (sbuf_buflen (ip_data ip))) b)) v)"
proof -
  let ?p = "take (unat (sbuf_buflen (ip_data ip))) b"
  obtain len csum ip' where s: "unat len = 20 + length ?p" "naf_ipv4__hdrcsum (wire (ip_outgoing nif ip) len 0 ?p) 20 = Some csum"
    "naf_ipv4_output mal outf ipmod st (Some m) (Some ip) w =
      Option.bind (outf f nif (cursor_sbuf ipmod [] (wire (ip_outgoing nif ip) len csum ?p) len) w)
        (\<lambda>(r, _, w). Some (if r = -1 then (-1, Some ip', w) else (0, None, w)))"
    by (rule output_sends [OF assms(1-9), where outf = outf and ipmod = ipmod and m = m and w = w])
  have "ip_ttl (ip_outgoing nif ip) \<noteq> 0" "ip_fragoff (ip_outgoing nif ip) = 0 \<or> ip_fragoff (ip_outgoing nif ip) = 0x4000"
    using assms(10) by (simp_all add: ip_outgoing_def has_field_def)
  from input_wire [OF s(1,2) this, of mal hdl ipmod prots m' v] s(3)
  show ?thesis by (intro exI [of _ "cursor_sbuf ipmod [] (wire (ip_outgoing nif ip) len csum ?p) len"] exI [of _ ip'])
    (simp add: cursor_sbuf_def)
qed

definition sample_ip :: nafnet_ip where
  "sample_ip = (ip_zero (given_sbuf None [1, 2, 3] 3 0))
     \<lparr>ip_fields := NAF_NET_IPFIELD_DADDR OR NAF_NET_IPFIELD_PROTOCOL, ip_protocol := 17, ip_daddr := 0x0a000002\<rparr>"

text \<open>A handler that records the packet, an output function that records the buffer.\<close>

theorem packet_roundtrip_witness:
  "\<exists>pkt ip'.
    naf_ipv4_output zero_alloc (\<lambda>f nif sb sent. Some (0, sb, sb # sent)) (Some 1) sample_net (Some 2) (Some sample_ip) [] =
      Some (0, None, [pkt]) \<and>
    naf_ipv4_input zero_alloc (\<lambda>f m ip got. Some (0, ip, ip # got)) (Some 1)
      [\<lparr>nip_protocol = 17, nip_mod = 2, nip_handler = 5\<rparr>] (Some 3) (sbuf_buf pkt) (sbuf_buflen pkt) [] =
      Some (0, [(ip_zero (given_sbuf (Some 1) [1, 2, 3] 3 0))\<lparr>ip_fields := 0x7f, ip_ttl := 255, ip_protocol := 17,
        ip_saddr := 0x0100000a, ip_daddr := 0x0a000002\<rparr>])"
proof -
  have r: "routed sample_net sample_ip (hd (net_iflist sample_net))"
    by (simp add: routed_def sample_net_def sample_ip_def ip_zero_def naf_ipv4_getroute_def)
  have "arrives (Some 1) (ip_outgoing (hd (net_iflist sample_net)) sample_ip) [1, 2, 3] =
      (ip_zero (given_sbuf (Some 1) [1, 2, 3] 3 0))\<lparr>ip_fields := 0x7f, ip_ttl := 255, ip_protocol := 17,
        ip_saddr := 0x0100000a, ip_daddr := 0x0a000002\<rparr>"
    by (simp add: arrives_def ip_outgoing_def ip_defaults_def sample_ip_def sample_net_def ip_zero_def has_field_def Let_def)
  with packet_roundtrip [OF total_zero_alloc _ _ _ _ _ r, where b = "[1, 2, 3]" and f = 1
      and outf = "\<lambda>f nif sb sent. Some (0, sb, sb # sent)" and w = "[]" and hdl = "\<lambda>f m ip got. Some (0, ip, ip # got)" and v = "[]"
      and prots = "[\<lparr>nip_protocol = 17, nip_mod = 2, nip_handler = 5\<rparr>]" and ipmod = "Some 1" and m = 2 and m' = 3]
  show ?thesis by (simp add: sample_ip_def has_field_def ip_zero_def sample_net_def)
qed

text \<open>The sum is folded once: a carry of the folding is lost. The checksum of the words \<open>ffff\<close>, \<open>ffff\<close> and \<open>0001\<close> is
  the complement of \<open>0001\<close>, not of \<open>0000\<close>.\<close>

lemma csum_carry_lost: "naf_ipv4__hdrcsum [0xff, 0xff, 0xff, 0xff, 0x01, 0x00] 6 = Some (NOT (htons 0))"
  by code_simp

end
