(* ===== verification/Icmpv4.thy ===== *)
theory Icmpv4
  imports Ipv4
begin

text \<open>
  The control protocol of the network stack, \<^verbatim>\<open>naf/ipv4/icmpv4.c\<close>: its checksum, the answer to an echo request
  and the handler that \<^verbatim>\<open>naf_ipv4_input\<close> calls.
\<close>

section \<open>Operations\<close>

abbreviation (input) NAF_NET_IPPROTO_ICMP :: naf_u8_t where "NAF_NET_IPPROTO_ICMP \<equiv> 1"
abbreviation (input) ICMP_TYPE_ECHOREPLY :: naf_u8_t where "ICMP_TYPE_ECHOREPLY \<equiv> 0"
abbreviation (input) ICMP_TYPE_DESTUNREACHABLE :: naf_u8_t where "ICMP_TYPE_DESTUNREACHABLE \<equiv> 3"
abbreviation (input) ICMP_TYPE_ECHO :: naf_u8_t where "ICMP_TYPE_ECHO \<equiv> 8"

record nafnet_icmp =
  ic_type :: naf_u8_t
  ic_code :: naf_u8_t
  ic_cksum :: naf_u16_t
  ic_id :: naf_u16_t
  ic_seqnum :: naf_u16_t

text \<open>The loop stops because every word that is read moves the cursor.\<close>

lemma get16_moves:
  "naf_sbuf_get16 sb = Some (v, sb') \<Longrightarrow> 2 \<le> naf_sbuf_bytesremaining sb \<Longrightarrow>
     nat (naf_sbuf_bytesremaining sb') < nat (naf_sbuf_bytesremaining sb)"
proof -
  assume g: "naf_sbuf_get16 sb = Some (v, sb')" and r: "2 \<le> naf_sbuf_bytesremaining sb"
  from g r have sb': "sb' = sb\<lparr>sbuf_pos := sbuf_pos sb + 2\<rparr>"
    by (auto simp: naf_sbuf_get16_def sbuf_load_def bind_eq_Some_conv Let_def)
  have "uint (sbuf_pos sb) + 2 < 2 ^ LENGTH(16)"
    using r uint_lt2p [of "sbuf_buflen sb"] by (simp add: naf_sbuf_bytesremaining_def)
  then have "uint (sbuf_pos sb + 2) = uint (sbuf_pos sb) + 2" by (simp add: uint_word_ariths)
  with r show ?thesis by (simp add: sb' naf_sbuf_bytesremaining_def)
qed

function icmp_csum_loop :: "naf_sbuf_t \<Rightarrow> naf_u32_t \<Rightarrow> (naf_u32_t \<times> naf_sbuf_t) option" where
  "icmp_csum_loop sb tot =
     (if naf_sbuf_bytesremaining sb > 1
      then (case naf_sbuf_get16 sb of None \<Rightarrow> None | Some (v, sb') \<Rightarrow> icmp_csum_loop sb' (tot + ucast v))
      else Some (tot, sb))"
  by pat_completeness auto
termination
  by (relation "measure (\<lambda>(sb, tot). nat (naf_sbuf_bytesremaining sb))") (auto dest: get16_moves)

declare icmp_csum_loop.simps [simp del]

text \<open>An odd last byte is the low half of its word.\<close>

definition naf_icmpv4__csum :: "allocator \<Rightarrow> naf_sbuf_t \<Rightarrow> (naf_u16_t \<times> naf_sbuf_t) option" where
  "naf_icmpv4__csum mal sb = do {
     let origpos = sbuf_pos sb;
     (_, sb) \<leftarrow> naf_sbuf_rewind mal sb;
     (tot, sb) \<leftarrow> icmp_csum_loop sb 0;
     (tot, sb) \<leftarrow> (if naf_sbuf_bytesremaining sb > 0
                   then do { (b, sb) \<leftarrow> naf_sbuf_get8 sb; Some (tot + ucast b, sb) } else Some (tot, sb));
     let tot = drop_bit 16 tot + (tot AND 0xffff);
     (_, sb) \<leftarrow> naf_sbuf_setpos mal sb origpos;
     Some (NOT (ucast tot), sb)
   }"

text \<open>The message of the answer; the result of the functions that put is not looked at.\<close>

definition put_echoreply :: "allocator \<Rightarrow> naf_sbuf_t \<Rightarrow> nafnet_icmp \<Rightarrow> naf_sbuf_t \<Rightarrow> naf_sbuf_t option" where
  "put_echoreply mal old oldic sb = do {
     (_, sb) \<leftarrow> naf_sbuf_put8 mal sb ICMP_TYPE_ECHOREPLY;
     (_, sb) \<leftarrow> naf_sbuf_put8 mal sb (ic_code oldic);
     let ckpos = naf_sbuf_getpos sb;
     (_, sb) \<leftarrow> naf_sbuf_put16 mal sb 0x0000;
     (_, sb) \<leftarrow> naf_sbuf_put16 mal sb (ic_id oldic);
     (_, sb) \<leftarrow> naf_sbuf_put16 mal sb (ic_seqnum oldic);
     sb \<leftarrow> (if naf_sbuf_bytesremaining old > 0
           then do {
             let datalen = (word_of_int (naf_sbuf_bytesremaining old) :: naf_u16_t);
             data \<leftarrow> naf_sbuf_getposptr old;
             (_, sb) \<leftarrow> naf_sbuf_putraw mal sb data (unat datalen);
             Some sb
           }
           else Some sb);
     let sb = sb\<lparr>sbuf_buflen := word_of_int (naf_sbuf_getpos sb)\<rparr>;
     (_, sb) \<leftarrow> naf_sbuf_setpos mal sb (word_of_int ckpos);
     (csum, sb) \<leftarrow> naf_icmpv4__csum mal sb;
     (_, sb) \<leftarrow> naf_sbuf_put16 mal sb csum;
     Some sb
   }"

definition sendechoreply ::
    "allocator \<Rightarrow> 'w outfunc \<Rightarrow> nafmod option \<Rightarrow> 'z netstate_scheme \<Rightarrow> nafmod \<Rightarrow> nafnet_ip \<Rightarrow> nafnet_icmp \<Rightarrow> 'w
       \<Rightarrow> (int \<times> 'w) option" where
  "sendechoreply mal outf ipmod st md oldip oldic w =
     (case naf_ipv4_ip_new mal (Some md) of
        None \<Rightarrow> Some (-1, w)
      | Some ip \<Rightarrow> do {
          let ip = ip\<lparr>ip_protocol := NAF_NET_IPPROTO_ICMP, ip_saddr := ip_daddr oldip, ip_daddr := ip_saddr oldip,
                ip_fields := NAF_NET_IPFIELD_PROTOCOL OR NAF_NET_IPFIELD_SADDR OR NAF_NET_IPFIELD_DADDR\<rparr>;
          sb \<leftarrow> put_echoreply mal (ip_data oldip) oldic (ip_data ip);
          (_, _, w) \<leftarrow> naf_ipv4_output mal outf ipmod st (Some md) (Some (ip\<lparr>ip_data := sb\<rparr>)) w;
          Some (0, w)
        })"

text \<open>The fields of the message, with the checksum in it set to zero.\<close>

definition get_icmp :: "allocator \<Rightarrow> naf_sbuf_t \<Rightarrow> (nafnet_icmp \<times> naf_sbuf_t) option" where
  "get_icmp mal sb = do {
     (type, sb) \<leftarrow> naf_sbuf_get8 sb;
     (code, sb) \<leftarrow> naf_sbuf_get8 sb;
     (cksum, sb) \<leftarrow> naf_sbuf_get16 sb;
     (_, sb) \<leftarrow> naf_sbuf_setpos mal sb (word_of_int (naf_sbuf_getpos sb - 2));
     (_, sb) \<leftarrow> naf_sbuf_put16 mal sb 0;
     (idn, sb) \<leftarrow> naf_sbuf_get16 sb;
     (seqn, sb) \<leftarrow> naf_sbuf_get16 sb;
     Some (\<lparr>ic_type = type, ic_code = code, ic_cksum = cksum, ic_id = idn, ic_seqnum = seqn\<rparr>, sb)
   }"

definition naf_icmpv4_input ::
    "allocator \<Rightarrow> 'w outfunc \<Rightarrow> nafmod option \<Rightarrow> 'z netstate_scheme \<Rightarrow> nafmod \<Rightarrow> nafnet_ip \<Rightarrow> 'w
       \<Rightarrow> (int \<times> nafnet_ip \<times> 'w) option" where
  "naf_icmpv4_input mal outf ipmod st md ip w = do {
     (ic, sb) \<leftarrow> get_icmp mal (ip_data ip);
     (_, sb) \<leftarrow> naf_icmpv4__csum mal sb;
     (csum, sb) \<leftarrow> naf_icmpv4__csum mal sb;
     let ip = ip\<lparr>ip_data := sb\<rparr>;
     if csum \<noteq> ic_cksum ic then Some (-1, ip, w)
     else if ic_type ic = ICMP_TYPE_ECHOREPLY then Some (0, ip, w)
     else if ic_type ic = ICMP_TYPE_DESTUNREACHABLE then Some (0, ip, w)
     else if ic_type ic = ICMP_TYPE_ECHO
     then do { (_, w) \<leftarrow> sendechoreply mal outf ipmod st md ip ic w; Some (0, ip, w) }
     else Some (-1, ip, w)
   }"

text \<open>The module registers the handler; its address is \<open>1\<close>.\<close>

definition icmpv4_modinit :: "allocator \<Rightarrow> nafmod \<Rightarrow> naf_ipv4_prot list \<Rightarrow> naf_ipv4_prot list" where
  "icmpv4_modinit mal md protlist = snd (naf_ipv4_prot_register mal (Some md) NAF_NET_IPPROTO_ICMP (Some 1) protlist)"

definition icmpv4_modshutdown :: "nafmod \<Rightarrow> naf_ipv4_prot list \<Rightarrow> naf_ipv4_prot list" where
  "icmpv4_modshutdown md protlist = snd (naf_ipv4_prot_unregister (Some md) NAF_NET_IPPROTO_ICMP (Some 1) protlist)"

section \<open>Taking a message apart\<close>

text \<open>On data that lie in their block every step returns and leaves the block and its length alone.\<close>

definition held :: "naf_u16_t \<Rightarrow> naf_sbuf_t \<Rightarrow> bool" where
  "held n sb \<longleftrightarrow> sbuf_inv sb \<and> sbuf_flags sb AND NAF_SBUF_FLAG_AUTORESIZE = 0 \<and> sbuf_buflen sb = n"

lemma held_get:
  assumes "held n sb"
  shows "\<exists>v sb'. naf_sbuf_get8 sb = Some (v, sb') \<and> held n sb'" "\<exists>v sb'. naf_sbuf_get16 sb = Some (v, sb') \<and> held n sb'"
  using assms sbuf_load_ok(2) [of sb 1] sbuf_load_ok(2) [of sb 2] by (auto simp: held_def sbuf_get_eqs not_less Suc_le_eq)

lemma held_setpos:
  assumes "held n sb"
  shows "\<exists>r sb'. naf_sbuf_setpos mal sb p = Some (r, sb') \<and> held n sb'"
  using assms
  by (auto simp: held_def naf_sbuf_setpos_def naf_sbuf__extendbuf_def sbuf_inv_def not_less)

lemma held_put16:
  assumes "held n sb"
  shows "\<exists>r sb'. naf_sbuf_put16 mal sb v = Some (r, sb') \<and> held n sb'"
proof (cases "2 \<le> sbuf_room sb")
  case True
  then have "length (naf_byte_put16 v) \<le> sbuf_room sb" by simp
  with assms show ?thesis
    by (elim sbuf_store_fits [where mal = mal, rotated]) (auto simp: naf_sbuf_put16_def held_def)
next
  case False
  then have "naf_sbuf_bytesremaining sb < 2" using assms by (simp add: held_def sbuf_bytesremaining)
  with assms show ?thesis
    by (simp add: naf_sbuf_put16_def sbuf_store_def sbuf_reserve_def naf_sbuf__extendbuf_def held_def)
qed

lemma held_csum_loop: "held n sb \<Longrightarrow> \<exists>r sb'. icmp_csum_loop sb tot = Some (r, sb') \<and> held n sb'"
proof (induction sb tot rule: icmp_csum_loop.induct)
  case (1 sb tot)
  obtain v sb' where g: "naf_sbuf_get16 sb = Some (v, sb')" "held n sb'" using held_get(2) [OF "1.prems"] by blast
  show ?case
  proof (cases "naf_sbuf_bytesremaining sb > 1")
    case True
    from "1.IH" [OF True g(1) _ g(2)] True g(1) show ?thesis by (subst icmp_csum_loop.simps) simp
  qed (use "1.prems" in \<open>subst icmp_csum_loop.simps, simp\<close>)
qed

lemma held_csum:
  assumes "held n sb"
  shows "\<exists>r sb'. naf_icmpv4__csum mal sb = Some (r, sb') \<and> held n sb'"
proof -
  obtain r1 sb1 where 1: "naf_sbuf_rewind mal sb = Some (r1, sb1)" "held n sb1"
    using held_setpos [OF assms] unfolding naf_sbuf_rewind_def by blast
  obtain t2 sb2 where 2: "icmp_csum_loop sb1 0 = Some (t2, sb2)" "held n sb2" using held_csum_loop [OF 1(2)] by blast
  obtain t3 sb3 where 3: "(if naf_sbuf_bytesremaining sb2 > 0
      then do { (b, sb) \<leftarrow> naf_sbuf_get8 sb2; Some (t2 + ucast b, sb) } else Some (t2, sb2)) = Some (t3, sb3)" "held n sb3"
  proof (cases "naf_sbuf_bytesremaining sb2 > 0")
    case True
    from held_get(1) [OF 2(2)] obtain v s where "naf_sbuf_get8 sb2 = Some (v, s)" "held n s" by blast
    with True that show ?thesis by simp
  qed (use 2(2) that in simp)
  obtain r4 sb4 where 4: "naf_sbuf_setpos mal sb3 (sbuf_pos sb) = Some (r4, sb4)" "held n sb4" using held_setpos [OF 3(2)] by blast
  show ?thesis using 4(2) by (simp add: naf_icmpv4__csum_def Let_def 1 2 3 4 cong: if_cong)
qed

lemma held_get_icmp:
  assumes "held n sb"
  shows "\<exists>ic sb'. get_icmp mal sb = Some (ic, sb') \<and> held n sb'"
proof -
  obtain v1 s1 where 1: "naf_sbuf_get8 sb = Some (v1, s1)" "held n s1" using held_get(1) [OF assms] by blast
  obtain v2 s2 where 2: "naf_sbuf_get8 s1 = Some (v2, s2)" "held n s2" using held_get(1) [OF 1(2)] by blast
  obtain v3 s3 where 3: "naf_sbuf_get16 s2 = Some (v3, s3)" "held n s3" using held_get(2) [OF 2(2)] by blast
  obtain r4 s4 where 4: "naf_sbuf_setpos mal s3 (word_of_int (naf_sbuf_getpos s3 - 2)) = Some (r4, s4)" "held n s4"
    using held_setpos [OF 3(2)] by blast
  obtain r5 s5 where 5: "naf_sbuf_put16 mal s4 0 = Some (r5, s5)" "held n s5" using held_put16 [OF 4(2)] by blast
  obtain v6 s6 where 6: "naf_sbuf_get16 s5 = Some (v6, s6)" "held n s6" using held_get(2) [OF 5(2)] by blast
  obtain v7 s7 where 7: "naf_sbuf_get16 s6 = Some (v7, s7)" "held n s7" using held_get(2) [OF 6(2)] by blast
  show ?thesis using 7(2) by (simp add: get_icmp_def 1 2 3 4 [simplified] 5 6 7)
qed

section \<open>The checksum as a function of the bytes\<close>

fun word_sum :: "bytes \<Rightarrow> naf_u32_t" where
  "word_sum (b0 # b1 # r) = ucast (naf_byte_get16 [b0, b1]) + word_sum r"
| "word_sum [b] = ucast b"
| "word_sum [] = 0"

definition icmp_checksum :: "bytes \<Rightarrow> naf_u16_t" where
  "icmp_checksum bs = NOT (ucast (drop_bit 16 (word_sum bs) + (word_sum bs AND 0xffff)))"

text \<open>The checksum that the Internet protocols use: the sum of the words in network order, an odd last byte being the
  high half of its word, with all carries added to it again.\<close>

fun inet_sum :: "bytes \<Rightarrow> nat" where
  "inet_sum (b0 # b1 # r) = 256 * unat b0 + unat b1 + inet_sum r"
| "inet_sum [b] = 256 * unat b"
| "inet_sum [] = 0"

function fold_carries :: "nat \<Rightarrow> nat" where
  "fold_carries n = (if n < 65536 then n else fold_carries (n div 65536 + n mod 65536))"
  by pat_completeness auto
termination
proof (relation "measure id")
  fix n :: nat
  assume "\<not> n < 65536"
  then have "0 < n div 65536" by (simp add: div_greater_zero_iff)
  moreover have "n = n div 65536 * 65536 + n mod 65536" by (rule div_mult_mod_eq [symmetric])
  ultimately have "n div 65536 + n mod 65536 < n" by linarith
  then show "(n div 65536 + n mod 65536, n) \<in> measure id" by simp
qed simp

declare fold_carries.simps [simp del]

definition inet_checksum :: "bytes \<Rightarrow> naf_u16_t" where
  "inet_checksum bs = NOT (of_nat (fold_carries (inet_sum bs)))"

text \<open>Where the sum of the program is that one: no odd byte, and no carry left after the first is added.\<close>

definition csum_plain :: "bytes \<Rightarrow> bool" where
  "csum_plain bs \<longleftrightarrow> even (length bs) \<and> inet_sum bs div 65536 + inet_sum bs mod 65536 < 65536"

lemma ucast_and_ff: "(ucast (b :: 8 word) :: 'a::len word) AND 0xff = ucast b"
proof -
  have m: "(0xff :: 'a word) = mask 8" by (simp add: mask_eq_exp_minus_1)
  show ?thesis
    unfolding m
  proof (rule bit_word_eqI)
    fix n assume "n < LENGTH('a)"
    then show "bit ((ucast b :: 'a word) AND mask 8) n = bit (ucast b :: 'a word) n"
      using bit_imp_le_length [of b n] by (simp only: bit_and_iff bit_mask_iff bit_ucast_iff) auto
  qed
qed

lemma get16_nat: "naf_byte_get16 [b0, b1] = of_nat (256 * unat b0 + unat b1)"
proof -
  have "push_bit 8 (ucast b0) AND ucast b1 = (0 :: naf_u16_t)"
  proof (rule bit_word_eqI)
    fix n
    show "bit (push_bit 8 (ucast b0) AND ucast b1 :: naf_u16_t) n = bit (0 :: naf_u16_t) n"
      using bit_imp_le_length [of b1 n] by (auto simp: bit_and_iff bit_push_bit_iff bit_ucast_iff)
  qed
  then have "naf_byte_get16 [b0, b1] = push_bit 8 (ucast b0) + ucast b1"
    by (simp add: ucast_and_ff disjunctive_add_eq_or)
  then show ?thesis by (simp add: push_bit_eq_mult)
qed

lemma ucast_of_nat: "n < 2 ^ 16 \<Longrightarrow> ucast (of_nat n :: naf_u16_t) = (of_nat n :: naf_u32_t)"
  by (simp add: unsigned_of_nat take_bit_nat_eq_self)

lemma get16_sum: "ucast (naf_byte_get16 [b0, b1]) = (of_nat (256 * unat b0 + unat b1) :: naf_u32_t)"
  unfolding get16_nat by (rule ucast_of_nat) (use unsigned_less [of b0, where 'a=nat] unsigned_less [of b1, where 'a=nat] in simp)

lemma fold_word:
  assumes "n < 2 ^ 32"
  shows "drop_bit 16 (of_nat n :: naf_u32_t) + (of_nat n AND 0xffff) = of_nat (n div 65536 + n mod 65536)"
proof -
  have n: "unat (of_nat n :: naf_u32_t) = n" using assms by (simp add: unsigned_of_nat take_bit_nat_eq_self)
  have "drop_bit 16 (of_nat n :: naf_u32_t) = of_nat (n div 65536)"
    by (simp add: drop_bit_eq_div word_arith_nat_div n)
  moreover have "(of_nat n :: naf_u32_t) AND 0xffff = of_nat (n mod 65536)"
  proof -
    have m: "(0xffff :: naf_u32_t) = mask 16" by (simp add: mask_eq_exp_minus_1)
    have "(of_nat n :: naf_u32_t) AND mask 16 = of_nat n mod 65536" by (simp add: take_bit_eq_mask [symmetric] take_bit_eq_mod del: of_nat_mod)
    then show ?thesis unfolding m by (simp add: word_arith_nat_mod n)
  qed
  ultimately show ?thesis by simp
qed

lemma inet_sum_bound: "inet_sum bs \<le> 65535 * ((length bs + 1) div 2)"
proof (induction bs rule: inet_sum.induct)
  case (1 b0 b1 r)
  have "256 * unat b0 + unat b1 \<le> 65535" using unsigned_less [of b0, where 'a=nat] unsigned_less [of b1, where 'a=nat] by simp
  with 1 show ?case by simp
next
  case (2 b)
  then show ?case using unsigned_less [of b, where 'a=nat] by simp
qed simp

lemma word_sum_inet: "even (length bs) \<Longrightarrow> word_sum bs = of_nat (inet_sum bs)"
proof (induction bs rule: inet_sum.induct)
  case (1 b0 b1 r)
  then show ?case unfolding word_sum.simps get16_sum by simp
qed simp_all

lemma icmp_checksum_inet:
  assumes "csum_plain bs" "length bs < 2 ^ 16"
  shows "icmp_checksum bs = inet_checksum bs"
proof -
  let ?n = "inet_sum bs"
  have w: "word_sum bs = of_nat ?n" and f: "?n div 65536 + ?n mod 65536 < 65536"
    using assms(1) word_sum_inet by (auto simp: csum_plain_def)
  have "(length bs + 1) div 2 \<le> 2 ^ 15" using assms(2) by simp
  then have "65535 * ((length bs + 1) div 2) \<le> 65535 * 2 ^ 15" by (rule mult_le_mono2)
  with inet_sum_bound [of bs] have n: "?n < 2 ^ 32" by simp
  have "drop_bit 16 (word_sum bs) + (word_sum bs AND 0xffff) = of_nat (?n div 65536 + ?n mod 65536)"
    unfolding w by (rule fold_word [OF n])
  moreover have "fold_carries ?n = ?n div 65536 + ?n mod 65536"
  proof (cases "?n < 65536")
    case True
    then show ?thesis by (simp add: fold_carries.simps [of ?n])
  next
    case False
    with f show ?thesis by (simp add: fold_carries.simps [of ?n] fold_carries.simps [of "?n div 65536 + ?n mod 65536"])
  qed
  moreover have "ucast (of_nat (?n div 65536 + ?n mod 65536) :: naf_u32_t) = (of_nat (?n div 65536 + ?n mod 65536) :: naf_u16_t)"
    using f by (simp add: unsigned_of_nat take_bit_nat_eq_self del: of_nat_add)
  ultimately show ?thesis by (simp only: icmp_checksum_def inet_checksum_def)
qed

lemma get16_Cons: "naf_byte_get16 (b0 # b1 # r) = naf_byte_get16 [b0, b1]"
  by simp

lemma csum_loop_eq:
  "sbuf_inv sb \<Longrightarrow> \<exists>tot' sb'. icmp_csum_loop sb tot = Some (tot', sb') \<and> sbuf_inv sb' \<and> sb' = sb\<lparr>sbuf_pos := sbuf_pos sb'\<rparr> \<and>
     length (sbuf_rest sb') \<le> 1 \<and> tot' + word_sum (sbuf_rest sb') = tot + word_sum (sbuf_rest sb)"
proof (induction sb tot rule: icmp_csum_loop.induct)
  case (1 sb tot)
  note inv = "1.prems"
  have rem: "naf_sbuf_bytesremaining sb = int (length (sbuf_rest sb))"
    by (simp add: sbuf_bytesremaining [OF inv] length_sbuf_rest [OF inv])
  show ?case
  proof (cases "naf_sbuf_bytesremaining sb > 1")
    case True
    let ?sb = "sb\<lparr>sbuf_pos := sbuf_pos sb + 2\<rparr>"
    from True rem have len: "2 \<le> length (sbuf_rest sb)" by simp
    then obtain b0 b1 r where b: "sbuf_rest sb = b0 # b1 # r" by (auto simp: numeral_2_eq_2 Suc_le_length_iff)
    have g: "naf_sbuf_get16 sb = Some (naf_byte_get16 [b0, b1], ?sb)" using len by (simp add: sbuf_get_eqs [OF inv] b)
    have s: "sbuf_inv ?sb" "sbuf_rest ?sb = r" using sbuf_load_ok(2,3) [OF inv, of 2] len b by simp_all
    from "1.IH" [OF True g _ s(1)] obtain tot' sb' where
      "icmp_csum_loop ?sb (tot + ucast (naf_byte_get16 [b0, b1])) = Some (tot', sb')" "sbuf_inv sb'"
      "sb' = ?sb\<lparr>sbuf_pos := sbuf_pos sb'\<rparr>" "length (sbuf_rest sb') \<le> 1"
      "tot' + word_sum (sbuf_rest sb') = tot + ucast (naf_byte_get16 [b0, b1]) + word_sum r" using s(2) by auto
    with True g b show ?thesis
      by (intro exI [of _ tot'] exI [of _ sb']) (simp add: icmp_csum_loop.simps [of sb] ac_simps)
  next
    case False
    with inv rem show ?thesis by (subst icmp_csum_loop.simps) simp
  qed
qed

lemma csum_eq:
  assumes inv: "sbuf_inv sb"
  shows "naf_icmpv4__csum mal sb = Some (icmp_checksum (take (unat (sbuf_buflen sb)) (sbuf_mem sb)), sb)"
proof -
  let ?s1 = "sb\<lparr>sbuf_pos := 0\<rparr>"
  have rew: "naf_sbuf_rewind mal sb = Some (0, ?s1)" by (simp add: naf_sbuf_rewind_def naf_sbuf_setpos_def)
  have s1: "sbuf_inv ?s1" "sbuf_rest ?s1 = take (unat (sbuf_buflen sb)) (sbuf_mem sb)"
    using inv by (auto simp: sbuf_inv_def sbuf_rest_def)
  obtain t2 s2 where 2: "icmp_csum_loop ?s1 0 = Some (t2, s2)" "sbuf_inv s2" "s2 = ?s1\<lparr>sbuf_pos := sbuf_pos s2\<rparr>"
    "length (sbuf_rest s2) \<le> 1" "t2 + word_sum (sbuf_rest s2) = word_sum (sbuf_rest ?s1)"
    using csum_loop_eq [OF s1(1), of 0] by auto
  have rem: "naf_sbuf_bytesremaining s2 = int (length (sbuf_rest s2))"
    by (simp add: sbuf_bytesremaining [OF 2(2)] length_sbuf_rest [OF 2(2)])
  have q: "s2\<lparr>sbuf_pos := p\<rparr> = sb\<lparr>sbuf_pos := p\<rparr>" for p by (subst 2(3)) simp
  have odd: "\<exists>p. (if naf_sbuf_bytesremaining s2 > 0
      then do { (b, sb) \<leftarrow> naf_sbuf_get8 s2; Some (t2 + ucast b, sb) } else Some (t2, s2)) =
      Some (word_sum (sbuf_rest ?s1), sb\<lparr>sbuf_pos := p\<rparr>)"
  proof (cases "sbuf_rest s2")
    case Nil
    with rem 2(5) q [of "sbuf_pos s2"] show ?thesis by auto
  next
    case (Cons b bs)
    with 2(4) have "bs = []" by simp
    with Cons rem 2(5) show ?thesis
      by (auto simp: sbuf_get_eqs [OF 2(2)] q)
  qed
  then obtain p where p: "(if naf_sbuf_bytesremaining s2 > 0
      then do { (b, sb) \<leftarrow> naf_sbuf_get8 s2; Some (t2 + ucast b, sb) } else Some (t2, s2)) =
      Some (word_sum (sbuf_rest ?s1), sb\<lparr>sbuf_pos := p\<rparr>)" by blast
  have fin: "naf_sbuf_setpos mal (sb\<lparr>sbuf_pos := p\<rparr>) (sbuf_pos sb) = Some (0, sb)"
  proof -
    have "\<not> sbuf_pos sb > sbuf_buflen sb" using inv by (simp add: sbuf_inv_def not_less)
    then show ?thesis by (simp add: naf_sbuf_setpos_def)
  qed
  show ?thesis
    unfolding naf_icmpv4__csum_def Let_def by (simp add: rew 2(1) p fin icmp_checksum_def s1(2) split del: if_split)
qed

section \<open>Messages\<close>

definition icmp_msg :: "naf_u8_t \<Rightarrow> naf_u8_t \<Rightarrow> naf_u16_t \<Rightarrow> naf_u16_t \<Rightarrow> naf_u16_t \<Rightarrow> bytes \<Rightarrow> bytes" where
  "icmp_msg type code cksum idn seqn d =
     [type, code] @ naf_byte_put16 cksum @ naf_byte_put16 idn @ naf_byte_put16 seqn @ d"

lemma length_icmp_msg [simp]: "length (icmp_msg t c k i s d) = 8 + length d"
  by (simp add: icmp_msg_def)

lemma icmp_msg_parts:
  "naf_byte_get8 (icmp_msg t c k i s d) = t" "naf_byte_get8 (drop 1 (icmp_msg t c k i s d)) = c"
  "naf_byte_get16 (drop 2 (icmp_msg t c k i s d)) = k" "naf_byte_get16 (drop 4 (icmp_msg t c k i s d)) = i"
  "naf_byte_get16 (drop 6 (icmp_msg t c k i s d)) = s" "drop 8 (icmp_msg t c k i s d) = d"
  "take 2 (icmp_msg t c k i s d) @ naf_byte_put16 k' @ drop 4 (icmp_msg t c k i s d) = icmp_msg t c k' i s d"
  by (simp_all add: icmp_msg_def get16_put)

lemma get_icmp_msg:
  assumes "unat len = 8 + length d"
  shows "get_icmp mal (given_sbuf md (icmp_msg t c k i s d) len 0) =
    Some (\<lparr>ic_type = t, ic_code = c, ic_cksum = k, ic_id = i, ic_seqnum = s\<rparr>, given_sbuf md (icmp_msg t c 0 i s d) len 8)"
proof -
  note ops = given_gets given_setpos given_put16
  show ?thesis
    using assms by (simp add: get_icmp_def ops naf_sbuf_getpos_def icmp_msg_parts [simplified])
qed

text \<open>Stores inside a buffer, and appending to one that grows.\<close>

lemma store_inside:
  assumes inv: "sbuf_inv sb" and room: "unat (sbuf_pos sb) + length bs \<le> unat (sbuf_buflen sb)"
  shows "sbuf_store mal sb bs = Some (int (length bs), sb\<lparr>sbuf_buf := Some (take (unat (sbuf_pos sb)) (sbuf_mem sb) @ bs @
    drop (unat (sbuf_pos sb) + length bs) (sbuf_mem sb)), sbuf_pos := sbuf_pos sb + of_nat (length bs)\<rparr>)"
proof -
  have "int (length bs) \<le> naf_sbuf_bytesremaining sb"
    unfolding sbuf_bytesremaining [OF inv] sbuf_room_def using room by linarith
  then have "sbuf_reserve mal sb (int (length bs)) = Some (0, sb)" by (simp add: sbuf_reserve_def)
  moreover have "mem_write (sbuf_mem sb) (uint (sbuf_pos sb)) bs =
      Some (take (unat (sbuf_pos sb)) (sbuf_mem sb) @ bs @ drop (unat (sbuf_pos sb) + length bs) (sbuf_mem sb))"
    using room sbuf_invD(2) [OF inv] by (simp add: mem_write_def)
  ultimately show ?thesis using sbuf_invD(1) [OF inv] by (simp add: sbuf_store_def)
qed

lemma store_grows:
  assumes inv: "sbuf_inv sb" and mal: "total_alloc mal" and auto: "sbuf_flags sb AND NAF_SBUF_FLAG_AUTORESIZE \<noteq> 0"
    and len: "unat (sbuf_buflen sb) + length bs + 256 \<le> 32768"
  obtains sb' where "sbuf_store mal sb bs = Some (int (length bs), sb')" "sbuf_inv sb'" "sbuf_done sb' = sbuf_done sb @ bs"
    "sbuf_flags sb' = sbuf_flags sb"
proof (rule sbuf_store_cases [OF inv total_allocD(1) [OF mal], of bs])
  let ?n = "word_of_int (int (length bs)) :: naf_u16_t"
  have n: "unat ?n = length bs" using len by (simp add: unat_of_nat_u16)
  assume full: "sbuf_store mal sb bs = Some (0, sb)" "sbuf_room sb < length bs"
  have "unat (extendbuf_newlen (sbuf_buflen sb) ?n) \<le> 32768"
    unfolding unat_extendbuf_newlen n using len by (intro order_trans [OF mod_less_eq_dividend]) linarith
  then have "\<not> extendbuf_newlen (sbuf_buflen sb) ?n > NAF_SBUF_DEFAULT_MAXBUFLEN" by (simp add: word_less_nat_alt)
  moreover obtain nb where "mal (unat (extendbuf_newlen (sbuf_buflen sb) ?n)) = Some nb" using total_allocD(2) [OF mal] by blast
  ultimately have "naf_sbuf__extendbuf mal sb ?n \<noteq> Some (-1, sb)"
    using auto sbuf_invD(1) [OF inv] by (auto simp: naf_sbuf__extendbuf_def Let_def bind_eq_Some_conv)
  moreover have "unat ?n \<le> 32512" using n len by simp
  ultimately obtain sb1 where "naf_sbuf__extendbuf mal sb ?n = Some (0, sb1)"
    using extendbuf_cases [OF inv total_allocD(1) [OF mal]] by metis
  then have "sbuf_store mal sb bs \<noteq> Some (0, sb)"
    using full(2) by (auto simp: sbuf_store_def sbuf_reserve_def sbuf_bytesremaining [OF inv] bind_eq_Some_conv)
  with full(1) show thesis by simp
next
  fix sb'
  assume "sbuf_store mal sb bs = Some (int (length bs), sb')" "sbuf_inv sb'" "sbuf_done sb' = sbuf_done sb @ bs" "sbuf_flags sb' = sbuf_flags sb"
  then show thesis by (rule that)
qed (use len in simp)

text \<open>The head of the answer, in a buffer that has room for it.\<close>

lemma put_reply_head:
  assumes "sbuf_inv sb" "sbuf_done sb = []" "8 \<le> sbuf_room sb"
  obtains s1 s2 s3 s4 s5 where "naf_sbuf_put8 mal sb 0 = Some (1, s1)" "naf_sbuf_put8 mal s1 c = Some (1, s2)"
    "naf_sbuf_put16 mal s2 0 = Some (2, s3)" "naf_sbuf_put16 mal s3 i = Some (2, s4)" "naf_sbuf_put16 mal s4 s = Some (2, s5)"
    "naf_sbuf_getpos s2 = 2" "sbuf_inv s5" "sbuf_done s5 = icmp_msg 0 c 0 i s []" "sbuf_flags s5 = sbuf_flags sb"
    "sbuf_buflen s5 = sbuf_buflen sb"
proof -
  obtain s1 where 1: "sbuf_store mal sb [0] = Some (1, s1)" "sbuf_inv s1" "sbuf_done s1 = [0]" "sbuf_room s1 = sbuf_room sb - 1"
    "sbuf_flags s1 = sbuf_flags sb" "sbuf_buflen s1 = sbuf_buflen sb"
    by (rule sbuf_store_fits [OF assms(1), of "[0]" mal]) (use assms(2,3) in auto)
  obtain s2 where 2: "sbuf_store mal s1 [c] = Some (1, s2)" "sbuf_inv s2" "sbuf_done s2 = [0, c]" "sbuf_room s2 = sbuf_room sb - 2"
    "sbuf_flags s2 = sbuf_flags sb" "sbuf_buflen s2 = sbuf_buflen sb"
    by (rule sbuf_store_fits [OF 1(2), of "[c]" mal]) (use 1 assms(3) in auto)
  obtain s3 where 3: "sbuf_store mal s2 (naf_byte_put16 0) = Some (2, s3)" "sbuf_inv s3" "sbuf_done s3 = [0, c] @ naf_byte_put16 0"
    "sbuf_room s3 = sbuf_room sb - 4" "sbuf_flags s3 = sbuf_flags sb" "sbuf_buflen s3 = sbuf_buflen sb"
    by (rule sbuf_store_fits [OF 2(2), of "naf_byte_put16 0" mal]) (use 2 assms(3) in auto)
  obtain s4 where 4: "sbuf_store mal s3 (naf_byte_put16 i) = Some (2, s4)" "sbuf_inv s4"
    "sbuf_done s4 = [0, c] @ naf_byte_put16 0 @ naf_byte_put16 i"
    "sbuf_room s4 = sbuf_room sb - 6" "sbuf_flags s4 = sbuf_flags sb" "sbuf_buflen s4 = sbuf_buflen sb"
    by (rule sbuf_store_fits [OF 3(2), of "naf_byte_put16 i" mal]) (use 3 assms(3) in auto)
  obtain s5 where 5: "sbuf_store mal s4 (naf_byte_put16 s) = Some (2, s5)" "sbuf_inv s5" "sbuf_done s5 = icmp_msg 0 c 0 i s []"
    "sbuf_flags s5 = sbuf_flags sb" "sbuf_buflen s5 = sbuf_buflen sb"
    by (rule sbuf_store_fits [OF 4(2), of "naf_byte_put16 s" mal]) (use 4 assms(3) in \<open>auto simp: icmp_msg_def\<close>)
  have "naf_sbuf_getpos s2 = 2" using length_sbuf_done [OF 2(2)] 2(3) by (simp add: naf_sbuf_getpos_def uint_nat del: of_nat_unat)
  with 1(1) 2(1) 3(1) 4(1) 5 show ?thesis by (intro that [of s1 s2 s3 s4 s5]) (simp_all add: naf_sbuf_put_defs put8_bytes)
qed

text \<open>The data after it, and the checksum into the message.\<close>

lemma put_reply_data:
  assumes "sbuf_inv old" "sbuf_inv s5" "total_alloc mal" "sbuf_flags s5 AND NAF_SBUF_FLAG_AUTORESIZE \<noteq> 0"
    and len: "unat (sbuf_buflen s5) + length (sbuf_rest old) + 256 \<le> 32768"
  obtains s6 where "(if naf_sbuf_bytesremaining old > 0
           then do {
             let datalen = (word_of_int (naf_sbuf_bytesremaining old) :: naf_u16_t);
             data \<leftarrow> naf_sbuf_getposptr old;
             (_, sb) \<leftarrow> naf_sbuf_putraw mal s5 data (unat datalen);
             Some sb
           }
           else Some s5) = Some s6" "sbuf_inv s6" "sbuf_done s6 = sbuf_done s5 @ sbuf_rest old"
proof (cases "sbuf_rest old = []")
  case True
  with assms show ?thesis
    by (intro that [of s5]) (simp_all add: sbuf_bytesremaining length_sbuf_rest [symmetric])
next
  case False
  note rem = sbuf_bytesremaining [OF assms(1), folded length_sbuf_rest [OF assms(1)]]
  obtain s6 where g: "sbuf_store mal s5 (sbuf_rest old) = Some (int (length (sbuf_rest old)), s6)" "sbuf_inv s6"
    "sbuf_done s6 = sbuf_done s5 @ sbuf_rest old"
    using store_grows [OF assms(2-5)] by metis
  have n: "unat (word_of_int (int (length (sbuf_rest old))) :: naf_u16_t) = length (sbuf_rest old)"
    using len by (simp add: unat_of_nat_u16)
  have r: "sbuf_rest old = take (length (sbuf_rest old)) (drop (unat (sbuf_pos old)) (sbuf_mem old))"
    unfolding length_sbuf_rest [OF assms(1)] by (simp add: sbuf_rest_def sbuf_room_def)
  then have "length (sbuf_rest old) \<le> length (drop (unat (sbuf_pos old)) (sbuf_mem old))" by (metis length_take min.cobounded1)
  from naf_sbuf_putraw_eq [OF this, of mal s5] g(1) r
  have "naf_sbuf_putraw mal s5 (drop (unat (sbuf_pos old)) (sbuf_mem old)) (length (sbuf_rest old)) =
      Some (int (length (sbuf_rest old)), s6)" by simp
  with False rem n g sbuf_invD(1) [OF assms(1)] show ?thesis
    by (intro that [of s6]) (simp_all add: naf_sbuf_getposptr_def)
qed

lemma put_echoreply_eq:
  fixes ic :: nafnet_icmp
  assumes mal: "total_alloc mal" and old: "sbuf_inv old" "length (sbuf_rest old) \<le> 32000"
  defines "msg \<equiv> \<lambda>k. icmp_msg 0 (ic_code ic) k (ic_id ic) (ic_seqnum ic) (sbuf_rest old)"
  obtains sb' b where "put_echoreply mal old ic (snd (naf_sbuf_init mal md None 0)) = Some sb'" "sbuf_buf sb' = Some b"
    "unat (sbuf_buflen sb') \<le> length b" "take (unat (sbuf_buflen sb')) b = msg (icmp_checksum (msg 0))"
    "unat (sbuf_buflen sb') = 8 + length (sbuf_rest old)"
proof -
  let ?sb = "snd (naf_sbuf_init mal md None 0)"
  obtain nb where "mal 512 = Some nb" using total_allocD(2) [OF mal] by blast
  then have sb: "sbuf_inv ?sb" "sbuf_done ?sb = []" "sbuf_room ?sb = 512" "sbuf_flags ?sb AND NAF_SBUF_FLAG_AUTORESIZE \<noteq> 0"
    "sbuf_buflen ?sb = 512"
    using sbuf_inv_init_alloc [OF total_allocD(1) [OF mal], of 0 nb md] by (auto simp: naf_sbuf_init_def Let_def)
  then have "8 \<le> sbuf_room ?sb" by simp
  from put_reply_head [OF sb(1,2) this, of mal "ic_code ic" "ic_id ic" "ic_seqnum ic"]
  obtain s1 s2 s3 s4 s5 where h: "naf_sbuf_put8 mal ?sb 0 = Some (1, s1)" "naf_sbuf_put8 mal s1 (ic_code ic) = Some (1, s2)"
    "naf_sbuf_put16 mal s2 0 = Some (2, s3)" "naf_sbuf_put16 mal s3 (ic_id ic) = Some (2, s4)"
    "naf_sbuf_put16 mal s4 (ic_seqnum ic) = Some (2, s5)"
    "naf_sbuf_getpos s2 = 2" "sbuf_inv s5" "sbuf_done s5 = icmp_msg 0 (ic_code ic) 0 (ic_id ic) (ic_seqnum ic) []"
    "sbuf_flags s5 = sbuf_flags ?sb" "sbuf_buflen s5 = sbuf_buflen ?sb" by blast
  have "unat (sbuf_buflen s5) + length (sbuf_rest old) + 256 \<le> 32768" using h(10) sb(5) old(2) by simp
  from put_reply_data [OF old(1) h(7) mal sb(4) [folded h(9)] this]
  obtain s6 where s6: "(if naf_sbuf_bytesremaining old > 0
           then do {
             let datalen = (word_of_int (naf_sbuf_bytesremaining old) :: naf_u16_t);
             data \<leftarrow> naf_sbuf_getposptr old;
             (_, sb) \<leftarrow> naf_sbuf_putraw mal s5 data (unat datalen);
             Some sb
           }
           else Some s5) = Some s6" "sbuf_inv s6" "sbuf_done s6 = msg 0" by (auto simp: h(8) msg_def icmp_msg_def)
  let ?t = "s6\<lparr>sbuf_buflen := sbuf_pos s6\<rparr>"
  have pos: "unat (sbuf_pos s6) = 8 + length (sbuf_rest old)" using length_sbuf_done [OF s6(2)] s6(3) by (simp add: msg_def)
  have t: "sbuf_inv ?t" "take (unat (sbuf_pos s6)) (sbuf_mem ?t) = msg 0"
    using s6(2,3) by (auto simp: sbuf_inv_def sbuf_done_def word_le_nat_alt)
  have le: "2 \<le> sbuf_pos s6" using pos by (simp add: word_le_nat_alt)
  let ?t2 = "?t\<lparr>sbuf_pos := 2\<rparr>"
  have set: "naf_sbuf_setpos mal ?t 2 = Some (0, ?t2)" using leD [OF le] by (simp add: naf_sbuf_setpos_def)
  have t2: "sbuf_inv ?t2" using t(1) le by (simp add: sbuf_inv_def)
  let ?k = "icmp_checksum (msg 0)"
  let ?b = "take 2 (sbuf_mem ?t2) @ naf_byte_put16 ?k @ drop 4 (sbuf_mem ?t2)"
  have csum: "naf_icmpv4__csum mal ?t2 = Some (?k, ?t2)" using csum_eq [OF t2] t(2) by simp
  have put: "naf_sbuf_put16 mal ?t2 ?k = Some (2, ?t2\<lparr>sbuf_buf := Some ?b, sbuf_pos := 4\<rparr>)"
    using store_inside [OF t2, of "naf_byte_put16 ?k" mal] pos by (simp add: naf_sbuf_put16_def)
  have len: "unat (sbuf_pos s6) \<le> length (sbuf_mem s6)" using sbuf_invD(2) [OF t(1)] by simp
  have "take (unat (sbuf_pos s6)) ?b = take 2 (msg 0) @ naf_byte_put16 ?k @ drop 4 (msg 0)"
    using t(2) pos len by (simp add: t(2) [symmetric] take_drop min_def)
  then have b: "take (unat (sbuf_pos s6)) ?b = msg ?k" by (simp add: msg_def icmp_msg_parts(7))
  have "put_echoreply mal old ic ?sb = Some (?t2\<lparr>sbuf_buf := Some ?b, sbuf_pos := 4\<rparr>)"
    unfolding put_echoreply_def Let_def
    by (simp add: h s6(1) [unfolded Let_def] naf_sbuf_getpos_def [of s6] set csum put split del: if_split)
  then show ?thesis by (rule that [of "?t2\<lparr>sbuf_buf := Some ?b, sbuf_pos := 4\<rparr>" ?b]) (use b len pos in simp_all)
qed

section \<open>The answer to an echo request\<close>

definition echo_reply_ip :: "nafnet_ip \<Rightarrow> naf_sbuf_t \<Rightarrow> nafnet_ip" where
  "echo_reply_ip oldip sb = (ip_zero sb)\<lparr>ip_protocol := NAF_NET_IPPROTO_ICMP, ip_saddr := ip_daddr oldip, ip_daddr := ip_saddr oldip,
     ip_fields := NAF_NET_IPFIELD_PROTOCOL OR NAF_NET_IPFIELD_SADDR OR NAF_NET_IPFIELD_DADDR\<rparr>"

lemma reply_fields [simp]:
  "ip_data (echo_reply_ip ip sb) = sb" "ip_rt (echo_reply_ip ip sb) = None" "ip_daddr (echo_reply_ip ip sb) = ip_saddr ip"
  "has_field NAF_NET_IPFIELD_DADDR (echo_reply_ip ip sb)" "has_field NAF_NET_IPFIELD_PROTOCOL (echo_reply_ip ip sb)"
  "has_field NAF_NET_IPFIELD_SADDR (echo_reply_ip ip sb)"
  by (simp_all add: echo_reply_ip_def ip_zero_def has_field_def)

lemma sendechoreply_eq:
  assumes "total_alloc mal"
  shows "sendechoreply mal outf ipmod st md oldip ic w = do {
    sb \<leftarrow> put_echoreply mal (ip_data oldip) ic (snd (naf_sbuf_init mal (Some md) None 0));
    (_, _, w) \<leftarrow> naf_ipv4_output mal outf ipmod st (Some md) (Some (echo_reply_ip oldip sb)) w;
    Some (0, w)
  }"
proof -
  obtain b where "mal sizeof_nafnet_ip = Some b" using total_allocD(2) [OF assms] by blast
  then show ?thesis
    by (simp add: sendechoreply_def naf_ipv4_ip_new_def Let_def echo_reply_ip_def ip_zero_def)
qed

definition icmp_call ::
    "allocator \<Rightarrow> (nat \<Rightarrow> nafnet_if \<Rightarrow> naf_sbuf_t \<Rightarrow> 'w \<Rightarrow> (int \<times> naf_sbuf_t \<times> 'w) option) \<Rightarrow> nafmod option \<Rightarrow> 'z netstate_scheme \<Rightarrow>
       nat \<Rightarrow> nafmod \<Rightarrow> nafnet_ip \<Rightarrow> 'w \<Rightarrow> (int \<times> nafnet_ip \<times> 'w) option" where
  "icmp_call mal outf ipmod st f m ip w = (if f = 1 then naf_icmpv4_input mal outf ipmod st m ip w else Some (-1, ip, w))"

text \<open>What the stack needs of its own state.\<close>

definition stack_ok :: "allocator \<Rightarrow> netstate \<Rightarrow> bool" where
  "stack_ok mal st \<longleftrightarrow> total_alloc mal \<and> net_ok st \<and> routes_bound st \<and> (\<forall>nif \<in> set (net_iflist st). if_outputf nif \<noteq> None)"

text \<open>What it needs of an interface: the output function returns for every buffer that is full.\<close>

locale ip_sender =
  fixes good :: "'w \<Rightarrow> bool"
    and outf :: "nat \<Rightarrow> nafnet_if \<Rightarrow> naf_sbuf_t \<Rightarrow> 'w \<Rightarrow> (int \<times> naf_sbuf_t \<times> 'w) option"
  assumes sends: "good w \<Longrightarrow> length b = unat len \<Longrightarrow>
      \<exists>r sb w'. outf f nif (cursor_sbuf ipmod [] b len) w = Some (r, sb, w') \<and> good w'"
begin

lemma output_returns:
  assumes st: "stack_ok mal st"
    and "good w" "sbuf_buf (ip_data ip) = Some b" "unat (sbuf_buflen (ip_data ip)) \<le> length b" "unat (sbuf_buflen (ip_data ip)) \<le> 65515"
    and "has_field NAF_NET_IPFIELD_DADDR ip" "has_field NAF_NET_IPFIELD_PROTOCOL ip" "has_field NAF_NET_IPFIELD_SADDR ip" "ip_rt ip = None"
  shows "\<exists>r ip' w'. naf_ipv4_output mal outf ipmod st (Some m) (Some ip) w = Some (r, ip', w') \<and> good w'"
proof (cases "\<exists>nif f. routed st ip nif \<and> if_outputf nif = Some f")
  case True
  then obtain nif f where nif: "routed st ip nif" "if_outputf nif = Some f" by blast
  from st have alloc: "total_alloc mal" by (simp add: stack_ok_def)
  obtain len csum ip' where o: "unat len = 20 + length (take (unat (sbuf_buflen (ip_data ip))) b)"
    "naf_ipv4_output mal outf ipmod st (Some m) (Some ip) w =
      Option.bind (outf f nif (cursor_sbuf ipmod [] (wire (ip_outgoing nif ip) len csum (take (unat (sbuf_buflen (ip_data ip))) b)) len) w)
        (\<lambda>(r, _, w). Some (if r = -1 then (-1, Some ip', w) else (0, None, w)))"
    by (rule output_sends [OF alloc assms(3-7) nif]) (use assms(8) in auto)
  with sends [OF assms(2), of "wire (ip_outgoing nif ip) len csum (take (unat (sbuf_buflen (ip_data ip))) b)" len f nif ipmod]
  show ?thesis by (force simp: length_wire)
next
  case False
  show ?thesis
  proof (cases "naf_ipv4_getroute (ip_daddr ip) st")
    case None
    with assms show ?thesis by (simp add: naf_ipv4_output_def Let_def)
  next
    case (Some rt)
    show ?thesis
    proof (cases "rt_if rt")
      case None
      with assms Some show ?thesis by (simp add: naf_ipv4_output_def Let_def)
    next
      case (Some i)
      from \<open>naf_ipv4_getroute (ip_daddr ip) st = Some rt\<close> have "rt \<in> set (net_routetable st)"
        by (auto simp: naf_ipv4_getroute_def split: list.splits)
      with st Some obtain nif where nif: "nif \<in> set (net_iflist st)" "if_self nif = i" by (auto simp: stack_ok_def routes_bound_def)
      with st find_distinct_key [of if_self "net_iflist st" nif] have f: "List.find (\<lambda>nif. if_self nif = i) (net_iflist st) = Some nif"
        by (simp add: stack_ok_def net_ok_def ifs_ok_def)
      with \<open>naf_ipv4_getroute (ip_daddr ip) st = Some rt\<close> Some assms(9) have "routed st ip nif" by (simp add: routed_def)
      with False st nif(1) show ?thesis by (auto simp: stack_ok_def)
    qed
  qed
qed

lemma reply_returns:
  assumes st: "stack_ok mal st" and "good w" "sbuf_inv (ip_data oldip)" "length (sbuf_rest (ip_data oldip)) \<le> 32000"
  shows "\<exists>r w'. sendechoreply mal outf ipmod st md oldip ic w = Some (r, w') \<and> good w'"
proof -
  from st have alloc: "total_alloc mal" by (simp add: stack_ok_def)
  obtain sb b where sb: "put_echoreply mal (ip_data oldip) ic (snd (naf_sbuf_init mal (Some md) None 0)) = Some sb" "sbuf_buf sb = Some b"
    "unat (sbuf_buflen sb) \<le> length b" "unat (sbuf_buflen sb) = 8 + length (sbuf_rest (ip_data oldip))"
    by (rule put_echoreply_eq [OF alloc assms(3,4)])
  have "\<exists>r ip' w'. naf_ipv4_output mal outf ipmod st (Some md) (Some (echo_reply_ip oldip sb)) w = Some (r, ip', w') \<and> good w'"
    using sb assms by (intro output_returns [of mal st w "echo_reply_ip oldip sb" b]) simp_all
  with sb(1) show ?thesis by (auto simp: sendechoreply_eq [OF alloc])
qed

lemma icmp_returns:
  assumes st: "stack_ok mal st" and "good w" "data_ok ip"
  shows "\<exists>r ip' w'. naf_icmpv4_input mal outf ipmod st m ip w = Some (r, ip', w') \<and> data_ok ip' \<and> good w'"
proof -
  let ?n = "sbuf_buflen (ip_data ip)"
  from assms(3) have h: "held ?n (ip_data ip)" by (simp add: data_ok_def held_def)
  obtain ic s1 where 1: "get_icmp mal (ip_data ip) = Some (ic, s1)" "held ?n s1" using held_get_icmp [OF h] by blast
  obtain c2 s2 where 2: "naf_icmpv4__csum mal s1 = Some (c2, s2)" "held ?n s2" using held_csum [OF 1(2)] by blast
  obtain c3 s3 where 3: "naf_icmpv4__csum mal s2 = Some (c3, s3)" "held ?n s3" using held_csum [OF 2(2)] by blast
  let ?ip = "ip\<lparr>ip_data := s3\<rparr>"
  have ok: "data_ok ?ip" using 3(2) assms(3) by (simp add: data_ok_def held_def)
  have inv: "sbuf_inv (ip_data ?ip)" "length (sbuf_rest (ip_data ?ip)) \<le> 32000"
    using 3(2) assms(3) length_sbuf_rest [of s3] by (auto simp: held_def data_ok_def sbuf_room_def)
  obtain r4 w4 where "sendechoreply mal outf ipmod st m ?ip ic w = Some (r4, w4)" "good w4"
    using reply_returns [OF assms(1,2) inv] by blast
  with assms(2) ok show ?thesis by (simp add: naf_icmpv4_input_def 1 2 3 Let_def)
qed

end

sublocale ip_sender \<subseteq> icmp: ip_handler "\<lambda>w. stack_ok mal st \<and> good w" "icmp_call mal outf ipmod st" for mal ipmod st
proof unfold_locales
  fix w ip f m
  assume "stack_ok mal st \<and> good w" "data_ok ip"
  then show "\<exists>r ip' w'. icmp_call mal outf ipmod st f m ip w = Some (r, ip', w') \<and> data_ok ip' \<and> stack_ok mal st \<and> good w'"
    using icmp_returns [of mal st w ip ipmod m] by (simp add: icmp_call_def)
qed

section \<open>Ping\<close>

lemma given_csum:
  "unat len \<le> length b \<Longrightarrow> unat pos \<le> unat len \<Longrightarrow>
     naf_icmpv4__csum mal (given_sbuf md b len pos) = Some (icmp_checksum (take (unat len) b), given_sbuf md b len pos)"
  using csum_eq [OF given_inv, of len b pos mal md] by (simp add: sbuf_mem_def)

text \<open>A message with the right checksum is handled by its type.\<close>

lemma icmp_input_msg:
  assumes "ip_data ip = given_sbuf md (icmp_msg t c (icmp_checksum (icmp_msg t c 0 i s d)) i s d) len 0" "unat len = 8 + length d"
  defines "ip' \<equiv> ip\<lparr>ip_data := given_sbuf md (icmp_msg t c 0 i s d) len 8\<rparr>"
  shows "naf_icmpv4_input mal outf ipmod st m ip w =
    (if t = ICMP_TYPE_ECHOREPLY \<or> t = ICMP_TYPE_DESTUNREACHABLE then Some (0, ip', w)
     else if t = ICMP_TYPE_ECHO
     then do {
       (_, w) \<leftarrow> sendechoreply mal outf ipmod st m ip'
         \<lparr>ic_type = t, ic_code = c, ic_cksum = icmp_checksum (icmp_msg t c 0 i s d), ic_id = i, ic_seqnum = s\<rparr> w;
       Some (0, ip', w)
     }
     else Some (-1, ip', w))"
proof -
  let ?s = "given_sbuf md (icmp_msg t c 0 i s d) len 8"
  have "naf_icmpv4__csum mal ?s = Some (icmp_checksum (icmp_msg t c 0 i s d), ?s)"
    using given_csum [of len "icmp_msg t c 0 i s d" 8 mal md] assms(2) by simp
  then show ?thesis
    by (simp add: naf_icmpv4_input_def assms(1) get_icmp_msg [OF assms(2)] ip'_def Let_def)
qed

text \<open>C23. An echo request with at most 32000 bytes of data, whose checksum is the one that the program computes for it, is answered: one
  packet goes out on the interface of the route, from
  the address that was asked to the one that asked, with the identifier, the sequence number and the data of
  the request and its own such checksum. The stack at the other end takes it in as an echo reply with just these,
  and its handler accepts it. For data of even length the checksum of the program, of the request and of the reply, is the Internet
  checksum, unless a second carry is lost.\<close>

theorem echo_answered:
  fixes ipmod2 :: "nafmod option"
  assumes mal: "total_alloc mal" and "length d \<le> 32000" "unat len = 8 + length d"
    and data: "ip_data ip = given_sbuf md (icmp_msg ICMP_TYPE_ECHO c (icmp_checksum (icmp_msg ICMP_TYPE_ECHO c 0 i s d)) i s d) len 0"
    and route: "naf_ipv4_getroute (ip_saddr ip) st = Some rt" "rt_if rt = Some j"
      "List.find (\<lambda>nif. if_self nif = j) (net_iflist st) = Some nif" "if_outputf nif = Some f"
  shows "\<exists>pkt reply ip' ip''.
    naf_icmpv4_input mal outf ipmod st m ip w = Option.bind (outf f nif pkt w) (\<lambda>(_, _, w). Some (0, ip', w)) \<and>
    naf_ipv4_input mal hdl ipmod2 prots (Some m2) (sbuf_buf pkt) (sbuf_buflen pkt) v =
      map_option (\<lambda>(_, _, v). (0, v)) (naf_ipv4_input__callhandler mal hdl prots reply v) \<and>
    naf_icmpv4_input mal outf2 ipmod2 st2 m2 reply v2 = Some (0, ip'', v2) \<and>
    ip_protocol reply = NAF_NET_IPPROTO_ICMP \<and>
    ip_data reply = given_sbuf ipmod2
      (icmp_msg ICMP_TYPE_ECHOREPLY c (icmp_checksum (icmp_msg ICMP_TYPE_ECHOREPLY c 0 i s d)) i s d) (of_nat (8 + length d)) 0 \<and>
    ip_saddr reply = ucast (ucast (ip_daddr ip) :: 32 word) \<and> ip_daddr reply = ucast (ucast (ip_saddr ip) :: 32 word) \<and>
    (\<forall>t. csum_plain (icmp_msg t c 0 i s d) \<longrightarrow> icmp_checksum (icmp_msg t c 0 i s d) = inet_checksum (icmp_msg t c 0 i s d))"
proof -
  let ?m = "\<lambda>k. icmp_msg ICMP_TYPE_ECHOREPLY c k i s d"
  let ?ip1 = "ip\<lparr>ip_data := given_sbuf md (icmp_msg ICMP_TYPE_ECHO c 0 i s d) len 8\<rparr>"
  let ?ic = "\<lparr>ic_type = ICMP_TYPE_ECHO, ic_code = c, ic_cksum = icmp_checksum (icmp_msg ICMP_TYPE_ECHO c 0 i s d), ic_id = i, ic_seqnum = s\<rparr>"
  have rest: "sbuf_inv (ip_data ?ip1)" "sbuf_rest (ip_data ?ip1) = d"
    using assms(3) given_inv [of len "icmp_msg ICMP_TYPE_ECHO c 0 i s d" 8 md] by (simp_all add: given_rest icmp_msg_parts)
  obtain sb b where sb: "put_echoreply mal (ip_data ?ip1) ?ic (snd (naf_sbuf_init mal (Some m) None 0)) = Some sb" "sbuf_buf sb = Some b"
    "unat (sbuf_buflen sb) \<le> length b" "take (unat (sbuf_buflen sb)) b = ?m (icmp_checksum (?m 0))" "unat (sbuf_buflen sb) = 8 + length d"
    using put_echoreply_eq [OF mal rest(1), of ?ic "Some m"] rest(2) assms(2) by auto
  let ?r = "echo_reply_ip ?ip1 sb"
  have rt: "routed st ?r nif" using route by (simp add: routed_def)
  have src: "has_field NAF_NET_IPFIELD_SADDR ?r \<or> if_addrs nif \<noteq> []" and n: "unat (sbuf_buflen sb) \<le> 65515"
    using sb(5) assms(2) by simp_all
  obtain plen pcsum ip' where o: "unat plen = 20 + length (?m (icmp_checksum (?m 0)))"
    "naf_ipv4__hdrcsum (wire (ip_outgoing nif ?r) plen 0 (?m (icmp_checksum (?m 0)))) 20 = Some pcsum"
    "naf_ipv4_output mal outf ipmod st (Some m) (Some ?r) w =
      Option.bind (outf f nif (cursor_sbuf ipmod [] (wire (ip_outgoing nif ?r) plen pcsum (?m (icmp_checksum (?m 0)))) plen) w)
        (\<lambda>(r, _, w). Some (if r = -1 then (-1, Some ip', w) else (0, None, w)))"
    by (rule output_sends [OF mal _ _ _ _ _ rt route(4) src, of b outf ipmod m w, unfolded reply_fields sb(4)])
      (rule sb(2) sb(3) n reply_fields(4,5) | erule (2) that)+
  have out: "ip_ttl (ip_outgoing nif ?r) = 255" "ip_fragoff (ip_outgoing nif ?r) = 0" "ip_protocol (ip_outgoing nif ?r) = NAF_NET_IPPROTO_ICMP"
    "ip_saddr (ip_outgoing nif ?r) = ip_daddr ip" "ip_daddr (ip_outgoing nif ?r) = ip_saddr ip"
    by (simp_all add: ip_outgoing_def echo_reply_ip_def ip_zero_def has_field_def)
  define reply where "reply = arrives ipmod2 (ip_outgoing nif ?r) (?m (icmp_checksum (?m 0)))"
  let ?pkt = "cursor_sbuf ipmod [] (wire (ip_outgoing nif ?r) plen pcsum (?m (icmp_checksum (?m 0)))) plen"
  have 1: "naf_icmpv4_input mal outf ipmod st m ip w = Option.bind (outf f nif ?pkt w) (\<lambda>(_, _, w). Some (0, ?ip1, w))"
    by (cases "outf f nif ?pkt w") (auto simp: icmp_input_msg [OF data assms(3)] sendechoreply_eq [OF mal] sb(1) [simplified] o(3))
  have 2: "naf_ipv4_input mal hdl ipmod2 prots (Some m2) (sbuf_buf ?pkt) (sbuf_buflen ?pkt) v =
      map_option (\<lambda>(_, _, v). (0, v)) (naf_ipv4_input__callhandler mal hdl prots reply v)"
    using input_wire [OF o(1,2), of mal hdl ipmod2 prots m2 v] out(1,2) by (simp add: reply_def cursor_sbuf_def)
  have 4: "ip_protocol reply = NAF_NET_IPPROTO_ICMP" "ip_data reply = given_sbuf ipmod2 (?m (icmp_checksum (?m 0))) (of_nat (8 + length d)) 0"
    "ip_saddr reply = ucast (ucast (ip_daddr ip) :: 32 word)"
    "ip_daddr reply = ucast (ucast (ip_saddr ip) :: 32 word)" by (simp_all add: reply_def arrives_def out)
  have "unat (of_nat (8 + length d) :: naf_u16_t) = 8 + length d" using assms(2) by (intro unat_of_nat_u16) simp
  from icmp_input_msg [OF 4(2) this, of mal outf2 ipmod2 st2 m2 v2]
  have 3: "\<exists>ip''. naf_icmpv4_input mal outf2 ipmod2 st2 m2 reply v2 = Some (0, ip'', v2)" by simp
  have 5: "\<forall>t. csum_plain (icmp_msg t c 0 i s d) \<longrightarrow> icmp_checksum (icmp_msg t c 0 i s d) = inet_checksum (icmp_msg t c 0 i s d)"
    using assms(2) by (intro allI impI icmp_checksum_inet) simp_all
  from 1 2 3 4 5 show ?thesis by blast
qed

definition sample_echo :: nafnet_ip where
  "sample_echo = (ip_zero (given_sbuf None (icmp_msg 8 0 (icmp_checksum (icmp_msg 8 0 0 7 1 [0x61, 0x62])) 7 1 [0x61, 0x62]) 10 0))
     \<lparr>ip_protocol := 1, ip_saddr := 0x0a000002, ip_daddr := 0x0a000001\<rparr>"

theorem echo_answered_witness:
  "\<exists>pkt reply ip' ip''.
    naf_icmpv4_input zero_alloc (\<lambda>f nif sb sent. Some (0, sb, sb # sent)) (Some 1) sample_net 2 sample_echo [] = Some (0, ip', [pkt]) \<and>
    naf_ipv4_input zero_alloc (\<lambda>f m ip got. Some (0, ip, ip # got)) (Some 1)
      [\<lparr>nip_protocol = 1, nip_mod = 2, nip_handler = 1\<rparr>] (Some 3) (sbuf_buf pkt) (sbuf_buflen pkt) [] = Some (0, [reply]) \<and>
    naf_icmpv4_input zero_alloc (\<lambda>f nif sb sent. Some (0, sb, sb # sent)) (Some 1) sample_net 3 reply [] = Some (0, ip'', []) \<and>
    ip_saddr reply = 0x0a000001 \<and> ip_daddr reply = 0x0a000002"
proof -
  have r: "naf_ipv4_getroute (ip_saddr sample_echo) sample_net = Some (hd (net_routetable sample_net))"
    "rt_if (hd (net_routetable sample_net)) = Some 0"
    "List.find (\<lambda>nif. if_self nif = 0) (net_iflist sample_net) = Some (hd (net_iflist sample_net))"
    "if_outputf (hd (net_iflist sample_net)) = Some 1"
    by (simp_all add: naf_ipv4_getroute_def sample_net_def)
  have d: "ip_data sample_echo = given_sbuf None
      (icmp_msg 8 0 (icmp_checksum (icmp_msg 8 0 0 7 1 [0x61, 0x62])) 7 1 [0x61, 0x62]) 10 0"
    by (simp add: sample_echo_def ip_zero_def)
  show ?thesis
    using echo_answered [OF total_zero_alloc _ _ d r, where outf = "\<lambda>f nif sb sent. Some (0, sb, sb # sent)" and ipmod = "Some 1"
        and m = 2 and w = "[]" and hdl = "\<lambda>f m ip got. Some (0, ip, ip # got)" and ?ipmod2.0 = "Some 1" and ?m2.0 = 3 and v = "[]"
        and prots = "[\<lparr>nip_protocol = 1, nip_mod = 2, nip_handler = 1\<rparr>]" and ?outf2.0 = "\<lambda>f nif sb sent. Some (0, sb, sb # sent)"
        and ?st2.0 = sample_net and ?v2.0 = "[]"]
    by (auto simp: sample_echo_def ip_zero_def)
qed

section \<open>Where it goes wrong\<close>

text \<open>An odd last byte is added as the low half of its word, and a carry of the folded sum is lost.\<close>

lemma odd_checksum_wrong: "icmp_checksum [0x61] \<noteq> inet_checksum [0x61]"
  by (simp add: icmp_checksum_def inet_checksum_def fold_carries.simps [of "24832"])

lemma lost_carry_wrong: "icmp_checksum [0xff, 0xff, 0xff, 0xff, 0, 1] \<noteq> inet_checksum [0xff, 0xff, 0xff, 0xff, 0, 1]"
  by (simp add: icmp_checksum_def inet_checksum_def fold_carries.simps [of 131071] fold_carries.simps [of 65536] fold_carries.simps [of "Suc 0"])

text \<open>A header that says it is longer than the whole packet gives a negative length of the data, read as one of up to
  65535 bytes: the first byte of the message is already read past the end of a packet of 20 bytes.\<close>

lemma short_length_overread:
  "naf_icmpv4_input mal outf ipmod st m (ip\<lparr>ip_data := given_sbuf md [] (0 - 20) 0\<rparr>) w = None"
  by (simp add: naf_icmpv4_input_def get_icmp_def naf_sbuf_get8_def naf_sbuf_bytesremaining_def sbuf_load_def mem_read_def Let_def)

text \<open>The buffer of the answer grows by a length that is computed in 16 bits: for 64769 bytes of data it wraps
  around, and the message so far is copied into a block that is too small for it.\<close>

lemma long_echo_overflows:
  assumes "good_alloc mal" "sbuf_inv sb" "sbuf_flags sb AND NAF_SBUF_FLAG_AUTORESIZE \<noteq> 0" "sbuf_buflen sb = 512"
    and n: "64769 \<le> n" "n \<le> 65280" and mal: "\<forall>k. mal k \<noteq> None" and data: "n \<le> length data"
  shows "naf_sbuf_putraw mal sb data n = None"
proof -
  let ?n = "of_nat n :: naf_u16_t"
  have un: "unat ?n = n" using n by (simp add: unat_of_nat_u16)
  have "(n + 255) div 256 \<ge> 254" "(n + 255) div 256 \<le> 255" using n by linarith+
  then have "unat (extendbuf_newlen 512 ?n) = 512 + 256 * ((n + 255) div 256) - 65536" "512 + 256 * ((n + 255) div 256) \<ge> 65536"
    unfolding unat_extendbuf_newlen un by (simp_all add: mod_if)
  moreover from this(1) \<open>(n + 255) div 256 \<le> 255\<close> have small: "unat (extendbuf_newlen 512 ?n) \<le> 256" by linarith
  moreover obtain nb where nb: "mal (unat (extendbuf_newlen 512 ?n)) = Some nb" using mal by blast
  moreover have "length nb = unat (extendbuf_newlen 512 ?n)" using assms(1) nb by (rule good_allocD)
  ultimately have "naf_sbuf__extendbuf mal sb ?n = None"
    using assms(3,4) sbuf_invD(1,2) [OF assms(2)]
    by (auto simp: naf_sbuf__extendbuf_def Let_def mem_write_def mem_read_def word_less_nat_alt)
  moreover have "naf_sbuf_bytesremaining sb < int n"
  proof -
    have "512 - uint (sbuf_pos sb) < int n" using n uint_ge_0 [of "sbuf_pos sb"] by linarith
    then show ?thesis using assms(4) by (simp add: naf_sbuf_bytesremaining_def)
  qed
  ultimately show ?thesis by (simp add: naf_sbuf_putraw_def sbuf_reserve_def)
qed

end
