(* ===== verification/Tun.thy ===== *)
theory Tun
  imports Icmpv4 FlapOut
begin

text \<open>
  The network interface of the stack over a tunnel device of Linux, \<^verbatim>\<open>naf/ipv4/linuxtun.c\<close>: packets go out and come in
  on a connection. Opening the device and reading from it are parameters.
\<close>

section \<open>State\<close>

record 'nb tunstate = "'nb cstate" +
  tun_if :: "nat option"
  tun_ifconn :: "nat option"
  tun_dg :: bytes

section \<open>Operations\<close>

text \<open>The address of the output function is \<open>2\<close>. The block of the buffer belongs to the connection once it is queued.\<close>

abbreviation (input) tun_outputfunc_addr :: nat where "tun_outputfunc_addr \<equiv> 2"

definition tun_outputfunc ::
    "('nb, 'r) nbio_ops_scheme \<Rightarrow> int \<Rightarrow> nat \<Rightarrow> nafnet_if \<Rightarrow> naf_sbuf_t \<Rightarrow> ('nb, 'z) tunstate_scheme
       \<Rightarrow> (int \<times> naf_sbuf_t \<times> ('nb, 'z) tunstate_scheme) option" where
  "tun_outputfunc nb now f nif sb st =
     (if Some (if_self nif) \<noteq> tun_if st then Some (-1, sb, st)
      else do {
        let buf = sbuf_buf sb;
        let buflen = uint (sbuf_buflen sb);
        let sb = sb\<lparr>sbuf_flags := sbuf_flags sb AND (NOT NAF_SBUF_FLAG_FREEBUF)\<rparr>;
        (r, st) \<leftarrow> naf_conn_reqwrite nb now (tun_ifconn st) buf buflen st;
        if r = -1 then Some (-1, sb, st) else Some (0, naf_sbuf_free sb, st)
      })"

text \<open>\<open>tunfd\<close> is the descriptor, if the device could be opened and set up.\<close>

definition opentun ::
    "bool \<Rightarrow> allocator \<Rightarrow> (bytes \<Rightarrow> 32 word option) \<Rightarrow> 'c confstate_scheme \<Rightarrow> ('nb, 'r) nbio_ops_scheme \<Rightarrow> int \<Rightarrow> nafmod \<Rightarrow> nat option
       \<Rightarrow> 'y netstate_scheme \<Rightarrow> ('nb, 'z) tunstate_scheme \<Rightarrow> (int \<times> 'y netstate_scheme \<times> ('nb, 'z) tunstate_scheme) option" where
  "opentun useipv4 mal aton conf nb now md tunfd ns st =
     (case tunfd of
        None \<Rightarrow> Some (-1, ns, st)
      | Some fd \<Rightarrow> do {
          (c, st) \<leftarrow> naf_conn_addconn mal nb now (Some md) fd (NAF_CONN_TYPE_LOCAL OR NAF_CONN_TYPE_READRAW) st;
          (i, ns) \<leftarrow> naf_net_if_add useipv4 mal aton conf (Some md) (Some (cstr ''lnx%d'')) (Some tun_outputfunc_addr) ns;
          Some (0, ns, st\<lparr>tun_ifconn := c, tun_if := i\<rparr>)
        })"

text \<open>\<open>dg\<close> is what \<^verbatim>\<open>read\<close> gives: nothing on an error or at the end. The result is in the buffer of the function.\<close>

definition tun_connready ::
    "allocator \<Rightarrow> ('nb, 'r) nbio_ops_scheme \<Rightarrow> int \<Rightarrow> (('nb, 'z) tunstate_scheme) protfunc \<Rightarrow> nafmod option \<Rightarrow> naf_ipv4_prot list
       \<Rightarrow> nafmod option \<Rightarrow> bytes \<Rightarrow> nat \<Rightarrow> naf_u16_t \<Rightarrow> ('nb, 'z) tunstate_scheme \<Rightarrow> (int \<times> ('nb, 'z) tunstate_scheme) option" where
  "tun_connready mal nb now hdl ipmod protlist tunmod dg conn what st =
     (if what AND NAF_CONN_READY_WRITE \<noteq> 0
      then do {
        (r, _, st) \<leftarrow> naf_conn_takewrite nb now (Some conn) st;
        Some (if r = -1 then -1 else 0, st)
      }
      else if what AND NAF_CONN_READY_READ \<noteq> 0
      then (if dg = []
            then do { (_, st) \<leftarrow> naf_conn_schedulekill nb (Some conn) st; Some (-1, st) }
            else do {
              let st = st\<lparr>tun_dg := dg @ drop (length dg) (tun_dg st)\<rparr>;
              (_, st) \<leftarrow> naf_ipv4_input mal hdl ipmod protlist tunmod (Some (tun_dg st)) (of_nat (length dg)) st;
              Some (0, st)
            })
      else Some (0, st))"

definition tun_modinit ::
    "bool \<Rightarrow> allocator \<Rightarrow> (bytes \<Rightarrow> 32 word option) \<Rightarrow> 'c confstate_scheme \<Rightarrow> ('nb, 'r) nbio_ops_scheme \<Rightarrow> int \<Rightarrow> nafmod \<Rightarrow> nat option
       \<Rightarrow> 'y netstate_scheme \<Rightarrow> ('nb, 'z) tunstate_scheme \<Rightarrow> (int \<times> 'y netstate_scheme \<times> ('nb, 'z) tunstate_scheme) option" where
  "tun_modinit useipv4 mal aton conf nb now md tunfd ns st = do {
     (_, ns, st) \<leftarrow> opentun useipv4 mal aton conf nb now md tunfd ns st;
     Some (0, ns, st)
   }"

definition tun_modshutdown ::
    "('nb, 'r) nbio_ops_scheme \<Rightarrow> nafmod \<Rightarrow> 'y netstate_scheme \<Rightarrow> ('nb, 'z) tunstate_scheme
       \<Rightarrow> (int \<times> 'y netstate_scheme \<times> ('nb, 'z) tunstate_scheme) option" where
  "tun_modshutdown nb md ns st = do {
     let ns = (if tun_if st = None then ns else snd (naf_net_if_rem (Some md) (tun_if st) ns));
     (_, st) \<leftarrow> (if tun_ifconn st = None then Some (0, st) else naf_conn_schedulekill nb (tun_ifconn st) st);
     Some (0, ns, st)
   }"

definition tun_connkill ::
    "nafmod \<Rightarrow> nat \<Rightarrow> 'y netstate_scheme \<Rightarrow> ('nb, 'z) tunstate_scheme \<Rightarrow> 'y netstate_scheme \<times> ('nb, 'z) tunstate_scheme" where
  "tun_connkill md conn ns st =
     (if Some conn = tun_ifconn st
      then (snd (naf_net_if_rem (Some md) (tun_if st) ns), st\<lparr>tun_if := None, tun_ifconn := None\<rparr>)
      else (ns, st))"

section \<open>The interface as the stack sees it\<close>

definition tun_good :: "('nb, 'z) tunstate_scheme \<Rightarrow> bool" where
  "tun_good st \<longleftrightarrow> (\<forall>a. tun_ifconn st = Some a \<longrightarrow> cs_conns st a \<noteq> None) \<and> length (tun_dg st) = 65536"

lemma reqwrite_good:
  assumes "tun_good st" "tun_ifconn st = Some a"
  shows "\<exists>r st'. naf_conn_reqwrite nb now (Some a) (Some b) n st = Some (r, st') \<and> tun_good st'"
proof -
  obtain c where c: "cs_conns st a = Some c" using assms by (auto simp: tun_good_def)
  show ?thesis
  proof (cases "c_fdt c")
    case None
    with c assms(1) show ?thesis by (simp add: naf_conn_reqwrite_def)
  next
    case (Some fdt)
    with c assms show ?thesis
      by (cases "nb_addtxvector nb fdt b n (cs_nb st)")
        (auto simp: naf_conn_reqwrite_def Let_def conn_update_def tun_good_def)
  qed
qed

lemma outputfunc_returns:
  assumes "tun_good st"
  shows "\<exists>r sb st'. tun_outputfunc nb now f nif (cursor_sbuf md [] b len) st = Some (r, sb, st') \<and> tun_good st'"
proof (cases "Some (if_self nif) = tun_if st")
  case False
  with assms show ?thesis by (simp add: tun_outputfunc_def)
next
  case True
  show ?thesis
  proof (cases "tun_ifconn st")
    case None
    with True assms show ?thesis by (simp add: tun_outputfunc_def naf_conn_reqwrite_def)
  next
    case (Some a)
    from reqwrite_good [OF assms this] obtain r st' where
      "naf_conn_reqwrite nb now (Some a) (Some b) (uint len) st = Some (r, st')" "tun_good st'" by blast
    with True Some show ?thesis by (simp add: tun_outputfunc_def cursor_sbuf_def Let_def)
  qed
qed

interpretation tun: ip_sender tun_good "tun_outputfunc nb now" for nb now
  by unfold_locales (rule outputfunc_returns)

text \<open>C22. A datagram that is read from the tunnel device, of up to 32000 bytes and with a header that is not longer
  than the packet says it is in all, is taken in without a fault, as long as every route leads to an interface that exists
  and has an output function and memory is available, whatever else is in the datagram and whatever is left
  of the datagrams before in the buffer: parsed or dropped, handed to the control protocol, answered through the
  device; the connection and the buffer are as they have to be for the next one.\<close>

theorem datagram_handled:
  assumes "tun_good st" "stack_ok mal ns" "dg \<noteq> []" "length dg \<le> 32000"
    and "20 \<le> length dg \<Longrightarrow> ucast (raw_hl (iphdr_of dg)) * 4 \<le> raw_len (iphdr_of dg)"
  shows "\<exists>st'. tun_connready mal nb now (icmp_call mal (tun_outputfunc nb now) ipmod ns) ipmod prots (Some m) dg conn
      NAF_CONN_READY_READ st = Some (0, st') \<and> tun_good st'"
proof -
  let ?st = "st\<lparr>tun_dg := dg @ drop (length dg) (tun_dg st)\<rparr>"
  have good: "tun_good ?st" using assms(1,4) by (simp add: tun_good_def)
  have n: "unat (of_nat (length dg) :: naf_u16_t) = length dg" using assms(4) by (simp add: unat_of_nat_u16)
  have hdr: "iphdr_of (dg @ r) = iphdr_of dg" if "20 \<le> length dg" for r
    using iphdr_of_append [OF that] .
  have "\<exists>st'. naf_ipv4_input mal (icmp_call mal (tun_outputfunc nb now) ipmod ns) ipmod prots (Some m)
      (Some (tun_dg ?st)) (of_nat (length dg)) ?st = Some (0, st') \<and> stack_ok mal ns \<and> tun_good st'"
    by (rule tun.icmp.input_returns) (use assms(2,4,5) good n hdr in auto)
  then obtain st' where "naf_ipv4_input mal (icmp_call mal (tun_outputfunc nb now) ipmod ns) ipmod prots (Some m)
      (Some (tun_dg ?st)) (of_nat (length dg)) ?st = Some (0, st')" "tun_good st'" by blast
  with assms(3) show ?thesis by (simp add: tun_connready_def Let_def)
qed

definition sample_dg :: bytes where
  "sample_dg = [0x45, 0x0, 0x0, 0x1e, 0x0, 0x0, 0x0, 0x0, 0x40, 0x1, 0x66, 0xdd, 0xa, 0x0, 0x0, 0x2, 0xa, 0x0, 0x0, 0x1, 0x8, 0x0, 0x96, 0x95, 0x0, 0x7, 0x0, 0x1, 0x61, 0x62]"

definition sample_tun :: "(nat \<Rightarrow> bytes list) tunstate" where
  "sample_tun = \<lparr>cs_conns = [4 \<mapsto> sample_conn], cs_nb = \<lambda>_. [], cs_nextcid = 2, cs_openconns = 1, cs_next = 5, cs_children = [],
     tun_if = Some 0, tun_ifconn = Some 4, tun_dg = replicate 65536 0\<rparr>"

lemma sample_stack_ok: "stack_ok zero_alloc sample_net"
  using net_reachable_ok [OF sample_net_reachable] total_zero_alloc
  by (simp add: stack_ok_def routes_bound_def sample_net_def)

theorem datagram_handled_witness:
  "\<exists>st'. tun_connready zero_alloc queue_ops 0
      (icmp_call zero_alloc (tun_outputfunc queue_ops 0) (Some 1) sample_net) (Some 1)
      [\<lparr>nip_protocol = 1, nip_mod = 2, nip_handler = 1\<rparr>] (Some 3) sample_dg 4 NAF_CONN_READY_READ sample_tun = Some (0, st') \<and> tun_good st'"
proof (rule datagram_handled)
  show "tun_good sample_tun" by (simp add: tun_good_def sample_tun_def)
  show "stack_ok zero_alloc sample_net" by (rule sample_stack_ok)
  show "ucast (raw_hl (iphdr_of sample_dg)) * 4 \<le> raw_len (iphdr_of sample_dg)" by code_simp
qed (simp_all add: sample_dg_def)

end
