(* ===== verification/Spec2Isabelle.thy ===== *)
theory Spec2Isabelle
  imports Proxy Cache Program Lmx Tun
begin

text \<open>
  timps, a transparent proxy for OSCAR (AIM) instant messaging, in C: the networked application
  framework \<^verbatim>\<open>src/naf\<close>, the generic node and message layer \<^verbatim>\<open>src/gnr\<close> and the proxy \<^verbatim>\<open>src/timps\<close>. AIM
  clients that connect to it are connected on to the real servers; login answers are rewritten so
  that the client comes back to the proxy; messages between two users that are both behind the proxy
  are delivered without leaving it.

  \<^bold>\<open>How the parts work together.\<close> The module manager starts the modules by priority and calls their
  functions. libnbio, a library outside the repository, watches descriptors and calls the connection
  layer, which calls the module that owns the connection. The oscar module reads FLAP frames off a
  connection, handles the ones of the login itself, hands SNAC packets to a dispatch table and passes
  everything else on to the other side of the session. Instant messages become messages of the
  generic layer, which runs its handlers and gives the message to the module that takes it. Who is
  online is in the node table of the generic layer. Data of one module about the objects of another
  are tags. TLV lists and dynamic buffers build and take apart packets.

  \<^bold>\<open>Which theory models what.\<close>
  \<^item> \<open>Prelude\<close>: C integers as words of their width, checked accesses to memory blocks, the allocator,
    C strings, network byte order (\<^verbatim>\<open>include/naf/nafbufutils.h\<close>). \<open>Interfaces\<close>: the contracts
    \<open>byte_sink\<close>, \<open>byte_source\<close> and \<open>keyed_list\<close>, each interpreted by its providers.
  \<^item> \<open>Sbuf\<close>: dynamic buffers, \<^verbatim>\<open>naf/sbuf.c\<close>; a put writes everything or nothing and stays in bounds,
    and what was put is read back; where growing goes wrong.
  \<^item> \<open>Tlv\<close>: type-length-value lists, \<^verbatim>\<open>naf/tlv.c\<close>; rendering and parsing are inverse, parsing with a limit
    returns, without one it may not.
  \<^item> \<open>Tags\<close>: tags, \<^verbatim>\<open>naf/tags.c\<close>; a tag list is a map. \<open>Ckcache\<close>: the login cookies,
    \<^verbatim>\<open>timps/oscar/ckcache.c\<close>. \<open>Names\<close>: comparing and hashing names.
  \<^item> \<open>GnrNode\<close>: the node table and the events, \<^verbatim>\<open>gnr/node.c\<close> and \<^verbatim>\<open>gnr/core.c\<close>; an invariant of every
    reachable state, lookups as searches, what going online, going offline and the timeout do.
    \<open>GnrMsg\<close>: routing, \<^verbatim>\<open>gnr/msg.c\<close>.
  \<^item> \<open>Conn\<close>, \<open>Modules\<close>, \<open>ConnLife\<close>, \<open>ConnFree\<close>: connections, \<^verbatim>\<open>naf/conn.c\<close>, and the module manager,
    \<^verbatim>\<open>naf/module.c\<close>. Closing a connection closes what depends on it and nothing else.
  \<^item> \<open>FlapOut\<close>, \<open>Snac\<close>, \<open>Icbm\<close>, \<open>FlapIn\<close>: the protocol, \<^verbatim>\<open>timps/oscar/flap.c\<close>, \<^verbatim>\<open>snac.c\<close> and \<^verbatim>\<open>im.c\<close>: frames in
    sequence, the login and its replay, messages in and out, reading and dispatching. \<open>Oscar\<close>: the
    module, \<^verbatim>\<open>oscar.c\<close>: routing, delivery, the keepalive timer. \<open>Proxy\<close>: the module under the connection
    layer: what the end of a connection closes, and which users it logs out. An event goes through the event handler of
    the connection layer, the closing of what depends on the connection and the tag destructor of the module.
  \<^item> \<open>Cache\<close>: the generic cache, \<^verbatim>\<open>naf/cache.c\<close>. \<open>Memory\<close>: the accounts and guards of allocated blocks and
    the pools, \<^verbatim>\<open>naf/memory.c\<close>: the accounts and their maxima are exact, a pool is a set. \<open>Config\<close>: parameters and configuration
    files, \<^verbatim>\<open>naf/nafconfig.c\<close>: the parameters are a map, reading ends for lines that fit the buffer and inverts printing. \<open>Stats\<close>: counters by name,
    \<^verbatim>\<open>naf/stats.c\<close>.
  \<^item> \<open>Rpc\<close>: remote procedure calls, \<^verbatim>\<open>naf/rpc.c\<close>: argument trees, methods, dispatch, with the contracts \<open>rpc_method\<close> and
    \<open>rpc_program\<close>. \<open>Admin\<close>: the methods of the modules, \<^verbatim>\<open>naf/core.c\<close>, \<^verbatim>\<open>module.c\<close>, \<^verbatim>\<open>conn.c\<close>, \<^verbatim>\<open>gnr/node.c\<close>, \<^verbatim>\<open>gnr/msg.c\<close>,
    \<^verbatim>\<open>timps/oscar/oscar.c\<close>. \<open>Program\<close>: all of them, with those of the packet stack and
    of the oscar module, registered in one program, which answers every call but the one that ends it.
  \<^item> \<open>Lmx\<close>: trees of XML, \<^verbatim>\<open>libmx/src/lmx.c\<close>: lengths are \<^verbatim>\<open>int\<close>, so text of \<open>2 ^ 31\<close> bytes is undefined;
    below that the writer fills the block it computed exactly and character data come back as they were.
  \<^item> \<open>Net\<close>, \<open>Ipv4\<close>, \<open>Icmpv4\<close>, \<open>Tun\<close>: the user-space network stack, \<^verbatim>\<open>naf/ipv4\<close>: interfaces and routes, packets in and
    out, echo, the tunnel device. A handler of a protocol is an \<open>ip_handler\<close>, an interface an \<open>ip_sender\<close>; a sender
    makes the control protocol a handler, and the tunnel is a sender, so that datagrams of up to 32000 bytes
    are handled, whatever is in them behind a header that is not longer than the packet.

  \<^bold>\<open>Conventions.\<close> The definitions have the names of the C functions. An operation gives an option;
  \<open>None\<close> stands for undefined behaviour: an access out of bounds, through a null pointer or to an object
  that is gone, or a loop that does not end. A pointer that the code compares with null is an option. A
  C string is the list of its bytes without the terminator. Error codes are the integers of the code.
  State is passed explicitly: connections, the node table and the state of the oscar module are one
  extensible record, connections and nodes are found by address. \<^verbatim>\<open>long\<close> has 64 bits. Memory that is
  released is not reused, and a release is only modelled where the code later looks at what it
  released.

  \<^bold>\<open>Parameters.\<close> The allocator (\<open>mal\<close>: which requests are refused, and what fresh memory holds), the
  time, random numbers, libnbio with the sockets (\<open>nbio_ops\<close>), the dynamic linker and the values of the
  configuration. Theorems about libnbio name what they rely on: \<open>nb_closes\<close> says that closing takes a
  descriptor off the list and touches no other.

  \<^bold>\<open>Bounds and fuel.\<close> Closing a connection may close others, through two loops over all descriptors;
  \<open>conn_free_fuel\<close> has one more step than there are descriptors, which is enough because every nested
  call closes one (\<open>naf_conn_free_closes\<close> shows that the fuel is never used up). Loops over unlimited
  input that may not end are \<open>partial_function (option)\<close>. Everything else is recursion on data. Sizes are bounded where the
  code goes wrong beyond: login TLVs of 496 bytes (a full buffer drops the rest), 32512 bytes for a put into a buffer and 32000
  for a datagram (16-bit lengths wrap), lines of 512 bytes in a configuration file. Theorems and their texts state these bounds.

  \<^bold>\<open>What is not modelled.\<close> Output: the log, debug dumps, the listings of the console. Start of the
  program, signals and daemon mode (\<^verbatim>\<open>timps/timps.c\<close>, \<^verbatim>\<open>naf/daemon.c\<close>, \<^verbatim>\<open>naf/core.c\<close>): system calls only.
  The http server and the loadable modules (console, OTR over a library that is not part of the
  repository): outside the path of the proxy.
\<close>

end
